(* ===== verification/Prelude.thy ===== *)
theory Prelude
  imports Main "HOL-Library.Word" "HOL-Library.Monad_Syntax"
begin

text \<open>
  Shared vocabulary of the development: the machine integer types, the arithmetic and flag
  macros of \<^verbatim>\<open>kernel/libcrt/math/math.h\<close> and \<^verbatim>\<open>tools/filesystem/tools.h\<close>, little-endian
  byte encodings of words, byte-addressed memory, and the generic lemmas on lists, words and
  block copies that the component theories use.
\<close>

unbundle bit_operations_syntax

type_synonym u8 = "8 word"
type_synonym u16 = "16 word"
type_synonym u32 = "32 word"
type_synonym u48 = "48 word"
type_synonym u64 = "64 word"
type_synonym bytes = "8 word list"

text \<open>Physical and virtual memory: a byte for every 64-bit address.\<close>

type_synonym memory = "64 word \<Rightarrow> 8 word"

named_theorems c_simps \<open>unfolding rules for the C macros and small helpers\<close>
named_theorems frame_simps \<open>what an operation leaves unchanged\<close>

subsection \<open>The arithmetic and flag macros\<close>

text \<open>\<open>__min\<close>, \<open>__max\<close> and \<open>__clamp\<close> with the comparisons of the source.\<close>

definition c_min :: "'a::linorder \<Rightarrow> 'a \<Rightarrow> 'a" where
  "c_min a b = (if a > b then b else a)"

definition c_max :: "'a::linorder \<Rightarrow> 'a \<Rightarrow> 'a" where
  "c_max a b = (if b > a then b else a)"

definition c_clamp :: "'a::linorder \<Rightarrow> 'a \<Rightarrow> 'a \<Rightarrow> 'a" where
  "c_clamp a b n = (if n > a then (if n < b then n else b) else a)"

text \<open>
  \<open>__set\<close> is written with \<open>&=\<close> in the source, so it keeps only the bits of the flag;
  \<open>__uset\<close> clears the flag and \<open>__check\<close> tests that every bit of it is set.
\<close>

definition flag_set :: "'a::len word \<Rightarrow> 'a word \<Rightarrow> 'a word" where
  "flag_set a f = a AND f"

definition flag_uset :: "'a::len word \<Rightarrow> 'a word \<Rightarrow> 'a word" where
  "flag_uset a f = a AND NOT f"

definition flag_check :: "'a::len word \<Rightarrow> 'a word \<Rightarrow> bool" where
  "flag_check a f = (a AND f = f)"

text \<open>\<open>__roundup\<close> and \<open>__rounddown\<close> in the width of their first argument.\<close>

definition c_roundup :: "'a::len word \<Rightarrow> 'a word \<Rightarrow> 'a word" where
  "c_roundup a i = ((a + (i - 1)) div i) * i"

definition c_rounddown :: "'a::len word \<Rightarrow> 'a word \<Rightarrow> 'a word" where
  "c_rounddown a i = ((a - (i + 1)) div i) * i"

text \<open>\<open>__safediv\<close>: a division whose value is 1 when the divisor is 0.\<close>

definition safediv :: "'a::len word \<Rightarrow> 'a word \<Rightarrow> 'a word" where
  "safediv a b = (if b \<noteq> 0 then a div b else 1)"

lemmas flag_defs [c_simps] = flag_set_def flag_uset_def flag_check_def

lemma flag_check_zero [simp]: "flag_check a 0"
  by (simp add: flag_check_def)

lemma flag_uset_check: "f \<noteq> 0 \<Longrightarrow> \<not> flag_check (flag_uset a f) f"
proof
  assume f: "f \<noteq> 0" and c: "flag_check (flag_uset a f) f"
  have "(a AND NOT f) AND f = 0"
    by (simp add: and.assoc)
  with c f show False by (simp add: flag_defs)
qed

text \<open>\<open>&=\<close> cannot raise a flag that was clear.\<close>

lemma flag_set_keeps_clear: "\<not> flag_check a f \<Longrightarrow> \<not> flag_check (flag_set a f) f"
  by (simp add: flag_defs and.assoc)

lemma flag_uset_keeps_clear: "\<not> flag_check a f \<Longrightarrow> \<not> flag_check (flag_uset a g) f"
proof
  assume n: "\<not> flag_check a f" and "flag_check (flag_uset a g) f"
  then have "(a AND NOT g) AND f = f" by (simp add: flag_defs)
  then have "a AND f = f" by (metis and.assoc and.commute and.left_idem)
  with n show False by (simp add: flag_defs)
qed

subsection \<open>Unsigned readings of word arithmetic\<close>

lemma unat_add_small:
  fixes a b :: "'a::len word"
  shows "unat a + unat b < 2 ^ LENGTH('a) \<Longrightarrow> unat (a + b) = unat a + unat b"
  by (simp add: unat_word_ariths)

lemma unat_mult_small:
  fixes a b :: "'a::len word"
  shows "unat a * unat b < 2 ^ LENGTH('a) \<Longrightarrow> unat (a * b) = unat a * unat b"
  by (simp add: unat_word_ariths)

lemma unat_sub_small:
  fixes a b :: "'a::len word"
  shows "unat b \<le> unat a \<Longrightarrow> unat (a - b) = unat a - unat b"
  by (metis unat_sub word_le_nat_alt)

lemma unat_pred:
  fixes a :: "'a::len word"
  assumes "a \<noteq> 0"
  shows "unat a = Suc (unat (a - 1))"
proof -
  have "0 < unat a" using assms by (simp add: unat_gt_0)
  then have "unat (1 :: 'a word) \<le> unat a" by simp
  from unat_sub_small [OF this] \<open>0 < unat a\<close> show ?thesis by simp
qed

lemma c_roundup_unat:
  fixes a i :: "'a::len word"
  assumes "0 < unat i" and "unat a + unat i \<le> 2 ^ LENGTH('a)"
  shows "unat (c_roundup a i) = (unat a + unat i - 1) div unat i * unat i"
proof -
  have i1: "unat (i - 1) = unat i - 1"
    using assms(1) by (metis One_nat_def Suc_leI unat_1 unat_sub_small word_not_simps(1)
        unat_eq_zero less_numeral_extra(3))
  have s: "unat (a + (i - 1)) = unat a + unat i - 1"
    using assms by (subst unat_add_small) (auto simp: i1)
  have "(unat a + unat i - 1) div unat i * unat i < 2 ^ LENGTH('a)"
    using assms div_times_less_eq_dividend [of "unat a + unat i - 1" "unat i"] by linarith
  then show ?thesis
    by (simp add: c_roundup_def unat_mult_small unat_div_distrib s)
qed

subsection \<open>Ranges\<close>

lemma upt_split: "i \<le> j \<Longrightarrow> j \<le> k \<Longrightarrow> [i..<k] = [i..<j] @ [j..<k]"
  by (metis le_add_diff_inverse upt_add_eq_append)

subsection \<open>Little-endian readings of byte strings\<close>

fun le_nat :: "bytes \<Rightarrow> nat" where
  "le_nat [] = 0"
| "le_nat (b # bs) = unat b + 256 * le_nat bs"

fun le_bytes :: "nat \<Rightarrow> nat \<Rightarrow> bytes" where
  "le_bytes 0 v = []"
| "le_bytes (Suc k) v = of_nat (v mod 256) # le_bytes k (v div 256)"

lemma length_le_bytes [simp]: "length (le_bytes k v) = k"
  by (induction k arbitrary: v) auto

lemma unat_byte_less: "unat (b :: u8) < 256"
  using unsigned_less [of b, where 'a = nat] by simp

lemma unat_u64_less: "unat (x :: u64) < 2 ^ 64"
  using unsigned_less [of x, where 'a = nat] by simp

lemma bit_u8_ge: "8 \<le> n \<Longrightarrow> \<not> bit (v :: u8) n"
  using bit_imp_le_length [of v n] by auto

lemma le_nat_less: "le_nat bs < 256 ^ length bs"
proof (induction bs)
  case (Cons b bs)
  have "unat b + 256 * le_nat bs < 256 * (le_nat bs + 1)"
    using unat_byte_less [of b] by simp
  also have "\<dots> \<le> 256 * 256 ^ length bs"
    using Cons by (intro mult_le_mono2) simp
  finally show ?case by simp
qed simp

lemma le_nat_inject:
  "length as = length bs \<Longrightarrow> le_nat as = le_nat bs \<longleftrightarrow> as = bs"
proof (induction as bs rule: list_induct2)
  case (Cons a as b bs)
  have "unat a = unat b \<and> le_nat as = le_nat bs"
    if "unat a + 256 * le_nat as = unat b + 256 * le_nat bs"
  proof -
    have "(unat a + 256 * le_nat as) mod 256 = (unat b + 256 * le_nat bs) mod 256"
      using that by (rule arg_cong)
    then have "unat a = unat b"
      using unat_byte_less [of a] unat_byte_less [of b] by simp
    with that show ?thesis by simp
  qed
  with Cons show ?case by (auto simp: word_unat_eq_iff)
qed simp

lemma le_nat_le_bytes: "le_nat (le_bytes k v) = v mod 256 ^ k"
proof (induction k arbitrary: v)
  case (Suc k)
  have "unat (of_nat (v mod 256) :: u8) = v mod 256"
    by (simp add: unat_of_nat)
  with Suc show ?case
    by (simp add: mod_mult2_eq)
qed simp

lemma le_bytes_le_nat: "le_bytes (length bs) (le_nat bs) = bs"
proof -
  have "le_nat (le_bytes (length bs) (le_nat bs)) = le_nat bs"
    using le_nat_less [of bs] by (simp add: le_nat_le_bytes)
  then show ?thesis by (simp add: le_nat_inject)
qed

subsection \<open>Byte-addressed memory\<close>

definition read_bytes :: "memory \<Rightarrow> u64 \<Rightarrow> nat \<Rightarrow> bytes" where
  "read_bytes m a n = map (\<lambda>i. m (a + of_nat i)) [0..<n]"

fun write_bytes :: "memory \<Rightarrow> u64 \<Rightarrow> bytes \<Rightarrow> memory" where
  "write_bytes m a [] = m"
| "write_bytes m a (b # bs) = write_bytes (m(a := b)) (a + 1) bs"

lemma length_read_bytes [simp]: "length (read_bytes m a n) = n"
  by (simp add: read_bytes_def)

lemma unat_offset_inject:
  assumes "i < 2 ^ 64" "j < 2 ^ 64" "(of_nat i :: u64) = of_nat j"
  shows "i = j"
proof -
  have "unat (of_nat i :: u64) = unat (of_nat j :: u64)" using assms(3) by simp
  with assms(1,2) show ?thesis by (simp add: unat_of_nat)
qed

text \<open>An address \<open>x\<close> lies at offset \<open>unat (x - a)\<close> of a region that starts at \<open>a\<close>.\<close>

lemma write_bytes_nth:
  assumes "length bs \<le> 2 ^ 64"
  shows "write_bytes m a bs x =
    (if unat (x - a) < length bs then bs ! unat (x - a) else m x)"
  using assms
proof (induction bs arbitrary: m a)
  case (Cons b bs)
  show ?case
  proof (cases "x = a")
    case True
    have "\<not> unat (x - (a + 1)) < length bs"
    proof -
      have "x - (a + 1) = - 1" using True by simp
      then have "unat (x - (a + 1)) = 2 ^ 64 - 1" by (simp add: unsigned_minus_1_eq_mask mask_eq_exp_minus_1)
      then show ?thesis using Cons.prems by simp
    qed
    with True Cons show ?thesis by simp
  next
    case False
    then have "unat (x - a) = Suc (unat (x - (a + 1)))"
      by (simp add: unat_pred diff_diff_eq [symmetric])
    with False Cons show ?thesis by simp
  qed
qed simp


lemma write_bytes_append:
  "write_bytes m a (xs @ ys) = write_bytes (write_bytes m a xs) (a + of_nat (length xs)) ys"
  by (induction xs arbitrary: m a) (simp_all add: algebra_simps)

lemma read_bytes_nth [simp]: "i < n \<Longrightarrow> read_bytes m a n ! i = m (a + of_nat i)"
  by (simp add: read_bytes_def)

lemma read_bytes_add:
  "read_bytes m a (j + k) = read_bytes m a j @ read_bytes m (a + of_nat j) k"
  by (rule nth_equalityI) (auto simp: nth_append algebra_simps of_nat_diff)

lemma read_bytes_cong:
  "(\<And>i. i < n \<Longrightarrow> m (a + of_nat i) = m' (a + of_nat i)) \<Longrightarrow> read_bytes m a n = read_bytes m' a n"
  by (simp add: read_bytes_def)

lemma read_write_bytes:
  assumes "length bs \<le> 2 ^ 64"
  shows "read_bytes (write_bytes m a bs) a (length bs) = bs"
proof (rule nth_equalityI)
  fix i assume "i < length (read_bytes (write_bytes m a bs) a (length bs))"
  then have i: "i < length bs" "unat (of_nat i :: u64) = i"
    using assms by (simp_all add: unat_of_nat)
  then show "read_bytes (write_bytes m a bs) a (length bs) ! i = bs ! i"
    using assms by (simp add: write_bytes_nth)
qed simp

text \<open>Two regions of \<open>n\<close> bytes with no address in common.\<close>

definition disjoint_regions :: "u64 \<Rightarrow> nat \<Rightarrow> u64 \<Rightarrow> nat \<Rightarrow> bool" where
  "disjoint_regions a j b k = (\<forall>i < j. \<forall>l < k. a + of_nat i \<noteq> b + of_nat l)"

lemma write_bytes_other:
  assumes "length bs \<le> 2 ^ 64" and "\<And>i. i < length bs \<Longrightarrow> x \<noteq> a + of_nat i"
  shows "write_bytes m a bs x = m x"
proof -
  have "x = a + of_nat (unat (x - a))" by simp
  then have "\<not> unat (x - a) < length bs" using assms(2) by blast
  then show ?thesis using assms(1) by (simp add: write_bytes_nth)
qed

lemma read_bytes_frame:
  assumes "length bs \<le> 2 ^ 64" and "disjoint_regions a (length bs) b n"
  shows "read_bytes (write_bytes m a bs) b n = read_bytes m b n"
  using assms by (intro read_bytes_cong write_bytes_other)
    (auto simp: disjoint_regions_def, metis)

lemma le_bytes_word:
  fixes w :: "'a::len word"
  shows "le_bytes k (unat w) = map (\<lambda>i. ucast (drop_bit (8 * i) w)) [0..<k]"
proof (induction k arbitrary: w)
  case (Suc k)
  have "unat w div 256 = unat (drop_bit 8 w)"
    by (simp only: unat_drop_bit_eq) (simp add: drop_bit_eq_div)
  moreover have "(of_nat (unat w mod 256) :: u8) = ucast w"
    by (simp add: word_unat_eq_iff unat_of_nat unsigned_ucast_eq take_bit_eq_mod)
  moreover have "[0..<Suc k] = 0 # map Suc [0..<k]"
    by (simp add: map_Suc_upt upt_conv_Cons)
  ultimately show ?case
    by (simp add: Suc drop_bit_drop_bit comp_def add.commute del: upt_Suc)
qed simp

end
