(* ===== verification/SSE_Registers.thy ===== *)
theory SSE_Registers
  imports Prelude
begin

text \<open>
  The SIMD register pool of \<^verbatim>\<open>kernel/libcrt/hardware/SSE/SSE.c\<close>: sixteen register stores, each
  with a bitmap of the registers handed out, and the register moves that the memory routines
  use.  The bitmap is an array of \<open>bool\<close> in \<^verbatim>\<open>SSE.h\<close>, so a compound assignment to one of its
  entries normalises the stored value to 0 or 1; \<open>c_bool\<close> writes this conversion out.  The
  addresses that \<open>pushSSE\<close> and \<open>popSSE\<close> test follow the layout of \<open>SSEStore\<close>: \<open>Enabled\<close> at offset
  0, the 512-byte area at offset 1, the bitmap behind it, 528 bytes in all.  The processor's
  \<open>fxsave\<close> and \<open>fxrstor\<close> are parameters.
\<close>

section \<open>State\<close>

definition NXmmRegisters :: nat where "NXmmRegisters = 32"
definition registerBitmapLength :: nat where "registerBitmapLength = NXmmRegisters div 8"
definition NSSEStores :: nat where "NSSEStores = 16"
definition SSEStoreSize :: nat where "SSEStoreSize = 512"
definition sizeof_SSEStore :: nat where "sizeof_SSEStore = 528"

lemmas sse_consts [c_simps] = NXmmRegisters_def registerBitmapLength_def NSSEStores_def
  SSEStoreSize_def sizeof_SSEStore_def

record xmmRegister =
  xr_store :: u16
  xr_Register :: u16

record SSEStore =
  Enabled :: bool
  area :: bytes
  registerBitmap :: "bool list"

record sse_state =
  Stores :: "SSEStore list"
  Stores_base :: u64
  sse_supported :: bool
  xmm :: "nat \<Rightarrow> bytes"

text \<open>The processor's save and restore of the register file.\<close>

record fx_unit =
  fxsave :: "(nat \<Rightarrow> bytes) \<Rightarrow> bytes"
  fxrstor :: "bytes \<Rightarrow> nat \<Rightarrow> bytes"

definition c_bool :: "u32 \<Rightarrow> bool" where
  "c_bool w = (w \<noteq> 0)"

section \<open>The save and restore routines\<close>

datatype sse_error = NotEnabled | AlignedMemoryError | EnoughBytesError

definition pushSSE :: "fx_unit \<Rightarrow> sse_state \<Rightarrow> u64 \<Rightarrow> nat \<Rightarrow> sse_error + bytes" where
  "pushSSE fx st ptr sz =
    (if \<not> sse_supported st then Inl NotEnabled
     else if ptr mod 0x16 \<noteq> 0 then Inl AlignedMemoryError
     else if sz \<noteq> SSEStoreSize then Inl EnoughBytesError
     else Inr (fxsave fx (xmm st)))"

definition popSSE :: "fx_unit \<Rightarrow> sse_state \<Rightarrow> u64 \<Rightarrow> bytes \<Rightarrow> nat \<Rightarrow> sse_error + (nat \<Rightarrow> bytes)" where
  "popSSE fx st ptr bs sz =
    (if \<not> sse_supported st then Inl NotEnabled
     else if ptr mod 16 \<noteq> 0 then Inl AlignedMemoryError
     else if sz \<noteq> SSEStoreSize then Inl EnoughBytesError
     else Inr (fxrstor fx bs))"

definition area_address :: "sse_state \<Rightarrow> nat \<Rightarrow> u64" where
  "area_address st cc = Stores_base st + of_nat (cc * sizeof_SSEStore) + 1"

section \<open>The register pool\<close>

definition store_update :: "nat \<Rightarrow> (SSEStore \<Rightarrow> SSEStore) \<Rightarrow> sse_state \<Rightarrow> sse_state" where
  "store_update cc f st = st\<lparr>Stores := (Stores st)[cc := f (Stores st ! cc)]\<rparr>"

text \<open>
  The scan of one store: \<open>None\<close> when the loop over the bitmap falls through, otherwise the
  value the function returns, with the register written to \<open>*out\<close>.
\<close>

fun alloc_scan_bytes ::
  "sse_state \<Rightarrow> nat \<Rightarrow> nat list \<Rightarrow> (sse_state \<times> xmmRegister option) option" where
  "alloc_scan_bytes st cc [] = None"
| "alloc_scan_bytes st cc (byteIdx # rest) =
    (let currentByte = of_bool (registerBitmap (Stores st ! cc) ! byteIdx) :: u8 in
     if currentByte = 0xFF then alloc_scan_bytes st cc rest
     else case List.find (\<lambda>bitIdx. ucast currentByte AND push_bit bitIdx (1 :: u32) = 0) [0..<8] of
       None \<Rightarrow> alloc_scan_bytes st cc rest
     | Some bitIdx \<Rightarrow>
         let regID = byteIdx * 8 + bitIdx in
         if regID \<ge> NXmmRegisters then Some (st, None)
         else Some
           (store_update cc
              (\<lambda>s. s\<lparr>registerBitmap := (registerBitmap s)
                  [byteIdx := c_bool (of_bool (registerBitmap s ! byteIdx)
                                      OR push_bit bitIdx 1)]\<rparr>) st,
            Some \<lparr>xr_store = of_nat cc, xr_Register = of_nat regID\<rparr>))"

fun alloc_scan_stores :: "sse_state \<Rightarrow> nat list \<Rightarrow> sse_state \<times> xmmRegister option" where
  "alloc_scan_stores st [] = (st, None)"
| "alloc_scan_stores st (cc # rest) =
    (if Enabled (Stores st ! cc) then
       (case alloc_scan_bytes st cc [0..<registerBitmapLength] of
          None \<Rightarrow> alloc_scan_stores st rest
        | Some r \<Rightarrow> r)
     else alloc_scan_stores st rest)"

definition AllocateSSERegister :: "sse_state \<Rightarrow> sse_state \<times> xmmRegister option" where
  "AllocateSSERegister st = alloc_scan_stores st [0..<NSSEStores]"

definition FreeSSERegister :: "xmmRegister \<Rightarrow> sse_state \<Rightarrow> bool \<times> sse_state" where
  "FreeSSERegister r st =
    (let byteIdx = unat (xr_Register r) div 8; bitIdx = unat (xr_Register r) mod 8;
         cc = unat (xr_store r) in
     if cc < NSSEStores \<and> unat (xr_Register r) < NXmmRegisters
        \<and> byteIdx < registerBitmapLength then
       (True, store_update cc
          (\<lambda>s. s\<lparr>registerBitmap := (registerBitmap s)
              [byteIdx := c_bool (of_bool (registerBitmap s ! byteIdx)
                                  AND NOT (push_bit bitIdx 1))]\<rparr>) st)
     else (False, st))"

fun push_scan :: "fx_unit \<Rightarrow> sse_state \<Rightarrow> nat list \<Rightarrow> sse_state \<times> bool \<times> nat option" where
  "push_scan fx st [] = (st, False, None)"
| "push_scan fx st (cc # rest) =
    (if \<not> Enabled (Stores st ! cc) then
       let st1 = store_update cc
             (\<lambda>s. s\<lparr>Enabled := True,
                    registerBitmap := replicate (length (registerBitmap s)) False\<rparr>) st
       in (case pushSSE fx st1 (area_address st1 cc) SSEStoreSize of
             Inl e \<Rightarrow> (st1, False, Some cc)
           | Inr bs \<Rightarrow> (store_update cc (\<lambda>s. s\<lparr>area := bs\<rparr>) st1, True, Some cc))
     else push_scan fx st rest)"

text \<open>The result is the new state, the returned flag and the value written through \<open>N\<close>.\<close>

definition pushStore :: "fx_unit \<Rightarrow> sse_state \<Rightarrow> sse_state \<times> bool \<times> nat option" where
  "pushStore fx st = push_scan fx st [0..<NSSEStores]"

definition popStore :: "fx_unit \<Rightarrow> nat \<Rightarrow> sse_state \<Rightarrow> sse_state \<times> bool" where
  "popStore fx N st =
    (if N < NSSEStores \<and> Enabled (Stores st ! N) then
       let st1 = store_update N (\<lambda>s. s\<lparr>Enabled := False\<rparr>) st
       in (case popSSE fx st1 (area_address st1 N) (area (Stores st1 ! N)) SSEStoreSize of
             Inl e \<Rightarrow> (st1, False)
           | Inr regs \<Rightarrow> (st1\<lparr>xmm := regs\<rparr>, True))
     else (st, False))"

definition switchCurrentStore ::
  "fx_unit \<Rightarrow> nat \<Rightarrow> bool \<Rightarrow> sse_state \<Rightarrow> sse_state \<times> bool \<times> nat option" where
  "switchCurrentStore fx N want_previous st =
    (if N < NSSEStores \<and> Enabled (Stores st ! N) then
       let (st1, previous) =
             (if want_previous then (case pushStore fx st of (s, _, p) \<Rightarrow> (s, p)) else (st, None));
           (st2, ok) = popStore fx N st1
       in (st2, ok, previous)
     else (st, False, None))"

section \<open>Register moves\<close>

text \<open>
  \<open>StoreUAlignedIntegers\<close> moves sixteen bytes of memory into the register and
  \<open>LoadUAlignedIntegers\<close> moves the register to memory; both refuse register 15 and above.
\<close>

definition StoreUAlignedIntegers :: "xmmRegister \<Rightarrow> bytes \<Rightarrow> sse_state \<Rightarrow> bool \<times> sse_state" where
  "StoreUAlignedIntegers reg bs st =
    (if xr_Register reg \<ge> 15 then (False, st)
     else (True, st\<lparr>xmm := (xmm st)(unat (xr_Register reg) := bs)\<rparr>))"

definition LoadUAlignedIntegers ::
  "xmmRegister \<Rightarrow> u64 \<Rightarrow> sse_state \<Rightarrow> memory \<Rightarrow> bool \<times> memory" where
  "LoadUAlignedIntegers reg ptr st m =
    (if xr_Register reg \<ge> 15 then (False, m)
     else (True, write_bytes m ptr (xmm st (unat (xr_Register reg)))))"

section \<open>Well-formedness and the behaviour of the pool\<close>

definition wf_store :: "SSEStore \<Rightarrow> bool" where
  "wf_store s = (length (registerBitmap s) = registerBitmapLength)"

definition wf_sse :: "sse_state \<Rightarrow> bool" where
  "wf_sse st = (length (Stores st) = NSSEStores \<and> list_all wf_store (Stores st)
     \<and> unat (Stores_base st) mod 16 = 0
     \<and> unat (Stores_base st) + NSSEStores * sizeof_SSEStore < 2 ^ 64)"

lemma wf_sse_nth: "wf_sse st \<Longrightarrow> cc < NSSEStores \<Longrightarrow> wf_store (Stores st ! cc)"
  by (simp add: wf_sse_def list_all_length)

lemma wf_store_update:
  assumes "wf_sse st" and "cc < NSSEStores" and "\<And>s. wf_store s \<Longrightarrow> wf_store (f s)"
  shows "wf_sse (store_update cc f st)"
  using assms wf_sse_nth [OF assms(1,2)]
  by (auto simp: wf_sse_def store_update_def list_all_length nth_list_update)

lemma store_update_same:
  "wf_sse st \<Longrightarrow> cc < NSSEStores \<Longrightarrow> Stores (store_update cc f st) ! cc = f (Stores st ! cc)"
  by (simp add: store_update_def wf_sse_def)

text \<open>The bit scan of a byte that came from a \<open>bool\<close> stops at bit 0 or at bit 1.\<close>

lemma find_clear_bit:
  "List.find (\<lambda>bitIdx. ucast (of_bool b :: u8) AND push_bit bitIdx (1 :: u32) = 0) [0..<8]
    = Some (if b then 1 else 0)"
  by (simp add: upt_rec)

lemma c_bool_or: "c_bool (of_bool b OR push_bit n 1) \<longleftrightarrow> b \<or> n < 32"
  by (cases b) (auto simp: c_bool_def bit_eq_iff [where 'a = u32] bit_simps intro: exI [of _ 0])

lemma c_bool_and_not: "c_bool (of_bool b AND NOT (push_bit n 1)) \<longleftrightarrow> b \<and> n \<noteq> 0"
  by (cases b) (auto simp: c_bool_def bit_eq_iff [where 'a = u32] bit_simps)


lemma alloc_scan_bytes_first:
  assumes "wf_sse st" and "cc < NSSEStores"
  shows "alloc_scan_bytes st cc [0..<registerBitmapLength] =
    Some (store_update cc (\<lambda>s. s\<lparr>registerBitmap := (registerBitmap s)[0 := True]\<rparr>) st,
          Some \<lparr>xr_store = of_nat cc,
                xr_Register = (if registerBitmap (Stores st ! cc) ! 0 then 1 else 0)\<rparr>)"
proof -
  have 1: "[0..<registerBitmapLength] = 0 # [1..<4]" by (simp add: sse_consts upt_rec)
  have 2: "(of_bool b :: u8) \<noteq> 0xFF" for b by (cases b) simp_all
  show ?thesis
    unfolding 1 alloc_scan_bytes.simps Let_def find_clear_bit if_not_P [OF 2] option.case c_bool_or
    by (simp add: sse_consts)
qed

definition first_enabled :: "sse_state \<Rightarrow> nat option" where
  "first_enabled st = List.find (\<lambda>cc. Enabled (Stores st ! cc)) [0..<NSSEStores]"

lemma alloc_scan_stores_find:
  assumes "wf_sse st" and "set ccs \<subseteq> {0..<NSSEStores}"
  shows "alloc_scan_stores st ccs =
    (case List.find (\<lambda>cc. Enabled (Stores st ! cc)) ccs of
       None \<Rightarrow> (st, None)
     | Some cc \<Rightarrow> the (alloc_scan_bytes st cc [0..<registerBitmapLength]))"
  using assms by (induction ccs) (auto simp: alloc_scan_bytes_first)

text \<open>Allocation in closed form.\<close>

lemma AllocateSSERegister_eq:
  assumes "wf_sse st"
  shows "AllocateSSERegister st =
    (case first_enabled st of
       None \<Rightarrow> (st, None)
     | Some cc \<Rightarrow>
        (store_update cc (\<lambda>s. s\<lparr>registerBitmap := (registerBitmap s)[0 := True]\<rparr>) st,
         Some \<lparr>xr_store = of_nat cc,
               xr_Register = (if registerBitmap (Stores st ! cc) ! 0 then 1 else 0)\<rparr>))"
proof (cases "first_enabled st")
  case None
  then show ?thesis
    using alloc_scan_stores_find [OF assms, of "[0..<NSSEStores]"]
    by (simp add: AllocateSSERegister_def first_enabled_def)
next
  case (Some cc)
  then have "cc < NSSEStores"
    by (auto simp: first_enabled_def find_Some_iff)
  with Some show ?thesis
    using alloc_scan_stores_find [OF assms, of "[0..<NSSEStores]"]
    by (simp add: AllocateSSERegister_def first_enabled_def alloc_scan_bytes_first [OF assms])
qed

lemma first_enabled_less: "first_enabled st = Some cc \<Longrightarrow> cc < NSSEStores"
  by (auto simp: first_enabled_def find_Some_iff)

lemma wf_AllocateSSERegister: "wf_sse st \<Longrightarrow> wf_sse (fst (AllocateSSERegister st))"
  by (auto simp: AllocateSSERegister_eq wf_store_def split: option.split
      intro!: wf_store_update dest: first_enabled_less)

lemma AllocateSSERegister_usable:
  "wf_sse st \<Longrightarrow> AllocateSSERegister st = (st', Some r) \<Longrightarrow> xr_Register r < 15"
  by (auto simp: AllocateSSERegister_eq split: option.splits)

lemma wf_FreeSSERegister: "wf_sse st \<Longrightarrow> wf_sse (snd (FreeSSERegister r st))"
  by (auto simp: FreeSSERegister_def Let_def wf_store_def intro!: wf_store_update)

lemma wf_push_scan:
  "wf_sse st \<Longrightarrow> set ccs \<subseteq> {0..<NSSEStores} \<Longrightarrow> wf_sse (fst (push_scan fx st ccs))"
proof (induction ccs)
  case (Cons cc ccs)
  have "wf_sse (store_update cc (\<lambda>s. s\<lparr>area := bs\<rparr>) s')"
    if "wf_sse s'" for bs s'
    using that Cons.prems by (intro wf_store_update) (auto simp: wf_store_def)
  moreover have "wf_sse (store_update cc (\<lambda>s. s\<lparr>Enabled := True,
      registerBitmap := replicate (length (registerBitmap s)) False\<rparr>) st)"
    using Cons.prems by (intro wf_store_update) (auto simp: wf_store_def)
  ultimately show ?case
    using Cons by (auto simp: Let_def split: sum.split)
qed simp

lemma wf_pushStore: "wf_sse st \<Longrightarrow> wf_sse (fst (pushStore fx st))"
  by (simp add: pushStore_def wf_push_scan)

lemma wf_popStore:
  assumes "wf_sse st"
  shows "wf_sse (fst (popStore fx N st))"
proof -
  have "wf_sse (store_update N (\<lambda>s. s\<lparr>Enabled := False\<rparr>) st)" if "N < NSSEStores"
    using assms that by (intro wf_store_update) (auto simp: wf_store_def)
  moreover have "wf_sse (s\<lparr>xmm := r\<rparr>) = wf_sse s" for s r
    by (simp add: wf_sse_def)
  ultimately show ?thesis
    using assms by (auto simp: popStore_def Let_def split: sum.split)
qed

section \<open>The address tests of the save area\<close>

lemma area_address_odd:
  assumes "wf_sse st" and "cc < NSSEStores"
  shows "unat (area_address st cc) mod 16 = 1"
proof -
  have b: "unat (Stores_base st) + cc * 528 + 1 < 2 ^ 64"
    using assms by (simp add: wf_sse_def sse_consts)
  have c: "unat (of_nat (cc * 528) :: u64) = cc * 528"
    using assms(2) by (simp only: unat_of_nat) (simp add: sse_consts)
  have "unat (Stores_base st + of_nat (cc * 528)) = unat (Stores_base st) + cc * 528"
    using b by (subst unat_add_small) (simp_all only: c, simp)
  then have "unat (area_address st cc) = unat (Stores_base st) + cc * 528 + 1"
    using b unfolding area_address_def sizeof_SSEStore_def
    by (subst unat_add_small) simp_all
  moreover have "(unat (Stores_base st) + cc * 528 + 1) mod 16 = 1"
  proof -
    have "unat (Stores_base st) mod 16 = 0" using assms(1) by (simp add: wf_sse_def)
    then obtain k where "unat (Stores_base st) = 16 * k" by auto
    moreover have "16 * k + cc * 528 + 1 = 1 + (k + cc * 33) * 16" by simp
    ultimately show ?thesis by (simp only: mod_mult_self1) simp
  qed
  ultimately show ?thesis by simp
qed

lemma area_address_rejected:
  assumes "wf_sse st" and "cc < NSSEStores"
  shows "area_address st cc mod 0x16 \<noteq> 0" and "area_address st cc mod 16 \<noteq> 0"
proof -
  let ?a = "unat (area_address st cc)"
  have o: "?a mod 16 = 1" by (rule area_address_odd [OF assms])
  then have "?a mod 2 = 1" by presburger
  then have "?a mod 22 \<noteq> 0" by presburger
  then show "area_address st cc mod 0x16 \<noteq> 0"
    by (simp add: word_unat_eq_iff unat_mod_distrib)
  show "area_address st cc mod 16 \<noteq> 0"
    using o by (simp add: word_unat_eq_iff unat_mod_distrib)
qed


lemma wf_switchCurrentStore:
  "wf_sse st \<Longrightarrow> wf_sse (fst (switchCurrentStore fx N want st))"
  using wf_pushStore [of st fx] wf_popStore [of _ fx N]
  by (force simp: switchCurrentStore_def Let_def split: prod.split if_split)

lemma push_scan_fails:
  "wf_sse st \<Longrightarrow> set ccs \<subseteq> {0..<NSSEStores} \<Longrightarrow> \<not> fst (snd (push_scan fx st ccs))"
proof (induction ccs)
  case (Cons cc ccs)
  have "wf_sse (store_update cc (\<lambda>s. s\<lparr>Enabled := True,
      registerBitmap := replicate (length (registerBitmap s)) False\<rparr>) st)"
    using Cons.prems by (intro wf_store_update) (auto simp: wf_store_def)
  from area_address_rejected(1) [OF this, of cc] Cons show ?case
    by (auto simp: Let_def pushSSE_def)
qed simp

lemma popStore_fails:
  assumes "wf_sse st"
  shows "\<not> snd (popStore fx N st)"
proof (cases "N < NSSEStores")
  case True
  have "wf_sse (store_update N (\<lambda>s. s\<lparr>Enabled := False\<rparr>) st)"
    using assms True by (intro wf_store_update) (auto simp: wf_store_def)
  from area_address_rejected(2) [OF this True] show ?thesis
    by (auto simp: popStore_def popSSE_def Let_def)
qed (simp add: popStore_def)

lemma first_enabled_bitmap_update:
  assumes "wf_sse st"
  shows "first_enabled (store_update cc (\<lambda>s. s\<lparr>registerBitmap := f s\<rparr>) st) = first_enabled st"
proof -
  have "Enabled (Stores (store_update cc (\<lambda>s. s\<lparr>registerBitmap := f s\<rparr>) st) ! k)
      = Enabled (Stores st ! k)" if "k < NSSEStores" for k
    using assms that by (cases "cc = k") (simp_all add: store_update_def wf_sse_def)
  then show ?thesis
    unfolding first_enabled_def by (intro find_cong) auto
qed

lemma alloc_marks:
  assumes "wf_sse st" and "first_enabled st = Some cc" and "AllocateSSERegister st = (st', r)"
  shows "wf_sse st' \<and> first_enabled st' = Some cc \<and> registerBitmap (Stores st' ! cc) ! 0"
proof -
  have cc: "cc < NSSEStores" using assms(2) by (rule first_enabled_less)
  then have "registerBitmap (Stores st ! cc) \<noteq> []"
    using wf_sse_nth [OF assms(1) cc] by (auto simp: wf_store_def sse_consts)
  moreover have "st' = store_update cc
      (\<lambda>s. s\<lparr>registerBitmap := (registerBitmap s)[0 := True]\<rparr>) st"
    using assms by (simp add: AllocateSSERegister_eq)
  ultimately show ?thesis
    using assms cc wf_AllocateSSERegister [of st]
    by (simp add: first_enabled_bitmap_update store_update_same)
qed

section \<open>Properties\<close>

text \<open>Every operation of the register pool keeps the sixteen stores, the length of their
  bitmaps and the alignment of the table.\<close>

theorem sse_pool_invariant:
  assumes "wf_sse st"
  shows "wf_sse (fst (AllocateSSERegister st))
    \<and> wf_sse (snd (FreeSSERegister r st))
    \<and> wf_sse (fst (pushStore fx st))
    \<and> wf_sse (fst (popStore fx N st))
    \<and> wf_sse (fst (switchCurrentStore fx N want st))"
  using assms
  by (simp_all add: wf_AllocateSSERegister wf_FreeSSERegister wf_pushStore wf_popStore
      wf_switchCurrentStore)

text \<open>The pool as the kernel starts with it: every store disabled, the table at a page address.\<close>

definition sse_boot :: sse_state where
  "sse_boot = \<lparr>Stores = replicate 16 \<lparr>Enabled = False, area = replicate 512 0,
       registerBitmap = replicate 4 False\<rparr>, Stores_base = 0x1000, sse_supported = True,
     xmm = (\<lambda>_. replicate 16 0)\<rparr>"

lemma wf_sse_boot: "wf_sse sse_boot"
  by (simp add: sse_boot_def wf_sse_def sse_consts wf_store_def list_all_iff)

definition fx_zero :: fx_unit where
  "fx_zero = \<lparr>fxsave = (\<lambda>_. replicate 512 0), fxrstor = (\<lambda>_ _. replicate 16 0)\<rparr>"

text \<open>A state with one store enabled.\<close>

definition sse_one :: sse_state where
  "sse_one = fst (pushStore fx_zero sse_boot)"

lemma wf_sse_one: "wf_sse sse_one"
  by (simp add: sse_one_def wf_pushStore wf_sse_boot)

theorem sse_pool_invariant_witness:
  "wf_sse (fst (AllocateSSERegister sse_boot))"
  using sse_pool_invariant [OF wf_sse_boot] by blast

text \<open>An allocation succeeds exactly when a store is enabled, the register belongs to an
  enabled store and is register 0 or 1; once register 1 was handed out, every further
  allocation hands out the same register of the same store again.\<close>

theorem sse_allocation_repeats:
  assumes "wf_sse st" and "AllocateSSERegister st = (st1, r1)"
    and "AllocateSSERegister st1 = (st2, r2)" and "AllocateSSERegister st2 = (st3, r3)"
  shows "(r1 \<noteq> None \<longleftrightarrow> (\<exists>cc < NSSEStores. Enabled (Stores st ! cc)))
    \<and> (\<forall>r. r1 = Some r \<longrightarrow> xr_Register r \<le> 1 \<and> unat (xr_store r) < NSSEStores
          \<and> Enabled (Stores st ! unat (xr_store r)))
    \<and> r3 = r2"
proof (cases "first_enabled st")
  case None
  then have "\<forall>cc < NSSEStores. \<not> Enabled (Stores st ! cc)"
    by (auto simp: first_enabled_def find_None_iff)
  moreover have "st1 = st" "r1 = None" "r2 = None" "r3 = None"
    using None assms by (auto simp: AllocateSSERegister_eq)
  ultimately show ?thesis by auto
next
  case (Some cc)
  then have cc: "cc < NSSEStores" "Enabled (Stores st ! cc)"
    by (auto simp: first_enabled_def find_Some_iff)
  have st1: "wf_sse st1" "first_enabled st1 = Some cc" "registerBitmap (Stores st1 ! cc) ! 0"
    using alloc_marks [OF assms(1) Some assms(2)] by simp_all
  have st2: "wf_sse st2" "first_enabled st2 = Some cc" "registerBitmap (Stores st2 ! cc) ! 0"
    using alloc_marks [OF st1(1,2) assms(3)] by simp_all
  have "r3 = r2"
    using st1 st2 assms(3,4) by (simp add: AllocateSSERegister_eq)
  moreover have "unat (of_nat cc :: u16) = cc"
    using cc(1) by (simp add: unat_of_nat sse_consts)
  ultimately show ?thesis
    using Some assms(1,2) cc by (auto simp: AllocateSSERegister_eq)
qed

theorem sse_allocation_repeats_witness:
  "\<exists>r. snd (AllocateSSERegister sse_one) = Some r \<and> xr_Register r \<le> 1"
proof -
  let ?s1 = "fst (AllocateSSERegister sse_one)"
  let ?s2 = "fst (AllocateSSERegister ?s1)"
  have e: "\<exists>cc < NSSEStores. Enabled (Stores sse_one ! cc)"
    by (rule exI [of _ 0]) code_simp
  from sse_allocation_repeats [OF wf_sse_one, of ?s1 "snd (AllocateSSERegister sse_one)"
      ?s2 "snd (AllocateSSERegister ?s1)" "fst (AllocateSSERegister ?s2)"
      "snd (AllocateSSERegister ?s2)"] e
  show ?thesis by auto
qed

text \<open>Saving and restoring a register store is refused in every well-formed state, because
  the save area starts at offset 1 of a 16-byte aligned record: \<open>pushStore\<close> and \<open>popStore\<close>
  always return false, whatever the processor supports, yet \<open>pushStore\<close> enables the store and
  \<open>popStore\<close> disables it.\<close>

theorem sse_save_restore_refused:
  assumes "wf_sse st"
  shows "\<not> fst (snd (pushStore fx st)) \<and> \<not> snd (popStore fx N st)
    \<and> xmm (fst (popStore fx N st)) = xmm st
    \<and> (N < NSSEStores \<longrightarrow> \<not> Enabled (Stores (fst (popStore fx N st)) ! N))"
proof -
  have "\<not> fst (snd (pushStore fx st))"
    using assms by (simp add: pushStore_def push_scan_fails)
  moreover have p: "\<not> snd (popStore fx N st)" by (rule popStore_fails [OF assms])
  moreover have "xmm (fst (popStore fx N st)) = xmm st"
    using p by (auto simp: popStore_def Let_def store_update_def split: sum.splits)
  moreover have "\<not> Enabled (Stores (fst (popStore fx N st)) ! N)" if "N < NSSEStores"
    using that p assms
    by (auto simp: popStore_def Let_def store_update_def wf_sse_def split: sum.splits if_splits)
  ultimately show ?thesis by blast
qed

theorem sse_save_restore_refused_witness:
  "\<not> fst (snd (pushStore fx_zero sse_boot))"
  using sse_save_restore_refused [OF wf_sse_boot, of fx_zero 0] by blast

end
