(* ===== verification/Kernel_Memory.thy ===== *)
theory Kernel_Memory
  imports SSE_Registers
begin

text \<open>
  The memory routines of \<^verbatim>\<open>kernel/libcrt/memory/memory.c\<close> on byte-addressed memory.  The
  routines that borrow a SIMD register thread the register pool; the loops run over the
  indices that the source counts through.  The page allocator that \<open>memmove_s\<close> borrows its pages
  from is an argument here; the kernel's own works on the page tables and is the one of
  \<^verbatim>\<open>Kernel_PageMap\<close>, which never returns from a request for less than a page.  So what is said of
  \<open>memmove_s\<close> holds for an allocator that returns, and not for short moves in the kernel.
\<close>

section \<open>Filling and copying\<close>

definition set_bytes :: "u64 \<Rightarrow> u8 \<Rightarrow> nat list \<Rightarrow> memory \<Rightarrow> memory" where
  "set_bytes ptr v is m = fold (\<lambda>i m. m(ptr + of_nat i := v)) is m"

definition copy_bytes :: "u64 \<Rightarrow> u64 \<Rightarrow> nat list \<Rightarrow> memory \<Rightarrow> memory" where
  "copy_bytes d s is m = fold (\<lambda>i m. m(d + of_nat i := m (s + of_nat i))) is m"

definition memset_pattern :: "u8 \<Rightarrow> u32" where
  "memset_pattern v = ucast v OR push_bit 8 (ucast v) OR push_bit 16 (ucast v) OR push_bit 24 (ucast v)"

definition memset :: "sse_state \<Rightarrow> memory \<Rightarrow> u64 \<Rightarrow> u32 \<Rightarrow> u64 \<Rightarrow> sse_state \<times> memory" where
  "memset st m buffer val len =
    (case (if len \<ge> 16 then AllocateSSERegister st else (st, None)) of
       (st1, Some r0) \<Rightarrow>
         let v = ucast val;
             vec_data = concat (replicate 4 (le_bytes 4 (unat (memset_pattern v))));
             chunks = len div 16;
             st2 = snd (StoreUAlignedIntegers r0 vec_data st1);
             m1 = fold (\<lambda>i m. snd (LoadUAlignedIntegers r0 (buffer + of_nat (i * 16)) st2 m))
                    [0..<unat chunks] m;
             st3 = snd (FreeSSERegister r0 st2)
         in (st3, set_bytes buffer v [unat (chunks * 16)..<unat len] m1)
     | (st1, None) \<Rightarrow> (st1, set_bytes buffer (ucast val) [0..<unat len] m))"

definition memcpy :: "sse_state \<Rightarrow> memory \<Rightarrow> u64 \<Rightarrow> u64 \<Rightarrow> u64 \<Rightarrow> sse_state \<times> memory" where
  "memcpy st m dst src len =
    (case (if len \<ge> 16 then AllocateSSERegister st else (st, None)) of
       (st1, Some r0) \<Rightarrow>
         let chunks = len div 16;
             (st2, m1) =
               fold (\<lambda>i (s, m).
                 let offset = of_nat (i * 16);
                     s' = snd (StoreUAlignedIntegers r0 (read_bytes m (src + offset) 16) s)
                 in (s', snd (LoadUAlignedIntegers r0 (dst + offset) s' m)))
               [0..<unat chunks] (st1, m);
             st3 = snd (FreeSSERegister r0 st2)
         in (st3, copy_bytes dst src [unat (chunks * 16)..<unat len] m1)
     | (st1, None) \<Rightarrow> (st1, copy_bytes dst src [0..<unat len] m))"

section \<open>Comparison\<close>

text \<open>The loops return at the first difference; \<open>None\<close> is a loop that ran to its end.\<close>

fun memcmp_bytes :: "memory \<Rightarrow> u64 \<Rightarrow> u64 \<Rightarrow> nat list \<Rightarrow> int option" where
  "memcmp_bytes m a b [] = None"
| "memcmp_bytes m a b (i # is) =
    (if m (a + of_nat i) \<noteq> m (b + of_nat i)
     then Some (uint (m (a + of_nat i)) - uint (m (b + of_nat i)))
     else memcmp_bytes m a b is)"

definition read_u64 :: "memory \<Rightarrow> u64 \<Rightarrow> u64" where
  "read_u64 m p = of_nat (le_nat (read_bytes m p 8))"

fun memcmp_chunks :: "memory \<Rightarrow> u64 \<Rightarrow> u64 \<Rightarrow> nat list \<Rightarrow> int option" where
  "memcmp_chunks m a b [] = None"
| "memcmp_chunks m a b (i # is) =
    (if read_u64 m (a + of_nat (i * 8)) \<noteq> read_u64 m (b + of_nat (i * 8)) then
       (case memcmp_bytes m a b [i * 8..<i * 8 + 8] of
          Some r \<Rightarrow> Some r
        | None \<Rightarrow> memcmp_chunks m a b is)
     else memcmp_chunks m a b is)"

definition memcmp :: "memory \<Rightarrow> u64 \<Rightarrow> u64 \<Rightarrow> u64 \<Rightarrow> int" where
  "memcmp m a b len =
    (let chunks = len div 8 in
     case memcmp_chunks m a b [0..<unat chunks] of
       Some r \<Rightarrow> r
     | None \<Rightarrow> (case memcmp_bytes m a b [unat (chunks * 8)..<unat len] of
           Some r \<Rightarrow> r
         | None \<Rightarrow> 0))"

section \<open>Checksum and scans\<close>

definition checksum_split :: "u64 \<Rightarrow> u64" where
  "checksum_split nbytes = (if nbytes mod 2 = 0 then nbytes div 2 else nbytes mod 2 + 1)"

definition checksum_term :: "u8 \<Rightarrow> u8" where
  "checksum_term c = ucast ((ucast c :: u32) AND push_bit 2 (ucast c))"

definition ResolveGenericChecksum :: "memory \<Rightarrow> u64 \<Rightarrow> u64 \<Rightarrow> u8 \<times> u8" where
  "ResolveGenericChecksum m ptr nbytes =
    (let split = checksum_split nbytes in
     fold (\<lambda>i (o0, o1). let t = checksum_term (m (ptr + of_nat i)) in
              if of_nat i > split then (o0 XOR t, o1) else (o0, o1 XOR t))
       (rev [0..<unat nbytes]) (0, 0))"

text \<open>
  The scan loops of \<open>memcheckb\<close>, \<open>memcheckw\<close>, \<open>memcheckl\<close> and \<open>memcheckll\<close> test the element
  at index \<open>n\<close> of an array of \<open>w\<close>-byte items and never change \<open>n\<close>.
\<close>

partial_function (option) memcheck_loop :: "nat \<Rightarrow> memory \<Rightarrow> u64 \<Rightarrow> nat \<Rightarrow> u64 \<Rightarrow> bool option" where
  "memcheck_loop w m p v n =
    (if n = 0 then Some False
     else if le_nat (read_bytes m (p + n * of_nat w) w) = v then Some True
     else memcheck_loop w m p v n)"

definition memcheckb :: "memory \<Rightarrow> u64 \<Rightarrow> u8 \<Rightarrow> u64 \<Rightarrow> bool option" where
  "memcheckb m p b n = memcheck_loop 1 m p (unat b) n"

definition memcheckw :: "memory \<Rightarrow> u64 \<Rightarrow> u16 \<Rightarrow> u64 \<Rightarrow> bool option" where
  "memcheckw m p v n = memcheck_loop 2 m p (unat v) (n div 2)"

definition memcheckl :: "memory \<Rightarrow> u64 \<Rightarrow> u32 \<Rightarrow> u64 \<Rightarrow> bool option" where
  "memcheckl m p v n = memcheck_loop 4 m p (unat v) (n div 4)"

definition memcheckll :: "memory \<Rightarrow> u64 \<Rightarrow> u64 \<Rightarrow> u64 \<Rightarrow> bool option" where
  "memcheckll m p v n = memcheck_loop 8 m p (unat v) (n div 8)"

section \<open>The checked move\<close>

text \<open>\<open>NullError\<close> and \<open>OutOfBoundsError\<close> are the same number in \<^verbatim>\<open>math/int.h\<close>.\<close>

definition OutOfBoundsError :: u32 where "OutOfBoundsError = 1"
definition NullError :: u32 where "NullError = 1"

record page_source =
  AllocatePages :: "memory \<Rightarrow> u64 \<Rightarrow> u64 \<times> memory"
  FreePages :: "memory \<Rightarrow> u64 \<Rightarrow> memory"

definition memmove_s ::
  "page_source \<Rightarrow> sse_state \<Rightarrow> memory \<Rightarrow> u64 \<Rightarrow> u64 \<Rightarrow> u64 \<Rightarrow> u64 \<Rightarrow> u32 \<times> sse_state \<times> memory" where
  "memmove_s ps st m a alen b blen =
    (if a = 0 \<or> b = 0 then (NullError, st, m)
     else if blen > alen then (OutOfBoundsError, st, m)
     else case AllocatePages ps m blen of (temp, m1) \<Rightarrow>
       if temp = 0 then (NullError, st, m1)
       else case memcpy st m1 temp b blen of (st1, m2) \<Rightarrow>
         case memcpy st1 m2 a temp blen of (st2, m3) \<Rightarrow> (0, st2, FreePages ps m3 temp))"

section \<open>Filling and copying are block writes\<close>

lemma set_bytes_upt:
  "lo \<le> hi \<Longrightarrow> set_bytes ptr v [lo..<hi] (write_bytes m ptr (replicate lo v))
     = write_bytes m ptr (replicate hi v)"
proof (induction hi)
  case (Suc hi)
  have *: "write_bytes m ptr (replicate (Suc hi) v)
      = (write_bytes m ptr (replicate hi v))(ptr + of_nat hi := v)"
    by (simp only: replicate_Suc replicate_append_same [symmetric] write_bytes_append) simp
  show ?case
  proof (cases "lo = Suc hi")
    case False
    with Suc have "set_bytes ptr v [lo..<hi] (write_bytes m ptr (replicate lo v))
        = write_bytes m ptr (replicate hi v)" "lo \<le> hi" by simp_all
    then show ?thesis unfolding * by (simp add: set_bytes_def)
  qed (simp add: set_bytes_def)
qed (simp add: set_bytes_def)

lemma length_pattern_bytes: "le_bytes 4 (unat (memset_pattern v)) = replicate 4 v"
proof -
  have "ucast (drop_bit (8 * i) (memset_pattern v)) = v" if "i < 4" for i
  proof -
    from that have "i = 0 \<or> i = 1 \<or> i = 2 \<or> i = 3" by auto
    then show ?thesis
      unfolding memset_pattern_def by (elim disjE) (auto intro!: bit_eqI simp: bit_simps bit_u8_ge)
  qed
  then show ?thesis by (simp add: le_bytes_word list_eq_iff_nth_eq)
qed

lemma fill_chunks:
  "fold (\<lambda>i m. write_bytes m (p + of_nat (i * 16)) (replicate 16 v)) [0..<n] m
     = write_bytes m p (replicate (n * 16) v)"
proof (induction n)
  case (Suc n)
  have "replicate (Suc n * 16) v = replicate (n * 16) v @ replicate 16 v"
    by (simp add: replicate_add [symmetric] add.commute)
  with Suc show ?case
    by (simp only: upt_Suc_append [OF le0] fold_append fold.simps comp_apply id_apply)
       (simp add: write_bytes_append)
qed simp


lemma set_bytes_from_0: "set_bytes ptr v [0..<n] m = write_bytes m ptr (replicate n v)"
  using set_bytes_upt [of 0 n ptr v m] by simp

lemma unat_chunks: "unat (len div 16 * 16 :: u64) = unat len div 16 * 16"
  by (subst unat_mult_small)
     (simp_all add: unat_div_distrib order.strict_trans1 [OF div_times_less_eq_dividend] unat_u64_less [simplified])

lemma LoadUAlignedIntegers_usable:
  "xr_Register r < 15 \<Longrightarrow>
     snd (LoadUAlignedIntegers r p (snd (StoreUAlignedIntegers r bs st)) m) = write_bytes m p bs"
  by (auto simp: LoadUAlignedIntegers_def StoreUAlignedIntegers_def not_le)

lemma memset_memory:
  assumes "wf_sse st"
  shows "snd (memset st m buffer val len) = write_bytes m buffer (replicate (unat len) (ucast val))"
proof (cases "if len \<ge> 16 then AllocateSSERegister st else (st, None)")
  case (Pair st1 r)
  show ?thesis
  proof (cases r)
    case None
    with Pair show ?thesis by (simp add: memset_def set_bytes_from_0)
  next
    case (Some r0)
    with Pair have "AllocateSSERegister st = (st1, Some r0)" by (simp split: if_splits)
    then have r0: "xr_Register r0 < 15" using assms AllocateSSERegister_usable by blast
    have vec: "concat (replicate 4 (replicate 4 x)) = replicate 16 x" for x :: u8
      by (simp add: numeral_eq_Suc)
    show ?thesis
      using Pair Some
      by (simp add: memset_def Let_def LoadUAlignedIntegers_usable r0 length_pattern_bytes vec
          fill_chunks [simplified] unat_chunks unat_div_distrib set_bytes_upt)
  qed
qed

lemma wf_sse_xmm [simp]: "wf_sse (st\<lparr>xmm := f\<rparr>) = wf_sse st"
  by (simp add: wf_sse_def)

lemma wf_StoreUAlignedIntegers: "wf_sse st \<Longrightarrow> wf_sse (snd (StoreUAlignedIntegers r bs st))"
  by (simp add: StoreUAlignedIntegers_def)

lemma wf_memset: "wf_sse st \<Longrightarrow> wf_sse (fst (memset st m buffer val len))"
  using wf_AllocateSSERegister [of st]
  by (auto simp: memset_def Let_def wf_FreeSSERegister wf_StoreUAlignedIntegers
      split: prod.split option.split)

section \<open>Copying\<close>

lemma disjoint_regions_sub:
  "disjoint_regions a j b k \<Longrightarrow> j' \<le> j \<Longrightarrow> off + k' \<le> k \<Longrightarrow>
     disjoint_regions a j' (b + of_nat off) k'"
  unfolding disjoint_regions_def
  by (metis (no_types, opaque_lifting) add.assoc add_less_cancel_left of_nat_add order_less_le_trans)

lemma copy_step:
  assumes "disjoint_regions d n s n" and "lo + k \<le> n" and "n < 2 ^ 64"
  shows "write_bytes (write_bytes m d (read_bytes m s lo)) (d + of_nat lo)
      (read_bytes (write_bytes m d (read_bytes m s lo)) (s + of_nat lo) k)
    = write_bytes m d (read_bytes m s (lo + k))"
proof -
  have "disjoint_regions d (length (read_bytes m s lo)) (s + of_nat lo) k"
    using assms by (simp add: disjoint_regions_sub)
  then have "read_bytes (write_bytes m d (read_bytes m s lo)) (s + of_nat lo) k
      = read_bytes m (s + of_nat lo) k"
    using assms by (intro read_bytes_frame) simp_all
  then show ?thesis
    by (simp add: read_bytes_add write_bytes_append)
qed

lemma copy_bytes_upt:
  assumes "disjoint_regions d n s n" and "n < 2 ^ 64" and "lo \<le> hi" and "hi \<le> n"
  shows "copy_bytes d s [lo..<hi] (write_bytes m d (read_bytes m s lo))
    = write_bytes m d (read_bytes m s hi)"
  using assms(3,4)
proof (induction hi)
  case (Suc hi)
  show ?case
  proof (cases "lo = Suc hi")
    case False
    with Suc have *: "copy_bytes d s [lo..<hi] (write_bytes m d (read_bytes m s lo))
        = write_bytes m d (read_bytes m s hi)" "lo \<le> hi" by simp_all
    have "write_bytes m d (read_bytes m s (hi + 1)) =
        (write_bytes m d (read_bytes m s hi))
          (d + of_nat hi := write_bytes m d (read_bytes m s hi) (s + of_nat hi))"
      using copy_step [OF assms(1), of hi 1 m] Suc.prems assms(2)
      by (simp add: read_bytes_def)
    with * show ?thesis by (simp add: copy_bytes_def)
  qed (simp add: copy_bytes_def)
qed (simp add: copy_bytes_def read_bytes_def)

lemma copy_bytes_from_0:
  assumes "disjoint_regions d n s n" and "n < 2 ^ 64"
  shows "copy_bytes d s [0..<n] m = write_bytes m d (read_bytes m s n)"
  using copy_bytes_upt [OF assms, of 0 n m] by (simp add: read_bytes_def)

lemma copy_chunks:
  assumes "disjoint_regions d n s n" and "n < 2 ^ 64" and "k * 16 \<le> n" and "xr_Register r < 15"
  shows "snd (fold (\<lambda>i (t, m).
                 let offset = of_nat (i * 16);
                     t' = snd (StoreUAlignedIntegers r (read_bytes m (s + offset) 16) t)
                 in (t', snd (LoadUAlignedIntegers r (d + offset) t' m)))
               [0..<k] (st, m))
    = write_bytes m d (read_bytes m s (k * 16))"
  using assms(3)
proof (induction k)
  case (Suc k)
  have "write_bytes m d (read_bytes m s (k * 16 + 16)) =
      write_bytes (write_bytes m d (read_bytes m s (k * 16))) (d + of_nat (k * 16))
       (read_bytes (write_bytes m d (read_bytes m s (k * 16))) (s + of_nat (k * 16)) 16)"
    using copy_step [OF assms(1), of "k * 16" 16 m] Suc.prems assms(2) by simp
  with Suc show ?case
    by (simp add: Let_def case_prod_unfold LoadUAlignedIntegers_usable [OF assms(4)] add.commute)
qed (simp add: read_bytes_def)

lemma memcpy_memory:
  assumes "wf_sse st" and "disjoint_regions dst (unat len) src (unat len)"
  shows "snd (memcpy st m dst src len) = write_bytes m dst (read_bytes m src (unat len))"
proof (cases "if len \<ge> 16 then AllocateSSERegister st else (st, None)")
  case (Pair st1 r)
  have len: "unat len < 2 ^ 64" by (rule unat_u64_less)
  show ?thesis
  proof (cases r)
    case None
    with Pair assms(2) len show ?thesis by (simp add: memcpy_def copy_bytes_from_0)
  next
    case (Some r0)
    with Pair have "AllocateSSERegister st = (st1, Some r0)" by (simp split: if_splits)
    then have r0: "xr_Register r0 < 15" using assms AllocateSSERegister_usable by blast
    note chunks = copy_chunks [OF assms(2) len div_times_less_eq_dividend r0, where st = st1 and m = m]
    show ?thesis
      using Pair Some
      by (simp add: memcpy_def Let_def case_prod_unfold unat_chunks unat_div_distrib
          chunks [unfolded Let_def case_prod_unfold of_nat_mult of_nat_numeral] copy_bytes_upt [OF assms(2) len])
  qed
qed


lemma wf_copy_loop:
  "wf_sse st \<Longrightarrow> wf_sse (fst (fold (\<lambda>i (t, m).
     let offset = of_nat (i * 16);
         t' = snd (StoreUAlignedIntegers r (read_bytes m (s + offset) 16) t)
     in (t', snd (LoadUAlignedIntegers r (d + offset) t' m))) is (st, m)))"
  by (induction "is" arbitrary: st m) (auto simp: Let_def wf_StoreUAlignedIntegers)

lemma wf_memcpy: "wf_sse st \<Longrightarrow> wf_sse (fst (memcpy st m dst src len))"
  using wf_AllocateSSERegister [of st] wf_copy_loop
  by (auto simp: memcpy_def Let_def case_prod_unfold wf_FreeSSERegister split: option.split)

section \<open>Comparison\<close>

lemma memcmp_bytes_append:
  "memcmp_bytes m a b (xs @ ys) =
    (case memcmp_bytes m a b xs of Some r \<Rightarrow> Some r | None \<Rightarrow> memcmp_bytes m a b ys)"
  by (induction xs) auto

lemma memcmp_bytes_None:
  "memcmp_bytes m a b is = None \<longleftrightarrow> (\<forall>i \<in> set is. m (a + of_nat i) = m (b + of_nat i))"
  by (induction "is") auto

lemma read_u64_inject:
  "read_u64 m p = read_u64 m q \<longleftrightarrow> read_bytes m p 8 = read_bytes m q 8"
proof -
  have l: "le_nat (read_bytes m x 8) < 2 ^ 64" for x
    using le_nat_less [of "read_bytes m x 8"] by simp
  have "read_u64 m p = read_u64 m q \<longleftrightarrow> le_nat (read_bytes m p 8) = le_nat (read_bytes m q 8)"
    unfolding read_u64_def using unat_offset_inject [OF l l] by metis
  then show ?thesis by (simp add: le_nat_inject)
qed

lemma memcmp_bytes_chunk:
  assumes "read_u64 m (a + of_nat lo) = read_u64 m (b + of_nat lo)"
  shows "memcmp_bytes m a b [lo..<lo + 8] = None"
proof -
  have e: "read_bytes m (a + of_nat lo) 8 = read_bytes m (b + of_nat lo) 8"
    using assms by (simp add: read_u64_inject)
  have "m (a + of_nat i) = m (b + of_nat i)" if "lo \<le> i" "i < lo + 8" for i
  proof -
    have "read_bytes m (a + of_nat lo) 8 ! (i - lo) = read_bytes m (b + of_nat lo) 8 ! (i - lo)"
      by (simp only: e)
    with that show ?thesis by (simp add: add.assoc of_nat_add [symmetric] del: of_nat_add)
  qed
  then show ?thesis by (auto simp: memcmp_bytes_None)
qed

lemma memcmp_chunks_bytes:
  "memcmp_chunks m a b is = memcmp_bytes m a b (concat (map (\<lambda>i. [i * 8..<i * 8 + 8]) is))"
  using memcmp_bytes_chunk [of m a "i * 8" b for i]
  by (induction "is") (auto simp: memcmp_bytes_append split: option.split)

lemma concat_chunks: "concat (map (\<lambda>i. [i * 8..<i * 8 + 8]) [0..<n]) = [0..<n * 8]"
proof (induction n)
  case (Suc n)
  have "[0..<Suc n * 8] = [0..<n * 8] @ [n * 8..<n * 8 + 8]"
    by (subst upt_split [of 0 "n * 8"]) (simp_all add: add.commute)
  with Suc show ?case by simp
qed simp

lemma unat_chunks8: "unat (len div 8 * 8 :: u64) = unat len div 8 * 8"
  by (subst unat_mult_small)
     (simp_all add: unat_div_distrib order.strict_trans1 [OF div_times_less_eq_dividend]
       unat_u64_less [simplified])

lemma memcmp_eq:
  "memcmp m a b len = (case memcmp_bytes m a b [0..<unat len] of Some r \<Rightarrow> r | None \<Rightarrow> 0)"
proof -
  have "[0..<unat len] = [0..<unat len div 8 * 8] @ [unat len div 8 * 8..<unat len]"
    by (rule upt_split) simp_all
  then show ?thesis
    by (simp only: memcmp_def Let_def memcmp_chunks_bytes concat_chunks memcmp_bytes_append
        unat_chunks8 unat_div_distrib) (simp add: unat_div_distrib split: option.split)
qed

lemma memcmp_bytes_first:
  assumes "i < n" and "\<And>j. j < i \<Longrightarrow> m (a + of_nat j) = m (b + of_nat j)"
    and "m (a + of_nat i) \<noteq> m (b + of_nat i)"
  shows "memcmp_bytes m a b [0..<n] = Some (uint (m (a + of_nat i)) - uint (m (b + of_nat i)))"
proof -
  have "[0..<n] = [0..<i] @ i # [Suc i..<n]"
    using assms(1) upt_split [of 0 i n] upt_conv_Cons [of i n] by simp
  moreover have "memcmp_bytes m a b [0..<i] = None"
    using assms(2) by (simp add: memcmp_bytes_None)
  ultimately show ?thesis using assms(3) by (simp add: memcmp_bytes_append)
qed

lemma memcmp_bytes_nonzero: "memcmp_bytes m a b is = Some r \<Longrightarrow> r \<noteq> 0"
  by (induction "is") (auto simp: word_uint_eq_iff split: if_splits)

section \<open>The scans\<close>

lemma memcheck_loop_returns:
  "memcheck_loop w m p v n = Some r \<Longrightarrow>
     n = 0 \<or> le_nat (read_bytes m (p + n * of_nat w) w) = v"
  by (rule memcheck_loop.raw_induct [where P = "\<lambda>w m p v n r.
        n = 0 \<or> le_nat (read_bytes m (p + n * of_nat w) w) = v"])
     (fastforce split: if_splits)+

lemma memcheck_loop_value:
  "memcheck_loop w m p v n =
    (if n = 0 then Some False
     else if le_nat (read_bytes m (p + n * of_nat w) w) = v then Some True else None)"
proof (cases "n = 0 \<or> le_nat (read_bytes m (p + n * of_nat w) w) = v")
  case True
  then show ?thesis by (subst memcheck_loop.simps) auto
next
  case False
  then show ?thesis
    using memcheck_loop_returns [of w m p v n] by (cases "memcheck_loop w m p v n") auto
qed

section \<open>Properties\<close>

text \<open>C12: \<open>memset\<close> writes the low byte of the value to exactly the \<open>len\<close> addresses from the
  buffer on and to nothing else, whichever of its two paths it takes; addresses wrap at the end
  of the address space.\<close>

theorem memset_correct:
  assumes "wf_sse st"
  shows "snd (memset st m buffer val len) x =
    (if unat (x - buffer) < unat len then ucast val else m x)"
  using memset_memory [OF assms] unat_u64_less [of len]
  by (simp add: write_bytes_nth)

theorem memset_correct_witness:
  "snd (memset sse_one (\<lambda>_. 0) 0x100 0x1AB 20) 0x113 = 0xAB"
  using memset_correct [OF wf_sse_one, where m = "\<lambda>_. 0" and buffer = "0x100" and val = "0x1AB"
      and len = 20 and x = "0x113"] by simp

text \<open>C13: \<open>memcpy\<close> between regions with no common address leaves the source bytes at the
  destination and every other address as it was.\<close>

theorem memcpy_correct:
  assumes "wf_sse st" and "disjoint_regions dst (unat len) src (unat len)"
  shows "read_bytes (snd (memcpy st m dst src len)) dst (unat len) = read_bytes m src (unat len)
    \<and> (\<forall>x. unat len \<le> unat (x - dst) \<longrightarrow> snd (memcpy st m dst src len) x = m x)"
proof -
  have l: "length (read_bytes m src (unat len)) \<le> 2 ^ 64"
    using unat_u64_less [of len] by simp
  from read_write_bytes [OF l] show ?thesis
    by (simp add: memcpy_memory [OF assms] write_bytes_nth [OF l])
qed

lemma disjoint_far:
  assumes "unat a + j \<le> unat b" and "unat b + k \<le> 2 ^ 64"
  shows "disjoint_regions a j b k"
  unfolding disjoint_regions_def
proof (intro allI impI)
  fix i l assume "i < j" "l < k"
  then have "unat (a + of_nat i) = unat a + i" "unat (b + of_nat l) = unat b + l"
    using assms by (simp_all add: unat_word_ariths unat_of_nat)
  then show "a + of_nat i \<noteq> b + of_nat l"
    using \<open>i < j\<close> assms(1) by (metis add_less_cancel_left leD le_add1 order_less_le_trans)
qed

lemma disjoint_regions_sym: "disjoint_regions a j b k = disjoint_regions b k a j"
  unfolding disjoint_regions_def by metis

theorem memcpy_correct_witness:
  "read_bytes (snd (memcpy sse_one (\<lambda>a. ucast a) 0x100 0x200 20)) 0x100 20
     = read_bytes (\<lambda>a. ucast a) 0x200 20"
proof -
  have "disjoint_regions 0x100 (unat (20 :: u64)) 0x200 (unat (20 :: u64))"
    by (rule disjoint_far) simp_all
  from memcpy_correct [OF wf_sse_one this] show ?thesis by simp
qed

text \<open>C14: the 8-byte chunked \<open>memcmp\<close> returns 0 exactly when all bytes agree, and otherwise the
  difference of the bytes at the first index where they differ.\<close>

theorem memcmp_correct:
  "(memcmp m a b len = 0 \<longleftrightarrow> read_bytes m a (unat len) = read_bytes m b (unat len))
   \<and> (\<forall>i < unat len. (\<forall>j < i. m (a + of_nat j) = m (b + of_nat j)) \<longrightarrow>
        m (a + of_nat i) \<noteq> m (b + of_nat i) \<longrightarrow>
        memcmp m a b len = uint (m (a + of_nat i)) - uint (m (b + of_nat i)))"
proof -
  have "memcmp m a b len = 0 \<longleftrightarrow> memcmp_bytes m a b [0..<unat len] = None"
    using memcmp_bytes_nonzero [of m a b "[0..<unat len]"]
    by (auto simp: memcmp_eq split: option.split)
  moreover have "memcmp_bytes m a b [0..<unat len] = None
      \<longleftrightarrow> read_bytes m a (unat len) = read_bytes m b (unat len)"
    by (auto simp: memcmp_bytes_None read_bytes_def)
  ultimately show ?thesis
    using memcmp_bytes_first [of _ "unat len" m a b] by (simp add: memcmp_eq)
qed

definition ramp :: memory where
  "ramp = (\<lambda>a. if a = 0x209 then 7 else 5)"

theorem memcmp_correct_witness:
  "memcmp ramp 0x100 0x200 12 = uint (ramp 0x109) - uint (ramp 0x209)"
proof -
  have 1: "9 < unat (12 :: u64)" by simp
  have "list_all (\<lambda>j. ramp (0x100 + of_nat j) = ramp (0x200 + of_nat j)) [0..<9]"
    by (simp add: ramp_def upt_rec)
  then have 2: "\<forall>j < 9. ramp (0x100 + of_nat j) = ramp (0x200 + of_nat j)"
    by (simp add: list_all_iff)
  have 3: "ramp (0x100 + of_nat 9) \<noteq> ramp (0x200 + of_nat 9)"
    by (simp add: ramp_def)
  show ?thesis
    using memcmp_correct [of ramp "0x100" "0x200" 12, THEN conjunct2, rule_format, OF 1 _ 3] 2
    by simp
qed

text \<open>The scan routines return only when the count is 0 or the element one past the scanned
  range has the wanted value; otherwise they never return.\<close>

theorem memcheckb_only_looks_past_the_end:
  "memcheckb m p b n =
    (if n = 0 then Some False else if m (p + n) = b then Some True else None)"
  by (auto simp: memcheckb_def memcheck_loop_value read_bytes_def word_unat_eq_iff)

text \<open>\<open>memmove_s\<close> through a temporary block that overlaps neither region leaves the old
  contents of the source at the destination, even when the two regions overlap; it refuses null
  pointers and a source longer than the destination without touching memory.\<close>

theorem memmove_s_correct:
  assumes "wf_sse st" and "a \<noteq> 0" and "b \<noteq> 0" and "blen \<le> alen"
    and "AllocatePages ps m blen = (temp, m)" and "temp \<noteq> 0"
    and "disjoint_regions temp (unat blen) b (unat blen)"
    and "disjoint_regions a (unat blen) temp (unat blen)"
    and "\<And>m'. read_bytes (FreePages ps m' temp) a (unat blen) = read_bytes m' a (unat blen)"
  shows "fst (memmove_s ps st m a alen b blen) = 0
    \<and> read_bytes (snd (snd (memmove_s ps st m a alen b blen))) a (unat blen)
        = read_bytes m b (unat blen)
    \<and> memmove_s ps st m 0 alen b blen = (NullError, st, m)
    \<and> (\<forall>n > alen. memmove_s ps st m a alen b n = (OutOfBoundsError, st, m))"
proof -
  obtain st1 m2 where c1: "memcpy st m temp b blen = (st1, m2)" by fastforce
  obtain st2 m3 where c2: "memcpy st1 m2 a temp blen = (st2, m3)" by fastforce
  have m2: "read_bytes m2 temp (unat blen) = read_bytes m b (unat blen)"
    using memcpy_memory [OF assms(1,7), of m] c1 unat_u64_less [of blen]
      read_write_bytes [of "read_bytes m b (unat blen)" m temp] by simp
  have "read_bytes m3 a (unat blen) = read_bytes m2 temp (unat blen)"
    using memcpy_memory [OF _ assms(8), of st1 m2] wf_memcpy [OF assms(1), of m temp b blen] c1 c2
      read_write_bytes [of "read_bytes m2 temp (unat blen)" m2 a] unat_u64_less [of blen] by simp
  with m2 c1 c2 show ?thesis
    using assms by (auto simp: memmove_s_def NullError_def OutOfBoundsError_def)
qed


definition pages_at :: "u64 \<Rightarrow> page_source" where
  "pages_at t = \<lparr>AllocatePages = (\<lambda>m n. (t, m)), FreePages = (\<lambda>m p. m)\<rparr>"

theorem memmove_s_correct_witness:
  "read_bytes (snd (snd (memmove_s (pages_at 0x5000) sse_one ramp 0x200 20 0x208 20))) 0x200 20
     = read_bytes ramp 0x208 20"
proof -
  have "disjoint_regions 0x5000 (unat (20 :: u64)) 0x208 (unat (20 :: u64))"
    unfolding disjoint_regions_sym [of "0x5000"] by (rule disjoint_far) simp_all
  moreover have "disjoint_regions 0x200 (unat (20 :: u64)) 0x5000 (unat (20 :: u64))"
    by (rule disjoint_far) simp_all
  ultimately show ?thesis
    using memmove_s_correct [OF wf_sse_one, of "0x200" "0x208" 20 20 "pages_at 0x5000" ramp "0x5000"]
    by (simp add: pages_at_def)
qed

end
