(* ===== verification/Kernel_String.thy ===== *)
theory Kernel_String
  imports Prelude "HOL-Library.Sublist"
begin

text \<open>
  The string routines of \<^verbatim>\<open>kernel/libcrt/memory/string.c\<close>.  A C string is the list of its
  characters before the terminator, \<open>peek\<close> reads the character at the pointer and gives NUL at
  the end.  The numeric conversions accumulate in the width the source declares.
\<close>

definition NUL :: char where "NUL = CHR 0x00"

definition cstring :: "string \<Rightarrow> bool" where
  "cstring s = (NUL \<notin> set s)"

definition peek :: "string \<Rightarrow> char" where
  "peek s = (case s of [] \<Rightarrow> NUL | c # _ \<Rightarrow> c)"

section \<open>Length and comparison\<close>

fun strlen :: "string \<Rightarrow> nat" where
  "strlen [] = 0"
| "strlen (c # cs) = Suc (strlen cs)"

text \<open>The comparison of \<open>n\<close> characters that \<open>strchecks\<close> delegates to \<open>memcmp\<close>.\<close>

fun memcmp_str :: "string \<Rightarrow> string \<Rightarrow> nat \<Rightarrow> int" where
  "memcmp_str a b 0 = 0"
| "memcmp_str a b (Suc n) =
    (if peek a \<noteq> peek b then of_char (peek a) - of_char (peek b)
     else memcmp_str (tl a) (tl b) n)"

definition strchecks :: "string \<Rightarrow> string \<Rightarrow> bool" where
  "strchecks str snippet =
    (let str_len = strlen str; snip_len = strlen snippet in
     if snip_len > str_len \<or> snip_len = 0 then False
     else list_ex (\<lambda>cc. memcmp_str (drop cc str) snippet snip_len = 0) [0..<Suc (str_len - snip_len)])"

fun strcmpc :: "string \<Rightarrow> string \<Rightarrow> int" where
  "strcmpc (c # a) (d # b) =
    (if c \<noteq> NUL \<and> c = d then strcmpc a b else of_char c - of_char d)"
| "strcmpc a b = of_char (peek a) - of_char (peek b)"

section \<open>Digits\<close>

text \<open>The kernel is built with \<^verbatim>\<open>-funsigned-char\<close>, so a character code is never negative.\<close>

definition isascii :: "char \<Rightarrow> bool" where
  "isascii c = ((of_char c :: int) \<ge> 0 \<and> (of_char c :: int) < 256)"

definition isdigit :: "char \<Rightarrow> bool" where
  "isdigit c = ((of_char c :: int) \<ge> 48 \<and> (of_char c :: int) \<le> 57)"

definition digit_value :: "char \<Rightarrow> nat" where
  "digit_value c = of_char c - 48"

definition tobitcomplex :: "char \<Rightarrow> int" where
  "tobitcomplex c = (if isdigit c then int (digit_value c) else -1)"

text \<open>The digit loop, shared by the four conversions, in the width of its accumulator.\<close>

fun digit_loop :: "'a::len word \<Rightarrow> string \<Rightarrow> 'a word" where
  "digit_loop out [] = out"
| "digit_loop out (c # cs) =
    (if isdigit c then digit_loop (out * 10 + of_nat (digit_value c)) cs else out)"

definition tobyte :: "string \<Rightarrow> u8" where
  "tobyte str = digit_loop 0 str"

definition signed_digits :: "string \<Rightarrow> 'a::len word" where
  "signed_digits str =
    (let negative = (peek str = CHR ''-'');
         out = digit_loop 0 (if negative then tl str else str)
     in if negative then - out else out)"

definition toword :: "string \<Rightarrow> u16" where
  "toword str = signed_digits str"

definition tolong :: "string \<Rightarrow> u32" where
  "tolong str = ucast (signed_digits str :: u64)"

definition tolonglong :: "string \<Rightarrow> u64" where
  "tolonglong str = signed_digits str"

section \<open>Wildcard patterns\<close>

function match_rec :: "string \<Rightarrow> string \<Rightarrow> bool"
  and match_skip :: "string \<Rightarrow> string \<Rightarrow> bool" where
  "match_rec p s =
    (if p = [] then s = []
     else if take 3 p = ''***'' then
       (if drop 3 p = [] then True else match_skip (drop 3 p) s)
     else if peek p = CHR ''*'' then
       (if s = [] then False else match_rec (tl p) (tl s))
     else if s = [] \<or> peek p \<noteq> peek s then False
     else match_rec (tl p) (tl s))"
| "match_skip p s =
    (if s = [] then False
     else if peek s = peek p \<and> match_rec p s then True
     else match_skip p (tl s))"
  by pat_completeness auto
termination
  by (relation "measures [case_sum (length \<circ> fst) (length \<circ> fst), case_sum (\<lambda>_. 0) (\<lambda>_. 1),
        case_sum (length \<circ> snd) (length \<circ> snd)]") auto

declare match_rec.simps [simp del] match_skip.simps [simp del]

fun unescape :: "string \<Rightarrow> string" where
  "unescape [] = []"
| "unescape (c # cs) =
    (if c = CHR 0x5C \<and> cs \<noteq> [] then hd cs # unescape (tl cs) else c # unescape cs)"

definition pattmatch :: "string \<Rightarrow> string \<Rightarrow> bool" where
  "pattmatch pattern str = match_rec (unescape pattern) str"

section \<open>Facts about the routines\<close>

lemma strlen_length [simp]: "strlen s = length s"
  by (induction s) auto

lemma of_char_inject_int [simp]: "(of_char c :: int) = of_char d \<longleftrightarrow> c = d"
  by simp

lemma memcmp_str_zero:
  "n \<le> length a \<Longrightarrow> n \<le> length b \<Longrightarrow> memcmp_str a b n = 0 \<longleftrightarrow> take n a = take n b"
proof (induction n arbitrary: a b)
  case (Suc n)
  then obtain c a' d b' where "a = c # a'" "b = d # b'"
    by (metis Suc_le_length_iff)
  with Suc show ?case by (auto simp: peek_def)
qed simp

lemma strcmpc_antisym: "strcmpc b a = - strcmpc a b"
  by (induction a b rule: strcmpc.induct) (auto simp: peek_def)

lemma cstring_Cons [simp]: "cstring (c # s) \<longleftrightarrow> c \<noteq> NUL \<and> cstring s"
  by (auto simp: cstring_def)

lemma of_char_NUL [simp]: "of_char NUL = (0 :: int)"
  by (simp add: NUL_def)

lemma of_char_nonneg [simp]: "0 \<le> (of_char c :: int)"
  by (metis of_nat_0_le_iff of_nat_of_char)

lemma of_char_eq_0_int: "(of_char c :: int) = 0 \<longleftrightarrow> c = NUL"
  by (metis of_char_NUL of_char_inject_int)

lemma strcmpc_zero: "cstring a \<Longrightarrow> cstring b \<Longrightarrow> strcmpc a b = 0 \<longleftrightarrow> a = b"
  by (induction a b rule: strcmpc.induct)
     (auto simp: peek_def of_char_eq_0_int split: list.splits)

lemma isdigit_iff: "isdigit c \<longleftrightarrow> 48 \<le> (of_char c :: nat) \<and> (of_char c :: nat) \<le> 57"
proof -
  have "(of_char c :: int) = int (of_char c)" by (simp only: of_nat_of_char)
  then show ?thesis by (simp add: isdigit_def)
qed

text \<open>Every character passes for an ASCII character.\<close>

lemma isascii_always: "isascii c"
proof -
  have "(of_char c :: nat) < 256" by (metis mod_less_divisor of_char_mod_256 zero_less_numeral)
  moreover have "(of_char c :: int) = int (of_char c)" by (simp only: of_nat_of_char)
  ultimately show ?thesis by (simp add: isascii_def)
qed

lemma peek_simps [simp]: "peek (c # s) = c" "peek [] = NUL"
  by (simp_all add: peek_def)

section \<open>Wildcard matching, declaratively\<close>

text \<open>
  A literal matches itself, a star matches one character, and a block of three stars matches
  any text: all of it when nothing follows, otherwise up to some occurrence of the character
  that follows the block.
\<close>

inductive wmatch :: "string \<Rightarrow> string \<Rightarrow> bool" where
  wm_nil: "wmatch [] []"
| wm_block_end: "wmatch ''***'' s"
| wm_block: "p \<noteq> [] \<Longrightarrow> v \<noteq> [] \<Longrightarrow> hd v = hd p \<Longrightarrow> wmatch p v \<Longrightarrow> wmatch (''***'' @ p) (u @ v)"
| wm_single: "take 2 p \<noteq> ''**'' \<Longrightarrow> wmatch p s \<Longrightarrow> wmatch (CHR ''*'' # p) (c # s)"
| wm_lit: "c \<noteq> CHR ''*'' \<Longrightarrow> wmatch p s \<Longrightarrow> wmatch (c # p) (c # s)"

lemma suffix_split:
  "(\<exists>u v. c # s = u @ v \<and> P v) \<longleftrightarrow> P (c # s) \<or> (\<exists>u v. s = u @ v \<and> P v)"
proof
  assume "P (c # s) \<or> (\<exists>u v. s = u @ v \<and> P v)"
  then show "\<exists>u v. c # s = u @ v \<and> P v" by (metis append_Cons append_Nil)
qed (auto simp: Cons_eq_append_conv)

lemma match_skip_iff:
  "match_skip p s \<longleftrightarrow> (\<exists>u v. s = u @ v \<and> v \<noteq> [] \<and> hd v = peek p \<and> match_rec p v)"
proof (induction s)
  case Nil
  then show ?case by (simp add: match_skip.simps)
next
  case (Cons c s)
  have "match_skip p (c # s) \<longleftrightarrow> c = peek p \<and> match_rec p (c # s) \<or> match_skip p s"
    by (subst match_skip.simps) auto
  also have "\<dots> \<longleftrightarrow> (\<exists>u v. c # s = u @ v \<and> v \<noteq> [] \<and> hd v = peek p \<and> match_rec p v)"
    unfolding Cons suffix_split by simp
  finally show ?case .
qed

lemma block_split: "take 3 p = ''***'' \<Longrightarrow> p = ''***'' @ drop 3 p"
  by (metis append_take_drop_id)

lemma match_rec_block:
  "match_rec (''***'' @ p) s \<longleftrightarrow> p = [] \<or> match_skip p s"
  by (subst match_rec.simps) simp

lemma match_rec_star:
  "take 2 p \<noteq> ''**'' \<Longrightarrow> match_rec (CHR ''*'' # p) s \<longleftrightarrow> s \<noteq> [] \<and> match_rec p (tl s)"
  by (subst match_rec.simps) (simp add: numeral_eq_Suc)

lemma match_rec_lit:
  "c \<noteq> CHR ''*'' \<Longrightarrow> match_rec (c # p) s \<longleftrightarrow> s \<noteq> [] \<and> hd s = c \<and> match_rec p (tl s)"
  by (subst match_rec.simps) (cases s; auto simp: numeral_eq_Suc)

lemma match_rec_nil: "match_rec [] s \<longleftrightarrow> s = []"
  by (subst match_rec.simps) simp

lemma pattern_cases:
  obtains "p = []" | q where "p = ''***'' @ q"
  | q where "p = CHR ''*'' # q" "take 2 q \<noteq> ''**''"
  | c q where "p = c # q" "c \<noteq> CHR ''*''"
proof (cases p)
  case (Cons c q)
  show ?thesis
  proof (cases "c = CHR ''*''")
    case True
    show ?thesis
    proof (cases "take 2 q = ''**''")
      case True
      then have "q = ''**'' @ drop 2 q" by (metis append_take_drop_id)
      with Cons \<open>c = CHR ''*''\<close> that(2) [of "drop 2 q"] show ?thesis by simp
    qed (use Cons True that in blast)
  qed (use Cons that in blast)
qed (use that in blast)

lemma wmatch_imp_match_rec: "wmatch p s \<Longrightarrow> match_rec p s"
proof (induction rule: wmatch.induct)
  case (wm_block_end s)
  show ?case using match_rec_block [of "[]" s] by simp
next
  case (wm_block p v u)
  then have "hd v = peek p" by (cases p) auto
  with wm_block show ?case unfolding match_rec_block match_skip_iff by blast
qed (simp_all add: match_rec_nil match_rec_star match_rec_lit)

lemma match_rec_imp_wmatch: "match_rec p s \<Longrightarrow> wmatch p s"
proof (induction "length p" arbitrary: p s rule: less_induct)
  case less
  show ?case
  proof (cases p rule: pattern_cases)
    case 1
    with less.prems show ?thesis by (simp add: match_rec_nil wm_nil)
  next
    case (2 q)
    show ?thesis
    proof (cases "q = []")
      case True
      with 2 show ?thesis by (simp add: wm_block_end)
    next
      case False
      with less.prems 2 obtain u v where "s = u @ v" "v \<noteq> []" "hd v = peek q" "match_rec q v"
        unfolding 2 match_rec_block match_skip_iff by blast
      moreover have "peek q = hd q" using False by (cases q) auto
      ultimately show ?thesis
        using 2 False less.hyps [of q v] wm_block [of q v u] by simp
    qed
  next
    case (3 q)
    with less.prems have "s \<noteq> []" "match_rec q (tl s)" by (simp_all add: match_rec_star)
    with 3 show ?thesis
      using less.hyps [of q "tl s"] wm_single [of q "tl s" "hd s"] by simp
  next
    case (4 c q)
    with less.prems have "s \<noteq> []" "hd s = c" "match_rec q (tl s)"
      by (simp_all add: match_rec_lit)
    with 4 show ?thesis
      using less.hyps [of q "tl s"] wm_lit [of c q "tl s"] by (cases s) simp_all
  qed
qed

section \<open>Properties\<close>

text \<open>\<open>strchecks\<close> is the substring test, except that the empty snippet is never found.\<close>

theorem strchecks_sublist:
  "strchecks str snippet \<longleftrightarrow> snippet \<noteq> [] \<and> sublist snippet str"
proof -
  have "sublist snippet str \<longleftrightarrow>
      (\<exists>cc \<le> length str - length snippet. length snippet \<le> length str
         \<and> take (length snippet) (drop cc str) = snippet)"
  proof
    assume "sublist snippet str"
    then obtain u v where "str = u @ snippet @ v" by (auto simp: sublist_def)
    then show "\<exists>cc \<le> length str - length snippet. length snippet \<le> length str
        \<and> take (length snippet) (drop cc str) = snippet"
      by (intro exI [of _ "length u"]) simp
  next
    assume "\<exists>cc \<le> length str - length snippet. length snippet \<le> length str
        \<and> take (length snippet) (drop cc str) = snippet"
    then obtain cc where "take (length snippet) (drop cc str) = snippet" by blast
    then have "str = take cc str @ snippet @ drop (length snippet) (drop cc str)"
      by (metis append_take_drop_id)
    then show "sublist snippet str" unfolding sublist_def by blast
  qed
  moreover have "memcmp_str (drop cc str) snippet (length snippet) = 0
      \<longleftrightarrow> take (length snippet) (drop cc str) = snippet"
    if "cc \<le> length str - length snippet" "length snippet \<le> length str" for cc
    using that by (simp add: memcmp_str_zero)
  ultimately show ?thesis
    by (auto simp: strchecks_def Let_def list_ex_iff less_Suc_eq_le not_less simp del: upt_Suc)
qed

text \<open>On C strings \<open>strcmpc\<close> is 0 exactly for equal strings, it is antisymmetric, and its
  sign is the lexicographic order of the unsigned character codes.\<close>

theorem strcmpc_order:
  assumes "cstring a" and "cstring b"
  shows "(strcmpc a b = 0 \<longleftrightarrow> a = b) \<and> strcmpc b a = - strcmpc a b
    \<and> (strcmpc a b < 0 \<longleftrightarrow> (a, b) \<in> lexord {(c, d). (of_char c :: int) < of_char d})"
proof -
  have "strcmpc a b < 0 \<longleftrightarrow> (a, b) \<in> lexord {(c, d). (of_char c :: int) < of_char d}"
    using assms
  proof (induction a b rule: strcmpc.induct, goal_cases)
    case (2 b)
    have "(0 :: int) < of_char c" if "c \<noteq> NUL" for c
      using that of_char_eq_0_int [of c] of_char_nonneg [of c] by linarith
    with 2 show ?case by (cases b) simp_all
  next
    case (3 a)
    show ?case using of_char_nonneg by (auto simp: not_less)
  qed auto
  then show ?thesis using assms using strcmpc_zero strcmpc_antisym [of b a] by blast
qed

theorem strcmpc_order_witness: "strcmpc ''ab'' ''ac'' < 0"
  using strcmpc_order [of "''ab''" "''ac''"] by (simp add: cstring_def NUL_def)

text \<open>C23: the recursive matcher decides the declarative wildcard relation.\<close>

theorem match_rec_wmatch: "match_rec p s \<longleftrightarrow> wmatch p s"
  using wmatch_imp_match_rec match_rec_imp_wmatch by blast

text \<open>A backslash does not protect a star: the escape is removed before matching, so an
  escaped star still matches every single character, and a pattern without backslashes and
  stars matches only itself.\<close>

theorem pattmatch_escapes:
  "pattmatch [CHR 0x5C, CHR ''*''] [c]
   \<and> (CHR 0x5C \<notin> set p \<and> CHR ''*'' \<notin> set p \<longrightarrow> (pattmatch p s \<longleftrightarrow> s = p))"
proof (intro conjI impI)
  show "pattmatch [CHR 0x5C, CHR ''*''] [c]"
    by (simp add: pattmatch_def match_rec_star match_rec_nil)
  assume p: "CHR 0x5C \<notin> set p \<and> CHR ''*'' \<notin> set p"
  then have "unescape p = p" by (induction p) auto
  moreover have "match_rec p s \<longleftrightarrow> s = p"
    using p
  proof (induction p arbitrary: s)
    case (Cons c p)
    then have c: "c \<noteq> CHR ''*''" and IH: "\<And>t. match_rec p t \<longleftrightarrow> t = p" by auto
    show ?case unfolding match_rec_lit [OF c] IH by (cases s) auto
  qed (simp add: match_rec_nil)
  ultimately show "pattmatch p s \<longleftrightarrow> s = p" by (simp add: pattmatch_def)
qed

theorem pattmatch_escapes_witness: "pattmatch ''boot'' ''boot''"
  using pattmatch_escapes [of undefined "''boot''" "''boot''"] by simp

end
