(* ===== verification/Kernel_Format.thy ===== *)
theory Kernel_Format
  imports Kernel_String
begin

text \<open>
  The formatted output of \<^verbatim>\<open>kernel/libcrt/SimpleOutput/SimpleOutput.c\<close> and the glyph printer of
  \<^verbatim>\<open>kernel/services/Video/controllers/Text.c\<close>, whose \<open>TextCopyF\<close> is the same function.  The
  variadic arguments are a list.  The output stream is the buffer itself, indexed by the 32-bit
  counter of the source; \<open>*size\<close> is a 64-bit value.  The pointers are not null.  A fault is a
  value: an argument of the wrong kind or none at all, and an access outside of the buffer.
\<close>

datatype copy_fault = BadArgument | OutOfBounds

datatype va_arg = AWord u64 | AStr "string option"

definition sample :: string where
  "sample = ''0123456789abcdefghijklmnopqrstuvwxyzABCDEFGHIJKLMNOPQRSTUVWXYZ''"

section \<open>Integers\<close>

text \<open>
  The value and the sign that a conversion takes from its argument.  The negation of an 8-bit or
  16-bit value happens in \<open>int\<close>, the negation of a 32-bit value wraps in 32 bits and is then
  sign-extended.
\<close>

definition signed_value :: "int \<Rightarrow> u64 \<times> bool" where
  "signed_value t = (if t < 0 then (word_of_int (- t), True) else (word_of_int t, False))"

definition fmt_value :: "char \<Rightarrow> u64 \<Rightarrow> (u64 \<times> bool) option" where
  "fmt_value k w =
    (if k = CHR ''u'' then Some (ucast (ucast w :: u8), False)
     else if k = CHR ''h'' then Some (ucast (ucast w :: u16), False)
     else if k = CHR ''l'' then Some (ucast (ucast w :: u32), False)
     else if k = CHR ''z'' then Some (w, False)
     else if k = CHR ''o'' then Some (signed_value (sint (ucast w :: u8)))
     else if k = CHR ''e'' then Some (signed_value (sint (ucast w :: u16)))
     else if k = CHR ''r'' then
       (let temp = ucast w :: u32 in
        Some (if sint temp < 0 then (scast (- temp), True) else (scast temp, False)))
     else if k = CHR ''i'' then
       Some (if sint w < 0 then (- w, True) else (w, False))
     else None)"

function num_digits :: "nat \<Rightarrow> string" where
  "num_digits v = (if v > 0 then sample ! (v mod 10) # num_digits (v div 10) else [])"
  by auto
termination by (relation "measure id") auto

declare num_digits.simps [simp del]

text \<open>The temporary buffer, least significant digit first, the sign last.\<close>

definition num_buf :: "u64 \<Rightarrow> bool \<Rightarrow> string" where
  "num_buf value negative =
    (if value = 0 then ''0'' else num_digits (unat value)) @ (if negative then ''-'' else [])"

section \<open>The format loop\<close>

text \<open>
  What a conversion contributes: the characters, whether their copy loop tests the room left
  (a string and a number do, a character and an unknown letter are stored unconditionally), and
  the remaining arguments.
\<close>

definition fmt_text :: "char \<Rightarrow> va_arg list \<Rightarrow> (string \<times> bool \<times> va_arg list) option" where
  "fmt_text k ls =
    (if k \<in> set ''uhlzoeri'' then
       (case ls of
          AWord w # ls' \<Rightarrow>
            map_option (\<lambda>(value, negative). (rev (num_buf value negative), True, ls')) (fmt_value k w)
        | _ \<Rightarrow> None)
     else if k = CHR ''s'' then
       (case ls of
          AStr str # ls' \<Rightarrow> Some (case str of None \<Rightarrow> ''(null)'' | Some u \<Rightarrow> u, True, ls')
        | _ \<Rightarrow> None)
     else if k = CHR ''c'' then
       (case ls of
          AWord w # ls' \<Rightarrow> Some ([char_of (unat w)], False, ls')
        | _ \<Rightarrow> None)
     else Some ([k], False, ls))"

text \<open>The character of the format at the 32-bit index, the terminator at its end.\<close>

definition fchar :: "string \<Rightarrow> u32 \<Rightarrow> char" where
  "fchar f cc = (if unat cc < length f then f ! unat cc else NUL)"

text \<open>\<open>stream[counter++] = c\<close>, and the copy loops that test the room left before each store.\<close>

definition put :: "string \<Rightarrow> u32 \<Rightarrow> char \<Rightarrow> copy_fault + string \<times> u32" where
  "put st n c = (if unat n < length st then Inr (st[unat n := c], n + 1) else Inl OutOfBounds)"

fun put_chars :: "u64 \<Rightarrow> string \<Rightarrow> u32 \<Rightarrow> string \<Rightarrow> copy_fault + string \<times> u32" where
  "put_chars sz st n [] = Inr (st, n)"
| "put_chars sz st n (c # cs) =
    (if ucast n < sz - 1 then
       (case put st n c of Inl e \<Rightarrow> Inl e | Inr (st', n') \<Rightarrow> put_chars sz st' n' cs)
     else Inr (st, n))"

definition put_text :: "u64 \<Rightarrow> string \<Rightarrow> u32 \<Rightarrow> string \<Rightarrow> bool \<Rightarrow> copy_fault + string \<times> u32" where
  "put_text sz st n t guarded = (if guarded then put_chars sz st n t else put st n (hd t))"

text \<open>
  The loop over the format.  Its index has 32 bits, so a longer format never ends: that is the
  value \<open>None\<close>.
\<close>

partial_function (option) copyf ::
  "u64 \<Rightarrow> string \<Rightarrow> va_arg list \<Rightarrow> string \<Rightarrow> u32 \<Rightarrow> u32 \<Rightarrow> (copy_fault + string \<times> u32) option" where
  "copyf sz f ls st n cc =
    (if fchar f cc = NUL \<or> \<not> ucast n < sz - 1 then Some (Inr (st, n))
     else if fchar f cc = CHR ''%'' then
       (if fchar f (cc + 1) = NUL then Some (Inr (st, n))
        else
          (case fmt_text (fchar f (cc + 1)) ls of
             None \<Rightarrow> Some (Inl BadArgument)
           | Some (t, guarded, ls') \<Rightarrow>
               (case put_text sz st n t guarded of
                  Inl e \<Rightarrow> Some (Inl e)
                | Inr (st', n') \<Rightarrow> copyf sz f ls' st' n' (cc + 2))))
     else
       (case put st n (fchar f cc) of
          Inl e \<Rightarrow> Some (Inl e)
        | Inr (st', n') \<Rightarrow> copyf sz f ls st' n' (cc + 1)))"

text \<open>
  The terminator goes to the place of the counter, which becomes the new \<open>*size\<close>; a buffer of
  size 0 is left as it is.
\<close>

definition SimpleCopyF ::
  "u64 \<Rightarrow> string \<Rightarrow> string \<Rightarrow> va_arg list \<Rightarrow> (copy_fault + string \<times> u64) option" where
  "SimpleCopyF sz stream f ls =
    (if sz = 0 then Some (Inr (stream, sz))
     else
       (case copyf sz f ls stream 0 0 of
          None \<Rightarrow> None
        | Some (Inl e) \<Rightarrow> Some (Inl e)
        | Some (Inr (st, n)) \<Rightarrow>
            Some (if unat n < length st then Inr (st[unat n := NUL], ucast n) else Inl OutOfBounds)))"

section \<open>Facts about the digits\<close>

lemma sample_digit: "d < 10 \<Longrightarrow> sample ! d = char_of (48 + d)"
proof -
  have "list_all (\<lambda>d. sample ! d = char_of (48 + d)) [0..<10]" by code_simp
  then show "d < 10 \<Longrightarrow> sample ! d = char_of (48 + d)" by (simp add: list_all_iff)
qed

lemma of_char_sample: "d < 10 \<Longrightarrow> of_char (sample ! d) = 48 + d"
  by (simp add: sample_digit)

lemma digit_of_sample [simp]: "isdigit (sample ! (v mod 10))" "digit_value (sample ! (v mod 10)) = v mod 10"
  using of_char_sample [of "v mod 10"] by (simp_all add: isdigit_iff digit_value_def)

lemma digits_all: "list_all isdigit (num_digits v)"
  by (induction v rule: num_digits.induct) (subst num_digits.simps, simp)

lemma digit_loop_snoc:
  "list_all isdigit xs \<Longrightarrow> digit_loop out (xs @ [d]) = digit_loop (digit_loop out xs) [d]"
  by (induction xs arbitrary: out) auto

lemma digit_loop_digits: "digit_loop 0 (rev (num_digits v)) = of_nat v"
proof (induction v rule: num_digits.induct)
  case (1 v)
  show ?case
  proof (cases "v > 0")
    case True
    have "of_nat (v div 10) * 10 + of_nat (v mod 10) = (of_nat v :: 'a word)"
      by (metis mult_div_mod_eq of_nat_add of_nat_mult of_nat_numeral mult.commute)
    with True 1 show ?thesis
      by (subst num_digits.simps) (simp add: digit_loop_snoc digits_all)
  qed (subst num_digits.simps, simp)
qed

lemma num_digits_length: "v < 10 ^ n \<Longrightarrow> length (num_digits v) \<le> n"
proof (induction n arbitrary: v)
  case 0
  then show ?case by (simp add: num_digits.simps [of 0])
next
  case (Suc n)
  then have "v div 10 < 10 ^ n" by (simp add: less_mult_imp_div_less mult.commute)
  with Suc show ?case by (simp add: num_digits.simps [of v])
qed

text \<open>The temporary buffer of 70 characters is never overrun.\<close>

lemma num_buf_length: "length (num_buf value negative) \<le> 21"
proof -
  have "unat value < 10 ^ 20" using unat_u64_less [of "value"] by simp
  then show ?thesis using num_digits_length [of "unat value" 20] by (simp add: num_buf_def)
qed

lemma digit_not_minus: "isdigit c \<Longrightarrow> c \<noteq> CHR ''-''"
  by (auto simp: isdigit_iff)

lemma num_buf_zero: "num_buf 0 negative = ''0'' @ (if negative then ''-'' else [])"
  by (simp add: num_buf_def)

lemma tolonglong_num_buf:
  "tolonglong (rev (num_buf value negative)) = (if negative then - value else value)"
proof -
  let ?ds = "if value = 0 then ''0'' else num_digits (unat value)"
  have ds: "digit_loop 0 (rev ?ds) = value"
    by (auto simp: digit_loop_digits isdigit_iff digit_value_def)
  have all: "list_all isdigit ?ds" by (auto simp: digits_all isdigit_iff)
  have "?ds \<noteq> []" by (simp add: num_digits.simps [of "unat value"] unat_gt_0)
  with all have "peek (rev ?ds) \<noteq> CHR ''-''"
    by (cases "rev ?ds") (auto dest!: digit_not_minus simp: list_all_iff rev_eq_Cons_iff)
  with ds show ?thesis
    by (simp only: tolonglong_def signed_digits_def num_buf_def rev_append Let_def) auto
qed

lemma ucast_down_up: "ucast (ucast (t :: u32) :: u64) = t"
  by (rule bit_eqI) (simp add: bit_simps)

lemma scast_minus_upcast:
  fixes t :: u32
  assumes "t \<noteq> 0x80000000"
  shows "- (scast (- t) :: u64) = scast t"
proof -
  have "sint t \<noteq> - (2 ^ 31)"
  proof
    assume "sint t = - (2 ^ 31)"
    then have "(word_of_int (sint t) :: u32) = word_of_int (- (2 ^ 31))" by simp
    with assms show False by simp
  qed
  moreover have "- (2 ^ 31) \<le> sint t" "sint t < 2 ^ 31"
    using sint_greater_eq [of t] sint_less [of t] by simp_all
  ultimately have "sint (- t) = - sint t"
    by (subst sint_word_minus) (simp add: signed_take_bit_int_eq_self)
  then have "(scast (- t) :: u64) = - scast t" by (simp only: scast_eq of_int_minus)
  then show ?thesis by (simp only: minus_minus)
qed

section \<open>Bounds of the copy\<close>

lemma unat_wide: "unat (ucast (n :: u32) :: u64) = unat n"
  by (simp add: unsigned_ucast_eq take_bit_nat_eq_self less_trans [OF unsigned_less])

lemma room_iff:
  fixes n :: u32 and sz :: u64
  assumes "sz \<noteq> 0"
  shows "ucast n < sz - 1 \<longleftrightarrow> unat n + 1 < unat sz"
proof -
  have "unat (sz - 1) = unat sz - 1" using assms by (simp add: unat_minus_one)
  moreover have "unat (ucast n :: u64) = unat n" by (simp add: unat_wide)
  moreover have "unat sz \<noteq> 0" using assms by (simp add: unat_eq_0)
  ultimately show ?thesis by (simp add: word_less_nat_alt) linarith
qed

text \<open>The counter is behind no character of the buffer but its last one.\<close>

definition in_buffer :: "u64 \<Rightarrow> string \<Rightarrow> u32 \<Rightarrow> bool" where
  "in_buffer sz st n = (sz \<noteq> 0 \<and> length st = unat sz \<and> unat n < unat sz)"

lemma succ_in_buffer:
  assumes "in_buffer sz st n" and "ucast n < sz - 1"
  shows "in_buffer sz (st[unat n := c]) (n + 1)"
proof -
  have "unat (n + 1) \<le> unat n + 1" by (simp add: unat_word_ariths)
  with assms show ?thesis by (simp add: in_buffer_def room_iff)
qed

lemma put_in_buffer:
  "in_buffer sz st n \<Longrightarrow> put st n c = Inr (st[unat n := c], n + 1)"
  by (simp add: put_def in_buffer_def)

lemma put_chars_in_buffer:
  "in_buffer sz st n \<Longrightarrow> \<exists>st' n'. put_chars sz st n t = Inr (st', n') \<and> in_buffer sz st' n'"
proof (induction t arbitrary: st n)
  case (Cons c t)
  then show ?case using succ_in_buffer [of sz st n c] by (auto simp: put_in_buffer)
qed simp

lemma put_text_in_buffer:
  assumes "in_buffer sz st n" and "ucast n < sz - 1"
  shows "\<exists>st' n'. put_text sz st n t g = Inr (st', n') \<and> in_buffer sz st' n'"
  using assms put_chars_in_buffer [of sz st n t] succ_in_buffer [of sz st n "hd t"]
  by (auto simp: put_text_def put_in_buffer)

text \<open>One pass of the loop stays in the buffer, whatever the rest of the loop \<open>g\<close> does.\<close>

definition ends_in :: "u64 \<Rightarrow> copy_fault + string \<times> u32 \<Rightarrow> bool" where
  "ends_in sz r = (case r of Inl e \<Rightarrow> e = BadArgument | Inr (st, n) \<Rightarrow> in_buffer sz st n)"

lemma copyf_in_buffer:
  "copyf sz f ls st n cc = Some r \<Longrightarrow> in_buffer sz st n \<longrightarrow> ends_in sz r"
proof (rule copyf.raw_induct [where P = "\<lambda>sz f ls st n cc r. in_buffer sz st n \<longrightarrow> ends_in sz r"])
  fix g sz f ls st n cc r
  assume IH: "\<And>sz f ls st n cc r. g sz f ls st n cc = Some r \<Longrightarrow> in_buffer sz st n \<longrightarrow> ends_in sz r"
    and step: "(if fchar f cc = NUL \<or> \<not> ucast n < sz - 1 then Some (Inr (st, n))
     else if fchar f cc = CHR ''%'' then
       (if fchar f (cc + 1) = NUL then Some (Inr (st, n))
        else
          (case fmt_text (fchar f (cc + 1)) ls of
             None \<Rightarrow> Some (Inl BadArgument)
           | Some (t, guarded, ls') \<Rightarrow>
               (case put_text sz st n t guarded of
                  Inl e \<Rightarrow> Some (Inl e)
                | Inr (st', n') \<Rightarrow> g sz f ls' st' n' (cc + 2))))
     else
       (case put st n (fchar f cc) of
          Inl e \<Rightarrow> Some (Inl e)
        | Inr (st', n') \<Rightarrow> g sz f ls st' n' (cc + 1))) = Some r"
  show "in_buffer sz st n \<longrightarrow> ends_in sz r"
  proof
    assume buf: "in_buffer sz st n"
    have pt: "\<exists>st' n'. put_text sz st n t h = Inr (st', n') \<and> in_buffer sz st' n'"
      and p1: "put st n c = Inr (st[unat n := c], n + 1)" "in_buffer sz (st[unat n := c]) (n + 1)"
      if "ucast n < sz - 1" for t h c
      using put_text_in_buffer [OF buf that] put_in_buffer [OF buf] succ_in_buffer [OF buf that] by auto
    show "ends_in sz r"
    proof (cases "ucast n < sz - 1")
      case True
      show ?thesis
      proof (cases "fmt_text (fchar f (cc + 1)) ls")
        case None
        with step buf True p1 [OF True] IH show ?thesis
          by (fastforce simp: ends_in_def split: if_splits)
      next
        case (Some a)
        obtain t h ls' where a: "a = (t, h, ls')" by (cases a)
        with Some step buf p1 [OF True] pt [OF True, of t h] IH show ?thesis
          by (fastforce simp: ends_in_def split: if_splits)
      qed
    qed (use step buf in \<open>auto simp: ends_in_def\<close>)
  qed
qed

lemma fchar_end: "fchar f cc \<noteq> NUL \<Longrightarrow> unat cc < length f"
  by (simp add: fchar_def split: if_splits)

lemma unat_index_step:
  fixes cc :: u32
  assumes "unat cc < length f" and "length f < 2 ^ 32"
  shows "unat (cc + 1) = unat cc + 1"
  using assms unat_add_lem [of cc 1] by simp

text \<open>The loop ends for every format of less than 4 GB.\<close>

lemma copyf_ends: "length f < 2 ^ 32 \<Longrightarrow> \<exists>r. copyf sz f ls st n cc = Some r"
proof (induction "length f - unat cc" arbitrary: ls st n cc rule: less_induct)
  case less
  show ?case
  proof (cases "fchar f cc = NUL \<or> \<not> ucast n < sz - 1")
    case False
    then have cc: "unat cc < length f" using fchar_end by blast
    have one: "unat (cc + 1) = unat cc + 1" using unat_index_step [OF cc less.prems] .
    show ?thesis
    proof (cases "fchar f cc = CHR ''%''")
      case True
      show ?thesis
      proof (cases "fchar f (cc + 1) = NUL")
        case more: False
        then have "unat (cc + 1) < length f" using fchar_end by blast
        then have "unat (cc + 1 + 1) = unat cc + 2"
          using unat_index_step [of "cc + 1" f] less.prems one by simp
        then have two: "unat (cc + 2) = unat cc + 2" by (simp add: add.assoc)
        have IH: "\<exists>r. copyf sz f l s m (cc + 2) = Some r" for l s m
          using less.hyps [of "cc + 2"] cc two less.prems by simp
        with False True more show ?thesis
          by (subst copyf.simps) (auto split: option.splits sum.splits)
      qed (use False True in \<open>simp add: copyf.simps [of sz f ls st n cc]\<close>)
    next
      case no: False
      have "\<exists>r. copyf sz f ls s m (cc + 1) = Some r" for s m
        using less.hyps [of "cc + 1"] cc one less.prems by simp
      with False no show ?thesis by (subst copyf.simps) (auto split: sum.splits)
    qed
  qed (simp add: copyf.simps [of sz f ls st n cc])
qed

section \<open>What is copied\<close>

lemma list_update_run:
  "i < length st \<Longrightarrow> take (Suc i) (st[i := c]) = take i st @ [c]
     \<and> drop (Suc i) (st[i := c]) = drop (Suc i) st"
  by (simp add: take_Suc_conv_app_nth)

lemma unat_run:
  fixes n :: u32
  assumes "unat n + k < 2 ^ 32"
  shows "unat (n + of_nat k) = unat n + k"
  using assms by (simp add: unat_word_ariths unat_of_nat take_bit_eq_mod)

lemma put_chars_run:
  "in_buffer sz st n \<Longrightarrow> unat n + length t < unat sz \<Longrightarrow> unat n + length t < 2 ^ 32 \<Longrightarrow>
     put_chars sz st n t = Inr (take (unat n) st @ t @ drop (unat n + length t) st, n + of_nat (length t))"
proof (induction t arbitrary: st n)
  case (Cons c t)
  then have room: "ucast n < sz - 1" and i: "unat n < length st"
    by (auto simp: in_buffer_def room_iff)
  have n: "unat (n + 1) = Suc (unat n)" using unat_run [of n 1] Cons.prems by simp
  have "put_chars sz (st[unat n := c]) (n + 1) t =
      Inr (take (unat (n + 1)) (st[unat n := c]) @ t @ drop (unat (n + 1) + length t) (st[unat n := c]),
        n + 1 + of_nat (length t))"
    using Cons.IH [OF succ_in_buffer [OF Cons.prems(1) room]] Cons.prems n by simp
  then show ?case
    using room put_in_buffer [OF Cons.prems(1), of c] list_update_run [OF i, of c]
    by (simp add: n add.assoc)
qed simp

text \<open>Text without a percent sign, from the place of the two counters on.\<close>

lemma copyf_plain:
  assumes "CHR ''%'' \<notin> set f" and "cstring f" and "length f < 2 ^ 32" and "unat sz \<le> 2 ^ 32"
    and "in_buffer sz st n" and "unat cc \<le> length f"
  shows "copyf sz f ls st n cc =
    (let t = take (unat sz - 1 - unat n) (drop (unat cc) f) in
     Some (Inr (take (unat n) st @ t @ drop (unat n + length t) st, n + of_nat (length t))))"
  using assms(5,6)
proof (induction "length f - unat cc" arbitrary: st n cc rule: less_induct)
  case less
  show ?case
  proof (cases "unat cc < length f \<and> ucast n < sz - 1")
    case True
    let ?c = "f ! unat cc" and ?d = "drop (Suc (unat cc)) f"
    have c: "fchar f cc = ?c" "?c \<noteq> NUL" "?c \<noteq> CHR ''%''"
      using True assms(1,2) nth_mem [of "unat cc" f]
      by (simp add: fchar_def, metis cstring_def, metis)
    have cc: "unat (cc + 1) = Suc (unat cc)"
      using unat_index_step [of cc f] True assms(3) by simp
    have i: "unat n + 1 < unat sz" "unat n < length st"
      using True less.prems by (auto simp: in_buffer_def room_iff)
    have n: "unat (n + 1) = Suc (unat n)" using unat_run [of n 1] i assms(4) by simp
    have d: "drop (unat cc) f = ?c # ?d" using True by (simp add: Cons_nth_drop_Suc)
    have k: "unat sz - 1 - unat n = Suc (unat sz - 1 - Suc (unat n))" using i by simp
    have m: "length f - unat (cc + 1) < length f - unat cc" and le: "unat (cc + 1) \<le> length f"
      and room: "ucast n < sz - 1" using True cc by auto
    have "copyf sz f ls st n cc = copyf sz f ls (st[unat n := ?c]) (n + 1) (cc + 1)"
      using True c put_in_buffer [OF less.prems(1)] by (simp add: copyf.simps [of sz f ls st n cc])
    also have "\<dots> = (let t = take (unat sz - 1 - Suc (unat n)) ?d in
        Some (Inr (take (Suc (unat n)) (st[unat n := ?c]) @ t
          @ drop (Suc (unat n) + length t) (st[unat n := ?c]), n + 1 + of_nat (length t))))"
      using less.hyps [OF m succ_in_buffer [OF less.prems(1) room, of ?c] le] by (simp only: n cc)
    also have "\<dots> = (let t = ?c # take (unat sz - 1 - Suc (unat n)) ?d in
        Some (Inr (take (unat n) st @ t @ drop (unat n + length t) st, n + of_nat (length t))))"
    proof -
      define T where "T = take (unat sz - 1 - Suc (unat n)) ?d"
      show ?thesis using list_update_run [OF i(2), of ?c]
        by (simp only: T_def [symmetric] Let_def) (simp add: add.assoc)
    qed
    also have "?c # take (unat sz - 1 - Suc (unat n)) ?d = take (unat sz - 1 - unat n) (drop (unat cc) f)"
      unfolding k d by (simp only: take_Suc_Cons)
    finally show ?thesis .
  next
    case False
    then have "take (unat sz - 1 - unat n) (drop (unat cc) f) = []"
      using less.prems room_iff [of sz n] by (auto simp: in_buffer_def not_less)
    moreover have "fchar f cc = NUL \<or> \<not> ucast n < sz - 1" using False by (auto simp: fchar_def)
    ultimately show ?thesis by (simp only: copyf.simps [of sz f ls st n cc] Let_def) simp
  qed
qed

text \<open>A single number conversion into a buffer that has room for every number.\<close>

lemma num_buf_chars: "NUL \<notin> set (num_buf v g)"
proof -
  have "\<not> isdigit NUL" by (simp add: isdigit_def)
  then have "NUL \<notin> set (num_digits m)" for m using digits_all [of m] by (auto simp: list_all_iff)
  then show ?thesis by (auto simp: num_buf_def NUL_def)
qed

lemma takeWhile_terminated: "NUL \<notin> set t \<Longrightarrow> takeWhile (\<lambda>c. c \<noteq> NUL) (t @ NUL # u) = t"
  by (induction t) auto

lemma update_run: "(t @ x # u)[length t := c] = t @ c # u"
  by simp

lemma SimpleCopyF_copied:
  assumes "sz \<noteq> 0" and "copyf sz f ls stream 0 0 = Some (Inr (t @ drop (length t) stream, of_nat (length t)))"
    and "length t < length stream" and "length t < 2 ^ 32"
  shows "SimpleCopyF sz stream f ls = Some (Inr (t @ NUL # drop (length t + 1) stream, of_nat (length t)))"
proof -
  have n: "unat (of_nat (length t) :: u32) = length t" using unat_run [of 0 "length t"] assms(4) by simp
  moreover from n have "ucast (of_nat (length t) :: u32) = (of_nat (length t) :: u64)"
    by (metis of_nat_unat)
  moreover have "drop (length t) stream = stream ! length t # drop (length t + 1) stream"
    using assms(3) by (simp add: Cons_nth_drop_Suc)
  ultimately show ?thesis using assms(1-3) by (simp add: SimpleCopyF_def)
qed

lemma SimpleCopyF_number:
  assumes "k \<in> set ''uhlzoeri''" and "fmt_value k w = Some (v, g)"
    and "22 \<le> sz" and "length stream = unat sz"
  shows "\<exists>st n. SimpleCopyF sz stream [CHR ''%'', k] [AWord w] = Some (Inr (st, n))
    \<and> takeWhile (\<lambda>c. c \<noteq> NUL) st = rev (num_buf v g)"
proof -
  let ?t = "rev (num_buf v g)"
  have k: "k \<noteq> NUL" using assms(1) by (auto simp: NUL_def)
  have sz: "22 \<le> unat sz" "sz \<noteq> 0" using assms(3) by (auto simp: word_le_nat_alt)
  have len: "length ?t \<le> 21" using num_buf_length [of v g] by simp
  have buf: "in_buffer sz stream 0" using sz assms(4) by (simp add: in_buffer_def)
  have c: "fchar [CHR ''%'', k] 0 = CHR ''%''" "fchar [CHR ''%'', k] 1 = k"
    "fchar [CHR ''%'', k] 2 = NUL" by (simp_all add: fchar_def)
  have room: "ucast (0 :: u32) < sz - 1" using sz room_iff [of sz 0] by simp
  have conv: "fmt_text k [AWord w] = Some (?t, True, [])" using assms(1,2) by (simp add: fmt_text_def)
  have "put_chars sz stream 0 ?t = Inr (?t @ drop (length ?t) stream, of_nat (length ?t))"
    using put_chars_run [OF buf, of ?t] len sz by simp
  then have "copyf sz [CHR ''%'', k] [AWord w] stream 0 0 =
      Some (Inr (?t @ drop (length ?t) stream, of_nat (length ?t)))"
    using c k room conv
    by (simp add: copyf.simps [of sz _ _ stream 0 0] copyf.simps [of sz _ _ _ _ 2] put_text_def NUL_def)
  from SimpleCopyF_copied [OF sz(2) this] len sz(1) assms(4)
  have "SimpleCopyF sz stream [CHR ''%'', k] [AWord w] =
      Some (Inr (?t @ NUL # drop (length ?t + 1) stream, of_nat (length ?t)))" by simp
  then show ?thesis using takeWhile_terminated [of ?t] num_buf_chars [of v g] by simp
qed

section \<open>Properties\<close>

text \<open>C25: in a buffer of \<open>size\<close> characters the formatted copy never touches a character outside of
  the buffer, whatever the format and the arguments, and it returns for every format shorter
  than 4 GB.  When the arguments fit the conversions it puts the terminator into the buffer, at
  the number it reports as the new size.  A format without a percent sign (and, like the
  buffer, of less than 4 GB) is copied as far as it fits, and the rest of the buffer keeps its
  bytes.\<close>

theorem SimpleCopyF_bounded:
  assumes "length stream = unat sz" and "0 < sz"
  shows "(\<forall>r. SimpleCopyF sz stream f ls = Some r \<longrightarrow>
        r = Inl BadArgument
        \<or> (\<exists>st n. r = Inr (st, n) \<and> length st = unat sz \<and> n < sz \<and> st ! unat n = NUL))
   \<and> (length f < 2 ^ 32 \<longrightarrow> SimpleCopyF sz stream f ls \<noteq> None)
   \<and> (CHR ''%'' \<notin> set f \<and> cstring f \<and> length f < 2 ^ 32 \<and> sz \<le> 2 ^ 32 \<longrightarrow>
        (let t = take (unat sz - 1) f in
         SimpleCopyF sz stream f ls =
           Some (Inr (t @ NUL # drop (length t + 1) stream, of_nat (length t)))))"
proof (intro conjI allI impI)
  have buf: "in_buffer sz stream 0"
    using assms by (simp add: in_buffer_def word_less_nat_alt word_neq_0_conv)
  then have sz: "sz \<noteq> 0" by (simp add: in_buffer_def)
  fix r assume r: "SimpleCopyF sz stream f ls = Some r"
  then obtain q where q: "copyf sz f ls stream 0 0 = Some q"
    using sz by (auto simp: SimpleCopyF_def split: option.splits)
  show "r = Inl BadArgument
      \<or> (\<exists>st n. r = Inr (st, n) \<and> length st = unat sz \<and> n < sz \<and> st ! unat n = NUL)"
  proof (cases q)
    case (Inl e)
    with q r sz copyf_in_buffer [OF q] buf show ?thesis by (simp add: SimpleCopyF_def ends_in_def)
  next
    case (Inr p)
    obtain st n where p: "p = (st, n)" by (cases p)
    with Inr copyf_in_buffer [OF q] buf have "in_buffer sz st n" by (simp add: ends_in_def)
    with q r sz Inr p show ?thesis
      by (auto simp: SimpleCopyF_def in_buffer_def word_less_nat_alt unat_wide)
  qed
next
  assume "length f < 2 ^ 32"
  then show "SimpleCopyF sz stream f ls \<noteq> None"
    using copyf_ends [of f sz ls stream 0 0] by (auto simp: SimpleCopyF_def split: sum.splits)
next
  assume f: "CHR ''%'' \<notin> set f \<and> cstring f \<and> length f < 2 ^ 32 \<and> sz \<le> 2 ^ 32"
  have buf: "in_buffer sz stream 0"
    using assms by (simp add: in_buffer_def word_less_nat_alt word_neq_0_conv)
  have sz: "unat sz \<le> 2 ^ 32" "sz \<noteq> 0" using f buf by (simp_all add: word_le_nat_alt in_buffer_def)
  then have len: "length (take (unat sz - 1) f) < length stream" "length (take (unat sz - 1) f) < 2 ^ 32"
    using f buf by (auto simp: in_buffer_def)
  have "copyf sz f ls stream 0 0 = Some (Inr (take (unat sz - 1) f
      @ drop (length (take (unat sz - 1) f)) stream, of_nat (length (take (unat sz - 1) f))))"
    using copyf_plain [OF _ _ _ sz(1) buf, of f 0 ls] f by (simp add: Let_def)
  from SimpleCopyF_copied [OF sz(2) this len]
  show "let t = take (unat sz - 1) f in SimpleCopyF sz stream f ls =
      Some (Inr (t @ NUL # drop (length t + 1) stream, of_nat (length t)))" by (simp only: Let_def)
qed

theorem SimpleCopyF_bounded_witness:
  "SimpleCopyF 5 ''.....'' ''kernel'' [] = Some (Inr (''kern'' @ [NUL], 4))"
proof -
  have "CHR ''%'' \<notin> set ''kernel'' \<and> cstring ''kernel'' \<and> length ''kernel'' < 2 ^ 32 \<and> (5 :: u64) \<le> 2 ^ 32"
    by (simp add: cstring_def NUL_def)
  with SimpleCopyF_bounded [of "''.....''" 5 "''kernel''" "[]"]
  have "let t = take 4 ''kernel'' in SimpleCopyF 5 ''.....'' ''kernel'' [] =
      Some (Inr (t @ NUL # drop (length t + 1) ''.....'', of_nat (length t)))" by simp
  moreover have "take 4 ''kernel'' = ''kern''" by (simp add: numeral_eq_Suc)
  ultimately show ?thesis by (simp add: Let_def)
qed

text \<open>C24: printing a 64-bit integer with \<open>%i\<close> into a buffer of at least 22 characters and
  reading the string in the buffer back with \<open>tolonglong\<close> gives the same integer, the most
  negative one included (its negation wraps).\<close>

theorem print_parse_int64:
  assumes "22 \<le> sz" and "length stream = unat sz"
  shows "\<exists>st n. SimpleCopyF sz stream ''%i'' [AWord w] = Some (Inr (st, n))
    \<and> tolonglong (takeWhile (\<lambda>c. c \<noteq> NUL) st) = w"
proof -
  obtain v g where vg: "fmt_value (CHR ''i'') w = Some (v, g)" "(if g then - v else v) = w"
    by (cases "sint w < 0") (auto simp: fmt_value_def)
  with SimpleCopyF_number [OF _ vg(1) assms] tolonglong_num_buf [of v g] show ?thesis by fastforce
qed

theorem print_parse_int64_witness:
  "\<exists>st n. SimpleCopyF 22 (replicate 22 NUL) ''%i'' [AWord 0x8000000000000000] = Some (Inr (st, n))
     \<and> tolonglong (takeWhile (\<lambda>c. c \<noteq> NUL) st) = 0x8000000000000000"
  using print_parse_int64 [of 22 "replicate 22 NUL" "0x8000000000000000"] by simp

text \<open>C29: into a buffer of at least 22 characters the 32-bit conversion \<open>%r\<close> prints every value but the most negative one correctly:
  what is in the buffer is read back by \<open>tolonglong\<close> as the same integer; \<open>INT32_MIN\<close> is negated in 32 bits and sign-extended, and comes out as
  -18446744071562067968.\<close>

theorem print_int32:
  assumes "22 \<le> sz" and "length stream = unat sz"
  shows "(\<exists>st n. SimpleCopyF sz stream ''%r'' [AWord 0x80000000] = Some (Inr (st, n))
        \<and> takeWhile (\<lambda>c. c \<noteq> NUL) st = ''-18446744071562067968'')
   \<and> (\<forall>t :: u32. t \<noteq> 0x80000000 \<longrightarrow>
        (\<exists>st n. SimpleCopyF sz stream ''%r'' [AWord (ucast t)] = Some (Inr (st, n))
           \<and> sint (tolonglong (takeWhile (\<lambda>c. c \<noteq> NUL) st)) = sint t))"
proof (intro conjI allI impI)
  have "fmt_value (CHR ''r'') 0x80000000 = Some (0xFFFFFFFF80000000, True)"
    by (simp add: fmt_value_def)
  moreover have "rev (num_buf 0xFFFFFFFF80000000 True) = ''-18446744071562067968''"
    by (simp add: num_buf_def num_digits.simps sample_def)
  ultimately show "\<exists>st n. SimpleCopyF sz stream ''%r'' [AWord 0x80000000] = Some (Inr (st, n))
      \<and> takeWhile (\<lambda>c. c \<noteq> NUL) st = ''-18446744071562067968''"
    using SimpleCopyF_number [OF _ _ assms, of "CHR ''r''"] by (metis insertI1 list.simps(15) list.set_intros)
next
  fix t :: u32 assume t: "t \<noteq> 0x80000000"
  obtain v g where vg: "fmt_value (CHR ''r'') (ucast t) = Some (v, g)"
      "(if g then - v else v) = scast t"
    using scast_minus_upcast [OF t] by (cases "sint t < 0") (auto simp: fmt_value_def Let_def ucast_down_up)
  have "sint (scast t :: u64) = sint t"
    using sint_greater_eq [of t] sint_less [of t]
    by (simp add: signed_scast_eq signed_take_bit_int_eq_self)
  with vg(2) SimpleCopyF_number [OF _ vg(1) assms] tolonglong_num_buf [of v g]
  show "\<exists>st n. SimpleCopyF sz stream ''%r'' [AWord (ucast t)] = Some (Inr (st, n))
      \<and> sint (tolonglong (takeWhile (\<lambda>c. c \<noteq> NUL) st)) = sint t" by fastforce
qed

theorem print_int32_witness:
  "(\<exists>st n. SimpleCopyF 22 (replicate 22 NUL) ''%r'' [AWord 0x80000000] = Some (Inr (st, n))
      \<and> takeWhile (\<lambda>c. c \<noteq> NUL) st = ''-18446744071562067968'')
   \<and> (\<exists>st n. SimpleCopyF 22 (replicate 22 NUL) ''%r'' [AWord 0xFFFFFFF9] = Some (Inr (st, n))
      \<and> sint (tolonglong (takeWhile (\<lambda>c. c \<noteq> NUL) st)) = - 7)"
proof -
  have r: "(22 :: u64) \<le> 22" "length (replicate 22 NUL) = unat (22 :: u64)" by simp_all
  have "(0xFFFFFFF9 :: u32) \<noteq> 0x80000000" "(ucast (0xFFFFFFF9 :: u32) :: u64) = 0xFFFFFFF9" "sint (0xFFFFFFF9 :: u32) = - 7"
    by simp_all
  with print_int32 [OF r] show ?thesis by (metis (no_types, lifting))
qed

end
