(* ===== verification/Kernel_Math.thy ===== *)
theory Kernel_Math
  imports Prelude
begin

text \<open>
  The integer routines and the two random number generators of
  \<^verbatim>\<open>kernel/libcrt/math/math.c\<close>.  Signed 64-bit values are words; \<open>sqrti\<close> returns \<open>None\<close> where
  the source divides by zero.  The floating-point routines are not modelled.
\<close>

section \<open>Powers, roots and absolute values\<close>

function powll_loop :: "u64 \<Rightarrow> u64 \<Rightarrow> u8 \<Rightarrow> u64" where
  "powll_loop out base pow =
    (if pow = 0 then out
     else powll_loop (if pow AND 1 \<noteq> 0 then out * base else out) (base * base) (drop_bit 1 pow))"
  by auto
termination
proof (relation "measure (\<lambda>(out, base, pow). unat pow)")
  fix out base :: u64 and pow :: u8
  assume "pow \<noteq> 0"
  then have "unat (drop_bit 1 pow) < unat pow"
    by (simp add: unat_drop_bit_eq drop_bit_eq_div unat_div_distrib unat_gt_0)
  then show "((if pow AND 1 \<noteq> 0 then out * base else out, base * base, drop_bit 1 pow), out, base, pow)
      \<in> measure (\<lambda>(out, base, pow). unat pow)" by simp
qed simp

definition powll :: "u64 \<Rightarrow> u8 \<Rightarrow> u64" where
  "powll n pow = powll_loop 1 n pow"

text \<open>The Newton iteration of \<open>sqrti\<close>; the division by \<open>x\<close> traps when \<open>x\<close> is 0.\<close>

function sqrti_loop :: "u32 \<Rightarrow> u32 \<Rightarrow> u32 \<Rightarrow> u32 option" where
  "sqrti_loop n x x1 =
    (if x1 < x then
       (if x1 = 0 then None else sqrti_loop n x1 ((x1 + n div x1) div 2))
     else Some x)"
  by auto
termination
  by (relation "measure (\<lambda>(n, x, x1). unat x)") (auto simp: word_less_nat_alt)

definition sqrti :: "u32 \<Rightarrow> u32 option" where
  "sqrti n = (if n = 0 then Some 0 else sqrti_loop n n ((n + 1) div 2))"

declare powll_loop.simps [simp del] sqrti_loop.simps [simp del]

definition absi :: "u32 \<Rightarrow> u32" where
  "absi i = (if sint i < 0 then - i else i)"

definition absl :: "u64 \<Rightarrow> u64" where
  "absl l = (if sint l < 0 then - l else l)"

definition absll :: "u64 \<Rightarrow> u64" where
  "absll z = (if sint z < 0 then - z else z)"

section \<open>Wichmann-Hill\<close>

record wh_state =
  seed0 :: u16
  seed1 :: u16
  seed2 :: u16

definition wh_seed :: "u16 \<Rightarrow> u16 \<Rightarrow> u16 \<Rightarrow> wh_state" where
  "wh_seed a b c = \<lparr>seed0 = c_clamp 1 30000 a, seed1 = c_clamp 1 30000 b, seed2 = c_clamp 1 30000 c\<rparr>"

text \<open>The products are computed in \<open>int\<close>.\<close>

definition wh_mul :: "nat \<Rightarrow> nat \<Rightarrow> u16 \<Rightarrow> u16" where
  "wh_mul k p s = of_nat ((k * unat s) mod p)"

definition wichmann_hill :: "wh_state \<Rightarrow> wh_state" where
  "wichmann_hill st =
    \<lparr>seed0 = wh_mul 171 30269 (seed0 st), seed1 = wh_mul 172 30307 (seed1 st),
     seed2 = wh_mul 170 30323 (seed2 st)\<rparr>"

section \<open>Mersenne twister\<close>

definition STATE_SIZE :: nat where "STATE_SIZE = 312"
definition MIDDLE :: nat where "MIDDLE = 156"
definition TWIST_MASK :: u64 where "TWIST_MASK = 0xb5026f5aa96619e9"
definition INIT_FACT :: u64 where "INIT_FACT = 6364136223846793005"
definition LOWER_MASK :: u64 where "LOWER_MASK = 0x7fffffff"
definition UPPER_MASK :: u64 where "UPPER_MASK = NOT LOWER_MASK"

record mt_state =
  mt_words :: "u64 list"
  mt_index :: nat

definition mt_boot :: mt_state where
  "mt_boot = \<lparr>mt_words = replicate STATE_SIZE 0, mt_index = STATE_SIZE + 1\<rparr>"

definition mt_seed :: "u64 \<Rightarrow> mt_state \<Rightarrow> mt_state" where
  "mt_seed s st =
    st\<lparr>mt_index := STATE_SIZE,
       mt_words := fold (\<lambda>i ws. ws[i := INIT_FACT * (ws ! (i - 1) XOR drop_bit 62 (ws ! (i - 1)))
                                        + of_nat i])
                     [1..<STATE_SIZE] ((mt_words st)[0 := s])\<rparr>"

definition twist_step :: "nat \<Rightarrow> u64 list \<Rightarrow> u64 list" where
  "twist_step i ws =
    (let x = (ws ! i AND UPPER_MASK) OR (ws ! ((i + 1) mod STATE_SIZE) AND LOWER_MASK);
         x' = drop_bit 1 x XOR (if x AND 1 \<noteq> 0 then TWIST_MASK else 0)
     in ws[i := ws ! ((i + MIDDLE) mod STATE_SIZE) XOR x'])"

definition twist :: "mt_state \<Rightarrow> mt_state" where
  "twist st = st\<lparr>mt_words := fold twist_step [0..<STATE_SIZE] (mt_words st), mt_index := 0\<rparr>"

definition mt_temper :: "u64 \<Rightarrow> u64" where
  "mt_temper y0 =
    (let y1 = y0 XOR (drop_bit 29 y0 AND 0x5555555555555555);
         y2 = y1 XOR (push_bit 17 y1 AND 0x71d67fffeda60000);
         y3 = y2 XOR (push_bit 37 y2 AND 0xfff7eee000000000)
     in y3 XOR drop_bit 43 y3)"

definition mt_rng :: "mt_state \<Rightarrow> u64 \<times> mt_state" where
  "mt_rng st =
    (let st1 = (if mt_index st \<ge> STATE_SIZE then twist st else st)
     in (mt_temper (mt_words st1 ! mt_index st1), st1\<lparr>mt_index := mt_index st1 + 1\<rparr>))"

section \<open>Powers\<close>

lemma powll_loop_eq: "powll_loop out base pow = out * base ^ unat pow"
proof (induction out base pow rule: powll_loop.induct)
  case (1 out base pow)
  show ?case
  proof (cases "pow = 0")
    case False
    have h: "unat (drop_bit 1 pow) = unat pow div 2"
      by (simp add: unat_drop_bit_eq drop_bit_eq_div unat_div_distrib)
    have odd: "pow AND 1 \<noteq> 0 \<longleftrightarrow> odd (unat pow)"
      by (simp add: and_one_eq odd_iff_mod_2_eq_one word_unat_eq_iff unat_mod_distrib)
    have "base ^ unat pow = (if odd (unat pow) then base else 1) * (base * base) ^ (unat pow div 2)"
    proof -
      have "unat pow = 2 * (unat pow div 2) + (if odd (unat pow) then 1 else 0)" by simp
      then have "base ^ unat pow = base ^ (2 * (unat pow div 2) + (if odd (unat pow) then 1 else 0))"
        by (rule arg_cong)
      then show ?thesis by (simp add: power_add power_mult power2_eq_square split: if_splits)
    qed
    with False 1 h odd show ?thesis
      by (simp add: powll_loop.simps [of out base pow] mult.assoc)
  qed (simp add: powll_loop.simps)
qed


section \<open>Integer square root\<close>

definition isqrt_of :: "nat \<Rightarrow> nat \<Rightarrow> bool" where
  "isqrt_of n r = (r * r \<le> n \<and> n < (r + 1) * (r + 1))"

lemma newton_above:
  fixes n x :: nat
  assumes "0 < x"
  shows "n < ((x + n div x) div 2 + 1) * ((x + n div x) div 2 + 1)"
proof -
  let ?q = "n div x" and ?y = "(x + n div x) div 2"
  have "n < x * (?q + 1)" using assms by (simp add: dividend_less_times_div algebra_simps)
  moreover have "4 * (x * (?q + 1)) \<le> (x + ?q + 1) * (x + ?q + 1)"
  proof -
    have "0 \<le> (int x - int (?q + 1)) * (int x - int (?q + 1))" by simp
    then have "4 * (int x * int (?q + 1)) \<le> (int x + int ?q + 1) * (int x + int ?q + 1)"
      by (simp add: algebra_simps)
    then show ?thesis by (metis (mono_tags, lifting) of_nat_1 of_nat_add of_nat_le_iff of_nat_mult of_nat_numeral)
  qed
  moreover have "(x + ?q + 1) * (x + ?q + 1) \<le> (2 * (?y + 1)) * (2 * (?y + 1))"
    by (intro mult_le_mono) simp_all
  ultimately have "4 * n < 4 * ((?y + 1) * (?y + 1))" by linarith
  then show ?thesis by simp
qed

lemma newton_room:
  fixes n x :: nat
  assumes "0 < x" and "x \<le> n"
  shows "x + n div x \<le> n + 1" and "0 < (x + n div x) div 2"
proof -
  have q: "1 \<le> n div x" using assms by (simp add: Suc_leI div_greater_zero_iff)
  then obtain q' x' where "n div x = Suc q'" "x = Suc x'"
    using assms(1) by (metis One_nat_def Suc_le_D Suc_pred)
  then have "x + n div x - 1 \<le> x * (n div x)" by simp
  also have "\<dots> \<le> n" by simp
  finally show "x + n div x \<le> n + 1" by simp
  show "0 < (x + n div x) div 2" using q assms(1) by simp
qed

lemma sqrti_loop_correct:
  assumes "unat n + 1 < 2 ^ 32" and "0 < unat x" and "unat x \<le> unat n"
    and "unat x1 = (unat x + unat n div unat x) div 2"
    and "unat n < (unat x + 1) * (unat x + 1)"
  shows "\<exists>r. sqrti_loop n x x1 = Some r \<and> isqrt_of (unat n) (unat r)"
  using assms(2-5) assms(1)
proof (induction n x x1 rule: sqrti_loop.induct)
  case (1 n x x1)
  show ?case
  proof (cases "x1 < x")
    case True
    have pos: "0 < unat x1" using newton_room(2) [OF "1.prems"(1,2)] "1.prems"(3) by simp
    have le: "unat x1 \<le> unat n"
      using True "1.prems"(2) by (simp add: word_less_nat_alt)
    have "unat (x1 + n div x1) = unat x1 + unat n div unat x1"
      using newton_room(1) [OF pos le] "1.prems"(5)
      by (subst unat_add_small) (simp_all add: unat_div_distrib)
    then have nx: "unat ((x1 + n div x1) div 2) = (unat x1 + unat n div unat x1) div 2"
      by (simp add: unat_div_distrib)
    have "unat n < (unat x1 + 1) * (unat x1 + 1)"
      using newton_above [OF "1.prems"(1), of "unat n"] "1.prems"(3) by simp
    moreover have "x1 \<noteq> 0" using pos by auto
    ultimately show ?thesis
      using "1.IH" True pos le nx "1.prems"(5) by (simp add: sqrti_loop.simps [of n x x1])
  next
    case False
    then have "unat x \<le> (unat x + unat n div unat x) div 2"
      using "1.prems"(3) by (simp add: word_less_nat_alt)
    then have "unat x \<le> unat n div unat x" by simp
    then have "unat x * unat x \<le> unat n"
      using "1.prems"(1) by (simp add: less_eq_div_iff_mult_less_eq)
    with False "1.prems"(4) show ?thesis
      by (simp add: sqrti_loop.simps [of n x x1] isqrt_of_def)
  qed
qed


section \<open>Generators\<close>

lemma wh_mul_range:
  assumes "0 < unat s" and "unat s < p" and "coprime k p" and "p \<le> 2 ^ 16"
  shows "0 < unat (wh_mul k p s) \<and> unat (wh_mul k p s) < p"
proof -
  have "\<not> p dvd k * unat s"
  proof
    assume "p dvd k * unat s"
    then have "p dvd unat s"
      using assms(3) by (simp add: coprime_commute coprime_dvd_mult_right_iff)
    with assms(1,2) show False by (simp add: nat_dvd_not_less)
  qed
  then have "0 < k * unat s mod p" by (simp add: mod_greater_zero_iff_not_dvd)
  moreover have "k * unat s mod p < p" using assms by simp
  ultimately show ?thesis using assms(4) by (simp add: wh_mul_def unat_of_nat)
qed

text \<open>The step \<open>y ^ ((y >> s) & m)\<close> and its left-shift twin lose no information.\<close>

lemma xor_shift_right_inject:
  fixes a b :: u64
  assumes "0 < s" and "a XOR (drop_bit s a AND m) = b XOR (drop_bit s b AND m)"
  shows "a = b"
proof -
  define d where "d = a XOR b"
  have "d = drop_bit s d AND m"
    using assms(2) unfolding d_def
    by (simp add: bit_eq_iff [where 'a = u64] bit_simps) blast
  then have step: "bit d i \<Longrightarrow> bit d (i + s)" for i
    by (metis add.commute bit_and_iff bit_drop_bit_eq comp_apply)
  have "\<not> bit d i" for i
  proof (induction "64 - i" arbitrary: i rule: less_induct)
    case less
    show ?case
    proof
      assume b: "bit d i"
      then have "i < 64" using bit_imp_le_length [of d i] by simp
      then have "64 - (i + s) < 64 - i" using assms(1) by simp
      from less [OF this] step [OF b] show False by simp
    qed
  qed
  then show ?thesis unfolding d_def by (simp add: bit_eq_iff bit_simps)
qed

lemma xor_shift_left_inject:
  fixes a b :: u64
  assumes "0 < s" and "a XOR (push_bit s a AND m) = b XOR (push_bit s b AND m)"
  shows "a = b"
proof -
  define d where "d = a XOR b"
  have "d = push_bit s d AND m"
    using assms(2) unfolding d_def
    by (simp add: bit_eq_iff [where 'a = u64] bit_simps) blast
  then have step: "bit d i \<Longrightarrow> s \<le> i \<and> bit d (i - s)" for i
    by (metis bit_and_iff bit_push_bit_iff)
  have "\<not> bit d i" for i
  proof (induction i rule: less_induct)
    case (less i)
    then show ?case using step [of i] assms(1) by (cases "i = 0") auto
  qed
  then show ?thesis unfolding d_def by (simp add: bit_eq_iff bit_simps)
qed

definition wf_mt :: "mt_state \<Rightarrow> bool" where
  "wf_mt st = (length (mt_words st) = STATE_SIZE)"

lemma length_fold_update:
  "(\<And>i ws. length (f i ws) = length ws) \<Longrightarrow> length (fold f is ws) = length ws"
  by (induction "is" arbitrary: ws) auto

lemma wf_twist: "wf_mt st \<Longrightarrow> wf_mt (twist st)"
  by (simp add: wf_mt_def twist_def length_fold_update twist_step_def Let_def)

lemma wf_mt_seed: "wf_mt st \<Longrightarrow> wf_mt (mt_seed s st)"
  by (simp add: wf_mt_def mt_seed_def length_fold_update)

section \<open>Properties\<close>

text \<open>C30: binary exponentiation computes the power, modulo 2 to the 64.\<close>

theorem powll_power: "powll n pow = n ^ unat pow"
  by (simp add: powll_def powll_loop_eq)

text \<open>C31: for every argument but \<open>UINT32_MAX\<close> the Newton iteration ends with the integer square
  root, without overflow and without dividing by zero; for \<open>UINT32_MAX\<close> the first step wraps to
  0 and the next divides by it.\<close>

theorem sqrti_correct:
  "(n \<noteq> - 1 \<longrightarrow> (\<exists>r. sqrti n = Some r \<and> unat r * unat r \<le> unat n
      \<and> unat n < (unat r + 1) * (unat r + 1)))
   \<and> sqrti (- 1) = None"
proof (intro conjI impI)
  assume n1: "n \<noteq> - 1"
  show "\<exists>r. sqrti n = Some r \<and> unat r * unat r \<le> unat n \<and> unat n < (unat r + 1) * (unat r + 1)"
  proof (cases "n = 0")
    case False
    have lt: "unat n + 1 < 2 ^ 32"
    proof (rule ccontr)
      assume "\<not> ?thesis"
      then have "unat n = 2 ^ 32 - 1" using unsigned_less [of n, where 'a = nat] by simp
      then have "unat n = unat (- 1 :: u32)" by (simp add: unsigned_minus_1_eq_mask mask_eq_exp_minus_1)
      with n1 show False by (simp add: word_unat_eq_iff)
    qed
    have "unat ((n + 1) div 2) = (unat n + unat n div unat n) div 2"
      using lt False by (simp add: unat_div_distrib unat_add_small unat_gt_0)
    then show ?thesis
      using sqrti_loop_correct [OF lt, of n "(n + 1) div 2"] False
      by (simp add: sqrti_def isqrt_of_def unat_gt_0)
  qed (simp add: sqrti_def)
next
  show "sqrti (- 1) = None"
    by (simp add: sqrti_def sqrti_loop.simps word_less_nat_alt unsigned_minus_1_eq_mask)
qed

theorem sqrti_correct_witness: "\<exists>r. sqrti 10 = Some r \<and> unat r * unat r \<le> 10"
  using sqrti_correct [THEN conjunct1, rule_format, of 10] by auto

definition wf_wh :: "wh_state \<Rightarrow> bool" where
  "wf_wh st = (0 < unat (seed0 st) \<and> unat (seed0 st) < 30269
    \<and> 0 < unat (seed1 st) \<and> unat (seed1 st) < 30307
    \<and> 0 < unat (seed2 st) \<and> unat (seed2 st) < 30323)"

text \<open>The three Wichmann-Hill seeds, clamped when they are set, stay nonzero and below their
  moduli at every step, so the generator never collapses to zero.\<close>

theorem wichmann_hill_seeds: "wf_wh ((wichmann_hill ^^ k) (wh_seed a b c))"
proof (induction k)
  case 0
  have "0 < unat (c_clamp 1 30000 x :: u16) \<and> unat (c_clamp 1 30000 x :: u16) \<le> 30000" for x
    by (auto simp: c_clamp_def word_less_nat_alt)
  from this [of a] this [of b] this [of c] show ?case by (simp add: wf_wh_def wh_seed_def)
next
  case (Suc k)
  have "coprime (171 :: nat) 30269" "coprime (172 :: nat) 30307" "coprime (170 :: nat) 30323"
    by (simp_all add: coprime_iff_gcd_eq_1 gcd_non_0_nat)
  with Suc show ?case
    by (simp add: wf_wh_def wichmann_hill_def wh_mul_range)
qed

text \<open>The tempering of the Mersenne twister is injective: distinct state words give distinct
  outputs.\<close>

theorem mt_temper_injective: "mt_temper a = mt_temper b \<longleftrightarrow> a = b"
proof
  assume "mt_temper a = mt_temper b"
  then show "a = b"
    unfolding mt_temper_def Let_def
    using xor_shift_right_inject [of 43 _ "- 1"] xor_shift_left_inject [of 37]
      xor_shift_left_inject [of 17] xor_shift_right_inject [of 29]
    by (metis zero_less_numeral and.right_neutral)
qed simp

text \<open>Seeding and drawing keep the state of 312 words, and every draw reads inside it, even
  from the unseeded start where the index is one past the end.\<close>

theorem mt_rng_invariant:
  assumes "wf_mt st"
  shows "wf_mt (mt_seed s st) \<and> wf_mt (snd (mt_rng st))
    \<and> mt_index (snd (mt_rng st)) \<le> STATE_SIZE
    \<and> (\<exists>i ws. length ws = STATE_SIZE \<and> i < STATE_SIZE \<and> fst (mt_rng st) = mt_temper (ws ! i)
         \<and> mt_words (snd (mt_rng st)) = ws \<and> mt_index (snd (mt_rng st)) = i + 1)"
proof (cases "mt_index st \<ge> STATE_SIZE")
  case True
  with wf_twist [OF assms] wf_mt_seed [OF assms] show ?thesis
    by (auto simp: mt_rng_def Let_def wf_mt_def twist_def STATE_SIZE_def)
next
  case False
  with assms wf_mt_seed [OF assms] show ?thesis by (auto simp: mt_rng_def Let_def wf_mt_def)
qed

theorem mt_rng_invariant_witness: "wf_mt (snd (mt_rng mt_boot))"
  using mt_rng_invariant [of mt_boot] by (simp add: wf_mt_def mt_boot_def)

end
