(* ===== verification/Kernel_PageTables.thy ===== *)
theory Kernel_PageTables
  imports Kernel_Memory
begin

text \<open>
  The page-table structures of \<^verbatim>\<open>kernel/libcrt/hardware/paging/paging.h\<close> and the two walks of
  \<^verbatim>\<open>paging.c\<close>.  The bit-field structures are records with one field per bit-field, in the order
  of the source, together with their 64-bit images.  The address of the root table, the 5-level
  switch and \<open>MapVirtual\<close> are arguments of the walks: the first two come from control registers,
  the third from the page bookkeeping.
\<close>

section \<open>Bit-fields\<close>

text \<open>The image of a one-bit field and of a wider field that starts at bit \<open>k\<close>.\<close>

definition flag_at :: "nat \<Rightarrow> bool \<Rightarrow> u64" where
  "flag_at k b = (if b then push_bit k 1 else 0)"

definition field_at :: "nat \<Rightarrow> 'a::len word \<Rightarrow> u64" where
  "field_at k w = push_bit k (ucast w)"

named_theorems layout_defs \<open>images of the bit-field structures\<close>

lemma bit_flag_at [simp]: "bit (flag_at k b) n \<longleftrightarrow> n = k \<and> b \<and> k < 64"
  by (auto simp: flag_at_def bit_simps)

lemma bit_field_at [simp]:
  "bit (field_at k (w :: 'a::len word)) n \<longleftrightarrow> k \<le> n \<and> n < 64 \<and> bit w (n - k)"
  by (auto simp: field_at_def bit_simps)

lemma bit_word_bound: "bit (w :: 'a::len word) n \<Longrightarrow> n < LENGTH('a)"
  by (rule bit_imp_le_length)

section \<open>Table entries\<close>

text \<open>
  The entries that point to a lower table share one layout; bit 7 is the unnamed bit of
  \<open>PML5Entry\<close>, \<open>Reserved1\<close> of \<open>PML4Entry\<close> and \<open>PageSize\<close> of the two lower kinds.
\<close>

record table_entry =
  Present :: bool
  ReadWrite :: bool
  UserSupervisor :: bool
  PageLevelWriteThrough :: bool
  PageLevelCacheDisable :: bool
  Accessed :: bool
  PageInMemory :: bool
  PageSize :: bool
  Available2 :: "4 word"
  PhysicalAddress :: "40 word"
  Available3 :: "11 word"
  ExecuteDisable :: bool

type_synonym PML5Entry = table_entry
type_synonym PML4Entry = table_entry
type_synonym PDPTEntryDirectory = table_entry
type_synonym PageDirectoryEntry = table_entry

definition encode_entry :: "table_entry \<Rightarrow> u64" where
  [layout_defs]: "encode_entry e =
    flag_at 0 (Present e) OR flag_at 1 (ReadWrite e) OR flag_at 2 (UserSupervisor e)
    OR flag_at 3 (PageLevelWriteThrough e) OR flag_at 4 (PageLevelCacheDisable e) OR flag_at 5 (Accessed e)
    OR flag_at 6 (PageInMemory e) OR flag_at 7 (PageSize e) OR field_at 8 (Available2 e)
    OR field_at 12 (PhysicalAddress e) OR field_at 52 (Available3 e) OR flag_at 63 (ExecuteDisable e)"

definition decode_entry64 :: "u64 \<Rightarrow> table_entry" where
  [layout_defs]: "decode_entry64 w =
    \<lparr>Present = bit w 0, ReadWrite = bit w 1, UserSupervisor = bit w 2, PageLevelWriteThrough = bit w 3,
     PageLevelCacheDisable = bit w 4, Accessed = bit w 5, PageInMemory = bit w 6, PageSize = bit w 7,
     Available2 = ucast (drop_bit 8 w), PhysicalAddress = ucast (drop_bit 12 w),
     Available3 = ucast (drop_bit 52 w), ExecuteDisable = bit w 63\<rparr>"

record PDPTEntry1GB =
  G_Present :: bool
  G_ReadWrite :: bool
  G_UserSupervisor :: bool
  G_PageLevelWriteThrough :: bool
  G_PageLevelCacheDisable :: bool
  G_Accessed :: bool
  G_Dirty :: bool
  G_PageSize :: bool
  G_Global :: bool
  G_PageInMemory :: bool
  G_Available1 :: "2 word"
  G_PageAttributeTable :: bool
  G_PhysicalAddress :: "22 word"
  G_Available2 :: "7 word"
  G_ProtectionKey :: "4 word"
  G_ExecuteDisable :: bool

definition encode_1GB :: "PDPTEntry1GB \<Rightarrow> u64" where
  [layout_defs]: "encode_1GB e =
    flag_at 0 (G_Present e) OR flag_at 1 (G_ReadWrite e) OR flag_at 2 (G_UserSupervisor e)
    OR flag_at 3 (G_PageLevelWriteThrough e) OR flag_at 4 (G_PageLevelCacheDisable e) OR flag_at 5 (G_Accessed e)
    OR flag_at 6 (G_Dirty e) OR flag_at 7 (G_PageSize e) OR flag_at 8 (G_Global e) OR flag_at 9 (G_PageInMemory e)
    OR field_at 10 (G_Available1 e) OR flag_at 12 (G_PageAttributeTable e) OR field_at 30 (G_PhysicalAddress e)
    OR field_at 52 (G_Available2 e) OR field_at 59 (G_ProtectionKey e) OR flag_at 63 (G_ExecuteDisable e)"

definition decode_1GB :: "u64 \<Rightarrow> PDPTEntry1GB" where
  [layout_defs]: "decode_1GB w =
    \<lparr>G_Present = bit w 0, G_ReadWrite = bit w 1, G_UserSupervisor = bit w 2, G_PageLevelWriteThrough = bit w 3,
     G_PageLevelCacheDisable = bit w 4, G_Accessed = bit w 5, G_Dirty = bit w 6, G_PageSize = bit w 7,
     G_Global = bit w 8, G_PageInMemory = bit w 9, G_Available1 = ucast (drop_bit 10 w),
     G_PageAttributeTable = bit w 12, G_PhysicalAddress = ucast (drop_bit 30 w),
     G_Available2 = ucast (drop_bit 52 w), G_ProtectionKey = ucast (drop_bit 59 w), G_ExecuteDisable = bit w 63\<rparr>"

record PageDirectoryEntry2MB =
  M_Present :: bool
  M_ReadWrite :: bool
  M_UserSupervisor :: bool
  M_PageLevelWriteThrough :: bool
  M_PageLevelCacheDisable :: bool
  M_Accessed :: bool
  M_Dirty :: bool
  M_PageSize :: bool
  M_Global :: bool
  M_PageInMemory :: bool
  M_Available1 :: "2 word"
  M_PageAttributeTable :: bool
  M_PhysicalAddress :: "31 word"
  M_Available2 :: "7 word"
  M_ProtectionKey :: "4 word"
  M_ExecuteDisable :: bool

definition encode_2MB :: "PageDirectoryEntry2MB \<Rightarrow> u64" where
  [layout_defs]: "encode_2MB e =
    flag_at 0 (M_Present e) OR flag_at 1 (M_ReadWrite e) OR flag_at 2 (M_UserSupervisor e)
    OR flag_at 3 (M_PageLevelWriteThrough e) OR flag_at 4 (M_PageLevelCacheDisable e) OR flag_at 5 (M_Accessed e)
    OR flag_at 6 (M_Dirty e) OR flag_at 7 (M_PageSize e) OR flag_at 8 (M_Global e) OR flag_at 9 (M_PageInMemory e)
    OR field_at 10 (M_Available1 e) OR flag_at 12 (M_PageAttributeTable e) OR field_at 21 (M_PhysicalAddress e)
    OR field_at 52 (M_Available2 e) OR field_at 59 (M_ProtectionKey e) OR flag_at 63 (M_ExecuteDisable e)"

definition decode_2MB :: "u64 \<Rightarrow> PageDirectoryEntry2MB" where
  [layout_defs]: "decode_2MB w =
    \<lparr>M_Present = bit w 0, M_ReadWrite = bit w 1, M_UserSupervisor = bit w 2, M_PageLevelWriteThrough = bit w 3,
     M_PageLevelCacheDisable = bit w 4, M_Accessed = bit w 5, M_Dirty = bit w 6, M_PageSize = bit w 7,
     M_Global = bit w 8, M_PageInMemory = bit w 9, M_Available1 = ucast (drop_bit 10 w),
     M_PageAttributeTable = bit w 12, M_PhysicalAddress = ucast (drop_bit 21 w),
     M_Available2 = ucast (drop_bit 52 w), M_ProtectionKey = ucast (drop_bit 59 w), M_ExecuteDisable = bit w 63\<rparr>"

record PageTableEntry4KB =
  K_Present :: bool
  K_ReadWrite :: bool
  K_UserSupervisor :: bool
  K_PageLevelWriteThrough :: bool
  K_PageLevelCacheDisable :: bool
  K_Accessed :: bool
  K_Dirty :: bool
  K_PageAttributeTable :: bool
  K_Global :: bool
  K_PageInMemory :: bool
  K_Available1 :: "2 word"
  K_PhysicalAddress :: "40 word"
  K_Available2 :: "7 word"
  K_ProtectionKey :: "4 word"
  K_ExecuteDisable :: bool

definition encode_4KB :: "PageTableEntry4KB \<Rightarrow> u64" where
  [layout_defs]: "encode_4KB e =
    flag_at 0 (K_Present e) OR flag_at 1 (K_ReadWrite e) OR flag_at 2 (K_UserSupervisor e)
    OR flag_at 3 (K_PageLevelWriteThrough e) OR flag_at 4 (K_PageLevelCacheDisable e) OR flag_at 5 (K_Accessed e)
    OR flag_at 6 (K_Dirty e) OR flag_at 7 (K_PageAttributeTable e) OR flag_at 8 (K_Global e)
    OR flag_at 9 (K_PageInMemory e) OR field_at 10 (K_Available1 e) OR field_at 12 (K_PhysicalAddress e)
    OR field_at 52 (K_Available2 e) OR field_at 59 (K_ProtectionKey e) OR flag_at 63 (K_ExecuteDisable e)"

definition decode_4KB :: "u64 \<Rightarrow> PageTableEntry4KB" where
  [layout_defs]: "decode_4KB w =
    \<lparr>K_Present = bit w 0, K_ReadWrite = bit w 1, K_UserSupervisor = bit w 2, K_PageLevelWriteThrough = bit w 3,
     K_PageLevelCacheDisable = bit w 4, K_Accessed = bit w 5, K_Dirty = bit w 6, K_PageAttributeTable = bit w 7,
     K_Global = bit w 8, K_PageInMemory = bit w 9, K_Available1 = ucast (drop_bit 10 w),
     K_PhysicalAddress = ucast (drop_bit 12 w), K_Available2 = ucast (drop_bit 52 w),
     K_ProtectionKey = ucast (drop_bit 59 w), K_ExecuteDisable = bit w 63\<rparr>"

section \<open>Addresses\<close>

record VirtualAddress =
  VA_Offset :: "12 word"
  VA_L1 :: "9 word"
  VA_L2 :: "9 word"
  VA_L3 :: "9 word"
  VA_L4 :: "9 word"
  VA_L5 :: "9 word"
  VA_L0 :: "7 word"

text \<open>The structure seen through a 64-bit value, as in \<open>*((VirtualAddress *)&Virtual)\<close>.\<close>

definition virtual_address :: "u64 \<Rightarrow> VirtualAddress" where
  [layout_defs]: "virtual_address a =
    \<lparr>VA_Offset = ucast a, VA_L1 = ucast (drop_bit 12 a), VA_L2 = ucast (drop_bit 21 a), VA_L3 = ucast (drop_bit 30 a),
     VA_L4 = ucast (drop_bit 39 a), VA_L5 = ucast (drop_bit 48 a), VA_L0 = ucast (drop_bit 57 a)\<rparr>"

definition VirtualAddressAToU64 :: "VirtualAddress \<Rightarrow> u64" where
  [layout_defs]: "VirtualAddressAToU64 VA =
    signed_drop_bit 7 (push_bit 7
      (field_at 0 (VA_Offset VA) OR field_at 12 (VA_L1 VA) OR field_at 21 (VA_L2 VA) OR field_at 30 (VA_L3 VA)
       OR field_at 39 (VA_L4 VA) OR field_at 48 (VA_L5 VA)))"

record PageCoordinate =
  PC_L1 :: "9 word"
  EnableL1 :: bool
  PC_L2 :: "9 word"
  EnableL2 :: bool
  PC_L3 :: "9 word"
  EnableL3 :: bool
  PC_L4 :: "9 word"
  EnableL4 :: bool
  PC_L5 :: "9 word"
  EnableL5 :: bool

definition InitPageCoordinate :: "bool \<Rightarrow> VirtualAddress \<Rightarrow> PageCoordinate" where
  "InitPageCoordinate la57 VA =
    \<lparr>PC_L1 = VA_L1 VA, EnableL1 = True, PC_L2 = VA_L2 VA, EnableL2 = True, PC_L3 = VA_L3 VA, EnableL3 = True,
     PC_L4 = VA_L4 VA, EnableL4 = True, PC_L5 = VA_L5 VA, EnableL5 = la57\<rparr>"

definition InitVirtualAddress :: "PageCoordinate \<Rightarrow> VirtualAddress" where
  "InitVirtualAddress PC =
    \<lparr>VA_Offset = 0, VA_L1 = PC_L1 PC, VA_L2 = PC_L2 PC, VA_L3 = PC_L3 PC, VA_L4 = PC_L4 PC, VA_L5 = PC_L5 PC,
     VA_L0 = 0\<rparr>"

section \<open>Translating a virtual address\<close>

text \<open>
  The shifts of the source act on bit-fields.  A bit-field narrower than \<open>int\<close> is promoted to
  \<open>int\<close>, whose result is sign-extended when it is converted to 64 bits; the shift of a 40-bit
  field stays 40 bits wide.
\<close>

definition shl_int :: "'a::len word \<Rightarrow> nat \<Rightarrow> u64" where
  "shl_int f n = scast (push_bit n (ucast f :: 32 word))"

definition shl_field :: "40 word \<Rightarrow> nat \<Rightarrow> u64" where
  "shl_field f n = ucast (push_bit n f)"

definition entry_word :: "memory \<Rightarrow> u64 \<Rightarrow> 9 word \<Rightarrow> u64" where
  "entry_word m t i = read_u64 m (t + 8 * ucast i)"

definition MapPhysical :: "memory \<Rightarrow> bool \<Rightarrow> u64 \<Rightarrow> (u64 \<Rightarrow> u64) \<Rightarrow> u64 \<Rightarrow> u64" where
  "MapPhysical m Level5 PT MapVirtual Virtual =
    (let Virt = virtual_address Virtual;
         e5 = decode_entry64 (entry_word m (MapVirtual PT) (VA_L5 Virt)) in
     if Level5 \<and> \<not> Present e5 then 0
     else let L4 = (if Level5 then MapVirtual (shl_field (PhysicalAddress e5) 12) else MapVirtual PT);
              e4 = decode_entry64 (entry_word m L4 (VA_L4 Virt)) in
     if \<not> Present e4 then 0
     else let L3 = MapVirtual (shl_field (PhysicalAddress e4) 12); w3 = entry_word m L3 (VA_L3 Virt) in
     if \<not> Present (decode_entry64 w3) then 0
     else if PageSize (decode_entry64 w3)
     then shl_int (G_PhysicalAddress (decode_1GB w3)) 30 + (Virtual AND 0x3FFFFFFF)
     else let L2 = MapVirtual (shl_field (PhysicalAddress (decode_entry64 w3)) 12); w2 = entry_word m L2 (VA_L2 Virt) in
     if \<not> Present (decode_entry64 w2) then 0
     else if PageSize (decode_entry64 w2)
     then shl_int (M_PhysicalAddress (decode_2MB w2)) 21 + (Virtual AND 0x1FFFFF)
     else let L1 = MapVirtual (shl_field (PhysicalAddress (decode_entry64 w2)) 12);
              e1 = decode_4KB (entry_word m L1 (VA_L1 Virt)) in
     if \<not> K_Present e1 then 0
     else shl_field (K_PhysicalAddress e1) 12 + (Virtual AND 0xFFF))"

text \<open>
  \<open>WalkPageTree\<close> returns the level it stopped at together with the address.  In its cases 5, 4
  and 1 the table is declared as a pointer to a whole array of 512 entries, so that an index
  advances by 4096 bytes; the unions of the cases 3 and 2 are indexed by entry.  \<open>None\<close> is the
  walk that is entered with level 0 and returns no value.
\<close>

definition wide_entry :: "memory \<Rightarrow> u64 \<Rightarrow> 9 word \<Rightarrow> table_entry" where
  "wide_entry m t i = decode_entry64 (read_u64 m (t + 4096 * ucast i))"

definition walk_step ::
  "memory \<Rightarrow> bool \<Rightarrow> bool \<Rightarrow> (u64 \<Rightarrow> u64) \<Rightarrow> PageCoordinate \<Rightarrow> nat \<Rightarrow> u64 \<Rightarrow> u64 + u64" where
  "walk_step m la57 L5Support MapVirtual C Level Temp =
    (if Level = 5 then
       (if \<not> la57 then Inr Temp
        else if \<not> EnableL5 C then Inl Temp
        else if L5Support then Inr (MapVirtual (shl_field (PhysicalAddress (wide_entry m Temp (PC_L5 C))) 12))
        else Inr Temp)
     else if Level = 4 then
       (if \<not> EnableL4 C then Inl Temp
        else Inr (MapVirtual (shl_field (PhysicalAddress (wide_entry m Temp (PC_L4 C))) 12)))
     else if Level = 3 then
       (if \<not> EnableL3 C then Inl Temp
        else let e = decode_entry64 (entry_word m Temp (PC_L3 C)) in
          if PageSize e then Inl (Temp + 8 * ucast (PC_L3 C))
          else Inr (MapVirtual (shl_field (PhysicalAddress e) 12)))
     else if Level = 2 then
       (if \<not> EnableL2 C then Inl Temp
        else let e = decode_entry64 (entry_word m Temp (PC_L2 C)) in
          if PageSize e then Inl (Temp + 8 * ucast (PC_L2 C))
          else Inr (MapVirtual (shl_field (PhysicalAddress e) 12)))
     else if Level = 1 then
       (if \<not> EnableL1 C then Inl Temp
        else Inl (MapVirtual (Temp + 4096 * ucast (PC_L1 C))))
     else Inl 0)"

fun walk_levels ::
  "memory \<Rightarrow> bool \<Rightarrow> bool \<Rightarrow> (u64 \<Rightarrow> u64) \<Rightarrow> PageCoordinate \<Rightarrow> nat \<Rightarrow> u64 \<Rightarrow> (u64 \<times> nat) option" where
  "walk_levels m la57 L5Support MapVirtual C 0 Temp = None"
| "walk_levels m la57 L5Support MapVirtual C (Suc Level) Temp =
    (case walk_step m la57 L5Support MapVirtual C (Suc Level) Temp of
       Inl r \<Rightarrow> Some (r, Suc Level)
     | Inr Temp' \<Rightarrow> walk_levels m la57 L5Support MapVirtual C Level Temp')"

definition WalkPageTree ::
  "memory \<Rightarrow> bool \<Rightarrow> bool \<Rightarrow> u64 \<Rightarrow> (u64 \<Rightarrow> u64) \<Rightarrow> u32 \<Rightarrow> PageCoordinate \<Rightarrow> (u64 \<times> nat) option" where
  "WalkPageTree m la57 L5Support PT MapVirtual Level C = walk_levels m la57 L5Support MapVirtual C (unat Level) PT"

text \<open>\<open>WalkPageTreeByVirtual\<close> reads the coordinate from the memory that the address points to.\<close>

definition WalkPageTreeByVirtual ::
  "memory \<Rightarrow> bool \<Rightarrow> bool \<Rightarrow> u64 \<Rightarrow> (u64 \<Rightarrow> u64) \<Rightarrow> u64 \<Rightarrow> (u64 \<times> nat) option" where
  "WalkPageTreeByVirtual m la57 L5Support PT MapVirtual Virtual =
    (let VA = virtual_address (read_u64 m Virtual);
         Level = (if la57 then 5 else 4)
     in WalkPageTree m la57 L5Support PT MapVirtual Level ((InitPageCoordinate la57 VA)\<lparr>EnableL5 := (Level = 5)\<rparr>))"

definition WalkPageTreeByPhysical ::
  "memory \<Rightarrow> bool \<Rightarrow> bool \<Rightarrow> u64 \<Rightarrow> (u64 \<Rightarrow> u64) \<Rightarrow> u64 \<Rightarrow> (u64 \<times> nat option) option" where
  "WalkPageTreeByPhysical m la57 L5Support PT MapVirtual Physical =
    (if MapVirtual Physical \<noteq> 0
     then map_option (\<lambda>(r, l). (r, Some l)) (WalkPageTreeByVirtual m la57 L5Support PT MapVirtual (MapVirtual Physical))
     else Some (0, None))"

section \<open>Round trips\<close>

text \<open>Reading a field out of an image picks the field that lies there and nothing else.\<close>

lemma bit_field_out: "LENGTH('a::len) \<le> n \<Longrightarrow> \<not> bit (w :: 'a word) n"
  by (meson bit_imp_le_length not_le)

lemma pick_flag [simp]:
  "j < k \<or> k + LENGTH('a) \<le> j \<Longrightarrow> (ucast (drop_bit k (flag_at j b)) :: 'a::len word) = 0"
  by (rule bit_word_eqI) (auto simp: bit_simps)

lemma pick_field [simp]:
  "LENGTH('a) + k \<le> 64 \<Longrightarrow> ucast (drop_bit k (field_at k f)) = (f :: 'a::len word)"
  by (rule bit_word_eqI) (auto simp: bit_simps)

lemma pick_other_field [simp]:
  "j + LENGTH('b) \<le> k \<or> k + LENGTH('a) \<le> j \<Longrightarrow>
     (ucast (drop_bit k (field_at j (f :: 'b::len word))) :: 'a::len word) = 0"
  by (rule bit_word_eqI) (auto simp: bit_simps bit_field_out)

lemma ucast_or: "(ucast (x OR y) :: 'a::len word) = ucast x OR ucast y"
  by (rule bit_word_eqI) (auto simp: bit_simps)

lemmas pick_simps = ucast_or bit_or_iff bit_field_out

lemma entry_round_trip: "decode_entry64 (encode_entry e) = e"
  unfolding layout_defs by (rule table_entry.equality) (simp_all add: pick_simps)

lemma entry_1GB_round_trip: "decode_1GB (encode_1GB e) = e"
  unfolding layout_defs by (rule PDPTEntry1GB.equality) (simp_all add: pick_simps)

lemma entry_2MB_round_trip: "decode_2MB (encode_2MB e) = e"
  unfolding layout_defs by (rule PageDirectoryEntry2MB.equality) (simp_all add: pick_simps)

lemma entry_4KB_round_trip: "decode_4KB (encode_4KB e) = e"
  unfolding layout_defs by (rule PageTableEntry4KB.equality) (simp_all add: pick_simps)

lemma bit_pick: "bit (ucast (drop_bit k (w :: u64)) :: 'a::len word) n \<longleftrightarrow> n < LENGTH('a) \<and> bit w (k + n)"
  by (simp add: bit_simps)

lemma entry_image_round_trip: "encode_entry (decode_entry64 w) = w"
proof (rule bit_word_eqI)
  fix n assume "n < LENGTH(64)"
  then consider "n = 0" | "n = 1" | "n = 2" | "n = 3" | "n = 4" | "n = 5" | "n = 6" | "n = 7"
    | "8 \<le> n" "n < 12" | "12 \<le> n" "n < 52" | "52 \<le> n" "n < 63" | "n = 63" by fastforce
  then show "bit (encode_entry (decode_entry64 w)) n \<longleftrightarrow> bit w n"
    unfolding layout_defs by cases (auto simp: bit_or_iff bit_pick less_diff_conv2)
qed

text \<open>The address image keeps the low 57 bits and extends bit 56.\<close>

definition canonical :: "u64 \<Rightarrow> bool" where
  "canonical a = (signed_drop_bit 7 (push_bit 7 a) = a)"

lemma va_fields:
  assumes "k < 57"
  shows "bit (field_at 0 (VA_Offset (virtual_address a)) OR field_at 12 (VA_L1 (virtual_address a))
    OR field_at 21 (VA_L2 (virtual_address a)) OR field_at 30 (VA_L3 (virtual_address a))
    OR field_at 39 (VA_L4 (virtual_address a)) OR field_at 48 (VA_L5 (virtual_address a))) k \<longleftrightarrow> bit a k"
proof -
  consider "k < 12" | "12 \<le> k" "k < 21" | "21 \<le> k" "k < 30" | "30 \<le> k" "k < 39" | "39 \<le> k" "k < 48" | "48 \<le> k"
    by linarith
  then show ?thesis
    using assms unfolding virtual_address_def
    by cases (auto simp: bit_or_iff bit_pick less_diff_conv2 bit_unsigned_iff bit_drop_bit_eq)
qed

lemma push_bit_cong_low:
  assumes "\<And>k. k < 57 \<Longrightarrow> bit (w :: u64) k \<longleftrightarrow> bit a k"
  shows "push_bit 7 w = push_bit 7 a"
  using assms by (intro bit_word_eqI) (auto simp: bit_push_bit_iff)

lemma va_round_trip: "VirtualAddressAToU64 (virtual_address a) = signed_drop_bit 7 (push_bit 7 a)"
  unfolding VirtualAddressAToU64_def by (rule arg_cong [where f = "signed_drop_bit 7"], rule push_bit_cong_low, rule va_fields)

section \<open>The translation the processor makes\<close>

text \<open>
  Four- and five-level translation over physical memory, for a processor with \<open>M\<close> physical
  address bits: an entry that is not present, or that names an address with bits from \<open>M\<close> on,
  gives no translation.
\<close>

definition hw_frame :: "nat \<Rightarrow> nat \<Rightarrow> u64 \<Rightarrow> u64 option" where
  "hw_frame M lo w =
    (let a = push_bit lo (take_bit (52 - lo) (drop_bit lo w)) in if drop_bit M a = 0 then Some a else None)"

definition hw_entry :: "memory \<Rightarrow> u64 \<Rightarrow> nat \<Rightarrow> u64 \<Rightarrow> u64 option" where
  "hw_entry pm t k v =
    (let w = read_u64 pm (t + 8 * take_bit 9 (drop_bit k v)) in if bit w 0 then Some w else None)"

definition hw_leaf :: "nat \<Rightarrow> nat \<Rightarrow> u64 \<Rightarrow> u64 \<Rightarrow> u64 option" where
  "hw_leaf M lo w v = map_option (\<lambda>f. f + take_bit lo v) (hw_frame M lo w)"

definition hw_translate :: "memory \<Rightarrow> nat \<Rightarrow> bool \<Rightarrow> u64 \<Rightarrow> u64 \<Rightarrow> u64 option" where
  "hw_translate pm M la57 cr3 v = do {
     t4 \<leftarrow> (if la57 then Option.bind (hw_entry pm cr3 48 v) (hw_frame M 12) else Some cr3);
     w4 \<leftarrow> hw_entry pm t4 39 v;
     t3 \<leftarrow> hw_frame M 12 w4;
     w3 \<leftarrow> hw_entry pm t3 30 v;
     if bit w3 7 then hw_leaf M 30 w3 v
     else do {
       t2 \<leftarrow> hw_frame M 12 w3;
       w2 \<leftarrow> hw_entry pm t2 21 v;
       if bit w2 7 then hw_leaf M 21 w2 v
       else do {
         t1 \<leftarrow> hw_frame M 12 w2;
         w1 \<leftarrow> hw_entry pm t1 12 v;
         hw_leaf M 12 w1 v } } }"

lemma hw_frame_bits:
  assumes "hw_frame M lo w = Some a" and "M \<le> 31" and "lo \<le> 52"
  shows "bit a n \<longleftrightarrow> lo \<le> n \<and> n < 31 \<and> bit w n" "lo \<le> n \<Longrightarrow> n < 52 \<Longrightarrow> 31 \<le> n \<Longrightarrow> \<not> bit w n"
proof -
  have a: "a = push_bit lo (take_bit (52 - lo) (drop_bit lo w))" and z: "drop_bit M a = 0"
    using assms(1) by (auto simp: hw_frame_def Let_def split: if_splits)
  have hi: "\<not> bit a n" if "31 \<le> n" for n
  proof -
    have "bit (drop_bit M a) (n - M) \<longleftrightarrow> bit a n" using that assms(2) by (simp add: bit_simps)
    then show ?thesis using z by simp
  qed
  show "bit a n \<longleftrightarrow> lo \<le> n \<and> n < 31 \<and> bit w n" using hi [of n] a assms(3) by (cases "n < 31") (auto simp: bit_simps)
  show "lo \<le> n \<Longrightarrow> n < 52 \<Longrightarrow> 31 \<le> n \<Longrightarrow> \<not> bit w n" using hi [of n] a assms(3) by (auto simp: bit_simps)
qed

lemma shl_field_frame:
  assumes "hw_frame M 12 w = Some a" and "M \<le> 31"
  shows "shl_field (ucast (drop_bit 12 w)) 12 = a"
proof (rule bit_word_eqI)
  fix n
  show "bit (shl_field (ucast (drop_bit 12 w)) 12) n \<longleftrightarrow> bit a n"
    using hw_frame_bits [OF assms, of n] by (auto simp: shl_field_def bit_simps not_less)
qed

lemma shl_int_frame:
  assumes "hw_frame M lo w = Some a" and "M \<le> 31" and "LENGTH('a::len) = 52 - lo" and "21 \<le> lo" and "lo < 31"
  shows "shl_int (ucast (drop_bit lo w) :: 'a word) lo = a"
proof (rule bit_word_eqI)
  fix n
  assume n: "n < LENGTH(64)"
  note f = hw_frame_bits [OF assms(1,2)]
  have w31: "\<not> bit w 31" using f(2) [of 31] assms(5) by simp
  show "bit (shl_int (ucast (drop_bit lo w) :: 'a word) lo) n \<longleftrightarrow> bit a n"
  proof (cases "n < 31")
    case True
    then show ?thesis using f(1) [of n] assms(3-5) n by (auto simp: shl_int_def bit_simps min_def)
  next
    case False
    then show ?thesis using f(1) [of n] assms(3-5) n w31 by (auto simp: shl_int_def bit_simps min_def)
  qed
qed

lemma entry_word_hw:
  assumes direct: "\<And>p k. take_bit 12 p = 0 \<Longrightarrow> k < 4096 \<Longrightarrow> read_u64 m (mv p + of_nat k) = read_u64 pm (p + of_nat k)"
    and "take_bit 12 t = 0"
  shows "entry_word m (mv t) (ucast (drop_bit k v)) = read_u64 pm (t + 8 * take_bit 9 (drop_bit k v))"
proof -
  let ?i = "take_bit 9 (drop_bit k v) :: u64"
  have u: "(ucast (ucast (drop_bit k v) :: 9 word) :: u64) = ?i" by (rule bit_word_eqI) (auto simp: bit_simps)
  have "unat ?i < 512" using take_bit_nat_less_exp [of 9 "unat (drop_bit k v)"] by (simp add: unsigned_take_bit_eq)
  then have "unat (8 * ?i) < 4096" by (simp add: unat_mult_small)
  then show ?thesis unfolding entry_word_def u using direct [OF assms(2), of "unat (8 * ?i)"] by simp
qed

section \<open>Properties\<close>

text \<open>Every bit-field structure of the page tables reads back from its 64-bit image as it was
  written, and the images of the table entries are exactly the 64-bit words.\<close>

theorem page_entries_round_trip:
  "decode_entry64 (encode_entry e) = e \<and> encode_entry (decode_entry64 w) = w
   \<and> decode_1GB (encode_1GB g) = g \<and> decode_2MB (encode_2MB h) = h \<and> decode_4KB (encode_4KB k) = k"
  by (simp only: entry_round_trip entry_image_round_trip entry_1GB_round_trip entry_2MB_round_trip
      entry_4KB_round_trip simp_thms)

text \<open>Splitting an address into its indices and putting it together again gives the address back
  exactly when it is canonical for 57-bit paging.\<close>

theorem virtual_address_round_trip:
  "VirtualAddressAToU64 (virtual_address a) = a \<longleftrightarrow> canonical a"
  by (simp only: va_round_trip canonical_def)

lemma frame_aligned:
  assumes "hw_frame M 12 w = Some a"
  shows "take_bit 12 a = 0"
  using assms by (auto simp: hw_frame_def Let_def bit_eq_iff bit_simps split: if_splits)

lemma hw_leaf_Some: "hw_leaf M lo w v = Some pa \<Longrightarrow> \<exists>f. hw_frame M lo w = Some f \<and> pa = f + take_bit lo v"
  by (auto simp: hw_leaf_def)

lemma decode_fields:
  "Present (decode_entry64 w) = bit w 0" "PageSize (decode_entry64 w) = bit w 7"
  "PhysicalAddress (decode_entry64 w) = ucast (drop_bit 12 w)" "G_PhysicalAddress (decode_1GB w) = ucast (drop_bit 30 w)"
  "M_PhysicalAddress (decode_2MB w) = ucast (drop_bit 21 w)" "K_Present (decode_4KB w) = bit w 0"
  "K_PhysicalAddress (decode_4KB w) = ucast (drop_bit 12 w)"
  by (simp_all add: layout_defs)

lemma low_masks: "v AND 0x3FFFFFFF = take_bit 30 (v :: u64)" "v AND 0x1FFFFF = take_bit 21 v" "v AND 0xFFF = take_bit 12 v"
  by (simp_all add: take_bit_eq_mask mask_eq_exp_minus_1)

text \<open>Where page tables are reached through a direct map and the machine has at most 31 physical
  address bits, \<open>MapPhysical\<close> returns the address the processor translates to, for four and for
  five levels and for pages of every size.  The kernel's own \<open>MapVirtual\<close>, which looks up its bookkeeping,
  is not such a map.\<close>

theorem MapPhysical_translates:
  assumes direct: "\<And>p k. take_bit 12 p = 0 \<Longrightarrow> k < 4096 \<Longrightarrow> read_u64 m (mv p + of_nat k) = read_u64 pm (p + of_nat k)"
    and "take_bit 12 cr3 = 0" and "M \<le> 31" and hw: "hw_translate pm M la57 cr3 v = Some pa"
  shows "MapPhysical m la57 cr3 mv v = pa"
proof -
  have he: "entry_word m (mv t) (ucast (drop_bit k v)) = w" "bit w 0"
    if "take_bit 12 t = 0" "hw_entry pm t k v = Some w" for t k w
    using that entry_word_hw [where m = m and mv = mv and pm = pm and v = v, OF direct, of t k]
    by (auto simp: hw_entry_def Let_def split: if_splits)
  note sf = shl_field_frame [OF _ assms(3)]
  have vf: "VA_L1 (virtual_address v) = ucast (drop_bit 12 v)" "VA_L2 (virtual_address v) = ucast (drop_bit 21 v)"
    "VA_L3 (virtual_address v) = ucast (drop_bit 30 v)" "VA_L4 (virtual_address v) = ucast (drop_bit 39 v)"
    "VA_L5 (virtual_address v) = ucast (drop_bit 48 v)" by (simp_all add: virtual_address_def)
  obtain t4 w4 t3 w3 where
    t4: "(if la57 then Option.bind (hw_entry pm cr3 48 v) (hw_frame M 12) else Some cr3) = Some t4"
    and w4: "hw_entry pm t4 39 v = Some w4" and t3: "hw_frame M 12 w4 = Some t3"
    and w3: "hw_entry pm t3 30 v = Some w3"
    using hw unfolding hw_translate_def by (auto split: bind_split_asm if_splits simp del: bind_eq_Some_conv)
  have al: "take_bit 12 t4 = 0" using t4 assms(2) by (auto split: if_splits bind_split_asm dest!: frame_aligned)
  have e4: "entry_word m (mv t4) (ucast (drop_bit 39 v)) = w4" "bit w4 0" by (rule he [OF al w4])+
  have e3: "entry_word m (mv t3) (ucast (drop_bit 30 v)) = w3" "bit w3 0" by (rule he [OF frame_aligned [OF t3] w3])+
  have s3: "shl_field (ucast (drop_bit 12 w4)) 12 = t3" by (rule sf [OF t3])
  have L4: "(if la57 then mv (shl_field (ucast (drop_bit 12 (entry_word m (mv cr3) (ucast (drop_bit 48 v))))) 12)
      else mv cr3) = mv t4"
    and p5: "\<not> (la57 \<and> \<not> bit (entry_word m (mv cr3) (ucast (drop_bit 48 v))) 0)"
    using t4 he [OF assms(2)] sf by (auto split: if_splits bind_split_asm)
  note unfold = MapPhysical_def Let_def vf L4 p5 decode_fields e4 s3 e3
  show ?thesis
  proof (cases "bit w3 7")
    case True
    then obtain f where f: "hw_frame M 30 w3 = Some f" "pa = f + take_bit 30 v"
      using hw t4 w4 t3 w3 by (auto simp: hw_translate_def dest!: hw_leaf_Some)
    have "shl_int (ucast (drop_bit 30 w3) :: 22 word) 30 = f" by (rule shl_int_frame [OF f(1) assms(3)]) simp_all
    then show ?thesis by (simp only: unfold low_masks True f(2) simp_thms if_True if_False)
  next
    case f3: False
    then obtain t2 w2 where t2: "hw_frame M 12 w3 = Some t2" and w2: "hw_entry pm t2 21 v = Some w2"
      using hw t4 w4 t3 w3 by (auto simp: hw_translate_def split: bind_split_asm)
    note e2 = he [OF frame_aligned [OF t2] w2] sf [OF t2]
    show ?thesis
    proof (cases "bit w2 7")
      case True
      then obtain f where f: "hw_frame M 21 w2 = Some f" "pa = f + take_bit 21 v"
        using hw t4 w4 t3 w3 f3 t2 w2 by (auto simp: hw_translate_def dest!: hw_leaf_Some)
      have "shl_int (ucast (drop_bit 21 w2) :: 31 word) 21 = f" by (rule shl_int_frame [OF f(1) assms(3)]) simp_all
      then show ?thesis by (simp only: unfold low_masks e2 True f3 f(2) simp_thms if_True if_False)
    next
      case f2: False
      then obtain t1 w1 where t1: "hw_frame M 12 w2 = Some t1" and w1: "hw_entry pm t1 12 v = Some w1"
        using hw t4 w4 t3 w3 f3 t2 w2 by (auto simp: hw_translate_def split: bind_split_asm)
      obtain f where f: "hw_frame M 12 w1 = Some f" "pa = f + take_bit 12 v"
        using hw t4 w4 t3 w3 f3 t2 w2 f2 t1 w1 by (auto simp: hw_translate_def dest!: hw_leaf_Some)
      show ?thesis
        by (simp only: unfold low_masks e2 f3 f2 f(2) he [OF frame_aligned [OF t1] w1] sf [OF t1] sf [OF f(1)]
            simp_thms if_True if_False)
    qed
  qed
qed

text \<open>A page table whose every entry is a present, writable page of the largest size at frame 0.\<close>

definition flat_tables :: memory where
  "flat_tables a = (if take_bit 3 a = 0 then 0x83 else 0)"

theorem MapPhysical_translates_witness: "MapPhysical flat_tables False 0 id 0x1234 = 0x1234"
proof (rule MapPhysical_translates [where pm = flat_tables and M = 31])
  have "read_u64 flat_tables 0 = 0x83" by code_simp
  then show "hw_translate flat_tables 31 False 0 0x1234 = Some 0x1234"
    by (simp add: hw_translate_def hw_entry_def hw_leaf_def hw_frame_def)
qed simp_all

text \<open>Where it goes wrong above that width: the promoted shift of a 1 GB frame number.\<close>

lemma large_frame_sign_extended: "shl_int (2 :: 22 word) 30 = 0xFFFFFFFF80000000" "shl_int (4 :: 22 word) 30 = 0"
  by (simp_all add: shl_int_def)

text \<open>\<open>WalkPageTreeByVirtual\<close> never uses the address it is given as an address to translate: it
  takes the table indices from the eight bytes stored there, so that any two addresses with the
  same contents give the same entry, whatever the address.\<close>

theorem walk_by_virtual_reads_contents:
  assumes "read_u64 m v = read_u64 m v'"
  shows "WalkPageTreeByVirtual m la57 s PT mv v = WalkPageTreeByVirtual m la57 s PT mv v'"
  unfolding WalkPageTreeByVirtual_def assms ..

theorem walk_by_virtual_reads_contents_witness:
  "WalkPageTreeByVirtual flat_tables False False 0 id 0x1000 = WalkPageTreeByVirtual flat_tables False False 0 id 0x7008"
  by (rule walk_by_virtual_reads_contents) code_simp

end
