(* ===== verification/Kernel_PageAlloc.thy ===== *)
theory Kernel_PageAlloc
  imports Kernel_PageTables
begin

text \<open>
  The page bookkeeping of \<^verbatim>\<open>kernel/libcrt/hardware/paging/palloc.c\<close>: the physical ranges, the
  sub-descriptors that partition each range, the lookups by physical address, the best-fit search
  for free pages, and the over-aligned allocation on top of a page allocator.  The three arrays of
  \<open>InternalAllocationState\<close> are lists; an access past the end of one of them, or through a null
  sub-descriptor, gives \<open>None\<close>.
\<close>

section \<open>Ranges and sub-descriptors\<close>

definition PAGE_SIZE :: u64 where "PAGE_SIZE = 4096"
definition PAGE_SIZE2 :: u64 where "PAGE_SIZE2 = 2 * 1024 * 1024"
definition PAGE_SIZE3 :: u64 where "PAGE_SIZE3 = 1024 * 1024 * 1024"

definition PATUnfreeable :: u8 where "PATUnfreeable = 0x1"
definition PATUntouchableRegion :: u8 where "PATUntouchableRegion = 0x2"
definition PATUsedRegion :: u8 where "PATUsedRegion = 0x4"
definition PATSubDescriptorMapping :: u8 where "PATSubDescriptorMapping = 0x8"
definition PATNonPhysicalDescriptor :: u8 where "PATNonPhysicalDescriptor = 0x10"

definition InvalidSubDescriptorIndex :: u32 where "InvalidSubDescriptorIndex = - 1"

record MemoryRangeDescriptor =
  Physical :: u64
  SubDescriptorIndex :: u32
  PageLimit :: u32
  EfiMemoryType :: u16

record MemoryRangeSubDescriptor =
  EndOfList :: bool
  Valid :: bool
  NoPages :: "14 word"
  CoordBaseIndex :: PageCoordinate
  AllocationType :: u8

record InternalAllocationState =
  PhysicalDescriptorIndexes :: "u16 list"
  Descriptors :: "MemoryRangeDescriptor list"
  SubDescriptors :: "MemoryRangeSubDescriptor list list"
  TotalDescriptors :: u64
  TotalSubDescriptorPools :: u64
  TotalSubDescriptors :: u64
  CurrentSubDescriptorPool :: u64
  MemoryMaxPages :: u64

text \<open>\<open>EnableInputAddress\<close> returns the switch as it was and sets it when \<open>w\<close> holds.\<close>

definition EnableInputAddress :: "bool \<Rightarrow> bool \<Rightarrow> bool \<Rightarrow> bool \<times> bool" where
  "EnableInputAddress toggle w sw = (sw, if w then toggle else sw)"

definition at :: "'a list \<Rightarrow> nat \<Rightarrow> 'a option" where
  "at xs i = (if i < length xs then Some (xs ! i) else None)"

definition pages_bytes :: "14 word \<Rightarrow> u64" where
  "pages_bytes n = ucast n * PAGE_SIZE"

definition QueryPhysicalAddress :: "u64 \<Rightarrow> InternalAllocationState \<Rightarrow> bool" where
  "QueryPhysicalAddress Adr IState = (MemoryMaxPages IState \<noteq> 0 \<and> MemoryMaxPages IState > Adr div PAGE_SIZE)"

text \<open>The macro's pointer is null when the address lies past the last page.\<close>

definition descriptor_of :: "InternalAllocationState \<Rightarrow> u64 \<Rightarrow> MemoryRangeDescriptor option" where
  "descriptor_of IState Adr = do {
     i \<leftarrow> at (PhysicalDescriptorIndexes IState) (unat (Adr div PAGE_SIZE));
     at (Descriptors IState) (unat i) }"

definition GetDescriptor :: "u64 \<Rightarrow> InternalAllocationState \<Rightarrow> MemoryRangeDescriptor option option" where
  "GetDescriptor Adr IState =
    (if Adr < MemoryMaxPages IState * PAGE_SIZE then map_option Some (descriptor_of IState Adr) else Some None)"

definition pool_from :: "InternalAllocationState \<Rightarrow> u32 \<Rightarrow> MemoryRangeSubDescriptor list option" where
  "pool_from IState k = map_option (drop (unat k)) (at (SubDescriptors IState) (unat (CurrentSubDescriptorPool IState)))"

text \<open>
  The loop of \<open>GetSubDescriptor\<close>: while neither the end of the list nor a zero remainder is
  reached it takes the pages of the entry from the remainder when they are \<^emph>\<open>more\<close> than it, and
  clears the remainder otherwise.
\<close>

fun sub_walk :: "MemoryRangeSubDescriptor list \<Rightarrow> u64 \<Rightarrow> MemoryRangeSubDescriptor option option" where
  "sub_walk [] CopyAdr = None"
| "sub_walk (sd # sds) CopyAdr =
    (if \<not> EndOfList sd \<and> CopyAdr \<noteq> 0
     then sub_walk sds (if pages_bytes (NoPages sd) > CopyAdr then CopyAdr - pages_bytes (NoPages sd) else 0)
     else Some (if CopyAdr \<noteq> 0 then None else Some sd))"

definition GetSubDescriptor :: "u64 \<Rightarrow> InternalAllocationState \<Rightarrow> MemoryRangeSubDescriptor option option" where
  "GetSubDescriptor Adr IState = do {
     D \<leftarrow> descriptor_of IState Adr;
     if Adr < MemoryMaxPages IState * PAGE_SIZE \<and> SubDescriptorIndex D \<noteq> InvalidSubDescriptorIndex then do {
       sds \<leftarrow> pool_from IState (SubDescriptorIndex D);
       sub_walk sds (Adr - Physical D) }
     else None }"

definition TotalMemorySize :: "InternalAllocationState \<Rightarrow> u64" where
  "TotalMemorySize IState = MemoryMaxPages IState * PAGE_SIZE"

text \<open>The translation of \<open>MapPhysical\<close> is an argument.\<close>

definition TotalMappedMemory :: "(u64 \<Rightarrow> u64) \<Rightarrow> InternalAllocationState \<Rightarrow> u64 \<Rightarrow> u64 option" where
  "TotalMappedMemory map_physical IState ptr =
    (if ptr \<noteq> 0 \<and> QueryPhysicalAddress (map_physical ptr) IState
     then map_option (\<lambda>sd. case sd of None \<Rightarrow> 0 | Some sd \<Rightarrow> pages_bytes (NoPages sd))
            (GetSubDescriptor (map_physical ptr) IState)
     else Some 0)"

definition MemoryIsMapped :: "(u64 \<Rightarrow> u64) \<Rightarrow> InternalAllocationState \<Rightarrow> u64 \<Rightarrow> bool option" where
  "MemoryIsMapped map_physical IState ptr = map_option (\<lambda>n. n \<noteq> 0) (TotalMappedMemory map_physical IState ptr)"

definition MapVirtual :: "InternalAllocationState \<Rightarrow> u64 \<Rightarrow> u64 option" where
  "MapVirtual IState Phys =
    (if QueryPhysicalAddress Phys IState
     then map_option (\<lambda>sd. case sd of None \<Rightarrow> 0
                             | Some sd \<Rightarrow> VirtualAddressAToU64 (InitVirtualAddress (CoordBaseIndex sd)))
            (GetSubDescriptor Phys IState)
     else Some 0)"

section \<open>Free pages\<close>

text \<open>
  The search through one list.  \<open>best\<close> is \<open>LowestDiffN\<close> with the pages of that entry; the result
  is \<open>None\<close> when the list has no end mark.
\<close>

fun best_fit :: "u32 \<Rightarrow> nat \<Rightarrow> (nat \<times> 14 word) option \<Rightarrow> MemoryRangeSubDescriptor list \<Rightarrow> nat option option" where
  "best_fit N cc best [] = None"
| "best_fit N cc best (sd # sds) =
    (if EndOfList sd then Some (map_option fst best)
     else if Valid sd then best_fit N (Suc cc) best sds
     else
       let fits = ucast (NoPages sd) \<ge> N in
       case best of
         None \<Rightarrow> best_fit N (Suc cc) (if fits then Some (cc, NoPages sd) else None) sds
       | Some (i, p) \<Rightarrow>
           if ucast p - N = 0 then Some (Some i)
           else if fits \<and> ucast p - N > ucast (NoPages sd) - N
           then best_fit N (Suc cc) (Some (cc, NoPages sd)) sds
           else best_fit N (Suc cc) best sds)"

text \<open>The offset of an entry, in pages: a 32-bit sum in one branch and a 64-bit sum in the other.\<close>

definition offset_pages :: "nat \<Rightarrow> MemoryRangeSubDescriptor list \<Rightarrow> 'a::len word" where
  "offset_pages i sds = sum_list (map (\<lambda>sd. ucast (NoPages sd)) (take i (takeWhile (\<lambda>sd. \<not> EndOfList sd) sds)))"

fun free_in_ranges :: "InternalAllocationState \<Rightarrow> u32 \<Rightarrow> MemoryRangeDescriptor list \<Rightarrow> u64 option" where
  "free_in_ranges IState N [] = Some 0"
| "free_in_ranges IState N (D # Ds) =
    (if SubDescriptorIndex D = InvalidSubDescriptorIndex then free_in_ranges IState N Ds
     else do {
       sds \<leftarrow> pool_from IState (SubDescriptorIndex D);
       r \<leftarrow> best_fit N 0 None sds;
       case r of
         Some i \<Rightarrow> Some (Physical D + offset_pages i sds * PAGE_SIZE)
       | None \<Rightarrow> free_in_ranges IState N Ds })"

text \<open>
  Here the test at the end of the macro \<open>GetDescriptor\<close> guards an empty statement, so the null
  descriptor of an address behind the last page is read: \<open>None\<close>.
\<close>

definition QueryFreeMemory :: "bool \<Rightarrow> InternalAllocationState \<Rightarrow> u64 \<Rightarrow> u32 \<Rightarrow> u64 option" where
  "QueryFreeMemory sw IState Phys N =
    (if sw then do {
       D' \<leftarrow> GetDescriptor Phys IState;
       D \<leftarrow> D';
       if SubDescriptorIndex D = InvalidSubDescriptorIndex then Some 0
       else do {
         sds \<leftarrow> pool_from IState (SubDescriptorIndex D);
         r \<leftarrow> best_fit N 0 None sds;
         Some (case r of Some i \<Rightarrow> Physical D + ucast (offset_pages i sds * 4096 :: u32) | None \<Rightarrow> 0) } }
     else if QueryPhysicalAddress Phys IState then
       (if unat (TotalDescriptors IState) \<le> length (Descriptors IState)
        then free_in_ranges IState N (take (unat (TotalDescriptors IState)) (Descriptors IState))
        else None)
     else Some 0)"

text \<open>The gap between the end of one range's list and the start of the next one.\<close>

fun pool_gap :: "InternalAllocationState \<Rightarrow> u32 \<Rightarrow> MemoryRangeDescriptor list \<Rightarrow> (u32 \<times> u32) option option" where
  "pool_gap IState N (D # D' # Ds) =
    (if SubDescriptorIndex D = InvalidSubDescriptorIndex then pool_gap IState N (D' # Ds)
     else do {
       sds \<leftarrow> pool_from IState (SubDescriptorIndex D);
       if \<forall>sd \<in> set sds. \<not> EndOfList sd then None
       else let currentEnd = SubDescriptorIndex D + of_nat (length (takeWhile (\<lambda>sd. \<not> EndOfList sd) sds));
                nextStart = SubDescriptorIndex D' in
         if nextStart \<noteq> InvalidSubDescriptorIndex \<and> nextStart > currentEnd \<and> nextStart - currentEnd \<ge> N
         then Some (Some (currentEnd, nextStart - currentEnd))
         else pool_gap IState N (D' # Ds) })"
| "pool_gap IState N _ = Some None"

definition AllocateSubDescriptorPool :: "InternalAllocationState \<Rightarrow> u32 \<Rightarrow> (u32 option \<times> u32) option" where
  "AllocateSubDescriptorPool IState N =
    (if TotalDescriptors IState < 2 then Some (None, InvalidSubDescriptorIndex)
     else if unat (TotalDescriptors IState) \<le> length (Descriptors IState) then
       map_option (\<lambda>r. case r of Some (i, gap) \<Rightarrow> (Some i, gap) | None \<Rightarrow> (None, InvalidSubDescriptorIndex))
         (pool_gap IState N (take (unat (TotalDescriptors IState)) (Descriptors IState)))
     else None)"

section \<open>Aligned allocation\<close>

text \<open>
  The page allocator is an argument: from a base, a number of bytes and the memory it returns the
  address of the pages, 0 for none, and the memory after the call.
\<close>

partial_function (option) skip_mapped :: "(u64 \<Rightarrow> bool) \<Rightarrow> u64 \<Rightarrow> u64 \<Rightarrow> u64 option" where
  "skip_mapped mapped Base Limit =
    (if mapped Base \<and> Base < Limit then skip_mapped mapped (Base + PAGE_SIZE) Limit else Some Base)"

definition AllocatePagesFromRange ::
  "(u64 \<Rightarrow> bool) \<Rightarrow> (u64 \<Rightarrow> u64 \<Rightarrow> memory \<Rightarrow> u64 \<times> memory) \<Rightarrow> u64 \<Rightarrow> u64 \<Rightarrow> u64 \<Rightarrow> memory \<Rightarrow> (u64 \<times> memory) option" where
  "AllocatePagesFromRange mapped alloc Base Limit NBytes m = do {
     b \<leftarrow> skip_mapped mapped Base Limit;
     Some (if b \<ge> Limit then (0, m) else alloc b NBytes m) }"

definition write_u64 :: "u64 \<Rightarrow> u64 \<Rightarrow> memory \<Rightarrow> memory" where
  "write_u64 a v m = write_bytes m a (le_bytes 8 (unat v))"

definition AllocateAlignedPagesFromRange ::
  "(u64 \<Rightarrow> bool) \<Rightarrow> (u64 \<Rightarrow> u64 \<Rightarrow> memory \<Rightarrow> u64 \<times> memory) \<Rightarrow> u64 \<Rightarrow> u64 \<Rightarrow> u64 \<Rightarrow> u32 \<Rightarrow> memory \<Rightarrow> (u64 \<times> memory) option" where
  "AllocateAlignedPagesFromRange mapped alloc Base Limit NBytes Align m = do {
     (PTR, m1) \<leftarrow> AllocatePagesFromRange mapped alloc Base Limit (c_roundup (NBytes + 8) (ucast Align)) m;
     Some (if PTR = 0 then (0, m1)
           else (c_roundup PTR (ucast Align) + 8, write_u64 (c_roundup PTR (ucast Align)) PTR m1)) }"

definition AllocateAlignedPages ::
  "(u64 \<Rightarrow> bool) \<Rightarrow> (u64 \<Rightarrow> u64 \<Rightarrow> memory \<Rightarrow> u64 \<times> memory) \<Rightarrow> u64 \<Rightarrow> u64 \<Rightarrow> u8 \<Rightarrow> memory \<Rightarrow> (u64 \<times> memory) option" where
  "AllocateAlignedPages mapped alloc Phys NBytes Align m =
    AllocateAlignedPagesFromRange mapped alloc Phys (- 1) NBytes (ucast Align) m"

text \<open>\<open>FreeAlignedPages\<close> hands the address stored before the block to \<open>FreePages\<close>.\<close>

definition FreeAlignedPages :: "(u64 \<Rightarrow> memory \<Rightarrow> memory) \<Rightarrow> u64 \<Rightarrow> memory \<Rightarrow> memory" where
  "FreeAlignedPages free Page m = free (read_u64 m (Page - 8)) m"

section \<open>The search is a best fit\<close>

definition fitting :: "u32 \<Rightarrow> MemoryRangeSubDescriptor \<Rightarrow> bool" where
  "fitting N sd = (\<not> Valid sd \<and> N \<le> ucast (NoPages sd))"

text \<open>The candidate is the first of the smallest fitting entries seen so far.\<close>

definition optimal :: "u32 \<Rightarrow> MemoryRangeSubDescriptor list \<Rightarrow> (nat \<times> 14 word) option \<Rightarrow> bool" where
  "optimal N ys best =
    (case best of
       None \<Rightarrow> \<forall>sd \<in> set ys. \<not> fitting N sd
     | Some (i, p) \<Rightarrow> i < length ys \<and> fitting N (ys ! i) \<and> p = NoPages (ys ! i)
         \<and> (\<forall>k < length ys. fitting N (ys ! k) \<longrightarrow> p \<le> NoPages (ys ! k) \<and> (k < i \<longrightarrow> p < NoPages (ys ! k))))"

lemma unat_pages [simp]: "unat (ucast (a :: 14 word) :: u32) = unat a"
proof -
  have "unat a < 2 ^ 14" using unsigned_less [of a, where 'a = nat] by simp
  then show ?thesis by (simp add: unsigned_ucast_eq take_bit_nat_eq_self)
qed

lemma ucast_le_iff: "(ucast (a :: 14 word) :: u32) \<le> ucast b \<longleftrightarrow> a \<le> b"
  by (simp add: word_le_nat_alt)

lemma pages_diff_less:
  fixes N :: u32
  assumes "N \<le> ucast (p :: 14 word)" and "N \<le> ucast (q :: 14 word)"
  shows "(ucast p - N > ucast q - N) \<longleftrightarrow> q < p"
proof -
  have "unat (ucast p - N) = unat p - unat N" "unat (ucast q - N) = unat q - unat N" "unat N \<le> unat p" "unat N \<le> unat q"
    using assms by (simp_all add: unat_sub_small word_le_nat_alt)
  then show ?thesis by (auto simp: word_less_nat_alt)
qed

lemma optimal_snoc_skip:
  "optimal N ys best \<Longrightarrow> \<not> fitting N sd \<Longrightarrow> optimal N (ys @ [sd]) best"
  by (auto simp: optimal_def nth_append less_Suc_eq split: option.splits)

lemma optimal_snoc_first:
  "optimal N ys None \<Longrightarrow> fitting N sd \<Longrightarrow> optimal N (ys @ [sd]) (Some (length ys, NoPages sd))"
  by (auto simp: optimal_def nth_append less_Suc_eq)

lemma optimal_snoc_better:
  "optimal N ys (Some (i, p)) \<Longrightarrow> fitting N sd \<Longrightarrow> NoPages sd < p \<Longrightarrow>
     optimal N (ys @ [sd]) (Some (length ys, NoPages sd))"
  by (force simp: optimal_def nth_append less_Suc_eq)

lemma optimal_snoc_worse:
  "optimal N ys (Some (i, p)) \<Longrightarrow> \<not> NoPages sd < p \<Longrightarrow> optimal N (ys @ [sd]) (Some (i, p))"
  by (auto simp: optimal_def nth_append less_Suc_eq)

lemma optimal_exact:
  assumes "optimal N ys (Some (i, p))" and "ucast p - N = 0"
  shows "optimal N (ys @ xs) (Some (i, p))"
proof -
  have "ucast p = N" using assms(2) by simp
  then have "fitting N sd \<Longrightarrow> p \<le> NoPages sd" for sd by (auto simp: fitting_def ucast_le_iff)
  then show ?thesis using assms(1) by (auto simp: optimal_def nth_append)
qed

lemma best_fit_optimal:
  assumes "\<forall>sd \<in> set xs. \<not> EndOfList sd" and "EndOfList e" and "optimal N ys best"
  shows "\<exists>b. best_fit N (length ys) best (xs @ e # rest) = Some (map_option fst b) \<and> optimal N (ys @ xs) b"
  using assms(1,3)
proof (induction xs arbitrary: ys best)
  case Nil
  then show ?case using assms(2) by auto
next
  case (Cons sd xs)
  note IH = Cons.IH [of "ys @ [sd]", simplified]
  show ?case
  proof (cases "Valid sd")
    case True
    then show ?thesis using IH [of best] optimal_snoc_skip [OF Cons.prems(2), of sd] Cons.prems(1) by (simp add: fitting_def)
  next
    case inv: False
    show ?thesis
    proof (cases best)
      case None
      then show ?thesis
        using IH [of None] IH [of "Some (length ys, NoPages sd)"] optimal_snoc_skip [OF Cons.prems(2), of sd]
          optimal_snoc_first [of N ys sd] Cons.prems inv by (auto simp: fitting_def Let_def)
    next
      case (Some b)
      obtain i p where b: "best = Some (i, p)" using Some by (cases b) auto
      have "N \<le> ucast p" using Cons.prems(2) by (auto simp: b optimal_def fitting_def)
      note d = pages_diff_less [OF this, of "NoPages sd"]
      show ?thesis
      proof (cases "ucast p - N = 0")
        case True
        then show ?thesis
          using optimal_exact [of N ys i p "sd # xs"] Cons.prems inv b by (intro exI [of _ best]) (auto simp: Let_def)
      next
        case False
        then show ?thesis
          using IH [of best] IH [of "Some (length ys, NoPages sd)"] optimal_snoc_worse [of N ys i p sd]
            optimal_snoc_better [of N ys i p sd] optimal_snoc_skip [OF Cons.prems(2), of sd] Cons.prems inv b d
          by (auto simp: fitting_def Let_def)
      qed
    qed
  qed
qed

section \<open>Properties\<close>

text \<open>A range whose list has an end and no fitting free block before it, or that has no list.\<close>

definition without_fit :: "InternalAllocationState \<Rightarrow> u32 \<Rightarrow> MemoryRangeDescriptor \<Rightarrow> bool" where
  "without_fit IS N D =
    (SubDescriptorIndex D = InvalidSubDescriptorIndex \<or>
     (case pool_from IS (SubDescriptorIndex D) of
        None \<Rightarrow> False
      | Some sds \<Rightarrow> list_ex EndOfList sds \<and> list_all (\<lambda>sd. \<not> fitting N sd) (takeWhile (\<lambda>sd. \<not> EndOfList sd) sds)))"

lemma best_fit_none:
  assumes "list_ex EndOfList sds" and "list_all (\<lambda>sd. \<not> fitting N sd) (takeWhile (\<lambda>sd. \<not> EndOfList sd) sds)"
  shows "best_fit N cc None sds = Some None"
  using assms by (induction sds arbitrary: cc) (auto simp: fitting_def Let_def split: if_splits)

lemma free_in_ranges_skip:
  "list_all (without_fit IS N) Ds \<Longrightarrow> free_in_ranges IS N (Ds @ Es) = free_in_ranges IS N Es"
  by (induction Ds) (auto simp: without_fit_def best_fit_none split: option.splits)

text \<open>C32: without the input-address switch, and for an address below the last page, the search for free
  pages goes through the ranges in order and is a best fit in the first one whose list has a fitting free
  block: it returns the address of the smallest such block of that range, the first one among equals.\<close>

theorem QueryFreeMemory_best_fit:
  assumes "QueryPhysicalAddress phys IS" and "Descriptors IS = Before @ D # Ds" and "list_all (without_fit IS N) Before"
    and "length Before < unat (TotalDescriptors IS)" and "unat (TotalDescriptors IS) \<le> length (Descriptors IS)"
    and "SubDescriptorIndex D \<noteq> InvalidSubDescriptorIndex"
    and pool: "pool_from IS (SubDescriptorIndex D) = Some (xs @ e # rest)"
    and xs: "\<forall>sd \<in> set xs. \<not> EndOfList sd" "EndOfList e" and fit: "\<exists>sd \<in> set xs. fitting N sd"
  shows "\<exists>j < length xs. fitting N (xs ! j)
    \<and> (\<forall>k < length xs. fitting N (xs ! k) \<longrightarrow>
         NoPages (xs ! j) \<le> NoPages (xs ! k) \<and> (k < j \<longrightarrow> NoPages (xs ! j) < NoPages (xs ! k)))
    \<and> QueryFreeMemory False IS phys N
       = Some (Physical D + sum_list (map (\<lambda>sd. ucast (NoPages sd)) (take j xs)) * PAGE_SIZE)"
proof -
  obtain b where b: "best_fit N 0 None (xs @ e # rest) = Some (map_option fst b)" "optimal N xs b"
    using best_fit_optimal [OF xs, of N "[]" None rest] by (auto simp: optimal_def)
  then obtain j p where j: "b = Some (j, p)" using fit by (cases b) (auto simp: optimal_def)
  have "takeWhile (\<lambda>sd. \<not> EndOfList sd) (xs @ e # rest) = xs" using xs by (simp add: takeWhile_append2)
  moreover obtain k where "unat (TotalDescriptors IS) = length Before + Suc k"
    using assms(4) less_imp_Suc_add by fastforce
  then have "take (unat (TotalDescriptors IS)) (Descriptors IS) = Before @ D # take k Ds"
    using assms(2) by simp
  ultimately have "QueryFreeMemory False IS phys N
      = Some (Physical D + sum_list (map (\<lambda>sd. ucast (NoPages sd)) (take j xs)) * PAGE_SIZE)"
    using assms(1,5,6) pool b(1) j free_in_ranges_skip [OF assms(3), of "D # take k Ds"]
    by (simp add: QueryFreeMemory_def offset_pages_def)
  then show ?thesis using b(2) j by (intro exI [of _ j]) (auto simp: optimal_def)
qed

definition two_blocks :: InternalAllocationState where
  "two_blocks =
    (let sd = \<lambda>last valid n. \<lparr>EndOfList = last, Valid = valid, NoPages = n,
                 CoordBaseIndex = InitPageCoordinate False (virtual_address (ucast n * 4096)), AllocationType = 0\<rparr>
     in \<lparr>PhysicalDescriptorIndexes = replicate 16 0,
         Descriptors = [\<lparr>Physical = 0, SubDescriptorIndex = 0, PageLimit = 16, EfiMemoryType = 7\<rparr>],
         SubDescriptors = [[sd False False 6, sd False False 3, sd False True 2, sd True False 0]],
         TotalDescriptors = 1, TotalSubDescriptorPools = 1, TotalSubDescriptors = 4,
         CurrentSubDescriptorPool = 0, MemoryMaxPages = 16\<rparr>)"

theorem QueryFreeMemory_best_fit_witness: "\<exists>j. QueryFreeMemory False two_blocks 0 2 = Some (of_nat j * 4096)"
proof -
  let ?xs = "take 3 (hd (SubDescriptors two_blocks))" and ?e = "hd (SubDescriptors two_blocks) ! 3"
  have "\<exists>j < length ?xs. fitting 2 (?xs ! j)
    \<and> (\<forall>k < length ?xs. fitting 2 (?xs ! k) \<longrightarrow>
         NoPages (?xs ! j) \<le> NoPages (?xs ! k) \<and> (k < j \<longrightarrow> NoPages (?xs ! j) < NoPages (?xs ! k)))
    \<and> QueryFreeMemory False two_blocks 0 2
       = Some (Physical (hd (Descriptors two_blocks)) + sum_list (map (\<lambda>sd. ucast (NoPages sd)) (take j ?xs)) * PAGE_SIZE)"
    by (rule QueryFreeMemory_best_fit [where Before = "[]" and Ds = "[]" and e = ?e and rest = "[]"])
      (simp_all add: two_blocks_def Let_def QueryPhysicalAddress_def PAGE_SIZE_def InvalidSubDescriptorIndex_def
        pool_from_def at_def fitting_def)
  then obtain j where "QueryFreeMemory False two_blocks 0 2 = Some (sum_list (map (\<lambda>sd. ucast (NoPages sd)) (take j ?xs)) * 4096)"
    by (auto simp: two_blocks_def Let_def PAGE_SIZE_def)
  then show ?thesis
    by (intro exI [of _ "unat (sum_list (map (\<lambda>sd. ucast (NoPages sd)) (take j ?xs)) :: u64)"]) simp
qed

lemma unat_uminus_u64:
  assumes "(x :: u64) \<noteq> 0"
  shows "unat (- x) = 2 ^ 64 - unat x"
proof -
  have "unat (- x + x) = (unat (- x) + unat x) mod 2 ^ 64" by (subst unat_word_ariths) simp
  then have "(unat (- x) + unat x) mod 2 ^ 64 = 0" by simp
  moreover have "0 < unat x" using assms by (simp add: unat_gt_0)
  moreover have "unat (- x) < 2 ^ 64" "unat x < 2 ^ 64" by (rule unat_u64_less)+
  ultimately show ?thesis
    by (cases "unat (- x) + unat x < 2 ^ 64") (simp_all add: not_less le_mod_geq)
qed

lemma pages_bytes_less: "unat (pages_bytes n) < 2 ^ 26"
proof -
  have "unat n < 2 ^ 14" using unsigned_less [of n, where 'a = nat] by simp
  then have "unat (ucast n :: u64) < 2 ^ 14" by (simp add: unsigned_ucast_eq take_bit_nat_eq_self)
  then show ?thesis unfolding pages_bytes_def PAGE_SIZE_def by (subst unat_mult_small) simp_all
qed

text \<open>A remainder that went below zero is larger than any block.\<close>

lemma wrapped_remainder:
  assumes "o1 < pages_bytes k"
  shows "\<not> pages_bytes n > o1 - pages_bytes k" "o1 - pages_bytes k \<noteq> 0"
proof -
  let ?d = "pages_bytes k - o1"
  have d: "?d \<noteq> 0" "unat ?d \<le> unat (pages_bytes k)"
    using assms by (auto simp: unat_sub_small word_less_nat_alt)
  have "unat (o1 - pages_bytes k) = 2 ^ 64 - unat ?d" using unat_uminus_u64 [OF d(1)] by simp
  then show "\<not> pages_bytes n > o1 - pages_bytes k"
    using pages_bytes_less [of k] pages_bytes_less [of n] d(2) by (simp add: word_less_nat_alt)
  show "o1 - pages_bytes k \<noteq> 0" using d(1) by auto
qed

text \<open>Which block a physical address is looked up to.  The base of a range gives its first
  sub-descriptor; every address further in than the first block gives the second one, and an
  address strictly inside the first block gives the third, so only the bases of the first two
  blocks can be mapped back correctly.\<close>

theorem MapVirtual_lookup:
  assumes "QueryPhysicalAddress adr IS" and "descriptor_of IS adr = Some D" and "adr < MemoryMaxPages IS * PAGE_SIZE"
    and "SubDescriptorIndex D \<noteq> InvalidSubDescriptorIndex"
    and "pool_from IS (SubDescriptorIndex D) = Some (s0 # s1 # s2 # sds)" and "\<not> EndOfList s0" and "\<not> EndOfList s1"
  shows "MapVirtual IS adr = Some (VirtualAddressAToU64 (InitVirtualAddress (CoordBaseIndex
     (if adr = Physical D then s0 else if adr - Physical D < pages_bytes (NoPages s0) then s2 else s1))))"
proof -
  have "GetSubDescriptor adr IS = sub_walk (s0 # s1 # s2 # sds) (adr - Physical D)"
    using assms(2-5) by (simp add: GetSubDescriptor_def)
  moreover have "sub_walk (s0 # s1 # s2 # sds) (adr - Physical D)
      = Some (Some (if adr = Physical D then s0 else if adr - Physical D < pages_bytes (NoPages s0) then s2 else s1))"
    using assms(6,7) wrapped_remainder [of "adr - Physical D" "NoPages s0"] by auto
  ultimately show ?thesis using assms(1) by (simp add: MapVirtual_def)
qed

theorem MapVirtual_lookup_witness:
  "MapVirtual two_blocks 0 = Some 0x6000 \<and> MapVirtual two_blocks 0x1000 = Some 0x2000 \<and> MapVirtual two_blocks 0x9000 = Some 0x3000"
proof -
  let ?sd = "\<lambda>i. hd (SubDescriptors two_blocks) ! i"
  have d: "descriptor_of two_blocks a = Some (hd (Descriptors two_blocks))" if "a \<in> {0, 0x1000, 0x9000}" for a
    using that by (auto simp: two_blocks_def Let_def descriptor_of_def at_def PAGE_SIZE_def)
  have p: "pool_from two_blocks (SubDescriptorIndex (hd (Descriptors two_blocks))) = Some (?sd 0 # ?sd 1 # ?sd 2 # [?sd 3])"
    by (simp add: two_blocks_def Let_def pool_from_def at_def)
  have m: "MapVirtual two_blocks a = Some (VirtualAddressAToU64 (InitVirtualAddress (CoordBaseIndex
      (if a = Physical (hd (Descriptors two_blocks)) then ?sd 0
       else if a - Physical (hd (Descriptors two_blocks)) < pages_bytes (NoPages (?sd 0)) then ?sd 2 else ?sd 1))))"
    if "a \<in> {0, 0x1000, 0x9000}" for a
    using that by (intro MapVirtual_lookup [OF _ d [OF that] _ _ p])
      (auto simp: two_blocks_def Let_def QueryPhysicalAddress_def PAGE_SIZE_def InvalidSubDescriptorIndex_def)
  have "CoordBaseIndex (?sd 0) = InitPageCoordinate False (virtual_address 0x6000)"
    "CoordBaseIndex (?sd 1) = InitPageCoordinate False (virtual_address 0x3000)"
    "CoordBaseIndex (?sd 2) = InitPageCoordinate False (virtual_address 0x2000)"
    "NoPages (?sd 0) = 6" "Physical (hd (Descriptors two_blocks)) = 0"
    by (simp_all add: two_blocks_def Let_def)
  moreover have "VirtualAddressAToU64 (InitVirtualAddress (InitPageCoordinate False (virtual_address a))) = a"
    if "a \<in> {0x6000, 0x3000, 0x2000}" for a
    using that by (auto simp: InitVirtualAddress_def InitPageCoordinate_def virtual_address_def VirtualAddressAToU64_def
        field_at_def)
  ultimately show ?thesis
    using m [of 0] m [of "0x1000"] m [of "0x9000"] by (simp add: pages_bytes_def PAGE_SIZE_def)
qed

text \<open>An aligned allocation can be released: the address of the pages themselves is stored in
  front of the block it returns, where \<open>FreeAlignedPages\<close> finds it; the block itself lies eight
  bytes past a multiple of the alignment.\<close>

theorem aligned_pages_release:
  assumes "AllocatePagesFromRange mapped alloc Base Limit (c_roundup (NBytes + 8) (ucast Align)) m = Some (PTR, m1)"
    and "PTR \<noteq> 0"
  shows "\<exists>p m'. AllocateAlignedPagesFromRange mapped alloc Base Limit NBytes Align m = Some (p, m')
    \<and> FreeAlignedPages free p m' = free PTR m' \<and> p - 8 = c_roundup PTR (ucast Align)"
proof -
  have "read_u64 (write_u64 a v m1) a = v" for a v
    using read_write_bytes [of "le_bytes 8 (unat v)" m1 a] unat_u64_less [of v]
    by (simp add: read_u64_def write_u64_def le_nat_le_bytes)
  then show ?thesis using assms by (simp add: AllocateAlignedPagesFromRange_def FreeAlignedPages_def)
qed

theorem aligned_pages_release_witness:
  "\<exists>p m'. AllocateAlignedPagesFromRange (\<lambda>a. a = 0) (\<lambda>b n m. (b, m)) 0 0x8000 100 16 (\<lambda>a. 0) = Some (p, m')
    \<and> FreeAlignedPages (\<lambda>a m. m(a := 1)) p m' = m'(0x1000 := 1) \<and> p - 8 = 0x1000"
proof -
  have "skip_mapped (\<lambda>a. a = 0) 0 0x8000 = Some 0x1000"
    by (subst skip_mapped.simps, subst skip_mapped.simps) (simp add: PAGE_SIZE_def)
  then have "AllocatePagesFromRange (\<lambda>a. a = 0) (\<lambda>b n m. (b, m)) 0 0x8000 (c_roundup (100 + 8) (ucast (16 :: u32))) (\<lambda>a. 0)
      = Some (0x1000, \<lambda>a. 0)" by (simp add: AllocatePagesFromRange_def)
  from aligned_pages_release [OF this, of "\<lambda>a m. m(a := 1)"] show ?thesis by (simp add: c_roundup_def)
qed

end
