(* ===== verification/Kernel_Malloc.thy ===== *)
theory Kernel_Malloc
  imports Kernel_PageAlloc
begin

text \<open>
  The kernel heap of \<^verbatim>\<open>kernel/libcrt/memory/allocator/mmalloc.c\<close> over byte-addressed memory.  The
  pool structures and the descriptor tables lie in memory at the offsets of the C structures; an
  operation takes the state of the kernel (memory, SIMD registers, and the static allocator state)
  and returns it updated.  \<open>None\<close> is an operation that does not return.  The page functions the
  heap calls are arguments.
\<close>

section \<open>Structures in memory\<close>

definition BLOCKSIZE :: u64 where "BLOCKSIZE = 4 * 1024"
definition dBLOCKS :: u64 where "dBLOCKS = 32 * 1024"
definition dPOOLS :: u32 where "dPOOLS = 32"
definition allocALIGN :: u64 where "allocALIGN = 8"
definition DefaultFixMemFrequency :: u64 where "DefaultFixMemFrequency = 32"

definition memdesc_e__used :: u32 where "memdesc_e__used = 0x1"
definition memdesc_e__nofree :: u32 where "memdesc_e__nofree = 0x2"

text \<open>
  \<open>memdesc_t\<close> takes 32 bytes: \<open>ptr\<close> at 0, \<open>nbytes\<close> at 8, the 32-bit \<open>flags\<close> at 16 and \<open>next\<close> at
  24.  \<open>mempool_t\<close> takes 24 bytes: \<open>base\<close>, \<open>nblocks\<close> and \<open>nDescriptors\<close>.
\<close>

definition read_u32 :: "memory \<Rightarrow> u64 \<Rightarrow> u32" where
  "read_u32 m p = of_nat (le_nat (read_bytes m p 4))"

definition write_u32 :: "u64 \<Rightarrow> u32 \<Rightarrow> memory \<Rightarrow> memory" where
  "write_u32 a v m = write_bytes m a (le_bytes 4 (unat v))"

definition d_ptr :: "memory \<Rightarrow> u64 \<Rightarrow> u64" where "d_ptr m d = read_u64 m d"
definition d_nbytes :: "memory \<Rightarrow> u64 \<Rightarrow> u64" where "d_nbytes m d = read_u64 m (d + 8)"
definition d_flags :: "memory \<Rightarrow> u64 \<Rightarrow> u32" where "d_flags m d = read_u32 m (d + 16)"
definition d_next :: "memory \<Rightarrow> u64 \<Rightarrow> u64" where "d_next m d = read_u64 m (d + 24)"

record memdesc_t =
  md_ptr :: u64
  md_nbytes :: u64
  md_flags :: u32
  md_next :: u64

definition write_desc :: "u64 \<Rightarrow> memdesc_t \<Rightarrow> memory \<Rightarrow> memory" where
  "write_desc d v m = write_u64 (d + 24) (md_next v) (write_u32 (d + 16) (md_flags v)
     (write_u64 (d + 8) (md_nbytes v) (write_u64 d (md_ptr v) m)))"

definition read_desc :: "memory \<Rightarrow> u64 \<Rightarrow> memdesc_t" where
  "read_desc m d = \<lparr>md_ptr = d_ptr m d, md_nbytes = d_nbytes m d, md_flags = d_flags m d, md_next = d_next m d\<rparr>"

definition p_base :: "memory \<Rightarrow> u64 \<Rightarrow> u64" where "p_base m mp = read_u64 m mp"
definition p_nblocks :: "memory \<Rightarrow> u64 \<Rightarrow> u64" where "p_nblocks m mp = read_u64 m (mp + 8)"
definition p_nDescriptors :: "memory \<Rightarrow> u64 \<Rightarrow> u64" where "p_nDescriptors m mp = read_u64 m (mp + 16)"

definition getdescarrtrue :: "memory \<Rightarrow> u64 \<Rightarrow> u64" where
  "getdescarrtrue m mp = p_base m mp + p_nblocks m mp * BLOCKSIZE"

definition getdescarrn :: "memory \<Rightarrow> u64 \<Rightarrow> u64" where
  "getdescarrn m mp = getdescarrtrue m mp - p_nDescriptors m mp * 32"

text \<open>The kernel state: \<open>pools\<close>, \<open>npools\<close> and \<open>totalNAllocations\<close> are the static \<open>allocstate_t\<close>.\<close>

record kst =
  kmem :: memory
  ksse :: sse_state
  pools :: u64
  npools :: u32
  totalNAllocations :: u64

text \<open>The page functions: allocation, reallocation, aligned allocation and release.\<close>

record page_api = page_source +
  ReallocatePages :: "memory \<Rightarrow> u64 \<Rightarrow> u64 \<Rightarrow> u64 \<times> memory"
  AllocateAligned :: "memory \<Rightarrow> u64 \<Rightarrow> u8 \<Rightarrow> u64 \<times> memory"

definition desc_at :: "u64 \<Rightarrow> nat \<Rightarrow> u64" where
  "desc_at md cc = md + of_nat cc * 32"

text \<open>The indices from the last descriptor down to the first.\<close>

definition down_from :: "u64 \<Rightarrow> nat list" where
  "down_from n = rev [0..<unat n]"

definition pool_at :: "kst \<Rightarrow> nat \<Rightarrow> u64" where
  "pool_at st cc = pools st + of_nat cc * 24"

section \<open>Pools\<close>

definition allocatepool :: "page_api \<Rightarrow> u64 \<Rightarrow> kst \<Rightarrow> kst" where
  "allocatepool api nblocks st =
    (let nblocks = c_roundup (push_bit 1 nblocks) allocALIGN;
         n = npools st + 1;
         (ps, m1) = (if pools st \<noteq> 0 then ReallocatePages api (kmem st) (pools st) (24 * ucast n)
                     else AllocatePages (page_source.truncate api) (kmem st) (ucast n * 24));
         (base, m2) = AllocateAligned api m1 (nblocks * BLOCKSIZE) 8;
         mp = ps + 24 * ucast (n - 1);
         m3 = write_u64 (mp + 16) 0 (write_u64 (mp + 8) nblocks (write_u64 mp base m2));
         (sse', m4) = memset (ksse st) m3 (p_base m3 mp) 0 (nblocks * BLOCKSIZE)
     in st\<lparr>kmem := m4, ksse := sse', pools := ps, npools := n\<rparr>)"

definition initastate :: "page_api \<Rightarrow> u64 \<Rightarrow> u32 \<Rightarrow> kst \<Rightarrow> kst" where
  "initastate api nblocks n st =
    (if pools st = 0
     then (allocatepool api nblocks ^^ unat n) (st\<lparr>pools := 0, npools := 0, totalNAllocations := 0\<rparr>)
     else st)"

section \<open>Descriptors\<close>

definition querydescu :: "memory \<Rightarrow> u64 \<Rightarrow> u64 \<Rightarrow> u64 option" where
  "querydescu m mp n =
    (let md = getdescarrn m mp in
     map_option (desc_at md)
       (List.find (\<lambda>cc. \<not> flag_check (d_flags m (desc_at md cc)) memdesc_e__used \<and> d_nbytes m (desc_at md cc) = n)
          (down_from (p_nDescriptors m mp))))"

text \<open>
  The inner search of \<open>fixmdarray\<close>: among the descriptors behind the current one, the one whose
  address is nearest to the end of the current block.
\<close>

definition nearest_after :: "memory \<Rightarrow> u64 \<Rightarrow> nat \<Rightarrow> u64 \<Rightarrow> u64" where
  "nearest_after m md cc n =
    (let cur = d_ptr m (desc_at md cc); nxt = cur + d_nbytes m (desc_at md cc) in
     snd (fold (\<lambda>k (diff, found).
            let p = d_ptr m (desc_at md k) in
            if p = cur \<or> p < cur then (diff, found)
            else if p < nxt \<or> p - nxt > diff then (diff, found)
            else (p - nxt, desc_at md k))
          (down_from n) (- 1, 0)))"

text \<open>
  The outer loop.  \<open>ndescs\<close> is the address of a counter; \<open>ndescs--\<close> moves that address back by
  eight bytes instead of lowering the counter.
\<close>

fun fixmd_loop :: "page_source \<Rightarrow> nat \<Rightarrow> u64 \<Rightarrow> u64 \<Rightarrow> sse_state \<times> memory \<Rightarrow> sse_state \<times> memory" where
  "fixmd_loop ps 0 md ndescs (s, m) = (s, m)"
| "fixmd_loop ps (Suc k) md ndescs (s, m) =
    (let n = read_u64 m ndescs; cc = Suc k in
     if d_nbytes m (desc_at md cc) = 0
     then (case memmove_s ps s m (md + 32) (32 * n) md (32 * (n - of_nat cc)) of
             (_, s', m') \<Rightarrow> fixmd_loop ps k (md + 32) (ndescs - 8) (s', m'))
     else fixmd_loop ps k md ndescs (s, write_u64 (desc_at md cc + 24) (nearest_after m md cc n) m))"

definition fixmdarray :: "page_source \<Rightarrow> u64 \<Rightarrow> u64 \<Rightarrow> kst \<Rightarrow> kst" where
  "fixmdarray ps mp ndescs st =
    (let n = read_u64 (kmem st) ndescs;
         (s', m') = (if n = 0 then (ksse st, kmem st)
                     else fixmd_loop ps (unat n - 1) (getdescarrn (kmem st) mp) ndescs (ksse st, kmem st))
     in st\<lparr>ksse := s', kmem := m'\<rparr>)"

definition fragmemory :: "page_source \<Rightarrow> u64 \<Rightarrow> u64 \<Rightarrow> u64 \<Rightarrow> u64 \<Rightarrow> kst \<Rightarrow> kst" where
  "fragmemory ps mp target ndescs n st =
    (let n = (if n \<noteq> 0 then c_roundup n allocALIGN else n);
         m = kmem st; table = getdescarrn m mp in
     if n < d_nbytes m target \<and> table \<noteq> 0 \<and> target \<noteq> 0 \<and> ndescs \<noteq> 0 then
       let m1 = write_u64 ndescs (read_u64 m ndescs + 1) m;
           table = table - 32;
           m2 = write_desc table \<lparr>md_ptr = d_ptr m1 target + n, md_nbytes = d_nbytes m1 target - n,
                                  md_flags = 0, md_next = d_next m1 target\<rparr> m1;
           m3 = write_u64 (target + 8) n m2;
           m4 = write_u64 (target + 24) (table + read_u64 m3 ndescs * 32 - 32) m3
       in fixmdarray ps mp ndescs (st\<lparr>kmem := m4, totalNAllocations := totalNAllocations st + 1\<rparr>)
     else st)"

partial_function (option) chaintip :: "memory \<Rightarrow> u64 \<Rightarrow> u64 option" where
  "chaintip m md = (if d_next m md \<noteq> 0 then chaintip m (d_next m md) else Some md)"

definition memusedsize :: "memory \<Rightarrow> u64 \<Rightarrow> u64" where
  "memusedsize m mp =
    (let md = getdescarrn m mp in
     sum_list (map (\<lambda>cc. let d = desc_at md cc in
         d_nbytes m d + (if d_next m d \<noteq> 0 then d_ptr m (d_next m d) - (d_ptr m d + d_nbytes m d) else 0))
       (down_from (p_nDescriptors m mp))))"

definition allocatedesc :: "u64 \<Rightarrow> u64 \<Rightarrow> kst \<Rightarrow> (u64 \<times> kst) option" where
  "allocatedesc pool n st =
    (let m = kmem st; md = getdescarrn m pool; n = c_roundup n allocALIGN in
     if p_nblocks m pool * BLOCKSIZE \<ge> memusedsize m pool + n + 32 then do {
       let m1 = write_u64 (pool + 16) (p_nDescriptors m pool + 1) m;
       tip \<leftarrow> chaintip m1 md;
       let md = md - 32;
       let pend = p_base m1 pool + p_nblocks m1 pool * BLOCKSIZE;
       let m2 = (if tip \<noteq> pend then write_u64 (tip + 24) md m1 else m1);
       let start = (if d_ptr m2 tip \<ge> p_base m2 pool \<and> d_ptr m2 tip < pend
                    then d_ptr m2 tip + d_nbytes m2 tip else p_base m2 pool);
       let m3 = write_desc md \<lparr>md_ptr = c_roundup start allocALIGN, md_nbytes = n, md_flags = 0, md_next = 0\<rparr> m2;
       Some (md, st\<lparr>kmem := m3, totalNAllocations := totalNAllocations st + 1\<rparr>) }
     else Some (0, st))"

text \<open>
  \<open>fusememory\<close>.  The first loop subtracts the sizes from 0 along the chain; the second one moves
  the table over the entries it fuses.  Its counter, too, is moved by \<open>ndescs--\<close>.
\<close>

partial_function (option) fuse_sum :: "memory \<Rightarrow> u32 \<Rightarrow> u64 \<Rightarrow> u64 \<Rightarrow> u64 option" where
  "fuse_sum m targetflags temp metbytes =
    (let met = metbytes - d_nbytes m temp; nxt = d_next m temp in
     if nxt \<noteq> 0 \<and> flag_check (d_flags m nxt) targetflags then fuse_sum m targetflags nxt met else Some met)"

partial_function (option) fuse_loop ::
  "page_source \<Rightarrow> u64 \<Rightarrow> u64 \<Rightarrow> u32 \<Rightarrow> u64 \<Rightarrow> u64 \<Rightarrow> bool \<Rightarrow> kst \<Rightarrow> (bool \<times> u64 \<times> kst) option" where
  "fuse_loop ps table chainstart targetflags temp ndescs out st =
    (let m = kmem st in
     if d_next m temp \<noteq> 0 \<and> flag_check (d_flags m temp) targetflags then
       let m1 = write_u64 (chainstart + 8) (d_nbytes m chainstart + d_nbytes m temp) m;
           nxt = d_next m1 temp; n = read_u64 m1 ndescs in
       if temp < table + n + 1 then
         let index = (temp - table) div 32 in
         (case memmove_s ps (ksse st) m1 (table + index * 32) ((n - index) * 32)
                 (table + (index + 1) * 32) ((n - (index + 1)) * 32) of
            (_, s', m2) \<Rightarrow>
              fuse_loop ps table chainstart targetflags nxt (ndescs - 8) True
                (st\<lparr>ksse := s', kmem := m2, totalNAllocations := totalNAllocations st - 1\<rparr>))
       else Some (True, ndescs - 8, st\<lparr>kmem := m1\<rparr>)
     else Some (out, ndescs, st))"

definition fusememory :: "page_source \<Rightarrow> u64 \<Rightarrow> u64 \<Rightarrow> u64 \<Rightarrow> u64 \<Rightarrow> u32 \<Rightarrow> kst \<Rightarrow> (bool \<times> kst) option" where
  "fusememory ps mp ndescs chainstart targetbytes targetflags st = do {
     met \<leftarrow> fuse_sum (kmem st) targetflags chainstart 0;
     if met < targetbytes then Some (False, st)
     else do {
       (out, ndescs', st') \<leftarrow> fuse_loop ps (getdescarrn (kmem st) mp) chainstart targetflags chainstart ndescs False st;
       Some (out, fixmdarray ps mp ndescs' st') } }"

section \<open>Allocation\<close>

text \<open>
  \<open>fragMul\<close> is computed in floating point, where the rounding of \<open>__roundup\<close> only adds 7: the
  comparison is \<open>nbytes > 1.15 * nb + 7\<close>, made here in exact arithmetic.
\<close>

definition exceeds_fragMul :: "u64 \<Rightarrow> u64 \<Rightarrow> bool" where
  "exceeds_fragMul n nb = (100 * unat n > 115 * unat nb + 700)"

definition mark_used :: "u64 \<Rightarrow> memory \<Rightarrow> memory" where
  "mark_used d m = write_u32 (d + 16) (flag_set (d_flags m d) memdesc_e__used) m"

text \<open>What a step of the search does: return an address, start over, or go on.\<close>

datatype search = Return u64 | Restart | Continue

fun desc_scan :: "page_source \<Rightarrow> u64 \<Rightarrow> u64 \<Rightarrow> u64 \<Rightarrow> nat list \<Rightarrow> kst \<Rightarrow> (search \<times> kst) option" where
  "desc_scan ps mp md n [] st = Some (Continue, st)"
| "desc_scan ps mp md n (cc # ccs) st =
    (let m = kmem st; d = desc_at md cc in
     if flag_check (d_flags m d) memdesc_e__used then desc_scan ps mp md n ccs st
     else if exceeds_fragMul (d_nbytes m d) n then
       let st1 = fragmemory ps mp d (mp + 16) n st; m1 = mark_used d (kmem st1)
       in Some (Return (d_ptr m1 d), st1\<lparr>kmem := m1\<rparr>)
     else if d_nbytes m d \<ge> n then
       let m1 = mark_used d m in Some (Return (d_ptr m1 d), st\<lparr>kmem := m1\<rparr>)
     else do {
       (fused, st1) \<leftarrow> fusememory ps mp (mp + 16) d n (NOT memdesc_e__used) st;
       if fused then Some (Restart, st1) else desc_scan ps mp md n ccs st1 })"

definition pool_step :: "page_source \<Rightarrow> u64 \<Rightarrow> u64 \<Rightarrow> kst \<Rightarrow> (search \<times> kst) option" where
  "pool_step ps mp n st =
    (let st = (if totalNAllocations st mod DefaultFixMemFrequency = 0 then fixmdarray ps mp (mp + 16) st else st) in
     case querydescu (kmem st) mp n of
       Some md \<Rightarrow> let m1 = mark_used md (kmem st) in Some (Return (d_ptr m1 md), st\<lparr>kmem := m1\<rparr>)
     | None \<Rightarrow> do {
         (r, st1) \<leftarrow> desc_scan ps mp (getdescarrn (kmem st) mp) n (down_from (p_nDescriptors (kmem st) mp)) st;
         case r of
           Continue \<Rightarrow> do {
             (d, st2) \<leftarrow> allocatedesc mp n st1;
             if d \<noteq> 0 then
               let m1 = mark_used d (kmem st2) in Some (Return (d_ptr m1 d), st2\<lparr>kmem := m1\<rparr>)
             else Some (Continue, st2) }
         | _ \<Rightarrow> Some (r, st1) })"

fun pool_scan :: "page_source \<Rightarrow> u64 \<Rightarrow> nat list \<Rightarrow> kst \<Rightarrow> (search \<times> kst) option" where
  "pool_scan ps n [] st = Some (Continue, st)"
| "pool_scan ps n (cc # ccs) st = do {
     (r, st1) \<leftarrow> pool_step ps (pool_at st cc) n st;
     case r of Continue \<Rightarrow> pool_scan ps n ccs st1 | _ \<Rightarrow> Some (r, st1) }"

partial_function (option) mmalloc :: "page_api \<Rightarrow> u64 \<Rightarrow> kst \<Rightarrow> (u64 \<times> kst) option" where
  "mmalloc api n st =
    (if n = 0 then Some (0, st)
     else let n = c_roundup n allocALIGN;
              st1 = (if pools st = 0 then initastate api (c_min dBLOCKS (c_roundup n allocALIGN)) dPOOLS st else st) in
       do {
         (r, st2) \<leftarrow> pool_scan (page_source.truncate api) n [0..<unat (npools st1)] st1;
         case r of
           Return p \<Rightarrow> Some (p, st2)
         | Restart \<Rightarrow> mmalloc api n st2
         | Continue \<Rightarrow> mmalloc api n (allocatepool api (c_roundup n (dBLOCKS * BLOCKSIZE) div BLOCKSIZE) st2) })"

definition mmalloczero :: "page_api \<Rightarrow> u64 \<Rightarrow> kst \<Rightarrow> (u64 \<times> kst) option" where
  "mmalloczero api n st = do {
     (out, st1) \<leftarrow> mmalloc api n st;
     let (s', m') = memset (ksse st1) (kmem st1) out 0 n;
     Some (out, st1\<lparr>ksse := s', kmem := m'\<rparr>) }"

definition mcalloc :: "page_api \<Rightarrow> u64 \<Rightarrow> u64 \<Rightarrow> kst \<Rightarrow> (u64 \<times> kst) option" where
  "mcalloc api nItems itemSize st = mmalloczero api (nItems * itemSize) st"

section \<open>Looking up and releasing\<close>

text \<open>The descriptor of a pool that covers an address, its end included, searched from the last one down.\<close>

definition covering :: "memory \<Rightarrow> u64 \<Rightarrow> u64 \<Rightarrow> nat option" where
  "covering m mp p =
    (let md = getdescarrn m mp in
     List.find (\<lambda>cc. p \<ge> d_ptr m (desc_at md cc) \<and> p \<le> d_ptr m (desc_at md cc) + d_nbytes m (desc_at md cc))
       (down_from (p_nDescriptors m mp)))"

text \<open>
  The size search shared by \<open>mrealloc\<close>, \<open>mclone\<close> and \<open>mclone_s\<close>: the size of the covering
  descriptor of the first pool where it is not 0.
\<close>

fun size_in_pools :: "kst \<Rightarrow> u64 \<Rightarrow> nat list \<Rightarrow> u64" where
  "size_in_pools st p [] = 0"
| "size_in_pools st p (cc # ccs) =
    (let m = kmem st; mp = pool_at st cc;
         size = (case covering m mp p of Some k \<Rightarrow> d_nbytes m (desc_at (getdescarrn m mp) k) | None \<Rightarrow> 0)
     in if size \<noteq> 0 then size else size_in_pools st p ccs)"

definition all_pools :: "kst \<Rightarrow> nat list" where
  "all_pools st = [0..<unat (npools st)]"

text \<open>
  \<open>mfree\<close>.  The print macro contains a \<open>return\<close>, so the first descriptor that is released ends
  the call; \<open>inPool\<close> is the answer for the last pool that was looked at.
\<close>

definition releasable :: "memory \<Rightarrow> u64 \<Rightarrow> u64 \<Rightarrow> nat option" where
  "releasable m mp p =
    (let md = getdescarrn m mp in
     List.find (\<lambda>cc. let d = desc_at md cc in p \<ge> d_ptr m d \<and> p < d_ptr m d + d_nbytes m d
           \<and> \<not> flag_check (d_flags m d) memdesc_e__nofree \<and> flag_check (d_flags m d) memdesc_e__used)
       (down_from (p_nDescriptors m mp)))"

fun free_in_pools :: "u64 \<Rightarrow> nat list \<Rightarrow> bool \<Rightarrow> kst \<Rightarrow> kst + bool" where
  "free_in_pools p [] inPool st = Inr inPool"
| "free_in_pools p (cc # ccs) inPool st =
    (let m = kmem st; mp = pool_at st cc; md = getdescarrn m mp in
     case releasable m mp p of
       Some k \<Rightarrow> Inl (st\<lparr>kmem := write_u32 (desc_at md k + 16)
                        (flag_uset (d_flags m (desc_at md k)) memdesc_e__used) m\<rparr>)
     | None \<Rightarrow> free_in_pools p ccs (p \<ge> p_base m mp \<and> p < p_base m mp + BLOCKSIZE * p_nblocks m mp) st)"

definition mfree :: "page_api \<Rightarrow> u64 \<Rightarrow> kst \<Rightarrow> kst" where
  "mfree api p st =
    (if p = 0 then st
     else if pools st = 0 then
       let st1 = initastate api dBLOCKS dPOOLS st in st1\<lparr>kmem := FreePages api (kmem st1) p\<rparr>
     else case free_in_pools p (all_pools st) False st of
       Inl st' \<Rightarrow> st'
     | Inr inPool \<Rightarrow> if inPool then st else st\<lparr>kmem := FreePages api (kmem st) p\<rparr>)"

definition mrealloc :: "page_api \<Rightarrow> u64 \<Rightarrow> u64 \<Rightarrow> kst \<Rightarrow> (u64 \<times> kst) option" where
  "mrealloc api p n st =
    (if p = 0 then mmalloc api n st
     else if n = 0 then Some (0, mfree api p st)
     else let originalsize = size_in_pools st p (all_pools st) in
       if originalsize \<noteq> 0 then do {
         (out, st1) \<leftarrow> mmalloc api n st;
         if out = 0 then Some (0, st1)
         else let (s', m') = memcpy (ksse st1) (kmem st1) out p (c_min originalsize n)
              in Some (out, mfree api p (st1\<lparr>ksse := s', kmem := m'\<rparr>)) }
       else Some (0, st))"

definition mclone :: "page_api \<Rightarrow> u64 \<Rightarrow> kst \<Rightarrow> (u64 \<times> kst) option" where
  "mclone api original st =
    (let size = size_in_pools st original (all_pools st) in
     if size \<noteq> 0 then do {
       (out, st1) \<leftarrow> mmalloczero api size st;
       if out = 0 then Some (0, st1)
       else let (s', m') = memcpy (ksse st1) (kmem st1) out original size in Some (out, st1\<lparr>ksse := s', kmem := m'\<rparr>) }
     else Some (0, st))"

definition mclone_s :: "page_api \<Rightarrow> u64 \<Rightarrow> u64 \<Rightarrow> kst \<Rightarrow> (u64 \<times> kst) option" where
  "mclone_s api original target st =
    (let size = size_in_pools st original (all_pools st) in do {
       (out, st1) \<leftarrow> mmalloczero api target st;
       if out = 0 then Some (0, st1)
       else let (s', m') = memcpy (ksse st1) (kmem st1) out original (if size \<noteq> 0 then c_min size target else target)
            in Some (out, st1\<lparr>ksse := s', kmem := m'\<rparr>) })"

definition mIsMapped :: "(u64 \<Rightarrow> bool) \<Rightarrow> u64 \<Rightarrow> kst \<Rightarrow> bool" where
  "mIsMapped mapped p st = (list_ex (\<lambda>cc. covering (kmem st) (pool_at st cc) p \<noteq> None) (all_pools st) \<or> mapped p)"

record ml_t =
  ml_pool :: u32
  ml_free :: bool
  ml_mdesc :: memdesc_t
  ml_ptr :: u64

definition ml_zero :: ml_t where
  "ml_zero = \<lparr>ml_pool = 0, ml_free = False, ml_mdesc = \<lparr>md_ptr = 0, md_nbytes = 0, md_flags = 0, md_next = 0\<rparr>, ml_ptr = 0\<rparr>"

fun info_in_pools :: "kst \<Rightarrow> u64 \<Rightarrow> nat list \<Rightarrow> ml_t" where
  "info_in_pools st p [] = ml_zero"
| "info_in_pools st p (cc # ccs) =
    (let m = kmem st; mp = pool_at st cc; md = getdescarrn m mp in
     case covering m mp p of
       Some k \<Rightarrow> ml_zero\<lparr>ml_pool := of_nat cc, ml_free := \<not> flag_check (d_flags m (desc_at md k)) memdesc_e__used,
                         ml_mdesc := read_desc m (desc_at md k)\<rparr>
     | None \<Rightarrow> info_in_pools st p ccs)"

definition descinfo :: "page_api \<Rightarrow> u64 \<Rightarrow> kst \<Rightarrow> ml_t \<times> kst" where
  "descinfo api p st =
    (if pools st = 0 then (ml_zero, initastate api dBLOCKS dPOOLS st)
     else (info_in_pools st p (all_pools st), st))"

section \<open>Reading what was written\<close>

named_theorems heap_simps \<open>field reads over field writes\<close>

lemma read_write_u64 [simp]: "read_u64 (write_u64 a v m) a = v"
  using read_write_bytes [of "le_bytes 8 (unat v)" m a] unat_u64_less [of v]
  by (simp add: read_u64_def write_u64_def le_nat_le_bytes)

lemma read_write_u32 [simp]: "read_u32 (write_u32 a v m) a = v"
  using read_write_bytes [of "le_bytes 4 (unat v)" m a] unsigned_less [of v, where 'a = nat]
  by (simp add: read_u32_def write_u32_def le_nat_le_bytes)

lemma write_read_u32: "write_u32 a (read_u32 m a) m = m"
proof (rule ext)
  fix x
  have "le_nat (read_bytes m a 4) < 2 ^ 32" using le_nat_less [of "read_bytes m a 4"] by simp
  then have "le_bytes 4 (unat (read_u32 m a)) = read_bytes m a 4"
    using le_bytes_le_nat [of "read_bytes m a 4"] by (simp add: read_u32_def unat_of_nat)
  then show "write_u32 a (read_u32 m a) m x = m x"
    by (simp add: write_u32_def write_bytes_nth)
qed

text \<open>Disjointness of fields that lie at offsets from a common base.\<close>

lemma disjoint_offsets:
  assumes "x + j \<le> y \<or> y + k \<le> x" and "x + j \<le> 2 ^ 64" and "y + k \<le> 2 ^ 64"
  shows "disjoint_regions (b + of_nat x) j (b + of_nat y) k"
  unfolding disjoint_regions_def
proof (intro allI impI notI)
  fix i l assume il: "i < j" "l < k" and eq: "b + of_nat x + of_nat i = b + of_nat y + (of_nat l :: u64)"
  then have "(of_nat (x + i) :: u64) = of_nat (y + l)" by (simp add: add.assoc)
  then have "x + i = y + l" using il assms(2,3) by (intro unat_offset_inject) simp_all
  with il assms(1) show False by linarith
qed

lemma disjoint_unat:
  assumes "unat a + j \<le> unat b \<and> unat b + k \<le> 2 ^ 64 \<or> unat b + k \<le> unat a \<and> unat a + j \<le> 2 ^ 64"
  shows "disjoint_regions a j b k"
  using disjoint_offsets [of "unat a" j "unat b" k 0] assms by auto

lemma disjoint_sym: "disjoint_regions a j b k \<Longrightarrow> disjoint_regions b k a j"
  unfolding disjoint_regions_def by metis

lemma frame_u64_u64 [heap_simps]: "disjoint_regions a 8 b 8 \<Longrightarrow> read_u64 (write_u64 a v m) b = read_u64 m b"
  and frame_u32_u64 [heap_simps]: "disjoint_regions a 4 b 8 \<Longrightarrow> read_u64 (write_u32 a w m) b = read_u64 m b"
  and frame_u64_u32 [heap_simps]: "disjoint_regions a 8 b 4 \<Longrightarrow> read_u32 (write_u64 a v m) b = read_u32 m b"
  and frame_u32_u32 [heap_simps]: "disjoint_regions a 4 b 4 \<Longrightarrow> read_u32 (write_u32 a w m) b = read_u32 m b"
  using read_bytes_frame [of "le_bytes 8 (unat v)" a b] read_bytes_frame [of "le_bytes 4 (unat w)" a b]
  by (simp_all add: read_u64_def read_u32_def write_u64_def write_u32_def)

lemma write_desc_frame:
  assumes "disjoint_regions d 32 b k" and "k = 8 \<or> k = 4"
  shows "k = 8 \<Longrightarrow> read_u64 (write_desc d v m) b = read_u64 m b"
    and "k = 4 \<Longrightarrow> read_u32 (write_desc d v m) b = read_u32 m b"
proof -
  have sub: "disjoint_regions (d + of_nat off) n b k" if "off + n \<le> 32" for off n
    using disjoint_regions_sub [OF disjoint_sym [OF assms(1)], of k off n] that by (simp add: disjoint_sym)
  from sub [of 0 8] sub [of 8 8] sub [of 16 4] sub [of 24 8]
  show "k = 8 \<Longrightarrow> read_u64 (write_desc d v m) b = read_u64 m b"
    and "k = 4 \<Longrightarrow> read_u32 (write_desc d v m) b = read_u32 m b"
    by (simp_all add: write_desc_def heap_simps)
qed

lemma read_write_desc: "read_desc (write_desc d v m) d = v"
proof -
  have "disjoint_regions (d + of_nat x) j (d + of_nat y) k"
    if "x + j \<le> y \<or> y + k \<le> x" "x + j \<le> 32" "y + k \<le> 32" for x j y k
    using disjoint_offsets [of x j y k d] that by simp
  from this [of 24 8 16 4] this [of 24 8 8 8] this [of 24 8 0 8] this [of 16 4 8 8] this [of 16 4 0 8] this [of 8 8 0 8]
  show ?thesis
    by (simp add: read_desc_def write_desc_def d_ptr_def d_nbytes_def d_flags_def d_next_def heap_simps)
qed

lemma read_zero: "read_u64 (\<lambda>a. 0) p = 0" "read_u32 (\<lambda>a. 0) p = 0"
  by (simp_all add: read_u64_def read_u32_def read_bytes_def numeral_eq_Suc)

section \<open>Allocating twice\<close>

lemma pool_scan_first:
  assumes "0 < unat (npools st)" and "pool_step ps (pool_at st 0) n st = Some (Return p, st')"
  shows "pool_scan ps n [0..<unat (npools st)] st = Some (Return p, st')"
  using assms by (simp add: upt_conv_Cons)

lemma mmalloc_first_pool:
  assumes "n \<noteq> 0" and "pools st \<noteq> 0" and "0 < unat (npools st)"
    and "pool_step (page_source.truncate api) (pool_at st 0) (c_roundup n allocALIGN) st = Some (Return p, st')"
  shows "mmalloc api n st = Some (p, st')"
  using assms pool_scan_first [OF assms(3,4)] by (subst mmalloc.simps) (simp add: Let_def)

text \<open>The heap hands out the same block again and again.  Marking a block as used is an
  \<open>&=\<close> on its flags, which cannot raise the bit, so an allocation of a size for which a free
  descriptor exists returns its address and leaves the whole state as it was.\<close>

theorem mmalloc_returns_block_again:
  assumes "n \<noteq> 0" and "pools st \<noteq> 0" and "0 < unat (npools st)"
    and "totalNAllocations st mod DefaultFixMemFrequency \<noteq> 0"
    and "querydescu (kmem st) (pool_at st 0) (c_roundup n allocALIGN) = Some md" and "d_flags (kmem st) md = 0"
  shows "mmalloc api n st = Some (d_ptr (kmem st) md, st)"
proof -
  have "mark_used md (kmem st) = kmem st"
    using assms(6) write_read_u32 [of "md + 16" "kmem st"] by (simp add: mark_used_def d_flags_def flag_set_def)
  then show ?thesis
    using assms by (intro mmalloc_first_pool) (simp_all add: pool_step_def Let_def)
qed

definition one_block :: kst where
  "one_block = \<lparr>kmem = write_u64 0x1000 0x10000 (write_u64 0x1008 1 (write_u64 0x1010 1
       (write_u64 0x10FE0 0x10000 (write_u64 0x10FE8 64 (\<lambda>a. 0))))),
     ksse = sse_boot, pools = 0x1000, npools = 1, totalNAllocations = 1\<rparr>"

definition no_pages :: page_api where
  "no_pages = \<lparr>AllocatePages = \<lambda>m n. (0, m), FreePages = \<lambda>m p. m, ReallocatePages = \<lambda>m p n. (0, m),
     AllocateAligned = \<lambda>m n a. (0, m)\<rparr>"

lemma one_block_fields:
  "p_base (kmem one_block) 0x1000 = 0x10000" "p_nblocks (kmem one_block) 0x1000 = 1" "p_nDescriptors (kmem one_block) 0x1000 = 1"
  "getdescarrn (kmem one_block) 0x1000 = 0x10FE0" "d_ptr (kmem one_block) 0x10FE0 = 0x10000"
  "d_nbytes (kmem one_block) 0x10FE0 = 64" "d_flags (kmem one_block) 0x10FE0 = 0" "d_next (kmem one_block) 0x10FE0 = 0"
  "down_from (p_nDescriptors (kmem one_block) 0x1000) = [0]"
proof -
  note one = one_block_def heap_simps disjoint_unat read_zero
  show "p_base (kmem one_block) 0x1000 = 0x10000" "p_nblocks (kmem one_block) 0x1000 = 1"
    "p_nDescriptors (kmem one_block) 0x1000 = 1" "d_ptr (kmem one_block) 0x10FE0 = 0x10000"
    "d_nbytes (kmem one_block) 0x10FE0 = 64" "d_flags (kmem one_block) 0x10FE0 = 0" "d_next (kmem one_block) 0x10FE0 = 0"
    by (simp_all add: p_base_def p_nblocks_def p_nDescriptors_def d_ptr_def d_nbytes_def d_flags_def d_next_def one)
  then show "getdescarrn (kmem one_block) 0x1000 = 0x10FE0" "down_from (p_nDescriptors (kmem one_block) 0x1000) = [0]"
    by (simp_all add: getdescarrn_def getdescarrtrue_def BLOCKSIZE_def down_from_def)
qed

theorem mmalloc_returns_block_again_witness: "mmalloc no_pages 60 one_block = Some (0x10000, one_block)"
proof -
  have "c_roundup 60 allocALIGN = 64" "pool_at one_block 0 = 0x1000"
    by (simp_all add: c_roundup_def allocALIGN_def pool_at_def one_block_def)
  then have "querydescu (kmem one_block) (pool_at one_block 0) (c_roundup 60 allocALIGN) = Some 0x10FE0"
    using one_block_fields by (simp add: querydescu_def Let_def desc_at_def flag_check_def memdesc_e__used_def)
  moreover have "pools one_block \<noteq> 0" "0 < unat (npools one_block)"
    "totalNAllocations one_block mod DefaultFixMemFrequency \<noteq> 0"
    by (simp_all add: one_block_def DefaultFixMemFrequency_def)
  ultimately show ?thesis
    using one_block_fields mmalloc_returns_block_again [of 60 one_block "0x10FE0" no_pages] by simp
qed

section \<open>The descriptor table\<close>

lemma disjoint_parts:
  assumes "disjoint_regions a j b k" and "x + j' \<le> j" and "y + k' \<le> k"
  shows "disjoint_regions (a + of_nat x) j' (b + of_nat y) k'"
  using disjoint_regions_sub [OF disjoint_sym [OF disjoint_regions_sub [OF assms(1) order_refl assms(3)]] order_refl assms(2)]
  by (rule disjoint_sym)

text \<open>A heap allocation from an empty pool returns: if the pool has room and the bytes behind its
  end read as an unused descriptor, \<open>mmalloc\<close> yields the aligned base of the pool, and a descriptor
  for the block, with its size and no successor, lies at the end of the pool.\<close>

theorem mmalloc_empty_pool:
  fixes st :: kst and n :: u64
  defines "m \<equiv> kmem st" and "mp \<equiv> pool_at st 0" and "nb \<equiv> c_roundup (c_roundup n allocALIGN) allocALIGN"
  defines "B \<equiv> p_base m mp" and "E \<equiv> getdescarrtrue m mp"
  assumes "n \<noteq> 0" and "pools st \<noteq> 0" and "0 < unat (npools st)" and "p_nDescriptors m mp = 0"
    and "nb + 32 \<le> p_nblocks m mp * BLOCKSIZE" and "d_next m E = 0" and "\<not> (B \<le> d_ptr m E \<and> d_ptr m E < E)"
    and "E \<noteq> 32" and apart: "disjoint_regions mp 24 (E - 32) 64"
  shows "\<exists>st'. mmalloc api n st = Some (c_roundup B allocALIGN, st') \<and> p_nDescriptors (kmem st') mp = 1
    \<and> read_desc (kmem st') (E - 32) = \<lparr>md_ptr = c_roundup B allocALIGN, md_nbytes = nb, md_flags = 0, md_next = 0\<rparr>"
proof -
  define m1 where "m1 = write_u64 (mp + 16) 1 m"
  define v where "v = \<lparr>md_ptr = c_roundup B allocALIGN, md_nbytes = nb, md_flags = 0, md_next = 0\<rparr>"
  note ap = disjoint_parts [OF apart, where x = 16 and j' = 8]
  have f: "read_u64 m1 (E + 24) = read_u64 m (E + 24)" "read_u64 m1 E = read_u64 m E"
    using ap [of 56 8] ap [of 32 8] by (simp_all add: m1_def heap_simps add.commute [of 24])
  have o: "disjoint_regions (mp + of_nat 16) 8 (mp + of_nat x) 8" if "x = 0 \<or> x = 8" for x
    using that by (intro disjoint_offsets) auto
  have b: "p_base m1 mp = B" "p_nblocks m1 mp = p_nblocks m mp"
    using o [of 0] o [of 8] by (simp_all add: m1_def B_def p_base_def p_nblocks_def heap_simps)
  have tip: "chaintip m1 E = Some E" using assms(11) f by (subst chaintip.simps) (simp add: d_next_def)
  have E: "getdescarrn m mp = E" "B + p_nblocks m mp * BLOCKSIZE = E"
    using assms(9) by (simp_all add: getdescarrn_def E_def getdescarrtrue_def B_def)
  define st2 where "st2 = st\<lparr>kmem := write_desc (E - 32) v m1, totalNAllocations := totalNAllocations st + 1\<rparr>"
  have "memusedsize m mp = 0" using assms(9) by (simp add: memusedsize_def down_from_def)
  then have al: "allocatedesc mp (c_roundup n allocALIGN) st = Some (E - 32, st2)"
    using assms(9,10,12) E tip b f
    by (auto simp: allocatedesc_def Let_def m_def [symmetric] m1_def [symmetric] nb_def [symmetric] st2_def v_def d_ptr_def)
  have st: "(if c then fixmdarray ps mp (mp + 16) st else st) = st" for c ps
    using assms(9) by (simp add: fixmdarray_def p_nDescriptors_def m_def Let_def)
  have q: "querydescu m mp k = None" "desc_scan ps mp md k (down_from (p_nDescriptors m mp)) st = Some (Continue, st)" for ps md k
    using assms(9) by (simp_all add: querydescu_def down_from_def Let_def)
  define d where "d = E - 32"
  define m3 where "m3 = mark_used d (kmem st2)"
  have rd: "read_desc (kmem st2) d = v" by (simp add: st2_def d_def read_write_desc)
  then have "m3 = kmem st2"
    using write_read_u32 [of "d + 16" "kmem st2"] by (simp add: m3_def mark_used_def read_desc_def v_def d_flags_def flag_set_def)
  then have "pool_step ps mp (c_roundup n allocALIGN) st = Some (Return (c_roundup B allocALIGN), st2)" for ps
    using al q rd assms(13) m3_def unfolding pool_step_def st Let_def
    by (simp add: m_def [symmetric] d_def read_desc_def v_def E)
  then have "mmalloc api n st = Some (c_roundup B allocALIGN, st2)"
    using assms(6-8) by (intro mmalloc_first_pool) (simp_all add: mp_def)
  moreover have "p_nDescriptors (kmem st2) mp = 1"
    using write_desc_frame(1) [of "E - 32" "mp + of_nat 16" 8 v m1]
      disjoint_parts [OF disjoint_sym [OF apart], where x = 0 and j' = 32 and y = 16 and k' = 8]
    by (simp add: st2_def p_nDescriptors_def m1_def)
  ultimately show ?thesis using rd by (auto simp: d_def v_def)
qed

definition empty_pool :: kst where
  "empty_pool = \<lparr>kmem = write_u64 0x1000 0x10000 (write_u64 0x1008 1 (\<lambda>a. 0)),
     ksse = sse_boot, pools = 0x1000, npools = 1, totalNAllocations = 0\<rparr>"

theorem mmalloc_empty_pool_witness: "\<exists>st'. mmalloc no_pages 60 empty_pool = Some (0x10000, st')"
proof -
  note ep = empty_pool_def heap_simps disjoint_unat read_zero
  have "p_base (kmem empty_pool) 0x1000 = 0x10000" "p_nblocks (kmem empty_pool) 0x1000 = 1"
    "p_nDescriptors (kmem empty_pool) 0x1000 = 0" "d_next (kmem empty_pool) 0x11000 = 0" "d_ptr (kmem empty_pool) 0x11000 = 0"
    by (simp_all add: p_base_def p_nblocks_def p_nDescriptors_def d_next_def d_ptr_def ep)
  moreover have "c_roundup 60 allocALIGN = 64" "c_roundup 64 allocALIGN = 64" "c_roundup 0x10000 allocALIGN = 0x10000"
    "pool_at empty_pool 0 = 0x1000"
    "pools empty_pool \<noteq> 0" "0 < unat (npools empty_pool)"
    by (simp_all add: c_roundup_def allocALIGN_def pool_at_def empty_pool_def)
  ultimately show ?thesis
    using mmalloc_empty_pool [of 60 empty_pool no_pages] by (auto simp: getdescarrtrue_def BLOCKSIZE_def disjoint_unat)
qed

text \<open>The table of a pool as a list of descriptors.\<close>

definition desc_table :: "memory \<Rightarrow> u64 \<Rightarrow> memdesc_t list" where
  "desc_table m mp = map (\<lambda>i. read_desc m (desc_at (getdescarrn m mp) i)) [0..<unat (p_nDescriptors m mp)]"

lemma read_desc_frame:
  assumes "disjoint_regions d 32 b 32"
  shows "read_desc (write_desc d v m) b = read_desc m b"
proof -
  note dp = disjoint_parts [OF assms, where x = 0 and j' = 32]
  have "disjoint_regions d 32 b 8" "disjoint_regions d 32 (b + 8) 8" "disjoint_regions d 32 (b + 16) 4"
    "disjoint_regions d 32 (b + 24) 8"
    using dp [of 0 8] dp [of 8 8] dp [of 16 4] dp [of 24 8] by simp_all
  then show ?thesis
    by (simp add: read_desc_def d_ptr_def d_nbytes_def d_flags_def d_next_def write_desc_frame)
qed

lemma read_desc_write_next:
  "read_desc (write_u64 (d + 24) x m) d = (read_desc m d)\<lparr>md_next := x\<rparr>"
proof -
  have o: "disjoint_regions (d + of_nat 24) 8 (d + of_nat y) k" if "y + k \<le> 24" for y k
    using that by (intro disjoint_offsets) auto
  then show ?thesis
    using o [of 0 8] o [of 8 8] o [of 16 4]
    by (simp add: read_desc_def d_ptr_def d_nbytes_def d_flags_def d_next_def heap_simps)
qed

lemma read_desc_write_other:
  assumes "disjoint_regions a 8 d 32"
  shows "read_desc (write_u64 a x m) d = read_desc m d"
proof -
  note dp = disjoint_parts [OF assms, where x = 0 and j' = 8]
  show ?thesis
    using dp [of 0 8] dp [of 8 8] dp [of 16 4] dp [of 24 8]
    by (simp add: read_desc_def d_ptr_def d_nbytes_def d_flags_def d_next_def heap_simps)
qed

lemma desc_table_push:
  assumes "p_base m' mp = p_base m mp" and "p_nblocks m' mp = p_nblocks m mp"
    and "p_nDescriptors m' mp = p_nDescriptors m mp + 1" and "unat (p_nDescriptors m mp) + 1 < 2 ^ 64"
    and "read_desc m' (getdescarrn m mp - 32) = v" and "length T = unat (p_nDescriptors m mp)"
    and "\<And>i. i < unat (p_nDescriptors m mp) \<Longrightarrow> read_desc m' (desc_at (getdescarrn m mp) i) = T ! i"
  shows "desc_table m' mp = v # T"
proof -
  let ?md = "getdescarrn m mp - 32"
  have "unat (p_nDescriptors m mp + 1) = Suc (length T)" using assms(4,6) by (simp add: unat_add_small)
  then have "getdescarrn m' mp = ?md" "unat (p_nDescriptors m' mp) = Suc (length T)"
    using assms(1-3) by (simp_all add: getdescarrn_def getdescarrtrue_def algebra_simps)
  moreover have "desc_at ?md (Suc i) = desc_at (getdescarrn m mp) i" for i by (simp add: desc_at_def algebra_simps)
  ultimately show ?thesis using assms(5-7)
    by (intro nth_equalityI) (auto simp: desc_table_def nth_Cons' less_Suc_eq_0_disj desc_at_def simp del: upt_Suc)
qed

text \<open>
  The three writes of a push, to the counter, to the link of entry \<open>t\<close> and to the slot in front
  of the table, leave the pool's place and size and the other entries alone.
\<close>

lemma push_memory:
  fixes m :: memory and mp :: u64 and t :: nat and v :: memdesc_t
  defines "D \<equiv> unat (p_nDescriptors m mp)" and "md \<equiv> getdescarrn m mp - 32"
  defines "slot \<equiv> \<lambda>i. desc_at (getdescarrn m mp) i"
  defines "m1 \<equiv> write_u64 (mp + 16) (p_nDescriptors m mp + 1) m"
  defines "m2 \<equiv> write_u64 (slot t + 24) md m1"
  defines "m3 \<equiv> write_desc md v m2"
  assumes "32 * (D + 1) < 2 ^ 63" and "t < D" and apart: "disjoint_regions mp 24 md (32 * (D + 1))"
  shows "k \<in> {m1, m2, m3} \<Longrightarrow> p_base k mp = p_base m mp" "k \<in> {m1, m2, m3} \<Longrightarrow> p_nblocks k mp = p_nblocks m mp"
    "k \<in> {m1, m2, m3} \<Longrightarrow> p_nDescriptors k mp = p_nDescriptors m mp + 1"
    "k \<in> {m2, m3} \<Longrightarrow> i < D \<Longrightarrow>
       read_desc k (slot i) = (if i = t then (read_desc m (slot t))\<lparr>md_next := md\<rparr> else read_desc m (slot i))"
proof -
  have slot: "slot i = md + of_nat (32 * (i + 1))" for i by (simp add: slot_def md_def desc_at_def algebra_simps)
  note ap = disjoint_parts [OF apart]
  have dd: "disjoint_regions (md + of_nat x) j (md + of_nat y) k"
    if "x + j \<le> y \<or> y + k \<le> x" "x + j \<le> 32 * (D + 1)" "y + k \<le> 32 * (D + 1)" for x j y k
    using that assms(7) by (intro disjoint_offsets) auto
  have pm: "read_u64 m3 (mp + of_nat y) = read_u64 m1 (mp + of_nat y)" "read_u64 m2 (mp + of_nat y) = read_u64 m1 (mp + of_nat y)"
    if "y + 8 \<le> 24" for y
  proof -
    have "disjoint_regions (slot t + 24) 8 (mp + of_nat y) 8"
      using ap [of y 8 "32 * (t + 1) + 24" 8] that assms(8) by - (rule disjoint_sym, simp add: slot add.assoc)
    moreover have "disjoint_regions md 32 (mp + of_nat y) 8" using ap [of y 8 0 32] that by - (rule disjoint_sym, simp)
    ultimately show "read_u64 m3 (mp + of_nat y) = read_u64 m1 (mp + of_nat y)" "read_u64 m2 (mp + of_nat y) = read_u64 m1 (mp + of_nat y)"
      by (simp_all add: m3_def m2_def heap_simps write_desc_frame)
  qed
  have p1: "read_u64 m1 (mp + of_nat y) = read_u64 m (mp + of_nat y)" if "y = 0 \<or> y = 8" for y
    using that disjoint_offsets [of 16 8 y 8 mp] by (auto simp: m1_def heap_simps)
  have c: "read_u64 m1 (mp + 16) = read_u64 m (mp + 16) + 1" by (simp add: m1_def p_nDescriptors_def)
  show "k \<in> {m1, m2, m3} \<Longrightarrow> p_base k mp = p_base m mp" "k \<in> {m1, m2, m3} \<Longrightarrow> p_nblocks k mp = p_nblocks m mp"
    "k \<in> {m1, m2, m3} \<Longrightarrow> p_nDescriptors k mp = p_nDescriptors m mp + 1"
    using pm [of 0] pm [of 8] pm [of 16] p1 [of 0] p1 [of 8] c by (auto simp: p_base_def p_nblocks_def p_nDescriptors_def)
  assume k: "k \<in> {m2, m3}" and i: "i < D"
  have r1: "read_desc m1 (slot i) = read_desc m (slot i)"
    using ap [of 16 8 "32 * (i + 1)" 32] i by (simp add: m1_def slot read_desc_write_other)
  have "disjoint_regions (slot t + 24) 8 (slot i) 32" if "i \<noteq> t"
  proof -
    have "32 + 32 * t \<le> 32 * i \<or> 8 + 32 * i \<le> 32 * t" using that by linarith
    then show ?thesis using dd [of "32 * (t + 1) + 24" 8 "32 * (i + 1)" 32] i assms(8) by (simp add: slot add.assoc)
  qed
  then have "read_desc m2 (slot i) = (if i = t then (read_desc m (slot t))\<lparr>md_next := md\<rparr> else read_desc m (slot i))"
    using r1 by (auto simp: m2_def read_desc_write_next read_desc_write_other)
  moreover have "read_desc m3 (slot i) = read_desc m2 (slot i)"
    using dd [of 0 32 "32 * (i + 1)" 32] i by (simp add: m3_def slot read_desc_frame)
  ultimately show "read_desc k (slot i) = (if i = t then (read_desc m (slot t))\<lparr>md_next := md\<rparr> else read_desc m (slot i))"
    using k by auto
qed

text \<open>C35: a new descriptor is a push on the table: when the chain of a non-empty table ends in one of
  its own entries and that block lies in the pool, \<open>allocatedesc\<close> puts a descriptor in front of
  the table, for the rounded size and right behind the last block, links the end of the chain to
  it and leaves every other entry as it was.\<close>

theorem allocatedesc_pushes:
  fixes st :: kst and n mp :: u64
  defines "m \<equiv> kmem st" and "nb \<equiv> c_roundup n allocALIGN" and "T \<equiv> desc_table (kmem st) mp"
  defines "E \<equiv> getdescarrtrue m mp" and "D \<equiv> unat (p_nDescriptors m mp)" and "md \<equiv> getdescarrn (kmem st) mp - 32"
  assumes "memusedsize m mp + nb + 32 \<le> p_nblocks m mp * BLOCKSIZE"
    and "32 * (D + 1) < 2 ^ 63" and apart: "disjoint_regions mp 24 md (32 * (D + 1))"
    and "t < D" and "chaintip (write_u64 (mp + 16) (p_nDescriptors m mp + 1) m) (getdescarrn m mp)
         = Some (desc_at (getdescarrn m mp) t)"
    and "p_base m mp \<le> md_ptr (T ! t)" and "md_ptr (T ! t) < E"
  shows "\<exists>st'. allocatedesc mp n st = Some (md, st')
    \<and> desc_table (kmem st') mp
      = \<lparr>md_ptr = c_roundup (md_ptr (T ! t) + md_nbytes (T ! t)) allocALIGN, md_nbytes = nb, md_flags = 0, md_next = 0\<rparr>
        # T[t := (T ! t)\<lparr>md_next := md\<rparr>]"
proof -
  let ?slot = "\<lambda>i. desc_at (getdescarrn m mp) i"
  define v where "v = \<lparr>md_ptr = c_roundup (md_ptr (T ! t) + md_nbytes (T ! t)) allocALIGN, md_nbytes = nb, md_flags = 0, md_next = 0\<rparr>"
  define m1 where "m1 = write_u64 (mp + 16) (p_nDescriptors m mp + 1) m"
  define m2 where "m2 = write_u64 (?slot t + 24) md m1"
  define m3 where "m3 = write_desc md v m2"
  have md: "md = getdescarrn m mp - 32" by (simp add: md_def m_def)
  note push = push_memory [where m = m and mp = mp and t = t and v = v, folded D_def, folded md, folded m1_def, folded m2_def, folded m3_def,
      OF assms(8,10) apart]
  have T: "T ! i = read_desc m (?slot i)" if "i < D" for i
    using that by (simp add: T_def desc_table_def m_def [symmetric] D_def [symmetric])
  have len: "length T = D" by (simp add: T_def desc_table_def D_def m_def)
  have "md_ptr (read_desc m2 (?slot t)) = md_ptr (T ! t)" "md_nbytes (read_desc m2 (?slot t)) = md_nbytes (T ! t)"
    using push(4) [of m2 t] T assms(10) by simp_all
  then have tt: "d_ptr m2 (?slot t) = md_ptr (T ! t)" "d_nbytes m2 (?slot t) = md_nbytes (T ! t)"
    by (simp_all add: read_desc_def)
  have ne: "?slot t \<noteq> E"
  proof
    assume "?slot t = E"
    then have "of_nat (32 * t) = (of_nat (32 * D) :: u64)"
      by (simp add: E_def desc_at_def getdescarrn_def D_def algebra_simps)
    then have "32 * t = 32 * D" using assms(8,10) by (intro unat_offset_inject) simp_all
    with assms(10) show False by simp
  qed
  have "allocatedesc mp n st = Some (md, st\<lparr>kmem := m3, totalNAllocations := totalNAllocations st + 1\<rparr>)"
    using assms(7,11-13) ne tt push(1) [of m1] push(2) [of m1] push(1) [of m2] push(2) [of m2]
    unfolding allocatedesc_def Let_def m_def [symmetric] nb_def [symmetric] m1_def [symmetric] md [symmetric]
      E_def getdescarrtrue_def
    by (simp add: m2_def [symmetric] m3_def v_def)
  moreover have "desc_table m3 mp = v # T[t := (T ! t)\<lparr>md_next := md\<rparr>]"
    using push [of m3] assms(8,10) T len
    by (intro desc_table_push [of m3 mp m]) (auto simp: D_def nth_list_update m3_def md read_write_desc)
  ultimately show ?thesis by (auto simp: v_def)
qed

theorem allocatedesc_pushes_witness:
  "\<exists>st'. allocatedesc 0x1000 100 one_block = Some (0x10FC0, st')
     \<and> length (desc_table (kmem st') 0x1000) = 2"
proof -
  note f = one_block_fields
  have "desc_table (kmem one_block) 0x1000 = [\<lparr>md_ptr = 0x10000, md_nbytes = 64, md_flags = 0, md_next = 0\<rparr>]"
    using f by (simp add: desc_table_def desc_at_def read_desc_def)
  moreover have "memusedsize (kmem one_block) 0x1000 = 64" using f by (simp add: memusedsize_def desc_at_def)
  moreover have "chaintip (write_u64 (0x1000 + 16) 2 (kmem one_block)) 0x10FE0 = Some 0x10FE0"
    using f(8) by (subst chaintip.simps) (simp add: d_next_def heap_simps disjoint_unat)
  ultimately show ?thesis
    using allocatedesc_pushes [of one_block "0x1000" 100 0] f
    by (auto simp: desc_at_def getdescarrtrue_def BLOCKSIZE_def c_roundup_def allocALIGN_def disjoint_unat)
qed

end
