(* ===== verification/Kernel_Interrupts.thy ===== *)
theory Kernel_Interrupts
  imports Kernel_Malloc
begin

text \<open>
  Segment and interrupt descriptors of \<^verbatim>\<open>kernel/libcrt/hardware/GDT\<close> and \<^verbatim>\<open>IDT\<close>, the table of
  interrupt callbacks and the operations that install and remove a callback.  Descriptors are
  records of their bit-fields with their images in memory.  The descriptor-table registers as
  \<open>ReadGDTR\<close> and \<open>ReadIDTR\<close> deliver them, the address translations, the zeroing allocator and the
  base of the local APIC are arguments.
\<close>

section \<open>Segment descriptors\<close>

record GDTR64 =
  Limit :: u16
  Base :: u64

record GDTDescriptor =
  LimitLow :: "16 word"
  BaseLow :: "24 word"
  ABAccessedBit :: bool
  ABReadWritableBit :: bool
  ABDirectionBit :: bool
  ABExecutableBit :: bool
  ABSystemSegmentBit :: bool
  ABPriviledgeLevel :: "2 word"
  ABPresent :: bool
  LimitHigh :: "4 word"
  FAvailable :: bool
  FLongModeBit :: bool
  F32BitModeBit :: bool
  FGranularity :: bool
  BaseHigh :: "8 word"

definition encode_gdt :: "GDTDescriptor \<Rightarrow> u64" where
  [layout_defs]: "encode_gdt d =
    field_at 0 (LimitLow d) OR field_at 16 (BaseLow d) OR flag_at 40 (ABAccessedBit d) OR flag_at 41 (ABReadWritableBit d)
    OR flag_at 42 (ABDirectionBit d) OR flag_at 43 (ABExecutableBit d) OR flag_at 44 (ABSystemSegmentBit d)
    OR field_at 45 (ABPriviledgeLevel d) OR flag_at 47 (ABPresent d) OR field_at 48 (LimitHigh d)
    OR flag_at 52 (FAvailable d) OR flag_at 53 (FLongModeBit d) OR flag_at 54 (F32BitModeBit d)
    OR flag_at 55 (FGranularity d) OR field_at 56 (BaseHigh d)"

definition decode_gdt :: "u64 \<Rightarrow> GDTDescriptor" where
  [layout_defs]: "decode_gdt w =
    \<lparr>LimitLow = ucast (drop_bit 0 w), BaseLow = ucast (drop_bit 16 w), ABAccessedBit = bit w 40, ABReadWritableBit = bit w 41,
     ABDirectionBit = bit w 42, ABExecutableBit = bit w 43, ABSystemSegmentBit = bit w 44,
     ABPriviledgeLevel = ucast (drop_bit 45 w), ABPresent = bit w 47, LimitHigh = ucast (drop_bit 48 w),
     FAvailable = bit w 52, FLongModeBit = bit w 53, F32BitModeBit = bit w 54, FGranularity = bit w 55,
     BaseHigh = ucast (drop_bit 56 w)\<rparr>"

text \<open>
  The 128-bit system descriptor: its packed 40-bit \<open>BaseHigh\<close> starts at bit 56, so that 8 bits of
  it lie in the low word and 32 in the high word.
\<close>

record GDTSystemSegmentDescriptor64 =
  S_LimitLow :: "16 word"
  S_BaseLow :: "24 word"
  S_ABType :: "4 word"
  S_ABSystemSegmentBit :: bool
  S_ABPriviledgeLevel :: "2 word"
  S_ABPresent :: bool
  S_LimitHigh :: "4 word"
  S_FAvailable :: bool
  S_FGranularity :: bool
  S_BaseHigh :: "40 word"

definition encode_sys_low :: "GDTSystemSegmentDescriptor64 \<Rightarrow> u64" where
  [layout_defs]: "encode_sys_low d =
    field_at 0 (S_LimitLow d) OR field_at 16 (S_BaseLow d) OR field_at 40 (S_ABType d) OR flag_at 44 (S_ABSystemSegmentBit d)
    OR field_at 45 (S_ABPriviledgeLevel d) OR flag_at 47 (S_ABPresent d) OR field_at 48 (S_LimitHigh d)
    OR flag_at 52 (S_FAvailable d) OR flag_at 55 (S_FGranularity d) OR field_at 56 (ucast (S_BaseHigh d) :: 8 word)"

definition encode_sys_high :: "GDTSystemSegmentDescriptor64 \<Rightarrow> u64" where
  [layout_defs]: "encode_sys_high d = ucast (drop_bit 8 (S_BaseHigh d))"

definition decode_sys :: "u64 \<Rightarrow> u64 \<Rightarrow> GDTSystemSegmentDescriptor64" where
  [layout_defs]: "decode_sys w h =
    \<lparr>S_LimitLow = ucast (drop_bit 0 w), S_BaseLow = ucast (drop_bit 16 w), S_ABType = ucast (drop_bit 40 w),
     S_ABSystemSegmentBit = bit w 44, S_ABPriviledgeLevel = ucast (drop_bit 45 w), S_ABPresent = bit w 47,
     S_LimitHigh = ucast (drop_bit 48 w), S_FAvailable = bit w 52, S_FGranularity = bit w 55,
     S_BaseHigh = ucast (drop_bit 56 w) OR push_bit 8 (ucast h)\<rparr>"

definition read_sys :: "memory \<Rightarrow> u64 \<Rightarrow> GDTSystemSegmentDescriptor64" where
  "read_sys m p = decode_sys (read_u64 m p) (read_u64 m (p + 8))"

definition write_sys :: "u64 \<Rightarrow> GDTSystemSegmentDescriptor64 \<Rightarrow> memory \<Rightarrow> memory" where
  "write_sys p d m = write_u64 (p + 8) (encode_sys_high d) (write_u64 p (encode_sys_low d) m)"

definition Granularity1Byte :: u8 where "Granularity1Byte = 0x0"
definition Granularity4KB :: u8 where "Granularity4KB = 0x1"
definition TSS64BitAvailable :: "4 word" where "TSS64BitAvailable = 0x9"

text \<open>
  Loading a table register moves the table to fresh pages and hands their physical address to the
  processor; reading one replaces the physical base by a virtual one.  The outside of these
  operations: the page allocator, the two address translations and the load instruction.  The result
  of a load is its verdict and the register that was passed.
\<close>

record table_env =
  t_alloc :: "u64 \<Rightarrow> memory \<Rightarrow> u64 \<times> memory"
  t_map_physical :: "u64 \<Rightarrow> u64"
  t_map_virtual :: "u64 \<Rightarrow> u64"
  t_load :: "GDTR64 \<Rightarrow> bool"

definition LoadGDTR :: "table_env \<Rightarrow> GDTR64 \<Rightarrow> sse_state \<Rightarrow> memory \<Rightarrow> (bool \<times> GDTR64) \<times> sse_state \<times> memory" where
  "LoadGDTR env R s m =
    (let (p, m1) = t_alloc env (ucast (Limit R)) m;
         (s', m2) = memcpy s m1 p (Base R) (ucast (Limit R));
         R' = R\<lparr>Base := t_map_physical env p\<rparr>
     in ((t_load env R', R'), s', m2))"

definition ReadGDTR :: "table_env \<Rightarrow> GDTR64 option \<Rightarrow> GDTR64 option" where
  "ReadGDTR env hw = map_option (\<lambda>R. R\<lparr>Base := t_map_virtual env (Base R)\<rparr>) hw"

definition LoadLDTR :: "table_env \<Rightarrow> GDTR64 \<Rightarrow> sse_state \<Rightarrow> memory \<Rightarrow> (bool \<times> GDTR64) \<times> sse_state \<times> memory" where
  "LoadLDTR env R s m =
    (let (p, m1) = t_alloc env (ucast (Limit R)) m;
         (s', m2) = memcpy s m1 p (Base R) (ucast (Limit R));
         R' = R\<lparr>Base := t_map_physical env p\<rparr>
     in ((t_load env R', R'), s', m2))"

definition ReadLDTR :: "table_env \<Rightarrow> GDTR64 option \<Rightarrow> GDTR64 option" where
  "ReadLDTR env hw = map_option (\<lambda>R. R\<lparr>Base := t_map_virtual env (Base R)\<rparr>) hw"

definition LoadIDTR :: "table_env \<Rightarrow> GDTR64 \<Rightarrow> sse_state \<Rightarrow> memory \<Rightarrow> (bool \<times> GDTR64) \<times> sse_state \<times> memory" where
  "LoadIDTR env R s m =
    (let (p, m1) = t_alloc env (ucast (Limit R)) m;
         (s', m2) = memcpy s m1 p (Base R) (ucast (Limit R));
         R' = R\<lparr>Base := t_map_physical env p\<rparr>
     in ((t_load env R', R'), s', m2))"

definition ReadIDTR :: "table_env \<Rightarrow> GDTR64 option \<Rightarrow> GDTR64 option" where
  "ReadIDTR env hw = map_option (\<lambda>R. R\<lparr>Base := t_map_virtual env (Base R)\<rparr>) hw"

definition system_descriptor :: "u64 \<Rightarrow> u32 \<Rightarrow> u8 \<Rightarrow> u8 \<Rightarrow> u8 \<Rightarrow> GDTSystemSegmentDescriptor64" where
  "system_descriptor PhysicalBase Lim Priviledge Type flgs =
    \<lparr>S_LimitLow = ucast (Lim AND 0xFFFF), S_BaseLow = ucast (PhysicalBase AND 0xFFFFFF), S_ABType = ucast Type,
     S_ABSystemSegmentBit = True, S_ABPriviledgeLevel = ucast Priviledge, S_ABPresent = True,
     S_LimitHigh = ucast (drop_bit 16 Lim AND 0xF), S_FAvailable = False,
     S_FGranularity = (flag_check flgs Granularity4KB \<and> \<not> flag_check flgs Granularity1Byte),
     S_BaseHigh = ucast (drop_bit 24 PhysicalBase AND 0xFFFFFFFFFF)\<rparr>"

text \<open>
  The search for a slot: an entry whose system bit is clear is taken when it is not present; after
  an entry whose system bit is set one entry is skipped.
\<close>

fun find_slot :: "memory \<Rightarrow> u64 \<Rightarrow> nat \<Rightarrow> nat \<Rightarrow> nat \<Rightarrow> nat option" where
  "find_slot m table n 0 cc = None"
| "find_slot m table n (Suc fuel) cc =
    (if cc < n then
       if \<not> ABSystemSegmentBit (decode_gdt (read_u64 m (table + of_nat cc * 8))) then
         if \<not> S_ABPresent (read_sys m (table + of_nat cc * 8)) then Some cc
         else find_slot m table n fuel (cc + 1)
       else find_slot m table n fuel (cc + 2)
     else None)"

text \<open>
  The result: whether a descriptor was placed, what the processor was asked to load when the table
  grew, and the memory.
\<close>

definition AllocateSystemDescriptor ::
  "table_env \<Rightarrow> GDTR64 option \<Rightarrow> u64 \<Rightarrow> u32 \<Rightarrow> u8 \<Rightarrow> u8 \<Rightarrow> u8 \<Rightarrow> sse_state \<Rightarrow> memory
    \<Rightarrow> bool \<times> GDTR64 option \<times> sse_state \<times> memory" where
  "AllocateSystemDescriptor env hw PhysicalBase Lim Priviledge Type flgs s m =
    (case ReadGDTR env hw of
       None \<Rightarrow> (False, None, s, m)
     | Some R \<Rightarrow>
         let n = unat (Limit R) div 8; d = system_descriptor PhysicalBase Lim Priviledge Type flgs in
         (case find_slot m (Base R) n (Suc n) 0 of
            Some cc \<Rightarrow> (True, None, s, write_sys (Base R + of_nat cc * 8) d m)
          | None \<Rightarrow>
              if 65535 \<ge> (unat (Limit R) + 1) * 16 then
                let m1 = write_sys (Base R + of_nat (unat (Limit R) div 16) * 16) d m;
                    ((ok, R'), s', m2) = LoadGDTR env (R\<lparr>Limit := Limit R + 16\<rparr>) s m1
                in (True, Some R', s', m2)
              else (False, None, s, m)))"

section \<open>Interrupt descriptors\<close>

record IDTEntrySegmentSelector64 =
  PriviledgeLevel :: "2 word"
  LocalDescriptor :: bool
  Segment :: "13 word"

record IDTEntry64 =
  OffsetLow :: "16 word"
  SegmentSelector :: "16 word"
  InterruptStackTableOffset :: "3 word"
  GateType :: "4 word"
  DescriptorPrivilegeLevel :: "2 word"
  PresentEntry :: bool
  OffsetMid :: "16 word"
  OffsetHigh :: "32 word"

definition encode_gate :: "IDTEntry64 \<Rightarrow> u64" where
  [layout_defs]: "encode_gate e =
    field_at 0 (OffsetLow e) OR field_at 16 (SegmentSelector e) OR field_at 32 (InterruptStackTableOffset e)
    OR field_at 40 (GateType e) OR field_at 45 (DescriptorPrivilegeLevel e) OR flag_at 47 (PresentEntry e)
    OR field_at 48 (OffsetMid e)"

definition decode_gate :: "u64 \<Rightarrow> u64 \<Rightarrow> IDTEntry64" where
  [layout_defs]: "decode_gate w h =
    \<lparr>OffsetLow = ucast (drop_bit 0 w), SegmentSelector = ucast (drop_bit 16 w),
     InterruptStackTableOffset = ucast (drop_bit 32 w), GateType = ucast (drop_bit 40 w),
     DescriptorPrivilegeLevel = ucast (drop_bit 45 w), PresentEntry = bit w 47, OffsetMid = ucast (drop_bit 48 w),
     OffsetHigh = ucast h\<rparr>"

definition read_gate :: "memory \<Rightarrow> u64 \<Rightarrow> IDTEntry64" where
  "read_gate m p = decode_gate (read_u64 m p) (read_u64 m (p + 8))"

definition write_gate :: "u64 \<Rightarrow> IDTEntry64 \<Rightarrow> memory \<Rightarrow> memory" where
  "write_gate p e m = write_u64 (p + 8) (ucast (OffsetHigh e)) (write_u64 p (encode_gate e) m)"

definition SetIDTe ::
  "u64 \<Rightarrow> u32 \<Rightarrow> u64 \<Rightarrow> IDTEntrySegmentSelector64 \<Rightarrow> u8 \<Rightarrow> u8 \<Rightarrow> bool \<Rightarrow> memory \<Rightarrow> memory" where
  "SetIDTe Table N hndlr sselector ist gatetype enable m =
    write_gate (Table + ucast N * 16)
      \<lparr>OffsetLow = ucast (hndlr AND 0xFFFF), SegmentSelector = ucast (Segment sselector),
       InterruptStackTableOffset = ucast ist, GateType = ucast gatetype,
       DescriptorPrivilegeLevel = PriviledgeLevel sselector, PresentEntry = enable,
       OffsetMid = ucast (drop_bit 16 hndlr AND 0xFFFF), OffsetHigh = ucast (drop_bit 32 hndlr AND 0xFFFFFFFF)\<rparr> m"

text \<open>The handler address the processor takes from a gate.\<close>

definition gate_handler :: "IDTEntry64 \<Rightarrow> u64" where
  "gate_handler e = field_at 0 (OffsetLow e) OR field_at 16 (OffsetMid e) OR field_at 32 (OffsetHigh e)"

section \<open>Callbacks\<close>

datatype isr = GenericISR | DivideErrorISR | DebugExceptionISR | NonMaskableExtISR | BreakpointISR | OverflowISR
  | BoundRangeExceptionISR | InvalidOpcodeISR | UnavailableDeviceISR | DoubleFaultISR | CoprocessorSegmentOverrunISR
  | InvalidTSSISR | SegmentNotPresentISR | StackSegmentFaultISR | GeneralProtectionISR | PageFaultISR | x87FPUErrorISR
  | AlignmentCheckISR | MachineCheckISR | SIMDFloatingPointExceptionISR | VirtualisationExceptionISR
  | ControlProtectionExceptionISR | Driver u64

definition IDTLength :: nat where "IDTLength = 256"

definition InterruptCallbacks :: "isr list" where
  "InterruptCallbacks =
    [DebugExceptionISR, NonMaskableExtISR, BreakpointISR, OverflowISR, BoundRangeExceptionISR, InvalidOpcodeISR,
     UnavailableDeviceISR, DoubleFaultISR, CoprocessorSegmentOverrunISR, InvalidTSSISR, SegmentNotPresentISR,
     StackSegmentFaultISR, GeneralProtectionISR, PageFaultISR, x87FPUErrorISR, AlignmentCheckISR, MachineCheckISR,
     SIMDFloatingPointExceptionISR, VirtualisationExceptionISR, ControlProtectionExceptionISR]
    @ replicate 236 GenericISR"

definition QueryVectorByCallback :: "isr list \<Rightarrow> isr \<Rightarrow> u8 option" where
  "QueryVectorByCallback cbs CB = map_option of_nat (List.find (\<lambda>cc. cbs ! cc = CB) [0..<length cbs])"

definition AllocateInterruptVector :: "isr list \<Rightarrow> u8 option" where
  "AllocateInterruptVector cbs = map_option of_nat (List.find (\<lambda>cc. cbs ! cc = GenericISR) [0..<length cbs])"

text \<open>
  The frame a callback is given and the callbacks themselves: all of them signal the end of the
  interrupt to the local APIC named in the frame, the divide error first sets the result registers.
  Callbacks of drivers are outside code.
\<close>

record InterruptStackFrame =
  R15 :: u64
  R14 :: u64
  R13 :: u64
  R12 :: u64
  R11 :: u64
  R10 :: u64
  R9 :: u64
  R8 :: u64
  RDI :: u64
  RSI :: u64
  RBP :: u64
  RDX :: u64
  RCX :: u64
  RBX :: u64
  RAX :: u64
  VectorNumber :: u64
  ErrorCode :: u64
  RIP :: u64
  CS :: u64
  RFLAGS :: u64
  RSP :: u64
  SS :: u64
  LocalAPIC :: u64
  GDT_ :: u64
  IST_ :: u64
  StackHeader :: u8

definition LAR_EndOfInterrupt :: u64 where "LAR_EndOfInterrupt = 0xB0"

definition run_isr ::
  "(u64 \<Rightarrow> InterruptStackFrame \<Rightarrow> memory \<Rightarrow> InterruptStackFrame \<times> memory) \<Rightarrow> isr \<Rightarrow> InterruptStackFrame \<Rightarrow> memory
    \<Rightarrow> InterruptStackFrame \<times> memory" where
  "run_isr driver cb F m =
    (case cb of
       Driver p \<Rightarrow> driver p F m
     | DivideErrorISR \<Rightarrow> (F\<lparr>RAX := - 1, RDX := - 1\<rparr>, write_u32 (LocalAPIC F + LAR_EndOfInterrupt) 0 m)
     | _ \<Rightarrow> (F, write_u32 (LocalAPIC F + LAR_EndOfInterrupt) 0 m))"

text \<open>\<open>TSS_t\<close> is packed: its eight \<open>IST\<close> entries start at byte 36.\<close>

definition IST_at :: "u64 \<Rightarrow> nat \<Rightarrow> u64" where
  "IST_at tss i = tss + 36 + of_nat i * 8"

definition TSS_size :: u64 where "TSS_size = 112"

definition DefaultStackSize :: u64 where "DefaultStackSize = 16 * 1024"
definition InterruptGate64 :: u8 where "InterruptGate64 = 0xE"

record isr_state =
  callbacks :: "isr list"
  imem :: memory

text \<open>
  The outside of the interrupt code: the processor's registers, the translation of physical
  addresses, the code address of a callback, the zeroing allocator of stacks and its release, the
  base of the local APIC, the page allocators and the stack address of the local variable \<open>IR\<close>.
\<close>

record isr_env = table_env +
  e_idtr :: "GDTR64 option"
  e_gdtr :: "GDTR64 option"
  e_code :: "isr \<Rightarrow> u64"
  e_mcalloc :: "u64 \<Rightarrow> memory \<Rightarrow> u64 \<times> memory"
  e_mfree :: "u64 \<Rightarrow> memory \<Rightarrow> memory"
  e_lapic :: u64
  e_safe_alloc :: "u64 \<Rightarrow> u64 \<Rightarrow> memory \<Rightarrow> u64 \<times> memory"
  e_IR :: u64

definition sys_base :: "GDTSystemSegmentDescriptor64 \<Rightarrow> u64" where
  "sys_base d = push_bit 24 (ucast (S_BaseHigh d)) + ucast (S_BaseLow d)"

definition tss_of :: "isr_env \<Rightarrow> GDTR64 \<Rightarrow> u64 \<Rightarrow> memory \<Rightarrow> u64" where
  "tss_of env GR seg m = t_map_virtual env (sys_base (read_sys m (Base GR + 8 * seg)))"

text \<open>
  The table passed to \<open>SetIDTe\<close> is \<open>*(IDTTable64 *)&(IR.Base)\<close>: an array located at the field
  \<open>Base\<close> of the local variable, two bytes into the packed register.  The result is the index of the
  entry of \<open>InterruptCallbacks\<close> whose address is returned.
\<close>

definition fill_stack :: "isr_env \<Rightarrow> u64 \<Rightarrow> u8 \<Rightarrow> u64 \<Rightarrow> u64 \<Rightarrow> memory \<Rightarrow> memory" where
  "fill_stack env slot IST hdr seg m =
    (let (stack, m1) = e_mcalloc env DefaultStackSize m;
         m2 = write_u64 slot (stack + DefaultStackSize - 32) m1;
         m3 = write_u64 (read_u64 m2 slot) hdr m2;
         m4 = write_u64 (read_u64 m3 slot + 8) (ucast IST) m3;
         m5 = write_u64 (read_u64 m4 slot + 16) seg m4
     in write_u64 (read_u64 m5 slot + 24) (e_lapic env) m5)"

definition ISRSetCallback ::
  "isr_env \<Rightarrow> u8 \<Rightarrow> u8 \<Rightarrow> u64 \<Rightarrow> IDTEntrySegmentSelector64 \<Rightarrow> isr option \<Rightarrow> isr_state \<Rightarrow> nat option \<times> isr_state" where
  "ISRSetCallback env Vector IST hdr sel New st =
    (case New of
       None \<Rightarrow> (None, st)
     | Some cb \<Rightarrow> (Some (unat Vector),
        if callbacks st ! unat Vector = GenericISR then
          let st1 = st\<lparr>callbacks := (callbacks st)[unat Vector := cb]\<rparr> in
          (case (ReadIDTR (table_env.truncate env) (e_idtr env), ReadGDTR (table_env.truncate env) (e_gdtr env)) of
             (Some IR, Some GR) \<Rightarrow>
               let slot = IST_at (tss_of env GR (ucast (Segment sel)) (imem st1)) (unat IST) in
               if read_u64 (imem st1) slot = 0 then
                 st1\<lparr>imem := SetIDTe (e_IR env + 2) (ucast Vector) (e_code env (callbacks st1 ! unat Vector)) sel IST
                        InterruptGate64 True (fill_stack env slot IST hdr (ucast (Segment sel)) (imem st1))\<rparr>
               else st1
           | _ \<Rightarrow> st1)
        else st))"

text \<open>Stores into single bit-fields keep the other bits of the descriptor.\<close>

definition set_offset_low :: "u64 \<Rightarrow> u64 \<Rightarrow> memory \<Rightarrow> memory" where
  "set_offset_low p v m = write_u64 p ((read_u64 m p AND NOT 0xFFFF) OR (v AND 0xFFFF)) m"

definition set_offset_high :: "u64 \<Rightarrow> u64 \<Rightarrow> memory \<Rightarrow> memory" where
  "set_offset_high p v m = write_u32 (p + 8) (ucast v) m"

definition set_sys_base :: "u64 \<Rightarrow> u64 \<Rightarrow> memory \<Rightarrow> memory" where
  "set_sys_base p b m =
    (let m1 = write_u64 p ((read_u64 m p AND NOT 0xFF0000FFFFFF0000)
                OR push_bit 16 (b AND 0xFFFFFF) OR push_bit 56 (drop_bit 24 b)) m
     in write_u32 (p + 8) (ucast (drop_bit 32 b)) m1)"

definition ISRUSetCallback :: "isr_env \<Rightarrow> u32 \<Rightarrow> isr_state \<Rightarrow> isr_state" where
  "ISRUSetCallback env Vector st =
    (if unat Vector \<ge> IDTLength then st
     else if callbacks st ! unat Vector \<noteq> GenericISR then
       let st1 = st\<lparr>callbacks := (callbacks st)[unat Vector := GenericISR]\<rparr> in
       (case (ReadIDTR (table_env.truncate env) (e_idtr env), ReadGDTR (table_env.truncate env) (e_gdtr env)) of
          (Some IR, Some GR) \<Rightarrow>
            let m = imem st1; E = Base IR + 16 * ucast Vector;
                tss = tss_of env GR (ucast (SegmentSelector (read_gate m E))) m;
                m1 = set_offset_low E (e_code env GenericISR) m;
                m2 = set_offset_high E (drop_bit 16 (e_code env GenericISR)) m1;
                slot = IST_at tss (unat (InterruptStackTableOffset (read_gate m2 E)));
                m3 = e_mfree env (read_u64 m2 slot - DefaultStackSize + 32) m2
            in st1\<lparr>imem := write_u64 (IST_at tss (unat (InterruptStackTableOffset (read_gate m3 E)))) 0 m3\<rparr>
        | _ \<Rightarrow> st1)
     else st)"

definition ISRGetStackHeader :: "isr_env \<Rightarrow> u32 \<Rightarrow> isr_state \<Rightarrow> u64" where
  "ISRGetStackHeader env Vector st =
    (if unat Vector \<ge> IDTLength \<or> callbacks st ! unat Vector = GenericISR then 0
     else case (ReadIDTR (table_env.truncate env) (e_idtr env), ReadGDTR (table_env.truncate env) (e_gdtr env)) of
       (Some IR, Some GR) \<Rightarrow>
         let m = imem st; g = read_gate m (Base IR + 16 * ucast Vector);
             tss = tss_of env GR (ucast (SegmentSelector g)) m
         in read_u64 m (IST_at tss (unat (InterruptStackTableOffset g))) + 32
     | _ \<Rightarrow> 0)"

text \<open>
  The search for a free stack slot: the last zero entry among the eight of a task segment.  The
  counter is a byte that has wrapped to 255 when every entry is taken.
\<close>

fun free_ist :: "memory \<Rightarrow> u64 \<Rightarrow> nat \<Rightarrow> u8 \<times> bool" where
  "free_ist m tss 0 = (255, False)"
| "free_ist m tss (Suc i) = (if read_u64 m (IST_at tss i) = 0 then (of_nat i, True) else free_ist m tss i)"

fun ist_loop :: "isr_env \<Rightarrow> u64 \<Rightarrow> nat \<Rightarrow> nat \<Rightarrow> nat \<Rightarrow> u8 \<Rightarrow> 13 word \<Rightarrow> memory \<Rightarrow> u8 \<times> 13 word \<times> memory" where
  "ist_loop env table n 0 k IST seg m = (IST, seg, m)"
| "ist_loop env table n (Suc fuel) k IST seg m =
    (if k < n then
       let p = table + of_nat k * 8 in
       if \<not> ABSystemSegmentBit (decode_gdt (read_u64 m p)) then
         let (IST', seg', m') =
           (if S_ABType (read_sys m p) = TSS64BitAvailable then
              let b = sys_base (read_sys m p);
                  (tss, m1) = (if b \<noteq> 0 then e_safe_alloc env b TSS_size m
                               else let (q, m0) = t_alloc env TSS_size m in (q, set_sys_base p q m0));
                  (i, found) = free_ist m1 tss 8
              in (i, if found then of_nat k else seg, m1)
            else (IST, seg, m))
         in if seg' \<noteq> 0 then (IST', seg', m') else ist_loop env table n fuel (k + 2) IST' seg' m'
       else ist_loop env table n fuel (k + 1) IST seg m
     else (IST, seg, m))"

definition AllocateIST :: "isr_env \<Rightarrow> memory \<Rightarrow> (u8 \<times> IDTEntrySegmentSelector64) option \<times> memory" where
  "AllocateIST env m =
    (case ReadGDTR (table_env.truncate env) (e_gdtr env) of
       None \<Rightarrow> (None, m)
     | Some R \<Rightarrow>
         let n = unat (Limit R) div 8; (IST, seg, m') = ist_loop env (Base R) n (Suc n) 0 0 0 m
         in (Some (IST, \<lparr>PriviledgeLevel = 0, LocalDescriptor = False, Segment = seg\<rparr>), m'))"

section \<open>Images of descriptors\<close>

lemma low_field [simp]:
  "(ucast (field_at 0 (w :: 16 word)) :: 16 word) = w"
  "16 \<le> k \<Longrightarrow> (ucast (field_at k (v :: 'a::len word)) :: 16 word) = 0"
  "16 \<le> k \<Longrightarrow> (ucast (flag_at k b) :: 16 word) = 0"
  by (rule bit_word_eqI; auto simp: bit_simps)+

lemma high_field [simp]: "(ucast (ucast (w :: 32 word) :: u64) :: 32 word) = w"
  by (rule bit_word_eqI) (simp add: bit_simps)

lemma gate_round_trip: "decode_gate (encode_gate e) (ucast (OffsetHigh e)) = e"
  unfolding layout_defs by (rule IDTEntry64.equality) (simp_all add: pick_simps)

lemma split_base:
  "ucast (drop_bit 56 (field_at 56 (ucast b :: 8 word))) OR push_bit 8 (ucast (ucast (drop_bit 8 b) :: u64)) = (b :: 40 word)"
  by (rule bit_word_eqI) (auto simp: bit_simps)

lemma sys_round_trip: "decode_sys (encode_sys_low d) (encode_sys_high d) = d"
  unfolding layout_defs
  by (rule GDTSystemSegmentDescriptor64.equality) (simp_all add: pick_simps split_base)

lemma gdt_round_trip: "decode_gdt (encode_gdt d) = d"
  unfolding layout_defs by (rule GDTDescriptor.equality) (simp_all add: pick_simps)

lemma adjacent_words: "disjoint_regions (p + 8) 8 p 8"
  using disjoint_offsets [of 8 8 0 8 p] by simp

lemma read_write_gate [simp]: "read_gate (write_gate p e m) p = e"
  using adjacent_words [of p] by (simp add: read_gate_def write_gate_def heap_simps gate_round_trip)

lemma read_write_sys [simp]: "read_sys (write_sys p d m) p = d"
  using adjacent_words [of p] by (simp add: read_sys_def write_sys_def heap_simps sys_round_trip)

lemma sub_words:
  assumes "disjoint_regions a 16 b 16"
  shows "disjoint_regions a 8 b 8" "disjoint_regions a 8 (b + 8) 8" "disjoint_regions (a + 8) 8 b 8"
    "disjoint_regions (a + 8) 8 (b + 8) 8"
proof -
  have "disjoint_regions (a + of_nat x) 8 (b + of_nat y) 8" if "x \<le> 8" "y \<le> 8" for x y
    using disjoint_sym [OF disjoint_regions_sub [OF disjoint_sym [OF disjoint_regions_sub [OF assms, of 16 y 8]], of 8 x 8]]
      that by simp
  from this [of 0 0] this [of 0 8] this [of 8 0] this [of 8 8]
  show "disjoint_regions a 8 b 8" "disjoint_regions a 8 (b + 8) 8" "disjoint_regions (a + 8) 8 b 8"
    "disjoint_regions (a + 8) 8 (b + 8) 8" by simp_all
qed

lemma gate_frame:
  assumes "disjoint_regions a 16 b 16"
  shows "read_gate (write_gate a e m) b = read_gate m b"
  using sub_words [OF assms] by (simp add: read_gate_def write_gate_def heap_simps)

lemma handler_parts:
  "gate_handler \<lparr>OffsetLow = ucast (h AND 0xFFFF), SegmentSelector = s, InterruptStackTableOffset = i, GateType = g,
     DescriptorPrivilegeLevel = l, PresentEntry = e, OffsetMid = ucast (drop_bit 16 h AND 0xFFFF),
     OffsetHigh = ucast (drop_bit 32 h AND 0xFFFFFFFF)\<rparr> = h"
proof (rule bit_word_eqI)
  have masks: "0xFFFF = (mask 16 :: u64)" "0xFFFFFFFF = (mask 32 :: u64)" by (simp_all add: mask_eq_exp_minus_1)
  fix n assume n: "n < LENGTH(64)"
  show "bit (gate_handler \<lparr>OffsetLow = ucast (h AND 0xFFFF), SegmentSelector = s, InterruptStackTableOffset = i,
     GateType = g, DescriptorPrivilegeLevel = l, PresentEntry = e, OffsetMid = ucast (drop_bit 16 h AND 0xFFFF),
     OffsetHigh = ucast (drop_bit 32 h AND 0xFFFFFFFF)\<rparr>) n = bit h n"
    using n unfolding masks gate_handler_def by (cases "n < 16"; cases "n < 32") (auto simp: bit_simps)
qed

section \<open>Properties\<close>

lemma write_u64_other:
  assumes "8 \<le> k - p"
  shows "write_u64 p v m k = m k"
proof -
  have "\<not> unat (k - p) < length (le_bytes 8 (unat v))"
    using assms unfolding length_le_bytes word_le_nat_alt by simp
  then show ?thesis unfolding write_u64_def by (subst write_bytes_nth) (simp_all only: length_le_bytes if_False, simp)
qed

lemma write_gate_other:
  assumes "16 \<le> k - p"
  shows "write_gate p e m k = m k"
proof -
  have "unat (k - p - 8) = unat (k - p) - 8"
    using assms by (simp add: unat_sub_small word_le_nat_alt)
  then have "8 \<le> k - (p + 8)" "8 \<le> k - p" using assms by (simp_all add: word_le_nat_alt diff_diff_eq)
  then show ?thesis by (simp add: write_gate_def write_u64_other)
qed

lemma read_u64_same: "(\<And>i. i < 8 \<Longrightarrow> m (p + of_nat i) = m' (p + of_nat i)) \<Longrightarrow> read_u64 m p = read_u64 m' p"
  unfolding read_u64_def by (rule arg_cong [of _ _ "\<lambda>bs. of_nat (le_nat bs)"], rule nth_equalityI) simp_all

lemma read_gate_same:
  assumes "\<And>i. i < 16 \<Longrightarrow> m (p + of_nat i) = m' (p + of_nat i)"
  shows "read_gate m p = read_gate m' p"
proof -
  have "read_u64 m p = read_u64 m' p" using assms by (intro read_u64_same) simp
  moreover have "m (p + 8 + of_nat i) = m' (p + 8 + of_nat i)" if "i < 8" for i
    using assms [of "8 + i"] that by (simp add: add.assoc)
  then have "read_u64 m (p + 8) = read_u64 m' (p + 8)" by (intro read_u64_same)
  ultimately show ?thesis by (simp add: read_gate_def)
qed

text \<open>Entries of a table are 16 bytes apart, whichever way the addresses wrap.\<close>

lemma entry_distance:
  fixes N M :: u32 and T :: u64
  assumes "M \<noteq> N" and "i < 16"
  shows "16 \<le> (T + ucast M * 16 + of_nat i) - (T + ucast N * 16)"
proof -
  let ?M = "unat M" and ?N = "unat N"
  have b: "?M < 2 ^ 32" "?N < 2 ^ 32" using unsigned_less [of M, where 'a = nat] unsigned_less [of N, where 'a = nat] by simp_all
  have w: "(ucast M :: u64) = of_nat ?M" "(ucast N :: u64) = of_nat ?N" by (simp_all add: unsigned_ucast_eq word_unat_eq_iff)
  have d: "(T + ucast M * 16 + of_nat i) - (T + ucast N * 16) = of_nat (?M * 16 + i) - of_nat (?N * 16)"
    unfolding w by simp
  have u: "unat (of_nat (?M * 16 + i) :: u64) = ?M * 16 + i" "unat (of_nat (?N * 16) :: u64) = ?N * 16"
    using b assms(2) by (simp_all add: unat_of_nat del: of_nat_add of_nat_mult)
  have ne: "?M \<noteq> ?N" using assms(1) unfolding word_unat_eq_iff .
  have "unat (of_nat (?M * 16 + i) - of_nat (?N * 16) :: u64) = (if ?N * 16 \<le> ?M * 16 + i then ?M * 16 + i - ?N * 16
      else ?M * 16 + i + 2 ^ 64 - ?N * 16)"
    using u by (subst unat_sub_if') (simp add: word_le_nat_alt)
  also have "16 \<le> \<dots>" using b assms(2) ne by simp linarith
  finally show ?thesis unfolding d by (simp add: word_le_nat_alt)
qed

text \<open>C36: a gate written by \<open>SetIDTe\<close> is the one the processor reads back: its three offset parts
  give the handler address, the stack index, gate type, privilege and presence are those asked for,
  every other entry of the table reads as before, and no byte outside of the 16 bytes of the entry changes.
  The selector is the bare segment index: it is not shifted past the privilege and table bits.\<close>

theorem SetIDTe_installs:
  "let m' = SetIDTe T N h sel ist gt en m; g = read_gate m' (T + ucast N * 16) in
     gate_handler g = h \<and> PresentEntry g = en \<and> GateType g = ucast gt
     \<and> InterruptStackTableOffset g = ucast ist \<and> DescriptorPrivilegeLevel g = PriviledgeLevel sel
     \<and> SegmentSelector g = ucast (Segment sel)
     \<and> (\<forall>M. M = N \<or> read_gate m' (T + ucast M * 16) = read_gate m (T + ucast M * 16))
     \<and> (\<forall>k. k - (T + ucast N * 16) < 16 \<or> m' k = m k)"
proof -
  have outside: "SetIDTe T N h sel ist gt en m k = m k" if "16 \<le> k - (T + ucast N * 16)" for k
    using that unfolding SetIDTe_def by (rule write_gate_other)
  then have "read_gate (SetIDTe T N h sel ist gt en m) (T + ucast M * 16) = read_gate m (T + ucast M * 16)" if "M \<noteq> N" for M
    using entry_distance [OF that] by (intro read_gate_same) blast
  then have "\<forall>M. M = N \<or> read_gate (SetIDTe T N h sel ist gt en m) (T + ucast M * 16) = read_gate m (T + ucast M * 16)"
    by blast
  moreover have "\<forall>k. k - (T + ucast N * 16) < 16 \<or> SetIDTe T N h sel ist gt en m k = m k"
    using outside not_less by blast
  moreover have "let g = read_gate (SetIDTe T N h sel ist gt en m) (T + ucast N * 16) in
     gate_handler g = h \<and> PresentEntry g = en \<and> GateType g = ucast gt
     \<and> InterruptStackTableOffset g = ucast ist \<and> DescriptorPrivilegeLevel g = PriviledgeLevel sel
     \<and> SegmentSelector g = ucast (Segment sel)"
    by (simp add: SetIDTe_def Let_def handler_parts)
  ultimately show ?thesis unfolding Let_def by (elim conjE) (intro conjI; assumption)
qed

text \<open>The first index of an entry, one entry at a time.\<close>

lemma find_index_Nil: "List.find (\<lambda>i. [] ! i = c) [0..<length []] = None"
  by simp

lemma find_index_Cons:
  "List.find (\<lambda>i. (x # xs) ! i = c) [0..<length (x # xs)] =
    (if x = c then Some 0 else map_option Suc (List.find (\<lambda>i. xs ! i = c) [0..<length xs]))"
proof -
  have "[0..<length (x # xs)] = 0 # map Suc [0..<length xs]" by (simp add: map_Suc_upt upt_conv_Cons del: upt_Suc)
  moreover have "List.find P (map f zs) = map_option f (List.find (P \<circ> f) zs)" for P and f :: "nat \<Rightarrow> nat" and zs
    by (induction zs) simp_all
  ultimately show ?thesis by (simp add: o_def)
qed

lemma find_index_replicate:
  "List.find (\<lambda>i. replicate (Suc n) d ! i = c) [0..<length (replicate (Suc n) d)] = (if d = c then Some 0 else None)"
proof (cases "d = c")
  case True
  then show ?thesis unfolding replicate_Suc find_index_Cons by simp
next
  case False
  then show ?thesis by (auto simp: find_None_iff nth_Cons' simp del: upt_Suc)
qed

text \<open>The vectors of the comment before \<open>InterruptCallbacks\<close> with the callbacks meant for them.\<close>

definition documented_vectors :: "(nat \<times> isr) list" where
  "documented_vectors =
    [(0, DivideErrorISR), (1, DebugExceptionISR), (2, NonMaskableExtISR), (3, BreakpointISR), (4, OverflowISR),
     (5, BoundRangeExceptionISR), (6, InvalidOpcodeISR), (7, UnavailableDeviceISR), (8, DoubleFaultISR),
     (9, CoprocessorSegmentOverrunISR), (10, InvalidTSSISR), (11, SegmentNotPresentISR), (12, StackSegmentFaultISR),
     (13, GeneralProtectionISR), (14, PageFaultISR), (16, x87FPUErrorISR), (17, AlignmentCheckISR),
     (18, MachineCheckISR), (19, SIMDFloatingPointExceptionISR), (20, VirtualisationExceptionISR),
     (21, ControlProtectionExceptionISR)]"

text \<open>The initial callback table does not hold the divide-error callback and holds every other
  exception below its vector: those up to the page fault one too low, those after the reserved
  vector 15 two too low.  The first vector handed out is 20, which the processor reserves.\<close>

theorem initial_callbacks_shifted:
  "length InterruptCallbacks = IDTLength
   \<and> map (\<lambda>(v, cb). QueryVectorByCallback InterruptCallbacks cb) documented_vectors
       = None # map Some [0, 1, 2, 3, 4, 5, 6, 7, 8, 9, 10, 11, 12, 13, 14, 15, 16, 17, 18, 19]
   \<and> AllocateInterruptVector InterruptCallbacks = Some 20"
proof -
  have table: "InterruptCallbacks =
    [DebugExceptionISR, NonMaskableExtISR, BreakpointISR, OverflowISR, BoundRangeExceptionISR, InvalidOpcodeISR,
     UnavailableDeviceISR, DoubleFaultISR, CoprocessorSegmentOverrunISR, InvalidTSSISR, SegmentNotPresentISR,
     StackSegmentFaultISR, GeneralProtectionISR, PageFaultISR, x87FPUErrorISR, AlignmentCheckISR, MachineCheckISR,
     SIMDFloatingPointExceptionISR, VirtualisationExceptionISR, ControlProtectionExceptionISR]
    @ replicate (Suc 235) GenericISR" unfolding InterruptCallbacks_def by simp
  show ?thesis
    unfolding documented_vectors_def QueryVectorByCallback_def AllocateInterruptVector_def table append.simps
    by (simp only: find_index_Cons find_index_replicate) (simp add: IDTLength_def)
qed

lemma gate_word_frame:
  assumes "disjoint_regions a 8 g 16"
  shows "read_gate (write_u64 a v m) g = read_gate m g"
  using disjoint_regions_sub [OF assms, of 8 0 8] disjoint_regions_sub [OF assms, of 8 8 8]
  by (simp add: read_gate_def heap_simps)

lemma sub_word_disjoint:
  assumes "disjoint_regions (t :: u64) 32 b k"
  shows "disjoint_regions t 8 b k" "disjoint_regions (t + 8) 8 b k" "disjoint_regions (t + 16) 8 b k"
    "disjoint_regions (t + 24) 8 b k"
proof -
  have "disjoint_regions (t + of_nat x) 8 b k" if "x + 8 \<le> 32" for x
    using disjoint_sym [OF disjoint_regions_sub [OF disjoint_sym [OF assms], of k x 8]] that by simp
  from this [of 0] this [of 8] this [of 16] this [of 24]
  show "disjoint_regions t 8 b k" "disjoint_regions (t + 8) 8 b k" "disjoint_regions (t + 16) 8 b k"
    "disjoint_regions (t + 24) 8 b k" by simp_all
qed

lemma fill_stack_frame:
  assumes "e_mcalloc env DefaultStackSize m = (stack, m1)" and "read_gate m1 g = read_gate m g"
    and "disjoint_regions slot 8 g 16" and "disjoint_regions (stack + DefaultStackSize - 32) 32 g 16"
    and "disjoint_regions (stack + DefaultStackSize - 32) 32 slot 8"
  shows "read_gate (fill_stack env slot IST hdr seg m) g = read_gate m g"
  unfolding fill_stack_def assms(1) Let_def prod.case
  by (simp only: assms(2,3) sub_word_disjoint [OF assms(4)] sub_word_disjoint [OF assms(5)]
      read_write_u64 frame_u64_u64 gate_word_frame)

text \<open>Installing a callback does not change the interrupt table.  The gate is written to the
  stack, at the field \<open>Base\<close> of the local register image, so that a callback is registered, its stack
  is set up and the gate of its vector is still the old one.  The table is assumed to lie apart from
  the task segment's slot, the new stack and the local variable, and to survive the allocation.\<close>

theorem ISRSetCallback_misses_table:
  fixes env :: isr_env and IR GR :: GDTR64 and V :: u8
  defines "tenv \<equiv> table_env.truncate env" and "gate \<equiv> Base IR + ucast V * 16"
  assumes "callbacks st ! unat V = GenericISR" and "unat V < length (callbacks st)"
    and "ReadIDTR tenv (e_idtr env) = Some IR" and "ReadGDTR tenv (e_gdtr env) = Some GR"
    and "slot = IST_at (tss_of env GR (ucast (Segment sel)) (imem st)) (unat IST)" and "read_u64 (imem st) slot = 0"
    and "e_mcalloc env DefaultStackSize (imem st) = (stack, m1)" and "read_gate m1 gate = read_gate (imem st) gate"
    and "disjoint_regions slot 8 gate 16" and "disjoint_regions (stack + DefaultStackSize - 32) 32 gate 16"
    and "disjoint_regions (stack + DefaultStackSize - 32) 32 slot 8"
    and "disjoint_regions (e_IR env + 2 + ucast V * 16) 16 gate 16"
  shows "\<exists>st'. ISRSetCallback env V IST hdr sel (Some cb) st = (Some (unat V), st')
    \<and> callbacks st' ! unat V = cb \<and> read_gate (imem st') gate = read_gate (imem st) gate
    \<and> gate_handler (read_gate (imem st') (e_IR env + 2 + ucast V * 16)) = e_code env cb"
proof -
  let ?m = "fill_stack env slot IST hdr (ucast (Segment sel)) (imem st)"
  have idx: "(ucast (ucast V :: u32) :: u64) = ucast V" by (rule bit_word_eqI) (auto simp: bit_simps dest: bit_word_bound)
  have set: "ISRSetCallback env V IST hdr sel (Some cb) st = (Some (unat V),
      st\<lparr>callbacks := (callbacks st)[unat V := cb],
         imem := SetIDTe (e_IR env + 2) (ucast V) (e_code env cb) sel IST InterruptGate64 True ?m\<rparr>)"
    using assms(3-8) unfolding ISRSetCallback_def tenv_def by (simp add: Let_def)
  have "read_gate ?m gate = read_gate (imem st) gate" using assms(9-13) by (rule fill_stack_frame)
  then show ?thesis
    using assms(4,14) unfolding set by (simp add: SetIDTe_def idx gate_frame handler_parts)
qed

definition sample_env :: isr_env where
  "sample_env = \<lparr>t_alloc = \<lambda>n m. (0x40000, m), t_map_physical = id, t_map_virtual = \<lambda>p. p + 0x1000, t_load = \<lambda>R. True,
     e_idtr = Some \<lparr>Limit = 4095, Base = 0x1000\<rparr>, e_gdtr = Some \<lparr>Limit = 63, Base = 0x4000\<rparr>, e_code = \<lambda>cb. 0x123456789A,
     e_mcalloc = \<lambda>n m. (0x10000, m), e_mfree = \<lambda>p m. m, e_lapic = 0xFEE00000, e_safe_alloc = \<lambda>p n m. (p, m),
     e_IR = 0x20000\<rparr>"

lemma sample_tss: "tss_of sample_env \<lparr>Limit = 63, Base = 0x5000\<rparr> seg (\<lambda>a. 0) = 0x1000"
proof -
  have "sys_base (decode_sys 0 0) = 0" by (simp add: sys_base_def decode_sys_def)
  then show ?thesis by (simp add: tss_of_def sample_env_def read_sys_def read_zero)
qed

theorem ISRSetCallback_misses_table_witness:
  "\<exists>st'. ISRSetCallback sample_env 32 1 0 \<lparr>PriviledgeLevel = 0, LocalDescriptor = False, Segment = 5\<rparr> (Some (Driver 7))
      \<lparr>callbacks = InterruptCallbacks, imem = \<lambda>a. 0\<rparr> = (Some 32, st')
    \<and> callbacks st' ! 32 = Driver 7 \<and> read_gate (imem st') 0x2200 = decode_gate 0 0
    \<and> gate_handler (read_gate (imem st') 0x20202) = 0x123456789A"
proof -
  let ?sel = "\<lparr>PriviledgeLevel = 0, LocalDescriptor = False, Segment = 5\<rparr> :: IDTEntrySegmentSelector64"
  let ?st = "\<lparr>callbacks = InterruptCallbacks, imem = \<lambda>a. 0\<rparr> :: isr_state"
  let ?IR = "\<lparr>Limit = 4095, Base = 0x2000\<rparr> :: GDTR64"
  let ?GR = "\<lparr>Limit = 63, Base = 0x5000\<rparr> :: GDTR64"
  have "\<exists>st'. ISRSetCallback sample_env 32 1 0 ?sel (Some (Driver 7)) ?st = (Some (unat (32 :: u8)), st')
    \<and> callbacks st' ! unat (32 :: u8) = Driver 7
    \<and> read_gate (imem st') (Base ?IR + ucast (32 :: u8) * 16) = read_gate (imem ?st) (Base ?IR + ucast (32 :: u8) * 16)
    \<and> gate_handler (read_gate (imem st') (e_IR sample_env + 2 + ucast (32 :: u8) * 16)) = e_code sample_env (Driver 7)"
  proof (rule ISRSetCallback_misses_table)
    show "callbacks ?st ! unat (32 :: u8) = GenericISR" "unat (32 :: u8) < length (callbacks ?st)"
      by (simp_all add: InterruptCallbacks_def nth_append)
    show "ReadIDTR (table_env.truncate sample_env) (e_idtr sample_env) = Some ?IR"
      "ReadGDTR (table_env.truncate sample_env) (e_gdtr sample_env) = Some ?GR"
      by (simp_all add: ReadIDTR_def ReadGDTR_def sample_env_def table_env.defs)
    show "(0x102C :: u64) = IST_at (tss_of sample_env ?GR (ucast (Segment ?sel)) (imem ?st)) (unat (1 :: u8))"
      by (simp add: sample_tss IST_at_def)
    show "read_u64 (imem ?st) (0x102C) = 0" by (simp add: read_zero)
    show "e_mcalloc sample_env DefaultStackSize (imem ?st) = (0x10000, \<lambda>a. 0)" by (simp add: sample_env_def)
  qed (simp_all add: DefaultStackSize_def sample_env_def disjoint_unat)
  then show ?thesis by (simp add: sample_env_def read_gate_def read_zero)
qed

end
