(* ===== verification/Kernel_Acpi.thy ===== *)
theory Kernel_Acpi
  imports Kernel_Interrupts
begin

text \<open>
  The firmware tables of \<^verbatim>\<open>kernel/libcrt/hardware/ACPI\<close> and the interrupt controllers of
  \<^verbatim>\<open>kernel/libcrt/hardware/IDT/APIC\<close> that are found through them: validation of table headers, the
  search for a table, the walk over the interrupt-controller records, the local APIC registers and
  the redirection registers of the I/O APIC.  Tables and the local APIC lie in byte memory.  The
  translation of physical addresses, the processor identification and the register window of the
  I/O APIC are arguments.
\<close>

section \<open>Tables\<close>

definition RSDPRevision :: u8 where "RSDPRevision = 0"
definition XSDPRevision :: u8 where "XSDPRevision = 2"

text \<open>The packed header: 36 bytes.\<close>

definition sizeof_SDTHeader :: nat where "sizeof_SDTHeader = 36"

definition h_Signature :: "memory \<Rightarrow> u64 \<Rightarrow> string" where
  "h_Signature m h = map (\<lambda>b. char_of (unat b)) (read_bytes m h 4)"

definition h_Length :: "memory \<Rightarrow> u64 \<Rightarrow> u32" where "h_Length m h = read_u32 m (h + 4)"
definition h_Revision :: "memory \<Rightarrow> u64 \<Rightarrow> u8" where "h_Revision m h = m (h + 8)"

definition ValidateHeader :: "memory \<Rightarrow> u64 \<Rightarrow> bool" where
  "ValidateHeader m h =
    (if h = 0 \<or> unat (h_Length m h) < sizeof_SDTHeader then False
     else sum_list (read_bytes m h (unat (h_Length m h))) = 0)"

definition GetACPIRevision :: "memory \<Rightarrow> u64 \<Rightarrow> u8" where
  "GetACPIRevision m ACPIBase = m (ACPIBase + 15)"

definition XSDT_SupportedTables :: "string list" where
  "XSDT_SupportedTables =
    [''APIC'', ''BGRT'', ''BERT'', ''CPEP'', ''DSDT'', ''ECDT'', ''EINJ'', ''ERST'', ''FACP'', ''FACS'', ''HEST'', ''MSCT'',
     ''MPST'', ''PMTT'', ''PSDT'', ''RASF'', ''RSDT'', ''SBST'', ''SLIT'', ''SRAT'', ''SSDT'', ''XSDT'', ''MCFG'']"

definition RSDT_SupportedTables :: "string list" where
  "RSDT_SupportedTables =
    [''APIC'', ''BERT'', ''CPEP'', ''DSDT'', ''ECDT'', ''EINJ'', ''ERST'', ''FACP'', ''FACS'', ''HEST'', ''MSCT'', ''MPST'',
     ''OEMx'', ''PMTT'', ''PSDT'', ''RASF'', ''RSDT'', ''SBST'', ''SLIT'', ''SRAT'', ''SSDT'', ''XSDT'', ''MCFG'']"

text \<open>
  The pointer arrays.  \<open>RSDT_t\<close> is packed, its 32-bit pointers follow the header.  \<open>XSDT_t\<close> is not:
  its 64-bit pointers are aligned to 8 and start at byte 40.
\<close>

definition table_pointer :: "memory \<Rightarrow> u64 \<Rightarrow> u8 \<Rightarrow> nat \<Rightarrow> u64" where
  "table_pointer m t rv cc =
    (if rv \<ge> XSDPRevision then read_u64 m (t + 40 + of_nat (cc * 8))
     else ucast (read_u32 m (t + 36 + of_nat (cc * 4))))"

definition n_pointers :: "memory \<Rightarrow> u64 \<Rightarrow> u8 \<Rightarrow> nat" where
  "n_pointers m t rv =
    (unat (h_Length m t) - sizeof_SDTHeader) div (if rv \<ge> XSDPRevision then 8 else 4)"

text \<open>The checks before the loop: a sound header and a signature of the list for the revision.\<close>

definition searchable :: "memory \<Rightarrow> string \<Rightarrow> u64 \<Rightarrow> u8 \<Rightarrow> bool" where
  "searchable m sig t rv =
    (ValidateHeader m t
     \<and> sig \<in> set (if rv \<ge> XSDPRevision then XSDT_SupportedTables else RSDT_SupportedTables))"

definition nested_revision :: "string \<Rightarrow> u8" where
  "nested_revision sig = (if hd sig = CHR ''X'' then XSDPRevision else if hd sig = CHR ''R'' then RSDPRevision else 0)"

text \<open>
  The loop over the pointers.  An entry whose signature ends in \<open>SDT\<close> ends it with a search inside
  that entry.  Tables that refer to each other make the search run forever: \<open>None\<close>.  The null
  pointer is \<open>Some 0\<close>.
\<close>

partial_function (option) search_loop ::
  "(u64 \<Rightarrow> u64) \<Rightarrow> memory \<Rightarrow> string \<Rightarrow> u64 \<Rightarrow> u8 \<Rightarrow> nat \<Rightarrow> u64 option" where
  "search_loop mv m sig t rv cc =
    (if cc < n_pointers m t rv then
       let e = mv (table_pointer m t rv cc) in
       if e \<noteq> 0 \<and> ValidateHeader m e then
         if h_Signature m e = sig then Some e
         else if drop 1 (h_Signature m e) = ''SDT'' then
           if searchable m sig e (nested_revision (h_Signature m e))
           then search_loop mv m sig e (nested_revision (h_Signature m e)) 0
           else Some 0
         else search_loop mv m sig t rv (cc + 1)
       else search_loop mv m sig t rv (cc + 1)
     else Some 0)"

definition SearchTable :: "(u64 \<Rightarrow> u64) \<Rightarrow> memory \<Rightarrow> string \<Rightarrow> u64 \<Rightarrow> u8 \<Rightarrow> u64 option" where
  "SearchTable mv m sig t rv =
    (if t = 0 then Some 0 else if searchable m sig t rv then search_loop mv m sig t rv 0 else Some 0)"

definition SearchACPITable :: "(u64 \<Rightarrow> u64) \<Rightarrow> memory \<Rightarrow> string \<Rightarrow> u64 \<Rightarrow> u64 option" where
  "SearchACPITable mv m sig ACPIBase =
    (if ACPIBase = 0 then Some 0
     else
       let rv = GetACPIRevision m ACPIBase;
           t = (if rv \<ge> XSDPRevision then mv (read_u64 m (ACPIBase + 24))
                else mv (ucast (read_u32 m (ACPIBase + 16))))
       in SearchTable mv m sig t rv)"

section \<open>Interrupt-controller records\<close>

text \<open>
  The records start 48 bytes into the 64-bit form of the table and 44 bytes into the 32-bit form.
  The walk takes record \<open>cc\<close> at a distance of two bytes per record, the size of a record header, and
  counts the record lengths down to exactly zero.
\<close>

definition madt_records :: "u8 \<Rightarrow> nat" where
  "madt_records rv = (if rv \<ge> XSDPRevision then 48 else 44)"

definition ProcessorLocalAPIC_type :: u8 where "ProcessorLocalAPIC_type = 0x0"
definition IOAPIC_type :: u8 where "IOAPIC_type = 0x1"

partial_function (option) madt_walk ::
  "memory \<Rightarrow> u64 \<Rightarrow> (u64 \<Rightarrow> bool) \<Rightarrow> u32 \<Rightarrow> u32 \<Rightarrow> u64 option option" where
  "madt_walk m first P rem cc =
    (if rem = 0 then Some None
     else
       let e = first + 2 * ucast cc in
       if P e then Some (Some e) else madt_walk m first P (rem - ucast (m (e + 1))) (cc + 1))"

definition madt_find :: "memory \<Rightarrow> u64 \<Rightarrow> (u64 \<Rightarrow> bool) \<Rightarrow> u64 option option" where
  "madt_find m t P =
    (let k = madt_records (h_Revision m t)
     in madt_walk m (t + of_nat k) P (h_Length m t - of_nat k) 0)"

section \<open>The local APIC\<close>

definition GetLocalAPICID :: "u32 \<Rightarrow> u32" where
  "GetLocalAPICID ebx = ucast (ucast (drop_bit 24 ebx) :: u8)"

definition XSDT_ProcessorEnabled :: u32 where "XSDT_ProcessorEnabled = 0x1"
definition RSDT_ProcessorEnabled :: u32 where "RSDT_ProcessorEnabled = 0x0"

text \<open>
  The outcomes of the search for the local APIC: an address (zero when there is no table), the end
  of the function without a \<open>return\<close>, and a store through the null pointer \<open>_RDST\<close>.
\<close>

datatype apic_base = Base_at u64 | No_return | Null_store

definition GetLocalAPICBase :: "(u64 \<Rightarrow> u64) \<Rightarrow> u32 \<Rightarrow> memory \<Rightarrow> u64 \<Rightarrow> bool \<Rightarrow> apic_base option" where
  "GetLocalAPICBase mv ebx m ACPIBase rdst_null = do {
     t \<leftarrow> SearchACPITable mv m ''APIC'' ACPIBase;
     if t = 0 then Some (Base_at 0)
     else if h_Revision m t \<ge> XSDPRevision then do {
       r \<leftarrow> madt_find m t (\<lambda>e. m e = ProcessorLocalAPIC_type \<and> ucast (m (e + 3)) = GetLocalAPICID ebx
                          \<and> flag_check (read_u32 m (e + 4)) XSDT_ProcessorEnabled);
       Some (case r of None \<Rightarrow> No_return | Some e \<Rightarrow> Base_at (mv (read_u64 m (t + 36))))
     } else if rdst_null then do {
       r \<leftarrow> madt_find m t (\<lambda>e. m e = ProcessorLocalAPIC_type);
       Some (case r of None \<Rightarrow> No_return | Some e \<Rightarrow> Null_store)
     } else do {
       r \<leftarrow> madt_find m t (\<lambda>e. m e = ProcessorLocalAPIC_type \<and> ucast (m (e + 3)) = GetLocalAPICID ebx
                          \<and> flag_check (read_u32 m (e + 4)) RSDT_ProcessorEnabled);
       Some (case r of None \<Rightarrow> No_return | Some e \<Rightarrow> Base_at (mv (ucast (read_u32 m (t + 36)))))
     }
   }"

definition LocalAPICEnableBit :: u32 where "LocalAPICEnableBit = 0x100"
definition LAR_SpuriousInterruptVector :: u64 where "LAR_SpuriousInterruptVector = 0xF0"
definition LAR_InterruptCommandRegister :: u64 where "LAR_InterruptCommandRegister = 0x300"

text \<open>
  Accesses to a register that the access table allows; the registers used below are all readable and
  writable.  An operation has no outcome when the base has none.
\<close>

definition WriteAPICRegister :: "u64 \<Rightarrow> u64 \<Rightarrow> u32 \<Rightarrow> memory \<Rightarrow> memory" where
  "WriteAPICRegister bs reg v m = write_u32 (bs + reg) v m"

definition ReadAPICRegister :: "u64 \<Rightarrow> u64 \<Rightarrow> memory \<Rightarrow> u32" where
  "ReadAPICRegister bs reg m = read_u32 m (bs + reg)"

definition InitLocalAPIC :: "(u64 \<Rightarrow> u64) \<Rightarrow> u32 \<Rightarrow> u64 \<Rightarrow> u8 \<Rightarrow> bool \<Rightarrow> memory \<Rightarrow> (bool \<times> memory) option" where
  "InitLocalAPIC mv ebx ACPIBase InterruptBase Enable m =
    (if InterruptBase < 32 then Some (False, m)
     else case GetLocalAPICBase mv ebx m ACPIBase False of
       Some (Base_at b) \<Rightarrow>
         Some (if b = 0 then (False, m)
               else (True, WriteAPICRegister b LAR_SpuriousInterruptVector
                       (ucast InterruptBase OR (if Enable then LocalAPICEnableBit else 0)) m))
     | _ \<Rightarrow> None)"

definition EnableLocalAPIC :: "(u64 \<Rightarrow> u64) \<Rightarrow> u32 \<Rightarrow> u64 \<Rightarrow> memory \<Rightarrow> memory option" where
  "EnableLocalAPIC mv ebx ACPIBase m =
    (case GetLocalAPICBase mv ebx m ACPIBase False of
       Some (Base_at b) \<Rightarrow>
         Some (if b = 0 then m
               else WriteAPICRegister b LAR_SpuriousInterruptVector
                      (ReadAPICRegister b LAR_SpuriousInterruptVector m OR LocalAPICEnableBit) m)
     | _ \<Rightarrow> None)"

definition DisableLocalAPIC :: "(u64 \<Rightarrow> u64) \<Rightarrow> u32 \<Rightarrow> u64 \<Rightarrow> memory \<Rightarrow> memory option" where
  "DisableLocalAPIC mv ebx ACPIBase m =
    (case GetLocalAPICBase mv ebx m ACPIBase False of
       Some (Base_at b) \<Rightarrow>
         Some (if b = 0 then m
               else WriteAPICRegister b LAR_SpuriousInterruptVector
                      (ReadAPICRegister b LAR_SpuriousInterruptVector m AND NOT LocalAPICEnableBit) m)
     | _ \<Rightarrow> None)"

definition SendIPI :: "(u64 \<Rightarrow> u64) \<Rightarrow> u32 \<Rightarrow> u64 \<Rightarrow> u32 \<Rightarrow> u32 \<Rightarrow> memory \<Rightarrow> memory option" where
  "SendIPI mv ebx ACPIBase apic_id icr_low m =
    (case GetLocalAPICBase mv ebx m ACPIBase False of
       Some (Base_at b) \<Rightarrow>
         Some (WriteAPICRegister b LAR_InterruptCommandRegister icr_low
                 (WriteAPICRegister b LAR_InterruptCommandRegister (push_bit 24 apic_id) m))
     | _ \<Rightarrow> None)"

section \<open>The I/O APIC\<close>

text \<open>
  The outside of the I/O APIC code: address translation, the page allocator's answer for a physical
  page, the tables, and the memory-mapped window of the device as a store and a load on its state.
\<close>

record 'd ioapic_env =
  v_map_virtual :: "u64 \<Rightarrow> u64"
  v_alloc :: "u64 \<Rightarrow> u64"
  v_mem :: memory
  v_acpibase :: u64
  v_store :: "u64 \<Rightarrow> u32 \<Rightarrow> 'd \<Rightarrow> 'd"
  v_load :: "u64 \<Rightarrow> 'd \<Rightarrow> u32"

definition MapAPIC :: "'d ioapic_env \<Rightarrow> u64 \<Rightarrow> u64" where
  "MapAPIC env physical =
    (if v_map_virtual env physical \<noteq> 0 then v_alloc env physical else v_map_virtual env physical)"

definition IOAPICVER :: u32 where "IOAPICVER = 0x01"
definition IOAPICREDTBL :: "u32 \<Rightarrow> bool \<Rightarrow> u32" where
  "IOAPICREDTBL N SN = 0x10 + N * 2 + (if SN then 1 else 0)"

definition ReadIoApic :: "'d ioapic_env \<Rightarrow> u64 \<Rightarrow> u32 \<Rightarrow> 'd \<Rightarrow> u32 \<times> 'd" where
  "ReadIoApic env addr reg d = (let d1 = v_store env addr (reg AND 0xFF) d in (v_load env (addr + 16) d1, d1))"

definition WriteIoApic :: "'d ioapic_env \<Rightarrow> u64 \<Rightarrow> u32 \<Rightarrow> u32 \<Rightarrow> 'd \<Rightarrow> 'd" where
  "WriteIoApic env addr reg v d = v_store env (addr + 16) v (v_store env addr (reg AND 0xFF) d)"

text \<open>
  The physical address of the device: from the first record of its type in the 64-bit form, from the
  very first record, when that is a local APIC, in the 32-bit form.  A missing table is read through
  the null pointer: no outcome.
\<close>

definition ioapic_address :: "'d ioapic_env \<Rightarrow> u64 option option" where
  "ioapic_address env = do {
     t \<leftarrow> SearchACPITable (v_map_virtual env) (v_mem env) ''APIC'' (v_acpibase env);
     if t = 0 then None
     else if h_Revision (v_mem env) t \<ge> XSDPRevision then do {
       r \<leftarrow> madt_find (v_mem env) t (\<lambda>e. v_mem env e = IOAPIC_type);
       Some (map_option (\<lambda>e. read_u64 (v_mem env) (e + 4)) r)
     } else
       let e = t + 44 in
       Some (if h_Length (v_mem env) t - 44 \<noteq> 0 \<and> v_mem env e = ProcessorLocalAPIC_type
             then Some (ucast (read_u32 (v_mem env) (e + 4))) else None)
   }"

definition ReadIoApicRegister :: "'d ioapic_env \<Rightarrow> u32 \<Rightarrow> u32 \<Rightarrow> 'd \<Rightarrow> (u32 \<times> 'd) option" where
  "ReadIoApicRegister env N reg d = do {
     r \<leftarrow> ioapic_address env;
     Some (case r of
             None \<Rightarrow> (0, d)
           | Some a \<Rightarrow> if N \<noteq> 0 then (0, d) else ReadIoApic env (MapAPIC env a) reg d)
   }"

definition WriteIoApicRegister :: "'d ioapic_env \<Rightarrow> u32 \<Rightarrow> u32 \<Rightarrow> u32 \<Rightarrow> 'd \<Rightarrow> 'd option" where
  "WriteIoApicRegister env N reg v d = do {
     r \<leftarrow> ioapic_address env;
     Some (case r of
             None \<Rightarrow> d
           | Some a \<Rightarrow> if N \<noteq> 0 then d else WriteIoApic env (MapAPIC env a) reg v d)
   }"

definition MaxIRQNumber :: "u32 \<Rightarrow> u8" where "MaxIRQNumber v = ucast (drop_bit 16 v)"

text \<open>
  The bit-fields of a redirection register as the structure lays them out: \<open>InterruptDisable\<close> at bit
  14, \<open>DestinationAPICID\<close> at bit 55.
\<close>

record IOAPICInterruptRegister =
  Vector :: "8 word"
  DeliveryMode :: "3 word"
  DestinationMode :: bool
  PinPolarity :: bool
  RemoteInterruptRequestRegister :: bool
  InterruptDisable :: bool
  DestinationAPICID :: "8 word"

definition redirection_fields :: "u64 \<Rightarrow> IOAPICInterruptRegister" where
  "redirection_fields r =
    \<lparr>Vector = ucast r, DeliveryMode = ucast (drop_bit 8 r), DestinationMode = bit r 11, PinPolarity = bit r 12,
     RemoteInterruptRequestRegister = bit r 13, InterruptDisable = bit r 14, DestinationAPICID = ucast (drop_bit 55 r)\<rparr>"

definition set_InterruptDisable :: "bool \<Rightarrow> u64 \<Rightarrow> u64" where
  "set_InterruptDisable b r = (if b then r OR push_bit 14 1 else r AND NOT (push_bit 14 1))"

definition ReadIoApicInterruptRegister :: "'d ioapic_env \<Rightarrow> u32 \<Rightarrow> u32 \<Rightarrow> 'd \<Rightarrow> (u64 \<times> 'd) option" where
  "ReadIoApicInterruptRegister env APICN N d = do {
     (v, d1) \<leftarrow> ReadIoApicRegister env N IOAPICVER d;
     if unat N < unat (MaxIRQNumber v) + 1 then do {
       (lo, d2) \<leftarrow> ReadIoApicRegister env APICN (IOAPICREDTBL N False) d1;
       (hi, d3) \<leftarrow> ReadIoApicRegister env APICN (IOAPICREDTBL N True) d2;
       Some (ucast lo OR push_bit 32 (ucast hi), d3)
     } else Some (0, d1)
   }"

definition WriteIoApicInterruptRegister :: "'d ioapic_env \<Rightarrow> u32 \<Rightarrow> u32 \<Rightarrow> u64 \<Rightarrow> 'd \<Rightarrow> (bool \<times> 'd) option" where
  "WriteIoApicInterruptRegister env APICN N R d = do {
     (v, d1) \<leftarrow> ReadIoApicRegister env N IOAPICVER d;
     if unat N < unat (MaxIRQNumber v) + 1 then do {
       d2 \<leftarrow> WriteIoApicRegister env APICN (IOAPICREDTBL N False) (ucast R) d1;
       d3 \<leftarrow> WriteIoApicRegister env APICN (IOAPICREDTBL N True) (ucast (drop_bit 32 R)) d2;
       Some (True, d3)
     } else Some (False, d1)
   }"

definition DisableIoApicInterrupt :: "'d ioapic_env \<Rightarrow> u32 \<Rightarrow> u32 \<Rightarrow> 'd \<Rightarrow> (bool \<times> 'd) option" where
  "DisableIoApicInterrupt env N Interrupt d = do {
     (v, d1) \<leftarrow> ReadIoApicRegister env N IOAPICVER d;
     if unat Interrupt < unat (MaxIRQNumber v) + 1 then do {
       (r, d2) \<leftarrow> ReadIoApicInterruptRegister env N Interrupt d1;
       WriteIoApicInterruptRegister env N Interrupt (set_InterruptDisable True r) d2
     } else Some (False, d1)
   }"

text \<open>\<open>EnableIoApicInterrupt\<close> ends without a \<open>return\<close>: only the device state is modelled.\<close>

definition EnableIoApicInterrupt :: "'d ioapic_env \<Rightarrow> u32 \<Rightarrow> u32 \<Rightarrow> 'd \<Rightarrow> 'd option" where
  "EnableIoApicInterrupt env N Interrupt d = do {
     (v, d1) \<leftarrow> ReadIoApicRegister env N IOAPICVER d;
     if unat Interrupt < unat (MaxIRQNumber v) + 1 then do {
       (r, d2) \<leftarrow> ReadIoApicInterruptRegister env N Interrupt d1;
       (ok, d3) \<leftarrow> WriteIoApicInterruptRegister env N Interrupt (set_InterruptDisable False r) d2;
       Some d3
     } else Some d1
   }"

partial_function (option) disable_loop :: "'d ioapic_env \<Rightarrow> u32 \<Rightarrow> u64 \<Rightarrow> 'd \<Rightarrow> (bool \<times> 'd) option" where
  "disable_loop env N cc d =
    (case DisableIoApicInterrupt env N (ucast cc) d of
       None \<Rightarrow> None
     | Some (ok, d1) \<Rightarrow> if ok then disable_loop env N (cc + 1) d1 else Some (ok, d1))"

definition DisableIoApic :: "'d ioapic_env \<Rightarrow> u32 \<Rightarrow> 'd \<Rightarrow> (bool \<times> 'd) option" where
  "DisableIoApic env N d = do {
     (v, d1) \<leftarrow> ReadIoApicRegister env N IOAPICVER d;
     disable_loop env N 0 d1
   }"

definition IoApicSetRedirection :: "'d ioapic_env \<Rightarrow> u32 \<Rightarrow> u8 \<Rightarrow> u8 \<Rightarrow> u8 \<Rightarrow> 'd \<Rightarrow> 'd option" where
  "IoApicSetRedirection env N InterruptPin InterruptVector apic d =
    (let reg_low = 0x10 + ucast InterruptPin * 2; reg_high = reg_low + 1;
         low_value = ucast InterruptVector AND 0xFF; high_value = push_bit 24 (ucast apic)
     in do {
       d1 \<leftarrow> WriteIoApicRegister env N reg_low low_value d;
       WriteIoApicRegister env N reg_high high_value d1
     })"

section \<open>The register window\<close>

text \<open>
  What the I/O APIC code relies on: storing to the first word selects a register, the word at 16
  reads the selected register, and a store there changes the writable bits \<open>W\<close> of the selected
  register and nothing else.  The device is the first one the tables name.
\<close>

definition masked :: "u32 \<Rightarrow> u32 \<Rightarrow> u32 \<Rightarrow> u32" where
  "masked w old v = (old AND NOT w) OR (v AND w)"

lemma masked_same [simp]: "masked w v v = v"
  by (rule bit_word_eqI) (auto simp: masked_def bit_simps)

lemma low_byte:
  assumes "unat (r :: u32) < 256"
  shows "r AND 0xFF = r"
proof -
  have "(0xFF :: u32) = mask 8" by (simp add: mask_eq_exp_minus_1)
  then have "r AND 0xFF = take_bit 8 r" by (simp add: take_bit_eq_mask)
  moreover have "unat (take_bit 8 r) = unat r" using assms by (simp add: unsigned_take_bit_eq take_bit_nat_eq_self)
  ultimately show ?thesis by (simp add: word_unat_eq_iff)
qed

lemma unat_byte [simp]: "unat (ucast (b :: u8) :: u32) = unat b"
proof -
  have "unat b < 2 ^ 8" using unsigned_less [of b, where 'a = nat] by simp
  then show ?thesis by (simp add: unsigned_ucast_eq take_bit_nat_eq_self)
qed

locale register_window =
  fixes env :: "'d ioapic_env" and regs :: "'d \<Rightarrow> u32 \<Rightarrow> u32" and W :: "u32 \<Rightarrow> u32" and p a :: u64
  assumes named: "ioapic_address env = Some (Some p)"
    and mapped: "MapAPIC env p = a"
    and select_keeps: "regs (v_store env a k d) = regs d"
    and load_selected: "k AND 0xFF = k \<Longrightarrow> v_load env (a + 16) (v_store env a k d) = regs d k"
    and store_selected: "k AND 0xFF = k \<Longrightarrow>
      regs (v_store env (a + 16) v (v_store env a k d)) = (regs d)(k := masked (W k) (regs d k) v)"
begin

lemma read_first:
  "ReadIoApicRegister env 0 r d = Some (regs d (r AND 0xFF), v_store env a (r AND 0xFF) d)"
  by (simp add: ReadIoApicRegister_def named mapped ReadIoApic_def Let_def load_selected and.assoc)

lemma read_other: "N \<noteq> 0 \<Longrightarrow> ReadIoApicRegister env N r d = Some (0, d)"
  by (simp add: ReadIoApicRegister_def named)

lemma write_first:
  "\<exists>d'. WriteIoApicRegister env 0 r v d = Some d'
    \<and> regs d' = (regs d)(r AND 0xFF := masked (W (r AND 0xFF)) (regs d (r AND 0xFF)) v)"
  by (simp add: WriteIoApicRegister_def named mapped WriteIoApic_def store_selected and.assoc)

lemma later_pin:
  assumes "I \<noteq> 0"
  shows "\<exists>d'. DisableIoApicInterrupt env 0 I d = Some (False, d') \<and> regs d' = regs d"
proof -
  have "unat I \<noteq> 0" using assms by (simp add: unat_eq_0)
  then show ?thesis
    using assms
    by (simp add: DisableIoApicInterrupt_def ReadIoApicInterruptRegister_def WriteIoApicInterruptRegister_def
        read_first read_other MaxIRQNumber_def select_keeps)
qed

lemma first_pin:
  "\<exists>d'. DisableIoApicInterrupt env 0 0 d = Some (True, d')
    \<and> regs d' = (regs d)(0x10 := masked (W 0x10) (regs d 0x10) (regs d 0x10 OR 0x4000))"
proof -
  let ?v = "v_store env a 0x11 (v_store env a 0x10 (v_store env a 1 (v_store env a 1 d)))"
  let ?r = "ucast (regs d 0x10) OR push_bit 32 (ucast (regs d 0x11)) :: u64"
  let ?d = "v_store env a 1 ?v"
  have r: "ReadIoApicInterruptRegister env 0 0 (v_store env a 1 d) = Some (?r, ?v)"
    by (simp add: ReadIoApicInterruptRegister_def read_first IOAPICVER_def IOAPICREDTBL_def select_keeps)
  have lo: "(ucast (set_InterruptDisable True ?r) :: u32) = regs d 0x10 OR 0x4000"
    by (rule bit_word_eqI) (auto simp: set_InterruptDisable_def bit_simps)
  have hi: "(ucast (drop_bit 32 (set_InterruptDisable True ?r)) :: u32) = regs d 0x11"
    by (rule bit_word_eqI) (auto simp: set_InterruptDisable_def bit_simps dest: bit_word_bound)
  obtain d2 where d2: "WriteIoApicRegister env 0 0x10 (regs d 0x10 OR 0x4000) ?d = Some d2"
    "regs d2 = (regs d)(0x10 := masked (W 0x10) (regs d 0x10) (regs d 0x10 OR 0x4000))"
    using write_first [of "0x10" "regs d 0x10 OR 0x4000" ?d] by (auto simp: select_keeps)
  obtain d3 where d3: "WriteIoApicRegister env 0 0x11 (regs d 0x11) d2 = Some d3" "regs d3 = regs d2"
    using write_first [of "0x11" "regs d 0x11" d2] by (auto simp: d2(2) fun_eq_iff)
  have "DisableIoApicInterrupt env 0 0 d = Some (True, d3)"
    by (simp add: DisableIoApicInterrupt_def WriteIoApicInterruptRegister_def read_first IOAPICVER_def r
        IOAPICREDTBL_def lo hi d2(1) d3(1))
  with d2(2) d3(2) show ?thesis by simp
qed

lemma disable_all:
  "\<exists>d'. DisableIoApic env 0 d = Some (False, d')
    \<and> regs d' = (regs d)(0x10 := masked (W 0x10) (regs d 0x10) (regs d 0x10 OR 0x4000))"
proof -
  let ?d = "v_store env a 1 d"
  obtain d1 where d1: "DisableIoApicInterrupt env 0 0 ?d = Some (True, d1)"
    "regs d1 = (regs d)(0x10 := masked (W 0x10) (regs d 0x10) (regs d 0x10 OR 0x4000))"
    using first_pin [of ?d] by (auto simp: select_keeps)
  obtain d2 where d2: "DisableIoApicInterrupt env 0 1 d1 = Some (False, d2)" "regs d2 = regs d1"
    using later_pin [of 1 d1] by auto
  have "disable_loop env 0 0 ?d = Some (False, d2)"
    by (subst disable_loop.simps, simp add: d1(1), subst disable_loop.simps) (simp add: d2(1))
  then show ?thesis using d1(2) d2(2) by (simp add: DisableIoApic_def read_first IOAPICVER_def)
qed

lemma redirect:
  assumes "unat pin < 120"
  shows "\<exists>d'. IoApicSetRedirection env 0 pin vec apic d = Some d'
    \<and> regs d' = (regs d)(0x10 + ucast pin * 2 := masked (W (0x10 + ucast pin * 2)) (regs d (0x10 + ucast pin * 2)) (ucast vec),
         0x11 + ucast pin * 2 := masked (W (0x11 + ucast pin * 2)) (regs d (0x11 + ucast pin * 2)) (push_bit 24 (ucast apic)))"
proof -
  let ?k = "0x10 + ucast pin * 2 :: u32" and ?l = "0x11 + ucast pin * 2 :: u32"
  have "unat (ucast pin * 2 :: u32) = unat pin * 2" using assms by (simp add: unat_word_ariths)
  then have k: "unat ?k = 16 + unat pin * 2" "unat ?l = 17 + unat pin * 2"
    using assms by (simp_all add: unat_word_ariths)
  have in_window: "r AND 0xFF = r" if "unat r < 256" for r :: u32
    using that low_byte by simp
  have idx: "?k AND 0xFF = ?k" "?l AND 0xFF = ?l" using in_window k assms by simp_all
  have neq: "?k \<noteq> ?l" by simp
  have vec: "(ucast vec AND 0xFF :: u32) = ucast vec"
    using unsigned_less [of vec, where 'a = nat] by (intro in_window) simp
  obtain d1 where d1: "WriteIoApicRegister env 0 ?k (ucast vec) d = Some d1"
    "regs d1 = (regs d)(?k := masked (W ?k) (regs d ?k) (ucast vec))"
    using write_first [of ?k "ucast vec" d] by (auto simp: idx)
  obtain d2 where d2: "WriteIoApicRegister env 0 ?l (push_bit 24 (ucast apic)) d1 = Some d2"
    "regs d2 = (regs d1)(?l := masked (W ?l) (regs d1 ?l) (push_bit 24 (ucast apic)))"
    using write_first [of ?l "push_bit 24 (ucast apic)" d1] by (auto simp: idx)
  have "IoApicSetRedirection env 0 pin vec apic d = Some d2"
    by (simp add: IoApicSetRedirection_def Let_def vec d1(1) d2(1))
  then show ?thesis using d1(2) d2(2) neq by (simp add: fun_upd_twist)
qed

end

section \<open>The chip and a set of tables\<close>

text \<open>
  The documented chip: a select register, a file of 32-bit registers and the writable bits of the
  redirection registers (vector, delivery and destination mode, polarity, trigger mode and the mask
  at bit 16 in the low word, the destination in the high word).
\<close>

record ioapic_chip =
  chip_select :: u32
  chip_regs :: "u32 \<Rightarrow> u32"

definition chip_writable :: "u32 \<Rightarrow> u32" where
  "chip_writable k = (if k = 0 then 0x0F000000 else if k < 0x10 then 0 else if even k then 0x1AFFF else 0xFF000000)"

definition chip_store :: "u64 \<Rightarrow> u64 \<Rightarrow> u32 \<Rightarrow> ioapic_chip \<Rightarrow> ioapic_chip" where
  "chip_store a addr v c =
    (if addr = a then c\<lparr>chip_select := v AND 0xFF\<rparr>
     else if addr = a + 16 then
       c\<lparr>chip_regs := (chip_regs c)(chip_select c :=
           masked (chip_writable (chip_select c)) (chip_regs c (chip_select c)) v)\<rparr>
     else c)"

definition chip_load :: "u64 \<Rightarrow> u64 \<Rightarrow> ioapic_chip \<Rightarrow> u32" where
  "chip_load a addr c = (if addr = a then chip_select c else if addr = a + 16 then chip_regs c (chip_select c) else 0)"

text \<open>A root pointer at 0x1000, a root table at 0x2000 and an interrupt-controller table at 0x3000.\<close>

definition in_table :: "bytes \<Rightarrow> u64 \<Rightarrow> u64 \<Rightarrow> u8" where
  "in_table bs b x = (let i = unat (x - b) in if i < length bs then bs ! i else 0)"

definition sample_rsdt :: bytes where
  "sample_rsdt = [0x52, 0x53, 0x44, 0x54, 40, 0, 0, 0, 1, 0x6A] @ replicate 26 0 @ [0, 0x30, 0, 0]"

definition sample_madt :: bytes where
  "sample_madt = [0x41, 0x50, 0x49, 0x43, 52, 0, 0, 0, 1, 0x0A] @ replicate 26 0 @ [0, 0, 0xE0, 0xFE, 0, 0, 0, 0]
     @ [0, 8, 0, 0, 0, 0, 0xC0, 0xFE]"

definition tables_with :: "bytes \<Rightarrow> memory" where
  "tables_with t x =
    (if x < 0x2000 then in_table (replicate 17 0 @ [0x20, 0, 0]) 0x1000 x
     else if x < 0x3000 then in_table sample_rsdt 0x2000 x
     else in_table t 0x3000 x)"

definition sample_tables :: memory where "sample_tables = tables_with sample_madt"

definition chip_env :: "ioapic_chip ioapic_env" where
  "chip_env = \<lparr>v_map_virtual = id, v_alloc = id, v_mem = sample_tables, v_acpibase = 0x1000,
     v_store = chip_store 0xFEC00000, v_load = chip_load 0xFEC00000\<rparr>"

lemma in_table_nth:
  assumes "i < length bs" and "length bs < 2 ^ 64"
  shows "in_table bs b (b + of_nat i) = bs ! i"
  using assms by (simp add: in_table_def Let_def unat_of_nat)

lemma table_byte:
  "i < 20 \<Longrightarrow> tables_with t (0x1000 + of_nat i) = (replicate 17 0 @ [0x20, 0, 0]) ! i"
  "j < 40 \<Longrightarrow> tables_with t (0x2000 + of_nat j) = sample_rsdt ! j"
  "k < length t \<Longrightarrow> length t < 100 \<Longrightarrow> tables_with t (0x3000 + of_nat k) = t ! k"
proof -
  have u: "unat (of_nat n :: u64) = n" if "n < 100" for n using that by (simp add: unat_of_nat)
  show "i < 20 \<Longrightarrow> tables_with t (0x1000 + of_nat i) = (replicate 17 0 @ [0x20, 0, 0]) ! i"
    using in_table_nth [of i "replicate 17 0 @ [0x20, 0, 0]" "0x1000"] u [of i]
    by (simp add: tables_with_def word_less_nat_alt unat_word_ariths)
  show "j < 40 \<Longrightarrow> tables_with t (0x2000 + of_nat j) = sample_rsdt ! j"
    using in_table_nth [of j sample_rsdt "0x2000"] u [of j]
    by (simp add: tables_with_def word_less_nat_alt unat_word_ariths sample_rsdt_def)
  show "k < length t \<Longrightarrow> length t < 100 \<Longrightarrow> tables_with t (0x3000 + of_nat k) = t ! k"
    using in_table_nth [of k t "0x3000"] u [of k]
    by (simp add: tables_with_def word_less_nat_alt unat_word_ariths)
qed

lemma read_table:
  assumes "\<And>i. i < length bs \<Longrightarrow> m (b + of_nat i) = bs ! i" and "off + n \<le> length bs"
  shows "read_bytes m (b + of_nat off) n = take n (drop off bs)"
  using assms by (auto intro!: nth_equalityI simp: add.assoc simp flip: of_nat_add)

lemma table_bytes:
  "off + n \<le> 20 \<Longrightarrow> read_bytes (tables_with t) (0x1000 + of_nat off) n = take n (drop off (replicate 17 0 @ [0x20, 0, 0]))"
  "off + n \<le> 40 \<Longrightarrow> read_bytes (tables_with t) (0x2000 + of_nat off) n = take n (drop off sample_rsdt)"
  "off + n \<le> length t \<Longrightarrow> length t < 100 \<Longrightarrow>
    read_bytes (tables_with t) (0x3000 + of_nat off) n = take n (drop off t)"
  using read_table [of "replicate 17 0 @ [0x20, 0, 0]" "tables_with t" "0x1000"] read_table [of sample_rsdt "tables_with t" "0x2000"]
    read_table [of t "tables_with t" "0x3000"] table_byte [where t = t]
  by (simp_all add: sample_rsdt_def)

lemma table_root:
  "ValidateHeader (tables_with t) 0x2000" "n_pointers (tables_with t) 0x2000 0 = 1"
  "table_pointer (tables_with t) 0x2000 0 0 = 0x3000" "GetACPIRevision (tables_with t) 0x1000 = 0"
  "read_u32 (tables_with t) 0x1010 = 0x2000"
proof -
  have len: "h_Length (tables_with t) 0x2000 = 40"
    using table_bytes(2) [of 4 4] by (simp add: h_Length_def read_u32_def sample_rsdt_def)
  show "ValidateHeader (tables_with t) 0x2000" "n_pointers (tables_with t) 0x2000 0 = 1"
    using table_bytes(2) [of 0 40] len
    by (simp_all add: ValidateHeader_def n_pointers_def sizeof_SDTHeader_def XSDPRevision_def sample_rsdt_def
        sum_list_replicate)
  show "table_pointer (tables_with t) 0x2000 0 0 = 0x3000"
    using table_bytes(2) [of 36 4]
    by (simp add: table_pointer_def XSDPRevision_def read_u32_def sample_rsdt_def)
  show "GetACPIRevision (tables_with t) 0x1000 = 0" "read_u32 (tables_with t) 0x1010 = 0x2000"
    using table_byte(1) [of 15] table_bytes(1) [of 16 4]
    by (simp_all add: GetACPIRevision_def read_u32_def nth_append)
qed

lemma sample_byte: "k < 52 \<Longrightarrow> sample_tables (0x3000 + of_nat k) = sample_madt ! k"
  and sample_bytes: "off + n \<le> 52 \<Longrightarrow> read_bytes sample_tables (0x3000 + of_nat off) n = take n (drop off sample_madt)"
  using table_byte(3) [of k sample_madt] table_bytes(3) [of off n sample_madt]
  by (simp_all add: sample_tables_def) (simp_all add: sample_madt_def)

lemma table_search:
  assumes "ValidateHeader (tables_with t) 0x3000" "h_Signature (tables_with t) 0x3000 = sig" "sig \<in> set RSDT_SupportedTables"
  shows "SearchACPITable id (tables_with t) sig 0x1000 = Some 0x3000"
proof -
  have "searchable (tables_with t) sig 0x2000 0"
    using table_root(1) assms by (simp add: searchable_def XSDPRevision_def)
  then show ?thesis
    using table_root assms
    by (simp add: SearchACPITable_def SearchTable_def search_loop.simps [of id] XSDPRevision_def Let_def)
qed

lemma sample_apic:
  "ValidateHeader sample_tables 0x3000" "h_Signature sample_tables 0x3000 = ''APIC''"
  "h_Revision sample_tables 0x3000 = 1" "h_Length sample_tables 0x3000 = 52"
  "sample_tables 0x302C = 0" "read_u32 sample_tables 0x3030 = 0xFEC00000"
proof -
  show len: "h_Length sample_tables 0x3000 = 52"
    using sample_bytes [of 4 4] by (simp add: h_Length_def read_u32_def sample_madt_def)
  show "ValidateHeader sample_tables 0x3000"
    using sample_bytes [of 0 52] len
    by (simp add: ValidateHeader_def sizeof_SDTHeader_def sample_madt_def sum_list_replicate)
  show "h_Signature sample_tables 0x3000 = ''APIC''"
    using sample_bytes [of 0 4] by (simp add: h_Signature_def sample_madt_def char_of_def bit_0)
  show "h_Revision sample_tables 0x3000 = 1" "sample_tables 0x302C = 0"
    using sample_byte [of 8] sample_byte [of 44] by (simp_all add: h_Revision_def sample_madt_def nth_append)
  show "read_u32 sample_tables 0x3030 = 0xFEC00000"
    using sample_bytes [of 48 4] by (simp add: read_u32_def sample_madt_def)
qed

lemma sample_search: "SearchACPITable id sample_tables ''APIC'' 0x1000 = Some 0x3000"
  using sample_apic(1,2) table_search [of sample_madt "''APIC''"] by (simp add: sample_tables_def RSDT_SupportedTables_def)

lemma chip_address: "ioapic_address chip_env = Some (Some 0xFEC00000)"
  using sample_search sample_apic
  by (simp add: ioapic_address_def chip_env_def XSDPRevision_def ProcessorLocalAPIC_type_def Let_def word_le_nat_alt)

interpretation chip: register_window chip_env chip_regs chip_writable "0xFEC00000" "0xFEC00000"
  using chip_address
  by unfold_locales (simp_all add: MapAPIC_def chip_env_def chip_store_def chip_load_def)

section \<open>Properties\<close>

text \<open>Switching off all interrupts of an I/O APIC ends, reports failure and has changed nothing
  but bit 14 of the first redirection register.  The mask bit 16 keeps its value there, and every
  other pin is left alone: the pin number is taken for the number of the controller when its size is
  looked up.\<close>

theorem DisableIoApic_leaves_pins:
  assumes "register_window env regs W p a"
  shows "\<exists>d'. DisableIoApic env 0 d = Some (False, d')
    \<and> (\<forall>k. k \<noteq> 0x10 \<longrightarrow> regs d' k = regs d k)
    \<and> (\<forall>n. n \<noteq> 14 \<longrightarrow> bit (regs d' 0x10) n = bit (regs d 0x10) n)"
proof -
  have "bit (masked (W 0x10) v (v OR 0x4000)) n = bit v n" if "n \<noteq> 14" for v n
  proof -
    have "bit (0x4000 :: u32) n \<longleftrightarrow> n = 14" using bit_push_bit_iff [of 14 "1 :: u32" n] by (auto simp: bit_1_iff)
    then show ?thesis using that by (auto simp: masked_def bit_simps dest: bit_word_bound)
  qed
  then show ?thesis using register_window.disable_all [OF assms, of d] by auto
qed

theorem DisableIoApic_leaves_pins_witness:
  "\<exists>d'. DisableIoApic chip_env 0 \<lparr>chip_select = 0, chip_regs = \<lambda>k. 0x170011\<rparr> = Some (False, d')
    \<and> chip_regs d' 0x12 = 0x170011 \<and> bit (chip_regs d' 0x10) 16"
proof -
  obtain d' where d': "DisableIoApic chip_env 0 \<lparr>chip_select = 0, chip_regs = \<lambda>k. 0x170011\<rparr> = Some (False, d')"
    "\<forall>k. k \<noteq> 0x10 \<longrightarrow> chip_regs d' k = 0x170011"
    "\<forall>n. n \<noteq> 14 \<longrightarrow> bit (chip_regs d' 0x10) n = bit (0x170011 :: u32) n"
    using DisableIoApic_leaves_pins [OF chip.register_window_axioms, of "\<lparr>chip_select = 0, chip_regs = \<lambda>k. 0x170011\<rparr>"]
    by auto
  have "bit (0x170011 :: u32) 16" by code_simp
  with d' show ?thesis by (intro exI [of _ d']) simp
qed

text \<open>\<open>IoApicSetRedirection\<close> routes a pin of the first I/O APIC: the low word of its redirection
  register gets the vector, the high word the destination, each in the bits the device lets one write,
  and no other register changes.\<close>

theorem IoApicSetRedirection_routes:
  assumes "register_window env regs W p a" and "unat pin < 120"
  shows "\<exists>d'. IoApicSetRedirection env 0 pin vec apic d = Some d'
    \<and> regs d' (0x10 + ucast pin * 2) AND W (0x10 + ucast pin * 2) = ucast vec AND W (0x10 + ucast pin * 2)
    \<and> regs d' (0x11 + ucast pin * 2) AND W (0x11 + ucast pin * 2)
        = push_bit 24 (ucast apic) AND W (0x11 + ucast pin * 2)
    \<and> (\<forall>k. k \<noteq> 0x10 + ucast pin * 2 \<longrightarrow> k \<noteq> 0x11 + ucast pin * 2 \<longrightarrow> regs d' k = regs d k)"
proof -
  have "masked w x v AND w = v AND w" for w x v
    by (rule bit_word_eqI) (auto simp: masked_def bit_simps)
  then show ?thesis using register_window.redirect [OF assms, of vec apic d] by auto
qed

theorem IoApicSetRedirection_routes_witness:
  "\<exists>d'. IoApicSetRedirection chip_env 0 2 0x30 1 \<lparr>chip_select = 0, chip_regs = \<lambda>k. 0\<rparr> = Some d'
    \<and> chip_regs d' 0x14 AND 0x1AFFF = 0x30 \<and> chip_regs d' 0x15 AND 0xFF000000 = 0x1000000 \<and> chip_regs d' 0x16 = 0"
  using IoApicSetRedirection_routes [OF chip.register_window_axioms, of 2 "0x30" 1 "\<lparr>chip_select = 0, chip_regs = \<lambda>k. 0\<rparr>"]
  by (auto simp: chip_writable_def)

section \<open>Pointers of the 64-bit root table\<close>

lemma le_nat_append: "le_nat (xs @ ys) = le_nat xs + 256 ^ length xs * le_nat ys"
  by (induction xs) (simp_all add: algebra_simps)

lemma read_u64_halves: "read_u64 m q = ucast (read_u32 m q) + push_bit 32 (ucast (read_u32 m (q + 4)))"
proof -
  have b: "le_nat (read_bytes m x 4) < 2 ^ 32" for x using le_nat_less [of "read_bytes m x 4"] by simp
  have u: "(ucast (read_u32 m x) :: u64) = of_nat (le_nat (read_bytes m x 4))" for x
    using b [of x] by (simp add: read_u32_def word_unat_eq_iff unsigned_ucast_eq unat_of_nat take_bit_nat_eq_self)
  have "read_bytes m q 8 = read_bytes m q 4 @ read_bytes m (q + 4) 4" using read_bytes_add [of m q 4 4] by simp
  then show ?thesis unfolding u by (simp add: read_u64_def le_nat_append push_bit_eq_mult mult.commute)
qed

lemma straddling_word:
  assumes "drop_bit 32 (read_u64 m q) = 0"
  shows "take_bit 32 (read_u64 m (q + 4)) = 0"
proof -
  have add: "read_u64 m x = ucast (read_u32 m x) OR push_bit 32 (ucast (read_u32 m (x + 4)))" for x
    unfolding read_u64_halves
    by (subst disjunctive_add) (auto simp: bit_simps dest: bit_word_bound)
  have "\<not> bit (read_u32 m (q + 4)) n" for n
  proof
    assume "bit (read_u32 m (q + 4)) n"
    moreover from this have "n < 32" by (auto dest: bit_word_bound)
    ultimately have "bit (drop_bit 32 (read_u64 m q)) n" unfolding add [of q] by (simp add: bit_simps)
    with assms show False by simp
  qed
  then show ?thesis unfolding add [of "q + 4"] by (auto simp: bit_eq_iff bit_simps dest: bit_word_bound)
qed

lemma search_loop_unmapped:
  assumes "\<And>cc. cc < n_pointers m t rv \<Longrightarrow> mv (table_pointer m t rv cc) = 0"
  shows "search_loop mv m sig t rv cc = Some 0"
proof (induction "n_pointers m t rv - cc" arbitrary: cc)
  case 0
  then show ?case by (subst search_loop.simps) simp
next
  case (Suc k)
  then have "search_loop mv m sig t rv (cc + 1) = Some 0" by simp
  with Suc.hyps(2) assms show ?case by (subst search_loop.simps) (simp add: Let_def)
qed

text \<open>On a machine whose tables lie below 4 GiB no table is found through the 64-bit root table.
  The pointer array is declared without packing, so that every pointer is read four bytes too late:
  its low half is the high half of the listed address.  The tables are those at the listed addresses,
  36 bytes into the root table; no physical address that is a multiple of 4 GiB is mapped.\<close>

theorem xsdt_tables_never_found:
  assumes "rv \<ge> XSDPRevision"
    and "\<And>cc. cc < n_pointers m t rv \<Longrightarrow> drop_bit 32 (read_u64 m (t + 36 + of_nat (cc * 8))) = 0"
    and "\<And>q. take_bit 32 q = 0 \<Longrightarrow> mv q = 0"
  shows "SearchTable mv m sig t rv = Some 0"
proof -
  have "mv (table_pointer m t rv cc) = 0" if "cc < n_pointers m t rv" for cc
  proof (rule assms(3))
    have "t + 40 + of_nat (cc * 8) = t + 36 + of_nat (cc * 8) + 4" by simp
    then show "take_bit 32 (table_pointer m t rv cc) = 0"
      using straddling_word [OF assms(2) [OF that]] assms(1) by (simp add: table_pointer_def ac_simps)
  qed
  then show ?thesis by (simp add: SearchTable_def search_loop_unmapped)
qed

text \<open>The same tables with a 64-bit root table.\<close>

definition sample_xsdt :: bytes where
  "sample_xsdt = [0x58, 0x53, 0x44, 0x54, 44, 0, 0, 0, 1, 0x60] @ replicate 26 0 @ [0, 0x30, 0, 0, 0, 0, 0, 0]"

definition wide_tables :: memory where
  "wide_tables x = (if x < 0x3000 then in_table sample_xsdt 0x2000 x else in_table sample_madt 0x3000 x)"

lemma wide_root:
  "h_Length wide_tables 0x2000 = 44" "ValidateHeader wide_tables 0x2000" "read_u64 wide_tables 0x2024 = 0x3000"
proof -
  have u: "unat (of_nat n :: u64) = n" if "n < 100" for n using that by (simp add: unat_of_nat)
  have byte: "wide_tables (0x2000 + of_nat j) = sample_xsdt ! j" if "j < 44" for j
    using in_table_nth [of j sample_xsdt "0x2000"] u [of j] that
    by (simp add: wide_tables_def word_less_nat_alt unat_word_ariths sample_xsdt_def)
  have bytes: "read_bytes wide_tables (0x2000 + of_nat off) n = take n (drop off sample_xsdt)" if "off + n \<le> 44" for off n
    using read_table [of sample_xsdt wide_tables "0x2000" off n] byte that by (simp add: sample_xsdt_def)
  show len: "h_Length wide_tables 0x2000 = 44" using bytes [of 4 4] by (simp add: h_Length_def read_u32_def sample_xsdt_def)
  show "ValidateHeader wide_tables 0x2000"
    using bytes [of 0 44] len
    by (simp add: ValidateHeader_def sizeof_SDTHeader_def sample_xsdt_def sum_list_replicate)
  show "read_u64 wide_tables 0x2024 = 0x3000" using bytes [of 36 8] by (simp add: read_u64_def sample_xsdt_def)
qed

theorem xsdt_tables_never_found_witness:
  "SearchTable (\<lambda>q. if take_bit 32 q = 0 then 0 else q) wide_tables ''APIC'' 0x2000 2 = Some 0
   \<and> searchable wide_tables ''APIC'' 0x2000 2 \<and> read_u64 wide_tables (0x2000 + 36) = 0x3000"
proof -
  have "n_pointers wide_tables 0x2000 2 = 1"
    using wide_root(1) by (simp add: n_pointers_def sizeof_SDTHeader_def XSDPRevision_def)
  then have "SearchTable (\<lambda>q. if take_bit 32 q = 0 then 0 else q) wide_tables ''APIC'' 0x2000 2 = Some 0"
    using wide_root(3) by (intro xsdt_tables_never_found) (simp_all add: XSDPRevision_def)
  then show ?thesis
    using wide_root by (simp add: searchable_def XSDT_SupportedTables_def XSDPRevision_def)
qed

end
