(* ===== verification/Kernel_Clock.thy ===== *)
theory Kernel_Clock
  imports Kernel_Memory
begin

text \<open>
  The real-time clock of \<^verbatim>\<open>kernel/libcrt/hardware/hardware.c\<close> and the ranged random numbers of
  \<^verbatim>\<open>kernel/libcrt/hardware/RNG/RNG.c\<close>.  The clock registers, read after the update flag has cleared,
  and the source of random words are arguments.
\<close>

section \<open>Definitions\<close>

record CMOS_time_t =
  second :: u8
  minute :: u8
  hour :: u8
  day :: u8
  month :: u8
  year :: u32

definition CMOSGetElapsedDays :: "u8 \<Rightarrow> u8 \<Rightarrow> u8 \<Rightarrow> u32" where
  "CMOSGetElapsedDays Year Month Days =
    (let out = ucast Year * 365 + ucast (Year div 4);
         out = (if Month > 0 then out + 31 else out);
         out = (if Month > 1 then out + (if Year mod 4 = 0 then 29 else 28) else out);
         out = (if Month > 2 then out + 31 else out);
         out = (if Month > 3 then out + 30 else out);
         out = (if Month > 4 then out + 31 else out);
         out = (if Month > 5 then out + 30 else out);
         out = (if Month > 6 then out + 31 else out);
         out = (if Month > 7 then out + 31 else out);
         out = (if Month > 8 then out + 30 else out);
         out = (if Month > 9 then out + 31 else out);
         out = (if Month > 10 then out + 30 else out);
         out = (if Month > 11 then out + 31 else out)
     in out + ucast Days)"

definition from_bcd :: "'a::len word \<Rightarrow> 'a word" where
  "from_bcd v = (v AND 0x0F) + (v div 16) * 10"

definition CMOSGetTime :: "(u8 \<Rightarrow> u8) \<Rightarrow> CMOS_time_t" where
  "CMOSGetTime reg =
    (let t = \<lparr>second = reg 0x00, minute = reg 0x02, hour = reg 0x04, day = reg 0x07, month = reg 0x08,
              year = ucast (reg 0x09)\<rparr>;
         register_b = reg 0x0B;
         t1 = (if register_b AND 0x04 = 0 then
                 \<lparr>second = from_bcd (second t), minute = from_bcd (minute t),
                  hour = ((hour t AND 0x0F) + ((hour t AND 0x70) div 16) * 10) OR (hour t AND 0x80),
                  day = from_bcd (day t), month = from_bcd (month t), year = from_bcd (year t)\<rparr>
               else t);
         t2 = (if register_b AND 0x02 = 0 \<and> hour t1 AND 0x80 \<noteq> 0
               then t1\<lparr>hour := ((hour t1 AND 0x7F) + 12) mod 24\<rparr> else t1)
     in t2\<lparr>year := year t2 + 2000\<rparr>)"

text \<open>
  Ranged random numbers: the source is a sequence of words, the result comes with the position after
  the last word used.  The second form draws again while the word falls into the incomplete last
  range.  The full range has the length 0 in 64 bits and divides by it: no outcome.
\<close>

definition span :: "u64 \<Rightarrow> u64 \<Rightarrow> u64" where
  "span mn mx = c_max mx mn - mn + 1"

definition GetTrueRandomRange64 :: "u64 \<Rightarrow> u64 \<Rightarrow> u64 \<Rightarrow> u64 option" where
  "GetTrueRandomRange64 r mn mx = (if span mn mx = 0 then None else Some (r mod span mn mx))"

definition range_limit :: "u64 \<Rightarrow> u64" where
  "range_limit n = - 1 - (- 1) mod n"

partial_function (option) draw :: "(nat \<Rightarrow> u64) \<Rightarrow> nat \<Rightarrow> u64 \<Rightarrow> (u64 \<times> nat) option" where
  "draw rnd k lim = (if rnd k \<ge> lim then draw rnd (k + 1) lim else Some (rnd k, k + 1))"

definition GetTrueRandomRange64U :: "(nat \<Rightarrow> u64) \<Rightarrow> nat \<Rightarrow> u64 \<Rightarrow> u64 \<Rightarrow> (u64 \<times> nat) option" where
  "GetTrueRandomRange64U rnd k mn mx =
    (if span mn mx = 0 then None
     else map_option (\<lambda>(r, k'). (mn + r mod span mn mx, k')) (draw rnd k (range_limit (span mn mx))))"

section \<open>Calendar\<close>

definition month_days :: "bool \<Rightarrow> nat list" where
  "month_days leap = [31, if leap then 29 else 28, 31, 30, 31, 30, 31, 31, 30, 31, 30, 31]"

lemma month_sum:
  "sum_list (take m (month_days leap)) =
    (if 0 < m then 31 else 0) + (if 1 < m then if leap then 29 else 28 else 0) + (if 2 < m then 31 else 0)
    + (if 3 < m then 30 else 0) + (if 4 < m then 31 else 0) + (if 5 < m then 30 else 0) + (if 6 < m then 31 else 0)
    + (if 7 < m then 31 else 0) + (if 8 < m then 30 else 0) + (if 9 < m then 31 else 0) + (if 10 < m then 30 else 0)
    + (if 11 < m then 31 else 0)"
proof (cases "m < 12")
  case True
  then have "m \<in> set [0..<12]" by simp
  then show ?thesis unfolding month_days_def by (auto simp: upt_conv_Cons)
qed (simp add: month_days_def)

lemma month_sum_le: "sum_list (take m (month_days leap)) \<le> 366"
  unfolding month_sum by simp

text \<open>The day count is the days of the months before, each year counted as 365 days and one leap day
  for every four whole years.\<close>

lemma elapsed_days_reference:
  "unat (CMOSGetElapsedDays Y M D) =
    unat Y * 365 + unat Y div 4 + sum_list (take (unat M) (month_days (unat Y mod 4 = 0))) + unat D"
proof -
  let ?n = "unat Y * 365 + unat Y div 4 + sum_list (take (unat M) (month_days (unat Y mod 4 = 0))) + unat D"
  have u: "(ucast b :: u32) = of_nat (unat b)" for b :: u8 by simp
  have leap: "Y mod 4 = 0 \<longleftrightarrow> unat Y mod 4 = 0" by (simp add: word_unat_eq_iff unat_mod_distrib)
  have "CMOSGetElapsedDays Y M D = of_nat ?n"
    unfolding CMOSGetElapsedDays_def month_sum Let_def u leap
    by (simp add: word_less_nat_alt unat_div_distrib)
  moreover have "?n < 2 ^ 32"
    using unsigned_less [of Y, where 'a = nat] unsigned_less [of D, where 'a = nat] month_sum_le [of "unat M" "unat Y mod 4 = 0"]
      div_le_dividend [of "unat Y" 4] by simp
  ultimately show ?thesis by (simp only: unat_of_nat) simp
qed

text \<open>The last day of a leap year and the first day of the year after have the same number.\<close>

lemma elapsed_days_collide:
  assumes "unat Y mod 4 = 0"
  shows "CMOSGetElapsedDays Y 11 31 = CMOSGetElapsedDays (Y + 1) 0 1"
proof -
  have "unat Y \<noteq> 255" using assms by auto
  then have "unat (Y + 1) = unat Y + 1" using unsigned_less [of Y, where 'a = nat] by (simp add: unat_word_ariths)
  moreover have "(unat Y + 1) div 4 = unat Y div 4" using assms by presburger
  ultimately have "unat (CMOSGetElapsedDays Y 11 31) = unat (CMOSGetElapsedDays (Y + 1) 0 1)"
    unfolding elapsed_days_reference month_sum using assms by simp
  then show ?thesis by (simp add: word_unat_eq_iff)
qed

section \<open>Properties\<close>

text \<open>How the clock stores an hour of the twelve-hour day, and the hour of the day it means.\<close>

definition stored_hour :: "bool \<Rightarrow> nat \<Rightarrow> bool \<Rightarrow> u8" where
  "stored_hour bcd h pm = of_nat (if bcd then 16 * (h div 10) + h mod 10 else h) OR (if pm then 0x80 else 0)"

definition day_hour :: "nat \<Rightarrow> bool \<Rightarrow> nat" where
  "day_hour h pm = h mod 12 + (if pm then 12 else 0)"

lemma hour_of_registers:
  "hour (CMOSGetTime reg) =
    (let h = (if reg 0x0B AND 0x04 = 0
              then ((reg 4 AND 0x0F) + ((reg 4 AND 0x70) div 16) * 10) OR (reg 4 AND 0x80) else reg 4)
     in if reg 0x0B AND 0x02 = 0 \<and> h AND 0x80 \<noteq> 0 then ((h AND 0x7F) + 12) mod 24 else h)"
  by (auto simp: CMOSGetTime_def Let_def bit.conj_disj_distrib2)

text \<open>With the clock in twelve-hour mode every hour but the twelfth is read correctly, in binary
  and in BCD.  Midnight is read as 12 and noon as 0.\<close>

theorem twelve_hour_clock:
  assumes "reg 0x0B AND 0x02 = 0" and "1 \<le> h" and "h \<le> 12"
    and "reg 4 = stored_hour (reg 0x0B AND 0x04 = 0) h pm"
  shows "unat (hour (CMOSGetTime reg)) = day_hour h pm \<longleftrightarrow> h \<noteq> 12"
proof -
  have "h = 1 \<or> h = 2 \<or> h = 3 \<or> h = 4 \<or> h = 5 \<or> h = 6 \<or> h = 7 \<or> h = 8 \<or> h = 9 \<or> h = 10 \<or> h = 11 \<or> h = 12"
    using assms(2,3) by presburger
  then show ?thesis
    using assms(1,4)
    by (cases pm; cases "reg 0x0B AND 0x04 = 0")
      (auto simp: hour_of_registers Let_def stored_hour_def day_hour_def)
qed

theorem twelve_hour_clock_witness:
  "unat (hour (CMOSGetTime (\<lambda>r. if r = 4 then 0x92 else 0))) \<noteq> 12
   \<and> unat (hour (CMOSGetTime (\<lambda>r. if r = 4 then 0x91 else 0))) = 23"
  using twelve_hour_clock [of "\<lambda>r. if r = 4 then 0x92 else 0" 12 True] twelve_hour_clock [of "\<lambda>r. if r = 4 then 0x91 else 0" 11 True]
  by (simp add: stored_hour_def day_hour_def)

lemma draw_returns:
  assumes "rnd (k + n) < lim"
  shows "\<exists>r k'. draw rnd k lim = Some (r, k')"
  using assms
proof (induction n arbitrary: k)
  case 0
  then show ?case by (subst draw.simps) (simp add: not_le [symmetric])
next
  case (Suc n)
  then have "\<exists>r k'. draw rnd (k + 1) lim = Some (r, k')" by simp
  then show ?case by (subst draw.simps) simp
qed

text \<open>A uniform random number is delivered as soon as the source yields a word below the limit,
  and it lies between the two bounds.\<close>

theorem random_in_range:
  assumes "mn \<le> mx" and "mx - mn \<noteq> - 1" and "rnd (k + n) < range_limit (span mn mx)"
  shows "\<exists>r k'. GetTrueRandomRange64U rnd k mn mx = Some (r, k') \<and> mn \<le> r \<and> r \<le> mx"
proof -
  have s: "span mn mx = mx - mn + 1" using assms(1) by (auto simp: span_def c_max_def)
  have "span mn mx \<noteq> 0" using assms(2) unfolding s by (metis add_diff_cancel_right' diff_0)
  moreover have bound: "mn \<le> mn + r mod span mn mx \<and> mn + r mod span mn mx \<le> mx" for r
  proof -
    have "unat (mx - mn) + 1 < 2 ^ 64"
      using assms(2) unat_u64_less [of "mx - mn"] unat_u64_less [of "- 1"] by (auto simp: word_unat_eq_iff unsigned_minus_1_eq_mask mask_eq_exp_minus_1)
    then have "unat (span mn mx) = unat mx - unat mn + 1"
      unfolding s using assms(1) by (simp add: unat_word_ariths unat_sub)
    moreover from this have "unat (r mod span mn mx) < unat (span mn mx)" by (simp add: unat_mod_distrib)
    ultimately have le: "unat mn + unat (r mod span mn mx) \<le> unat mx"
      using assms(1) by (simp add: word_le_nat_alt)
    then have "unat (mn + r mod span mn mx) = unat mn + unat (r mod span mn mx)"
      using unat_u64_less [of mx] by (simp add: unat_word_ariths)
    with le show ?thesis by (simp add: word_le_nat_alt)
  qed
  ultimately show ?thesis
    using draw_returns [of rnd k n, OF assms(3)] bound by (auto simp: GetTrueRandomRange64U_def)
qed

theorem random_in_range_witness:
  "\<exists>r k'. GetTrueRandomRange64U (\<lambda>k. of_nat k - 2) 0 10 15 = Some (r, k') \<and> 10 \<le> r \<and> r \<le> 15"
proof (rule random_in_range [where n = 2])
  show "of_nat (0 + 2) - 2 < range_limit (span 10 15)" by code_simp
qed simp_all

end
