(* ===== verification/Frat_Raw.thy ===== *)
theory Frat_Raw
  imports Prelude
begin

text \<open>
  The raw disk layer of the file system tools, \<^verbatim>\<open>tools/filesystem/raw.c\<close>, on an image file that
  is a list of bytes.  A write behind the end of the image extends it with zeros, as the C
  library does; a read that the image cannot fill gives \<open>None\<close>, the null pointer.  Positions and
  sizes are computed in the widths of the source, and \<open>raw_fits\<close> says when nothing wraps.  The
  locale \<open>block_store\<close> is the contract that the file layer uses.
\<close>

definition DefaultRawDiskSize :: u32 where "DefaultRawDiskSize = 512"

record rawenv =
  Partition :: u64
  CalcBlock :: u32
  ConfBlock :: u32
  RealBlock :: u32

definition getblocksize :: "rawenv \<Rightarrow> u32" where
  "getblocksize re = ConfBlock re"

definition setblocksize :: "u32 \<Rightarrow> rawenv \<Rightarrow> rawenv" where
  "setblocksize new re =
    re\<lparr>ConfBlock := new, CalcBlock := safediv (new + RealBlock re - 1) (RealBlock re)\<rparr>"

definition startup :: "u64 \<Rightarrow> u32 \<Rightarrow> rawenv" where
  "startup base configuredBlockSize =
    (let calc = configuredBlockSize div DefaultRawDiskSize
                + of_bool (configuredBlockSize mod DefaultRawDiskSize \<noteq> 0)
     in \<lparr>Partition = base, CalcBlock = (if calc = 0 then 1 else calc),
         ConfBlock = configuredBlockSize, RealBlock = DefaultRawDiskSize\<rparr>)"

section \<open>The image file\<close>

definition file_read :: "bytes \<Rightarrow> nat \<Rightarrow> nat \<Rightarrow> bytes option" where
  "file_read f off n = (if n = 0 \<or> off + n \<le> length f then Some (take n (drop off f)) else None)"

definition file_write :: "bytes \<Rightarrow> nat \<Rightarrow> bytes \<Rightarrow> bytes" where
  "file_write f off bs =
    (if bs = [] then f
     else take off f @ replicate (off - length f) 0 @ bs @ drop (off + length bs) f)"

section \<open>Blocks\<close>

definition block_bytes :: "rawenv \<Rightarrow> u64" where
  "block_bytes re = ucast (RealBlock re * CalcBlock re)"

definition n_blocks :: "rawenv \<Rightarrow> u64 \<Rightarrow> u64" where
  "n_blocks re nbytes =
    safediv (nbytes + block_bytes re - 1) (block_bytes re) * ucast (CalcBlock re)"

definition seek_pos :: "rawenv \<Rightarrow> u64 \<Rightarrow> u64" where
  "seek_pos re pos =
    Partition re * ucast (RealBlock re)
    + (pos - Partition re) * ucast (RealBlock re) * ucast (CalcBlock re)"

definition readblocks :: "rawenv \<Rightarrow> bytes \<Rightarrow> u64 \<Rightarrow> u64 \<Rightarrow> bytes option" where
  "readblocks re disk pos nbytes =
    (if pos < Partition re then None
     else
       let allocSize = n_blocks re nbytes * ucast (RealBlock re)
       in file_read disk (unat (seek_pos re pos)) (unat allocSize))"

text \<open>The buffer is zeroed, so the tail of the last block is filled with zeros.\<close>

definition writeblocks :: "rawenv \<Rightarrow> bytes \<Rightarrow> u64 \<Rightarrow> u64 \<Rightarrow> bytes \<Rightarrow> bytes" where
  "writeblocks re data pos nbytes disk =
    (if pos < Partition re then disk
     else
       let size = unat (n_blocks re nbytes) * unat (RealBlock re);
           buf = take (unat nbytes) data @ replicate (size - unat nbytes) 0
       in file_write disk (unat (seek_pos re pos)) buf)"

definition writebytes :: "rawenv \<Rightarrow> bytes \<Rightarrow> u64 \<Rightarrow> u64 \<Rightarrow> bytes \<Rightarrow> bytes option" where
  "writebytes re data bytepos nbytes disk =
    (let pos = safediv (bytepos * ucast (CalcBlock re)) (ucast (ConfBlock re));
         byteoffset = unat ((bytepos * ucast (CalcBlock re)) mod ucast (ConfBlock re))
     in do {
       rdata \<leftarrow> readblocks re disk pos nbytes;
       (if byteoffset + unat nbytes \<le> length rdata then
          Some (writeblocks re (take byteoffset rdata @ take (unat nbytes) data
                  @ drop (byteoffset + unat nbytes) rdata) pos nbytes disk)
        else None)
     })"

definition readbytes :: "rawenv \<Rightarrow> bytes \<Rightarrow> u64 \<Rightarrow> u16 \<Rightarrow> u64 \<Rightarrow> bytes option" where
  "readbytes re disk pos offset nbytes =
    (let conf = ucast (ConfBlock re) :: u64; off = ucast offset :: u64;
         start = unat (safediv off conf + off mod conf);
         n = unat nbytes;
         clear = unat ((nbytes + block_bytes re - 1) * ucast (RealBlock re) - nbytes)
     in do {
       rdata \<leftarrow> readblocks re disk (safediv ((pos + safediv off conf) * ucast (CalcBlock re)) conf) nbytes;
       (if start + n \<le> length rdata \<and> start + n + clear \<le> length rdata then
          (let r1 = take n (drop start rdata) @ drop n rdata
           in Some (take (start + n) r1 @ replicate clear 0 @ drop (start + n + clear) r1))
        else None)
     })"

section \<open>Image file laws\<close>

lemma length_file_write:
  "length (file_write f off bs) = (if bs = [] then length f else max (length f) (off + length bs))"
  by (simp add: file_write_def max_def min_def)

lemma file_write_nth:
  "i < length (file_write f off bs) \<Longrightarrow>
     file_write f off bs ! i =
       (if i < off then (if i < length f then f ! i else 0)
        else if i < off + length bs then bs ! (i - off) else f ! i)"
  by (auto simp: file_write_def nth_append min_def)

lemma file_read_nth:
  "file_read f off n = Some bs \<longleftrightarrow>
     (n = 0 \<or> off + n \<le> length f) \<and> length bs = n \<and> (\<forall>i < n. bs ! i = f ! (off + i))"
proof (cases "n = 0")
  case True
  then show ?thesis by (auto simp: file_read_def)
next
  case False
  then have "file_read f off n = (if off + n \<le> length f then Some (take n (drop off f)) else None)"
    by (simp add: file_read_def)
  moreover have "take n (drop off f) = bs \<longleftrightarrow> length bs = n \<and> (\<forall>i < n. bs ! i = f ! (off + i))"
    if "off + n \<le> length f"
    using that by (auto simp: list_eq_iff_nth_eq)
  ultimately show ?thesis using False by (auto split: if_splits)
qed

lemma file_read_write_same: "file_read (file_write f off bs) off (length bs) = Some bs"
  by (simp add: file_read_nth length_file_write file_write_nth)

lemma file_read_write_other:
  assumes "off + length bs \<le> off' \<or> off' + n \<le> off" and "file_read f off' n = Some c"
  shows "file_read (file_write f off bs) off' n = Some c"
proof (cases "bs = []")
  case True
  then show ?thesis using assms by (simp add: file_write_def)
next
  case False
  then show ?thesis using assms by (auto simp: file_read_nth length_file_write file_write_nth)
qed

section \<open>Positions without wrap-around\<close>

definition wf_env :: "rawenv \<Rightarrow> bool" where
  "wf_env re = (RealBlock re = 512 \<and> 0 < CalcBlock re \<and> 512 * unat (CalcBlock re) < 2 ^ 32)"

text \<open>The size of a configured block in bytes, and its distance from the partition.\<close>

definition bsize :: "rawenv \<Rightarrow> nat" where
  "bsize re = 512 * unat (CalcBlock re)"

definition boff :: "rawenv \<Rightarrow> u64 \<Rightarrow> nat" where
  "boff re pos = unat (Partition re) * 512 + (unat pos - unat (Partition re)) * bsize re"

definition raw_fits :: "rawenv \<Rightarrow> u64 \<Rightarrow> bool" where
  "raw_fits re pos = (Partition re \<le> pos \<and> boff re pos < 2 ^ 63)"

lemma bsize_pos: "wf_env re \<Longrightarrow> 0 < bsize re"
  by (simp add: wf_env_def bsize_def word_less_nat_alt)

lemma bsize_less: "wf_env re \<Longrightarrow> bsize re < 2 ^ 32"
  by (simp add: wf_env_def bsize_def)

lemma unat_ucast_u32 [simp]: "unat (ucast (x :: u32) :: u64) = unat x"
proof -
  have "unat x < 2 ^ 32" using unsigned_less [of x, where 'a = nat] by simp
  then show ?thesis by (simp add: unsigned_ucast_eq take_bit_nat_eq_self)
qed

lemma unat_block_bytes: "wf_env re \<Longrightarrow> unat (block_bytes re) = bsize re"
  by (simp add: block_bytes_def bsize_def wf_env_def unat_mult_small)

lemma unat_seek_pos:
  assumes "wf_env re" and "raw_fits re pos"
  shows "unat (seek_pos re pos) = boff re pos"
proof -
  let ?P = "unat (Partition re)" and ?d = "unat pos - unat (Partition re)"
  let ?c = "unat (CalcBlock re)"
  have le: "Partition re \<le> pos" and b: "?P * 512 + ?d * (512 * ?c) < 2 ^ 63"
    using assms(2) by (simp_all add: raw_fits_def boff_def bsize_def)
  have d: "unat (pos - Partition re) = ?d"
    using le by (simp add: unat_sub_small word_le_nat_alt)
  have c: "0 < ?c" using assms(1) by (simp add: wf_env_def word_less_nat_alt)
  have "?d * 512 \<le> ?d * (512 * ?c)" using c by simp
  with b have "?d * 512 < 2 ^ 63" by linarith
  then have 1: "unat ((pos - Partition re) * 512) = ?d * 512"
    using d by (subst unat_mult_small) simp_all
  have "?d * (512 * ?c) < 2 ^ 63" using b by linarith
  then have "?d * 512 * ?c < 2 ^ 64" unfolding mult.assoc by (rule order.strict_trans) simp
  with 1 have 2: "unat ((pos - Partition re) * 512 * ucast (CalcBlock re)) = ?d * (512 * ?c)"
    by (subst unat_mult_small) (simp_all only: unat_ucast_u32 mult.assoc, simp)
  have 3: "unat (Partition re * 512) = ?P * 512"
    using b by (subst unat_mult_small) simp_all
  have "unat (Partition re * 512 + (pos - Partition re) * 512 * ucast (CalcBlock re))
      = ?P * 512 + ?d * (512 * ?c)"
    using b 2 3 by (subst unat_add_small) simp_all
  then show ?thesis
    using assms(1) by (simp add: seek_pos_def boff_def bsize_def wf_env_def)
qed

definition rounded :: "rawenv \<Rightarrow> nat \<Rightarrow> nat" where
  "rounded re n = (n + bsize re - 1) div bsize re * bsize re"

lemma unat_n_blocks:
  assumes "wf_env re" and "unat nbytes < 2 ^ 62"
  shows "unat (n_blocks re nbytes) * 512 = rounded re (unat nbytes)"
    and "unat (n_blocks re nbytes * 512) = rounded re (unat nbytes)"
proof -
  let ?B = "bsize re" and ?n = "unat nbytes"
  note B = bsize_pos [OF assms(1)] bsize_less [OF assms(1)] unat_block_bytes [OF assms(1)]
  have s: "unat (nbytes + block_bytes re) = ?n + ?B"
    using B assms(2) by (subst unat_add_small) simp_all
  have t: "unat (nbytes + block_bytes re - 1) = ?n + ?B - 1"
    using B s by (subst unat_sub_small) simp_all
  have nz: "block_bytes re \<noteq> 0" using B by auto
  let ?q = "(?n + ?B - 1) div ?B"
  have q: "?q * ?B \<le> ?n + ?B - 1" by simp
  have qB: "?q * ?B < 2 ^ 63"
    by (rule le_less_trans [OF q]) (use B assms(2) in simp)
  have c: "?q * unat (CalcBlock re) \<le> ?q * ?B" by (simp add: bsize_def)
  have "unat (safediv (nbytes + block_bytes re - 1) (block_bytes re)) = ?q"
    using nz t B by (simp add: safediv_def unat_div_distrib)
  moreover have "?q * unat (CalcBlock re) < 2 ^ 64" using c qB by (rule order.strict_trans1 [THEN order.strict_trans]) simp
  ultimately have "unat (n_blocks re nbytes) = ?q * unat (CalcBlock re)"
    unfolding n_blocks_def by (subst unat_mult_small) (simp_all only: unat_ucast_u32, simp)
  then show 1: "unat (n_blocks re nbytes) * 512 = rounded re ?n"
    by (simp add: rounded_def bsize_def)
  then show "unat (n_blocks re nbytes * 512) = rounded re ?n"
    using qB by (subst unat_mult_small) (simp_all add: rounded_def)
qed

lemma rounded_ge: "wf_env re \<Longrightarrow> n \<le> rounded re n"
proof -
  assume "wf_env re"
  then have B: "0 < bsize re" by (rule bsize_pos)
  have "n + bsize re - 1 < (n + bsize re - 1) div bsize re * bsize re + bsize re"
    using B by (metis add.commute mod_less_divisor mult_div_mod_eq mult.commute nat_add_left_cancel_less)
  then show ?thesis unfolding rounded_def using B by linarith
qed

lemma rounded_one: "wf_env re \<Longrightarrow> 0 < n \<Longrightarrow> n \<le> bsize re \<Longrightarrow> rounded re n = bsize re"
proof -
  assume "wf_env re" "0 < n" "n \<le> bsize re"
  then have "(n + bsize re - 1) div bsize re = 1"
    by (intro div_nat_eqI) auto
  then show ?thesis by (simp add: rounded_def)
qed

lemma readblocks_eq:
  assumes "wf_env re" and "raw_fits re pos" and "unat nbytes < 2 ^ 62"
  shows "readblocks re disk pos nbytes = file_read disk (boff re pos) (rounded re (unat nbytes))"
  using assms unat_n_blocks(2) [OF assms(1,3)]
  by (auto simp: readblocks_def Let_def unat_seek_pos raw_fits_def wf_env_def)

lemma writeblocks_eq:
  assumes "wf_env re" and "raw_fits re pos" and "unat nbytes < 2 ^ 62"
  shows "writeblocks re data pos nbytes disk = file_write disk (boff re pos)
    (take (unat nbytes) data @ replicate (rounded re (unat nbytes) - unat nbytes) 0)"
  using assms unat_n_blocks(1) [OF assms(1,3)]
  by (auto simp: writeblocks_def Let_def unat_seek_pos raw_fits_def wf_env_def)


section \<open>The block store contract\<close>

text \<open>
  What the file layer relies on: a block that was written is read back, up to the padding behind
  its \<open>bs\<close> bytes, and the blocks at other positions keep their contents.
\<close>

locale block_store =
  fixes rd :: "'d \<Rightarrow> 'p \<Rightarrow> bytes option"
    and wr :: "'d \<Rightarrow> 'p \<Rightarrow> bytes \<Rightarrow> 'd"
    and bs :: nat
    and ok :: "'p \<Rightarrow> bool"
  assumes rd_wr_same: "ok p \<Longrightarrow> length b = bs \<Longrightarrow> \<exists>c. rd (wr d p b) p = Some c \<and> take bs c = b"
    and rd_wr_other: "ok p \<Longrightarrow> ok q \<Longrightarrow> p \<noteq> q \<Longrightarrow> length b = bs \<Longrightarrow>
      rd d q = Some c \<Longrightarrow> rd (wr d p b) q = Some c"
begin

definition blk :: "bytes \<Rightarrow> bool" where
  "blk b = (length b = bs)"

definition holds :: "'d \<Rightarrow> 'p \<Rightarrow> bytes \<Rightarrow> bool" where
  "holds d p b = (\<exists>c. rd d p = Some c \<and> take bs c = b)"

lemma holds_same: "ok p \<Longrightarrow> blk b \<Longrightarrow> holds (wr d p b) p b"
  using rd_wr_same by (simp add: holds_def blk_def)

lemma holds_other:
  "ok p \<Longrightarrow> ok q \<Longrightarrow> p \<noteq> q \<Longrightarrow> blk b \<Longrightarrow> holds d q c \<Longrightarrow> holds (wr d p b) q c"
  using rd_wr_other by (auto simp: holds_def blk_def)

lemma holds_unique: "holds d p b \<Longrightarrow> holds d p c \<Longrightarrow> b = c"
  by (auto simp: holds_def)

text \<open>A sequence of writes to distinct positions leaves every block where it was put.\<close>

lemma fold_wr_other:
  "ok q \<Longrightarrow> q \<notin> fst ` set pbs \<Longrightarrow> \<forall>(p, b) \<in> set pbs. ok p \<and> blk b \<Longrightarrow>
     holds d q c \<Longrightarrow> holds (fold (\<lambda>(p, b) d. wr d p b) pbs d) q c"
proof (induction pbs arbitrary: d)
  case (Cons x pbs)
  obtain a b where x: "x = (a, b)" by fastforce
  with Cons.prems have "holds (wr d a b) q c" by (auto intro: holds_other)
  with x Cons show ?case by simp
qed simp

lemma fold_wr_holds:
  assumes "distinct (map fst pbs)" and "\<forall>(p, b) \<in> set pbs. ok p \<and> blk b"
    and "(p, b) \<in> set pbs"
  shows "holds (fold (\<lambda>(p, b) d. wr d p b) pbs d) p b"
  using assms
proof (induction pbs arbitrary: d)
  case (Cons x pbs)
  show ?case
  proof (cases "x = (p, b)")
    case True
    with Cons.prems have "p \<notin> fst ` set pbs" "ok p" "blk b" by auto
    then show ?thesis
      using True Cons.prems by (auto intro!: fold_wr_other holds_same)
  qed (use Cons in auto)
qed simp

end

text \<open>
  The tools read and write one configured block at a time through an environment opened with
  \<open>startup\<close>.  The position must lie in the partition and its byte offset below \<open>2 ^ 63\<close>.
\<close>

definition read_block :: "rawenv \<Rightarrow> bytes \<Rightarrow> u64 \<Rightarrow> bytes option" where
  "read_block re disk pos = readblocks re disk pos (ucast (ConfBlock re))"

definition write_block :: "rawenv \<Rightarrow> bytes \<Rightarrow> u64 \<Rightarrow> bytes \<Rightarrow> bytes" where
  "write_block re disk pos b = writeblocks re b pos (ucast (ConfBlock re)) disk"

definition block_ok :: "rawenv \<Rightarrow> u64 \<Rightarrow> bool" where
  "block_ok re pos = (wf_env re \<and> raw_fits re pos \<and> 0 < unat (ConfBlock re)
     \<and> unat (ConfBlock re) \<le> bsize re)"

lemma block_ok_unfold:
  assumes "block_ok re pos"
  shows "read_block re disk pos = file_read disk (boff re pos) (bsize re)"
    and "write_block re disk pos b = file_write disk (boff re pos)
      (take (unat (ConfBlock re)) b @ replicate (bsize re - unat (ConfBlock re)) 0)"
proof -
  have a: "wf_env re" "raw_fits re pos" "rounded re (unat (ConfBlock re)) = bsize re"
    using assms by (simp_all add: block_ok_def rounded_one)
  have n: "unat (ucast (ConfBlock re) :: u64) < 2 ^ 62"
    using assms bsize_less [OF a(1)] by (simp add: block_ok_def)
  show "read_block re disk pos = file_read disk (boff re pos) (bsize re)"
    using readblocks_eq [OF a(1,2) n] a(3) by (simp add: read_block_def)
  show "write_block re disk pos b = file_write disk (boff re pos)
      (take (unat (ConfBlock re)) b @ replicate (bsize re - unat (ConfBlock re)) 0)"
    using writeblocks_eq [OF a(1,2) n] a(3) by (simp add: write_block_def)
qed

lemma boff_apart:
  assumes "raw_fits re p" and "raw_fits re q" and "p \<noteq> q"
  shows "boff re p + bsize re \<le> boff re q \<or> boff re q + bsize re \<le> boff re p"
proof -
  let ?P = "unat (Partition re)"
  have "?P \<le> unat p" "?P \<le> unat q" "unat p \<noteq> unat q"
    using assms by (simp_all add: raw_fits_def word_le_nat_alt word_unat_eq_iff)
  then consider "Suc (unat p - ?P) \<le> unat q - ?P" | "Suc (unat q - ?P) \<le> unat p - ?P" by linarith
  then show ?thesis
  proof cases
    case 1
    from mult_le_mono1 [OF this, of "bsize re"] show ?thesis by (simp add: boff_def)
  next
    case 2
    from mult_le_mono1 [OF this, of "bsize re"] show ?thesis by (simp add: boff_def)
  qed
qed

interpretation raw: block_store "read_block re" "write_block re" "unat (ConfBlock re)" "block_ok re" for re
proof
  fix p and b d :: bytes
  assume ok: "block_ok re p" and b: "length b = unat (ConfBlock re)"
  then have "length (take (unat (ConfBlock re)) b @ replicate (bsize re - unat (ConfBlock re)) 0) = bsize re"
    by (simp add: block_ok_def)
  from file_read_write_same [of d "boff re p" "take (unat (ConfBlock re)) b
      @ replicate (bsize re - unat (ConfBlock re)) 0", unfolded this] ok b
  show "\<exists>c. read_block re (write_block re d p b) p = Some c \<and> take (unat (ConfBlock re)) c = b"
    by (simp add: block_ok_unfold)
next
  fix p q and b d c :: bytes
  assume ok: "block_ok re p" "block_ok re q" and ne: "p \<noteq> q" and b: "length b = unat (ConfBlock re)"
    and r: "read_block re d q = Some c"
  have "boff re p + bsize re \<le> boff re q \<or> boff re q + bsize re \<le> boff re p"
    using ok ne boff_apart by (simp add: block_ok_def)
  then show "read_block re (write_block re d p b) q = Some c"
    using ok b r by (simp add: block_ok_unfold file_read_write_other block_ok_def)
qed

section \<open>Properties\<close>

lemma wf_env_startup:
  assumes "unat conf \<le> 2 ^ 32 - 1024"
  shows "wf_env (startup base conf) \<and> unat conf \<le> bsize (startup base conf)"
proof -
  have d: "unat (conf div 512) = unat conf div 512" "unat (conf mod 512) = unat conf mod 512"
    by (simp_all add: unat_div_distrib unat_mod_distrib)
  let ?e = "of_bool (conf mod 512 \<noteq> 0) :: u32"
  have e: "unat ?e = of_bool (unat conf mod 512 \<noteq> 0)"
    using d(2) by (cases "conf mod 512 = 0") (auto simp: word_unat_eq_iff)
  have c: "unat (conf div 512 + ?e) = unat conf div 512 + of_bool (unat conf mod 512 \<noteq> 0)"
  proof -
    have "unat conf div 512 < 2 ^ 31" using assms by (simp add: div_less_iff_less_mult)
    then show ?thesis by (subst unat_add_small) (simp_all only: d e, simp_all)
  qed
  then show ?thesis
    using assms
    by (cases "conf div 512 + ?e = 0")
       (auto simp: startup_def Let_def wf_env_def bsize_def DefaultRawDiskSize_def
         word_less_nat_alt unat_gt_0)
qed

text \<open>C11: what \<open>writeblocks\<close> puts on the image, \<open>readblocks\<close> gives back, padded with zeros to whole
  blocks; the write changes no other byte range of the image and an attempt below the partition
  changes nothing.\<close>

theorem raw_write_read:
  assumes "wf_env re" and "raw_fits re pos" and "unat nbytes < 2 ^ 62" and "length data = unat nbytes"
  shows "readblocks re (writeblocks re data pos nbytes disk) pos nbytes
      = Some (data @ replicate (rounded re (unat nbytes) - unat nbytes) 0)
    \<and> (\<forall>off n c. off + n \<le> boff re pos \<or> boff re pos + rounded re (unat nbytes) \<le> off \<longrightarrow>
         file_read disk off n = Some c \<longrightarrow>
         file_read (writeblocks re data pos nbytes disk) off n = Some c)
    \<and> (\<forall>q < Partition re. writeblocks re data q nbytes disk = disk
         \<and> readblocks re disk q nbytes = None)"
proof -
  have l: "length (data @ replicate (rounded re (unat nbytes) - unat nbytes) (0 :: u8))
      = rounded re (unat nbytes)"
    using rounded_ge [OF assms(1), of "unat nbytes"] assms(4) by simp
  have w: "writeblocks re data pos nbytes disk = file_write disk (boff re pos)
      (data @ replicate (rounded re (unat nbytes) - unat nbytes) 0)"
    using writeblocks_eq [OF assms(1-3)] assms(4) by simp
  have "readblocks re (writeblocks re data pos nbytes disk) pos nbytes
      = Some (data @ replicate (rounded re (unat nbytes) - unat nbytes) 0)"
    unfolding readblocks_eq [OF assms(1-3)] w
    using file_read_write_same [of disk "boff re pos"
        "data @ replicate (rounded re (unat nbytes) - unat nbytes) 0"] l by simp
  moreover have "file_read (writeblocks re data pos nbytes disk) off n = Some c"
    if "off + n \<le> boff re pos \<or> boff re pos + rounded re (unat nbytes) \<le> off"
      "file_read disk off n = Some c" for off n c
    unfolding w using that l by (intro file_read_write_other) auto
  ultimately show ?thesis by (simp add: writeblocks_def readblocks_def)
qed

theorem raw_write_read_witness:
  "readblocks (startup 4 512) (writeblocks (startup 4 512) [1, 2, 3] 5 3 []) 5 3
     = Some ([1, 2, 3] @ replicate 509 0)"
proof -
  have e: "startup 4 512 = \<lparr>Partition = 4, CalcBlock = 1, ConfBlock = 512, RealBlock = 512\<rparr>"
    by (simp add: startup_def DefaultRawDiskSize_def)
  have "rounded (startup 4 512) 3 = 512" by (simp add: e rounded_def bsize_def)
  moreover have "wf_env (startup 4 512)" "raw_fits (startup 4 512) 5"
    by (simp_all add: e wf_env_def raw_fits_def boff_def bsize_def)
  ultimately show ?thesis
    using raw_write_read [of "startup 4 512" 5 3 "[1, 2, 3]" "[]"] by simp
qed

end
