(* ===== verification/Frat_Map.thy ===== *)
theory Frat_Map
  imports Frat_Raw
begin

text \<open>
  The cluster map of the FRAT file system: the records of \<^verbatim>\<open>tools/filesystem/frat.h\<close> and the
  operations of \<^verbatim>\<open>tools/filesystem/frat.c\<close> that find, allocate and release clusters.  A pointer to
  an \<open>fsblock\<close> is its index in the map.  The operations act on the mounted root together with the
  image it lives on; the tools open the image anew for every access, so \<open>disk_env\<close> is the
  environment that \<open>startup\<close> gives for the mounted root.  The map buffer is the list of its whole
  entries, followed by the bytes that do not make up an entry.
\<close>

section \<open>Records\<close>

record fsblock =
  fcodelow :: u64
  fcodehigh :: u48
  attributes :: u16
  index :: u32

definition fsfile :: u16 where "fsfile = 0x0000"
definition fsdirectory :: u16 where "fsdirectory = 0x0001"
definition fsreadonly :: u16 where "fsreadonly = 0x0002"
definition fsmetadatacluster :: u16 where "fsmetadatacluster = 0x0004"
definition fsproxy :: u16 where "fsproxy = 0x0008"
definition fsextensionallocatedcluster :: u16 where "fsextensionallocatedcluster = 0x0010"

lemmas fsattr_defs = fsfile_def fsdirectory_def fsreadonly_def fsmetadatacluster_def fsproxy_def
  fsextensionallocatedcluster_def

record fsroot =
  signature :: bytes
  confLogSectors :: u32
  confBlockSize :: u32
  confClusterSize :: u32
  verMajor :: u32
  verMinor :: u32
  ExtensionEnabled :: bool
  MinimumExtensionSupport :: u32
  TotalExtensions :: u32
  ExtensionTable :: u64

record conf_fsroot =
  fguid :: "u64 \<times> u64"
  altGUID :: "u64 \<times> u64"
  root :: fsroot
  loc :: u64
  lastClusterAlloc :: u32
  nLogSectors :: u32
  logBlock :: bytes
  clusterSize :: u64
  nClusterSectors :: u64
  nClusterItems :: u64
  clusterMap :: "fsblock list"
  mapTail :: bytes

text \<open>The mounted file system: its root and the image.\<close>

record fsys =
  mnt :: conf_fsroot
  disk :: bytes

definition disk_env :: "conf_fsroot \<Rightarrow> rawenv" where
  "disk_env r = startup (loc r) (confBlockSize (root r))"

section \<open>Layout\<close>

definition sizeof_fsblock :: nat where "sizeof_fsblock = 20"

definition FRATROOTOFFSET :: u32 where "FRATROOTOFFSET = 0"
definition LOGBLOCKOFFSET :: u32 where "LOGBLOCKOFFSET = FRATROOTOFFSET + 1"

definition CLUSTERMAPOFFSET :: "u32 \<Rightarrow> u32" where
  "CLUSTERMAPOFFSET nLog = LOGBLOCKOFFSET + nLog + 1"

definition DATAFIRSTOFFSET :: "u32 \<Rightarrow> u64 \<Rightarrow> u64" where
  "DATAFIRSTOFFSET nLog nClus = ucast (CLUSTERMAPOFFSET nLog) + nClus + 1"

definition DATAFIRST :: "conf_fsroot \<Rightarrow> u64" where
  "DATAFIRST r = loc r + DATAFIRSTOFFSET (nLogSectors r) (nClusterSectors r) * ucast (confBlockSize (root r))"

text \<open>The distance of the entry from the start of the map, divided by the size of an entry.\<close>

definition getloc :: "conf_fsroot \<Rightarrow> nat \<Rightarrow> u64" where
  "getloc r i = DATAFIRST r + safediv (of_nat (i * sizeof_fsblock)) (of_nat sizeof_fsblock)"

section \<open>Finding, allocating and releasing\<close>

definition is_free :: "fsblock \<Rightarrow> bool" where
  "is_free b = (fcodelow b = 0 \<and> fcodehigh b = 0)"

definition same_family :: "u64 \<Rightarrow> u48 \<Rightarrow> fsblock \<Rightarrow> bool" where
  "same_family lo hi b = (fcodelow b = lo \<and> fcodehigh b = hi)"

definition map_update :: "nat \<Rightarrow> (fsblock \<Rightarrow> fsblock) \<Rightarrow> conf_fsroot \<Rightarrow> conf_fsroot" where
  "map_update i f r = r\<lparr>clusterMap := (clusterMap r)[i := f (clusterMap r ! i)]\<rparr>"

definition allocatecluster :: "conf_fsroot \<Rightarrow> conf_fsroot \<times> nat option" where
  "allocatecluster r =
    (case List.find (\<lambda>i. is_free (clusterMap r ! i))
            [unat (lastClusterAlloc r)..<unat (nClusterItems r)] of
       Some i \<Rightarrow> (r\<lparr>lastClusterAlloc := of_nat i\<rparr>, Some i)
     | None \<Rightarrow> (r\<lparr>lastClusterAlloc := 0\<rparr>, None))"

text \<open>The hash and the index are stored in a temporary \<open>fsblock\<close>, so they are cut to its widths.\<close>

definition ffindhi :: "conf_fsroot \<Rightarrow> u64 \<times> u64 \<Rightarrow> u64 \<Rightarrow> nat option" where
  "ffindhi r hash i =
    List.find (\<lambda>cc. fcodehigh (clusterMap r ! cc) = ucast (snd hash)
        \<and> fcodelow (clusterMap r ! cc) = fst hash \<and> index (clusterMap r ! cc) = ucast i)
      [0..<unat (nClusterItems r)]"

definition ffindh :: "conf_fsroot \<Rightarrow> u64 \<times> u64 \<Rightarrow> nat option" where
  "ffindh r hash = ffindhi r hash 0"

text \<open>The lookup by path; \<open>fcode\<close> stands for \<open>__getfcode\<close>.\<close>

definition ffindi :: "(string \<Rightarrow> u64 \<times> u64) \<Rightarrow> conf_fsroot \<Rightarrow> string \<Rightarrow> u64 \<Rightarrow> nat option" where
  "ffindi fcode r path i = ffindhi r (fcode path) i"

definition ffind :: "(string \<Rightarrow> u64 \<times> u64) \<Rightarrow> conf_fsroot \<Rightarrow> string \<Rightarrow> nat option" where
  "ffind fcode r path = ffindi fcode r path 0"

definition clear_code :: "fsblock \<Rightarrow> fsblock" where
  "clear_code b = b\<lparr>fcodelow := 0, fcodehigh := 0\<rparr>"

text \<open>Removal dereferences the result of the lookup: \<open>None\<close> is the null dereference.\<close>

definition ffremove :: "(string \<Rightarrow> u64 \<times> u64) \<Rightarrow> conf_fsroot \<Rightarrow> string \<Rightarrow> conf_fsroot option" where
  "ffremove fcode r path = map_option (\<lambda>i. map_update i clear_code r) (ffind fcode r path)"

definition FCODEHASHMASK :: u64 where
  "FCODEHASHMASK = - 1 XOR push_bit 48 0xFFFF"

definition ffremoveh :: "conf_fsroot \<Rightarrow> u64 \<times> u64 \<Rightarrow> conf_fsroot option" where
  "ffremoveh r hash =
    map_option (\<lambda>i. map_update i clear_code r) (ffindh r (fst hash, snd hash AND FCODEHASHMASK))"

definition ffremovelh_step :: "u64 \<Rightarrow> u64 \<Rightarrow> nat \<Rightarrow> conf_fsroot \<Rightarrow> conf_fsroot" where
  "ffremovelh_step lo hi cc r =
    (if fcodelow (clusterMap r ! cc) = lo \<and> ucast (fcodehigh (clusterMap r ! cc)) = hi
     then map_update cc clear_code r else r)"

definition ffremovelh :: "conf_fsroot \<Rightarrow> u64 \<times> u64 \<Rightarrow> conf_fsroot" where
  "ffremovelh r hash =
    fold (ffremovelh_step (fst hash) (snd hash AND FCODEHASHMASK)) [0..<unat (nClusterItems r)] r"

definition ffremovel :: "(string \<Rightarrow> u64 \<times> u64) \<Rightarrow> conf_fsroot \<Rightarrow> string \<Rightarrow> conf_fsroot" where
  "ffremovel fcode r path = ffremovelh r (fcode path)"

section \<open>Extending a file by a cluster\<close>

definition family_count :: "conf_fsroot \<Rightarrow> u64 \<Rightarrow> u48 \<Rightarrow> nat" where
  "family_count r lo hi =
    length (filter (\<lambda>cc. same_family lo hi (clusterMap r ! cc)) [0..<unat (nClusterItems r)])"

definition write_data_block :: "nat \<Rightarrow> bytes \<Rightarrow> fsys \<Rightarrow> fsys" where
  "write_data_block i b fs =
    fs\<lparr>disk := write_block (disk_env (mnt fs)) (disk fs) (getloc (mnt fs) i) b\<rparr>"

definition read_data_block :: "fsys \<Rightarrow> nat \<Rightarrow> bytes option" where
  "read_data_block fs i = read_block (disk_env (mnt fs)) (disk fs) (getloc (mnt fs) i)"

definition faddr :: "nat \<Rightarrow> fsys \<Rightarrow> fsys \<times> nat option" where
  "faddr family fs =
    (case allocatecluster (mnt fs) of
       (r1, None) \<Rightarrow> (fs\<lparr>mnt := r1\<rparr>, None)
     | (r1, Some i) \<Rightarrow>
         let fam = clusterMap r1 ! family;
             n = family_count r1 (fcodelow fam) (fcodehigh fam);
             r2 = map_update i (\<lambda>b. b\<lparr>index := of_nat n, attributes := flag_uset (attributes fam) fsmetadatacluster,
                    fcodelow := fcodelow fam, fcodehigh := fcodehigh fam\<rparr>) r1
         in (write_data_block i (replicate (unat (confBlockSize (root r2))) 0) (fs\<lparr>mnt := r2\<rparr>), Some i))"

section \<open>Well-formed roots\<close>

text \<open>
  The map is as long as the root says and shorter than \<open>2 ^ 32\<close> entries, and the data area fits
  below \<open>2 ^ 63\<close> bytes.
\<close>

definition wf_root :: "conf_fsroot \<Rightarrow> bool" where
  "wf_root r = (unat (nClusterItems r) \<le> length (clusterMap r)
    \<and> unat (nClusterItems r) < 2 ^ 32
    \<and> 0 < unat (confBlockSize (root r)) \<and> unat (confBlockSize (root r)) \<le> 2 ^ 32 - 1024
    \<and> loc r \<le> DATAFIRST r
    \<and> unat (DATAFIRST r) + unat (nClusterItems r) < 2 ^ 64
    \<and> boff (disk_env r) (DATAFIRST r) + unat (nClusterItems r) * bsize (disk_env r) < 2 ^ 63)"

lemma disk_env_simps [simp]:
  "Partition (disk_env r) = loc r" "ConfBlock (disk_env r) = confBlockSize (root r)"
  by (simp_all add: disk_env_def startup_def Let_def)

lemma disk_env_cong [simp]:
  "disk_env (r\<lparr>clusterMap := m\<rparr>) = disk_env r" "disk_env (r\<lparr>lastClusterAlloc := k\<rparr>) = disk_env r"
  "disk_env (map_update i f r) = disk_env r"
  by (simp_all add: disk_env_def map_update_def)

lemma getloc_cong [simp]:
  "getloc (r\<lparr>clusterMap := m\<rparr>) i = getloc r i" "getloc (r\<lparr>lastClusterAlloc := k\<rparr>) i = getloc r i"
  "getloc (map_update j f r) i = getloc r i"
  by (simp_all add: getloc_def DATAFIRST_def map_update_def)

lemma DATAFIRST_cong [simp]:
  "DATAFIRST (r\<lparr>clusterMap := m\<rparr>) = DATAFIRST r" "DATAFIRST (r\<lparr>lastClusterAlloc := k\<rparr>) = DATAFIRST r"
  "DATAFIRST (map_update j f r) = DATAFIRST r"
  by (simp_all add: DATAFIRST_def map_update_def)

lemma map_update_fields [simp]:
  "nClusterItems (map_update i f r) = nClusterItems r" "root (map_update i f r) = root r"
  "loc (map_update i f r) = loc r" "lastClusterAlloc (map_update i f r) = lastClusterAlloc r"
  "length (clusterMap (map_update i f r)) = length (clusterMap r)"
  by (simp_all add: map_update_def)

lemma wf_root_map_update [simp]: "wf_root (map_update i f r) = wf_root r"
  by (simp add: wf_root_def)

lemma wf_root_lastClusterAlloc [simp]: "wf_root (r\<lparr>lastClusterAlloc := k\<rparr>) = wf_root r"
  by (simp add: wf_root_def)

lemma clusterMap_map_update:
  "i < length (clusterMap r) \<Longrightarrow>
     clusterMap (map_update i f r) ! j = (if j = i then f (clusterMap r ! i) else clusterMap r ! j)"
  by (simp add: map_update_def)

lemma getloc_add: "i * 20 < 2 ^ 64 \<Longrightarrow> getloc r i = DATAFIRST r + of_nat i"
proof -
  assume i: "i * 20 < 2 ^ 64"
  have "unat (of_nat (i * 20) div 20 :: u64) = i"
    using i by (simp only: unat_div_distrib unat_of_nat) simp
  moreover have "unat (of_nat i :: u64) = i"
    using i by (simp add: unat_of_nat)
  ultimately have "(of_nat (i * 20) div 20 :: u64) = of_nat i"
    by (simp only: word_unat_eq_iff)
  then show ?thesis by (simp add: getloc_def safediv_def sizeof_fsblock_def)
qed

lemma unat_getloc:
  assumes "wf_root r" and "i < unat (nClusterItems r)"
  shows "unat (getloc r i) = unat (DATAFIRST r) + i"
proof -
  have i: "i < 2 ^ 32" using assms by (simp add: wf_root_def)
  then have "unat (of_nat i :: u64) = i" by (simp add: unat_of_nat)
  moreover have "unat (DATAFIRST r) + i < 2 ^ 64" using assms by (simp add: wf_root_def)
  ultimately show ?thesis
    using i by (simp add: getloc_add unat_add_small)
qed

text \<open>Every cluster of the map has a block of its own that the raw layer can reach.\<close>

lemma getloc_block_ok:
  assumes "wf_root r" and "i < unat (nClusterItems r)"
  shows "block_ok (disk_env r) (getloc r i)"
proof -
  note u = unat_getloc [OF assms]
  have e: "wf_env (disk_env r)" "unat (confBlockSize (root r)) \<le> bsize (disk_env r)"
    using wf_env_startup [of "confBlockSize (root r)" "loc r"] assms(1)
    by (simp_all add: disk_env_def wf_root_def)
  have le: "unat (loc r) \<le> unat (DATAFIRST r)" using assms(1) by (simp add: wf_root_def word_le_nat_alt)
  have "(unat (DATAFIRST r) + i - unat (loc r)) * bsize (disk_env r)
      = (unat (DATAFIRST r) - unat (loc r)) * bsize (disk_env r) + i * bsize (disk_env r)"
    using le by (simp add: add_mult_distrib [symmetric])
  then have "boff (disk_env r) (getloc r i) = boff (disk_env r) (DATAFIRST r) + i * bsize (disk_env r)"
    using u by (simp add: boff_def)
  moreover have "i * bsize (disk_env r) \<le> unat (nClusterItems r) * bsize (disk_env r)"
    using assms(2) by (simp add: mult_le_mono1)
  moreover have "boff (disk_env r) (DATAFIRST r) + unat (nClusterItems r) * bsize (disk_env r) < 2 ^ 63"
    using assms(1) unfolding wf_root_def by blast
  ultimately have "boff (disk_env r) (getloc r i) < 2 ^ 63" by linarith
  then show ?thesis
    using e le u assms(1) by (simp add: block_ok_def raw_fits_def wf_root_def word_le_nat_alt)
qed

lemma getloc_inject:
  "wf_root r \<Longrightarrow> i < unat (nClusterItems r) \<Longrightarrow> j < unat (nClusterItems r) \<Longrightarrow>
     getloc r i = getloc r j \<longleftrightarrow> i = j"
  by (metis add_left_cancel unat_getloc)


section \<open>Lookup\<close>

lemma find_upt_Some:
  "List.find P [lo..<hi] = Some i \<longleftrightarrow> lo \<le> i \<and> i < hi \<and> P i \<and> (\<forall>j. lo \<le> j \<and> j < i \<longrightarrow> \<not> P j)"
proof
  assume "List.find P [lo..<hi] = Some i"
  then obtain k where k: "k < hi - lo" "P (lo + k)" "i = lo + k" "\<forall>j < k. \<not> P (lo + j)"
    by (auto simp: find_Some_iff)
  have "\<not> P j" if "lo \<le> j" "j < i" for j
    using k(3,4) that by (metis add_less_cancel_left le_add_diff_inverse)
  with k show "lo \<le> i \<and> i < hi \<and> P i \<and> (\<forall>j. lo \<le> j \<and> j < i \<longrightarrow> \<not> P j)" by auto
next
  assume "lo \<le> i \<and> i < hi \<and> P i \<and> (\<forall>j. lo \<le> j \<and> j < i \<longrightarrow> \<not> P j)"
  then show "List.find P [lo..<hi] = Some i"
    by (auto simp: find_Some_iff intro!: exI [of _ "i - lo"])
qed

lemma find_upt_None: "List.find P [lo..<hi] = None \<longleftrightarrow> (\<forall>j. lo \<le> j \<and> j < hi \<longrightarrow> \<not> P j)"
  by (auto simp: find_None_iff)

lemma allocatecluster_Some:
  assumes "allocatecluster r = (r', Some i)"
  shows "i < unat (nClusterItems r) \<and> is_free (clusterMap r ! i)
    \<and> r' = r\<lparr>lastClusterAlloc := of_nat i\<rparr>"
  using assms by (auto simp: allocatecluster_def find_upt_Some split: option.splits)

lemma allocatecluster_None:
  assumes "allocatecluster r = (r', None)"
  shows "r' = r\<lparr>lastClusterAlloc := 0\<rparr>
    \<and> (\<forall>i. unat (lastClusterAlloc r) \<le> i \<and> i < unat (nClusterItems r) \<longrightarrow> \<not> is_free (clusterMap r ! i))"
  using assms by (auto simp: allocatecluster_def find_upt_None split: option.splits)

section \<open>Families\<close>

text \<open>The clusters of a file, and the invariant that they are numbered from 0 without gaps.\<close>

definition fam :: "conf_fsroot \<Rightarrow> u64 \<Rightarrow> u48 \<Rightarrow> nat set" where
  "fam r lo hi = {cc. cc < unat (nClusterItems r) \<and> same_family lo hi (clusterMap r ! cc)}"

definition contiguous :: "conf_fsroot \<Rightarrow> u64 \<Rightarrow> u48 \<Rightarrow> bool" where
  "contiguous r lo hi =
    bij_betw (\<lambda>cc. unat (index (clusterMap r ! cc))) (fam r lo hi) {0..<card (fam r lo hi)}"

lemma finite_fam [simp]: "finite (fam r lo hi)"
  by (simp add: fam_def)

lemma family_count_card: "family_count r lo hi = card (fam r lo hi)"
proof -
  have "fam r lo hi = set (filter (\<lambda>cc. same_family lo hi (clusterMap r ! cc)) [0..<unat (nClusterItems r)])"
    by (auto simp: fam_def)
  then show ?thesis
    unfolding family_count_def by (simp only: distinct_card distinct_filter distinct_upt)
qed

lemma card_fam_le: "card (fam r lo hi) \<le> unat (nClusterItems r)"
proof -
  have "fam r lo hi \<subseteq> {0..<unat (nClusterItems r)}" by (auto simp: fam_def)
  from card_mono [OF _ this] show ?thesis by simp
qed

lemma ucast_u48_u64 [simp]: "ucast (ucast (hi :: u48) :: u64) = hi"
  by (rule bit_eqI) (simp add: bit_simps)

lemma unat_ucast_index: "k < 2 ^ 32 \<Longrightarrow> unat (ucast (of_nat k :: u64) :: u32) = k"
  by (simp add: unsigned_ucast_eq unat_of_nat take_bit_nat_eq_self)

lemma ffindhi_Some:
  assumes "ffindhi r (lo, ucast hi) (of_nat k) = Some cc" and "k < 2 ^ 32"
  shows "cc \<in> fam r lo hi \<and> unat (index (clusterMap r ! cc)) = k"
  using assms unat_ucast_index [of k]
  by (auto simp: ffindhi_def find_upt_Some fam_def same_family_def)

lemma ffindhi_None:
  assumes "ffindhi r (lo, ucast hi) (of_nat k) = None" and "k < 2 ^ 32" and "cc \<in> fam r lo hi"
  shows "unat (index (clusterMap r ! cc)) \<noteq> k"
proof
  assume "unat (index (clusterMap r ! cc)) = k"
  then have "index (clusterMap r ! cc) = ucast (of_nat k :: u64)"
    using assms(2) by (simp add: word_unat_eq_iff unat_ucast_index)
  with assms(1,3) show False
    by (auto simp: ffindhi_def find_upt_None fam_def same_family_def)
qed

text \<open>In a contiguous family the lookup by number succeeds exactly below the number of clusters.\<close>

lemma ffindhi_contiguous:
  assumes "contiguous r lo hi" and "wf_root r" and "k < 2 ^ 32"
  shows "(ffindhi r (lo, ucast hi) (of_nat k) = None) \<longleftrightarrow> card (fam r lo hi) \<le> k"
proof (cases "ffindhi r (lo, ucast hi) (of_nat k)")
  case None
  have "k \<notin> (\<lambda>cc. unat (index (clusterMap r ! cc))) ` fam r lo hi"
    using ffindhi_None [OF None assms(3)] by auto
  then have "k \<notin> {0..<card (fam r lo hi)}"
    using assms(1) by (simp add: contiguous_def bij_betw_def)
  with None show ?thesis by simp
next
  case (Some cc)
  from ffindhi_Some [OF Some assms(3)]
  have "k \<in> (\<lambda>cc. unat (index (clusterMap r ! cc))) ` fam r lo hi" by auto
  then have "k \<in> {0..<card (fam r lo hi)}"
    using assms(1) by (simp add: contiguous_def bij_betw_def)
  with Some show ?thesis by simp
qed

lemma contiguous_unique:
  assumes "contiguous r lo hi" and "a \<in> fam r lo hi" and "b \<in> fam r lo hi"
    and "index (clusterMap r ! a) = index (clusterMap r ! b)"
  shows "a = b"
  using assms by (auto simp: contiguous_def bij_betw_def inj_on_def)

lemma fam_extend:
  assumes "i < unat (nClusterItems r)" and "i < length (clusterMap r)"
    and "\<not> same_family lo hi (clusterMap r ! i)" and "same_family lo hi (f (clusterMap r ! i))"
  shows "fam (map_update i f r) lo hi = insert i (fam r lo hi)"
  using assms by (auto simp: fam_def clusterMap_map_update)

lemma fam_lastClusterAlloc [simp]: "fam (r\<lparr>lastClusterAlloc := k\<rparr>) lo hi = fam r lo hi"
  by (simp add: fam_def)

lemma contiguous_lastClusterAlloc [simp]:
  "contiguous (r\<lparr>lastClusterAlloc := k\<rparr>) lo hi = contiguous r lo hi"
  by (simp add: contiguous_def)

lemma contiguous_extend:
  assumes "contiguous r lo hi" and "wf_root r" and "i < unat (nClusterItems r)"
    and "\<not> same_family lo hi (clusterMap r ! i)" and "same_family lo hi (f (clusterMap r ! i))"
    and "index (f (clusterMap r ! i)) = of_nat (card (fam r lo hi))"
  shows "contiguous (map_update i f r) lo hi"
proof -
  let ?r = "map_update i f r" and ?n = "card (fam r lo hi)"
  have len: "i < length (clusterMap r)" using assms(2,3) by (simp add: wf_root_def)
  have notin: "i \<notin> fam r lo hi" using assms(4) by (simp add: fam_def)
  have F: "fam ?r lo hi = fam r lo hi \<union> {i}"
    using fam_extend [where f = f, OF assms(3) len assms(4,5)] by simp
  have n: "unat (of_nat ?n :: u32) = ?n"
    using card_fam_le [of r lo hi] assms(2) by (simp add: unat_of_nat wf_root_def)
  have same: "clusterMap ?r ! cc = clusterMap r ! cc" if "cc \<in> fam r lo hi" for cc
    using that notin len by (auto simp: clusterMap_map_update)
  have "bij_betw (\<lambda>cc. unat (index (clusterMap ?r ! cc))) (fam r lo hi) {0..<?n}"
    using assms(1) same unfolding contiguous_def by (simp cong: bij_betw_cong)
  moreover have "bij_betw (\<lambda>cc. unat (index (clusterMap ?r ! cc))) {i} {?n}"
    using n assms(6) len by (simp add: bij_betw_def clusterMap_map_update)
  ultimately have "bij_betw (\<lambda>cc. unat (index (clusterMap ?r ! cc))) (fam r lo hi \<union> {i}) ({0..<?n} \<union> {?n})"
    by (rule bij_betw_combine) simp
  moreover have "{0..<?n} \<union> {?n} = {0..<card (fam r lo hi \<union> {i})}"
    using notin by auto
  ultimately show ?thesis by (simp add: contiguous_def F)
qed


section \<open>Data blocks\<close>

definition data_is :: "fsys \<Rightarrow> nat \<Rightarrow> bytes \<Rightarrow> bool" where
  "data_is fs i b =
    (case read_data_block fs i of
       None \<Rightarrow> False
     | Some c \<Rightarrow> take (unat (confBlockSize (root (mnt fs)))) c = b)"

lemma data_is_holds:
  "data_is fs i b = raw.holds (disk_env (mnt fs)) (disk fs) (getloc (mnt fs) i) b"
  unfolding raw.holds_def by (auto simp: data_is_def read_data_block_def split: option.splits)

lemma write_data_block_fields [simp]:
  "mnt (write_data_block i b fs) = mnt fs"
  by (simp add: write_data_block_def)

text \<open>The block laws of the raw layer, for clusters.\<close>

lemma data_is_same:
  assumes "wf_root (mnt fs)" and "i < unat (nClusterItems (mnt fs))"
    and "length b = unat (confBlockSize (root (mnt fs)))"
  shows "data_is (write_data_block i b fs) i b"
  using raw.holds_same [OF getloc_block_ok [OF assms(1,2)], of b "disk fs", unfolded raw.blk_def] assms(3)
  by (simp add: data_is_holds write_data_block_def)

lemma data_is_other:
  assumes "wf_root (mnt fs)" and "i < unat (nClusterItems (mnt fs))" and "j < unat (nClusterItems (mnt fs))"
    and "i \<noteq> j" and "length b = unat (confBlockSize (root (mnt fs)))" and "data_is fs j c"
  shows "data_is (write_data_block i b fs) j c"
  using raw.holds_other [OF getloc_block_ok [OF assms(1,2)] getloc_block_ok [OF assms(1,3)], of b,
      unfolded raw.blk_def] assms getloc_inject [OF assms(1-3)]
  by (simp add: data_is_holds write_data_block_def)

lemma data_is_mnt_map:
  "data_is (fs\<lparr>mnt := map_update j f (mnt fs)\<rparr>) i b = data_is fs i b"
  "data_is (fs\<lparr>mnt := (mnt fs)\<lparr>lastClusterAlloc := k\<rparr>\<rparr>) i b = data_is fs i b"
  by (auto simp: data_is_def read_data_block_def split: option.splits)

section \<open>Removal of a family\<close>

lemma mask_16: "(0xFFFF :: u64) = mask 16"
  by (simp add: mask_eq_exp_minus_1)

lemma ffremovelh_loop:
  assumes "n \<le> length (clusterMap r)"
  shows "nClusterItems (fold (ffremovelh_step lo hi) [0..<n] r) = nClusterItems r
    \<and> length (clusterMap (fold (ffremovelh_step lo hi) [0..<n] r)) = length (clusterMap r)
    \<and> (\<forall>cc < length (clusterMap r). clusterMap (fold (ffremovelh_step lo hi) [0..<n] r) ! cc =
        (if cc < n \<and> fcodelow (clusterMap r ! cc) = lo \<and> ucast (fcodehigh (clusterMap r ! cc)) = hi
         then clear_code (clusterMap r ! cc) else clusterMap r ! cc))"
  using assms
proof (induction n)
  case (Suc n)
  let ?s = "fold (ffremovelh_step lo hi) [0..<n] r"
  from Suc have IH: "length (clusterMap ?s) = length (clusterMap r)" "nClusterItems ?s = nClusterItems r"
    "\<forall>cc < length (clusterMap r). clusterMap ?s ! cc =
        (if cc < n \<and> fcodelow (clusterMap r ! cc) = lo \<and> ucast (fcodehigh (clusterMap r ! cc)) = hi
         then clear_code (clusterMap r ! cc) else clusterMap r ! cc)" by simp_all
  have st: "fold (ffremovelh_step lo hi) [0..<Suc n] r = ffremovelh_step lo hi n ?s" by simp
  show ?case unfolding st
    using Suc.prems IH(1,2)
    by (auto simp: ffremovelh_step_def clusterMap_map_update less_Suc_eq IH(3))
qed simp

section \<open>Extension of a family\<close>

lemma faddr_spec:
  assumes "wf_root (mnt fs)" and "family \<in> fam (mnt fs) lo hi" and "(lo, hi) \<noteq> (0, 0)"
    and "contiguous (mnt fs) lo hi" and "faddr family fs = (fs', Some i)"
  shows "is_free (clusterMap (mnt fs) ! i) \<and> wf_root (mnt fs')
    \<and> contiguous (mnt fs') lo hi \<and> fam (mnt fs') lo hi = insert i (fam (mnt fs) lo hi)
    \<and> unat (index (clusterMap (mnt fs') ! i)) = card (fam (mnt fs) lo hi)
    \<and> root (mnt fs') = root (mnt fs)
    \<and> attributes (clusterMap (mnt fs') ! i) = flag_uset (attributes (clusterMap (mnt fs) ! family)) fsmetadatacluster
    \<and> data_is fs' i (replicate (unat (confBlockSize (root (mnt fs)))) 0)
    \<and> (\<forall>j < unat (nClusterItems (mnt fs)). j \<noteq> i \<longrightarrow>
         clusterMap (mnt fs') ! j = clusterMap (mnt fs) ! j
         \<and> (\<forall>c. data_is fs j c \<longrightarrow> data_is fs' j c))"
proof -
  let ?r = "mnt fs" and ?n = "card (fam (mnt fs) lo hi)"
  obtain r1 where al: "allocatecluster ?r = (r1, Some i)"
    using assms(5) by (auto simp: faddr_def Let_def split: prod.splits option.splits)
  note a = allocatecluster_Some [OF al]
  define f :: "fsblock \<Rightarrow> fsblock" where "f = (\<lambda>b. b\<lparr>index := of_nat ?n,
      attributes := flag_uset (attributes (clusterMap ?r ! family)) fsmetadatacluster,
      fcodelow := lo, fcodehigh := hi\<rparr>)"
  have fm: "fcodelow (clusterMap ?r ! family) = lo" "fcodehigh (clusterMap ?r ! family) = hi"
    using assms(2) by (simp_all add: fam_def same_family_def)
  have c: "family_count r1 lo hi = ?n" using a by (simp add: family_count_card)
  have fs': "fs' = write_data_block i (replicate (unat (confBlockSize (root ?r))) 0)
      (fs\<lparr>mnt := map_update i f (?r\<lparr>lastClusterAlloc := of_nat i\<rparr>)\<rparr>)"
    using assms(5) al a fm c by (simp add: faddr_def Let_def f_def)
  have i: "i < unat (nClusterItems ?r)" "i < length (clusterMap ?r)"
    using a assms(1) by (simp_all add: wf_root_def)
  have nf: "\<not> same_family lo hi (clusterMap ?r ! i)"
    using a assms(3) by (auto simp: is_free_def same_family_def)
  have sf: "same_family lo hi (f (clusterMap ?r ! i))" by (simp add: f_def same_family_def)
  have ct: "contiguous (mnt fs') lo hi"
    unfolding fs' using assms(1,4) i nf sf
    by (simp, intro contiguous_extend) (simp_all add: f_def)
  have fe: "fam (mnt fs') lo hi = insert i (fam ?r lo hi)"
    unfolding fs' using fam_extend [of i "?r\<lparr>lastClusterAlloc := of_nat i\<rparr>" lo hi f] i nf sf by simp
  have n: "unat (of_nat ?n :: u32) = ?n"
    using card_fam_le [of ?r lo hi] assms(1) by (simp add: unat_of_nat wf_root_def)
  let ?fs1 = "fs\<lparr>mnt := map_update i f (?r\<lparr>lastClusterAlloc := of_nat i\<rparr>)\<rparr>"
  have pre: "data_is ?fs1 j c = data_is fs j c" for j c
    by (auto simp: data_is_def read_data_block_def split: option.splits)
  have "data_is fs' i (replicate (unat (confBlockSize (root ?r))) 0)"
    unfolding fs' using assms(1) i by (intro data_is_same) simp_all
  moreover have "data_is fs' j c" if "j < unat (nClusterItems ?r)" "j \<noteq> i" "data_is fs j c" for j c
    unfolding fs' using assms(1) i that pre by (intro data_is_other) simp_all
  moreover have "clusterMap (mnt fs') ! j = clusterMap ?r ! j" if "j \<noteq> i" for j
    unfolding fs' using that i by (simp add: clusterMap_map_update)
  moreover have "unat (index (clusterMap (mnt fs') ! i)) = ?n"
    unfolding fs' using i n by (simp add: clusterMap_map_update f_def)
  moreover have "attributes (clusterMap (mnt fs') ! i)
      = flag_uset (attributes (clusterMap ?r ! family)) fsmetadatacluster"
    unfolding fs' using i by (simp add: clusterMap_map_update f_def)
  ultimately show ?thesis using a ct fe assms(1) fs' by simp
qed

section \<open>Properties\<close>

text \<open>C15: an allocated cluster is a free cluster of the map, and a free cluster is never missed
  for good: when the scan from the last position fails it restarts at 0, so one of two
  consecutive calls finds a free cluster whenever there is one.\<close>

theorem allocatecluster_two_calls:
  assumes "allocatecluster r = (r1, a1)" and "allocatecluster r1 = (r2, a2)"
  shows "(\<forall>i. a1 = Some i \<longrightarrow> i < unat (nClusterItems r) \<and> is_free (clusterMap r ! i))
    \<and> clusterMap r1 = clusterMap r
    \<and> ((\<exists>i < unat (nClusterItems r). is_free (clusterMap r ! i)) \<longrightarrow> a1 \<noteq> None \<or> a2 \<noteq> None)"
proof (cases a1)
  case None
  have r1: "r1 = r\<lparr>lastClusterAlloc := 0\<rparr>" using allocatecluster_None assms(1) None by blast
  have "a2 \<noteq> None" if "i < unat (nClusterItems r)" "is_free (clusterMap r ! i)" for i
    using that allocatecluster_None [of r1 r2] assms(2) r1 by (cases a2) auto
  with None r1 show ?thesis by auto
next
  case (Some i)
  with assms(1) allocatecluster_Some [of r r1 i] show ?thesis by auto
qed

definition boot_root :: conf_fsroot where
  "boot_root = \<lparr>fguid = (0, 0), altGUID = (0, 0),
     root = \<lparr>signature = [], confLogSectors = 1, confBlockSize = 4, confClusterSize = 40,
             verMajor = 1, verMinor = 0, ExtensionEnabled = False, MinimumExtensionSupport = 0,
             TotalExtensions = 0, ExtensionTable = 0\<rparr>,
     loc = 2, lastClusterAlloc = 0, nLogSectors = 1, logBlock = [], clusterSize = 40,
     nClusterSectors = 10, nClusterItems = 3,
     clusterMap = [\<lparr>fcodelow = 7, fcodehigh = 9, attributes = 4, index = 0\<rparr>,
       \<lparr>fcodelow = 0, fcodehigh = 0, attributes = 0, index = 0\<rparr>,
       \<lparr>fcodelow = 0, fcodehigh = 0, attributes = 0, index = 0\<rparr>], mapTail = []\<rparr>"

theorem allocatecluster_two_calls_witness:
  "(\<exists>i. snd (allocatecluster boot_root) = Some i)
   \<or> (\<exists>i. snd (allocatecluster (fst (allocatecluster boot_root))) = Some i)"
proof -
  have "\<exists>i < unat (nClusterItems boot_root). is_free (clusterMap boot_root ! i)"
    by (rule exI [of _ 1]) (simp add: boot_root_def is_free_def)
  then show ?thesis
    using allocatecluster_two_calls [of boot_root "fst (allocatecluster boot_root)"
        "snd (allocatecluster boot_root)"
        "fst (allocatecluster (fst (allocatecluster boot_root)))"
        "snd (allocatecluster (fst (allocatecluster boot_root)))"] by simp
qed

text \<open>C10: extending a file takes a free cluster, gives it the next number of the file, so that
  the numbering stays gapless, zeroes its block on the image, and leaves the map entries and the
  blocks of all other clusters as they were.\<close>

theorem faddr_extends_family:
  assumes "wf_root (mnt fs)" and "family \<in> fam (mnt fs) lo hi" and "(lo, hi) \<noteq> (0, 0)"
    and "contiguous (mnt fs) lo hi" and "faddr family fs = (fs', Some i)"
  shows "is_free (clusterMap (mnt fs) ! i) \<and> wf_root (mnt fs')
    \<and> contiguous (mnt fs') lo hi \<and> fam (mnt fs') lo hi = insert i (fam (mnt fs) lo hi)
    \<and> unat (index (clusterMap (mnt fs') ! i)) = card (fam (mnt fs) lo hi)
    \<and> data_is fs' i (replicate (unat (confBlockSize (root (mnt fs)))) 0)
    \<and> (\<forall>j < unat (nClusterItems (mnt fs)). j \<noteq> i \<longrightarrow>
         clusterMap (mnt fs') ! j = clusterMap (mnt fs) ! j
         \<and> (\<forall>c. data_is fs j c \<longrightarrow> data_is fs' j c))"
  using faddr_spec [OF assms] by blast

lemma boot_env: "disk_env boot_root = \<lparr>Partition = 2, CalcBlock = 1, ConfBlock = 4, RealBlock = 512\<rparr>"
  by (simp add: disk_env_def boot_root_def startup_def DefaultRawDiskSize_def)

lemma wf_boot_root: "wf_root boot_root"
  unfolding wf_root_def boff_def bsize_def boot_env
  by (simp add: boot_root_def DATAFIRST_def DATAFIRSTOFFSET_def CLUSTERMAPOFFSET_def
      LOGBLOCKOFFSET_def FRATROOTOFFSET_def)

lemma boot_fam: "fam boot_root 7 9 = {0}"
  by (auto simp: fam_def boot_root_def same_family_def nth_Cons' split: if_splits)

lemma boot_contiguous: "contiguous boot_root 7 9"
  unfolding contiguous_def boot_fam by (simp add: bij_betw_def boot_root_def)

theorem faddr_extends_family_witness:
  "contiguous (mnt (fst (faddr 0 \<lparr>mnt = boot_root, disk = []\<rparr>))) 7 9"
proof -
  let ?fs = "\<lparr>mnt = boot_root, disk = []\<rparr>"
  have "snd (faddr 0 ?fs) = Some 1"
    by (simp add: faddr_def allocatecluster_def boot_root_def is_free_def upt_rec Let_def)
  then have "faddr 0 ?fs = (fst (faddr 0 ?fs), Some 1)" by (metis prod.collapse)
  with wf_boot_root boot_fam boot_contiguous show ?thesis
    using faddr_extends_family [of ?fs 0 7 9 "fst (faddr 0 ?fs)" 1] by simp
qed

text \<open>C21: removing a file by hash frees every cluster of its family, so no cluster of it can be
  found any more, and touches no cluster of another family.\<close>

theorem ffremovelh_removes_family:
  assumes "wf_root r" and "lo \<noteq> 0 \<or> hi \<noteq> 0"
  shows "fam (ffremovelh r (lo, ucast hi)) lo hi = {}
    \<and> ffindhi (ffremovelh r (lo, ucast hi)) (lo, ucast hi) k = None
    \<and> (\<forall>cc < unat (nClusterItems r). \<not> same_family lo hi (clusterMap r ! cc) \<longrightarrow>
         clusterMap (ffremovelh r (lo, ucast hi)) ! cc = clusterMap r ! cc)"
proof -
  have m: "(ucast hi :: u64) AND FCODEHASHMASK = ucast hi"
  proof (rule bit_eqI)
    fix n assume "possible_bit TYPE(u64) n"
    have "bit FCODEHASHMASK n \<longleftrightarrow> n < 48" if "n < 64" for n
      using that unfolding FCODEHASHMASK_def
      by (simp only: bit_xor_iff bit_push_bit_iff bit_minus_1_iff possible_bit_word)
         (auto simp: mask_16 bit_mask_iff possible_bit_def)
    then show "bit ((ucast hi :: u64) AND FCODEHASHMASK) n = bit (ucast hi :: u64) n"
      by (auto simp: bit_simps dest: bit_imp_le_length)
  qed
  have inj: "(ucast h :: u64) = ucast hi \<longleftrightarrow> h = hi" for h :: u48
    using ucast_u48_u64 by metis
  have "unat (nClusterItems r) \<le> length (clusterMap r)" using assms(1) by (simp add: wf_root_def)
  note l = ffremovelh_loop [OF this, of lo "ucast hi", unfolded inj]
  have e: "nClusterItems (ffremovelh r (lo, ucast hi)) = nClusterItems r"
    "\<forall>cc < unat (nClusterItems r). clusterMap (ffremovelh r (lo, ucast hi)) ! cc =
      (if same_family lo hi (clusterMap r ! cc) then clear_code (clusterMap r ! cc) else clusterMap r ! cc)"
    using l \<open>unat (nClusterItems r) \<le> length (clusterMap r)\<close>
    unfolding ffremovelh_def Let_def fst_conv snd_conv m inj same_family_def by auto
  have none: "\<not> same_family lo hi (clusterMap (ffremovelh r (lo, ucast hi)) ! cc)"
    if "cc < unat (nClusterItems r)" for cc
    using that e(2) assms(2) by (auto simp: same_family_def clear_code_def)
  then have "fam (ffremovelh r (lo, ucast hi)) lo hi = {}"
    using e(1) by (auto simp: fam_def)
  moreover have "ffindhi (ffremovelh r (lo, ucast hi)) (lo, ucast hi) k = None"
    using none e(1) by (auto simp: ffindhi_def find_upt_None same_family_def)
  ultimately show ?thesis using e(2) by simp
qed

theorem ffremovelh_removes_family_witness:
  "ffindhi (ffremovelh boot_root (7, ucast (9 :: u48))) (7, ucast (9 :: u48)) 0 = None"
  using ffremovelh_removes_family [OF wf_boot_root, of 7 9 0] by simp

text \<open>C22: distinct clusters of a well-formed map have blocks on the image that do not overlap, all of them
  at or behind the start of the partition and reachable by the raw layer.  That the last of them is still
  inside of the partition is not said: a mount does not compare the map with the length of the partition.\<close>

theorem getloc_distinct_blocks:
  assumes "wf_root r" and "i < unat (nClusterItems r)" and "j < unat (nClusterItems r)"
  shows "block_ok (disk_env r) (getloc r i)
    \<and> (i \<noteq> j \<longrightarrow> boff (disk_env r) (getloc r i) + bsize (disk_env r) \<le> boff (disk_env r) (getloc r j)
         \<or> boff (disk_env r) (getloc r j) + bsize (disk_env r) \<le> boff (disk_env r) (getloc r i))"
proof -
  have ok: "block_ok (disk_env r) (getloc r i)" "block_ok (disk_env r) (getloc r j)"
    using getloc_block_ok assms by blast+
  then show ?thesis
    using boff_apart [of "disk_env r" "getloc r i" "getloc r j"] getloc_inject [OF assms]
    by (auto simp: block_ok_def)
qed

theorem getloc_distinct_blocks_witness: "block_ok (disk_env boot_root) (getloc boot_root 1)"
  using getloc_distinct_blocks [OF wf_boot_root, of 1 2] by (simp add: boot_root_def)

end
