(* ===== verification/Frat_File.thy ===== *)
theory Frat_File
  imports Frat_Map
begin

text \<open>
  Open files of the FRAT tools: reading and writing clusters, the file position, time stamps,
  and the byte-level read and write of \<^verbatim>\<open>tools/filesystem/frat.c\<close>.  A handle keeps the map index
  of the file's metadata cluster and the position, which counts the metadata block.  The outer
  \<open>None\<close> of an operation is a null dereference, a division by zero or a loop that does not end.
  The local time is a parameter, the pair of the second of the day and the day of the year.
\<close>

record fhandle =
  fh_file :: nat
  progress :: u64

definition fb_of :: "fsys \<Rightarrow> nat \<Rightarrow> fsblock" where
  "fb_of fs i = clusterMap (mnt fs) ! i"

definition code_of :: "fsblock \<Rightarrow> u64 \<times> u64" where
  "code_of b = (fcodelow b, ucast (fcodehigh b))"

section \<open>Single clusters\<close>

text \<open>The loop over extension clusters; the cursor is the caller's index.\<close>

partial_function (option) ext_skip ::
  "conf_fsroot \<Rightarrow> u64 \<times> u64 \<Rightarrow> nat option \<Rightarrow> u64 \<Rightarrow> (nat option \<times> u64) option" where
  "ext_skip r hash fb i =
    (case fb of
       None \<Rightarrow> Some (None, i)
     | Some cc \<Rightarrow>
         if flag_check (attributes (clusterMap r ! cc)) fsextensionallocatedcluster
         then ext_skip r hash (ffindhi r hash i) (i + 1)
         else Some (Some cc, i))"

definition fread1 :: "fsys \<Rightarrow> nat \<Rightarrow> u64 \<Rightarrow> (bytes option \<times> u64) option" where
  "fread1 fs fb i =
    (let r = mnt fs; b = clusterMap r ! fb in
     if i \<noteq> ucast (index b) then
       (case ffindhi r (code_of b) i of
          None \<Rightarrow> Some (None, i)
        | Some c \<Rightarrow> do {
            (c', i') \<leftarrow> ext_skip r (code_of b) (Some c) i;
            Some (case c' of None \<Rightarrow> None | Some k \<Rightarrow> read_data_block fs k, i')
          })
     else Some (read_data_block fs fb, i))"

definition fpush1 :: "nat \<Rightarrow> u64 \<Rightarrow> bytes \<Rightarrow> fsys \<Rightarrow> fsys option" where
  "fpush1 fb i buffer fs =
    (let r = mnt fs; b = clusterMap r ! fb in
     if i \<noteq> ucast (index b) then
       (case ffindhi r (code_of b) i of
          None \<Rightarrow>
            (case faddr fb fs of
               (fs1, None) \<Rightarrow> Some fs1
             | (fs1, Some k) \<Rightarrow> Some (write_data_block k buffer fs1))
        | Some c \<Rightarrow> do {
            (c', i') \<leftarrow> ext_skip r (code_of b) (Some c) i;
            (case c' of
               Some k \<Rightarrow> Some (write_data_block k buffer fs)
             | None \<Rightarrow>
                 (case faddr fb fs of
                    (fs1, None) \<Rightarrow> Some fs1
                  | (fs1, Some k) \<Rightarrow> Some (write_data_block k buffer fs1)))
          })
     else if flag_check (attributes b) fsmetadatacluster then Some fs
     else Some (write_data_block fb buffer fs))"

section \<open>Time stamps\<close>

definition sizeof_meta_fsblock :: u64 where "sizeof_meta_fsblock = 512"

definition freadinfo :: "fsys \<Rightarrow> nat \<Rightarrow> bytes option" where
  "freadinfo fs fb = readblocks (disk_env (mnt fs)) (disk fs) (getloc (mnt fs) fb) sizeof_meta_fsblock"

definition patch :: "nat \<Rightarrow> bytes \<Rightarrow> bytes \<Rightarrow> bytes" where
  "patch off new b = take off b @ new @ drop (off + length new) b"

text \<open>
  \<open>accesstime\<close>, \<open>writetime\<close>, \<open>accessdate\<close> and \<open>writedate\<close> are the eight-byte fields at offsets
  40, 48, 56 and 64 of \<open>meta_fsblock\<close>.
\<close>

definition stamp :: "nat \<times> nat \<Rightarrow> bool \<Rightarrow> bytes \<Rightarrow> bytes" where
  "stamp now wt b =
    (let b1 = (if wt then patch 64 (le_bytes 8 (snd now)) (patch 48 (le_bytes 8 (fst now)) b) else b)
     in patch 56 (le_bytes 8 (snd now)) (patch 40 (le_bytes 8 (fst now)) b1))"

definition fupdatetstamp :: "nat \<times> nat \<Rightarrow> nat \<Rightarrow> bool \<Rightarrow> fsys \<Rightarrow> fsys option" where
  "fupdatetstamp now fb wt fs = do {
     finfo \<leftarrow> freadinfo fs fb;
     Some (fs\<lparr>disk := writeblocks (disk_env (mnt fs)) (stamp now wt finfo) (getloc (mnt fs) fb)
                sizeof_meta_fsblock (disk fs)\<rparr>)
   }"

section \<open>Size and position\<close>

partial_function (option) fsize_loop :: "conf_fsroot \<Rightarrow> u64 \<times> u64 \<Rightarrow> u64 \<Rightarrow> u32 \<Rightarrow> u64 option" where
  "fsize_loop r hash sz cc =
    (case ffindhi r hash (ucast cc) of
       None \<Rightarrow> Some sz
     | Some k \<Rightarrow>
         fsize_loop r hash
           (if \<not> flag_check (attributes (clusterMap r ! k)) fsmetadatacluster
            then sz + ucast (confBlockSize (root r)) else sz) (cc + 1))"

definition fsize :: "fsys \<Rightarrow> fhandle \<Rightarrow> u64 option" where
  "fsize fs h = fsize_loop (mnt fs) (code_of (fb_of fs (fh_file h))) 0 0"

definition fseeko :: "fsys \<Rightarrow> u64 \<Rightarrow> fhandle \<Rightarrow> fhandle" where
  "fseeko fs offset h =
    (if sint offset < 0 then
       (let minProgress = ucast (confBlockSize (root (mnt fs)));
            distance = - (offset + 1) + 1
        in if progress h \<le> minProgress \<or> distance \<ge> progress h - minProgress
           then h\<lparr>progress := minProgress\<rparr>
           else h\<lparr>progress := progress h - distance\<rparr>)
     else if offset > - 1 - progress h then h\<lparr>progress := - 1\<rparr>
     else h\<lparr>progress := progress h + offset\<rparr>)"

definition fseek :: "fsys \<Rightarrow> u64 \<Rightarrow> fhandle \<Rightarrow> fhandle" where
  "fseek fs p h =
    (let minProgress = ucast (confBlockSize (root (mnt fs)))
     in h\<lparr>progress := (if p > - 1 - minProgress then - 1 else minProgress + p)\<rparr>)"

section \<open>Bytes\<close>

text \<open>The part of the current block that a transfer still covers.\<close>

definition chunk_len :: "u64 \<Rightarrow> u64 \<Rightarrow> u64 \<Rightarrow> u64" where
  "chunk_len blkSize pos left =
    (let chunk = blkSize - pos mod blkSize in if chunk > left then left else chunk)"

lemma unat_chunk_len:
  assumes "blk \<noteq> 0"
  shows "unat (chunk_len blk pos left) = min (unat left) (unat blk - unat pos mod unat blk)"
proof -
  have "0 < unat blk" using assms by (simp add: unat_gt_0)
  then have "unat pos mod unat blk \<le> unat blk" by (simp add: less_imp_le)
  then have "unat (blk - pos mod blk) = unat blk - unat pos mod unat blk"
    by (simp add: unat_sub_small unat_mod_distrib)
  then show ?thesis by (simp add: chunk_len_def Let_def word_less_nat_alt)
qed

lemma chunk_len_bounds:
  assumes "left \<noteq> 0" and "blk \<noteq> 0"
  shows "0 < unat (chunk_len blk pos left)" and "unat (chunk_len blk pos left) \<le> unat left"
    and "unat pos mod unat blk + unat (chunk_len blk pos left) \<le> unat blk"
proof -
  have "0 < unat left" "0 < unat blk" using assms by (simp_all add: unat_gt_0)
  moreover have "unat pos mod unat blk < unat blk" using calculation(2) by simp
  ultimately show "0 < unat (chunk_len blk pos left)" "unat (chunk_len blk pos left) \<le> unat left"
    "unat pos mod unat blk + unat (chunk_len blk pos left) \<le> unat blk"
    unfolding unat_chunk_len [OF assms(2)] by linarith+
qed

lemma chunk_decreases:
  assumes "left \<noteq> 0" and "blk \<noteq> 0"
  shows "unat (left - chunk_len blk pos left) < unat left"
  using chunk_len_bounds [OF assms, of pos] by (simp add: unat_sub_small)

text \<open>The loop over the blocks; \<open>data\<close> is what is left of the caller's buffer.\<close>

definition fwrite_block :: "nat \<Rightarrow> u64 \<Rightarrow> u64 \<Rightarrow> bytes \<Rightarrow> fsys \<Rightarrow> fsys option" where
  "fwrite_block fb pos chunk data fs =
    (let blkSize = ucast (confBlockSize (root (mnt fs))) :: u64;
         blkIndex = pos div blkSize; blkOffset = pos mod blkSize
     in if chunk < blkSize then do {
          (blk, i) \<leftarrow> fread1 fs fb blkIndex;
          fpush1 fb i
            (patch (unat blkOffset) (take (unat chunk) data)
               (case blk of None \<Rightarrow> replicate (unat blkSize) 0 | Some b \<Rightarrow> b)) fs
        } else fpush1 fb blkIndex data fs)"

function fwrite_loop :: "nat \<Rightarrow> u64 \<Rightarrow> u64 \<Rightarrow> bytes \<Rightarrow> fsys \<Rightarrow> (fsys \<times> u64) option" where
  "fwrite_loop fb pos left data fs =
    (let blkSize = ucast (confBlockSize (root (mnt fs))) :: u64 in
     if left = 0 then Some (fs, pos)
     else if blkSize = 0 then None
     else
       let chunk = chunk_len blkSize pos left
       in do {
         fs' \<leftarrow> fwrite_block fb pos chunk data fs;
         fwrite_loop fb (pos + chunk) (left - chunk) (drop (unat chunk) data) fs'
       })"
  by auto
termination
  by (relation "measure (\<lambda>(fb, pos, left, data, fs). unat left)")
     (use chunk_decreases in \<open>simp_all add: Let_def\<close>)

declare fwrite_loop.simps [simp del]

definition fwrite :: "nat \<times> nat \<Rightarrow> fhandle \<Rightarrow> u64 \<Rightarrow> bytes \<Rightarrow> fsys \<Rightarrow> (u64 \<times> fhandle \<times> fsys) option" where
  "fwrite now h nbytes data fs =
    (if nbytes = 0 then Some (0, h, fs)
     else do {
       fs1 \<leftarrow> fupdatetstamp now (fh_file h) True fs;
       meta \<leftarrow> ffindh (mnt fs1) (code_of (fb_of fs1 (fh_file h)));
       (if flag_check (attributes (fb_of fs1 meta)) fsreadonly then Some (0, h, fs1)
        else do {
          (fs2, pos) \<leftarrow> fwrite_loop (fh_file h) (progress h) nbytes data fs1;
          Some (nbytes, h\<lparr>progress := pos\<rparr>, fs2)
        })
     })"

function fread_loop :: "nat \<Rightarrow> u64 \<Rightarrow> u64 \<Rightarrow> bytes \<Rightarrow> fsys \<Rightarrow> (bytes \<times> u64 \<times> u64) option" where
  "fread_loop fb pos left out fs =
    (let blkSize = ucast (confBlockSize (root (mnt fs))) :: u64 in
     if left = 0 then Some (out, pos, left)
     else if blkSize = 0 then None
     else
       let blkIndex = pos div blkSize; blkOffset = pos mod blkSize;
           chunk = chunk_len blkSize pos left
       in do {
         (blk, i) \<leftarrow> fread1 fs fb blkIndex;
         (case blk of
            None \<Rightarrow> Some (out, pos, left)
          | Some b \<Rightarrow>
              fread_loop fb (pos + chunk) (left - chunk)
                (out @ take (unat chunk) (drop (unat blkOffset) b)) fs)
       })"
  by auto
termination
  by (relation "measure (\<lambda>(fb, pos, left, out, fs). unat left)")
     (use chunk_decreases in \<open>simp_all add: Let_def\<close>)

declare fread_loop.simps [simp del]

text \<open>
  The result is the returned count, the buffer stored through \<open>dataout\<close> (\<open>None\<close> where the function
  returns early), the handle and the file system.  The buffer is zeroed before the loop.
\<close>

definition fread ::
  "nat \<times> nat \<Rightarrow> fhandle \<Rightarrow> u64 \<Rightarrow> fsys \<Rightarrow> (u64 \<times> bytes option \<times> fhandle \<times> fsys) option" where
  "fread now h nbytes fs = do {
     sz \<leftarrow> fsize fs h;
     (if (progress h - ucast (confBlockSize (root (mnt fs)))) + nbytes > sz then Some (0, None, h, fs)
      else do {
        fs1 \<leftarrow> fupdatetstamp now (fh_file h) False fs;
        (out, pos, left) \<leftarrow> fread_loop (fh_file h) (progress h) nbytes [] fs1;
        Some (nbytes - left, Some (out @ replicate (unat nbytes - length out) 0), h\<lparr>progress := pos\<rparr>, fs1)
      })
   }"

text \<open>\<open>__ftest\<close> writes a block of random bytes at the start, reads it back and compares.\<close>

definition ftest :: "nat \<times> nat \<Rightarrow> bytes \<Rightarrow> fhandle \<Rightarrow> fsys \<Rightarrow> (bool \<times> fhandle \<times> fsys) option" where
  "ftest now random h fs =
    (let blk = confBlockSize (root (mnt fs)) in do {
       (_, h1, fs1) \<leftarrow> fwrite now (fseek fs 0 h) (ucast blk) random fs;
       (_, back, h2, fs2) \<leftarrow> fread now (fseek fs1 0 h1) (ucast blk) fs1;
       Some (case back of None \<Rightarrow> True | Some b \<Rightarrow> take (unat blk) random = take (unat blk) b, h2, fs2)
     })"


section \<open>Well-formed files\<close>

text \<open>
  A file with metadata cluster \<open>fb\<close>: its clusters are numbered without gaps, the metadata cluster
  and only it carries number 0 and the metadata flag, no cluster belongs to an extension, and the
  image holds the block of every cluster.
\<close>

definition file_ok :: "fsys \<Rightarrow> nat \<Rightarrow> u64 \<Rightarrow> u48 \<Rightarrow> bool" where
  "file_ok fs fb lo hi =
    (wf_root (mnt fs) \<and> (lo, hi) \<noteq> (0, 0) \<and> contiguous (mnt fs) lo hi
     \<and> fb \<in> fam (mnt fs) lo hi \<and> index (fb_of fs fb) = 0
     \<and> (\<forall>cc \<in> fam (mnt fs) lo hi. \<not> flag_check (attributes (fb_of fs cc)) fsextensionallocatedcluster
          \<and> (flag_check (attributes (fb_of fs cc)) fsmetadatacluster \<longleftrightarrow> cc = fb)
          \<and> (\<exists>b. data_is fs cc b)))"

definition nblk :: "fsys \<Rightarrow> u64 \<Rightarrow> u48 \<Rightarrow> nat" where
  "nblk fs lo hi = card (fam (mnt fs) lo hi)"

definition blksz :: "fsys \<Rightarrow> nat" where
  "blksz fs = unat (confBlockSize (root (mnt fs)))"

definition block_is :: "fsys \<Rightarrow> u64 \<Rightarrow> u48 \<Rightarrow> nat \<Rightarrow> bytes \<Rightarrow> bool" where
  "block_is fs lo hi k b =
    (\<exists>cc \<in> fam (mnt fs) lo hi. unat (index (fb_of fs cc)) = k \<and> data_is fs cc b)"

lemma file_ok_code:
  assumes "file_ok fs fb lo hi" and "cc \<in> fam (mnt fs) lo hi"
  shows "code_of (clusterMap (mnt fs) ! cc) = (lo, ucast hi)"
  using assms by (auto simp: code_of_def fam_def same_family_def)

lemma nblk_less: "file_ok fs fb lo hi \<Longrightarrow> nblk fs lo hi < 2 ^ 32"
  using card_fam_le [of "mnt fs" lo hi] by (simp add: file_ok_def wf_root_def nblk_def)

lemma nblk_blksz_less:
  assumes "file_ok fs fb lo hi"
  shows "nblk fs lo hi * blksz fs < 2 ^ 64"
proof -
  have "blksz fs < 2 ^ 32" unfolding blksz_def
    using unsigned_less [of "confBlockSize (root (mnt fs))", where 'a = nat] by simp
  then have "nblk fs lo hi * blksz fs \<le> (2 ^ 32 - 1) * (2 ^ 32 - 1)"
    using nblk_less [OF assms] by (intro mult_le_mono) simp_all
  then show ?thesis by (rule le_less_trans) simp
qed

lemma nblk_pos: "file_ok fs fb lo hi \<Longrightarrow> 0 < nblk fs lo hi"
  by (auto simp: file_ok_def nblk_def card_gt_0_iff)

lemma blksz_pos: "file_ok fs fb lo hi \<Longrightarrow> 0 < blksz fs"
  by (simp add: file_ok_def wf_root_def blksz_def)

lemma of_nat_neq_index:
  assumes "file_ok fs fb lo hi" and "0 < k" and "k < 2 ^ 32"
  shows "(of_nat k :: u64) \<noteq> ucast (index (clusterMap (mnt fs) ! fb))"
proof -
  have "index (clusterMap (mnt fs) ! fb) = 0" using assms(1) by (simp add: file_ok_def fb_of_def)
  moreover have "unat (of_nat k :: u64) = k" using assms(3) by (simp add: unat_of_nat)
  ultimately show ?thesis using assms(2) by (metis less_numeral_extra(3) unat_0 unsigned_0 ucast_0)
qed

lemma find_block:
  assumes "file_ok fs fb lo hi" and "k < nblk fs lo hi"
  obtains cc b where "ffindhi (mnt fs) (lo, ucast hi) (of_nat k) = Some cc" "cc \<in> fam (mnt fs) lo hi"
    "unat (index (fb_of fs cc)) = k" "data_is fs cc b"
proof -
  have k: "k < 2 ^ 32" using assms nblk_less by (meson order.strict_trans)
  have "ffindhi (mnt fs) (lo, ucast hi) (of_nat k) \<noteq> None"
    using ffindhi_contiguous [of "mnt fs" lo hi k] assms k by (simp add: file_ok_def nblk_def)
  then obtain cc where cc: "ffindhi (mnt fs) (lo, ucast hi) (of_nat k) = Some cc" by blast
  from ffindhi_Some [OF this k] assms(1) that [OF cc] show ?thesis
    by (auto simp: file_ok_def fb_of_def)
qed

lemma ext_skip_plain:
  "\<not> flag_check (attributes (clusterMap r ! cc)) fsextensionallocatedcluster \<Longrightarrow>
     ext_skip r hash (Some cc) i = Some (Some cc, i)"
  by (subst ext_skip.simps) simp

lemma block_is_unique:
  assumes "file_ok fs fb lo hi" and "block_is fs lo hi k b" and "block_is fs lo hi k c"
  shows "b = c"
proof -
  obtain x y where x: "x \<in> fam (mnt fs) lo hi" "unat (index (fb_of fs x)) = k" "data_is fs x b"
    and y: "y \<in> fam (mnt fs) lo hi" "unat (index (fb_of fs y)) = k" "data_is fs y c"
    using assms(2,3) by (auto simp: block_is_def)
  have "x = y"
    using assms(1) x y contiguous_unique [of "mnt fs" lo hi x y]
    by (simp add: file_ok_def fb_of_def word_unat_eq_iff)
  with x y show ?thesis by (auto simp: data_is_def split: option.splits)
qed

text \<open>Reading block \<open>k\<close> of a file.\<close>

lemma fread1_inside:
  assumes "file_ok fs fb lo hi" and "0 < k" and "k < nblk fs lo hi"
  shows "\<exists>c. fread1 fs fb (of_nat k) = Some (Some c, of_nat k) \<and> block_is fs lo hi k (take (blksz fs) c)"
proof -
  have k: "k < 2 ^ 32" using assms nblk_less by (meson order.strict_trans)
  obtain cc b where cc: "ffindhi (mnt fs) (lo, ucast hi) (of_nat k) = Some cc"
    "cc \<in> fam (mnt fs) lo hi" "unat (index (fb_of fs cc)) = k" "data_is fs cc b"
    using find_block [OF assms(1,3)] by blast
  have fb: "fb \<in> fam (mnt fs) lo hi" using assms(1) by (simp add: file_ok_def)
  have e: "\<not> flag_check (attributes (clusterMap (mnt fs) ! cc)) fsextensionallocatedcluster"
    using assms(1) cc(2) by (simp add: file_ok_def fb_of_def)
  obtain c where c: "read_data_block fs cc = Some c" "take (blksz fs) c = b"
    using cc(4) by (auto simp: data_is_def blksz_def split: option.splits)
  have "fread1 fs fb (of_nat k) = Some (Some c, of_nat k)"
    using of_nat_neq_index [OF assms(1,2) k] cc(1) c(1) ext_skip_plain [OF e]
    by (simp add: fread1_def file_ok_code [OF assms(1) fb] Let_def)
  then show ?thesis using cc c by (auto simp: block_is_def)
qed

lemma fread1_outside:
  assumes "file_ok fs fb lo hi" and "nblk fs lo hi \<le> k" and "k < 2 ^ 32"
  shows "fread1 fs fb (of_nat k) = Some (None, of_nat k)"
proof -
  have k: "0 < k" using nblk_pos [OF assms(1)] assms(2) by simp
  have fb: "fb \<in> fam (mnt fs) lo hi" using assms(1) by (simp add: file_ok_def)
  have "ffindhi (mnt fs) (lo, ucast hi) (of_nat k) = None"
    using ffindhi_contiguous [of "mnt fs" lo hi k] assms by (simp add: file_ok_def nblk_def)
  then show ?thesis
    using of_nat_neq_index [OF assms(1) k assms(3)]
    by (simp add: fread1_def file_ok_code [OF assms(1) fb] Let_def)
qed

section \<open>Writing a block\<close>

lemma write_data_block_take:
  "write_data_block i b fs = write_data_block i (take (blksz fs) b) fs"
  by (simp add: write_data_block_def write_block_def writeblocks_def blksz_def)

lemma fb_of_write [simp]: "fb_of (write_data_block i b fs) cc = fb_of fs cc"
  by (simp add: fb_of_def)

lemma fam_less: "cc \<in> fam r lo hi \<Longrightarrow> cc < unat (nClusterItems r)"
  by (simp add: fam_def)

text \<open>Overwriting a cluster of the file.\<close>

lemma write_member:
  assumes "file_ok fs fb lo hi" and "cc \<in> fam (mnt fs) lo hi" and "blksz fs \<le> length b"
  shows "file_ok (write_data_block cc b fs) fb lo hi
    \<and> block_is (write_data_block cc b fs) lo hi (unat (index (fb_of fs cc))) (take (blksz fs) b)
    \<and> (\<forall>j c. j \<noteq> unat (index (fb_of fs cc)) \<longrightarrow> block_is fs lo hi j c \<longrightarrow>
         block_is (write_data_block cc b fs) lo hi j c)"
proof -
  let ?fs = "write_data_block cc b fs"
  have wf: "wf_root (mnt fs)" using assms(1) by (simp add: file_ok_def)
  have d: "data_is ?fs cc (take (blksz fs) b)"
    unfolding write_data_block_take [of cc b]
    using wf assms(2,3) fam_less by (intro data_is_same) (auto simp: blksz_def)
  have o: "data_is ?fs x c" if "x \<in> fam (mnt fs) lo hi" "x \<noteq> cc" "data_is fs x c" for x c
    unfolding write_data_block_take [of cc b]
    using wf assms(2,3) that fam_less by (intro data_is_other) (auto simp: blksz_def)
  have "\<exists>c. data_is ?fs x c" if "x \<in> fam (mnt fs) lo hi" for x
    using that d o assms(1) unfolding file_ok_def by (cases "x = cc") blast+
  then have "file_ok ?fs fb lo hi" using assms(1) by (simp add: file_ok_def)
  moreover have "block_is ?fs lo hi j c" if "j \<noteq> unat (index (fb_of fs cc))" "block_is fs lo hi j c" for j c
    using that o unfolding block_is_def by auto
  moreover have "block_is ?fs lo hi (unat (index (fb_of fs cc))) (take (blksz fs) b)"
    using d assms(2) by (auto simp: block_is_def)
  ultimately show ?thesis by blast
qed

lemma fpush1_inside:
  assumes "file_ok fs fb lo hi" and "0 < k" and "k < nblk fs lo hi" and "blksz fs \<le> length b"
  shows "\<exists>fs'. fpush1 fb (of_nat k) b fs = Some fs' \<and> file_ok fs' fb lo hi \<and> mnt fs' = mnt fs
    \<and> block_is fs' lo hi k (take (blksz fs) b)
    \<and> (\<forall>j c. j \<noteq> k \<longrightarrow> block_is fs lo hi j c \<longrightarrow> block_is fs' lo hi j c)"
proof -
  have k: "k < 2 ^ 32" using assms nblk_less by (meson order.strict_trans)
  obtain cc d where cc: "ffindhi (mnt fs) (lo, ucast hi) (of_nat k) = Some cc"
    "cc \<in> fam (mnt fs) lo hi" "unat (index (fb_of fs cc)) = k" "data_is fs cc d"
    using find_block [OF assms(1,3)] by blast
  have fb: "fb \<in> fam (mnt fs) lo hi" using assms(1) by (simp add: file_ok_def)
  have e: "\<not> flag_check (attributes (clusterMap (mnt fs) ! cc)) fsextensionallocatedcluster"
    using assms(1) cc(2) by (simp add: file_ok_def fb_of_def)
  have "fpush1 fb (of_nat k) b fs = Some (write_data_block cc b fs)"
    using of_nat_neq_index [OF assms(1,2) k] cc(1) ext_skip_plain [OF e]
    by (simp add: fpush1_def file_ok_code [OF assms(1) fb] Let_def)
  with write_member [OF assms(1) cc(2) assms(4)] cc(3) show ?thesis by auto
qed

section \<open>Appending a block\<close>

text \<open>The free clusters that the allocator can still reach before it wraps.\<close>

definition room :: "conf_fsroot \<Rightarrow> nat" where
  "room r = card {i. unat (lastClusterAlloc r) \<le> i \<and> i < unat (nClusterItems r) \<and> is_free (clusterMap r ! i)}"

lemma faddr_some:
  assumes "0 < room (mnt fs)"
  shows "\<exists>fs' i. faddr fb fs = (fs', Some i)"
proof -
  obtain r1 a where al: "allocatecluster (mnt fs) = (r1, a)" by fastforce
  have "{i. unat (lastClusterAlloc (mnt fs)) \<le> i \<and> i < unat (nClusterItems (mnt fs))
      \<and> is_free (clusterMap (mnt fs) ! i)} \<noteq> {}"
    using assms unfolding room_def by (metis card.empty less_numeral_extra(3))
  then have "a \<noteq> None" using allocatecluster_None [of "mnt fs" r1] al by (cases a) auto
  then show ?thesis using al by (auto simp: faddr_def Let_def)
qed

lemma faddr_room:
  assumes "wf_root (mnt fs)" and "fb \<in> fam (mnt fs) lo hi" and "(lo, hi) \<noteq> (0, 0)"
    and "faddr fb fs = (fs', Some i)"
  shows "room (mnt fs) = Suc (room (mnt fs'))"
proof -
  let ?r = "mnt fs"
  obtain r1 where al: "allocatecluster ?r = (r1, Some i)"
    using assms(4) by (auto simp: faddr_def Let_def split: prod.splits option.splits)
  have a: "unat (lastClusterAlloc ?r) \<le> i" "i < unat (nClusterItems ?r)" "is_free (clusterMap ?r ! i)"
    "\<forall>j. unat (lastClusterAlloc ?r) \<le> j \<and> j < i \<longrightarrow> \<not> is_free (clusterMap ?r ! j)"
    "r1 = ?r\<lparr>lastClusterAlloc := of_nat i\<rparr>"
    using al by (auto simp: allocatecluster_def find_upt_Some split: option.splits)
  have i: "unat (of_nat i :: u32) = i" "i < length (clusterMap ?r)"
    using a(2) assms(1) by (simp_all add: wf_root_def unat_of_nat)
  have m: "lastClusterAlloc (mnt fs') = of_nat i" "nClusterItems (mnt fs') = nClusterItems ?r"
    and n: "\<not> is_free (clusterMap (mnt fs') ! i)" "\<And>j. j \<noteq> i \<Longrightarrow> clusterMap (mnt fs') ! j = clusterMap ?r ! j"
    using assms(2-4) al a(5) i(2)
    by (auto simp: faddr_def Let_def clusterMap_map_update is_free_def fam_def same_family_def)
  let ?A = "{j. unat (lastClusterAlloc ?r) \<le> j \<and> j < unat (nClusterItems ?r) \<and> is_free (clusterMap ?r ! j)}"
  let ?B = "{j. i \<le> j \<and> j < unat (nClusterItems ?r) \<and> is_free (clusterMap (mnt fs') ! j)}"
  have "x \<in> ?A \<longleftrightarrow> x \<in> insert i ?B" for x
    using a n by (cases "x = i"; cases "x < i") auto
  then have "?A = insert i ?B" by blast
  moreover have "i \<notin> ?B" using n by simp
  ultimately show ?thesis unfolding room_def m i by simp
qed

lemma fpush1_append:
  assumes "file_ok fs fb lo hi" and "0 < room (mnt fs)" and "nblk fs lo hi \<le> k" and "k < 2 ^ 32"
    and "blksz fs \<le> length b"
  shows "\<exists>fs'. fpush1 fb (of_nat k) b fs = Some fs' \<and> file_ok fs' fb lo hi
    \<and> root (mnt fs') = root (mnt fs) \<and> room (mnt fs) = Suc (room (mnt fs'))
    \<and> nblk fs' lo hi = Suc (nblk fs lo hi)
    \<and> block_is fs' lo hi (nblk fs lo hi) (take (blksz fs) b)
    \<and> (\<forall>j c. j < nblk fs lo hi \<longrightarrow> block_is fs lo hi j c \<longrightarrow> block_is fs' lo hi j c)"
proof -
  let ?n = "nblk fs lo hi"
  have wf: "wf_root (mnt fs)" "(lo, hi) \<noteq> (0, 0)" "contiguous (mnt fs) lo hi"
    and fb: "fb \<in> fam (mnt fs) lo hi" "index (fb_of fs fb) = 0"
    using assms(1) by (simp_all add: file_ok_def)
  obtain fs1 i where ad: "faddr fb fs = (fs1, Some i)" using faddr_some [OF assms(2)] by blast
  note sp = faddr_spec [OF wf(1) fb(1) wf(2,3) ad]
  have ni: "i \<notin> fam (mnt fs) lo hi" using sp wf(2) by (auto simp: fam_def same_family_def is_free_def)
  have old: "fb_of fs1 cc = fb_of fs cc \<and> (\<forall>c. data_is fs cc c \<longrightarrow> data_is fs1 cc c)"
    if "cc \<in> fam (mnt fs) lo hi" for cc
    using sp that ni fam_less [OF that] by (auto simp: fb_of_def)
  have att: "attributes (fb_of fs1 i) = flag_uset (attributes (fb_of fs fb)) fsmetadatacluster"
    using sp by (simp add: fb_of_def)
  have "\<not> flag_check (attributes (fb_of fs fb)) fsextensionallocatedcluster"
    using assms(1) fb(1) by (simp add: file_ok_def)
  then have ne: "\<not> flag_check (attributes (fb_of fs1 i)) fsextensionallocatedcluster"
    unfolding att by (rule flag_uset_keeps_clear)
  have nm: "\<not> flag_check (attributes (fb_of fs1 i)) fsmetadatacluster"
    unfolding att by (rule flag_uset_check) (simp add: fsmetadatacluster_def)
  have fam1: "fam (mnt fs1) lo hi = insert i (fam (mnt fs) lo hi)" using sp by blast
  have members: "\<not> flag_check (attributes (fb_of fs1 cc)) fsextensionallocatedcluster
      \<and> (flag_check (attributes (fb_of fs1 cc)) fsmetadatacluster \<longleftrightarrow> cc = fb) \<and> (\<exists>b. data_is fs1 cc b)"
    if "cc \<in> fam (mnt fs1) lo hi" for cc
  proof (cases "cc = i")
    case True
    with ne nm fb(1) ni sp show ?thesis by auto
  next
    case False
    with that fam1 have cc: "cc \<in> fam (mnt fs) lo hi" by simp
    with assms(1) obtain b where "data_is fs cc b" by (auto simp: file_ok_def)
    with cc old [OF cc] assms(1) show ?thesis by (auto simp: file_ok_def)
  qed
  have ok1: "file_ok fs1 fb lo hi"
    unfolding file_ok_def using members sp wf(2) fam1 fb old [OF fb(1)] by simp
  have i1: "i \<in> fam (mnt fs1) lo hi" "unat (index (fb_of fs1 i)) = ?n"
    using sp fam1 by (simp_all add: nblk_def fb_of_def)
  have bz: "blksz fs1 = blksz fs" using sp by (simp add: blksz_def)
  have "ffindhi (mnt fs) (lo, ucast hi) (of_nat k) = None"
    using ffindhi_contiguous [OF wf(3,1) assms(4)] assms(3) by (simp add: nblk_def)
  then have p: "fpush1 fb (of_nat k) b fs = Some (write_data_block i b fs1)"
    using of_nat_neq_index [OF assms(1) _ assms(4)] nblk_pos [OF assms(1)] assms(3) ad
    by (simp add: fpush1_def file_ok_code [OF assms(1) fb(1)] Let_def)
  have keep: "block_is fs1 lo hi j c" if "block_is fs lo hi j c" for j c
    using that old fam1 unfolding block_is_def by auto
  have "nblk (write_data_block i b fs1) lo hi = Suc ?n"
    using fam1 ni by (simp add: nblk_def)
  with p write_member [OF ok1 i1(1), of b] faddr_room [OF wf(1) fb(1) wf(2) ad] i1(2) bz keep sp assms(5)
  show ?thesis by (intro exI [of _ "write_data_block i b fs1"]) auto
qed


section \<open>Files as byte arrays\<close>

definition byte_is :: "fsys \<Rightarrow> u64 \<Rightarrow> u48 \<Rightarrow> nat \<Rightarrow> u8 \<Rightarrow> bool" where
  "byte_is fs lo hi q v =
    (\<exists>b. block_is fs lo hi (q div blksz fs) b \<and> length b = blksz fs \<and> b ! (q mod blksz fs) = v)"

lemma data_is_length:
  assumes "wf_root (mnt fs)" and "i < unat (nClusterItems (mnt fs))" and "read_data_block fs i = Some c"
  shows "blksz fs \<le> length c"
proof -
  have ok: "block_ok (disk_env (mnt fs)) (getloc (mnt fs) i)" by (rule getloc_block_ok [OF assms(1,2)])
  with assms(3) have "length c = bsize (disk_env (mnt fs))"
    by (auto simp: read_data_block_def block_ok_unfold file_read_nth)
  with ok show ?thesis by (simp add: block_ok_def blksz_def)
qed

lemma block_is_length:
  assumes "file_ok fs fb lo hi" and "block_is fs lo hi k b"
  shows "length b = blksz fs"
proof -
  obtain cc c where "cc \<in> fam (mnt fs) lo hi" "read_data_block fs cc = Some c" "b = take (blksz fs) c"
    using assms(2) by (auto simp: block_is_def data_is_def blksz_def split: option.splits)
  moreover from this have "blksz fs \<le> length c"
    using assms(1) by (intro data_is_length) (auto simp: file_ok_def fam_less)
  ultimately show ?thesis by simp
qed

lemma length_patch: "off + length n \<le> length b \<Longrightarrow> length (patch off n b) = length b"
  by (simp add: patch_def)

lemma nth_patch:
  "off + length n \<le> length b \<Longrightarrow> i < length b \<Longrightarrow>
     patch off n b ! i = (if off \<le> i \<and> i < off + length n then n ! (i - off) else b ! i)"
  by (auto simp: patch_def nth_append min_def)

text \<open>What one round of the write loop does to a file whose next block is at most one past the end.\<close>

lemma push_any:
  assumes "file_ok fs fb lo hi" and "0 < k" and "k \<le> nblk fs lo hi" and "k + 1 < 2 ^ 32"
    and "k < nblk fs lo hi \<or> 0 < room (mnt fs)" and "blksz fs \<le> length b"
  shows "\<exists>fs'. fpush1 fb (of_nat k) b fs = Some fs' \<and> file_ok fs' fb lo hi \<and> root (mnt fs') = root (mnt fs)
    \<and> nblk fs' lo hi = max (nblk fs lo hi) (k + 1)
    \<and> room (mnt fs) = room (mnt fs') + (nblk fs' lo hi - nblk fs lo hi)
    \<and> block_is fs' lo hi k (take (blksz fs) b)
    \<and> (\<forall>j c. j < nblk fs lo hi \<longrightarrow> j \<noteq> k \<longrightarrow> block_is fs lo hi j c \<longrightarrow> block_is fs' lo hi j c)"
proof (cases "k < nblk fs lo hi")
  case True
  from fpush1_inside [OF assms(1,2) True assms(6)] True show ?thesis
    by (auto simp: nblk_def max_def)
next
  case False
  with assms have k: "k = nblk fs lo hi" "0 < room (mnt fs)" by auto
  from fpush1_append [OF assms(1) k(2) _ _ assms(6), of k] assms(4) k show ?thesis by auto
qed

lemma unat_conf: "unat (ucast (confBlockSize (root (mnt fs))) :: u64) = blksz fs"
  by (simp add: blksz_def)

lemma block_index:
  fixes pos :: u64
  assumes "unat pos = p"
  shows "pos div ucast (confBlockSize (root (mnt fs))) = of_nat (p div blksz fs)"
proof -
  have "p div blksz fs < 2 ^ 64"
    using unat_u64_less [of pos] assms by (meson div_le_dividend le_less_trans)
  then show ?thesis
    using assms by (simp add: word_unat_eq_iff unat_div_distrib blksz_def unat_of_nat)
qed

text \<open>The buffer that the round hands to \<open>fpush1\<close>, for the bytes of its block.\<close>

definition new_block :: "fsys \<Rightarrow> u64 \<Rightarrow> u48 \<Rightarrow> nat \<Rightarrow> nat \<Rightarrow> bytes \<Rightarrow> bytes \<Rightarrow> bool" where
  "new_block fs lo hi p c data b =
    (blksz fs \<le> length b
     \<and> (\<forall>i < c. b ! (p mod blksz fs + i) = data ! i)
     \<and> (p div blksz fs < nblk fs lo hi \<longrightarrow>
          (\<forall>d i. block_is fs lo hi (p div blksz fs) d \<longrightarrow> i < blksz fs \<longrightarrow>
             (i < p mod blksz fs \<or> p mod blksz fs + c \<le> i) \<longrightarrow> b ! i = d ! i)))"

lemma fwrite_block_pushes:
  assumes "file_ok fs fb lo hi" and "unat pos = p" and "blksz fs \<le> p" and "p div blksz fs < 2 ^ 32"
    and "p mod blksz fs + unat chunk \<le> blksz fs" and "unat chunk \<le> length data"
  shows "\<exists>b. new_block fs lo hi p (unat chunk) data b
    \<and> fwrite_block fb pos chunk data fs = fpush1 fb (of_nat (p div blksz fs)) b fs"
proof (cases "unat chunk < blksz fs")
  case True
  let ?k = "p div blksz fs" and ?o = "p mod blksz fs" and ?t = "take (unat chunk) data"
  have bz: "0 < blksz fs" by (rule blksz_pos [OF assms(1)])
  have k: "0 < ?k" using assms(3) bz by (simp add: div_greater_zero_iff)
  have o: "unat (pos mod ucast (confBlockSize (root (mnt fs)))) = ?o"
    using assms(2) by (simp add: unat_mod_distrib blksz_def)
  have lt: "chunk < ucast (confBlockSize (root (mnt fs)))"
    using True by (simp add: word_less_nat_alt blksz_def)
  have step: "fwrite_block fb pos chunk data fs = fpush1 fb (of_nat ?k) (patch ?o ?t b) fs"
    if "fread1 fs fb (of_nat ?k) = Some (blk, of_nat ?k)"
      "b = (case blk of None \<Rightarrow> replicate (blksz fs) 0 | Some b \<Rightarrow> b)" for blk b
    using that lt o
    by (cases blk) (simp_all add: fwrite_block_def Let_def block_index [OF assms(2)] blksz_def)
  show ?thesis
  proof (cases "?k < nblk fs lo hi")
    case inside: True
    from fread1_inside [OF assms(1) k inside] obtain c where
      c: "fread1 fs fb (of_nat ?k) = Some (Some c, of_nat ?k)" "block_is fs lo hi ?k (take (blksz fs) c)"
      by blast
    then have lc: "blksz fs \<le> length c" using block_is_length [OF assms(1) c(2)] by simp
    have same: "d ! i = c ! i" if "block_is fs lo hi ?k d" "i < blksz fs" for d i
      using block_is_unique [OF assms(1) c(2) that(1)] that(2) by auto
    have "new_block fs lo hi p (unat chunk) data (patch ?o ?t c)"
      using lc assms(5,6) same by (auto simp: new_block_def length_patch nth_patch)
    with step [OF c(1), of c] show ?thesis by auto
  next
    case False
    have "new_block fs lo hi p (unat chunk) data (patch ?o ?t (replicate (blksz fs) 0))"
      using False assms(5,6) by (auto simp: new_block_def length_patch nth_patch)
    with step [of None "replicate (blksz fs) 0"] fread1_outside [OF assms(1) _ assms(4)] False
    show ?thesis by auto
  qed
next
  case False
  then have c: "unat chunk = blksz fs" "p mod blksz fs = 0" using assms(5) by simp_all
  have "\<not> chunk < ucast (confBlockSize (root (mnt fs)))"
    using False by (simp add: word_less_nat_alt blksz_def)
  then have "fwrite_block fb pos chunk data fs = fpush1 fb (of_nat (p div blksz fs)) data fs"
    by (simp add: fwrite_block_def Let_def block_index [OF assms(2)])
  moreover have "new_block fs lo hi p (unat chunk) data data"
    using c assms(6) by (auto simp: new_block_def)
  ultimately show ?thesis by blast
qed


lemma div_mod_in_block:
  fixes p i bs :: nat
  assumes "p mod bs + i < bs"
  shows "(p + i) div bs = p div bs" and "(p + i) mod bs = p mod bs + i"
proof -
  have e: "p + i = p div bs * bs + (p mod bs + i)" by simp
  have "bs * (p div bs) \<le> p" by simp
  then have "bs * (p div bs) \<le> p + i" by (rule trans_le_add1)
  moreover have "p + i < bs * Suc (p div bs)"
    using assms e unfolding mult_Suc_right mult.commute [of bs "p div bs"] by linarith
  ultimately show d: "(p + i) div bs = p div bs" by (rule div_nat_eqI)
  have "(p + i) div bs * bs + (p + i) mod bs = p + i" by (rule div_mult_mod_eq)
  with e show "(p + i) mod bs = p mod bs + i" unfolding d by linarith
qed

lemma fwrite_block_ok:
  assumes "file_ok fs fb lo hi" and "unat pos = p" and "blksz fs \<le> p"
    and "p div blksz fs \<le> nblk fs lo hi" and "p div blksz fs + 1 < 2 ^ 32"
    and "p div blksz fs < nblk fs lo hi \<or> 0 < room (mnt fs)"
    and "p mod blksz fs + unat chunk \<le> blksz fs" and "unat chunk \<le> length data"
  shows "\<exists>fs'. fwrite_block fb pos chunk data fs = Some fs' \<and> file_ok fs' fb lo hi
    \<and> root (mnt fs') = root (mnt fs)
    \<and> nblk fs' lo hi = max (nblk fs lo hi) (p div blksz fs + 1)
    \<and> room (mnt fs) = room (mnt fs') + (nblk fs' lo hi - nblk fs lo hi)
    \<and> (\<forall>i < unat chunk. byte_is fs' lo hi (p + i) (data ! i))
    \<and> (\<forall>q v. q < nblk fs lo hi * blksz fs \<longrightarrow> q < p \<or> p + unat chunk \<le> q \<longrightarrow>
         byte_is fs lo hi q v \<longrightarrow> byte_is fs' lo hi q v)"
proof -
  let ?bs = "blksz fs" and ?k = "p div blksz fs" and ?o = "p mod blksz fs" and ?c = "unat chunk"
  have bz: "0 < ?bs" by (rule blksz_pos [OF assms(1)])
  have k: "0 < ?k" using assms(3) bz by (simp add: div_greater_zero_iff)
  obtain b where nb: "new_block fs lo hi p ?c data b"
    and e: "fwrite_block fb pos chunk data fs = fpush1 fb (of_nat ?k) b fs"
    using fwrite_block_pushes [OF assms(1-3) _ assms(7,8)] assms(5) by auto
  have lb: "?bs \<le> length b" using nb by (simp add: new_block_def)
  obtain fs' where f: "fpush1 fb (of_nat ?k) b fs = Some fs'" "file_ok fs' fb lo hi"
    "root (mnt fs') = root (mnt fs)" "nblk fs' lo hi = max (nblk fs lo hi) (?k + 1)"
    "room (mnt fs) = room (mnt fs') + (nblk fs' lo hi - nblk fs lo hi)"
    "block_is fs' lo hi ?k (take ?bs b)"
    "\<And>j c. j < nblk fs lo hi \<Longrightarrow> j \<noteq> ?k \<Longrightarrow> block_is fs lo hi j c \<Longrightarrow> block_is fs' lo hi j c"
    using push_any [OF assms(1) k assms(4,5,6) lb] by auto
  have bs': "blksz fs' = ?bs" using f(3) by (simp add: blksz_def)
  have new: "byte_is fs' lo hi (p + i) (data ! i)" if "i < ?c" for i
  proof -
    have "?o + i < ?bs" using that assms(7) by simp
    from div_mod_in_block [OF this] this that nb f(6) lb show ?thesis
      by (auto simp: byte_is_def bs' new_block_def intro!: exI [of _ "take ?bs b"])
  qed
  have old: "byte_is fs' lo hi q v"
    if q: "q < nblk fs lo hi * ?bs" "q < p \<or> p + ?c \<le> q" "byte_is fs lo hi q v" for q v
  proof -
    obtain d where d: "block_is fs lo hi (q div ?bs) d" "length d = ?bs" "d ! (q mod ?bs) = v"
      using q(3) by (auto simp: byte_is_def)
    have qk: "q div ?bs < nblk fs lo hi" using q(1) bz by (simp add: div_less_iff_less_mult)
    show ?thesis
    proof (cases "q div ?bs = ?k")
      case True
      have "q mod ?bs < ?o \<or> ?o + ?c \<le> q mod ?bs"
        using q(2) True by (metis add_less_cancel_left div_mult_mod_eq add.assoc nat_add_left_cancel_le)
      then have "b ! (q mod ?bs) = v"
        using nb True d qk bz by (auto simp: new_block_def)
      then show ?thesis
        using True f(6) lb bz by (auto simp: byte_is_def bs' intro!: exI [of _ "take ?bs b"])
    next
      case False
      from f(7) [OF qk False d(1)] d show ?thesis by (auto simp: byte_is_def bs')
    qed
  qed
  show ?thesis using e f new old by auto
qed

lemma fwrite_loop_0: "fwrite_loop fb pos 0 data fs = Some (fs, pos)"
  by (subst fwrite_loop.simps) (simp add: Let_def)

lemma fwrite_loop_ok:
  assumes "file_ok fs fb lo hi" and "blksz fs \<le> unat pos" and "unat pos div blksz fs \<le> nblk fs lo hi"
    and "unat pos + unat left \<le> blksz fs * (2 ^ 32 - 1)" and "length data = unat left"
    and "(unat pos + unat left + blksz fs - 1) div blksz fs \<le> nblk fs lo hi + room (mnt fs)"
  shows "\<exists>fs'. fwrite_loop fb pos left data fs = Some (fs', pos + left) \<and> file_ok fs' fb lo hi
    \<and> root (mnt fs') = root (mnt fs) \<and> nblk fs lo hi \<le> nblk fs' lo hi
    \<and> (left \<noteq> 0 \<longrightarrow> unat pos + unat left \<le> nblk fs' lo hi * blksz fs)
    \<and> (\<forall>i < unat left. byte_is fs' lo hi (unat pos + i) (data ! i))
    \<and> (\<forall>q v. q < nblk fs lo hi * blksz fs \<longrightarrow> q < unat pos \<or> unat pos + unat left \<le> q \<longrightarrow>
         byte_is fs lo hi q v \<longrightarrow> byte_is fs' lo hi q v)"
  using assms
proof (induction fb pos left data fs rule: fwrite_loop.induct)
  case (1 fb pos left data fs)
  let ?bs = "blksz fs" and ?p = "unat pos" and ?L = "unat left"
  let ?blk = "ucast (confBlockSize (root (mnt fs))) :: u64"
  define chunk where "chunk = chunk_len ?blk pos left"
  let ?c = "unat chunk"
  have bz: "0 < ?bs" by (rule blksz_pos [OF "1.prems"(1)])
  have blk: "unat ?blk = ?bs" by (rule unat_conf)
  have blk0: "?blk \<noteq> 0" using bz blk by (metis less_numeral_extra(3) unat_0)
  show ?case
  proof (cases "left = 0")
    case True
    have "fwrite_loop fb pos left data fs = Some (fs, pos + left)"
      unfolding fwrite_loop.simps [of fb pos left] using True by simp
    with "1.prems"(1) True show ?thesis by auto
  next
    case False
    then have L: "0 < ?L" by (simp add: unat_gt_0)
    note c = chunk_len_bounds [OF False blk0, of pos, folded chunk_def, unfolded blk]
    have k: "?p div ?bs + 1 < 2 ^ 32"
    proof -
      have "?p < ?bs * (2 ^ 32 - 1)" using "1.prems"(4) L by linarith
      then have "?p div ?bs < 2 ^ 32 - 1" by (simp add: div_less_iff_less_mult bz mult.commute)
      then show ?thesis by simp
    qed
    have more: "?p div ?bs + 1 \<le> (?p + ?L + ?bs - 1) div ?bs"
    proof -
      have "?p div ?bs + 1 = (?p + ?bs) div ?bs" using bz by (subst div_add_self2) simp_all
      also have "\<dots> \<le> (?p + ?L + ?bs - 1) div ?bs" using L by (intro div_le_mono) simp
      finally show ?thesis .
    qed
    have fit: "?p div ?bs < nblk fs lo hi \<or> 0 < room (mnt fs)"
      using more "1.prems"(6) by linarith
    have cd: "?c \<le> length data" using c(2) "1.prems"(5) by simp
    obtain fs1 where f: "fwrite_block fb pos chunk data fs = Some fs1" "file_ok fs1 fb lo hi"
      "root (mnt fs1) = root (mnt fs)" "nblk fs1 lo hi = max (nblk fs lo hi) (?p div ?bs + 1)"
      "room (mnt fs) = room (mnt fs1) + (nblk fs1 lo hi - nblk fs lo hi)"
      "\<And>i. i < ?c \<Longrightarrow> byte_is fs1 lo hi (?p + i) (data ! i)"
      "\<And>q v. q < nblk fs lo hi * ?bs \<Longrightarrow> q < ?p \<or> ?p + ?c \<le> q \<Longrightarrow> byte_is fs lo hi q v \<Longrightarrow> byte_is fs1 lo hi q v"
      using fwrite_block_ok [OF "1.prems"(1) refl "1.prems"(2,3) k fit c(3) cd] by blast
    have bs1: "blksz fs1 = ?bs" using f(3) by (simp add: blksz_def)
    have big: "?bs * (2 ^ 32 - 1) < 2 ^ 64"
    proof -
      have "?bs < 2 ^ 32" unfolding blksz_def using unsigned_less [of "confBlockSize (root (mnt fs))", where 'a = nat] by simp
      then have "?bs * (2 ^ 32 - 1) \<le> 2 ^ 32 * (2 ^ 32 - 1)" by (intro mult_le_mono1) simp
      then show ?thesis by (rule le_less_trans) simp
    qed
    have u: "unat (pos + chunk) = ?p + ?c" "unat (left - chunk) = ?L - ?c"
    proof -
      have "?p + ?c < 2 ^ 64" using c(2) "1.prems"(4) big by linarith
      then show "unat (pos + chunk) = ?p + ?c" by (simp add: unat_add_small)
      show "unat (left - chunk) = ?L - ?c" using c(2) by (simp add: unat_sub_small)
    qed
    have "\<exists>fs'. fwrite_loop fb (pos + chunk) (left - chunk) (drop ?c data) fs1 = Some (fs', (pos + chunk) + (left - chunk))
      \<and> file_ok fs' fb lo hi \<and> root (mnt fs') = root (mnt fs1) \<and> nblk fs1 lo hi \<le> nblk fs' lo hi
      \<and> (left - chunk \<noteq> 0 \<longrightarrow> unat (pos + chunk) + unat (left - chunk) \<le> nblk fs' lo hi * blksz fs1)
      \<and> (\<forall>i < unat (left - chunk). byte_is fs' lo hi (unat (pos + chunk) + i) (drop ?c data ! i))
      \<and> (\<forall>q v. q < nblk fs1 lo hi * blksz fs1 \<longrightarrow> q < unat (pos + chunk) \<or> unat (pos + chunk) + unat (left - chunk) \<le> q \<longrightarrow>
         byte_is fs1 lo hi q v \<longrightarrow> byte_is fs' lo hi q v)"
    proof (rule "1.IH" [OF refl False blk0 chunk_def f(1) f(2)])
      show "blksz fs1 \<le> unat (pos + chunk)" using bs1 u "1.prems"(2) by simp
      have "(?p + ?c) div ?bs \<le> (?p div ?bs * ?bs + ?bs) div ?bs"
        using c(3) by (intro div_le_mono) (metis add.assoc add_le_cancel_left div_mult_mod_eq)
      also have "\<dots> = ?p div ?bs + 1" using bz by simp
      finally show "unat (pos + chunk) div blksz fs1 \<le> nblk fs1 lo hi" using bs1 u f(4) by simp
      show "unat (pos + chunk) + unat (left - chunk) \<le> blksz fs1 * (2 ^ 32 - 1)"
        using bs1 u c(2) "1.prems"(4) by simp
      show "length (drop ?c data) = unat (left - chunk)" using u "1.prems"(5) by simp
      show "(unat (pos + chunk) + unat (left - chunk) + blksz fs1 - 1) div blksz fs1
          \<le> nblk fs1 lo hi + room (mnt fs1)"
        using bs1 u c(2) "1.prems"(6) f(4,5) by simp
    qed
    then obtain fs' where g: "fwrite_loop fb (pos + chunk) (left - chunk) (drop ?c data) fs1 = Some (fs', pos + left)"
      "file_ok fs' fb lo hi" "root (mnt fs') = root (mnt fs1)" "nblk fs1 lo hi \<le> nblk fs' lo hi"
      "left - chunk \<noteq> 0 \<Longrightarrow> ?p + ?L \<le> nblk fs' lo hi * ?bs"
      "\<And>i. i < ?L - ?c \<Longrightarrow> byte_is fs' lo hi (?p + ?c + i) (drop ?c data ! i)"
      "\<And>q v. q < nblk fs1 lo hi * ?bs \<Longrightarrow> q < ?p + ?c \<or> ?p + ?L \<le> q \<Longrightarrow>
         byte_is fs1 lo hi q v \<Longrightarrow> byte_is fs' lo hi q v"
      using bs1 u c(2) by auto
    have end1: "?p + ?c \<le> nblk fs1 lo hi * ?bs"
    proof -
      have "?p + ?c \<le> (?p div ?bs + 1) * ?bs"
        using c(3) div_mult_mod_eq [of ?p ?bs] by (simp only: distrib_right)
      also have "\<dots> \<le> nblk fs1 lo hi * ?bs" using f(4) by (intro mult_le_mono1) simp
      finally show ?thesis .
    qed
    have end2: "?p + ?L \<le> nblk fs' lo hi * ?bs"
    proof (cases "left - chunk = 0")
      case True
      then have "?L = ?c" by simp
      with end1 mult_le_mono1 [OF g(4), of ?bs] show ?thesis by linarith
    qed (rule g(5))
    have new: "byte_is fs' lo hi (?p + i) (data ! i)" if "i < ?L" for i
    proof (cases "i < ?c")
      case True
      with f(6) g(7) [of "?p + i"] end1 show ?thesis by simp
    next
      case False
      with g(6) [of "i - ?c"] that "1.prems"(5) show ?thesis by simp
    qed
    have old: "byte_is fs' lo hi q v"
      if "q < nblk fs lo hi * ?bs" "q < ?p \<or> ?p + ?L \<le> q" "byte_is fs lo hi q v" for q v
    proof (rule g(7))
      show "q < nblk fs1 lo hi * ?bs"
      proof (rule less_le_trans [OF that(1)])
        show "nblk fs lo hi * ?bs \<le> nblk fs1 lo hi * ?bs" using f(4) by (intro mult_le_mono1) simp
      qed
      show "q < ?p + ?c \<or> ?p + ?L \<le> q" using that(2) by auto
      show "byte_is fs1 lo hi q v" using that c(2) by (intro f(7)) auto
    qed
    have "fwrite_loop fb pos left data fs = Some (fs', pos + left)"
      using False blk0 f(1) g(1) by (simp add: fwrite_loop.simps [of fb pos left] Let_def chunk_def)
    with g f(3,4) end2 new old show ?thesis by auto
  qed
qed


lemma byte_is_unique:
  "file_ok fs fb lo hi \<Longrightarrow> byte_is fs lo hi q v \<Longrightarrow> byte_is fs lo hi q w \<Longrightarrow> v = w"
  unfolding byte_is_def using block_is_unique by blast

lemma fread_loop_ok:
  assumes "file_ok fs fb lo hi" and "blksz fs \<le> unat pos"
    and "unat pos + unat left \<le> nblk fs lo hi * blksz fs"
  shows "\<exists>d. fread_loop fb pos left out fs = Some (out @ d, pos + left, 0) \<and> length d = unat left
    \<and> (\<forall>i < unat left. byte_is fs lo hi (unat pos + i) (d ! i))"
  using assms
proof (induction fb pos left out fs rule: fread_loop.induct)
  case (1 fb pos left out fs)
  let ?bs = "blksz fs" and ?p = "unat pos" and ?L = "unat left"
  let ?blk = "ucast (confBlockSize (root (mnt fs))) :: u64"
  define chunk where "chunk = chunk_len ?blk pos left"
  let ?c = "unat chunk" and ?k = "unat pos div blksz fs" and ?o = "unat pos mod blksz fs"
  have bz: "0 < ?bs" by (rule blksz_pos [OF "1.prems"(1)])
  have blk: "unat ?blk = ?bs" by (rule unat_conf)
  have blk0: "?blk \<noteq> 0" using bz blk by (metis less_numeral_extra(3) unat_0)
  show ?case
  proof (cases "left = 0")
    case True
    have "fread_loop fb pos left out fs = Some (out, pos + left, 0)"
      unfolding fread_loop.simps [of fb pos left] using True by simp
    with True show ?thesis by auto
  next
    case False
    then have L: "0 < ?L" by (simp add: unat_gt_0)
    note c = chunk_len_bounds [OF False blk0, of pos, folded chunk_def, unfolded blk]
    have k: "0 < ?k" "?k < nblk fs lo hi"
      using "1.prems"(2,3) L bz by (simp_all add: div_greater_zero_iff div_less_iff_less_mult)
    obtain b where b: "fread1 fs fb (of_nat ?k) = Some (Some b, of_nat ?k)"
      "block_is fs lo hi ?k (take ?bs b)"
      using fread1_inside [OF "1.prems"(1) k] by blast
    have lb: "?bs \<le> length b" using block_is_length [OF "1.prems"(1) b(2)] by simp
    have big: "nblk fs lo hi * ?bs < 2 ^ 64" by (rule nblk_blksz_less [OF "1.prems"(1)])
    have u: "unat (pos + chunk) = ?p + ?c" "unat (left - chunk) = ?L - ?c"
    proof -
      have "?p + ?c < 2 ^ 64" using c(2) "1.prems"(3) big by linarith
      then show "unat (pos + chunk) = ?p + ?c" by (simp add: unat_add_small)
      show "unat (left - chunk) = ?L - ?c" using c(2) by (simp add: unat_sub_small)
    qed
    let ?d = "take ?c (drop ?o b)"
    have ix: "pos div ?blk = of_nat ?k" by (rule block_index [OF refl])
    have ox: "unat (pos mod ?blk) = ?o" by (simp add: unat_mod_distrib blksz_def)
    have "\<exists>d. fread_loop fb (pos + chunk) (left - chunk) (out @ ?d) fs
        = Some ((out @ ?d) @ d, (pos + chunk) + (left - chunk), 0)
      \<and> length d = unat (left - chunk)
      \<and> (\<forall>i < unat (left - chunk). byte_is fs lo hi (unat (pos + chunk) + i) (d ! i))"
      using "1.IH" [OF refl False blk0 refl refl chunk_def, of "(Some b, of_nat ?k)" "Some b" "of_nat ?k" b]
        b(1) "1.prems" u c(2) ix ox by simp
    then obtain d where d: "fread_loop fb (pos + chunk) (left - chunk) (out @ ?d) fs
        = Some (out @ ?d @ d, pos + left, 0)" "length d = ?L - ?c"
      "\<And>i. i < ?L - ?c \<Longrightarrow> byte_is fs lo hi (?p + ?c + i) (d ! i)"
      using u by auto
    have ld: "length ?d = ?c" using lb c(3) by simp
    have f: "fread_loop fb pos left out fs = Some (out @ ?d @ d, pos + left, 0)"
      using d(1) b(1) False blk0 ix ox
      by (simp add: fread_loop.simps [of fb pos left] Let_def chunk_def [symmetric])
    have "byte_is fs lo hi (?p + i) ((?d @ d) ! i)" if i: "i < ?L" for i
    proof (cases "i < ?c")
      case True
      then have "?o + i < ?bs" using c(3) by simp
      from div_mod_in_block [OF this] this True b(2) lb ld show ?thesis
        by (auto simp: byte_is_def nth_append intro!: exI [of _ "take ?bs b"])
    next
      case False
      with d(3) [of "i - ?c"] i ld show ?thesis by (simp add: nth_append)
    qed
    with f ld d(2) c(2) show ?thesis by (intro exI [of _ "?d @ d"]) auto
  qed
qed


section \<open>Time stamps touch the metadata block only\<close>

lemma length_stamp: "72 \<le> length b \<Longrightarrow> length (stamp now wt b) = length b"
  by (simp add: stamp_def Let_def length_patch)

lemma rounded_512: "wf_env re \<Longrightarrow> rounded re 512 = bsize re"
proof (rule rounded_one)
  assume "wf_env re"
  then have "1 \<le> unat (CalcBlock re)" by (simp add: wf_env_def word_less_nat_alt Suc_leI)
  then show "512 \<le> bsize re" by (simp add: bsize_def)
qed simp_all

text \<open>Only the four stamps, bytes 40 to 71, change.\<close>

lemma stamp_nth:
  assumes "72 \<le> length b" and "i < length b" and "i < 40 \<or> 72 \<le> i"
  shows "stamp now wt b ! i = b ! i"
proof -
  have len: "length (patch off (le_bytes 8 v) c) = length c" if "off + 8 \<le> length c" for off v c
    using that by (simp add: patch_def)
  show ?thesis using assms by (auto simp: stamp_def Let_def nth_patch len)
qed

text \<open>What a time stamp changes on the image.\<close>

lemma fupdatetstamp_bytes:
  assumes "file_ok fs fb lo hi" and "fupdatetstamp now fb wt fs = Some fs'"
  shows "\<exists>info info'. freadinfo fs fb = Some info \<and> freadinfo fs' fb = Some info'
    \<and> (\<forall>i < 512. i < 40 \<or> 72 \<le> i \<longrightarrow> info' ! i = info ! i)
    \<and> length (disk fs') = length (disk fs)
    \<and> (\<forall>p < length (disk fs). p < boff (disk_env (mnt fs)) (getloc (mnt fs) fb)
          \<or> boff (disk_env (mnt fs)) (getloc (mnt fs) fb) + bsize (disk_env (mnt fs)) \<le> p \<longrightarrow> disk fs' ! p = disk fs ! p)"
proof -
  let ?r = "mnt fs" and ?re = "disk_env (mnt fs)"
  have fb: "fb \<in> fam ?r lo hi" and wf: "wf_root ?r" using assms by (simp_all add: file_ok_def)
  have ok: "block_ok ?re (getloc ?r fb)" using getloc_block_ok [OF wf] fam_less [OF fb] by blast
  have env: "wf_env ?re" "raw_fits ?re (getloc ?r fb)" using ok by (simp_all add: block_ok_def)
  have sz: "unat sizeof_meta_fsblock = 512" by (simp add: sizeof_meta_fsblock_def)
  obtain b where "data_is fs fb b" using assms(1) fb by (auto simp: file_ok_def)
  then obtain c where c: "file_read (disk fs) (boff ?re (getloc ?r fb)) (bsize ?re) = Some c"
    by (auto simp: data_is_def read_data_block_def block_ok_unfold [OF ok] split: option.splits)
  then have i: "freadinfo fs fb = Some c"
    using readblocks_eq [OF env, of sizeof_meta_fsblock "disk fs"] sz rounded_512 [OF env(1)]
    by (simp add: freadinfo_def)
  have lc: "length c = bsize ?re" and inside: "boff ?re (getloc ?r fb) + bsize ?re \<le> length (disk fs)"
    using c rounded_512 [OF env(1)] rounded_ge [OF env(1), of 512] by (auto simp: file_read_def split: if_splits)
  have B: "512 \<le> bsize ?re" using rounded_512 [OF env(1)] rounded_ge [OF env(1), of 512] by simp
  define w where "w = take 512 (stamp now wt c) @ replicate (bsize ?re - 512) 0"
  have lw: "length w = bsize ?re" using lc B by (simp add: w_def length_stamp)
  have fs': "fs' = fs\<lparr>disk := file_write (disk fs) (boff ?re (getloc ?r fb)) w\<rparr>"
    using assms(2) i writeblocks_eq [OF env, of sizeof_meta_fsblock] sz rounded_512 [OF env(1)]
    by (simp add: fupdatetstamp_def w_def)
  have "freadinfo fs' fb = Some w"
    using readblocks_eq [OF env, of sizeof_meta_fsblock "disk fs'"] sz rounded_512 [OF env(1)]
      file_read_write_same [of "disk fs" "boff ?re (getloc ?r fb)" w] lw
    by (simp add: freadinfo_def fs')
  moreover have "w ! i = c ! i" if "i < 512" "i < 40 \<or> 72 \<le> i" for i
    using that lc B stamp_nth [of c i now wt] by (simp add: w_def nth_append length_stamp)
  moreover have "length (disk fs') = length (disk fs)" using inside lw by (simp add: fs' length_file_write)
  moreover from this have "disk fs' ! p = disk fs ! p"
    if "p < length (disk fs)" "p < boff ?re (getloc ?r fb) \<or> boff ?re (getloc ?r fb) + bsize ?re \<le> p" for p
    using that lw by (simp add: fs') (auto simp: file_write_nth)
  ultimately show ?thesis using i by blast
qed

lemma fupdatetstamp_ok:
  assumes "file_ok fs fb lo hi"
  shows "\<exists>fs'. fupdatetstamp now fb wt fs = Some fs' \<and> file_ok fs' fb lo hi \<and> mnt fs' = mnt fs
    \<and> (\<forall>q v. blksz fs \<le> q \<longrightarrow> byte_is fs lo hi q v \<longrightarrow> byte_is fs' lo hi q v)"
proof -
  let ?r = "mnt fs" and ?re = "disk_env (mnt fs)"
  have fb: "fb \<in> fam ?r lo hi" "index (fb_of fs fb) = 0" and wf: "wf_root ?r"
    using assms by (simp_all add: file_ok_def)
  have bok: "block_ok ?re (getloc ?r cc)" if "cc \<in> fam ?r lo hi" for cc
    using getloc_block_ok [OF wf] fam_less [OF that] by blast
  note ok = bok [OF fb(1)]
  have env: "wf_env ?re" "raw_fits ?re (getloc ?r fb)" using ok by (simp_all add: block_ok_def)
  have sz: "unat sizeof_meta_fsblock = 512" by (simp add: sizeof_meta_fsblock_def)
  obtain b where "data_is fs fb b" using assms fb(1) by (auto simp: file_ok_def)
  then obtain c where c: "file_read (disk fs) (boff ?re (getloc ?r fb)) (bsize ?re) = Some c"
    by (auto simp: data_is_def read_data_block_def block_ok_unfold [OF ok] split: option.splits)
  then have i: "freadinfo fs fb = Some c"
    using readblocks_eq [OF env, of sizeof_meta_fsblock "disk fs"] sz rounded_512 [OF env(1)]
    by (simp add: freadinfo_def)
  have lc: "length c = bsize ?re" using c by (simp add: file_read_nth)
  have B: "512 \<le> bsize ?re" using rounded_512 [OF env(1)] rounded_ge [OF env(1), of 512] by simp
  define w where "w = take 512 (stamp now wt c) @ replicate (bsize ?re - 512) 0"
  have lw: "length w = bsize ?re" using lc B by (simp add: w_def length_stamp)
  define fs' where "fs' = fs\<lparr>disk := file_write (disk fs) (boff ?re (getloc ?r fb)) w\<rparr>"
  have up: "fupdatetstamp now fb wt fs = Some fs'"
    using i writeblocks_eq [OF env, of sizeof_meta_fsblock] sz rounded_512 [OF env(1)]
    by (simp add: fupdatetstamp_def fs'_def w_def)
  have m: "mnt fs' = mnt fs" by (simp add: fs'_def)
  have other: "data_is fs' cc d" if cc: "cc \<in> fam ?r lo hi" "cc \<noteq> fb" "data_is fs cc d" for cc d
  proof -
    have "getloc ?r cc \<noteq> getloc ?r fb"
      using getloc_inject [OF wf fam_less [OF cc(1)] fam_less [OF fb(1)]] cc(2) by simp
    then have "boff ?re (getloc ?r fb) + bsize ?re \<le> boff ?re (getloc ?r cc)
        \<or> boff ?re (getloc ?r cc) + bsize ?re \<le> boff ?re (getloc ?r fb)"
      using boff_apart [OF env(2), of "getloc ?r cc"] bok [OF cc(1)] by (auto simp: block_ok_def)
    then show ?thesis
      using cc(3) file_read_write_other [of "boff ?re (getloc ?r fb)" w "boff ?re (getloc ?r cc)" "bsize ?re" "disk fs"] lw
      by (auto simp: data_is_def read_data_block_def block_ok_unfold [OF bok [OF cc(1)]] fs'_def
          split: option.splits)
  qed
  have self: "\<exists>d. data_is fs' fb d"
    using file_read_write_same [of "disk fs" "boff ?re (getloc ?r fb)" w] lw
    by (simp add: data_is_def read_data_block_def block_ok_unfold [OF ok] fs'_def)
  have "\<exists>d. data_is fs' cc d" if "cc \<in> fam ?r lo hi" for cc
    using that other self assms unfolding file_ok_def by (cases "cc = fb") blast+
  then have "file_ok fs' fb lo hi" using assms m by (simp add: file_ok_def fb_of_def)
  moreover have "byte_is fs' lo hi q v" if "blksz fs \<le> q" "byte_is fs lo hi q v" for q v
  proof -
    have "q div blksz fs \<noteq> 0" using that(1) blksz_pos [OF assms] by (simp add: div_eq_0_iff)
    with that(2) other fb(2) show ?thesis
      unfolding byte_is_def block_is_def m blksz_def fb_of_def by (metis unat_0)
  qed
  ultimately show ?thesis using up m by blast
qed

section \<open>Size\<close>

lemma fsize_loop_ok:
  assumes "file_ok fs fb lo hi" and "k \<le> nblk fs lo hi"
  shows "fsize_loop (mnt fs) (lo, ucast hi) sz (of_nat k)
    = Some (sz + of_nat ((nblk fs lo hi - max 1 k) * blksz fs))"
  using assms(2)
proof (induction "nblk fs lo hi - k" arbitrary: k sz)
  case 0
  have k: "k < 2 ^ 32" using nblk_less [OF assms(1)] 0 by simp
  have uk: "(ucast (of_nat k :: u32) :: u64) = of_nat k"
    using k by (simp add: word_unat_eq_iff unat_of_nat)
  have "ffindhi (mnt fs) (lo, ucast hi) (of_nat k) = None"
    using ffindhi_contiguous [of "mnt fs" lo hi k] assms(1) 0 k by (simp add: file_ok_def nblk_def)
  moreover have "nblk fs lo hi - max 1 k = 0" using 0 nblk_pos [OF assms(1)] by simp
  ultimately show ?case by (subst fsize_loop.simps) (simp add: uk)
next
  case (Suc n)
  have k: "k < 2 ^ 32" "k < nblk fs lo hi" using nblk_less [OF assms(1)] Suc(2,3) by simp_all
  have uk: "(ucast (of_nat k :: u32) :: u64) = of_nat k"
    using k by (simp add: word_unat_eq_iff unat_of_nat)
  obtain cc b where cc: "ffindhi (mnt fs) (lo, ucast hi) (of_nat k) = Some cc"
    "cc \<in> fam (mnt fs) lo hi" "unat (index (fb_of fs cc)) = k" "data_is fs cc b"
    using find_block [OF assms(1) k(2)] by blast
  have "cc = fb \<longleftrightarrow> k = 0"
  proof
    assume "k = 0"
    then show "cc = fb"
      using assms(1) cc(2,3) contiguous_unique [of "mnt fs" lo hi cc fb]
      by (simp add: file_ok_def fb_of_def word_unat_eq_iff)
  qed (use assms(1) cc(3) in \<open>auto simp: file_ok_def\<close>)
  then have m: "flag_check (attributes (clusterMap (mnt fs) ! cc)) fsmetadatacluster \<longleftrightarrow> k = 0"
    using assms(1) cc(2) by (simp add: file_ok_def fb_of_def)
  have IH: "fsize_loop (mnt fs) (lo, ucast hi) s (of_nat (Suc k))
      = Some (s + of_nat ((nblk fs lo hi - max 1 (Suc k)) * blksz fs))" for s
    using Suc(1) [of "Suc k" s] Suc(2,3) by simp
  have conf: "(ucast (confBlockSize (root (mnt fs))) :: u64) = of_nat (blksz fs)"
    by (simp add: word_unat_eq_iff blksz_def unat_of_nat)
  have step: "fsize_loop (mnt fs) (lo, ucast hi) sz (of_nat k)
      = fsize_loop (mnt fs) (lo, ucast hi) (if k = 0 then sz else sz + of_nat (blksz fs)) (of_nat (Suc k))"
    by (subst fsize_loop.simps) (simp add: uk cc(1) m conf add.commute)
  show ?case
  proof (cases "k = 0")
    case False
    then have "(nblk fs lo hi - max 1 k) * blksz fs = blksz fs + (nblk fs lo hi - max 1 (Suc k)) * blksz fs"
      using k(2) by (simp add: max_def Suc_diff_Suc [symmetric])
    with False show ?thesis unfolding step IH by (simp add: add.assoc del: of_nat_mult)
  qed (use step IH [of sz] in simp)
qed

lemma fsize_ok:
  assumes "file_ok fs (fh_file h) lo hi"
  shows "fsize fs h = Some (of_nat ((nblk fs lo hi - 1) * blksz fs))"
proof -
  have "fh_file h \<in> fam (mnt fs) lo hi" using assms by (simp add: file_ok_def)
  then show ?thesis
    using fsize_loop_ok [OF assms, of 0 0] nblk_pos [OF assms]
    by (simp add: fsize_def fb_of_def file_ok_code [OF assms])
qed


section \<open>Writing and reading\<close>

text \<open>The position is behind the metadata block and at most at the end of the file, the block
  numbers fit in 32 bits, and the allocator can supply the blocks that are missing.\<close>

definition write_fits :: "fsys \<Rightarrow> fhandle \<Rightarrow> u64 \<Rightarrow> u48 \<Rightarrow> nat \<Rightarrow> bool" where
  "write_fits fs h lo hi n =
    (blksz fs \<le> unat (progress h) \<and> unat (progress h) div blksz fs \<le> nblk fs lo hi
     \<and> unat (progress h) + n \<le> blksz fs * (2 ^ 32 - 1)
     \<and> (unat (progress h) + n + blksz fs - 1) div blksz fs \<le> nblk fs lo hi + room (mnt fs))"

lemma find_meta:
  assumes "file_ok fs fb lo hi"
  shows "ffindh (mnt fs) (code_of (fb_of fs fb)) = Some fb"
proof -
  have fb: "fb \<in> fam (mnt fs) lo hi" "index (fb_of fs fb) = 0" using assms by (simp_all add: file_ok_def)
  obtain cc b where cc: "ffindhi (mnt fs) (lo, ucast hi) (of_nat 0) = Some cc"
    "cc \<in> fam (mnt fs) lo hi" "unat (index (fb_of fs cc)) = 0"
    using find_block [OF assms nblk_pos [OF assms]] by blast
  have "cc = fb"
    using assms fb cc contiguous_unique [of "mnt fs" lo hi cc fb]
    by (simp add: file_ok_def fb_of_def word_unat_eq_iff)
  with cc(1) show ?thesis
    using file_ok_code [OF assms fb(1)] by (simp add: ffindh_def fb_of_def)
qed

lemma fwrite_ok:
  assumes "file_ok fs (fh_file h) lo hi" and "\<not> flag_check (attributes (fb_of fs (fh_file h))) fsreadonly"
    and "length data = unat nbytes" and "nbytes \<noteq> 0" and "write_fits fs h lo hi (unat nbytes)"
  shows "\<exists>fs'. fwrite now h nbytes data fs = Some (nbytes, h\<lparr>progress := progress h + nbytes\<rparr>, fs')
    \<and> file_ok fs' (fh_file h) lo hi \<and> root (mnt fs') = root (mnt fs)
    \<and> unat (progress h) + unat nbytes \<le> nblk fs' lo hi * blksz fs
    \<and> (\<forall>i < unat nbytes. byte_is fs' lo hi (unat (progress h) + i) (data ! i))
    \<and> (\<forall>q v. blksz fs \<le> q \<longrightarrow> q < nblk fs lo hi * blksz fs \<longrightarrow>
         q < unat (progress h) \<or> unat (progress h) + unat nbytes \<le> q \<longrightarrow>
         byte_is fs lo hi q v \<longrightarrow> byte_is fs' lo hi q v)"
proof -
  obtain fs1 where s: "fupdatetstamp now (fh_file h) True fs = Some fs1" "file_ok fs1 (fh_file h) lo hi"
    "mnt fs1 = mnt fs" "\<And>q v. blksz fs \<le> q \<Longrightarrow> byte_is fs lo hi q v \<Longrightarrow> byte_is fs1 lo hi q v"
    using fupdatetstamp_ok [OF assms(1)] by blast
  have same: "blksz fs1 = blksz fs" "nblk fs1 lo hi = nblk fs lo hi" "fb_of fs1 = fb_of fs"
    using s(3) by (simp_all add: blksz_def nblk_def fb_of_def fun_eq_iff)
  have pre: "blksz fs1 \<le> unat (progress h)" "unat (progress h) div blksz fs1 \<le> nblk fs1 lo hi"
    "unat (progress h) + unat nbytes \<le> blksz fs1 * (2 ^ 32 - 1)"
    "(unat (progress h) + unat nbytes + blksz fs1 - 1) div blksz fs1 \<le> nblk fs1 lo hi + room (mnt fs1)"
    using assms(5) unfolding write_fits_def same s(3) by blast+
  obtain fs2 where w: "fwrite_loop (fh_file h) (progress h) nbytes data fs1 = Some (fs2, progress h + nbytes)"
    "file_ok fs2 (fh_file h) lo hi" "root (mnt fs2) = root (mnt fs1)"
    "unat (progress h) + unat nbytes \<le> nblk fs2 lo hi * blksz fs1"
    "\<And>i. i < unat nbytes \<Longrightarrow> byte_is fs2 lo hi (unat (progress h) + i) (data ! i)"
    "\<And>q v. q < nblk fs1 lo hi * blksz fs1 \<Longrightarrow>
       q < unat (progress h) \<or> unat (progress h) + unat nbytes \<le> q \<Longrightarrow>
       byte_is fs1 lo hi q v \<Longrightarrow> byte_is fs2 lo hi q v"
    using fwrite_loop_ok [OF s(2) pre(1-3) assms(3) pre(4)] assms(4) by blast
  have "fwrite now h nbytes data fs = Some (nbytes, h\<lparr>progress := progress h + nbytes\<rparr>, fs2)"
    using assms(2,4) s(1) find_meta [OF s(2)] w(1) same by (simp add: fwrite_def)
  with w s same show ?thesis by auto
qed

lemma fread_ok:
  assumes "file_ok fs (fh_file h) lo hi" and "blksz fs \<le> unat (progress h)"
    and "unat (progress h) + unat nbytes \<le> nblk fs lo hi * blksz fs"
  shows "\<exists>d fs'. fread now h nbytes fs = Some (nbytes, Some d, h\<lparr>progress := progress h + nbytes\<rparr>, fs')
    \<and> length d = unat nbytes \<and> (\<forall>i < unat nbytes. byte_is fs lo hi (unat (progress h) + i) (d ! i))"
proof -
  let ?bs = "blksz fs" and ?n = "nblk fs lo hi"
  have big: "?n * ?bs < 2 ^ 64" by (rule nblk_blksz_less [OF assms(1)])
  have "(?n - 1) * ?bs = ?n * ?bs - ?bs" by (simp add: diff_mult_distrib)
  then have sz: "unat (of_nat ((?n - 1) * ?bs) :: u64) = ?n * ?bs - ?bs"
    using big by (simp only: unat_of_nat) simp
  have "unat (progress h - ucast (confBlockSize (root (mnt fs)))) = unat (progress h) - ?bs"
    using assms(2) by (subst unat_sub_small) (simp_all add: blksz_def)
  then have "unat (progress h - ucast (confBlockSize (root (mnt fs))) + nbytes)
      = unat (progress h) - ?bs + unat nbytes"
    using assms(2,3) big by (subst unat_add_small) simp_all
  then have guard: "\<not> progress h - ucast (confBlockSize (root (mnt fs))) + nbytes > of_nat ((?n - 1) * ?bs)"
    using assms(2,3) sz unfolding word_less_nat_alt by linarith
  obtain fs1 where s: "fupdatetstamp now (fh_file h) False fs = Some fs1" "file_ok fs1 (fh_file h) lo hi"
    "mnt fs1 = mnt fs" "\<And>q v. blksz fs \<le> q \<Longrightarrow> byte_is fs lo hi q v \<Longrightarrow> byte_is fs1 lo hi q v"
    using fupdatetstamp_ok [OF assms(1)] by blast
  have same: "blksz fs1 = ?bs" "nblk fs1 lo hi = ?n" using s(3) by (simp_all add: blksz_def nblk_def)
  obtain d where d: "fread_loop (fh_file h) (progress h) nbytes [] fs1 = Some (d, progress h + nbytes, 0)"
    "length d = unat nbytes" "\<And>i. i < unat nbytes \<Longrightarrow> byte_is fs1 lo hi (unat (progress h) + i) (d ! i)"
    using fread_loop_ok [OF s(2), of "progress h" nbytes "[]"] assms(2,3) same by auto
  have old: "byte_is fs lo hi (unat (progress h) + i) (d ! i)" if i: "i < unat nbytes" for i
  proof -
    let ?q = "unat (progress h) + i"
    have "?q div ?bs < ?n" using i assms(3) blksz_pos [OF assms(1)] by (simp add: div_less_iff_less_mult)
    from find_block [OF assms(1) this] obtain b where "block_is fs lo hi (?q div ?bs) b"
      unfolding block_is_def by blast
    then have "byte_is fs lo hi ?q (b ! (?q mod ?bs))"
      using block_is_length [OF assms(1)] by (auto simp: byte_is_def)
    moreover have "byte_is fs1 lo hi ?q (b ! (?q mod ?bs))"
      using s(4) [OF _ calculation] assms(2) by simp
    then have "b ! (?q mod ?bs) = d ! i"
      using byte_is_unique [OF s(2)] d(3) [OF i] by blast
    ultimately show ?thesis by simp
  qed
  have "fread now h nbytes fs = Some (nbytes, Some d, h\<lparr>progress := progress h + nbytes\<rparr>, fs1)"
    using fsize_ok [OF assms(1)] guard s(1) d by (simp add: fread_def)
  with d(2) old show ?thesis by blast
qed

lemma int_unat_minus:
  fixes d :: u64
  assumes "sint d < 0"
  shows "int (unat (- d)) = - sint d"
proof -
  have "- d = word_of_int (- sint d)" by (simp only: of_int_minus of_int_sint scast_id)
  then have "uint (- d) = uint (word_of_int (- sint d) :: u64)" by (rule arg_cong)
  also have "\<dots> = (- sint d) mod 2 ^ 64" by (simp only: uint_word_of_int) simp
  finally have "uint (- d) = (- sint d) mod 2 ^ 64" .
  moreover have "- (2 ^ 63) \<le> sint d" using sint_greater_eq [of d] by simp
  ultimately show ?thesis using assms by simp
qed

lemma int_unat_nonneg:
  fixes d :: u64
  assumes "\<not> sint d < 0"
  shows "int (unat d) = sint d"
proof -
  have "uint d = uint (word_of_int (sint d) :: u64)" by simp
  also have "\<dots> = sint d mod 2 ^ 64" by (simp only: uint_word_of_int) simp
  also have "\<dots> = sint d" using assms sint_less [of d] by simp
  finally show ?thesis by simp
qed

section \<open>Seeking\<close>

lemma unat_minus_1: "unat (- 1 :: u64) = 2 ^ 64 - 1"
  by (simp add: unsigned_minus_1_eq_mask mask_eq_exp_minus_1)

lemma unat_minus_1_sub: "unat (- 1 - x :: u64) = 2 ^ 64 - 1 - unat x"
  by (subst unat_sub_small) (use unat_u64_less [of x] in \<open>simp_all add: unat_minus_1\<close>)

lemma int_le_top: "n \<le> 2 ^ 64 - 1 \<Longrightarrow> int n \<le> 2 ^ 64 - 1"
  by simp

lemma blksz_top: "blksz fs \<le> 2 ^ 64 - 1"
  using unat_u64_less [of "ucast (confBlockSize (root (mnt fs)))"] unat_conf [of fs] by simp

lemma fseek_saturates: "unat (progress (fseek fs p h)) = min (2 ^ 64 - 1) (blksz fs + unat p)"
proof (cases "p > - 1 - ucast (confBlockSize (root (mnt fs)))")
  case True
  then have "2 ^ 64 - 1 - blksz fs < unat p" by (simp only: word_less_nat_alt unat_minus_1_sub unat_conf)
  with True show ?thesis by (simp add: fseek_def Let_def unat_minus_1)
next
  case False
  then have "unat p \<le> 2 ^ 64 - 1 - blksz fs"
    by (simp only: word_less_nat_alt unat_minus_1_sub unat_conf not_less)
  then have le: "blksz fs + unat p \<le> 2 ^ 64 - 1" using blksz_top [of fs] by linarith
  then have "unat (ucast (confBlockSize (root (mnt fs))) + p) = blksz fs + unat p"
    by (subst unat_add_small) (simp_all only: unat_conf, simp)
  with False le show ?thesis by (simp add: fseek_def Let_def)
qed

lemma fseeko_backward:
  assumes "blksz fs \<le> unat (progress h)" and "sint d < 0"
  shows "int (unat (progress (fseeko fs d h))) = max (int (blksz fs)) (int (unat (progress h)) + sint d)"
proof -
  let ?m = "ucast (confBlockSize (root (mnt fs))) :: u64"
  have e: "- (d + 1) + 1 = - d" by simp
  note dist = int_unat_minus [OF assms(2)]
  have pm: "unat (progress h - ?m) = unat (progress h) - blksz fs"
    using assms(1) by (subst unat_sub_small) (simp_all only: unat_conf)
  show ?thesis
  proof (cases "progress h \<le> ?m \<or> - d \<ge> progress h - ?m")
    case True
    have "int (unat (progress h)) + sint d \<le> int (blksz fs)"
    proof (cases "progress h \<le> ?m")
      case True
      then have "unat (progress h) \<le> blksz fs" by (simp only: word_le_nat_alt unat_conf)
      with assms(2) show ?thesis by linarith
    next
      case False
      with True have "unat (progress h) - blksz fs \<le> unat (- d)" by (simp only: word_le_nat_alt pm) simp
      with dist assms(1) show ?thesis by linarith
    qed
    moreover have "progress (fseeko fs d h) = ?m" using True assms(2) by (simp add: fseeko_def Let_def e)
    ultimately show ?thesis by (simp only: unat_conf max_def) simp
  next
    case False
    then have lt: "unat (- d) < unat (progress h) - blksz fs" unfolding word_le_nat_alt pm by simp
    then have "unat (progress h - (- d)) = unat (progress h) - unat (- d)"
      by (subst unat_sub_small) simp_all
    then have "unat (progress (fseeko fs d h)) = unat (progress h) - unat (- d)"
      using False assms(2) by (simp add: fseeko_def Let_def e)
    then show ?thesis using lt dist by linarith
  qed
qed

lemma fseeko_forward:
  assumes "\<not> sint d < 0"
  shows "int (unat (progress (fseeko fs d h))) = min (2 ^ 64 - 1) (int (unat (progress h)) + sint d)"
proof -
  note dd = int_unat_nonneg [OF assms]
  show ?thesis
  proof (cases "d > - 1 - progress h")
    case True
    then have "2 ^ 64 - 1 - unat (progress h) < unat d" by (simp only: word_less_nat_alt unat_minus_1_sub)
    then have "2 ^ 64 - 1 < unat (progress h) + unat d" using unat_u64_less [of "progress h"] by linarith
    then have "int (2 ^ 64 - 1) < int (unat (progress h) + unat d)" by (simp only: of_nat_less_iff)
    then have "2 ^ 64 - 1 \<le> int (unat (progress h)) + sint d" using dd by simp
    moreover have "unat (progress (fseeko fs d h)) = 2 ^ 64 - 1"
      using True assms unat_minus_1 by (simp add: fseeko_def)
    ultimately show ?thesis by simp
  next
    case False
    then have "unat d \<le> 2 ^ 64 - 1 - unat (progress h)"
      by (simp only: word_less_nat_alt unat_minus_1_sub not_less)
    then have le: "unat (progress h) + unat d \<le> 2 ^ 64 - 1" using unat_u64_less [of "progress h"] by linarith
    then have "unat (progress h + d) = unat (progress h) + unat d" by (simp add: unat_add_small)
    moreover have "progress (fseeko fs d h) = progress h + d" using assms False by (simp add: fseeko_def)
    ultimately have v: "int (unat (progress (fseeko fs d h))) = int (unat (progress h)) + sint d"
      using dd by (simp only: of_nat_add)
    have "int (unat (progress h) + unat d) \<le> 2 ^ 64 - 1" using le by (rule int_le_top)
    then show ?thesis unfolding v using dd by simp
  qed
qed

section \<open>Properties\<close>

text \<open>C6: data written to a file at a position inside it or at its end is what a read at the same
  position returns, the position advances by the number of bytes, and every other byte of the
  file's contents keeps its value; this covers writes that start and end inside blocks, that
  overwrite, and that extend the file over several blocks.\<close>

theorem fwrite_fread_round_trip:
  assumes "file_ok fs (fh_file h) lo hi" and "\<not> flag_check (attributes (fb_of fs (fh_file h))) fsreadonly"
    and "length data = unat nbytes" and "nbytes \<noteq> 0" and "write_fits fs h lo hi (unat nbytes)"
  shows "\<exists>fs' h'. fwrite now h nbytes data fs = Some (nbytes, h', fs')
    \<and> progress h' = progress h + nbytes \<and> file_ok fs' (fh_file h) lo hi
    \<and> (\<exists>h'' fs''. fread now' h nbytes fs' = Some (nbytes, Some data, h'', fs''))
    \<and> (\<forall>q v. blksz fs \<le> q \<longrightarrow> q < nblk fs lo hi * blksz fs \<longrightarrow>
         q < unat (progress h) \<or> unat (progress h) + unat nbytes \<le> q \<longrightarrow>
         byte_is fs lo hi q v \<longrightarrow> byte_is fs' lo hi q v)"
proof -
  obtain fs' where w: "fwrite now h nbytes data fs = Some (nbytes, h\<lparr>progress := progress h + nbytes\<rparr>, fs')"
    "file_ok fs' (fh_file h) lo hi" "root (mnt fs') = root (mnt fs)"
    "unat (progress h) + unat nbytes \<le> nblk fs' lo hi * blksz fs"
    "\<And>i. i < unat nbytes \<Longrightarrow> byte_is fs' lo hi (unat (progress h) + i) (data ! i)"
    "\<And>q v. blksz fs \<le> q \<Longrightarrow> q < nblk fs lo hi * blksz fs \<Longrightarrow>
         q < unat (progress h) \<or> unat (progress h) + unat nbytes \<le> q \<Longrightarrow>
         byte_is fs lo hi q v \<Longrightarrow> byte_is fs' lo hi q v"
    using fwrite_ok [OF assms, of now] by blast
  have bs: "blksz fs' = blksz fs" using w(3) by (simp add: blksz_def)
  have "blksz fs' \<le> unat (progress h)" using assms(5) bs by (simp add: write_fits_def)
  then obtain d fs'' where r: "fread now' h nbytes fs' = Some (nbytes, Some d, h\<lparr>progress := progress h + nbytes\<rparr>, fs'')"
    "length d = unat nbytes" "\<forall>i < unat nbytes. byte_is fs' lo hi (unat (progress h) + i) (d ! i)"
    using fread_ok [OF w(2), of nbytes now'] w(4) bs by auto
  have "d = data"
    using r(2,3) assms(3) w(5) byte_is_unique [OF w(2)] by (metis nth_equalityI)
  with r(1) w show ?thesis by (intro exI conjI) auto
qed


text \<open>A small mounted file system: one file with its metadata cluster, two free clusters.\<close>

definition boot_fs :: fsys where
  "boot_fs = \<lparr>mnt = boot_root, disk = replicate 31232 0\<rparr>"

lemma boot_items: "unat (nClusterItems boot_root) = 3" "unat (confBlockSize (root boot_root)) = 4"
  "blksz boot_fs = 4" "mnt boot_fs = boot_root"
  by (simp_all add: boot_root_def boot_fs_def blksz_def)

lemma boot_data: "data_is boot_fs 0 (replicate 4 0)"
proof -
  have ok: "block_ok (disk_env boot_root) (getloc boot_root 0)"
    using getloc_block_ok [OF wf_boot_root, of 0] boot_items by simp
  have g: "getloc boot_root 0 = 58"
    by (simp add: getloc_def safediv_def sizeof_fsblock_def boot_root_def DATAFIRST_def DATAFIRSTOFFSET_def
        CLUSTERMAPOFFSET_def LOGBLOCKOFFSET_def FRATROOTOFFSET_def)
  have "boff (disk_env boot_root) (getloc boot_root 0) = 29696" "bsize (disk_env boot_root) = 512"
    by (simp_all add: boff_def bsize_def boot_env g)
  then have "read_data_block boot_fs 0 = Some (replicate 512 0)"
    unfolding read_data_block_def boot_items(4) block_ok_unfold(1) [OF ok]
    by (simp add: file_read_def boot_fs_def)
  then show ?thesis by (simp add: data_is_def boot_items)
qed

lemma boot_file_ok: "file_ok boot_fs 0 7 9"
  unfolding file_ok_def boot_items(4) boot_fam
  using wf_boot_root boot_contiguous boot_data
  by (auto simp: fb_of_def boot_items(4)) (simp_all add: boot_root_def fsattr_defs flag_defs)

lemma boot_room: "room boot_root = 2"
proof -
  have "{i. unat (lastClusterAlloc boot_root) \<le> i \<and> i < unat (nClusterItems boot_root)
      \<and> is_free (clusterMap boot_root ! i)} = {1, 2}"
    by (auto simp: boot_root_def is_free_def nth_Cons' split: if_splits)
  then show ?thesis by (simp add: room_def)
qed

lemma boot_nblk: "nblk boot_fs 7 9 = 1"
  by (simp add: nblk_def boot_items(4) boot_fam)

theorem fwrite_fread_round_trip_witness:
  "\<exists>fs' h'. fwrite (0, 0) \<lparr>fh_file = 0, progress = 4\<rparr> 6 [1, 2, 3, 4, 5, 6] boot_fs = Some (6, h', fs')
     \<and> progress h' = 10"
proof -
  let ?h = "\<lparr>fh_file = 0, progress = 4\<rparr> :: fhandle"
  have "write_fits boot_fs ?h 7 9 (unat (6 :: u64))"
    by (simp add: write_fits_def boot_items boot_nblk boot_room)
  moreover have "\<not> flag_check (attributes (fb_of boot_fs (fh_file ?h))) fsreadonly"
    by (simp add: fb_of_def boot_items(4)) (simp add: boot_root_def fsattr_defs flag_defs)
  ultimately show ?thesis
    using fwrite_fread_round_trip [of boot_fs ?h 7 9 "[1, 2, 3, 4, 5, 6]" 6 "(0, 0)" "(0, 0)"] boot_file_ok
    by auto
qed

text \<open>C26: a write of at least one byte to a file whose metadata cluster is read-only returns 0, leaves the map
  and the position alone and changes no byte of the contents: on the image only the metadata block
  is written, and of its record of 512 bytes only the time stamps (bytes 40 to 71) change.\<close>

theorem fwrite_readonly:
  assumes "file_ok fs (fh_file h) lo hi" and "flag_check (attributes (fb_of fs (fh_file h))) fsreadonly"
    and "nbytes \<noteq> 0"
  shows "\<exists>fs' info info'. fwrite now h nbytes data fs = Some (0, h, fs') \<and> mnt fs' = mnt fs
    \<and> (\<forall>q v. blksz fs \<le> q \<longrightarrow> byte_is fs lo hi q v \<longrightarrow> byte_is fs' lo hi q v)
    \<and> freadinfo fs (fh_file h) = Some info \<and> freadinfo fs' (fh_file h) = Some info'
    \<and> (\<forall>i < 512. i < 40 \<or> 72 \<le> i \<longrightarrow> info' ! i = info ! i)
    \<and> length (disk fs') = length (disk fs)
    \<and> (\<forall>p < length (disk fs). p < boff (disk_env (mnt fs)) (getloc (mnt fs) (fh_file h))
          \<or> boff (disk_env (mnt fs)) (getloc (mnt fs) (fh_file h)) + bsize (disk_env (mnt fs)) \<le> p
        \<longrightarrow> disk fs' ! p = disk fs ! p)"
proof -
  obtain fs1 where s: "fupdatetstamp now (fh_file h) True fs = Some fs1" "file_ok fs1 (fh_file h) lo hi"
    "mnt fs1 = mnt fs" "\<And>q v. blksz fs \<le> q \<Longrightarrow> byte_is fs lo hi q v \<Longrightarrow> byte_is fs1 lo hi q v"
    using fupdatetstamp_ok [OF assms(1)] by blast
  have "fb_of fs1 = fb_of fs" using s(3) by (simp add: fb_of_def fun_eq_iff)
  then have w: "fwrite now h nbytes data fs = Some (0, h, fs1)"
    using assms(2,3) s(1) find_meta [OF s(2)] by (simp add: fwrite_def)
  show ?thesis using fupdatetstamp_bytes [OF assms(1) s(1)] w s(3,4) by blast
qed

definition ro_fs :: fsys where
  "ro_fs = boot_fs\<lparr>mnt := map_update 0 (\<lambda>b. b\<lparr>attributes := 6\<rparr>) boot_root\<rparr>"

lemma ro_file_ok: "file_ok ro_fs 0 7 9"
proof -
  have l: "0 < length (clusterMap boot_root)" by (simp add: boot_root_def)
  have f: "fam (mnt ro_fs) 7 9 = {0}"
  proof -
    have "fam (mnt ro_fs) 7 9 = fam boot_root 7 9"
      by (auto simp: ro_fs_def fam_def clusterMap_map_update [OF l] same_family_def)
    then show ?thesis by (simp add: boot_fam)
  qed
  have d: "data_is ro_fs 0 (replicate 4 0)"
    using boot_data data_is_mnt_map(1) [where fs = boot_fs and j = 0 and f = "\<lambda>b. b\<lparr>attributes := 6\<rparr>" and i = 0
        and b = "replicate 4 0"]
    by (simp add: ro_fs_def boot_items(4))
  have i: "index (fb_of ro_fs 0) = 0" "attributes (fb_of ro_fs 0) = 6"
    by (simp_all add: fb_of_def ro_fs_def clusterMap_map_update [OF l]) (simp add: boot_root_def)
  have "contiguous (mnt ro_fs) 7 9"
    unfolding contiguous_def f using i by (simp add: bij_betw_def fb_of_def)
  with f d i show ?thesis
    using wf_boot_root by (auto simp: file_ok_def ro_fs_def fsattr_defs flag_defs)
qed

theorem fwrite_readonly_witness:
  "\<exists>fs'. fwrite (0, 0) \<lparr>fh_file = 0, progress = 4\<rparr> 3 [1, 2, 3] ro_fs
     = Some (0, \<lparr>fh_file = 0, progress = 4\<rparr>, fs')"
proof -
  have "attributes (fb_of ro_fs 0) = 6"
    by (simp add: fb_of_def ro_fs_def) (simp add: map_update_def boot_root_def)
  then have "flag_check (attributes (fb_of ro_fs 0)) fsreadonly"
    by (simp add: fsattr_defs flag_defs)
  then show ?thesis
    using fwrite_readonly [of ro_fs "\<lparr>fh_file = 0, progress = 4\<rparr>" 7 9 3 "(0, 0)" "[1, 2, 3]"] ro_file_ok by auto
qed

text \<open>Seeking saturates instead of wrapping: a relative seek from a position behind the
  metadata block gives the exact sum, cut off below at the start of the data and above at the
  largest position, and an absolute seek counts from the start of the data.\<close>

theorem seek_saturates:
  assumes "blksz fs \<le> unat (progress h)"
  shows "int (unat (progress (fseeko fs d h)))
      = min (2 ^ 64 - 1) (max (int (blksz fs)) (int (unat (progress h)) + sint d))
    \<and> unat (progress (fseek fs p h)) = min (2 ^ 64 - 1) (blksz fs + unat p)"
proof (cases "sint d < 0")
  case True
  have "unat (progress h) \<le> 2 ^ 64 - 1" using unat_u64_less [of "progress h"] by linarith
  then have "int (unat (progress h)) \<le> 2 ^ 64 - 1" by (rule int_le_top)
  moreover have "int (blksz fs) \<le> 2 ^ 64 - 1" by (rule int_le_top [OF blksz_top])
  ultimately have "min (2 ^ 64 - 1) (max (int (blksz fs)) (int (unat (progress h)) + sint d))
      = max (int (blksz fs)) (int (unat (progress h)) + sint d)"
    using True by linarith
  then show ?thesis using fseeko_backward [OF assms True] by (simp only: fseek_saturates simp_thms)
next
  case False
  have "int (blksz fs) \<le> int (unat (progress h))" using assms by (simp only: of_nat_le_iff)
  then have "max (int (blksz fs)) (int (unat (progress h)) + sint d) = int (unat (progress h)) + sint d"
    using False by linarith
  then show ?thesis using fseeko_forward [OF False, of fs h] by (simp only: fseek_saturates simp_thms)
qed

theorem seek_saturates_witness:
  "unat (progress (fseek boot_fs 5 \<lparr>fh_file = 0, progress = 4\<rparr>)) = 9"
  using seek_saturates [of boot_fs "\<lparr>fh_file = 0, progress = 4\<rparr>" 0 5] by (simp add: boot_items)

text \<open>A read that would run past the last data block returns 0 bytes and leaves the handle and
  the image untouched.\<close>

theorem fread_past_end:
  assumes "file_ok fs (fh_file h) lo hi" and "blksz fs \<le> unat (progress h)"
    and "nblk fs lo hi * blksz fs < unat (progress h) + unat nbytes"
    and "unat (progress h) + unat nbytes < 2 ^ 64"
  shows "fread now h nbytes fs = Some (0, None, h, fs)"
proof -
  let ?bs = "blksz fs" and ?n = "nblk fs lo hi"
  have "unat (of_nat ((?n - 1) * ?bs) :: u64) \<le> (?n - 1) * ?bs"
    by (simp only: unat_of_nat mod_less_eq_dividend)
  also have "\<dots> = ?n * ?bs - ?bs" by (simp add: diff_mult_distrib)
  finally have sz: "unat (of_nat ((?n - 1) * ?bs) :: u64) \<le> ?n * ?bs - ?bs" .
  have n: "?bs \<le> ?n * ?bs" using nblk_pos [OF assms(1)] by simp
  have "unat (progress h - ucast (confBlockSize (root (mnt fs)))) = unat (progress h) - ?bs"
    using assms(2) by (subst unat_sub_small) (simp_all add: blksz_def)
  then have "unat (progress h - ucast (confBlockSize (root (mnt fs))) + nbytes)
      = unat (progress h) - ?bs + unat nbytes"
    using assms(2,4) by (subst unat_add_small) simp_all
  then have "progress h - ucast (confBlockSize (root (mnt fs))) + nbytes > of_nat ((?n - 1) * ?bs)"
    unfolding word_less_nat_alt using assms(2,3) sz n by linarith
  then show ?thesis using fsize_ok [OF assms(1)] by (simp add: fread_def)
qed

theorem fread_past_end_witness:
  "fread (0, 0) \<lparr>fh_file = 0, progress = 4\<rparr> 1 boot_fs
     = Some (0, None, \<lparr>fh_file = 0, progress = 4\<rparr>, boot_fs)"
  using fread_past_end [of boot_fs "\<lparr>fh_file = 0, progress = 4\<rparr>" 7 9 1] boot_file_ok
  by (simp add: boot_items boot_nblk)

text \<open>C28: a block written beyond the end of the file (behind the first free block number, while the allocator
  finds a cluster) lands in the next free block number, not in
  the one asked for: the file grows by one block, that block holds the data, and the block that
  was written to still does not exist.\<close>

theorem sparse_write_misplaced:
  assumes "file_ok fs fb lo hi" and "0 < room (mnt fs)" and "nblk fs lo hi < k" and "k < 2 ^ 32"
    and "blksz fs \<le> length b"
  shows "\<exists>fs'. fpush1 fb (of_nat k) b fs = Some fs' \<and> nblk fs' lo hi = nblk fs lo hi + 1
    \<and> block_is fs' lo hi (nblk fs lo hi) (take (blksz fs) b)
    \<and> fread1 fs' fb (of_nat k) = Some (None, of_nat k)"
proof -
  obtain fs' where f: "fpush1 fb (of_nat k) b fs = Some fs'" "file_ok fs' fb lo hi"
    "nblk fs' lo hi = Suc (nblk fs lo hi)" "block_is fs' lo hi (nblk fs lo hi) (take (blksz fs) b)"
    using fpush1_append [OF assms(1,2) _ assms(4,5)] assms(3) by (auto simp: less_imp_le)
  from fread1_outside [OF f(2) _ assms(4)] assms(3) f(3) have "fread1 fs' fb (of_nat k) = Some (None, of_nat k)"
    by simp
  with f show ?thesis by auto
qed

theorem sparse_write_misplaced_witness:
  "\<exists>fs'. fpush1 0 (of_nat 5) [1, 2, 3, 4] boot_fs = Some fs' \<and> nblk fs' 7 9 = 2"
proof -
  have "0 < room (mnt boot_fs)" "nblk boot_fs 7 9 < 5" "blksz boot_fs \<le> length [1, 2, 3, 4 :: u8]"
    by (simp_all add: boot_items boot_nblk boot_room)
  from sparse_write_misplaced [OF boot_file_ok this(1,2) _ this(3)] show ?thesis
    unfolding boot_nblk by fastforce
qed

text \<open>C27: when the allocator has no cluster left in reach, a write of one block at the end of a
  file that is not read-only still reports all its bytes as written although the file does not grow.\<close>

theorem full_disk_write_lost:
  assumes "file_ok fs (fh_file h) lo hi" and "\<not> flag_check (attributes (fb_of fs (fh_file h))) fsreadonly"
    and "room (mnt fs) = 0" and "unat (progress h) = nblk fs lo hi * blksz fs"
    and "unat nbytes = blksz fs" and "length data = blksz fs"
  shows "\<exists>h' fs'. fwrite now h nbytes data fs = Some (nbytes, h', fs') \<and> nblk fs' lo hi = nblk fs lo hi"
proof -
  let ?bs = "blksz fs" and ?n = "nblk fs lo hi" and ?fb = "fh_file h"
  let ?blk = "ucast (confBlockSize (root (mnt fs))) :: u64"
  have bz: "0 < ?bs" by (rule blksz_pos [OF assms(1)])
  have blk: "unat ?blk = ?bs" by (rule unat_conf)
  have nb: "nbytes = ?blk" using assms(5) blk by (simp only: word_unat_eq_iff)
  have nz: "nbytes \<noteq> 0" using assms(5) bz by auto
  obtain fs1 where s: "fupdatetstamp now ?fb True fs = Some fs1" "file_ok fs1 ?fb lo hi" "mnt fs1 = mnt fs"
    using fupdatetstamp_ok [OF assms(1)] by blast
  have same: "blksz fs1 = ?bs" "nblk fs1 lo hi = ?n" "fb_of fs1 = fb_of fs"
    using s(3) by (simp_all add: blksz_def nblk_def fb_of_def fun_eq_iff)
  have fb: "?fb \<in> fam (mnt fs1) lo hi" using s(2) by (simp add: file_ok_def)
  have md: "unat (progress h) mod ?bs = 0" using assms(4) by simp
  have ch: "chunk_len ?blk (progress h) nbytes = nbytes"
    using unat_chunk_len [OF nz, of "progress h" nbytes] assms(5) md
    unfolding nb [symmetric] by (simp add: word_unat_eq_iff)
  have k: "progress h div ?blk = of_nat ?n"
    using block_index [OF assms(4)] bz by simp
  obtain r1 a where al: "allocatecluster (mnt fs) = (r1, a)" by fastforce
  have "a = None"
  proof (rule ccontr)
    assume "a \<noteq> None"
    then obtain i where "allocatecluster (mnt fs) = (r1, Some i)" using al by blast
    then have "i \<in> {i. unat (lastClusterAlloc (mnt fs)) \<le> i \<and> i < unat (nClusterItems (mnt fs))
        \<and> is_free (clusterMap (mnt fs) ! i)}"
      by (auto simp: allocatecluster_def find_upt_Some split: option.splits)
    then show False using assms(3) unfolding room_def by (subst (asm) card_0_eq) auto
  qed
  then have r1: "r1 = (mnt fs)\<lparr>lastClusterAlloc := 0\<rparr>" using al allocatecluster_None by blast
  have "ffindhi (mnt fs1) (lo, ucast hi) (of_nat ?n) = None"
    using ffindhi_contiguous [of "mnt fs1" lo hi ?n] s(2) nblk_less [OF s(2)] same
    by (simp add: file_ok_def nblk_def)
  then have push: "fpush1 ?fb (of_nat ?n) data fs1 = Some (fs1\<lparr>mnt := r1\<rparr>)"
    using of_nat_neq_index [OF s(2) nblk_pos [OF s(2)] nblk_less [OF s(2)]] al \<open>a = None\<close> s(3) same
    by (simp add: fpush1_def file_ok_code [OF s(2) fb, unfolded s(3)] Let_def faddr_def)
  have "fwrite_block ?fb (progress h) nbytes data fs1 = Some (fs1\<lparr>mnt := r1\<rparr>)"
    using push k nb s(3) by (simp add: fwrite_block_def Let_def)
  then have "fwrite_loop ?fb (progress h) nbytes data fs1 = Some (fs1\<lparr>mnt := r1\<rparr>, progress h + nbytes)"
    using nz nb ch s(3) fwrite_loop_0 by (subst fwrite_loop.simps) (simp add: Let_def)
  then have "fwrite now h nbytes data fs = Some (nbytes, h\<lparr>progress := progress h + nbytes\<rparr>, fs1\<lparr>mnt := r1\<rparr>)"
    using nz s(1) find_meta [OF s(2)] assms(2) same by (simp add: fwrite_def)
  then show ?thesis using r1 by (auto simp: nblk_def)
qed


definition full_fs :: fsys where
  "full_fs = boot_fs\<lparr>mnt := boot_root\<lparr>lastClusterAlloc := 3\<rparr>\<rparr>"

lemma full_file_ok: "file_ok full_fs 0 7 9"
proof -
  have "data_is full_fs 0 (replicate 4 0)"
    using boot_data data_is_mnt_map(2) [where fs = boot_fs and k = 3 and i = 0 and b = "replicate 4 0"]
    by (simp add: full_fs_def boot_items(4))
  then show ?thesis
    using boot_file_ok wf_boot_root by (auto simp: file_ok_def full_fs_def fb_of_def boot_items(4) boot_fam)
qed

theorem full_disk_write_lost_witness:
  "\<exists>h' fs'. fwrite (0, 0) \<lparr>fh_file = 0, progress = 4\<rparr> 4 [1, 2, 3, 4] full_fs = Some (4, h', fs')
     \<and> nblk fs' 7 9 = nblk full_fs 7 9"
proof -
  have "room (mnt full_fs) = 0" by (simp add: room_def full_fs_def) (simp add: boot_root_def)
  moreover have "nblk full_fs 7 9 = 1" "blksz full_fs = 4"
    by (simp_all add: nblk_def full_fs_def boot_fam blksz_def) (simp add: boot_root_def)
  moreover have "\<not> flag_check (attributes (fb_of full_fs 0)) fsreadonly"
    by (simp add: fb_of_def full_fs_def) (simp add: boot_root_def fsattr_defs flag_defs)
  ultimately show ?thesis
    using full_disk_write_lost [of full_fs "\<lparr>fh_file = 0, progress = 4\<rparr>" 7 9 4 "[1, 2, 3, 4]" "(0, 0)"]
      full_file_ok by simp
qed

end
