(* ===== verification/Frat_Mount.thy ===== *)
theory Frat_Mount
  imports Frat_Map
begin

text \<open>
  Partition tables, formatting and mounting: the first part of \<^verbatim>\<open>tools/filesystem/frat.c\<close>, over
  the byte image of a disk.  The packed structures are decoded from and encoded to little-endian
  bytes at the offsets of the source.  A result \<open>None\<close> of an operation that returns a value is a
  dereferenced null pointer, after a read that the image could not fill.  Allocation succeeds and
  the logging of the debug build is left out.
\<close>

section \<open>Structures on disk\<close>

definition rd_u32 :: "bytes \<Rightarrow> nat \<Rightarrow> u32" where
  "rd_u32 bs off = of_nat (le_nat (take 4 (drop off bs)))"

definition rd_u64 :: "bytes \<Rightarrow> nat \<Rightarrow> u64" where
  "rd_u64 bs off = of_nat (le_nat (take 8 (drop off bs)))"

definition str_bytes :: "string \<Rightarrow> bytes" where
  "str_bytes s = map of_char s"

definition GPT_LBA :: u64 where "GPT_LBA = 1"
definition sizeof_miniGPT :: nat where "sizeof_miniGPT = 92"
definition sizeof_GPTentry :: nat where "sizeof_GPTentry = 128"
definition GPTeNAMESIZE :: nat where "GPTeNAMESIZE = 72"
definition sizeof_fsroot :: nat where "sizeof_fsroot = 60"
definition FS_DEFAULTBLOCKSIZE :: u32 where "FS_DEFAULTBLOCKSIZE = 512"

lemmas gpt_defs = GPT_LBA_def sizeof_miniGPT_def sizeof_GPTentry_def GPTeNAMESIZE_def sizeof_fsroot_def
lemmas size_defs = gpt_defs FS_DEFAULTBLOCKSIZE_def

record miniGPT =
  gsig :: bytes
  revision :: u32
  hSize :: u32
  hChecksum :: u32
  localLBA :: u64
  alternateLBA :: u64
  fUsable :: u64
  lUsable :: u64
  dGUID :: "u64 \<times> u64"
  partEntryLoc :: u64
  nPartEntries :: u32
  partEntrySize :: u32
  partArrayChecksum :: u32

definition decode_gpt :: "bytes \<Rightarrow> miniGPT" where
  "decode_gpt b = \<lparr>gsig = take 8 b, revision = rd_u32 b 8, hSize = rd_u32 b 12, hChecksum = rd_u32 b 16,
     localLBA = rd_u64 b 24, alternateLBA = rd_u64 b 32, fUsable = rd_u64 b 40, lUsable = rd_u64 b 48,
     dGUID = (rd_u64 b 56, rd_u64 b 64), partEntryLoc = rd_u64 b 72, nPartEntries = rd_u32 b 80,
     partEntrySize = rd_u32 b 84, partArrayChecksum = rd_u32 b 88\<rparr>"

record GPTentry =
  eGUID :: "u64 \<times> u64"
  uGUID :: "u64 \<times> u64"
  sLBA :: u64
  eLBA :: u64
  attr :: u64
  ename :: bytes

definition decode_entry :: "bytes \<Rightarrow> GPTentry" where
  "decode_entry b = \<lparr>eGUID = (rd_u64 b 0, rd_u64 b 8), uGUID = (rd_u64 b 16, rd_u64 b 24),
     sLBA = rd_u64 b 32, eLBA = rd_u64 b 40, attr = rd_u64 b 48, ename = take GPTeNAMESIZE (drop 56 b)\<rparr>"

record partdim =
  entry :: GPTentry
  base :: u64
  high :: u64

definition no_part :: partdim where
  "no_part = \<lparr>entry = \<lparr>eGUID = (0, 0), uGUID = (0, 0), sLBA = 0, eLBA = 0, attr = 0,
     ename = replicate GPTeNAMESIZE 0\<rparr>, base = 0, high = 0\<rparr>"

text \<open>The extension part of \<open>fsroot\<close> is a nested structure with its own alignment.\<close>

definition encode_fsroot :: "fsroot \<Rightarrow> bytes" where
  "encode_fsroot r = take 16 (signature r) @ le_bytes 4 (unat (confLogSectors r))
     @ le_bytes 4 (unat (confBlockSize r)) @ le_bytes 4 (unat (confClusterSize r))
     @ le_bytes 4 (unat (verMajor r)) @ le_bytes 4 (unat (verMinor r))
     @ [of_bool (ExtensionEnabled r), 0, 0, 0] @ le_bytes 4 (unat (MinimumExtensionSupport r))
     @ le_bytes 4 (unat (TotalExtensions r)) @ [0, 0, 0, 0] @ le_bytes 8 (unat (ExtensionTable r))"

definition decode_fsroot :: "bytes \<Rightarrow> fsroot" where
  "decode_fsroot b = \<lparr>signature = take 16 b, confLogSectors = rd_u32 b 16, confBlockSize = rd_u32 b 20,
     confClusterSize = rd_u32 b 24, verMajor = rd_u32 b 28, verMinor = rd_u32 b 32,
     ExtensionEnabled = (b ! 36 \<noteq> 0), MinimumExtensionSupport = rd_u32 b 40,
     TotalExtensions = rd_u32 b 44, ExtensionTable = rd_u64 b 52\<rparr>"

definition decode_fsblock :: "bytes \<Rightarrow> fsblock" where
  "decode_fsblock b = \<lparr>fcodelow = rd_u64 b 0, fcodehigh = ucast (rd_u64 b 8),
     attributes = ucast (drop_bit 48 (rd_u64 b 8)), index = rd_u32 b 16\<rparr>"

definition encode_fsblock :: "fsblock \<Rightarrow> bytes" where
  "encode_fsblock f = le_bytes 8 (unat (fcodelow f))
     @ le_bytes 8 (unat (ucast (fcodehigh f) OR push_bit 48 (ucast (attributes f)) :: u64))
     @ le_bytes 4 (unat (index f))"

definition decode_map :: "bytes \<Rightarrow> fsblock list" where
  "decode_map b = map (\<lambda>i. decode_fsblock (drop (sizeof_fsblock * i) b)) [0..<length b div sizeof_fsblock]"

definition map_tail :: "bytes \<Rightarrow> bytes" where
  "map_tail b = drop (length b div sizeof_fsblock * sizeof_fsblock) b"

section \<open>Partitions\<close>

definition FRATSIG :: bytes where "FRATSIG = str_bytes (''FRAT_FILESYSTEM'' @ [CHR 0x00])"

definition checkdisk :: "bytes \<Rightarrow> bool option" where
  "checkdisk img = do {
     block \<leftarrow> readblocks (startup 0 FS_DEFAULTBLOCKSIZE) img GPT_LBA (of_nat sizeof_miniGPT);
     Some (take 8 block = str_bytes ''EFI PART'')
   }"

definition gpt_entries :: "rawenv \<Rightarrow> bytes \<Rightarrow> miniGPT \<Rightarrow> GPTentry list option" where
  "gpt_entries re img gpt =
    map_option (\<lambda>ge. map (\<lambda>i. decode_entry (drop (sizeof_GPTentry * i) ge)) [0..<unat (nPartEntries gpt)])
      (readblocks re img (partEntryLoc gpt) (ucast (nPartEntries gpt) * of_nat sizeof_GPTentry))"

definition to_part :: "GPTentry \<Rightarrow> partdim" where
  "to_part e = \<lparr>entry = e, base = sLBA e, high = eLBA e\<rparr>"

definition name_bytes :: "u16 list \<Rightarrow> bytes" where
  "name_bytes name = concat (map (\<lambda>c. le_bytes 2 (unat c)) name)"

definition loadpart :: "bytes \<Rightarrow> u16 list \<Rightarrow> partdim option" where
  "loadpart img name = do {
     ok \<leftarrow> checkdisk img;
     if ok then do {
       let re = startup 0 FS_DEFAULTBLOCKSIZE;
       block \<leftarrow> readblocks re img GPT_LBA (of_nat sizeof_miniGPT);
       es \<leftarrow> gpt_entries re img (decode_gpt block);
       Some (case List.find (\<lambda>e. take GPTeNAMESIZE (name_bytes name) = ename e) es of
               Some e \<Rightarrow> to_part e | None \<Rightarrow> no_part)
     } else Some no_part
   }"

definition queryfs :: "rawenv \<Rightarrow> bytes \<Rightarrow> u64 \<Rightarrow> bool option" where
  "queryfs re img partbase = do {
     fr \<leftarrow> readblocks re img (partbase + ucast FRATROOTOFFSET) (of_nat sizeof_fsroot);
     Some (take 16 fr = FRATSIG)
   }"

text \<open>
  For every entry the source clears the 72 bytes of a name in an array of 37 characters on the stack:
  35 bytes behind the array are overwritten.  \<open>behind\<close> is the number of bytes behind the array, in the
  frame that the compiler lays out, that hold nothing which is used again; a write past them is
  undefined, \<open>None\<close>.  Nothing but the debug output reads the array, so the release build of the tool
  (optimised, without the debug output) need not keep it at all.
\<close>

definition clears_name :: "nat \<Rightarrow> bool" where
  "clears_name behind = (GPTeNAMESIZE \<le> GPTeNAMESIZE div 2 + 1 + behind)"

fun query_entries :: "nat \<Rightarrow> rawenv \<Rightarrow> bytes \<Rightarrow> GPTentry list \<Rightarrow> partdim option" where
  "query_entries behind re img [] = Some no_part"
| "query_entries behind re img (e # es) =
    (if \<not> clears_name behind then None
     else do {
       found \<leftarrow> queryfs re img (sLBA e);
       if found then Some (to_part e) else query_entries behind re img es
     })"

definition queryparttablefs :: "nat \<Rightarrow> miniGPT \<Rightarrow> rawenv \<Rightarrow> bytes \<Rightarrow> partdim option" where
  "queryparttablefs behind gpt re img = do { es \<leftarrow> gpt_entries re img gpt; query_entries behind re img es }"

section \<open>Formatting\<close>

definition CLUSTERMAPSECTORS_CALC :: "u64 \<Rightarrow> u64 \<Rightarrow> u32 \<Rightarrow> u32 \<Rightarrow> u64" where
  "CLUSTERMAPSECTORS_CALC pfirst plast nLog conf =
    safediv ((plast - (pfirst + ucast nLog)) * of_nat sizeof_fsblock + ucast (conf - 1)) (ucast conf)"

definition format_root :: "partdim \<Rightarrow> u32 \<Rightarrow> u32 \<Rightarrow> u32 \<Rightarrow> u32 \<Rightarrow> fsroot" where
  "format_root part conf nLog major minor =
    \<lparr>signature = FRATSIG, confLogSectors = nLog, confBlockSize = conf,
     confClusterSize = ucast (CLUSTERMAPSECTORS_CALC (base part) (high part) nLog conf),
     verMajor = major, verMinor = minor, ExtensionEnabled = False,
     MinimumExtensionSupport = - 1, TotalExtensions = 0, ExtensionTable = - 1\<rparr>"

text \<open>
  The root structure is assembled in a buffer for the log sectors: \<open>None\<close> when that buffer is
  smaller than the structure.
\<close>

definition formatpart :: "bytes \<Rightarrow> u16 list \<Rightarrow> u32 \<Rightarrow> u32 \<Rightarrow> u32 \<Rightarrow> u32 \<Rightarrow> bytes option" where
  "formatpart img name conf nLog major minor = do {
     part \<leftarrow> loadpart img name;
     if high part = 0 then Some img
     else if unat nLog * unat conf < sizeof_fsroot then None
     else
       let re = startup (base part) conf;
           img1 = writeblocks re (encode_fsroot (format_root part conf nLog major minor))
                    (base part + ucast FRATROOTOFFSET) (of_nat sizeof_fsroot) img;
           log = conf * nLog;
           img2 = writeblocks re (replicate (unat log) 0) (base part + ucast LOGBLOCKOFFSET) (ucast log) img1;
           n = CLUSTERMAPSECTORS_CALC (base part) (high part) nLog conf * ucast conf
       in Some (writeblocks re (replicate (unat n) 0)
                  (base part + ucast (CLUSTERMAPOFFSET nLog * conf)) n img2)
   }"

section \<open>Mounting\<close>

text \<open>
  \<open>Some None\<close> is the null pointer for a disk without a partition table or without a formatted
  partition.  A log or a map that cannot be read is a null pointer in the mounted root, here the
  empty list.
\<close>

definition fmount :: "nat \<Rightarrow> bytes \<Rightarrow> conf_fsroot option option" where
  "fmount behind img = do {
     ok \<leftarrow> checkdisk img;
     if ok then do {
       let re = startup 0 FS_DEFAULTBLOCKSIZE;
       block \<leftarrow> readblocks re img GPT_LBA (of_nat sizeof_miniGPT);
       part \<leftarrow> queryparttablefs behind (decode_gpt block) re img;
       if high part = 0 then Some None
       else do {
         let re1 = re\<lparr>Partition := base part\<rparr>;
         rb \<leftarrow> readblocks re1 img (base part + ucast FRATROOTOFFSET) (of_nat sizeof_fsroot);
         let r = decode_fsroot rb;
         let re2 = setblocksize (confBlockSize r) re1;
         Some (Some \<lparr>fguid = eGUID (entry part), altGUID = uGUID (entry part), root = r, loc = base part,
           lastClusterAlloc = 0, nLogSectors = confLogSectors r,
           logBlock = (case readblocks re2 img (base part + ucast LOGBLOCKOFFSET)
                              (ucast (confBlockSize r * confLogSectors r)) of Some b \<Rightarrow> b | None \<Rightarrow> []),
           clusterSize = ucast (confClusterSize r),
           nClusterSectors = ucast (safediv (confClusterSize r) (confBlockSize r)),
           nClusterItems = safediv (ucast (confClusterSize r)) (of_nat sizeof_fsblock),
           clusterMap = (case readblocks re2 img
                                (base part + ucast (CLUSTERMAPOFFSET (confLogSectors r) * confBlockSize r))
                                (ucast (confClusterSize r)) of Some b \<Rightarrow> decode_map b | None \<Rightarrow> []),
           mapTail = (case readblocks re2 img
                                (base part + ucast (CLUSTERMAPOFFSET (confLogSectors r) * confBlockSize r))
                                (ucast (confClusterSize r)) of Some b \<Rightarrow> map_tail b | None \<Rightarrow> [])\<rparr>)
       }
     } else Some None
   }"

section \<open>Encoding and decoding\<close>

lemma le_nat_word: "le_nat (le_bytes 4 (unat (w :: u32))) = unat w"
  "le_nat (le_bytes 8 (unat (v :: u64))) = unat v"
  using unsigned_less [of w, where 'a = nat] unsigned_less [of v, where 'a = nat]
  by (simp_all add: le_nat_le_bytes)

lemma rd_fields [simp]:
  "length pre = off \<Longrightarrow> rd_u32 (pre @ le_bytes 4 (unat (w :: u32)) @ post) off = w"
  "length pre = off \<Longrightarrow> rd_u64 (pre @ le_bytes 8 (unat (v :: u64)) @ post) off = v"
  by (simp_all add: rd_u32_def rd_u64_def le_nat_word)

lemma length_encode_fsroot: "length (signature r) = 16 \<Longrightarrow> length (encode_fsroot r) = sizeof_fsroot"
  by (simp add: encode_fsroot_def sizeof_fsroot_def)

lemma decode_encode_fsroot:
  "length (signature r) = 16 \<Longrightarrow> decode_fsroot (encode_fsroot r @ rest) = r"
  by (cases r) (simp add: decode_fsroot_def encode_fsroot_def rd_u32_def rd_u64_def le_nat_word nth_append)

lemma decode_encode_fsblock: "decode_fsblock (encode_fsblock f @ rest) = f"
proof -
  let ?q = "ucast (fcodehigh f) OR push_bit 48 (ucast (attributes f)) :: u64"
  have "(ucast ?q :: u48) = fcodehigh f"
    by (rule bit_word_eqI) (auto simp: bit_simps)
  moreover have "(ucast (drop_bit 48 ?q) :: u16) = attributes f"
    by (rule bit_word_eqI) (auto simp: bit_simps dest: bit_imp_le_length)
  ultimately show ?thesis
    by (cases f) (simp add: decode_fsblock_def encode_fsblock_def rd_u32_def rd_u64_def le_nat_word)
qed

lemma le_nat_zeros [simp]: "le_nat (replicate n 0) = 0"
  by (induction n) auto

lemma decode_fsblock_zeros: "is_free (decode_fsblock (drop k (replicate n 0)))"
  by (simp add: decode_fsblock_def rd_u64_def is_free_def)

lemma nth_decode_map_zeros: "i < length (decode_map (replicate n 0)) \<Longrightarrow> is_free (decode_map (replicate n 0) ! i)"
  using decode_fsblock_zeros by (simp add: decode_map_def)

section \<open>Environments\<close>

lemma wf_default [simp]: "wf_env (startup 0 FS_DEFAULTBLOCKSIZE)" "bsize (startup 0 FS_DEFAULTBLOCKSIZE) = 512"
  "wf_env ((startup 0 FS_DEFAULTBLOCKSIZE)\<lparr>Partition := b\<rparr>)"
  "bsize ((startup 0 FS_DEFAULTBLOCKSIZE)\<lparr>Partition := b\<rparr>) = 512"
  by (simp_all add: wf_env_def bsize_def startup_def Let_def FS_DEFAULTBLOCKSIZE_def DefaultRawDiskSize_def)

lemma Partition_startup [simp]: "Partition (startup b c) = b"
  by (simp add: startup_def Let_def)

lemma ceil_512: "(n + 511) div 512 = n div 512 + of_bool (n mod 512 \<noteq> (0 :: nat))"
proof -
  have "(n mod 512 + 511) div 512 = of_bool (n mod 512 \<noteq> 0)"
  proof (cases "n mod 512 = 0")
    case False
    have "n mod 512 < 512" by simp
    with False show ?thesis by (intro div_nat_eqI) auto
  qed simp
  then show ?thesis using div_add1_eq [of n 511 512] by simp
qed

lemma unat_ceil_512:
  assumes "unat (c :: u32) \<le> 2 ^ 32 - 1024"
  shows "unat ((c + 511) div 512) = (unat c + 511) div 512"
    "unat (c div 512 + of_bool (c mod 512 \<noteq> 0)) = (unat c + 511) div 512"
proof -
  have "unat (c + 511) = unat c + 511" using assms by (subst unat_add_small) simp_all
  then show "unat ((c + 511) div 512) = (unat c + 511) div 512" by (simp add: unat_div_distrib)
  have d: "unat (c div 512) = unat c div 512" "unat (c mod 512) = unat c mod 512"
    by (simp_all add: unat_div_distrib unat_mod_distrib)
  have e: "unat (of_bool (c mod 512 \<noteq> 0) :: u32) = of_bool (unat c mod 512 \<noteq> 0)"
    using d(2) by (cases "c mod 512 = 0") (auto simp: word_unat_eq_iff)
  have "unat c div 512 < 2 ^ 31" using assms by (simp add: div_less_iff_less_mult)
  then have "unat (c div 512 + of_bool (c mod 512 \<noteq> 0)) = unat c div 512 + of_bool (unat c mod 512 \<noteq> 0)"
    by (subst unat_add_small) (simp_all only: d e, simp_all)
  then show "unat (c div 512 + of_bool (c mod 512 \<noteq> 0)) = (unat c + 511) div 512"
    by (simp only: ceil_512)
qed

lemma startup_calc:
  assumes "unat c \<le> 2 ^ 32 - 1024" and "0 < unat c"
  shows "startup b c = \<lparr>Partition = b, CalcBlock = (c + 511) div 512, ConfBlock = c, RealBlock = 512\<rparr>"
    and "unat ((c + 511) div 512) = (unat c + 511) div 512"
proof -
  note u = unat_ceil_512 [OF assms(1)]
  have e: "c div 512 + of_bool (c mod 512 \<noteq> 0) = (c + 511) div 512"
    using u by (simp only: word_unat_eq_iff)
  have "0 < unat ((c + 511) div 512)" using assms(2) u(1) by (simp add: div_greater_zero_iff)
  then have nz: "(c + 511) div 512 \<noteq> 0" by auto
  then show "startup b c = \<lparr>Partition = b, CalcBlock = (c + 511) div 512, ConfBlock = c, RealBlock = 512\<rparr>"
    unfolding startup_def Let_def DefaultRawDiskSize_def e by simp
qed (rule unat_ceil_512(1) [OF assms(1)])

lemma setblocksize_startup:
  assumes "unat c \<le> 2 ^ 32 - 1024" and "0 < unat c"
  shows "setblocksize c ((startup 0 FS_DEFAULTBLOCKSIZE)\<lparr>Partition := b\<rparr>) = startup b c"
proof -
  have "c + 512 - 1 = c + 511" by simp
  then show ?thesis
    unfolding startup_calc(1) [OF assms]
    by (simp add: setblocksize_def startup_def Let_def safediv_def size_defs DefaultRawDiskSize_def)
      (simp only: add.commute)
qed

lemma bsize_startup:
  assumes "unat c \<le> 2 ^ 32 - 1024" and "0 < unat c"
  shows "bsize (startup b c) = (unat c + 511) div 512 * 512"
  unfolding startup_calc(1) [OF assms] bsize_def using startup_calc(2) [OF assms] by simp

section \<open>The geometry of a formatted partition\<close>

definition map_sectors :: "partdim \<Rightarrow> u32 \<Rightarrow> u32 \<Rightarrow> nat" where
  "map_sectors p conf nLog =
    ((unat (high p) - (unat (base p) + unat nLog)) * 20 + (unat conf - 1)) div unat conf"

text \<open>The sizes for which no computation of the source wraps.\<close>

definition format_fits :: "partdim \<Rightarrow> u32 \<Rightarrow> u32 \<Rightarrow> bool" where
  "format_fits p conf nLog =
    (0 < unat conf \<and> unat conf \<le> 2 ^ 32 - 1024 \<and> 60 \<le> unat nLog * unat conf
     \<and> (unat nLog + 2) * unat conf < 2 ^ 32
     \<and> unat (base p) + unat nLog \<le> unat (high p) \<and> unat (high p) < 2 ^ 58
     \<and> map_sectors p conf nLog < 2 ^ 32
     \<and> (unat (base p) + (unat nLog + 2 * map_sectors p conf nLog + 4) * unat conf) * (unat conf + 512) < 2 ^ 62)"

lemma unat_sectors:
  assumes "format_fits p conf nLog"
  shows "unat (CLUSTERMAPSECTORS_CALC (base p) (high p) nLog conf) = map_sectors p conf nLog"
proof -
  have f: "0 < unat conf" "unat (base p) + unat nLog \<le> unat (high p)" "unat (high p) < 2 ^ 58"
    using assms by (auto simp: format_fits_def)
  have c: "unat (ucast (conf - 1) :: u64) = unat conf - 1" "unat conf < 2 ^ 32"
    using f(1) unsigned_less [of conf, where 'a = nat] by (auto simp: unat_pred unat_gt_0)
  have bl: "unat (base p + ucast nLog) = unat (base p) + unat nLog"
    using f(2,3) by (subst unat_add_small) simp_all
  have "unat (high p - (base p + ucast nLog)) = unat (high p) - (unat (base p) + unat nLog)"
    using f(2) bl by (subst unat_sub_small) simp_all
  then have m: "unat ((high p - (base p + ucast nLog)) * 20) = (unat (high p) - (unat (base p) + unat nLog)) * 20"
    using f(3) by (subst unat_mult_small) simp_all
  have "(unat (high p) - (unat (base p) + unat nLog)) * 20 \<le> unat (high p) * 20" by simp
  moreover have "unat (high p) * 20 < 2 ^ 63" using f(3) by simp
  moreover have "unat conf < 2 ^ 63" by (rule order.strict_trans [OF c(2)]) simp
  ultimately have "(unat (high p) - (unat (base p) + unat nLog)) * 20 + (unat conf - 1) < 2 ^ 64" by simp
  then have "unat ((high p - (base p + ucast nLog)) * 20 + ucast (conf - 1))
      = (unat (high p) - (unat (base p) + unat nLog)) * 20 + (unat conf - 1)"
    by (subst unat_add_small) (simp_all only: m c, simp)
  moreover have "(ucast conf :: u64) \<noteq> 0" using f(1) by (metis unat_ucast_u32 unat_0 less_irrefl)
  ultimately show ?thesis
    by (simp add: CLUSTERMAPSECTORS_CALC_def sizeof_fsblock_def safediv_def map_sectors_def unat_div_distrib)
qed

lemma unat_map_offset:
  assumes "format_fits p conf nLog"
  shows "unat (ucast (CLUSTERMAPOFFSET nLog * conf) :: u64) = (unat nLog + 2) * unat conf"
proof -
  have f: "0 < unat conf" "(unat nLog + 2) * unat conf < 2 ^ 32" using assms by (auto simp: format_fits_def)
  have "(unat nLog + 2) * 1 \<le> (unat nLog + 2) * unat conf" using f(1) by (intro mult_le_mono2) simp
  from le_less_trans [OF this f(2)] have "unat nLog + 2 < 2 ^ 32" by simp
  then have "unat (nLog + 2) = unat nLog + 2" by (subst unat_add_small) simp_all
  moreover have "CLUSTERMAPOFFSET nLog = nLog + 2"
    by (simp add: CLUSTERMAPOFFSET_def LOGBLOCKOFFSET_def FRATROOTOFFSET_def)
  ultimately show ?thesis using f(2) by (simp only: unat_ucast_u32, subst unat_mult_small) simp_all
qed

lemma block_bounds:
  assumes "format_fits p conf nLog"
  defines "E \<equiv> startup (base p) conf"
  shows "wf_env E" "unat conf \<le> bsize E" "bsize E \<le> unat conf + 511" "512 \<le> bsize E"
    and "\<And>k. k \<le> (unat nLog + 2 * map_sectors p conf nLog + 4) * unat conf \<Longrightarrow>
           unat (base p + of_nat k) = unat (base p) + k \<and> raw_fits E (base p + of_nat k)
           \<and> boff E (base p + of_nat k) = unat (base p) * 512 + k * bsize E
           \<and> unat (base p) * 512 + k * bsize E < 2 ^ 62"
proof -
  have f: "0 < unat conf" "unat conf \<le> 2 ^ 32 - 1024"
    "(unat (base p) + (unat nLog + 2 * map_sectors p conf nLog + 4) * unat conf) * (unat conf + 512) < 2 ^ 62"
    using assms(1) by (auto simp: format_fits_def)
  show wf: "wf_env E" and "unat conf \<le> bsize E" using wf_env_startup [OF f(2)] by (auto simp: E_def)
  have bs: "bsize E = (unat conf + 511) div 512 * 512" using bsize_startup [OF f(2,1)] by (simp add: E_def)
  then show B: "bsize E \<le> unat conf + 511" by simp
  have "1 \<le> (unat conf + 511) div 512" using f(1) by (simp add: Suc_le_eq div_greater_zero_iff)
  then show "512 \<le> bsize E" using bs by simp
  fix k assume k: "k \<le> (unat nLog + 2 * map_sectors p conf nLog + 4) * unat conf"
  let ?K = "(unat nLog + 2 * map_sectors p conf nLog + 4) * unat conf"
  have "unat (base p) * 512 + k * bsize E \<le> unat (base p) * (unat conf + 512) + ?K * (unat conf + 512)"
    using k B by (intro add_mono mult_mono) auto
  then have "unat (base p) * 512 + k * bsize E \<le> (unat (base p) + ?K) * (unat conf + 512)"
    by (simp only: add_mult_distrib)
  from le_less_trans [OF this f(3)] have lt: "unat (base p) * 512 + k * bsize E < 2 ^ 62" .
  have "unat (base p) + k \<le> (unat (base p) + ?K) * 1" using k by simp
  also have "\<dots> \<le> (unat (base p) + ?K) * (unat conf + 512)" by (intro mult_le_mono2) simp
  finally have bk: "unat (base p) + k < 2 ^ 62" using f(3) by (rule le_less_trans)
  have uk: "unat (of_nat k :: u64) = k" using bk by (simp add: unat_of_nat)
  have u: "unat (base p + of_nat k) = unat (base p) + k"
    using bk by (subst unat_add_small) (simp_all only: uk, simp)
  moreover have "boff E (base p + of_nat k) = unat (base p) * 512 + k * bsize E"
    using u by (simp add: boff_def E_def)
  moreover have "base p \<le> base p + of_nat k" using u by (simp add: word_le_nat_alt)
  ultimately show "unat (base p + of_nat k) = unat (base p) + k \<and> raw_fits E (base p + of_nat k)
      \<and> boff E (base p + of_nat k) = unat (base p) * 512 + k * bsize E
      \<and> unat (base p) * 512 + k * bsize E < 2 ^ 62"
    using lt by (simp add: raw_fits_def E_def)
qed

lemma rounded_le:
  assumes "n \<le> k * bsize re" and "0 < bsize re"
  shows "rounded re n \<le> k * bsize re"
proof -
  have "(n + bsize re - 1) div bsize re < k + 1"
    using assms by (subst div_less_iff_less_mult) auto
  then show ?thesis unfolding rounded_def by (intro mult_le_mono1) simp
qed

lemma rounded_mono: "m \<le> n \<Longrightarrow> rounded re m \<le> rounded re n"
  unfolding rounded_def by (intro mult_le_mono1 div_le_mono) simp

lemma file_read_prefix: "file_read f off n = Some b \<Longrightarrow> m \<le> n \<Longrightarrow> file_read f off m = Some (take m b)"
  by (auto simp: file_read_nth)

lemma unat_eq_of_nat_u64: "unat (w :: u64) = n \<Longrightarrow> w = of_nat n"
  by auto

lemma length_FRATSIG: "length FRATSIG = 16"
  by (simp add: FRATSIG_def str_bytes_def)

lemma three_writes:
  assumes "o1 + length d1 \<le> o2" and "o2 + length d2 \<le> o3"
    and g_def: "g = file_write (file_write (file_write f o1 d1) o2 d2) o3 d3"
  shows "file_read g o1 (length d1) = Some d1" "file_read g o2 (length d2) = Some d2"
    "file_read g o3 (length d3) = Some d3"
    "off + n \<le> o1 \<Longrightarrow> file_read f off n = Some c \<Longrightarrow> file_read g off n = Some c"
proof -
  show "file_read g o3 (length d3) = Some d3" unfolding g_def by (rule file_read_write_same)
  show "file_read g o2 (length d2) = Some d2"
    unfolding g_def using assms(2) by (intro file_read_write_other file_read_write_same) simp
  show "file_read g o1 (length d1) = Some d1"
    unfolding g_def using assms(1,2) by (intro file_read_write_other file_read_write_same) simp_all
  assume "off + n \<le> o1" "file_read f off n = Some c"
  then show "file_read g off n = Some c"
    unfolding g_def using assms(1,2) by (intro file_read_write_other) simp_all
qed

lemma formatted_image:
  assumes fits: "format_fits p conf nLog" and part: "loadpart img name = Some p"
  defines "E \<equiv> startup (base p) conf" and "S \<equiv> map_sectors p conf nLog"
  shows "\<exists>img'. formatpart img name conf nLog major minor = Some img'
    \<and> file_read img' (unat (base p) * 512) (bsize E)
        = Some (encode_fsroot (format_root p conf nLog major minor) @ replicate (bsize E - 60) 0)
    \<and> file_read img' (unat (base p) * 512 + (unat nLog + 2) * unat conf * bsize E) (rounded E (S * unat conf))
        = Some (replicate (rounded E (S * unat conf)) 0)
    \<and> (\<forall>off n c. off + n \<le> unat (base p) * 512 \<longrightarrow> file_read img off n = Some c \<longrightarrow> file_read img' off n = Some c)"
proof -
  note b = block_bounds [OF fits, folded E_def S_def]
  note f = fits [unfolded format_fits_def, folded S_def]
  let ?P = "unat (base p)" and ?L = "unat nLog" and ?c = "unat conf" and ?B = "bsize E"
  define Q where "Q = (?L + 2 * S + 4) * ?c"
  have c0: "0 < ?c" and logc: "60 \<le> ?L * ?c" "(?L + 2) * ?c < 2 ^ 32" and S32: "S < 2 ^ 32"
    using f by auto
  have q: "1 \<le> Q" "(?L + 2) * ?c \<le> Q" "(?L + 2) * ?c + S * ?c \<le> Q"
    unfolding Q_def using c0 by (auto simp: add_mult_distrib)
  have L0: "0 < ?L" using logc(1) by (cases ?L) auto
  have hi: "high p \<noteq> 0" using f L0 by auto
  have ulog: "unat (conf * nLog) = ?L * ?c"
    using logc(2) by (subst unat_mult_small) (simp_all add: mult.commute add_mult_distrib)
  have Sc: "S * ?c * 1 \<le> (?P + Q) * (?c + 512)"
    by (intro mult_le_mono) (auto simp: Q_def add_mult_distrib)
  then have Sc: "S * ?c < 2 ^ 62" using f unfolding Q_def by linarith
  have un: "unat (CLUSTERMAPSECTORS_CALC (base p) (high p) nLog conf * ucast conf) = S * ?c"
    using Sc unat_sectors [OF fits] by (subst unat_mult_small) (simp_all add: S_def)
  let ?d1 = "encode_fsroot (format_root p conf nLog major minor) @ replicate (?B - 60) 0"
  let ?d2 = "replicate (?L * ?c) 0 @ replicate (rounded E (?L * ?c) - ?L * ?c) (0 :: u8)"
  let ?d3 = "replicate (S * ?c) 0 @ replicate (rounded E (S * ?c) - S * ?c) (0 :: u8)"
  let ?o1 = "?P * 512" and ?o2 = "?P * 512 + 1 * ?B" and ?o3 = "?P * 512 + (?L + 2) * ?c * ?B"
  define g where "g = file_write (file_write (file_write img ?o1 ?d1) ?o2 ?d2) ?o3 ?d3"
  have len: "length (encode_fsroot (format_root p conf nLog major minor)) = 60"
    using length_encode_fsroot [of "format_root p conf nLog major minor"]
    by (simp add: format_root_def length_FRATSIG sizeof_fsroot_def)
  have r60: "rounded E 60 = ?B" using b(1,4) by (intro rounded_one) simp_all
  have "formatpart img name conf nLog major minor = Some g"
  proof -
    have 1: "base p + ucast FRATROOTOFFSET = base p + of_nat 0"
      "base p + ucast LOGBLOCKOFFSET = base p + of_nat 1"
      by (simp_all add: FRATROOTOFFSET_def LOGBLOCKOFFSET_def)
    have "(ucast (CLUSTERMAPOFFSET nLog * conf) :: u64) = of_nat ((?L + 2) * ?c)"
      using unat_map_offset [OF fits] by (metis unat_eq_of_nat_u64)
    then have 2: "base p + ucast (CLUSTERMAPOFFSET nLog * conf) = base p + of_nat ((?L + 2) * ?c)" by simp
    have d1: "take 60 (encode_fsroot (format_root p conf nLog major minor))
        = encode_fsroot (format_root p conf nLog major minor)" using len by simp
    have bnd: "?L * ?c < 2 ^ 62" using logc(2) by (simp add: add_mult_distrib)
    have w1: "writeblocks E (encode_fsroot (format_root p conf nLog major minor)) (base p + of_nat 0)
        (of_nat sizeof_fsroot) img = file_write img ?o1 ?d1"
      using writeblocks_eq [OF b(1), of "base p + of_nat 0" 60] b(5) [of 0] d1 r60
      by (simp add: sizeof_fsroot_def)
    have w2: "writeblocks E (replicate (?L * ?c) 0) (base p + of_nat 1) (ucast (conf * nLog)) h
        = file_write h ?o2 ?d2" for h
      using writeblocks_eq [OF b(1), of "base p + of_nat 1" "ucast (conf * nLog)"] b(5) [of 1] q(1) ulog bnd
      by (simp add: Q_def)
    have w3: "writeblocks E (replicate (S * ?c) 0) (base p + of_nat ((?L + 2) * ?c))
        (CLUSTERMAPSECTORS_CALC (base p) (high p) nLog conf * ucast conf) h = file_write h ?o3 ?d3" for h
      using writeblocks_eq [OF b(1), of "base p + of_nat ((?L + 2) * ?c)"
          "CLUSTERMAPSECTORS_CALC (base p) (high p) nLog conf * ucast conf"] b(5) [of "(?L + 2) * ?c"] q(2) un Sc
      by (simp only: Q_def take_replicate min.idem)
    have "(?L * ?c < 60) = False" "(high p = 0) = False" using logc(1) hi by simp_all
    then show ?thesis
      unfolding formatpart_def part g_def using w1 w2 w3
      by (simp only: bind.bind_lunit if_False Let_def 1 2 ulog un sizeof_fsroot_def E_def [symmetric])
  qed
  moreover have "?o1 + length ?d1 \<le> ?o2" using b(4) len by simp
  moreover have "?o2 + length ?d2 \<le> ?o3"
  proof -
    have "?L * ?c \<le> ?L * ?B" using b(2) by simp
    then have "rounded E (?L * ?c) \<le> ?L * ?B" using b(4) by (intro rounded_le) auto
    moreover have l2: "length ?d2 = rounded E (?L * ?c)" using rounded_ge [OF b(1), of "?L * ?c"] by simp
    moreover have "(1 + ?L) * ?B \<le> (?L + 2) * ?c * ?B" using c0 by (intro mult_le_mono1) (cases ?c, auto)
    moreover have "(1 + ?L) * ?B = ?B + ?L * ?B" by simp
    ultimately show ?thesis unfolding l2 by linarith
  qed
  moreover have "length ?d3 = rounded E (S * ?c)" "?d3 = replicate (rounded E (S * ?c)) 0"
    using rounded_ge [OF b(1), of "S * ?c"] by (simp_all flip: replicate_add)
  moreover have "length ?d1 = ?B" using len b(4) by simp
  ultimately show ?thesis
    using three_writes [of ?o1 ?d1 ?o2 ?d2 ?o3 g img ?d3] g_def by (intro exI [of _ g]) simp
qed

section \<open>Reading a formatted partition\<close>

abbreviation E0 :: rawenv where "E0 \<equiv> startup 0 FS_DEFAULTBLOCKSIZE"

lemma readblocks_default:
  assumes "unat pos * 512 < 2 ^ 62" and "unat n < 2 ^ 62"
  shows "readblocks E0 img pos n = file_read img (unat pos * 512) (rounded E0 (unat n))"
  using assms by (subst readblocks_eq) (simp_all add: raw_fits_def boff_def)

lemma wf_mounted:
  assumes fits: "format_fits p conf nLog"
    and r: "loc r = base p" "root r = format_root p conf nLog major minor" "nLogSectors r = nLog"
      "unat (nClusterSectors r) = map_sectors p conf nLog div unat conf"
      "unat (nClusterItems r) = map_sectors p conf nLog div 20"
      "unat (nClusterItems r) \<le> length (clusterMap r)"
  shows "wf_root r"
proof -
  let ?S = "map_sectors p conf nLog" and ?L = "unat nLog" and ?c = "unat conf"
  define E where "E = startup (base p) conf"
  note b = block_bounds [OF fits, folded E_def]
  have f: "0 < ?c" "?c \<le> 2 ^ 32 - 1024" "?S < 2 ^ 32" using fits by (auto simp: format_fits_def)
  have E: "disk_env r = E" using r(1,2) by (simp add: disk_env_def E_def format_root_def)
  define k where "k = (?L + 3 + ?S div ?c) * ?c"
  define i where "i = ?S div 20"
  have "?S div ?c * ?c \<le> ?S" by simp
  moreover have "i \<le> ?S" by (simp add: i_def)
  moreover have "?S * 1 \<le> ?S * ?c" using f(1) by (intro mult_le_mono2) simp
  moreover have "k + i = ?L * ?c + 3 * ?c + ?S div ?c * ?c + i" by (simp add: k_def add_mult_distrib)
  moreover have "(?L + 2 * ?S + 4) * ?c = ?L * ?c + 2 * (?S * ?c) + 4 * ?c" by (simp add: add_mult_distrib)
  ultimately have ki: "k + i \<le> (?L + 2 * ?S + 4) * ?c" by linarith
  have k: "k \<le> (?L + 2 * ?S + 4) * ?c" using ki by linarith
  have "ucast (CLUSTERMAPOFFSET nLog) + nClusterSectors r + 1 = (of_nat (?L + 3 + ?S div ?c) :: u64)"
  proof -
    have 1: "nClusterSectors r = of_nat (?S div ?c)" using r(4) by (rule unat_eq_of_nat_u64)
    have "(?L + 2) * 1 \<le> (?L + 2) * ?c" using f(1) by (intro mult_le_mono2) simp
    moreover have "(?L + 2) * ?c < 2 ^ 32" using fits by (auto simp: format_fits_def)
    ultimately have "?L + 2 < 2 ^ 32" by (metis le_less_trans mult_1_right)
    then have "unat (nLog + 2) = ?L + 2" by (subst unat_add_small) simp_all
    moreover have "CLUSTERMAPOFFSET nLog = nLog + 2"
      by (simp add: CLUSTERMAPOFFSET_def LOGBLOCKOFFSET_def FRATROOTOFFSET_def)
    ultimately have "(ucast (CLUSTERMAPOFFSET nLog) :: u64) = of_nat (?L + 2)"
      by (intro unat_eq_of_nat_u64) (simp only: unat_ucast_u32)
    then show ?thesis by (simp add: 1)
  qed
  moreover have "(ucast conf :: u64) = of_nat ?c" by (intro unat_eq_of_nat_u64) simp
  ultimately have D: "DATAFIRST r = base p + of_nat k"
    using r(1-3) by (simp add: DATAFIRST_def DATAFIRSTOFFSET_def format_root_def k_def add_ac)
  note bk = b(5) [OF k] and bki = b(5) [OF ki]
  have "unat (DATAFIRST r) + i < 2 ^ 64"
  proof -
    have "unat (base p) + (k + i) < 2 ^ 64"
      using bki unat_u64_less [of "base p + of_nat (k + i)"] by linarith
    then show ?thesis using bk D by simp
  qed
  moreover have "boff E (DATAFIRST r) + i * bsize E < 2 ^ 63"
    using bk bki D by (simp add: add_mult_distrib)
  moreover have "base p \<le> DATAFIRST r" using bk D by (simp add: word_le_nat_alt)
  moreover have "i < 2 ^ 32" using f(3) by (simp add: i_def div_less_iff_less_mult)
  ultimately show ?thesis
    using r f E by (simp add: wf_root_def format_root_def i_def)
qed

lemma find_append_first:
  "(\<forall>x\<in>set pre. \<not> P x) \<Longrightarrow> P e \<Longrightarrow> List.find P (pre @ e # post) = Some e"
  by (induction pre) auto

lemma query_entries_first:
  "clears_name behind \<Longrightarrow> (\<forall>x\<in>set pre. queryfs re img (sLBA x) = Some False) \<Longrightarrow>
   queryfs re img (sLBA e) = Some True \<Longrightarrow>
     query_entries behind re img (pre @ e # post) = Some (to_part e)"
  by (induction pre) auto

text \<open>
  A disk whose partition table lies below the partition \<open>e\<close>, with the entries \<open>pre\<close> before it, none
  of which holds a formatted partition.
\<close>

definition lists_partition :: "bytes \<Rightarrow> GPTentry list \<Rightarrow> GPTentry \<Rightarrow> bool" where
  "lists_partition img pre e = (\<exists>block post.
     readblocks E0 img GPT_LBA (of_nat sizeof_miniGPT) = Some block \<and> take 8 block = str_bytes ''EFI PART''
     \<and> gpt_entries E0 img (decode_gpt block) = Some (pre @ e # post)
     \<and> 1024 \<le> unat (sLBA e) * 512
     \<and> unat (partEntryLoc (decode_gpt block)) * 512
         + rounded E0 (unat (nPartEntries (decode_gpt block)) * 128) \<le> unat (sLBA e) * 512
     \<and> (\<forall>p\<in>set pre. sLBA p < sLBA e \<and> queryfs E0 img (sLBA p) = Some False))"

text \<open>In which \<open>e\<close> is moreover the first entry of its name.\<close>

definition names_partition :: "bytes \<Rightarrow> u16 list \<Rightarrow> GPTentry \<Rightarrow> bool" where
  "names_partition img name e = (\<exists>pre. lists_partition img pre e
     \<and> ename e = take GPTeNAMESIZE (name_bytes name) \<and> (\<forall>p\<in>set pre. ename p \<noteq> ename e))"

lemma loadpart_named:
  assumes "names_partition img name e"
  shows "loadpart img name = Some (to_part e)"
proof -
  obtain block pre post where "readblocks E0 img GPT_LBA (of_nat sizeof_miniGPT) = Some block"
    "take 8 block = str_bytes ''EFI PART''" "gpt_entries E0 img (decode_gpt block) = Some (pre @ e # post)"
    "ename e = take GPTeNAMESIZE (name_bytes name)" "\<forall>p\<in>set pre. ename p \<noteq> ename e"
    using assms unfolding names_partition_def lists_partition_def by blast
  moreover from this have "List.find (\<lambda>e. take GPTeNAMESIZE (name_bytes name) = ename e) (pre @ e # post) = Some e"
    by (intro find_append_first) auto
  ultimately show ?thesis by (simp add: loadpart_def checkdisk_def Let_def)
qed

lemma rounded_default: "rounded E0 92 = 512" "rounded E0 60 = 512"
  by (simp_all add: rounded_def)

lemma unat_table_bytes: "unat (ucast (n :: u32) * 128 :: u64) = unat n * 128"
  using unsigned_less [of n, where 'a = nat] by (subst unat_mult_small) simp_all

lemma lists_partition_kept:
  assumes "lists_partition img pre e" and "unat (sLBA e) * 512 < 2 ^ 62"
    and keep: "\<And>off n c. off + n \<le> unat (sLBA e) * 512 \<Longrightarrow> file_read img off n = Some c \<Longrightarrow> file_read img' off n = Some c"
  shows "lists_partition img' pre e"
proof -
  obtain block post where h: "readblocks E0 img GPT_LBA (of_nat sizeof_miniGPT) = Some block"
    "take 8 block = str_bytes ''EFI PART''" "gpt_entries E0 img (decode_gpt block) = Some (pre @ e # post)"
    "1024 \<le> unat (sLBA e) * 512" "unat (partEntryLoc (decode_gpt block)) * 512
         + rounded E0 (unat (nPartEntries (decode_gpt block)) * 128) \<le> unat (sLBA e) * 512"
    "\<forall>p\<in>set pre. sLBA p < sLBA e \<and> queryfs E0 img (sLBA p) = Some False"
    using assms(1) unfolding lists_partition_def by blast
  have fr: "readblocks E0 img' pos n = Some c"
    if "readblocks E0 img pos n = Some c" "unat pos * 512 + rounded E0 (unat n) \<le> unat (sLBA e) * 512"
      "unat n < 2 ^ 62" for pos n c
  proof -
    have "unat pos * 512 < 2 ^ 62" using that(2) assms(2) by linarith
    then show ?thesis using that keep by (simp add: readblocks_default)
  qed
  have "readblocks E0 img' GPT_LBA (of_nat sizeof_miniGPT) = Some block"
    using h(1,4) by (intro fr) (simp_all add: gpt_defs rounded_default)
  moreover have "gpt_entries E0 img' (decode_gpt block) = Some (pre @ e # post)"
    using h(3,5) fr [of "partEntryLoc (decode_gpt block)" "ucast (nPartEntries (decode_gpt block)) * 128"]
      unsigned_less [of "nPartEntries (decode_gpt block)", where 'a = nat]
    by (auto simp: gpt_entries_def sizeof_GPTentry_def unat_table_bytes)
  moreover have "queryfs E0 img' (sLBA p) = Some False" if "p \<in> set pre" for p
  proof -
    have "sLBA p < sLBA e" and q: "queryfs E0 img (sLBA p) = Some False" using h(6) that by auto
    then have "unat (sLBA p) * 512 + 512 \<le> unat (sLBA e) * 512" by (simp add: word_less_nat_alt)
    then show ?thesis
      using q fr [of "sLBA p" 60] by (auto simp: queryfs_def FRATROOTOFFSET_def gpt_defs rounded_default
          split: Option.bind_splits)
  qed
  ultimately show ?thesis using h(2,4,5,6) unfolding lists_partition_def by blast
qed

lemma listed_found:
  assumes "lists_partition img pre e" and "queryfs E0 img (sLBA e) = Some True" and "clears_name behind"
  shows "checkdisk img = Some True \<and> (\<exists>block. readblocks E0 img GPT_LBA (of_nat sizeof_miniGPT) = Some block
    \<and> queryparttablefs behind (decode_gpt block) E0 img = Some (to_part e))"
  using assms unfolding lists_partition_def
  by (auto simp: checkdisk_def queryparttablefs_def query_entries_first)

lemma listed_survives:
  assumes "lists_partition img pre e" and "unat (sLBA e) * 512 < 2 ^ 62"
    and "\<And>off n c. off + n \<le> unat (sLBA e) * 512 \<Longrightarrow> file_read img off n = Some c \<Longrightarrow> file_read img' off n = Some c"
    and "queryfs E0 img' (sLBA e) = Some True" and "clears_name behind"
  shows "checkdisk img' = Some True \<and> (\<exists>block. readblocks E0 img' GPT_LBA (of_nat sizeof_miniGPT) = Some block
    \<and> queryparttablefs behind (decode_gpt block) E0 img' = Some (to_part e))"
  by (rule listed_found [OF lists_partition_kept [OF assms(1-3)] assms(4,5)])

lemma mount_formatted:
  assumes fits: "format_fits p conf nLog" and p: "p = to_part e"
    and table: "checkdisk img = Some True" "readblocks E0 img GPT_LBA (of_nat sizeof_miniGPT) = Some block"
      "queryparttablefs behind (decode_gpt block) E0 img = Some p"
    and rootb: "file_read img (unat (base p) * 512) 512
        = Some (encode_fsroot (format_root p conf nLog major minor) @ pad)"
    and mapb: "file_read img (unat (base p) * 512 + (unat nLog + 2) * unat conf * bsize (startup (base p) conf))
        (rounded (startup (base p) conf) (map_sectors p conf nLog)) = Some (replicate m 0)"
  shows "\<exists>r. fmount behind img = Some (Some r) \<and> root r = format_root p conf nLog major minor \<and> loc r = base p
    \<and> wf_root r \<and> lastClusterAlloc r = 0 \<and> unat (nClusterItems r) = map_sectors p conf nLog div 20
    \<and> (\<forall>i < unat (nClusterItems r). is_free (clusterMap r ! i))"
proof -
  define E where "E = startup (base p) conf"
  define fr where "fr = format_root p conf nLog major minor"
  let ?S = "map_sectors p conf nLog" and ?re1 = "E0\<lparr>Partition := base p\<rparr>"
  note b = block_bounds [OF fits, folded E_def]
  have f: "0 < unat conf" "unat conf \<le> 2 ^ 32 - 1024" "?S < 2 ^ 32" "60 \<le> unat nLog * unat conf"
    "unat (base p) + unat nLog \<le> unat (high p)"
    using fits by (auto simp: format_fits_def)
  have hi: "high p \<noteq> 0" using f(4,5) by (cases "unat nLog") auto
  have cs: "unat (confClusterSize fr) = ?S"
    using f(3) unat_sectors [OF fits] by (simp add: fr_def format_root_def unsigned_ucast_eq take_bit_nat_eq_self)
  have bz: "unat (base p) * 512 < 2 ^ 62" using b(5) [of 0] by simp
  have "readblocks ?re1 img (base p + ucast FRATROOTOFFSET) (of_nat sizeof_fsroot) = Some (encode_fsroot fr @ pad)"
    using bz rootb by (subst readblocks_eq)
      (simp_all add: raw_fits_def boff_def FRATROOTOFFSET_def sizeof_fsroot_def rounded_def fr_def)
  moreover have dr: "decode_fsroot (encode_fsroot fr @ pad) = fr"
    by (rule decode_encode_fsroot) (simp add: fr_def format_root_def length_FRATSIG)
  moreover have "setblocksize (confBlockSize fr) ?re1 = E"
    using setblocksize_startup [OF f(2,1)] by (simp add: E_def fr_def format_root_def)
  moreover have "readblocks E img (base p + ucast (CLUSTERMAPOFFSET (confLogSectors fr) * confBlockSize fr))
      (ucast (confClusterSize fr)) = Some (replicate m 0)"
  proof -
    let ?k = "(unat nLog + 2) * unat conf"
    have k: "?k \<le> (unat nLog + 2 * ?S + 4) * unat conf" by (intro mult_le_mono1) simp
    have "(ucast (CLUSTERMAPOFFSET nLog * conf) :: u64) = of_nat ?k"
      using unat_map_offset [OF fits] by (rule unat_eq_of_nat_u64)
    then show ?thesis
      using mapb b(5) [OF k] cs f(3) readblocks_eq [OF b(1), of "base p + of_nat ?k" "ucast (confClusterSize fr)" img]
      by (simp add: fr_def format_root_def E_def)
  qed
  ultimately obtain r where m: "fmount behind img = Some (Some r)" and r: "root r = fr" "loc r = base p"
    "lastClusterAlloc r = 0" "nLogSectors r = confLogSectors fr"
    "nClusterSectors r = ucast (safediv (confClusterSize fr) (confBlockSize fr))"
    "nClusterItems r = safediv (ucast (confClusterSize fr)) (of_nat sizeof_fsblock)"
    "clusterMap r = decode_map (replicate m 0)"
    using table hi by (simp add: fmount_def Let_def)
  have items: "unat (nClusterItems r) = ?S div 20"
    using r(6) cs by (simp add: safediv_def sizeof_fsblock_def unat_div_distrib)
  have "m = rounded E ?S" using mapb by (auto simp: file_read_nth E_def)
  then have "?S \<le> m" using rounded_ge [OF b(1)] by simp
  then have len: "unat (nClusterItems r) \<le> length (clusterMap r)"
    using items r(7) by (simp add: decode_map_def sizeof_fsblock_def div_le_mono)
  have "unat (nClusterSectors r) = ?S div unat conf"
  proof -
    have "conf \<noteq> 0" using f(1) by auto
    then show ?thesis using r(5) cs by (simp add: safediv_def unat_div_distrib fr_def format_root_def)
  qed
  then have "wf_root r"
    using r items len by (intro wf_mounted [OF fits, of r major minor]) (simp_all add: fr_def format_root_def)
  moreover have "is_free (clusterMap r ! i)" if "i < unat (nClusterItems r)" for i
    using that len r(7) nth_decode_map_zeros [of i m] by simp
  ultimately show ?thesis using m r items by (simp add: fr_def)
qed

lemma formatted_mounts:
  assumes "names_partition img name e" and "format_fits (to_part e) conf nLog" and "clears_name behind"
  shows "\<exists>img' r. formatpart img name conf nLog major minor = Some img' \<and> fmount behind img' = Some (Some r)
    \<and> root r = format_root (to_part e) conf nLog major minor \<and> loc r = sLBA e
    \<and> wf_root r \<and> lastClusterAlloc r = 0
    \<and> unat (nClusterItems r) = map_sectors (to_part e) conf nLog div 20
    \<and> (\<forall>i < unat (nClusterItems r). is_free (clusterMap r ! i))
    \<and> (\<forall>off n c. off + n \<le> unat (sLBA e) * 512 \<longrightarrow> file_read img off n = Some c \<longrightarrow> file_read img' off n = Some c)"
proof -
  define p where "p = to_part e"
  have pb: "base p = sLBA e" by (simp add: p_def to_part_def)
  note fits = assms(2) [folded p_def]
  let ?E = "startup (base p) conf" and ?fr = "format_root p conf nLog major minor" and ?S = "map_sectors p conf nLog"
  note b = block_bounds [OF fits]
  obtain img' where i: "formatpart img name conf nLog major minor = Some img'"
    "file_read img' (unat (base p) * 512) (bsize ?E) = Some (encode_fsroot ?fr @ replicate (bsize ?E - 60) 0)"
    "file_read img' (unat (base p) * 512 + (unat nLog + 2) * unat conf * bsize ?E) (rounded ?E (?S * unat conf))
        = Some (replicate (rounded ?E (?S * unat conf)) 0)"
    "\<And>off n c. off + n \<le> unat (base p) * 512 \<Longrightarrow> file_read img off n = Some c \<Longrightarrow> file_read img' off n = Some c"
    using formatted_image [OF fits loadpart_named [OF assms(1), folded p_def], of major minor] by blast
  have len: "length (encode_fsroot ?fr) = 60"
    using length_encode_fsroot [of ?fr] by (simp add: format_root_def length_FRATSIG sizeof_fsroot_def)
  have rb: "file_read img' (unat (base p) * 512) 512 = Some (encode_fsroot ?fr @ replicate 452 0)"
    using file_read_prefix [OF i(2) b(4)] len b(4) by simp
  have bz: "unat (base p) * 512 < 2 ^ 62" using b(5) [of 0] by simp
  have "take 16 (encode_fsroot ?fr @ replicate 452 0) = FRATSIG"
    by (simp add: encode_fsroot_def format_root_def length_FRATSIG)
  then have sig: "queryfs E0 img' (sLBA e) = Some True"
    using rb bz pb by (simp add: queryfs_def FRATROOTOFFSET_def gpt_defs readblocks_default rounded_default)
  obtain pre where "lists_partition img pre e" using assms(1) by (auto simp: names_partition_def)
  then obtain block where "checkdisk img' = Some True" "readblocks E0 img' GPT_LBA (of_nat sizeof_miniGPT) = Some block"
    "queryparttablefs behind (decode_gpt block) E0 img' = Some p"
    using listed_survives [OF _ _ _ sig assms(3)] bz i(4) pb unfolding p_def by metis
  moreover have "?S * 1 \<le> ?S * unat conf"
    using fits by (intro mult_le_mono2) (simp add: format_fits_def)
  then have "file_read img' (unat (base p) * 512 + (unat nLog + 2) * unat conf * bsize ?E) (rounded ?E ?S)
      = Some (replicate (rounded ?E ?S) 0)"
    using file_read_prefix [OF i(3) rounded_mono, of ?S] by (simp add: min_def rounded_mono)
  moreover have "\<forall>off n c. off + n \<le> unat (sLBA e) * 512 \<longrightarrow> file_read img off n = Some c \<longrightarrow> file_read img' off n = Some c"
    using i(4) pb by simp
  ultimately show ?thesis
    using mount_formatted [OF fits p_def _ _ _ rb] i(1) pb unfolding p_def by metis
qed

section \<open>Properties\<close>

text \<open>A table with an entry in it cannot be searched when the frame leaves no room behind the array of the
  name: the overrun is not avoided by any disk.\<close>

lemma query_overruns:
  "\<not> clears_name behind \<Longrightarrow> gpt_entries re img gpt = Some (e # es) \<Longrightarrow> queryparttablefs behind gpt re img = None"
  by (simp add: queryparttablefs_def)

text \<open>C7: formatting a partition and mounting the disk gives the configured root, at the partition, as a
  well-formed file system in which every cluster is free.  The number of clusters is the number
  of sectors of the map divided by the size of an entry: the sector count written by the format
  is read back as a byte count.  The partition is the first of its name in the table; the entries before
  it lie below it and hold no file system (the mount takes the first one that does), and the table lies
  below the partition, which is large enough for the log and the map.  The search of the table clears 35
  bytes behind an array on the stack, so the frame is taken to hold nothing live there.\<close>

theorem format_then_mount:
  assumes "names_partition img name e" and "format_fits (to_part e) conf nLog" and "clears_name behind"
  shows "\<exists>img' r. formatpart img name conf nLog major minor = Some img' \<and> fmount behind img' = Some (Some r)
    \<and> root r = format_root (to_part e) conf nLog major minor \<and> loc r = sLBA e
    \<and> wf_root r \<and> lastClusterAlloc r = 0
    \<and> unat (nClusterItems r) = map_sectors (to_part e) conf nLog div 20
    \<and> (\<forall>i < unat (nClusterItems r). is_free (clusterMap r ! i))"
  using formatted_mounts [OF assms, of major minor] by metis

definition demo_header :: bytes where
  "demo_header = str_bytes ''EFI PART'' @ replicate 64 0 @ le_bytes 8 2 @ le_bytes 4 1 @ replicate 428 0"

definition demo_table :: bytes where
  "demo_table = replicate 32 0 @ le_bytes 8 3 @ le_bytes 8 100 @ replicate 464 0"

definition demo_disk :: bytes where
  "demo_disk = replicate 512 0 @ demo_header @ demo_table"

definition demo_entry :: GPTentry where
  "demo_entry = decode_entry demo_table"

lemma demo_entry_LBA: "sLBA demo_entry = 3" "eLBA demo_entry = 100" "ename demo_entry = replicate 72 0"
  by (simp_all add: demo_entry_def decode_entry_def demo_table_def rd_u64_def le_nat_le_bytes GPTeNAMESIZE_def)

lemma demo_named: "names_partition demo_disk (replicate 36 0) demo_entry"
proof -
  have len: "length demo_header = 512" "length demo_table = 512"
    by (simp_all add: demo_header_def demo_table_def str_bytes_def)
  have "readblocks E0 demo_disk GPT_LBA (of_nat sizeof_miniGPT) = Some demo_header"
    using len by (simp add: readblocks_default gpt_defs rounded_default file_read_def demo_disk_def)
  moreover have g: "partEntryLoc (decode_gpt demo_header) = 2" "nPartEntries (decode_gpt demo_header) = 1"
    by (simp_all add: decode_gpt_def demo_header_def rd_u64_def rd_u32_def le_nat_le_bytes str_bytes_def)
  moreover have "take 8 demo_header = str_bytes ''EFI PART''" by (simp add: demo_header_def str_bytes_def)
  moreover have r: "rounded E0 128 = 512" by (simp add: rounded_def)
  then have "gpt_entries E0 demo_disk (decode_gpt demo_header) = Some ([] @ demo_entry # [])"
    using len g by (simp add: gpt_entries_def readblocks_default gpt_defs file_read_def demo_disk_def demo_entry_def)
  moreover have "name_bytes (replicate n 0) = replicate (2 * n) 0" for n
    by (induction n) (simp_all add: name_bytes_def numeral_2_eq_2)
  from this [of 36] have "name_bytes (replicate 36 0) = replicate 72 0" by simp
  ultimately show ?thesis
    unfolding names_partition_def lists_partition_def using r
    by (intro exI [of _ "[]"] conjI exI [of _ demo_header]) (auto simp: demo_entry_LBA GPTeNAMESIZE_def)
qed

theorem format_then_mount_witness:
  "\<exists>img' r. formatpart demo_disk (replicate 36 0) 64 1 1 0 = Some img' \<and> fmount 35 img' = Some (Some r)
     \<and> loc r = 3 \<and> unat (nClusterItems r) = 1"
proof -
  have "format_fits (to_part demo_entry) 64 1"
    by (simp add: format_fits_def map_sectors_def to_part_def demo_entry_LBA)
  moreover have "map_sectors (to_part demo_entry) 64 1 = 30"
    by (simp add: map_sectors_def to_part_def demo_entry_LBA)
  ultimately show ?thesis
    using format_then_mount [OF demo_named, of 64 1 35 1 0] by (auto simp: demo_entry_LBA clears_name_def GPTeNAMESIZE_def)
qed

text \<open>The packed records of the root and of a map entry survive being written and read back.\<close>

theorem disk_records_round_trip:
  "(length (signature r) = 16 \<longrightarrow> length (encode_fsroot r) = 60 \<and> decode_fsroot (encode_fsroot r @ rest) = r)
   \<and> length (encode_fsblock f) = 20 \<and> decode_fsblock (encode_fsblock f @ rest) = f"
  using length_encode_fsroot [of r] decode_encode_fsroot [of r rest] decode_encode_fsblock [of f rest]
  by (simp add: sizeof_fsroot_def encode_fsblock_def)

theorem disk_records_round_trip_witness:
  "decode_fsroot (encode_fsroot (format_root (to_part demo_entry) 64 1 1 0)) = format_root (to_part demo_entry) 64 1 1 0"
  using disk_records_round_trip [of "format_root (to_part demo_entry) 64 1 1 0" "[]"]
  by (simp add: format_root_def length_FRATSIG)

end
