(* ===== verification/Frat_Tools.thy ===== *)
theory Frat_Tools
  imports Kernel_String
begin

text \<open>
  The helpers of the file system tools, \<^verbatim>\<open>tools/filesystem/tools.c\<close>: character search, path
  hashing, console input, the tokenizer of the command shell, partition names and substring
  replacement.  The BLAKE2b digest is a parameter: the two 64-bit words of a 16-byte digest.
  Memory allocation succeeds.
\<close>

section \<open>Character search and path codes\<close>

fun strcheck :: "string \<Rightarrow> char \<Rightarrow> bool" where
  "strcheck [] c = False"
| "strcheck (d # s) c = (if d = c then True else strcheck s c)"

fun strchecki_from :: "nat \<Rightarrow> string \<Rightarrow> char \<Rightarrow> int" where
  "strchecki_from cc [] c = -1"
| "strchecki_from cc (d # s) c = (if c = d then int cc else strchecki_from (Suc cc) s c)"

definition strchecki :: "string \<Rightarrow> char \<Rightarrow> int" where
  "strchecki s c = strchecki_from 0 s c"

definition PATHSEP :: char where "PATHSEP = CHR ''/''"
definition PATHnoSEP :: char where "PATHnoSEP = CHR 0x5C"

definition canonical_path :: "string \<Rightarrow> string" where
  "canonical_path s = map (\<lambda>c. if c = PATHnoSEP then PATHSEP else c) s"

definition getfcode :: "(string \<Rightarrow> u64 \<times> u64) \<Rightarrow> string \<Rightarrow> u64 \<times> u64" where
  "getfcode blake2b s =
    (case blake2b (canonical_path s) of (h0, h1) \<Rightarrow> (h0, h1 AND (- 1 AND NOT (push_bit 48 0xFFFF))))"

section \<open>Console input\<close>

text \<open>
  Standard input is the list of characters still to come; its end is the end of file.  The first
  component of the result is the line read, \<open>None\<close> for the null pointer that reports the end of
  file, the second the remaining input.  A line is consumed together with its end character.
\<close>

definition end_of_line :: "char \<Rightarrow> bool" where
  "end_of_line c = (c = CHR 0x0A \<or> c = CHR 0x0D)"

fun readbuf_fixed :: "nat \<Rightarrow> string \<Rightarrow> string \<Rightarrow> string option \<times> string" where
  "readbuf_fixed s out inp =
    (if length out < s then
       (case inp of
          [] \<Rightarrow> (if out = [] then None else Some out, [])
        | c # rest \<Rightarrow> if end_of_line c then (Some out, rest) else readbuf_fixed s (out @ [c]) rest)
     else (Some out, inp))"

text \<open>The capacity doubles whenever the next character and the terminator would not fit.\<close>

fun readbuf_dynamic :: "nat \<Rightarrow> string \<Rightarrow> string \<Rightarrow> string option \<times> nat \<times> string" where
  "readbuf_dynamic cap out [] = (if out = [] then None else Some out, cap, [])"
| "readbuf_dynamic cap out (c # rest) =
    (if end_of_line c then (Some out, cap, rest)
     else readbuf_dynamic (if length out + 1 \<ge> cap then cap * 2 else cap) (out @ [c]) rest)"

definition readbuf :: "u64 \<Rightarrow> string \<Rightarrow> string option \<times> string" where
  "readbuf s inp =
    (if s > 0 then readbuf_fixed (unat s) [] inp
     else (case readbuf_dynamic 32 [] inp of (r, cap, rest) \<Rightarrow> (r, rest)))"

section \<open>The tokenizer\<close>

definition strtok__ForceSameBorderingDelims :: u32 where "strtok__ForceSameBorderingDelims = 0x1"
definition strtok__ForceDifferentBorderingDelims :: u32 where "strtok__ForceDifferentBorderingDelims = 0x2"
definition strtok__ForceStartingDelim :: u32 where "strtok__ForceStartingDelim = 0x80000000"
definition strtok__ForceEndingDelim :: u32 where "strtok__ForceEndingDelim = 0x00002000"

lemmas strtok_flag_defs = strtok__ForceSameBorderingDelims_def strtok__ForceDifferentBorderingDelims_def
  strtok__ForceStartingDelim_def strtok__ForceEndingDelim_def

text \<open>
  The state owns a duplicate of the input, which the tokenizer cuts by overwriting delimiters
  with NUL; pointers into it are offsets.
\<close>

record strtok_t =
  dup :: string
  tok :: "nat option"
  delims :: string
  sdelim :: char
  edelim :: char
  flags :: u32

definition char_at :: "string \<Rightarrow> nat \<Rightarrow> char" where
  "char_at b i = (if i < length b then b ! i else NUL)"

text \<open>\<open>None\<close> is the null pointer for contradictory flags; the empty input would be read at -1.\<close>

definition strtok_i :: "string \<Rightarrow> string \<Rightarrow> u32 \<Rightarrow> strtok_t option" where
  "strtok_i inp dl enables =
    (if (flag_check enables strtok__ForceSameBorderingDelims
          \<or> flag_check enables strtok__ForceDifferentBorderingDelims)
        \<and> (flag_check enables strtok__ForceEndingDelim \<or> flag_check enables strtok__ForceStartingDelim)
     then None
     else if flag_check enables strtok__ForceSameBorderingDelims
        \<and> flag_check enables strtok__ForceDifferentBorderingDelims then None
     else Some \<lparr>dup = inp, tok = None, delims = dl, sdelim = char_at inp 0,
                edelim = char_at inp (length inp - 1), flags = enables\<rparr>)"

function strspn :: "string \<Rightarrow> string \<Rightarrow> nat \<Rightarrow> nat" where
  "strspn b dl s =
    (if char_at b s \<noteq> NUL \<and> char_at b (s + 1) \<noteq> NUL \<and> \<not> strcheck dl (char_at b s)
     then strspn b dl (s + 1) else s)"
  by pat_completeness auto
termination
  by (relation "measure (\<lambda>(b, dl, s). length b - s)") (auto simp: char_at_def split: if_splits)

function nstrspn :: "string \<Rightarrow> string \<Rightarrow> nat \<Rightarrow> nat" where
  "nstrspn b dl s =
    (if char_at b s \<noteq> NUL \<and> char_at b (s + 1) \<noteq> NUL \<and> strcheck dl (char_at b s)
     then nstrspn b dl (s + 1) else s)"
  by pat_completeness auto
termination
  by (relation "measure (\<lambda>(b, dl, s). length b - s)") (auto simp: char_at_def split: if_splits)

declare strspn.simps [simp del] nstrspn.simps [simp del]

lemma strspn_ge: "s \<le> strspn b dl s"
  by (induction b dl s rule: strspn.induct) (subst strspn.simps, auto)

lemma nstrspn_ge: "s \<le> nstrspn b dl s"
  by (induction b dl s rule: nstrspn.induct) (subst nstrspn.simps, auto)

lemma char_at_less: "char_at b i \<noteq> NUL \<Longrightarrow> i < length b"
  by (auto simp: char_at_def split: if_splits)

definition char_or :: "char \<Rightarrow> u8 \<Rightarrow> char" where
  "char_or c w = char_of (unat ((of_char c :: u8) OR w))"

text \<open>
  One pass of \<open>strtok_k\<close>: \<open>Inl\<close> is a return with the new state and the offset of the token,
  \<open>Inr\<close> the state with which the source calls itself again, after one of the two flags on
  bordering delimiters made it skip a token.
\<close>

definition strtok_pass :: "strtok_t \<Rightarrow> (strtok_t \<times> nat option) + strtok_t" where
  "strtok_pass st =
    (if edelim st = NUL \<or> sdelim st = NUL then Inl (st, None)
     else
       let start = nstrspn (dup st) (delims st) (case tok st of None \<Rightarrow> 0 | Some t \<Rightarrow> t);
           s = (if strcheck (delims st) (char_at (dup st) start) then start
                else strspn (dup st) (delims st) start);
           sdel = char_at (dup st) s;
           nxt = strspn (dup st) (delims st) s;
           same = (flag_check (flags st) strtok__ForceSameBorderingDelims \<and> char_at (dup st) nxt \<noteq> NUL);
           edel = (if same then char_at (dup st) nxt else NUL)
       in if char_at (dup st) start = NUL then Inl (st\<lparr>tok := None\<rparr>, None)
       else if sdel = NUL then Inl (st\<lparr>sdelim := NUL, edelim := NUL, tok := None\<rparr>, Some start)
       else if same \<and> edel \<noteq> sdel then Inr (st\<lparr>tok := Some (nxt + 1)\<rparr>)
       else if flags st AND strtok__ForceDifferentBorderingDelims \<noteq> 0 \<and> sdel = edel
         then Inr (st\<lparr>tok := Some (s + 1)\<rparr>)
       else
         Inl (st\<lparr>sdelim := (if flags st AND strtok__ForceStartingDelim \<noteq> 0
                           then char_or sdel (ucast (drop_bit 24 strtok__ForceStartingDelim)) else sdel),
                 edelim := (if flags st AND strtok__ForceEndingDelim \<noteq> 0
                           then char_or edel (ucast (strtok__ForceEndingDelim AND 0xFF)) else edel),
                 dup := (dup st)[s := NUL], tok := Some (s + 1)\<rparr>, Some start))"

lemma strtok_pass_advances:
  assumes "strtok_pass st = Inr st'"
  shows "length (dup st') - (case tok st' of None \<Rightarrow> 0 | Some t \<Rightarrow> t)
    < length (dup st) - (case tok st of None \<Rightarrow> 0 | Some t \<Rightarrow> t)"
proof -
  let ?t = "case tok st of None \<Rightarrow> 0 | Some t \<Rightarrow> t"
  let ?start = "nstrspn (dup st) (delims st) ?t"
  let ?s = "if strcheck (delims st) (char_at (dup st) ?start) then ?start
            else strspn (dup st) (delims st) ?start"
  have "?t \<le> ?start" "?start \<le> ?s" "?s \<le> strspn (dup st) (delims st) ?s"
    using nstrspn_ge strspn_ge by auto
  moreover have "dup st' = dup st"
    "(\<exists>n. tok st' = Some (n + 1) \<and> ?s \<le> n \<and> char_at (dup st) n \<noteq> NUL)"
    using assms strspn_ge [of ?s "dup st" "delims st"]
    by (auto simp: strtok_pass_def Let_def split: if_splits)
  ultimately show ?thesis using char_at_less by fastforce
qed

function strtok_k :: "strtok_t \<Rightarrow> strtok_t \<times> nat option" where
  "strtok_k st = (case strtok_pass st of Inl r \<Rightarrow> r | Inr st' \<Rightarrow> strtok_k st')"
  by pat_completeness auto
termination
  by (relation "measure (\<lambda>st. length (dup st) - (case tok st of None \<Rightarrow> 0 | Some t \<Rightarrow> t))")
    (auto dest: strtok_pass_advances)

declare strtok_k.simps [simp del]

definition token_at :: "string \<Rightarrow> nat \<Rightarrow> string" where
  "token_at b i = takeWhile (\<lambda>c. c \<noteq> NUL) (drop i b)"

definition strtok_ff :: "strtok_t \<Rightarrow> nat option" where
  "strtok_ff st =
    (case tok st of None \<Rightarrow> None | Some t \<Rightarrow> if char_at (dup st) t = NUL then None else Some t)"

section \<open>Names, patterns and replacement\<close>

definition tolower :: "char \<Rightarrow> char" where
  "tolower c = (let v = of_char c :: nat in if 65 \<le> v \<and> v \<le> 90 then char_of (v + 32) else c)"

definition str_tolower :: "string \<Rightarrow> string" where
  "str_tolower s = map (\<lambda>c. if isdigit c then c else tolower c) s"

text \<open>The matcher of the tools is the one of the kernel, line by line.\<close>

definition tools_pattmatch :: "string \<Rightarrow> string \<Rightarrow> bool" where
  "tools_pattmatch pattern str = match_rec (unescape pattern) str"

definition GPTeNAMELEN :: nat where "GPTeNAMELEN = 36"

text \<open>A name of 36 characters of 16 bits; the signed characters are sign-extended.\<close>

definition makeGPTeNSTR :: "string \<Rightarrow> u16 list" where
  "makeGPTeNSTR str =
    map (\<lambda>cc. if cc < c_min (length str) GPTeNAMELEN then scast (of_char (str ! cc) :: u8) else 0)
      [0..<GPTeNAMELEN]"

definition strstr :: "string \<Rightarrow> string \<Rightarrow> nat option" where
  "strstr s old =
    (if length old \<le> length s
     then List.find (\<lambda>i. take (length old) (drop i s) = old) [0..<Suc (length s - length old)]
     else None)"

lemma strstr_Some:
  assumes "strstr s old = Some i"
  shows "i + length old \<le> length s" "take (length old) (drop i s) = old"
    "s = take i s @ old @ drop (i + length old) s"
proof -
  show 1: "i + length old \<le> length s" and 2: "take (length old) (drop i s) = old"
    using assms by (auto simp: strstr_def find_Some_iff simp del: upt_Suc split: if_splits)
  have "s = take i s @ take (length old) (drop i s) @ drop (length old) (drop i s)"
    by (simp only: append_take_drop_id)
  with 2 show "s = take i s @ old @ drop (i + length old) s" by (simp add: drop_drop add.commute)
qed

lemma strstr_shorter:
  "strstr s old = Some i \<Longrightarrow> old \<noteq> [] \<Longrightarrow> length s - (i + length old) < length s"
  using strstr_Some(1) [of s old i] by (cases old) auto

function count_occurrences :: "string \<Rightarrow> string \<Rightarrow> nat" where
  "count_occurrences old p =
    (if old = [] then 0
     else case strstr p old of
            None \<Rightarrow> 0
          | Some i \<Rightarrow> Suc (count_occurrences old (drop (i + length old) p)))"
  by pat_completeness auto
termination
  by (relation "measure (length \<circ> snd)") (auto dest: strstr_shorter)

function replace_loop :: "string \<Rightarrow> string \<Rightarrow> string \<Rightarrow> string" where
  "replace_loop old newstr inp =
    (if old = [] then inp
     else case strstr inp old of
            None \<Rightarrow> inp
          | Some i \<Rightarrow> take i inp @ newstr @ replace_loop old newstr (drop (i + length old) inp))"
  by pat_completeness auto
termination
  by (relation "measure (length \<circ> snd \<circ> snd)") (auto dest: strstr_shorter)

declare count_occurrences.simps [simp del] replace_loop.simps [simp del]

text \<open>
  The outer option is \<open>None\<close> when the copy loop and the terminator would run past the buffer
  that was allocated from the counted occurrences, the inner one is the null pointer.
\<close>

definition str_replace :: "string \<Rightarrow> string \<Rightarrow> string \<Rightarrow> string option option" where
  "str_replace str old newstr =
    (if old = [] then Some None
     else let cnt = count_occurrences old str in
       if cnt = 0 then Some (Some str)
       else let new_len = of_nat (length str) + of_nat cnt * (of_nat (length newstr) - of_nat (length old)) :: u64;
                result = replace_loop old newstr str
            in if length result + 1 \<le> unat (new_len + 1) then Some (Some result) else None)"

section \<open>Facts\<close>

lemma strcheck_set [simp]: "strcheck s c \<longleftrightarrow> c \<in> set s"
  by (induction s) auto

lemma length_replace_loop:
  assumes "old \<noteq> []"
  shows "length (replace_loop old newstr s) + count_occurrences old s * length old
    = length s + count_occurrences old s * length newstr"
  using assms
proof (induction old newstr s rule: replace_loop.induct)
  case (1 old newstr s)
  show ?case
  proof (cases "strstr s old")
    case None
    then show ?thesis
      using 1(2) replace_loop.simps [of old newstr s] count_occurrences.simps [of old s] by simp
  next
    case (Some i)
    let ?s' = "drop (i + length old) s"
    have s: "length s = i + length old + length ?s'" using strstr_Some(1) [OF Some] by simp
    have c: "count_occurrences old s = Suc (count_occurrences old ?s')"
      using Some 1(2) count_occurrences.simps [of old s] by simp
    have r: "length (replace_loop old newstr s) = i + length newstr + length (replace_loop old newstr ?s')"
      using Some 1(2) strstr_Some(1) [OF Some] replace_loop.simps [of old newstr s] by simp
    note ih = 1(1) [OF 1(2) Some 1(2)]
    show ?thesis unfolding c r mult_Suc s using ih by linarith
  qed
qed

lemma replace_loop_self: "replace_loop old old s = s"
proof (induction s rule: length_induct)
  case (1 s)
  show ?case
  proof (cases "old = [] \<or> strstr s old = None")
    case True
    then show ?thesis by (subst replace_loop.simps) (auto split: option.splits)
  next
    case False
    then obtain i where i: "strstr s old = Some i" and o: "old \<noteq> []" by auto
    have "replace_loop old old (drop (i + length old) s) = drop (i + length old) s"
      using 1 strstr_shorter [OF i o] by simp
    with i o show ?thesis by (subst replace_loop.simps) (simp add: strstr_Some(3) [OF i, symmetric])
  qed
qed

lemma new_len_exact:
  assumes "old \<noteq> []" and "length s + count_occurrences old s * length newstr < 2 ^ 64 - 1"
  shows "unat (of_nat (length s)
      + of_nat (count_occurrences old s) * (of_nat (length newstr) - of_nat (length old)) + 1 :: u64)
    = length (replace_loop old newstr s) + 1"
proof -
  let ?c = "count_occurrences old s" and ?r = "length (replace_loop old newstr s)"
  note len = length_replace_loop [OF assms(1), of newstr s]
  have "(of_nat ?r :: u64) + of_nat ?c * of_nat (length old) = of_nat (length s) + of_nat ?c * of_nat (length newstr)"
    using arg_cong [OF len, of "of_nat :: nat \<Rightarrow> u64"] by simp
  then have "of_nat (length s) + of_nat ?c * (of_nat (length newstr) - of_nat (length old)) + 1
      = (of_nat (?r + 1) :: u64)"
    by (simp add: algebra_simps)
  moreover have "?r + 1 < 2 ^ 64" using len assms(2) by linarith
  ultimately show ?thesis by (simp only: unat_of_nat) simp
qed

lemma strspn_prefix:
  assumes "drop t b = w @ rest" and "set w \<inter> set dl = {}" and "NUL \<notin> set w" and "w \<noteq> []"
    and "rest \<noteq> [] \<longrightarrow> hd rest \<in> set dl \<and> hd rest \<noteq> NUL"
  shows "strspn b dl t = t + length w - (if rest = [] then 1 else 0)"
  using assms
proof (induction w arbitrary: t)
  case Nil
  then show ?case by simp
next
  case (Cons c w)
  have t: "t < length b" using Cons.prems(1) by (metis drop_all append_Cons list.distinct(1) not_less)
  have c: "char_at b t = c" using Cons.prems(1) t by (simp add: char_at_def flip: hd_drop_conv_nth)
  have d: "drop (t + 1) b = w @ rest" using Cons.prems(1) by (metis Suc_eq_plus1 append_Cons drop_Suc list.sel(3) tl_drop)
  show ?case
  proof (cases "w = []")
    case False
    then have "char_at b (t + 1) = hd w"
      using d by (metis append_is_Nil_conv char_at_def drop_eq_Nil hd_append2 hd_drop_conv_nth not_less)
    with False Cons.prems(3) have "char_at b (t + 1) \<noteq> NUL" by (metis hd_in_set insertCI list.simps(15))
    then have "strspn b dl t = strspn b dl (t + 1)"
      using c Cons.prems(2,3) by (subst strspn.simps) auto
    also have "\<dots> = t + 1 + length w - (if rest = [] then 1 else 0)"
      using Cons.IH [OF d] Cons.prems(2,3,5) False by auto
    finally show ?thesis by simp
  next
    case True
    show ?thesis
    proof (cases rest)
      case Nil
      then have "char_at b (t + 1) = NUL" using d True by (auto simp: char_at_def)
      then show ?thesis using True Nil by (subst strspn.simps) auto
    next
      case (Cons e r)
      then have e: "char_at b (t + 1) = e" using d True
        by (metis append_Nil char_at_def drop_eq_Nil hd_drop_conv_nth list.distinct(1) list.sel(1) not_less)
      then have "strspn b dl (t + 1) = t + 1"
        using Cons.prems(5) Cons by (subst strspn.simps) auto
      moreover have "strspn b dl t = strspn b dl (t + 1)"
        using c e Cons Cons.prems(2,3,5) by (subst strspn.simps) auto
      ultimately show ?thesis using True Cons by simp
    qed
  qed
qed

lemma char_at_drop:
  assumes "drop t b = w @ rest" and "i < length (w @ rest)"
  shows "char_at b (t + i) = (w @ rest) ! i"
proof -
  have "length b - t = length (w @ rest)" using arg_cong [OF assms(1), of length] by simp
  then have "t + i < length b" using assms(2) by linarith
  then show ?thesis using nth_drop [of t b i] assms(1) by (simp add: char_at_def)
qed

lemma strtok_pass_word:
  assumes "flags st = strtok__ForceSameBorderingDelims" "sdelim st \<noteq> NUL" "edelim st \<noteq> NUL"
    and t: "t = (case tok st of None \<Rightarrow> 0 | Some t \<Rightarrow> t)" and d: "drop t (dup st) = w @ rest"
    and w: "w \<noteq> []" "NUL \<notin> set w" "set w \<inter> set (delims st) = {}"
    and r: "rest \<noteq> [] \<longrightarrow> hd rest \<in> set (delims st) \<and> hd rest \<noteq> NUL"
    and s: "s = t + length w - (if rest = [] then 1 else 0)"
  shows "strtok_pass st = Inl (st\<lparr>sdelim := char_at (dup st) s, edelim := char_at (dup st) s,
           dup := (dup st)[s := NUL], tok := Some (s + 1)\<rparr>, Some t)"
    and "char_at (dup st) s \<noteq> NUL"
proof -
  have c0: "char_at (dup st) t = hd w"
    using char_at_drop [OF d, of 0] w(1) by (simp add: nth_append hd_conv_nth)
  have hw: "hd w \<in> set w" using w(1) by simp
  have n: "nstrspn (dup st) (delims st) t = t"
    using c0 hw w(3) by (subst nstrspn.simps) auto
  have sp: "strspn (dup st) (delims st) t = s"
    using strspn_prefix [OF d w(3,2,1) r] s by simp
  have cs: "char_at (dup st) s = (if rest = [] then last w else hd rest)"
  proof (cases "rest = []")
    case True
    have "char_at (dup st) (t + (length w - 1)) = (w @ rest) ! (length w - 1)"
      using w(1) by (intro char_at_drop [OF d]) (cases w, auto)
    moreover have "s = t + (length w - 1)" using True s w(1) by (cases w) auto
    ultimately show ?thesis using True w(1) by (simp add: last_conv_nth nth_append)
  next
    case False
    have "char_at (dup st) (t + length w) = (w @ rest) ! length w"
      using False by (intro char_at_drop [OF d]) simp
    with False s show ?thesis by (simp add: nth_append hd_conv_nth)
  qed
  show nz: "char_at (dup st) s \<noteq> NUL" using cs r w(2) last_in_set [OF w(1)] by (auto split: if_splits)
  have nx: "strspn (dup st) (delims st) s = s"
  proof (cases "rest = []")
    case True
    then have "length (dup st) = s + 1" using arg_cong [OF d, of length] s w(1) by (cases w) auto
    then show ?thesis by (subst strspn.simps) (simp add: char_at_def)
  next
    case False
    with cs r show ?thesis by (subst strspn.simps) simp
  qed
  have "\<not> strcheck (delims st) (hd w)" using hw w(3) by auto
  moreover have "hd w \<noteq> NUL" using hw w(2) by auto
  ultimately show "strtok_pass st = Inl (st\<lparr>sdelim := char_at (dup st) s, edelim := char_at (dup st) s,
           dup := (dup st)[s := NUL], tok := Some (s + 1)\<rparr>, Some t)"
    unfolding strtok_pass_def t [symmetric] n Let_def c0
    using assms(1-3) nz by (simp add: sp nx strtok_flag_defs flag_check_def)
qed

lemma token_at_cut:
  assumes "drop t b = w @ rest" "w \<noteq> []" "NUL \<notin> set w"
    and s: "s = t + length w - (if rest = [] then 1 else 0)"
  shows "token_at (b[s := NUL]) t = (if rest = [] then butlast w else w)"
    and "drop (t + length w + 1) (b[s := NUL]) = tl rest"
proof -
  let ?k = "length w - (if rest = [] then 1 else 0)"
  have s': "s = t + ?k" using assms(2) s by (cases w) auto
  have d: "drop t (b[s := NUL]) = (w @ rest)[?k := NUL]"
    using assms(1) s' by (simp add: drop_update_swap)
  have k: "?k < length (w @ rest)" using assms(2) by auto
  have "(w @ rest)[?k := NUL] = take ?k w @ NUL # drop (Suc ?k) (w @ rest)"
    by (subst upd_conv_take_nth_drop [OF k]) simp
  moreover have "takeWhile (\<lambda>c. c \<noteq> NUL) (take ?k w @ NUL # drop (Suc ?k) (w @ rest)) = take ?k w"
    using assms(3) by (subst takeWhile_append2) (auto dest: in_set_takeD)
  ultimately show "token_at (b[s := NUL]) t = (if rest = [] then butlast w else w)"
    using d by (simp add: token_at_def butlast_conv_take)
  have "drop (t + length w + 1) b = drop (length w + 1) (drop t b)" by (simp add: add.commute)
  then have "drop (t + length w + 1) b = tl rest" using assms(1) by (simp add: drop_Suc)
  then show "drop (t + length w + 1) (b[s := NUL]) = tl rest" using s' by simp
qed

section \<open>Properties\<close>

text \<open>In the mode of the command shell a word is cut at the delimiter behind it, but a word at
  the end of the input loses its last character: the delimiter search stops at the last character
  and the tokenizer overwrites it.\<close>

theorem strtok_k_word:
  assumes "flags st = strtok__ForceSameBorderingDelims" "sdelim st \<noteq> NUL" "edelim st \<noteq> NUL"
    and "drop (case tok st of None \<Rightarrow> 0 | Some t \<Rightarrow> t) (dup st) = w @ rest"
    and "w \<noteq> []" "NUL \<notin> set w" "set w \<inter> set (delims st) = {}"
    and "rest \<noteq> [] \<longrightarrow> hd rest \<in> set (delims st) \<and> hd rest \<noteq> NUL"
  shows "\<exists>st' t. strtok_k st = (st', Some t)
    \<and> token_at (dup st') t = (if rest = [] then butlast w else w)
    \<and> tok st' = Some (t + length w + (if rest = [] then 0 else 1))
    \<and> drop (t + length w + 1) (dup st') = tl rest
    \<and> sdelim st' \<noteq> NUL \<and> edelim st' \<noteq> NUL \<and> delims st' = delims st \<and> flags st' = flags st"
proof -
  define t where "t = (case tok st of None \<Rightarrow> 0 | Some t \<Rightarrow> t)"
  define s where "s = t + length w - (if rest = [] then 1 else 0)"
  note d = assms(4) [folded t_def]
  note p = strtok_pass_word [OF assms(1-3) t_def d assms(5-8) s_def]
  have "s + 1 = t + length w + (if rest = [] then 0 else 1)" using s_def assms(5) by (cases w) auto
  then show ?thesis
    using p token_at_cut [OF d assms(5,6) s_def] by (intro exI [of _ "st\<lparr>sdelim := char_at (dup st) s,
      edelim := char_at (dup st) s, dup := (dup st)[s := NUL], tok := Some (s + 1)\<rparr>"] exI [of _ t])
      (simp add: strtok_k.simps [of st])
qed

theorem strtok_k_word_witness:
  "\<exists>st st' t. strtok_i ''help'' '' '' strtok__ForceSameBorderingDelims = Some st
     \<and> strtok_k st = (st', Some t) \<and> token_at (dup st') t = ''hel''"
  using strtok_k_word [of "\<lparr>dup = ''help'', tok = None, delims = '' '', sdelim = CHR ''h'',
    edelim = CHR ''p'', flags = strtok__ForceSameBorderingDelims\<rparr>" "''help''" "[]"]
  by (auto simp: strtok_i_def strtok_flag_defs flag_check_def char_at_def NUL_def)

text \<open>Without the flag for equal bordering delimiters, as for the version string of a format
  command, the tokenizer delivers one token only: it records NUL as the closing delimiter, and
  the next call takes that for the end.\<close>

theorem strtok_k_single_token:
  assumes "flags st = 0" and "strtok_k st = (st1, Some i)"
  shows "strtok_k st1 = (st1, None)"
proof -
  have "strtok_pass st = Inl (st1, Some i)"
    using assms by (subst (asm) strtok_k.simps)
      (auto simp: strtok_pass_def Let_def flag_check_def strtok_flag_defs split: if_splits)
  then have "edelim st1 = NUL"
    using assms(1) by (auto simp: strtok_pass_def Let_def flag_check_def strtok_flag_defs split: if_splits)
  then show ?thesis by (subst strtok_k.simps) (simp add: strtok_pass_def)
qed

theorem strtok_k_single_token_witness:
  "\<exists>st st1. strtok_i ''1:0'' '' :'' 0 = Some st \<and> strtok_k st = (st1, Some 0)
     \<and> token_at (dup st1) 0 = ''1'' \<and> strtok_k st1 = (st1, None)"
proof -
  let ?st = "\<lparr>dup = ''1:0'', tok = None, delims = '' :'', sdelim = CHR ''1'', edelim = CHR ''0'', flags = 0\<rparr>"
  let ?st1 = "\<lparr>dup = [CHR ''1'', NUL, CHR ''0''], tok = Some 2, delims = '' :'', sdelim = CHR '':'', edelim = NUL, flags = 0\<rparr>"
  have k: "strtok_k ?st = (?st1, Some 0)"
    by (simp add: strtok_k.simps [of ?st] strtok_pass_def Let_def nstrspn.simps strspn.simps
        char_at_def NUL_def flag_check_def strtok_flag_defs)
  then have "strtok_k ?st1 = (?st1, None)" using strtok_k_single_token [of ?st ?st1 0] by simp
  with k show ?thesis
    by (intro exI [of _ ?st] exI [of _ ?st1])
      (simp add: strtok_i_def strtok_flag_defs flag_check_def char_at_def token_at_def NUL_def)
qed

text \<open>Substring replacement never writes past the buffer it allocates: the length computed from
  the counted occurrences, in wrapping 64-bit arithmetic, is the length of the result, also when
  the new text is shorter than the old one; replacing a text by itself changes nothing.\<close>

theorem str_replace_exact:
  assumes "old \<noteq> []" and "length s + count_occurrences old s * length newstr < 2 ^ 64 - 1"
  shows "str_replace s old newstr = Some (Some (replace_loop old newstr s))
    \<and> int (length (replace_loop old newstr s))
        = int (length s) + int (count_occurrences old s) * (int (length newstr) - int (length old))
    \<and> replace_loop old old s = s"
proof -
  have "replace_loop old newstr s = s" if "count_occurrences old s = 0"
    using that assms(1) by (subst (asm) count_occurrences.simps, subst replace_loop.simps)
      (auto split: option.splits)
  then have "str_replace s old newstr = Some (Some (replace_loop old newstr s))"
    using assms new_len_exact [OF assms] by (auto simp: str_replace_def Let_def)
  moreover have "int (length (replace_loop old newstr s)) + int (count_occurrences old s) * int (length old)
      = int (length s) + int (count_occurrences old s) * int (length newstr)"
    using arg_cong [OF length_replace_loop [OF assms(1), of newstr s], of int] by simp
  ultimately show ?thesis by (simp add: replace_loop_self right_diff_distrib)
qed

theorem str_replace_exact_witness: "\<exists>r. str_replace ''a/b/c'' ''/'' [] = Some (Some r)"
proof -
  have "strstr ''a/b/c'' ''/'' = Some 1" "strstr ''b/c'' ''/'' = Some 1" "strstr ''c'' ''/'' = None"
    by (simp_all add: strstr_def upt_rec)
  then have "count_occurrences ''/'' ''a/b/c'' = 2" by (simp add: count_occurrences.simps)
  then show ?thesis using str_replace_exact [of "''/''" "''a/b/c''" "[]"] by simp
qed

end
