(* ===== verification/Frat_Dir.thy ===== *)
theory Frat_Dir
  imports Frat_File Frat_Mount Frat_Tools
begin

text \<open>
  Directories of the FRAT tools: creating files, opening and flushing directories, listing and
  the recursive walk of \<^verbatim>\<open>tools/filesystem/frat.c\<close>.  A directory handle keeps the bytes of the
  loaded directory blocks, an array of 28-byte items; the empty list is the null pointer.  The
  outer \<open>None\<close> of an operation is an access outside a buffer, a null dereference or a loop that
  does not end.  Path codes and the local time are parameters, as in the file theories; paths are
  shorter than \<open>2 ^ 32\<close> characters.
\<close>

section \<open>Directory items\<close>

record dirhandle =
  dpath :: string
  dfile :: nat
  loadedblocks :: u64
  dirarray :: bytes

definition sizeof_diritem :: nat where "sizeof_diritem = 28"

definition item_in :: "bytes \<Rightarrow> nat \<Rightarrow> bool" where
  "item_in arr cc = (sizeof_diritem * cc + sizeof_diritem \<le> length arr)"

definition item_f :: "bytes \<Rightarrow> nat \<Rightarrow> fsblock" where
  "item_f arr cc = decode_fsblock (drop (sizeof_diritem * cc) arr)"

definition item_local :: "bytes \<Rightarrow> nat \<Rightarrow> u64" where
  "item_local arr cc = rd_u64 arr (sizeof_diritem * cc + sizeof_fsblock)"

definition set_item_f :: "nat \<Rightarrow> fsblock \<Rightarrow> bytes \<Rightarrow> bytes" where
  "set_item_f cc f arr = patch (sizeof_diritem * cc) (encode_fsblock f) arr"

definition set_item_local :: "nat \<Rightarrow> u64 \<Rightarrow> bytes \<Rightarrow> bytes" where
  "set_item_local cc v arr = patch (sizeof_diritem * cc + sizeof_fsblock) (le_bytes 8 (unat v)) arr"

section \<open>Loading and flushing\<close>

partial_function (option) dirrefresh_loop ::
  "(string \<Rightarrow> u64 \<times> u64) \<Rightarrow> fsys \<Rightarrow> string \<Rightarrow> u64 \<Rightarrow> bytes \<Rightarrow> (bytes \<times> u64) option" where
  "dirrefresh_loop fcode fs path bp arr =
    (case ffindi fcode (mnt fs) path (bp + 1) of
       None \<Rightarrow> Some (arr, bp)
     | Some fb \<Rightarrow>
         (case read_data_block fs fb of
            None \<Rightarrow> None
          | Some temp \<Rightarrow>
              let bs = unat (confBlockSize (root (mnt fs)));
                  arr1 = take (bs * unat bp) arr @ take bs temp
              in if list_ex (\<lambda>cc. item_local arr1 cc = 0) [0..<bs div sizeof_diritem]
                 then Some (arr1, bp + 1)
                 else dirrefresh_loop fcode fs path (bp + 1) arr1))"

definition fdirrefresh :: "(string \<Rightarrow> u64 \<times> u64) \<Rightarrow> fsys \<Rightarrow> dirhandle \<Rightarrow> dirhandle option" where
  "fdirrefresh fcode fs h =
    map_option (\<lambda>(arr, bp). h\<lparr>dirarray := arr, loadedblocks := bp\<rparr>)
      (dirrefresh_loop fcode fs (dpath h) 0 (dirarray h))"

definition encode_map :: "fsblock list \<Rightarrow> bytes" where
  "encode_map m = concat (map encode_fsblock m)"

definition fuloadroot :: "fsys \<Rightarrow> fsys" where
  "fuloadroot fs =
    (let r = mnt fs; re = disk_env r;
         img1 = writeblocks re (encode_fsroot (root r)) (loc r) (of_nat sizeof_fsroot) (disk fs);
         buffer = encode_map (clusterMap r) @ mapTail r
     in fs\<lparr>disk := (if buffer = [] then img1
                    else writeblocks re buffer
                           (loc r + ucast (CLUSTERMAPOFFSET (nLogSectors r) * confBlockSize (root r)))
                           (clusterSize r) img1)\<rparr>)"

partial_function (option) flush_entries :: "u64 \<times> u64 \<Rightarrow> bytes \<Rightarrow> u64 \<Rightarrow> fsys \<Rightarrow> fsys option" where
  "flush_entries code arr ent fs =
    (case ffindhi (mnt fs) code (ent + 1) of
       None \<Rightarrow> Some fs
     | Some f \<Rightarrow>
         let bs = unat (confBlockSize (root (mnt fs)))
         in if arr = [] \<and> ent = 0 then flush_entries code arr (ent + 1) fs
            else if bs * unat ent + bs \<le> length arr
              then flush_entries code arr (ent + 1) (write_data_block f (drop (bs * unat ent) arr) fs)
            else None)"

definition fuloaddir :: "dirhandle \<Rightarrow> fsys \<Rightarrow> fsys option" where
  "fuloaddir h fs = flush_entries (code_of (fb_of fs (dfile h))) (dirarray h) 0 (fuloadroot fs)"

definition fuloadh :: "fhandle \<Rightarrow> fsys \<Rightarrow> fsys" where
  "fuloadh h fs = fuloadroot fs"

definition dsize :: "fsys \<Rightarrow> dirhandle \<Rightarrow> u64 option" where
  "dsize fs h =
    (let conf = ucast (confBlockSize (root (mnt fs))) :: u64;
         n = unat ((loadedblocks h * conf) div of_nat sizeof_diritem)
     in if sizeof_diritem * n \<le> length (dirarray h)
        then Some (sum_list (map (\<lambda>cc. if item_local (dirarray h) cc \<noteq> 0 then conf else 0) [0..<n]))
        else None)"

section \<open>Adding an entry\<close>

text \<open>
  The scan of the loaded items: \<open>Some (Inl arr)\<close> when the entry was stored or updated, \<open>Inr\<close> when
  the loop ends because the counter of the last item wrapped to 0.
\<close>

partial_function (option) diradd_scan :: "fsblock \<Rightarrow> nat \<Rightarrow> bytes \<Rightarrow> (bytes + bytes) option" where
  "diradd_scan fb cc arr =
    (if \<not> item_in arr cc then None
     else
       let f = item_f arr cc in
       if fcodelow f = 0 \<and> fcodehigh f = 0
         then Some (Inl (set_item_local cc 0 (set_item_f cc fb arr)))
       else if fcodelow f = fcodelow fb \<and> fcodehigh f = fcodehigh fb
         then Some (Inl (set_item_f cc (f\<lparr>attributes := attributes fb\<rparr>) arr))
       else
         let arr1 = set_item_local cc (item_local arr cc + 1) arr
         in if item_local arr1 cc \<noteq> 0 then diradd_scan fb (cc + 1) arr1 else Some (Inr arr1))"

partial_function (option) fdiradd ::
  "(string \<Rightarrow> u64 \<times> u64) \<Rightarrow> nat \<Rightarrow> dirhandle \<Rightarrow> fsys \<Rightarrow> (dirhandle \<times> fsys) option" where
  "fdiradd fcode fb h fs =
    (case fdirrefresh fcode fs h of
       None \<Rightarrow> None
     | Some h1 \<Rightarrow>
         if dirarray h1 = [] then fdiradd fcode fb h1 (fst (faddr (dfile h1) fs))
         else
           (case diradd_scan (fb_of fs fb) 0 (dirarray h1) of
              None \<Rightarrow> None
            | Some (Inl arr) \<Rightarrow> Some (h1\<lparr>dirarray := arr\<rparr>, fs)
            | Some (Inr arr) \<Rightarrow> fdiradd fcode fb (h1\<lparr>dirarray := arr\<rparr>) (fst (faddr (dfile h1) fs))))"

section \<open>Creating files\<close>

text \<open>
  The name kept in the metadata is the part of the path from its last separator on, cut at the
  first character that is not ASCII.  In a path of more than 36 characters the source replaces
  the terminator by the character 0, so the following length computation runs off the buffer.
\<close>

definition is_sep :: "char \<Rightarrow> bool" where
  "is_sep c = (c = PATHnoSEP \<or> c = PATHSEP)"

definition last_sep :: "string \<Rightarrow> nat" where
  "last_sep path = (case List.find (\<lambda>i. is_sep (path ! i)) (rev [1..<length path]) of Some i \<Rightarrow> i | None \<Rightarrow> 0)"

definition meta_name :: "string \<Rightarrow> string option" where
  "meta_name path =
    (if length path > GPTeNAMELEN then None
     else Some (takeWhile (\<lambda>c. of_char c < (128 :: nat)) (drop (last_sep path) path)))"

definition FRATBLOCKSIG :: bytes where "FRATBLOCKSIG = str_bytes ''FRATROOT''"

definition encode_meta :: "nat \<times> nat \<Rightarrow> fsblock \<Rightarrow> string \<Rightarrow> bytes" where
  "encode_meta now f name =
    FRATBLOCKSIG @ replicate 8 0 @ encode_fsblock f @ replicate 4 0
    @ le_bytes 8 (fst now) @ replicate 8 0 @ le_bytes 8 (snd now) @ replicate 8 0
    @ str_bytes name @ replicate (440 - length name) 0"

definition finit :: "nat \<times> nat \<Rightarrow> nat \<Rightarrow> string \<Rightarrow> fsys \<Rightarrow> fsys option" where
  "finit now fb path fs =
    (let r = mnt fs; b = fb_of fs fb;
         proxy = flag_check (attributes b) fsproxy;
         f = \<lparr>fcodelow = (if proxy then 0 else fcodelow b), fcodehigh = (if proxy then 0 else fcodehigh b),
              attributes = flag_uset (attributes b) fsmetadatacluster, index = 0\<rparr>
     in if unat (confBlockSize (root r)) < unat sizeof_meta_fsblock then None
        else do {
          name \<leftarrow> meta_name path;
          Some (fs\<lparr>disk := writeblocks (disk_env r) (encode_meta now f name) (getloc r fb)
                     sizeof_meta_fsblock (disk fs)\<rparr>)
        })"

text \<open>The path of the directory that holds a path: everything before the last separator.\<close>

definition parent_path :: "string \<Rightarrow> string option" where
  "parent_path path = (if last_sep path = 0 then None else Some (take (last_sep path) path))"

definition create_attributes :: "string \<Rightarrow> u16 \<Rightarrow> u16" where
  "create_attributes flgs a =
    (let a1 = (if strcheck flgs (CHR ''P'') then a OR fsproxy
               else
                 let a2 = (if strcheck flgs (CHR ''d'') then a OR fsdirectory else a);
                     a3 = (if strcheck flgs (CHR ''f'') \<and> \<not> flag_check a2 fsdirectory then a2 OR fsfile else a2)
                 in if strcheck flgs (CHR ''r'') then a3 OR fsreadonly else a3)
     in a1 OR fsmetadatacluster)"

text \<open>
  Opening a directory creates it when asked to, and creating a file opens its parent directory:
  the two functions of the source call each other along strictly shorter paths.  The first
  argument of \<open>fcreate_n\<close> bounds the depth of these calls; the depth \<open>Suc (length path)\<close> of
  \<open>fcreate\<close> is never reached.
\<close>

definition floadhdir_with ::
  "(string \<Rightarrow> string \<Rightarrow> fsys \<Rightarrow> fsys option) \<Rightarrow> (string \<Rightarrow> u64 \<times> u64) \<Rightarrow> string \<Rightarrow> string \<Rightarrow> fsys
    \<Rightarrow> (dirhandle option \<times> fsys) option" where
  "floadhdir_with create fcode path args fs =
    (let opened = (\<lambda>fs i.
           if flag_check (attributes (fb_of fs i)) fsdirectory
           then map_option (\<lambda>h. (Some h, fs))
                  (fdirrefresh fcode fs \<lparr>dpath = path, dfile = i, loadedblocks = 0, dirarray = []\<rparr>)
           else Some (None, fs))
     in case ffind fcode (mnt fs) path of
          Some i \<Rightarrow> opened fs i
        | None \<Rightarrow>
            if strcheck args (CHR ''c'')
            then do {
              fs1 \<leftarrow> create path args fs;
              (case ffind fcode (mnt fs1) path of None \<Rightarrow> Some (None, fs1) | Some i \<Rightarrow> opened fs1 i)
            }
            else None)"

definition fgetparent_with ::
  "(string \<Rightarrow> string \<Rightarrow> fsys \<Rightarrow> fsys option) \<Rightarrow> (string \<Rightarrow> u64 \<times> u64) \<Rightarrow> string \<Rightarrow> fsys
    \<Rightarrow> (dirhandle option \<times> fsys) option" where
  "fgetparent_with create fcode path fs =
    (case parent_path path of
       None \<Rightarrow> Some (None, fs)
     | Some p \<Rightarrow> floadhdir_with create fcode p ''dc'' fs)"

definition fcreate_with ::
  "(string \<Rightarrow> string \<Rightarrow> fsys \<Rightarrow> fsys option) \<Rightarrow> (string \<Rightarrow> u64 \<times> u64) \<Rightarrow> nat \<times> nat
    \<Rightarrow> string \<Rightarrow> string \<Rightarrow> fsys \<Rightarrow> fsys option" where
  "fcreate_with create fcode now path flgs fs =
    (let found = ffind fcode (mnt fs) path in
     if found \<noteq> None \<and> \<not> strcheck flgs (CHR ''F'') then Some fs
     else do {
       r0 \<leftarrow> (if found \<noteq> None then ffremove fcode (mnt fs) path else Some (mnt fs));
       (case allocatecluster r0 of
          (r1, None) \<Rightarrow> Some (fs\<lparr>mnt := r1\<rparr>)
        | (r1, Some i) \<Rightarrow> do {
            let h = fcode path;
            let r2 = map_update i (\<lambda>b. b\<lparr>attributes := create_attributes flgs (attributes b),
                       fcodehigh := ucast (snd h AND FCODEHASHMASK), fcodelow := fst h, index := 0\<rparr>) r1;
            (dh, fs1) \<leftarrow> fgetparent_with create fcode path (fs\<lparr>mnt := r2\<rparr>);
            fs2 \<leftarrow> (case dh of
                      None \<Rightarrow> Some fs1
                    | Some d \<Rightarrow>
                        let db = fb_of fs1 (dfile d); fb = fb_of fs1 i in
                        if fcodelow db \<noteq> fcodelow fb \<and> fcodehigh db \<noteq> fcodehigh fb
                        then do { (d1, fs3) \<leftarrow> fdiradd fcode i d fs1; fuloaddir d1 fs3 }
                        else Some fs1);
            finit now i (PATHnoSEP # path) fs2
          })
     })"

primrec fcreate_n ::
  "nat \<Rightarrow> (string \<Rightarrow> u64 \<times> u64) \<Rightarrow> nat \<times> nat \<Rightarrow> string \<Rightarrow> string \<Rightarrow> fsys \<Rightarrow> fsys option" where
  "fcreate_n 0 fcode now path flgs fs = None"
| "fcreate_n (Suc n) fcode now path flgs fs =
    fcreate_with (fcreate_n n fcode now) fcode now path flgs fs"

definition fcreate :: "(string \<Rightarrow> u64 \<times> u64) \<Rightarrow> nat \<times> nat \<Rightarrow> string \<Rightarrow> string \<Rightarrow> fsys \<Rightarrow> fsys option" where
  "fcreate fcode now path flgs fs = fcreate_n (Suc (length path)) fcode now path flgs fs"

definition floadhdir ::
  "(string \<Rightarrow> u64 \<times> u64) \<Rightarrow> nat \<times> nat \<Rightarrow> string \<Rightarrow> string \<Rightarrow> fsys \<Rightarrow> (dirhandle option \<times> fsys) option" where
  "floadhdir fcode now path args fs = floadhdir_with (fcreate fcode now) fcode path args fs"

definition fgetparent ::
  "(string \<Rightarrow> u64 \<times> u64) \<Rightarrow> nat \<times> nat \<Rightarrow> string \<Rightarrow> fsys \<Rightarrow> (dirhandle option \<times> fsys) option" where
  "fgetparent fcode now path fs = fgetparent_with (fcreate fcode now) fcode path fs"

definition floadh ::
  "(string \<Rightarrow> u64 \<times> u64) \<Rightarrow> nat \<times> nat \<Rightarrow> string \<Rightarrow> string \<Rightarrow> fsys \<Rightarrow> (fhandle option \<times> fsys) option" where
  "floadh fcode now path args fs = do {
     fs1 \<leftarrow> (if strcheck args (CHR ''c'') then fcreate fcode now path args fs else Some fs);
     Some (map_option (\<lambda>fb. \<lparr>fh_file = fb, progress = ucast (confBlockSize (root (mnt fs1)))\<rparr>)
             (ffind fcode (mnt fs1) path), fs1)
   }"

section \<open>Listing and walking\<close>

datatype unhandle = UDir "dirhandle option" | UFile "fhandle option"

text \<open>The name in a metadata block; \<open>None\<close> when no terminator follows it.\<close>

definition meta_string :: "bytes \<Rightarrow> string option" where
  "meta_string b =
    (let n = drop 72 b in if 0 \<in> set n then Some (map (\<lambda>x. char_of (unat x)) (takeWhile (\<lambda>x. x \<noteq> 0) n)) else None)"

definition fdirlist ::
  "(string \<Rightarrow> u64 \<times> u64) \<Rightarrow> nat \<times> nat \<Rightarrow> dirhandle \<Rightarrow> u64 \<Rightarrow> fsys
    \<Rightarrow> (unhandle option \<times> u64 \<times> dirhandle \<times> fsys) option" where
  "fdirlist fcode now d idx fs = do {
     d1 \<leftarrow> fdirrefresh fcode fs d;
     if safediv (idx * of_nat sizeof_diritem) (ucast (confBlockSize (root (mnt fs)))) < loadedblocks d1
     then if \<not> item_in (dirarray d1) (unat idx) then None
       else
         let f = item_f (dirarray d1) (unat idx);
             removed = (None, idx + 1,
               d1\<lparr>dirarray := set_item_f (unat idx) (f\<lparr>fcodelow := 0, fcodehigh := 0\<rparr>) (dirarray d1)\<rparr>, fs)
         in (case ffindh (mnt fs) (code_of f) of
               None \<Rightarrow> Some removed
             | Some fb \<Rightarrow>
                 if fcodelow (fb_of fs fb) \<noteq> 0 \<and> fcodehigh (fb_of fs fb) \<noteq> 0
                 then do {
                   finfo \<leftarrow> freadinfo fs fb;
                   name \<leftarrow> meta_string finfo;
                   let temp = dpath d1 @ (if peek name = PATHSEP then name else PATHSEP # name);
                   if flag_check (attributes (fb_of fs fb)) fsdirectory
                   then do { (h, fs1) \<leftarrow> floadhdir fcode now temp [] fs; Some (Some (UDir h), idx + 1, d1, fs1) }
                   else do { (h, fs1) \<leftarrow> floadh fcode now temp ''f'' fs; Some (Some (UFile h), idx + 1, d1, fs1) }
                 }
                 else Some removed)
     else Some (None, idx, d1, fs)
   }"

record dirrunner =
  pattmatcher :: string
  stack_size :: u64
  dir_stack :: "dirhandle option list"
  idx_stack :: "u64 list"
  stack_depth :: u64

definition dirr_init :: "dirhandle option \<Rightarrow> string \<Rightarrow> dirrunner option" where
  "dirr_init h patt =
    (case h of
       None \<Rightarrow> None
     | Some d \<Rightarrow> Some \<lparr>pattmatcher = patt, stack_size = 8, dir_stack = (replicate 8 None)[0 := Some d],
                      idx_stack = replicate 8 0, stack_depth = 1\<rparr>)"

definition unhandle_file :: "unhandle \<Rightarrow> nat option" where
  "unhandle_file u = (case u of UDir h \<Rightarrow> map_option dfile h | UFile h \<Rightarrow> map_option fh_file h)"

definition dirr_matches :: "dirrunner \<Rightarrow> nat \<Rightarrow> fsys \<Rightarrow> bool option" where
  "dirr_matches dr fb fs =
    (case freadinfo fs fb of
       None \<Rightarrow> Some False
     | Some info \<Rightarrow> map_option (tools_pattmatch (pattmatcher dr)) (meta_string info))"

definition dirr_push :: "dirhandle \<Rightarrow> dirrunner \<Rightarrow> dirrunner" where
  "dirr_push h dr =
    (let dr1 = (if stack_depth dr = stack_size dr
                then let new_size = (if stack_size dr \<noteq> 0 then stack_size dr * 2 else 8);
                         pad = unat new_size - length (dir_stack dr)
                     in dr\<lparr>dir_stack := dir_stack dr @ replicate pad None,
                           idx_stack := idx_stack dr @ replicate pad 0, stack_size := new_size\<rparr>
                else dr);
         n = unat (stack_depth dr1)
     in dr1\<lparr>dir_stack := (dir_stack dr1)[n := Some h], idx_stack := (idx_stack dr1)[n := 0],
            stack_depth := stack_depth dr1 + 1\<rparr>)"

definition dirr_pop :: "dirrunner \<Rightarrow> dirhandle option \<times> dirrunner" where
  "dirr_pop dr =
    (if stack_depth dr = 0 then (None, dr)
     else let n = unat (stack_depth dr - 1)
          in (dir_stack dr ! n, dr\<lparr>stack_depth := stack_depth dr - 1, dir_stack := (dir_stack dr)[n := None]\<rparr>))"

fun dirr_free_from :: "nat \<Rightarrow> dirhandle option list \<Rightarrow> fsys \<Rightarrow> fsys option" where
  "dirr_free_from cc [] fs = Some fs"
| "dirr_free_from cc (h # hs) fs = do {
     fs1 \<leftarrow> (case h of Some d \<Rightarrow> if cc > 0 then fuloaddir d fs else Some fs | None \<Rightarrow> Some fs);
     dirr_free_from (Suc cc) hs fs1
   }"

definition dirr_free :: "dirrunner \<Rightarrow> fsys \<Rightarrow> fsys option" where
  "dirr_free dr fs = dirr_free_from 0 (take (unat (stack_depth dr)) (dir_stack dr)) fs"

partial_function (option) dirr ::
  "(string \<Rightarrow> u64 \<times> u64) \<Rightarrow> nat \<times> nat \<Rightarrow> dirrunner \<Rightarrow> fsys \<Rightarrow> (unhandle option \<times> dirrunner \<times> fsys) option" where
  "dirr fcode now dr fs =
    (if stack_depth dr = 0 then Some (None, dr, fs)
     else
       let top = unat (stack_depth dr - 1)
       in case dir_stack dr ! top of
            None \<Rightarrow> None
          | Some current \<Rightarrow>
              (case fdirlist fcode now current (idx_stack dr ! top) fs of
                 None \<Rightarrow> None
               | Some (item, idx, current1, fs1) \<Rightarrow>
                   let dr1 = dr\<lparr>idx_stack := (idx_stack dr)[top := idx],
                                dir_stack := (dir_stack dr)[top := Some current1]\<rparr>
                   in case Option.bind item unhandle_file of
                        None \<Rightarrow>
                          (case (if top > 0 then fuloaddir current1 fs1 else Some fs1) of
                             None \<Rightarrow> None
                           | Some fs2 \<Rightarrow> dirr fcode now (snd (dirr_pop dr1)) fs2)
                      | Some fb \<Rightarrow>
                          (case dirr_matches dr1 fb fs1 of
                             None \<Rightarrow> None
                           | Some matches \<Rightarrow>
                               let dr2 = (case item of Some (UDir (Some h)) \<Rightarrow> dirr_push h dr1 | _ \<Rightarrow> dr1)
                               in if matches then Some (item, dr2, fs1) else dirr fcode now dr2 fs1)))"

section \<open>The recursion of creation and opening\<close>

lemma last_sep_less: "last_sep path \<noteq> 0 \<Longrightarrow> last_sep path < length path"
  by (auto simp: last_sep_def find_Some_iff rev_nth split: option.splits)

lemma parent_path_shorter: "parent_path path = Some p \<Longrightarrow> length p < length path"
  using last_sep_less [of path] by (auto simp: parent_path_def split: if_splits)

lemma floadhdir_with_cong:
  assumes "create path = create' path"
  shows "floadhdir_with create fcode path args fs = floadhdir_with create' fcode path args fs"
  unfolding floadhdir_with_def assms ..

lemma fcreate_with_cong:
  assumes "\<And>p. parent_path path = Some p \<Longrightarrow> create p = create' p"
  shows "fcreate_with create fcode now path flgs fs = fcreate_with create' fcode now path flgs fs"
proof -
  have "fgetparent_with create fcode path = fgetparent_with create' fcode path"
    using assms by (auto simp: fgetparent_with_def fun_eq_iff intro!: floadhdir_with_cong split: option.split)
  then show ?thesis unfolding fcreate_with_def by (rule ssubst) (rule refl)
qed

lemma fcreate_n_enough:
  "length path < n \<Longrightarrow> length path < m \<Longrightarrow> fcreate_n n fcode now path flgs fs = fcreate_n m fcode now path flgs fs"
proof (induction n arbitrary: m path flgs fs)
  case (Suc n)
  then obtain m' where m: "m = Suc m'" by (cases m) auto
  have "fcreate_n n fcode now p = fcreate_n m' fcode now p" if "parent_path path = Some p" for p
    using Suc.IH [of p m'] parent_path_shorter [OF that] Suc.prems m by (auto simp: fun_eq_iff)
  then show ?case unfolding m by (auto intro: fcreate_with_cong)
qed simp

text \<open>So creation satisfies the recursion equation of the source.\<close>

lemma fcreate_unfold: "fcreate fcode now path flgs fs = fcreate_with (fcreate fcode now) fcode now path flgs fs"
proof -
  have "fcreate_n (length path) fcode now p = fcreate fcode now p" if "parent_path path = Some p" for p
    using parent_path_shorter [OF that] fcreate_n_enough [of p "length path" "Suc (length p)"]
    by (auto simp: fun_eq_iff fcreate_def)
  then show ?thesis
    unfolding fcreate_def [of fcode now path] fcreate_n.simps by (intro fcreate_with_cong) simp
qed

section \<open>A new file\<close>

lemma create_attributes_flags:
  "flag_check (create_attributes flgs a) fsmetadatacluster"
  "flag_check (create_attributes flgs a) fsextensionallocatedcluster \<longleftrightarrow> flag_check a fsextensionallocatedcluster"
  by (simp_all add: create_attributes_def Let_def fsattr_defs flag_check_def bit.conj_disj_distrib2)

lemma length_meta_name: "meta_name p = Some n \<Longrightarrow> length n \<le> 36"
  using length_takeWhile_le [of "\<lambda>c. of_char c < (128 :: nat)" "drop (last_sep p) p"]
  by (auto simp: meta_name_def GPTeNAMELEN_def split: if_splits)

lemma length_encode_meta: "length n \<le> 440 \<Longrightarrow> length (encode_meta now f n) = 512"
  by (simp add: encode_meta_def FRATBLOCKSIG_def str_bytes_def encode_fsblock_def)

lemma unat_of_char_byte: "unat (of_char c :: u8) = of_char c"
proof -
  have "unat (of_nat (of_char c) :: u8) = of_char c" by (simp only: unat_of_nat) simp
  then show ?thesis by (simp only: of_nat_of_char)
qed

lemma char_of_byte: "char_of (unat (of_char c :: u8)) = c"
  by (simp add: unat_of_char_byte)

lemma of_char_byte_0: "(of_char c :: u8) = 0 \<Longrightarrow> c = NUL"
  using char_of_byte [of c] by (simp add: NUL_def char_of_def)

lemma meta_string_encode:
  assumes "length n < 440" and "NUL \<notin> set n"
  shows "meta_string (encode_meta now f n @ replicate k 0) = Some n"
proof -
  let ?z = "replicate (440 - length n + k) (0 :: u8)"
  have d: "drop 72 (encode_meta now f n @ replicate k 0) = str_bytes n @ ?z"
    by (simp add: encode_meta_def FRATBLOCKSIG_def str_bytes_def encode_fsblock_def replicate_add)
  have nz: "x \<noteq> 0" if "x \<in> set (str_bytes n)" for x
    using that assms(2) by (auto simp: str_bytes_def dest: of_char_byte_0)
  have z: "?z = 0 # replicate (440 - length n + k - 1) 0"
    using assms(1) by (cases "440 - length n + k") auto
  have "takeWhile (\<lambda>x. x \<noteq> 0) (str_bytes n @ ?z) = str_bytes n"
    using nz by (subst takeWhile_append2) (auto simp: z)
  moreover have "map (\<lambda>x. char_of (unat x)) (str_bytes n) = n"
    by (simp add: str_bytes_def comp_def char_of_byte)
  moreover have "0 \<in> set (str_bytes n @ ?z)" unfolding z by simp
  ultimately show ?thesis unfolding meta_string_def Let_def d by simp
qed

lemma finit_block:
  assumes "wf_root (mnt fs)" and "i < unat (nClusterItems (mnt fs))" and "512 \<le> blksz fs"
    and "meta_name p = Some n"
  shows "\<exists>f. finit now i p fs = Some (write_data_block i (encode_meta now f n @ replicate (blksz fs - 512) 0) fs)"
proof -
  let ?re = "disk_env (mnt fs)" and ?pos = "getloc (mnt fs) i"
  note ok = getloc_block_ok [OF assms(1,2)]
  have env: "wf_env ?re" "raw_fits ?re ?pos" using ok by (simp_all add: block_ok_def)
  have sz: "unat sizeof_meta_fsblock = 512" by (simp add: sizeof_meta_fsblock_def)
  have len: "length (encode_meta now f n) = 512" for f
    using length_meta_name [OF assms(4)] by (intro length_encode_meta) simp
  have bs: "blksz fs \<le> bsize ?re"
    using wf_env_startup [of "confBlockSize (root (mnt fs))" "loc (mnt fs)"] assms(1)
    by (simp add: blksz_def disk_env_def wf_root_def)
  have "bsize ?re - 512 = (blksz fs - 512) + (bsize ?re - blksz fs)" using bs assms(3) by simp
  then have z: "replicate (bsize ?re - 512) (0 :: u8) = replicate (blksz fs - 512) 0 @ replicate (bsize ?re - blksz fs) 0"
    by (simp only: replicate_add)
  have w: "writeblocks ?re (encode_meta now f n) ?pos sizeof_meta_fsblock (disk fs)
      = write_block ?re (disk fs) ?pos (encode_meta now f n @ replicate (blksz fs - 512) 0)" for f
    unfolding block_ok_unfold(2) [OF ok] using writeblocks_eq [OF env, of sizeof_meta_fsblock] sz rounded_512 [OF env(1)]
      len [of f] z assms(3) by (simp add: blksz_def)
  show ?thesis
    using assms(3,4) sz by (auto simp: finit_def Let_def blksz_def w write_data_block_def)
qed

lemma freadinfo_written:
  assumes "wf_root (mnt fs)" and "i < unat (nClusterItems (mnt fs))" and "length b = blksz fs"
  shows "\<exists>k. freadinfo (write_data_block i b fs) i = Some (b @ replicate k 0)"
proof -
  let ?re = "disk_env (mnt fs)" and ?pos = "getloc (mnt fs) i"
  note ok = getloc_block_ok [OF assms(1,2)]
  have env: "wf_env ?re" "raw_fits ?re ?pos" using ok by (simp_all add: block_ok_def)
  have bs: "blksz fs \<le> bsize ?re"
    using wf_env_startup [of "confBlockSize (root (mnt fs))" "loc (mnt fs)"] assms(1)
    by (simp add: blksz_def disk_env_def wf_root_def)
  let ?w = "b @ replicate (bsize ?re - blksz fs) 0"
  have "write_block ?re (disk fs) ?pos b = file_write (disk fs) (boff ?re ?pos) ?w"
    using assms(3) by (simp add: block_ok_unfold(2) [OF ok] blksz_def)
  moreover have "file_read (file_write (disk fs) (boff ?re ?pos) ?w) (boff ?re ?pos) (bsize ?re) = Some ?w"
    using file_read_write_same [of "disk fs" "boff ?re ?pos" ?w] assms(3) bs by simp
  moreover have "rounded ?re (unat sizeof_meta_fsblock) = bsize ?re"
    using rounded_512 [OF env(1)] by (simp add: sizeof_meta_fsblock_def)
  ultimately show ?thesis
    using readblocks_eq [OF env, of sizeof_meta_fsblock]
    by (intro exI [of _ "bsize ?re - blksz fs"])
      (simp add: freadinfo_def write_data_block_def sizeof_meta_fsblock_def)
qed

text \<open>A disk with one partition, freshly formatted, mounted: three free clusters of 512 bytes.\<close>

definition empty_root :: conf_fsroot where
  "empty_root = \<lparr>fguid = (0, 0), altGUID = (0, 0),
     root = \<lparr>signature = FRATSIG, confLogSectors = 1, confBlockSize = 512, confClusterSize = 60,
             verMajor = 1, verMinor = 0, ExtensionEnabled = False, MinimumExtensionSupport = 0,
             TotalExtensions = 0, ExtensionTable = 0\<rparr>,
     loc = 3, lastClusterAlloc = 0, nLogSectors = 1, logBlock = [], clusterSize = 60,
     nClusterSectors = 0, nClusterItems = 3,
     clusterMap = replicate 3 \<lparr>fcodelow = 0, fcodehigh = 0, attributes = 0, index = 0\<rparr>, mapTail = []\<rparr>"

definition empty_fs :: fsys where
  "empty_fs = \<lparr>mnt = empty_root, disk = demo_disk\<rparr>"

lemma empty_env: "disk_env empty_root = \<lparr>Partition = 3, CalcBlock = 1, ConfBlock = 512, RealBlock = 512\<rparr>"
  by (simp add: disk_env_def empty_root_def startup_def DefaultRawDiskSize_def)

lemma wf_empty_root: "wf_root empty_root"
  unfolding wf_root_def boff_def bsize_def empty_env
  by (simp add: empty_root_def DATAFIRST_def DATAFIRSTOFFSET_def CLUSTERMAPOFFSET_def
      LOGBLOCKOFFSET_def FRATROOTOFFSET_def)

text \<open>The entry of a new file, and the map once the allocator has offered a cluster for it.\<close>

definition new_entry :: "string \<Rightarrow> u64 \<Rightarrow> u48 \<Rightarrow> fsblock \<Rightarrow> fsblock" where
  "new_entry flgs lo hi b =
    b\<lparr>attributes := create_attributes flgs (attributes b), fcodehigh := hi, fcodelow := lo, index := 0\<rparr>"

lemma new_file_map:
  fixes flgs :: string
  assumes "wf_root r" and "fam r lo hi = {}" and "allocatecluster r = (r1, Some i)"
  defines "r2 \<equiv> map_update i (new_entry flgs lo hi) r1"
  shows "i < unat (nClusterItems r)" "i < length (clusterMap r)" "r1 = r\<lparr>lastClusterAlloc := of_nat i\<rparr>"
    "clusterMap r2 = (clusterMap r)[i := new_entry flgs lo hi (clusterMap r ! i)]" "nClusterItems r2 = nClusterItems r"
    "root r2 = root r" "wf_root r2" "fam r2 lo hi = {i}" "contiguous r2 lo hi"
proof -
  note a = allocatecluster_Some [OF assms(3)]
  show i: "i < unat (nClusterItems r)" "i < length (clusterMap r)" and r1: "r1 = r\<lparr>lastClusterAlloc := of_nat i\<rparr>"
    using a assms(1) by (auto simp: wf_root_def)
  show m: "clusterMap r2 = (clusterMap r)[i := new_entry flgs lo hi (clusterMap r ! i)]"
    "nClusterItems r2 = nClusterItems r" "root r2 = root r"
    by (simp_all add: r2_def r1 map_update_def)
  show "wf_root r2" using assms(1) by (simp add: r2_def r1)
  have "\<not> same_family lo hi (clusterMap r ! i)" "fam r1 lo hi = {}" using assms(2) i(1) by (auto simp: fam_def r1)
  then show f: "fam r2 lo hi = {i}"
    using fam_extend [of i r1 lo hi "new_entry flgs lo hi"] i by (simp add: r2_def r1 same_family_def new_entry_def)
  show "contiguous r2 lo hi" unfolding contiguous_def f using i(2) by (simp add: m bij_betw_def new_entry_def)
qed

lemma single_block_found:
  assumes "contiguous r lo hi" and "wf_root r" and "fam r lo hi = {i}" and "fcode path = (lo, ucast hi)"
  shows "ffind fcode r path = Some i"
  using ffindhi_contiguous [OF assms(1,2), of 0] ffindhi_Some [of r lo hi 0] assms(3,4)
  by (auto simp: ffind_def ffindi_def)

text \<open>What creating a file at the top level does, in one step.\<close>

lemma fcreate_top:
  assumes "wf_root (mnt fs)" and "parent_path path = None" and "length path < 36" and "NUL \<notin> set path"
    and "512 \<le> blksz fs" and "fcode path = (lo, ucast hi)" and "fam (mnt fs) lo hi = {}"
    and "allocatecluster (mnt fs) = (r1, Some i)"
  obtains n f where "meta_name (PATHnoSEP # path) = Some n" "length n < 440" "NUL \<notin> set n"
    "fcreate fcode now path flgs fs = Some (write_data_block i (encode_meta now f n @ replicate (blksz fs - 512) 0)
       (fs\<lparr>mnt := map_update i (new_entry flgs lo hi) r1\<rparr>))"
proof -
  note m = new_file_map(1-3) [OF assms(1,7,8)] new_file_map(4-9) [OF assms(1,7,8), of flgs]
  let ?fs2 = "fs\<lparr>mnt := map_update i (new_entry flgs lo hi) r1\<rparr>"
  have hm: "(ucast (ucast hi AND FCODEHASHMASK :: u64) :: u48) = hi"
    by (rule bit_word_eqI) (auto simp: bit_simps FCODEHASHMASK_def mask_16)
  have ne: "new_entry flgs lo hi = (\<lambda>b. b\<lparr>attributes := create_attributes flgs (attributes b),
      fcodehigh := hi, fcodelow := lo, index := 0\<rparr>)" by (simp add: fun_eq_iff new_entry_def)
  obtain n where n: "meta_name (PATHnoSEP # path) = Some n" using assms(3) by (simp add: meta_name_def GPTeNAMELEN_def)
  have nn: "length n < 440" "NUL \<notin> set n"
    using length_meta_name [OF n] n assms(3,4)
    by (auto simp: meta_name_def NUL_def PATHnoSEP_def split: if_splits dest!: set_takeWhileD in_set_dropD)
  have bz: "blksz ?fs2 = blksz fs" using m(6) by (simp add: blksz_def)
  obtain f where f: "finit now i (PATHnoSEP # path) ?fs2
      = Some (write_data_block i (encode_meta now f n @ replicate (blksz fs - 512) 0) ?fs2)"
    using finit_block [of ?fs2 i "PATHnoSEP # path" n now] m(1,5,7) assms(5) n bz by auto
  have "ffind fcode (mnt fs) path = None"
  proof (rule ccontr)
    assume "ffind fcode (mnt fs) path \<noteq> None"
    then show False
      using ffindhi_Some [of "mnt fs" lo hi 0] assms(6,7) by (auto simp: ffind_def ffindi_def)
  qed
  then have "fcreate fcode now path flgs fs
      = Some (write_data_block i (encode_meta now f n @ replicate (blksz fs - 512) 0) ?fs2)"
    using assms(2,6,8) f by (subst fcreate_unfold)
      (simp add: fcreate_with_def fgetparent_with_def hm ne Let_def)
  then show thesis using that n nn by blast
qed

section \<open>Properties\<close>

text \<open>C9: creating a new file at the top level (in a file system with blocks of at least 512 bytes, under a
  name of less than 36 characters) takes the cluster the allocator offers, enters the file there so that
  the lookup of its path finds it, writes a metadata block that carries its name, and leaves the map
  entries and the data of all other clusters alone; the new file is a well-formed file of one block.
  Its attributes are those the flags ask for on top of the ones that the free cluster still has: a
  removed file leaves its attributes behind, so a file that takes a cluster of a read-only file is
  read-only, whatever the flags say.  The extension mark, which nothing in the program sets, is the one
  attribute the free cluster may not have.\<close>

theorem fcreate_new_file:
  assumes "wf_root (mnt fs)" and "parent_path path = None" and "length path < 36" and "NUL \<notin> set path"
    and "512 \<le> blksz fs" and "fcode path = (lo, ucast hi)" and "(lo, hi) \<noteq> (0, 0)"
    and "fam (mnt fs) lo hi = {}" and "allocatecluster (mnt fs) = (r1, Some i)"
    and "\<not> flag_check (attributes (fb_of fs i)) fsextensionallocatedcluster"
  shows "\<exists>fs'. fcreate fcode now path flgs fs = Some fs' \<and> file_ok fs' i lo hi \<and> nblk fs' lo hi = 1
    \<and> ffind fcode (mnt fs') path = Some i \<and> attributes (fb_of fs' i) = create_attributes flgs (attributes (fb_of fs i))
    \<and> (\<exists>info. freadinfo fs' i = Some info \<and> meta_string info = meta_name (PATHnoSEP # path))
    \<and> (\<forall>j < unat (nClusterItems (mnt fs)). j \<noteq> i \<longrightarrow>
         fb_of fs' j = fb_of fs j \<and> (\<forall>b. data_is fs j b \<longrightarrow> data_is fs' j b))"
proof -
  let ?r = "mnt fs" and ?r2 = "map_update i (new_entry flgs lo hi) r1"
  let ?fs2 = "fs\<lparr>mnt := ?r2\<rparr>"
  note m = new_file_map(1-3) [OF assms(1,8,9)] new_file_map(4-9) [OF assms(1,8,9), of flgs]
  obtain n f where n: "meta_name (PATHnoSEP # path) = Some n" "length n < 440" "NUL \<notin> set n"
    and c: "fcreate fcode now path flgs fs
      = Some (write_data_block i (encode_meta now f n @ replicate (blksz fs - 512) 0) ?fs2)"
    using fcreate_top [where fcode = fcode and path = path and fs = fs and now = now and flgs = flgs, OF assms(1-6,8,9)]
    by blast
  define blk where "blk = encode_meta now f n @ replicate (blksz fs - 512) 0"
  define fs' where "fs' = write_data_block i blk ?fs2"
  have bz: "blksz ?fs2 = blksz fs" using m(6) by (simp add: blksz_def)
  have lb: "length blk = blksz ?fs2" using length_encode_meta [of n now f] n(2) assms(5) bz by (simp add: blk_def)
  have i2: "i < unat (nClusterItems (mnt ?fs2))" "wf_root (mnt ?fs2)" using m(1,5,7) by simp_all
  have m': "mnt fs' = ?r2" by (simp add: fs'_def)
  have entry: "fb_of fs' i = new_entry flgs lo hi (clusterMap ?r ! i)" "attributes (clusterMap ?r ! i) = attributes (fb_of fs i)"
    using m(2,4) by (simp_all add: fb_of_def m')
  have "data_is fs' i blk" using data_is_same [OF i2(2,1)] lb by (simp add: fs'_def blksz_def)
  then have "file_ok fs' i lo hi"
    unfolding file_ok_def m' m(8) using m(7,9) assms(7,10) entry create_attributes_flags [of flgs] by (auto simp: new_entry_def)
  moreover have "nblk fs' lo hi = 1" by (simp add: nblk_def m' m(8))
  moreover have "ffind fcode (mnt fs') path = Some i"
    unfolding m' using single_block_found [of _ lo hi i fcode path, OF m(9,7,8) assms(6)] .
  moreover have "attributes (fb_of fs' i) = create_attributes flgs (attributes (fb_of fs i))" using entry by (simp add: new_entry_def)
  moreover obtain k where "freadinfo fs' i = Some (blk @ replicate k 0)"
    using freadinfo_written [OF i2(2,1)] lb assms(5) bz unfolding fs'_def by auto
  then have "\<exists>info. freadinfo fs' i = Some info \<and> meta_string info = meta_name (PATHnoSEP # path)"
    using meta_string_encode [OF n(2,3), of now f "blksz fs - 512 + k"] n(1) by (simp add: blk_def replicate_add)
  moreover have "fb_of fs' j = fb_of fs j" if "j \<noteq> i" for j using that m(4) by (simp add: fb_of_def m')
  moreover have "data_is fs' j b" if "j < unat (nClusterItems ?r)" "j \<noteq> i" "data_is fs j b" for j b
  proof -
    have "data_is ?fs2 j b"
      using that(3) data_is_mnt_map(1) [where fs = "fs\<lparr>mnt := r1\<rparr>"] data_is_mnt_map(2) [where fs = fs]
      by (simp add: m(3))
    then show ?thesis
      using data_is_other [of ?fs2 i j blk b] i2 lb that m(5) by (simp add: fs'_def blksz_def)
  qed
  ultimately show ?thesis using c unfolding fs'_def blk_def by blast
qed

lemma empty_fields: "blksz empty_fs = 512" "mnt empty_fs = empty_root" "disk empty_fs = demo_disk"
  "attributes (fb_of empty_fs 0) = 0" "loc empty_root = 3" "nClusterItems empty_root = 3"
  by (simp_all add: empty_fs_def empty_root_def blksz_def fb_of_def)

lemma empty_start: "fam empty_root 7 9 = {}" "allocatecluster empty_root = (empty_root, Some 0)" "parent_path ''boot'' = None"
proof -
  show "fam empty_root 7 9 = {}" by (auto simp: fam_def empty_root_def same_family_def nth_Cons' split: if_splits)
  show "allocatecluster empty_root = (empty_root, Some 0)"
    by (simp add: allocatecluster_def empty_root_def is_free_def upt_rec)
  show "parent_path ''boot'' = None" by code_simp
qed

theorem fcreate_new_file_witness:
  "\<exists>fs'. fcreate (\<lambda>p. (7, 9)) (0, 0) ''boot'' ''b'' empty_fs = Some fs' \<and> file_ok fs' 0 7 9
     \<and> ffind (\<lambda>p. (7, 9)) (mnt fs') ''boot'' = Some 0"
proof -
  obtain fs' where "fcreate (\<lambda>p. (7, 9)) (0, 0) ''boot'' ''b'' empty_fs = Some fs'" "file_ok fs' 0 7 9"
    "ffind (\<lambda>p. (7, 9)) (mnt fs') ''boot'' = Some 0"
    using fcreate_new_file [of empty_fs "''boot''" "\<lambda>p. (7, 9)" 7 9 empty_root 0 "(0, 0)" "''b''"] wf_empty_root empty_start
    by (auto simp: empty_fields NUL_def flag_check_def fsattr_defs)
  then show ?thesis by blast
qed

section \<open>Flushing and mounting again\<close>

lemma nth_decode_encode_map:
  assumes "20 * i + 20 \<le> n" and "i < length m"
  shows "decode_fsblock (drop (20 * i) (take n (encode_map m @ rest) @ pad)) = m ! i"
proof -
  have len: "length (encode_fsblock f) = 20" for f by (simp add: encode_fsblock_def)
  have "length (encode_map xs) = 20 * length xs" for xs by (induction xs) (simp_all add: encode_map_def len)
  then have l: "length (encode_map (take i m)) = 20 * i" using assms(2) by simp
  have "m = take i m @ m ! i # drop (Suc i) m" using assms(2) by (simp add: id_take_nth_drop)
  then have m: "encode_map m @ rest = encode_map (take i m) @ encode_fsblock (m ! i) @ (encode_map (drop (Suc i) m) @ rest)"
    by (metis (no_types, lifting) append.assoc concat.simps(2) concat_append encode_map_def list.map(2) map_append)
  have "drop (20 * i) (take n (encode_map m @ rest) @ pad)
      = encode_fsblock (m ! i) @ (take (n - 20 * i - 20) (encode_map (drop (Suc i) m) @ rest) @ pad)"
    unfolding m using assms(1) l len [of "m ! i"] by simp
  then show ?thesis by (simp only: decode_encode_fsblock)
qed

text \<open>A mounted root whose fields agree with each other and whose areas do not wrap.\<close>

definition flush_fits :: "conf_fsroot \<Rightarrow> bool" where
  "flush_fits r =
    (let conf = unat (confBlockSize (root r)); nLog = unat (nLogSectors r); cs = unat (clusterSize r);
         re = disk_env r
     in signature (root r) = FRATSIG
      \<and> 0 < conf \<and> conf \<le> 2 ^ 32 - 1024 \<and> (nLog + 2) * conf < 2 ^ 32
      \<and> confLogSectors (root r) = nLogSectors r \<and> cs = unat (confClusterSize (root r))
      \<and> unat (nClusterItems r) = cs div 20 \<and> cs div 20 \<le> length (clusterMap r)
      \<and> cs \<le> length (encode_map (clusterMap r) @ mapTail r) \<and> 0 < cs
      \<and> unat (loc r) * 512 + (nLog + 2) * conf * bsize re < 2 ^ 62 \<and> unat (loc r) + (nLog + 2) * conf < 2 ^ 62)"

lemma flush_fitsD:
  assumes "flush_fits r"
  shows "0 < unat (confBlockSize (root r))" "unat (confBlockSize (root r)) \<le> 2 ^ 32 - 1024"
    "(unat (nLogSectors r) + 2) * unat (confBlockSize (root r)) < 2 ^ 32"
    "unat (clusterSize r) = unat (confClusterSize (root r))"
    "unat (clusterSize r) \<le> length (encode_map (clusterMap r) @ mapTail r)" "0 < unat (clusterSize r)"
    "unat (loc r) * 512 + (unat (nLogSectors r) + 2) * unat (confBlockSize (root r)) * bsize (disk_env r) < 2 ^ 62"
    "unat (loc r) + (unat (nLogSectors r) + 2) * unat (confBlockSize (root r)) < 2 ^ 62"
    "signature (root r) = FRATSIG" "confLogSectors (root r) = nLogSectors r"
    "unat (nClusterItems r) = unat (clusterSize r) div 20" "unat (clusterSize r) div 20 \<le> length (clusterMap r)"
  using assms unfolding flush_fits_def Let_def by blast+

text \<open>Where the root and the map of such a disk lie.\<close>

lemma flush_places:
  assumes "flush_fits r"
  defines "re \<equiv> disk_env r" and "c \<equiv> unat (confBlockSize (root r))" and "L \<equiv> unat (nLogSectors r)"
    and "pos \<equiv> loc r + ucast (CLUSTERMAPOFFSET (nLogSectors r) * confBlockSize (root r)) :: u64"
  shows "wf_env re" "512 \<le> bsize re" "raw_fits re (loc r)" "raw_fits re pos"
    "boff re (loc r) = unat (loc r) * 512" "boff re pos = unat (loc r) * 512 + (L + 2) * c * bsize re"
    "unat (loc r) * 512 + bsize re \<le> unat (loc r) * 512 + (L + 2) * c * bsize re"
proof -
  note f = flush_fitsD [OF assms(1), folded re_def c_def L_def]
  have c: "0 < c" "c \<le> 2 ^ 32 - 1024" by (fact f(1), fact f(2))
  show env: "wf_env re" and "512 \<le> bsize re"
  proof -
    have "1 \<le> (c + 511) div 512" using c(1) by (simp add: Suc_le_eq div_greater_zero_iff)
    then show "wf_env re" "512 \<le> bsize re"
      using wf_env_startup [of "confBlockSize (root r)"] bsize_startup [of "confBlockSize (root r)"] c
      by (simp_all add: re_def disk_env_def c_def)
  qed
  have part: "Partition re = loc r" by (simp add: re_def)
  have "(L + 2) * 1 \<le> (L + 2) * c" using c(1) by (intro mult_le_mono2) simp
  from le_less_trans [OF this f(3)] have "L + 2 < 2 ^ 32" by simp
  then have "unat (nLogSectors r + 2) = L + 2" by (subst unat_add_small) (simp_all add: L_def)
  moreover have "CLUSTERMAPOFFSET (nLogSectors r) = nLogSectors r + 2"
    by (simp add: CLUSTERMAPOFFSET_def LOGBLOCKOFFSET_def FRATROOTOFFSET_def)
  ultimately have mo: "unat (ucast (CLUSTERMAPOFFSET (nLogSectors r) * confBlockSize (root r)) :: u64) = (L + 2) * c"
    using f(3) by (simp only: unat_ucast_u32, subst unat_mult_small) (simp_all add: c_def)
  have up: "unat pos = unat (loc r) + (L + 2) * c"
    unfolding pos_def using f(8) by (subst unat_add_small) (simp_all only: mo, simp)
  show bo: "boff re pos = unat (loc r) * 512 + (L + 2) * c * bsize re" using up part by (simp add: boff_def)
  show bl: "boff re (loc r) = unat (loc r) * 512" using part by (simp add: boff_def)
  have "loc r \<le> pos" unfolding word_le_nat_alt up by simp
  then show "raw_fits re pos" using bo part f(7) by (simp add: raw_fits_def)
  show "raw_fits re (loc r)" using bl part f(7) by (simp add: raw_fits_def)
  have "1 * bsize re \<le> (L + 2) * c * bsize re" using c(1) by (intro mult_le_mono1) simp
  then show "unat (loc r) * 512 + bsize re \<le> unat (loc r) * 512 + (L + 2) * c * bsize re" by simp
qed

lemma flushed_image:
  assumes "flush_fits r" and r: "mnt fs = r"
  defines "re \<equiv> disk_env r" and "cs \<equiv> unat (clusterSize r)"
    and "o3 \<equiv> unat (loc r) * 512 + (unat (nLogSectors r) + 2) * unat (confBlockSize (root r)) * bsize (disk_env r)"
  shows "\<exists>g. disk (fuloadroot fs) = g
    \<and> file_read g (unat (loc r) * 512) 512 = Some (encode_fsroot (root r) @ replicate 452 0)
    \<and> file_read g o3 (rounded re cs) = Some (take cs (encode_map (clusterMap r) @ mapTail r) @ replicate (rounded re cs - cs) 0)
    \<and> (\<forall>off n c. off + n \<le> unat (loc r) * 512 \<longrightarrow> file_read (disk fs) off n = Some c \<longrightarrow> file_read g off n = Some c)"
proof -
  let ?P = "unat (loc r)" and ?buf = "encode_map (clusterMap r) @ mapTail r"
  note f = flush_fitsD [OF assms(1), folded o3_def, folded re_def cs_def]
  note pl = flush_places [OF assms(1), folded o3_def, folded re_def]
  let ?pos = "loc r + ucast (CLUSTERMAPOFFSET (nLogSectors r) * confBlockSize (root r)) :: u64"
  have cs32: "cs < 2 ^ 32" using f(4) unsigned_less [of "confClusterSize (root r)", where 'a = nat] by simp
  have len: "length (encode_fsroot (root r)) = 60"
    using length_encode_fsroot f(9) length_FRATSIG by (simp add: sizeof_fsroot_def)
  let ?d1 = "encode_fsroot (root r) @ replicate (bsize re - 60) 0"
  let ?d3 = "take cs ?buf @ replicate (rounded re cs - cs) 0"
  have w1: "writeblocks re (encode_fsroot (root r)) (loc r) (of_nat sizeof_fsroot) D = file_write D (?P * 512) ?d1" for D
    using writeblocks_eq [OF pl(1,3), of "of_nat sizeof_fsroot"] len pl(2,5) rounded_one [OF pl(1), of 60]
    by (simp add: sizeof_fsroot_def)
  have w3: "writeblocks re ?buf ?pos (clusterSize r) D = file_write D o3 ?d3" for D
    using writeblocks_eq [OF pl(1,4), of "clusterSize r"] cs32 pl(6) by (simp add: cs_def)
  have nb: "?buf \<noteq> []" using f(5,6) by (metis le_zero_eq list.size(3) less_irrefl)
  define g where "g = file_write (file_write (file_write (disk fs) (?P * 512) ?d1) (?P * 512 + bsize re) []) o3 ?d3"
  have "file_write D k [] = D" for D k by (simp add: file_write_def)
  then have "g = file_write (file_write (disk fs) (?P * 512) ?d1) o3 ?d3" by (simp only: g_def)
  then have g1: "disk (fuloadroot fs) = g"
    using nb unfolding fuloadroot_def Let_def r re_def [symmetric] w1 w3 by (simp only: if_False fsys.simps) simp
  have l1: "length ?d1 = bsize re" using len pl(2) by simp
  have l3: "length ?d3 = rounded re cs" using f(5) rounded_ge [OF pl(1), of cs] by simp
  note tw = three_writes [of "?P * 512" ?d1 "?P * 512 + bsize re" "[]" o3 g "disk fs" ?d3, OF _ _ g_def]
  have o1: "?P * 512 + length ?d1 \<le> ?P * 512 + bsize re" and o2: "?P * 512 + bsize re + length ([] :: bytes) \<le> o3"
    using l1 pl(7) by simp_all
  have "file_read g (?P * 512) 512 = Some (encode_fsroot (root r) @ replicate 452 0)"
    using tw(1) [OF o1 o2] l1 file_read_prefix [of g "?P * 512" "bsize re" ?d1 512] pl(2) len by simp
  moreover have "file_read g o3 (rounded re cs) = Some ?d3" using tw(3) [OF o1 o2] unfolding l3 .
  moreover have "\<forall>off n c. off + n \<le> ?P * 512 \<longrightarrow> file_read (disk fs) off n = Some c \<longrightarrow> file_read g off n = Some c"
    using tw(4) [OF o1 o2] by blast
  ultimately show ?thesis using g1 by blast
qed

text \<open>What is flushed is what the next mount finds: after \<open>fuloadroot\<close> the disk mounts again at the
  same partition with the same root, and every entry of the cluster map is the one that was in
  memory.\<close>

theorem flush_then_mount:
  assumes fits: "flush_fits (mnt fs)" and table: "lists_partition (disk fs) pre e"
    and e: "sLBA e = loc (mnt fs)" "eLBA e \<noteq> 0" and room: "clears_name behind"
  shows "\<exists>r'. fmount behind (disk (fuloadroot fs)) = Some (Some r') \<and> root r' = root (mnt fs) \<and> loc r' = loc (mnt fs)
    \<and> nClusterItems r' = nClusterItems (mnt fs)
    \<and> (\<forall>i < unat (nClusterItems (mnt fs)). clusterMap r' ! i = clusterMap (mnt fs) ! i)"
proof -
  let ?r = "mnt fs" and ?re = "disk_env (mnt fs)" and ?cs = "unat (clusterSize (mnt fs))"
  let ?c = "unat (confBlockSize (root (mnt fs)))" and ?L = "unat (nLogSectors (mnt fs))"
  define M where "M = take ?cs (encode_map (clusterMap ?r) @ mapTail ?r) @ replicate (rounded ?re ?cs - ?cs) 0"
  obtain g where g: "disk (fuloadroot fs) = g"
    "file_read g (unat (loc ?r) * 512) 512 = Some (encode_fsroot (root ?r) @ replicate 452 0)"
    "file_read g (unat (loc ?r) * 512 + (?L + 2) * ?c * bsize ?re) (rounded ?re ?cs) = Some M"
    "\<And>off n c. off + n \<le> unat (loc ?r) * 512 \<Longrightarrow> file_read (disk fs) off n = Some c \<Longrightarrow> file_read g off n = Some c"
    using flushed_image [OF fits refl] unfolding M_def by blast
  note f = flush_fitsD [OF fits] and pl = flush_places [OF fits]
  have bz: "unat (loc ?r) * 512 < 2 ^ 62" using f(7) by linarith
  have "take 16 (encode_fsroot (root ?r) @ replicate 452 0) = FRATSIG"
    using f(9) length_FRATSIG by (simp add: encode_fsroot_def)
  then have "queryfs E0 g (sLBA e) = Some True"
    using g(2) bz e by (simp add: queryfs_def FRATROOTOFFSET_def gpt_defs readblocks_default rounded_default)
  then obtain block where "checkdisk g = Some True" "readblocks E0 g GPT_LBA (of_nat sizeof_miniGPT) = Some block"
    "queryparttablefs behind (decode_gpt block) E0 g = Some (to_part e)"
    using listed_survives [OF table, of g behind] bz g(4) e room by auto
  moreover have "base (to_part e) = loc ?r" "high (to_part e) \<noteq> 0" using e by (simp_all add: to_part_def)
  moreover have "readblocks (E0\<lparr>Partition := loc ?r\<rparr>) g (loc ?r + ucast FRATROOTOFFSET) (of_nat sizeof_fsroot)
      = Some (encode_fsroot (root ?r) @ replicate 452 0)"
    using bz g(2) by (subst readblocks_eq)
      (simp_all add: raw_fits_def boff_def FRATROOTOFFSET_def sizeof_fsroot_def rounded_def)
  moreover have "decode_fsroot (encode_fsroot (root ?r) @ replicate 452 0) = root ?r"
    using f(9) length_FRATSIG by (simp add: decode_encode_fsroot)
  moreover have "setblocksize (confBlockSize (root ?r)) (E0\<lparr>Partition := loc ?r\<rparr>) = ?re"
    using setblocksize_startup [OF f(2,1)] by (simp add: disk_env_def)
  moreover have "readblocks ?re g (loc ?r + ucast (CLUSTERMAPOFFSET (confLogSectors (root ?r)) * confBlockSize (root ?r)))
      (ucast (confClusterSize (root ?r))) = Some M"
  proof -
    have k: "unat (ucast (confClusterSize (root ?r)) :: u64) = ?cs" using f(4) by simp
    moreover have "?cs < 2 ^ 62" using unsigned_less [of "confClusterSize (root ?r)", where 'a = nat] f(4) by simp
    ultimately show ?thesis
      using readblocks_eq [OF pl(1,4), of "ucast (confClusterSize (root ?r))" g] unfolding f(10) pl(6) k g(3) by simp
  qed
  ultimately obtain r' where m: "fmount behind g = Some (Some r')" and r': "root r' = root ?r" "loc r' = loc ?r"
    "nClusterItems r' = safediv (ucast (confClusterSize (root ?r))) (of_nat sizeof_fsblock)"
    "clusterMap r' = decode_map M"
    by (simp add: fmount_def Let_def)
  have "unat (nClusterItems r') = ?cs div 20"
    using r'(3) f(4) by (simp add: safediv_def sizeof_fsblock_def unat_div_distrib)
  then have "nClusterItems r' = nClusterItems ?r" using f(11) by (simp add: word_unat_eq_iff)
  moreover have "clusterMap r' ! i = clusterMap ?r ! i" if "i < unat (nClusterItems ?r)" for i
  proof -
    have i: "i < ?cs div 20" using that f(11) by simp
    have "?cs \<le> length M" using f(5) by (simp add: M_def)
    then have "i < length M div 20" using i by (meson div_le_mono less_le_trans)
    then have "clusterMap r' ! i = decode_fsblock (drop (20 * i) M)"
      using r'(4) by (simp add: decode_map_def sizeof_fsblock_def)
    moreover have "20 * i + 20 \<le> ?cs" "i < length (clusterMap ?r)" using i f(12) by linarith+
    ultimately show ?thesis unfolding M_def by (simp only: nth_decode_encode_map)
  qed
  ultimately show ?thesis using m r' g(1) by auto
qed

lemma empty_fits: "flush_fits empty_root"
proof -
  have l: "length (encode_fsblock f) = 20" for f by (simp add: encode_fsblock_def)
  have "replicate 3 f = [f, f, f]" for f :: fsblock by (simp add: numeral_3_eq_3)
  then have "length (encode_map (clusterMap empty_root)) = 60"
    by (simp add: encode_map_def empty_root_def l)
  then show ?thesis
    unfolding flush_fits_def Let_def bsize_def empty_env by (simp add: empty_root_def)
qed

theorem flush_then_mount_witness:
  "\<exists>r'. fmount 35 (disk (fuloadroot empty_fs)) = Some (Some r') \<and> loc r' = 3 \<and> nClusterItems r' = 3"
proof -
  obtain pre where "lists_partition demo_disk pre demo_entry"
    using demo_named by (auto simp: names_partition_def)
  then obtain r' where "fmount 35 (disk (fuloadroot empty_fs)) = Some (Some r')" "loc r' = 3" "nClusterItems r' = 3"
    using flush_then_mount [of empty_fs pre demo_entry 35] empty_fits demo_entry_LBA
    by (auto simp: empty_fields clears_name_def GPTeNAMESIZE_def)
  then show ?thesis by blast
qed

end
