(* ===== verification/Frat_Session.thy ===== *)
theory Frat_Session
  imports Frat_Dir
begin

text \<open>
  Sessions on a mounted FRAT file system: the operations of the tool in any order on the handles it
  has opened, as a step relation.  Every operation keeps the geometry of the mount and leaves the
  bytes of the image before the partition alone, so that both hold in every reachable state.
\<close>

section \<open>What every operation keeps\<close>

text \<open>The mount without the contents of its map and the position of the next search.\<close>

definition geometry :: "conf_fsroot \<Rightarrow> conf_fsroot \<times> nat" where
  "geometry r = (r\<lparr>clusterMap := [], lastClusterAlloc := 0\<rparr>, length (clusterMap r))"

text \<open>The flush of the map is computed at a position that does not wrap.\<close>

definition map_fits :: "conf_fsroot \<Rightarrow> bool" where
  "map_fits r = raw_fits (disk_env r) (loc r + ucast (CLUSTERMAPOFFSET (nLogSectors r) * confBlockSize (root r)))"

definition keeps :: "fsys \<Rightarrow> fsys \<Rightarrow> bool" where
  "keeps fs fs' =
    (geometry (mnt fs') = geometry (mnt fs)
     \<and> (\<forall>off n c. off + n \<le> unat (loc (mnt fs)) * 512 \<longrightarrow>
          file_read (disk fs) off n = Some c \<longrightarrow> file_read (disk fs') off n = Some c))"

lemma geometry_fields:
  assumes "geometry r' = geometry r"
  shows "root r' = root r" "loc r' = loc r" "nClusterItems r' = nClusterItems r" "nLogSectors r' = nLogSectors r"
    "nClusterSectors r' = nClusterSectors r" "length (clusterMap r') = length (clusterMap r)"
proof -
  have e: "r'\<lparr>clusterMap := [], lastClusterAlloc := 0\<rparr> = r\<lparr>clusterMap := [], lastClusterAlloc := 0\<rparr>"
    and "length (clusterMap r') = length (clusterMap r)" using assms by (simp_all add: geometry_def)
  then show "length (clusterMap r') = length (clusterMap r)" by simp
  show "root r' = root r" using arg_cong [OF e, of root] by simp
  show "loc r' = loc r" using arg_cong [OF e, of loc] by simp
  show "nClusterItems r' = nClusterItems r" using arg_cong [OF e, of nClusterItems] by simp
  show "nLogSectors r' = nLogSectors r" using arg_cong [OF e, of nLogSectors] by simp
  show "nClusterSectors r' = nClusterSectors r" using arg_cong [OF e, of nClusterSectors] by simp
qed

lemma geometry_well_formed:
  assumes "geometry r' = geometry r"
  shows "wf_root r' = wf_root r" "map_fits r' = map_fits r"
proof -
  note f = geometry_fields [OF assms]
  have "disk_env r' = disk_env r" "DATAFIRST r' = DATAFIRST r" by (simp_all add: disk_env_def DATAFIRST_def f)
  then show "wf_root r' = wf_root r" "map_fits r' = map_fits r" by (simp_all add: wf_root_def map_fits_def f)
qed

lemma geometry_update [simp]:
  "geometry (map_update i f r) = geometry r" "geometry (r\<lparr>lastClusterAlloc := k\<rparr>) = geometry r"
  by (simp_all add: geometry_def map_update_def)

lemma keeps_refl: "keeps fs fs"
  by (simp add: keeps_def)

lemma keeps_trans [trans]: "keeps fs fs' \<Longrightarrow> keeps fs' fs'' \<Longrightarrow> keeps fs fs''"
  using geometry_fields(2) [of "mnt fs'" "mnt fs"] unfolding keeps_def by simp

lemma keeps_mnt: "geometry r = geometry (mnt fs) \<Longrightarrow> keeps fs (fs\<lparr>mnt := r\<rparr>)"
  by (simp add: keeps_def)

text \<open>A state from which operations may go on, and the clusters of its map.\<close>

definition ready :: "fsys \<Rightarrow> bool" where
  "ready fs = (wf_root (mnt fs) \<and> map_fits (mnt fs))"

definition in_map :: "fsys \<Rightarrow> nat \<Rightarrow> bool" where
  "in_map fs i = (i < unat (nClusterItems (mnt fs)))"

lemma keeps_ready: "keeps fs fs' \<Longrightarrow> ready fs' = ready fs"
  using geometry_well_formed [of "mnt fs'" "mnt fs"] by (simp add: keeps_def ready_def)

lemma keeps_in_map: "keeps fs fs' \<Longrightarrow> in_map fs' i = in_map fs i"
  using geometry_fields(3) [of "mnt fs'" "mnt fs"] by (simp add: keeps_def in_map_def)

text \<open>Composition: what holds of the next state is known once the first step keeps things.\<close>

lemma keeps_then:
  assumes "keeps fs fs'" and "ready fs" and "ready fs' \<Longrightarrow> keeps fs' fs''"
  shows "keeps fs fs''"
  using assms keeps_ready keeps_trans by blast

lemma wf_disk_env: "wf_root r \<Longrightarrow> wf_env (disk_env r)"
  using wf_env_startup [of "confBlockSize (root r)" "loc r"] by (simp add: disk_env_def wf_root_def)

lemma keeps_write:
  assumes "ready fs" and "raw_fits (disk_env (mnt fs)) pos"
  shows "keeps fs (fs\<lparr>disk := writeblocks (disk_env (mnt fs)) b pos n (disk fs)\<rparr>)"
proof -
  have "wf_env (disk_env (mnt fs))" using assms(1) by (simp add: ready_def wf_disk_env)
  then have "unat (seek_pos (disk_env (mnt fs)) pos) = boff (disk_env (mnt fs)) pos"
    using assms(2) by (rule unat_seek_pos)
  moreover have "unat (loc (mnt fs)) * 512 \<le> boff (disk_env (mnt fs)) pos" by (simp add: boff_def)
  ultimately show ?thesis
    by (auto simp: keeps_def writeblocks_def Let_def intro!: file_read_write_other)
qed

lemma cluster_fits: "ready fs \<Longrightarrow> in_map fs i \<Longrightarrow> raw_fits (disk_env (mnt fs)) (getloc (mnt fs) i)"
  using getloc_block_ok [of "mnt fs" i] by (simp add: ready_def in_map_def block_ok_def)

lemma keeps_write_data: "ready fs \<Longrightarrow> in_map fs i \<Longrightarrow> keeps fs (write_data_block i b fs)"
  unfolding write_data_block_def write_block_def by (intro keeps_write cluster_fits)

section \<open>Clusters and files\<close>

lemma ffindhi_in_map: "ffindhi (mnt fs) h k = Some i \<Longrightarrow> in_map fs i"
  by (auto simp: ffindhi_def find_upt_Some in_map_def)

lemma ffind_in_map: "ffind fcode (mnt fs) path = Some i \<Longrightarrow> in_map fs i"
  by (auto simp: ffind_def ffindi_def intro: ffindhi_in_map)

lemma allocatecluster_keeps:
  assumes "allocatecluster (mnt fs) = (r, a)"
  shows "geometry r = geometry (mnt fs)" and "a = Some i \<Longrightarrow> in_map fs i"
  using assms allocatecluster_Some allocatecluster_None
  by (cases a; fastforce simp: in_map_def)+

lemma faddr_keeps:
  assumes "ready fs" and "faddr fb fs = (fs', a)"
  shows "keeps fs fs'" and "a = Some i \<Longrightarrow> in_map fs' i"
proof -
  obtain r b where al: "allocatecluster (mnt fs) = (r, b)" by fastforce
  note k = allocatecluster_keeps [OF al]
  have "keeps fs fs' \<and> (a = Some i \<longrightarrow> in_map fs' i)" for i
  proof (cases b)
    case None
    then show ?thesis using assms(2) al k keeps_mnt by (auto simp: faddr_def)
  next
    case (Some j)
    obtain f where f: "fs' = write_data_block j (replicate (unat (confBlockSize (root r))) 0) (fs\<lparr>mnt := map_update j f r\<rparr>)"
      "a = Some j"
      using assms(2) al Some by (auto simp: faddr_def Let_def)
    have m: "keeps fs (fs\<lparr>mnt := map_update j f r\<rparr>)" using k(1) by (intro keeps_mnt) simp
    moreover have "keeps (fs\<lparr>mnt := map_update j f r\<rparr>) fs'"
      unfolding f using keeps_ready [OF m] keeps_in_map [OF m] assms(1) k(2) Some by (intro keeps_write_data) auto
    ultimately have "keeps fs fs'" by (rule keeps_trans)
    then show ?thesis using k(2) Some f(2) keeps_in_map by auto
  qed
  then show "keeps fs fs'" "a = Some i \<Longrightarrow> in_map fs' i" by auto
qed

lemma extend_keeps:
  assumes "ready fs" and "(case faddr fb fs of (fs1, None) \<Rightarrow> Some fs1 | (fs1, Some k) \<Rightarrow> Some (write_data_block k b fs1)) = Some fs'"
  shows "keeps fs fs'"
proof -
  obtain fs1 a where fa: "faddr fb fs = (fs1, a)" by fastforce
  note k = faddr_keeps [OF assms(1) fa]
  show ?thesis
  proof (cases a)
    case (Some j)
    then have "keeps fs1 fs'"
      using assms fa k keeps_ready [OF k(1)] by (auto intro: keeps_write_data)
    with k(1) show ?thesis by (rule keeps_trans)
  qed (use assms fa k in auto)
qed

lemma ext_skip_in_map:
  "ext_skip r h c k = Some res \<Longrightarrow> pred_option (\<lambda>i. i < unat (nClusterItems r)) c \<longrightarrow>
     pred_option (\<lambda>i. i < unat (nClusterItems r)) (fst res)"
  by (rule ext_skip.raw_induct [where P = "\<lambda>r h c k res. pred_option (\<lambda>i. i < unat (nClusterItems r)) c \<longrightarrow>
        pred_option (\<lambda>i. i < unat (nClusterItems r)) (fst res)"])
     (fastforce simp: ffindhi_def find_upt_Some pred_option_def split: option.splits if_splits)+

lemma fpush1_keeps:
  assumes "ready fs" and "in_map fs fb" and "fpush1 fb i b fs = Some fs'"
  shows "keeps fs fs'"
proof -
  let ?h = "code_of (clusterMap (mnt fs) ! fb)"
  consider (same) "i = ucast (index (clusterMap (mnt fs) ! fb))"
    | (new) "i \<noteq> ucast (index (clusterMap (mnt fs) ! fb))" "ffindhi (mnt fs) ?h i = None"
    | (old) c c' i' where "i \<noteq> ucast (index (clusterMap (mnt fs) ! fb))" "ffindhi (mnt fs) ?h i = Some c"
        "ext_skip (mnt fs) ?h (Some c) i = Some (c', i')"
    using assms(3) by (auto simp: fpush1_def Let_def split: if_splits option.splits Option.bind_splits)
  then show ?thesis
  proof cases
    case same
    then show ?thesis using assms keeps_write_data
      by (auto simp: fpush1_def Let_def keeps_refl split: if_splits)
  next
    case new
    then show ?thesis using assms by (intro extend_keeps [OF assms(1), where fb = fb and b = b]) (simp add: fpush1_def Let_def)
  next
    case old
    have c': "c' = Some k \<Longrightarrow> in_map fs k" for k
      using ext_skip_in_map [OF old(3)] ffindhi_in_map [OF old(2)] by (simp add: in_map_def)
    show ?thesis
    proof (cases c')
      case None
      then show ?thesis using assms(3) old by (intro extend_keeps [OF assms(1), where fb = fb and b = b]) (simp add: fpush1_def Let_def)
    next
      case (Some k)
      then show ?thesis using assms(1,3) old c' keeps_write_data by (auto simp: fpush1_def Let_def)
    qed
  qed
qed

lemma fupdatetstamp_keeps:
  assumes "ready fs" and "in_map fs fb" and "fupdatetstamp now fb wt fs = Some fs'"
  shows "keeps fs fs'"
proof -
  obtain info where "fs' = fs\<lparr>disk := writeblocks (disk_env (mnt fs)) (stamp now wt info) (getloc (mnt fs) fb)
      sizeof_meta_fsblock (disk fs)\<rparr>"
    using assms(3) by (auto simp: fupdatetstamp_def split: Option.bind_splits)
  then show ?thesis using assms(1,2) by (simp add: keeps_write cluster_fits)
qed

lemma fwrite_block_keeps:
  assumes "ready fs" and "in_map fs fb" and "fwrite_block fb pos chunk data fs = Some fs'"
  shows "keeps fs fs'"
  using assms(3) fpush1_keeps [OF assms(1,2)]
  by (auto simp: fwrite_block_def Let_def split: if_splits Option.bind_splits)

lemma fwrite_loop_keeps:
  "ready fs \<Longrightarrow> in_map fs fb \<Longrightarrow> fwrite_loop fb pos left data fs = Some (fs', pos') \<Longrightarrow> keeps fs fs'"
proof (induction fb pos left data fs rule: fwrite_loop.induct)
  case (1 fb pos left data fs)
  let ?bs = "ucast (confBlockSize (root (mnt fs))) :: u64"
  show ?case
  proof (cases "left = 0")
    case True
    then show ?thesis using 1(4) by (simp add: fwrite_loop.simps [of fb pos] keeps_refl)
  next
    case False
    let ?chunk = "chunk_len ?bs pos left"
    obtain fs1 where f: "fwrite_block fb pos ?chunk data fs = Some fs1"
      "fwrite_loop fb (pos + ?chunk) (left - ?chunk) (drop (unat ?chunk) data) fs1 = Some (fs', pos')" and bs: "?bs \<noteq> 0"
      using 1(4) False by (auto simp: fwrite_loop.simps [of fb pos] Let_def split: if_splits Option.bind_splits)
    have k: "keeps fs fs1" using 1(2,3) f(1) by (rule fwrite_block_keeps)
    have "keeps fs1 fs'"
      using 1(1) [OF refl False bs refl f(1)] f(2) keeps_ready [OF k] keeps_in_map [OF k] 1(2,3) by simp
    with k show ?thesis by (rule keeps_trans)
  qed
qed

lemma fwrite_keeps:
  assumes "ready fs" and "in_map fs (fh_file h)" and "fwrite now h nbytes data fs = Some (k, h', fs')"
  shows "keeps fs fs' \<and> fh_file h' = fh_file h"
proof (cases "nbytes = 0")
  case True
  then show ?thesis using assms(3) by (simp add: fwrite_def keeps_refl)
next
  case False
  then obtain fs1 where f: "fupdatetstamp now (fh_file h) True fs = Some fs1"
    "h' = h \<and> fs' = fs1 \<or> (\<exists>pos. h' = h\<lparr>progress := pos\<rparr>
        \<and> fwrite_loop (fh_file h) (progress h) nbytes data fs1 = Some (fs', pos))"
    using assms(3) by (auto simp: fwrite_def split: if_splits Option.bind_splits)
  have k: "keeps fs fs1" using assms(1,2) f(1) by (rule fupdatetstamp_keeps)
  then have "ready fs1" "in_map fs1 (fh_file h)" using assms(1,2) keeps_ready keeps_in_map by auto
  then show ?thesis using f(2) k fwrite_loop_keeps keeps_trans by auto
qed

lemma fread_keeps:
  assumes "ready fs" and "in_map fs (fh_file h)" and "fread now h nbytes fs = Some (k, out, h', fs')"
  shows "keeps fs fs' \<and> fh_file h' = fh_file h"
proof -
  have "fs' = fs \<and> h' = h \<or> fupdatetstamp now (fh_file h) False fs = Some fs' \<and> (\<exists>pos. h' = h\<lparr>progress := pos\<rparr>)"
    using assms(3) by (auto simp: fread_def split: if_splits Option.bind_splits)
  then show ?thesis using fupdatetstamp_keeps [OF assms(1,2), of now False fs'] keeps_refl by auto
qed

section \<open>Directories\<close>

lemma fuloadroot_keeps:
  assumes "ready fs"
  shows "keeps fs (fuloadroot fs)"
proof -
  let ?re = "disk_env (mnt fs)"
  have "raw_fits ?re (loc (mnt fs))"
    using assms by (simp add: raw_fits_def boff_def ready_def wf_root_def)
  then have k: "keeps fs (fs\<lparr>disk := writeblocks ?re b (loc (mnt fs)) n (disk fs)\<rparr>)" for b n
    using assms by (intro keeps_write)
  have m: "raw_fits ?re (loc (mnt fs) + ucast (CLUSTERMAPOFFSET (nLogSectors (mnt fs)) * confBlockSize (root (mnt fs))))"
    using assms by (simp add: ready_def map_fits_def)
  show ?thesis
    unfolding fuloadroot_def Let_def
    using k keeps_then [OF k assms keeps_write] m by auto
qed

lemma flush_entries_keeps: "flush_entries code arr ent fs = Some fs' \<Longrightarrow> ready fs \<longrightarrow> keeps fs fs'"
proof (rule flush_entries.raw_induct [where P = "\<lambda>code arr ent fs fs'. ready fs \<longrightarrow> keeps fs fs'"])
  fix f code arr ent fs fs'
  assume IH: "\<And>code arr ent fs fs'. f code arr ent fs = Some fs' \<Longrightarrow> ready fs \<longrightarrow> keeps fs fs'"
    and step: "(case ffindhi (mnt fs) code (ent + 1) of None \<Rightarrow> Some fs
      | Some i \<Rightarrow> let bs = unat (confBlockSize (root (mnt fs)))
          in if arr = [] \<and> ent = 0 then f code arr (ent + 1) fs
             else if bs * unat ent + bs \<le> length arr
               then f code arr (ent + 1) (write_data_block i (drop (bs * unat ent) arr) fs)
             else None) = Some fs'"
  show "ready fs \<longrightarrow> keeps fs fs'"
  proof
    assume r: "ready fs"
    show "keeps fs fs'"
    proof (cases "ffindhi (mnt fs) code (ent + 1)")
      case None
      then show ?thesis using step by (simp add: keeps_refl)
    next
      case (Some i)
      then have "keeps fs (write_data_block i b fs)" for b using r ffindhi_in_map keeps_write_data by blast
      then show ?thesis using step Some IH [of code arr "ent + 1"] r by (auto simp: Let_def intro: keeps_then split: if_splits)
    qed
  qed
qed

lemma fuloaddir_keeps: "ready fs \<Longrightarrow> fuloaddir d fs = Some fs' \<Longrightarrow> keeps fs fs'"
  unfolding fuloaddir_def using fuloadroot_keeps flush_entries_keeps keeps_then by blast

lemma fdirrefresh_file: "fdirrefresh fcode fs d = Some d' \<Longrightarrow> dfile d' = dfile d"
  by (auto simp: fdirrefresh_def)

lemma fdiradd_keeps:
  "fdiradd fcode fb d fs = Some res \<Longrightarrow> ready fs \<longrightarrow> keeps fs (snd res) \<and> dfile (fst res) = dfile d"
proof (rule fdiradd.raw_induct [where P = "\<lambda>fcode fb d fs res. ready fs \<longrightarrow> keeps fs (snd res) \<and> dfile (fst res) = dfile d"])
  fix f fcode fb d fs res
  assume IH: "\<And>fcode fb d fs res. f fcode fb d fs = Some res \<Longrightarrow> ready fs \<longrightarrow> keeps fs (snd res) \<and> dfile (fst res) = dfile d"
    and step: "(case fdirrefresh fcode fs d of None \<Rightarrow> None
      | Some h1 \<Rightarrow> if dirarray h1 = [] then f fcode fb h1 (fst (faddr (dfile h1) fs))
          else (case diradd_scan (fb_of fs fb) 0 (dirarray h1) of None \<Rightarrow> None
             | Some (Inl arr) \<Rightarrow> Some (h1\<lparr>dirarray := arr\<rparr>, fs)
             | Some (Inr arr) \<Rightarrow> f fcode fb (h1\<lparr>dirarray := arr\<rparr>) (fst (faddr (dfile h1) fs)))) = Some res"
  show "ready fs \<longrightarrow> keeps fs (snd res) \<and> dfile (fst res) = dfile d"
  proof
    assume r: "ready fs"
    obtain h1 where h1: "fdirrefresh fcode fs d = Some h1" "dfile h1 = dfile d"
      using step fdirrefresh_file by (auto split: option.splits)
    let ?fs = "fst (faddr (dfile h1) fs)"
    have k: "keeps fs ?fs" using faddr_keeps(1) [OF r] by (metis prod.collapse)
    have "keeps fs (snd res) \<and> dfile (fst res) = dfile d" if "f fcode fb h ?fs = Some res" "dfile h = dfile d" for h
      using IH [OF that(1)] keeps_ready [OF k] r k keeps_trans that(2) by auto
    then show "keeps fs (snd res) \<and> dfile (fst res) = dfile d"
      using step h1 by (auto simp: keeps_refl split: if_splits option.splits sum.splits)
  qed
qed

lemma finit_keeps:
  assumes "ready fs" and "in_map fs fb" and "finit now fb path fs = Some fs'"
  shows "keeps fs fs'"
  using assms by (auto simp: finit_def Let_def keeps_write cluster_fits split: if_splits Option.bind_splits)

text \<open>What is asked of the creation that opening a directory may call.\<close>

definition safe_create :: "(string \<Rightarrow> string \<Rightarrow> fsys \<Rightarrow> fsys option) \<Rightarrow> bool" where
  "safe_create create = (\<forall>path flgs fs fs'. ready fs \<longrightarrow> create path flgs fs = Some fs' \<longrightarrow> keeps fs fs')"

lemma floadhdir_keeps:
  assumes "safe_create create" and "ready fs" and "floadhdir_with create fcode path args fs = Some (d, fs')"
  shows "keeps fs fs'" and "d = Some h \<Longrightarrow> in_map fs' (dfile h)"
proof -
  let ?opened = "\<lambda>fs i. if flag_check (attributes (fb_of fs i)) fsdirectory
      then map_option (\<lambda>h. (Some h, fs)) (fdirrefresh fcode fs \<lparr>dpath = path, dfile = i, loadedblocks = 0, dirarray = []\<rparr>)
      else Some (None, fs)"
  have opened: "g' = g \<and> (d = Some h \<longrightarrow> dfile h = i)" if "?opened g i = Some (d, g')" for g g' i d h
    using that fdirrefresh_file by (fastforce split: if_splits)
  have "keeps fs fs' \<and> (d = Some h \<longrightarrow> in_map fs' (dfile h))" for h
  proof (cases "ffind fcode (mnt fs) path")
    case (Some i)
    then have "?opened fs i = Some (d, fs')" using assms(3) by (simp add: floadhdir_with_def Let_def)
    from opened [OF this] show ?thesis using ffind_in_map [OF Some] keeps_refl by auto
  next
    case None
    then obtain fs1 where f: "create path args fs = Some fs1"
      "(case ffind fcode (mnt fs1) path of None \<Rightarrow> Some (None, fs1) | Some i \<Rightarrow> ?opened fs1 i) = Some (d, fs')"
      using assms(3) by (auto simp: floadhdir_with_def Let_def split: if_splits Option.bind_splits)
    have "keeps fs fs1" using assms(1,2) f(1) unfolding safe_create_def by blast
    moreover have "fs' = fs1 \<and> (d = Some h \<longrightarrow> in_map fs1 (dfile h))"
    proof (cases "ffind fcode (mnt fs1) path")
      case (Some i)
      then have "?opened fs1 i = Some (d, fs')" using f(2) by simp
      from opened [OF this] show ?thesis using ffind_in_map [OF Some] by auto
    qed (use f(2) in simp)
    ultimately show ?thesis by simp
  qed
  then show "keeps fs fs'" "d = Some h \<Longrightarrow> in_map fs' (dfile h)" by auto
qed

lemma fgetparent_keeps:
  assumes "safe_create create" and "ready fs" and "fgetparent_with create fcode path fs = Some (d, fs')"
  shows "keeps fs fs'"
proof (cases "parent_path path")
  case None
  then show ?thesis using assms(3) by (simp add: fgetparent_with_def keeps_refl)
next
  case (Some p)
  then show ?thesis using assms(3) floadhdir_keeps(1) [OF assms(1,2), of fcode p "''dc''"] by (simp add: fgetparent_with_def)
qed

text \<open>The entry in the parent directory.\<close>

lemma enter_keeps:
  assumes "ready fs"
    and "(case dh of None \<Rightarrow> Some fs
          | Some d \<Rightarrow> let db = fb_of fs (dfile d); fb = fb_of fs i in
              if fcodelow db \<noteq> fcodelow fb \<and> fcodehigh db \<noteq> fcodehigh fb
              then do { (d1, fs3) \<leftarrow> fdiradd fcode i d fs; fuloaddir d1 fs3 } else Some fs) = Some fs'"
  shows "keeps fs fs'"
proof -
  have "fs' = fs \<or> (\<exists>d d1 fs3. fdiradd fcode i d fs = Some (d1, fs3) \<and> fuloaddir d1 fs3 = Some fs')"
    using assms(2) by (auto simp: Let_def split: option.splits if_splits Option.bind_splits)
  then show ?thesis
  proof (elim disjE exE conjE)
    fix d d1 fs3 assume f: "fdiradd fcode i d fs = Some (d1, fs3)" "fuloaddir d1 fs3 = Some fs'"
    have "keeps fs fs3" using fdiradd_keeps [OF f(1)] assms(1) by simp
    then show ?thesis using assms(1) fuloaddir_keeps f(2) by (blast intro: keeps_then)
  qed (simp add: keeps_refl)
qed

lemma fcreate_with_keeps:
  assumes "safe_create create" and "ready fs" and "fcreate_with create fcode now path flgs fs = Some fs'"
  shows "keeps fs fs'"
proof (cases "ffind fcode (mnt fs) path \<noteq> None \<and> \<not> strcheck flgs (CHR ''F'')")
  case True
  then show ?thesis using assms(3) by (auto simp: fcreate_with_def Let_def keeps_refl)
next
  case False
  define r0 where "r0 = (if ffind fcode (mnt fs) path \<noteq> None then the (ffremove fcode (mnt fs) path) else mnt fs)"
  obtain r1 a where al: "allocatecluster r0 = (r1, a)" by fastforce
  have k0: "keeps fs (fs\<lparr>mnt := r0\<rparr>)" by (rule keeps_mnt) (auto simp: r0_def ffremove_def)
  moreover have g: "geometry r1 = geometry r0" "\<And>i. a = Some i \<Longrightarrow> in_map (fs\<lparr>mnt := r0\<rparr>) i"
    using allocatecluster_keeps [of "fs\<lparr>mnt := r0\<rparr>"] al by simp_all
  ultimately have k1: "keeps fs (fs\<lparr>mnt := map_update i f r1\<rparr>)" "keeps fs (fs\<lparr>mnt := r1\<rparr>)" for i f
    by (simp_all add: keeps_def)
  show ?thesis
  proof (cases a)
    case None
    then have "fs' = fs\<lparr>mnt := r1\<rparr>"
      using assms(3) False al by (auto simp: fcreate_with_def Let_def r0_def ffremove_def split: if_splits)
    then show ?thesis using k1 by simp
  next
    case (Some i)
    define r2 where "r2 = map_update i (\<lambda>b. b\<lparr>attributes := create_attributes flgs (attributes b),
      fcodehigh := ucast (snd (fcode path) AND FCODEHASHMASK), fcodelow := fst (fcode path), index := 0\<rparr>) r1"
    have k2: "keeps fs (fs\<lparr>mnt := r2\<rparr>)" unfolding r2_def by (rule k1)
    have eq: "(do { (dh, fs1) \<leftarrow> fgetparent_with create fcode path (fs\<lparr>mnt := r2\<rparr>);
            fs2 \<leftarrow> (case dh of None \<Rightarrow> Some fs1
                    | Some d \<Rightarrow> let db = fb_of fs1 (dfile d); fb = fb_of fs1 i in
                        if fcodelow db \<noteq> fcodelow fb \<and> fcodehigh db \<noteq> fcodehigh fb
                        then do { (d1, fs3) \<leftarrow> fdiradd fcode i d fs1; fuloaddir d1 fs3 }
                        else Some fs1);
            finit now i (PATHnoSEP # path) fs2 }) = Some fs'"
      using assms(3) False al Some unfolding r2_def
      by (auto simp: fcreate_with_def Let_def r0_def ffremove_def split: if_splits)
    then obtain dh fs1 where f1: "fgetparent_with create fcode path (fs\<lparr>mnt := r2\<rparr>) = Some (dh, fs1)"
      by (cases "fgetparent_with create fcode path (fs\<lparr>mnt := r2\<rparr>)") auto
    define X where "X = (case dh of None \<Rightarrow> Some fs1
          | Some d \<Rightarrow> let db = fb_of fs1 (dfile d); fb = fb_of fs1 i in
              if fcodelow db \<noteq> fcodelow fb \<and> fcodehigh db \<noteq> fcodehigh fb
              then do { (d1, fs3) \<leftarrow> fdiradd fcode i d fs1; fuloaddir d1 fs3 } else Some fs1)"
    have "Option.bind X (finit now i (PATHnoSEP # path)) = Some fs'"
      using eq unfolding f1 X_def by (simp only: bind.simps prod.case)
    then obtain fs2 where f2: "X = Some fs2" and f3: "finit now i (PATHnoSEP # path) fs2 = Some fs'"
      by (cases X) simp_all
    have k3: "keeps fs fs1" using k2 assms(2) fgetparent_keeps [OF assms(1) _ f1] by (rule keeps_then)
    have k4: "keeps fs fs2" using k3 assms(2) enter_keeps [OF _ f2 [unfolded X_def]] by (rule keeps_then)
    have "in_map fs2 i" using g(2) [OF Some] keeps_in_map [OF k0] keeps_in_map [OF k4] by simp
    then show ?thesis using finit_keeps [OF _ _ f3] k4 assms(2) by (blast intro: keeps_then)
  qed
qed

lemma fcreate_n_safe: "safe_create (fcreate_n n fcode now)"
proof (induction n)
  case 0
  then show ?case by (simp add: safe_create_def)
next
  case (Suc n)
  then show ?case using fcreate_with_keeps [OF Suc.IH] by (simp add: safe_create_def)
qed

lemma fcreate_safe: "safe_create (fcreate fcode now)"
  using fcreate_n_safe unfolding safe_create_def fcreate_def by blast

lemma floadh_keeps:
  assumes "ready fs" and "floadh fcode now path args fs = Some (h, fs')"
  shows "keeps fs fs'" and "h = Some fh \<Longrightarrow> in_map fs' (fh_file fh)"
proof -
  obtain fs1 where f: "(if strcheck args (CHR ''c'') then fcreate fcode now path args fs else Some fs) = Some fs1"
    "fs' = fs1" "h = map_option (\<lambda>fb. \<lparr>fh_file = fb, progress = ucast (confBlockSize (root (mnt fs1)))\<rparr>) (ffind fcode (mnt fs1) path)"
    using assms(2) by (auto simp: floadh_def split: Option.bind_splits)
  then show "keeps fs fs'" using fcreate_safe assms(1) keeps_refl unfolding safe_create_def by (auto split: if_splits)
  show "h = Some fh \<Longrightarrow> in_map fs' (fh_file fh)" using f ffind_in_map by auto
qed

lemma floadhdir_top_keeps:
  assumes "ready fs" and "floadhdir fcode now path args fs = Some (d, fs')"
  shows "keeps fs fs'" and "d = Some h \<Longrightarrow> in_map fs' (dfile h)"
  using floadhdir_keeps [OF fcreate_safe assms(1)] assms(2) unfolding floadhdir_def by blast+

text \<open>The handles that listing a directory returns.\<close>

definition item_files :: "unhandle option \<Rightarrow> fhandle list" where
  "item_files item = (case item of Some (UFile (Some h)) \<Rightarrow> [h] | _ \<Rightarrow> [])"

definition item_dirs :: "unhandle option \<Rightarrow> dirhandle list" where
  "item_dirs item = (case item of Some (UDir (Some d)) \<Rightarrow> [d] | _ \<Rightarrow> [])"

definition item_in_map :: "fsys \<Rightarrow> unhandle option \<Rightarrow> bool" where
  "item_in_map fs item =
    ((\<forall>h \<in> set (item_files item). in_map fs (fh_file h)) \<and> (\<forall>d \<in> set (item_dirs item). in_map fs (dfile d)))"

lemma item_in_map_simps [simp]:
  "item_in_map fs None" "item_in_map fs (Some (UFile None))" "item_in_map fs (Some (UDir None))"
  "item_in_map fs (Some (UFile (Some h))) = in_map fs (fh_file h)"
  "item_in_map fs (Some (UDir (Some d))) = in_map fs (dfile d)"
  by (simp_all add: item_in_map_def item_files_def item_dirs_def)

lemma fdirlist_keeps:
  assumes "ready fs" and "fdirlist fcode now d idx fs = Some (item, idx', d', fs')"
  shows "keeps fs fs'" and "dfile d' = dfile d" and "item_in_map fs' item"
proof -
  have c: "fs' = fs \<and> item = None \<or> (\<exists>path h. floadhdir fcode now path [] fs = Some (h, fs') \<and> item = Some (UDir h))
      \<or> (\<exists>path h. floadh fcode now path ''f'' fs = Some (h, fs') \<and> item = Some (UFile h))"
    and "dfile d' = dfile d"
    using assms(2) fdirrefresh_file [of fcode fs d]
    by (auto simp: fdirlist_def Let_def split: if_splits option.splits Option.bind_splits)
  then show "dfile d' = dfile d" by simp
  show "keeps fs fs'"
    using c floadhdir_top_keeps(1) [OF assms(1)] floadh_keeps(1) [OF assms(1)] keeps_refl by blast
  have "item_in_map fs' (Some (UDir h))" if "floadhdir fcode now path [] fs = Some (h, fs')" for path h
    using floadhdir_top_keeps(2) [OF assms(1) that] by (cases h) auto
  moreover have "item_in_map fs' (Some (UFile h))" if "floadh fcode now path ''f'' fs = Some (h, fs')" for path h
    using floadh_keeps(2) [OF assms(1) that] by (cases h) auto
  ultimately show "item_in_map fs' item" using c by auto
qed

lemma dirr_keeps:
  "dirr fcode now dr fs = Some res \<Longrightarrow> ready fs \<longrightarrow> keeps fs (snd (snd res)) \<and> item_in_map (snd (snd res)) (fst res)"
proof (rule dirr.raw_induct [where P = "\<lambda>fcode now dr fs res. ready fs \<longrightarrow>
    keeps fs (snd (snd res)) \<and> item_in_map (snd (snd res)) (fst res)"])
  fix f :: "(string \<Rightarrow> u64 \<times> u64) \<Rightarrow> nat \<times> nat \<Rightarrow> dirrunner \<Rightarrow> fsys \<Rightarrow> (unhandle option \<times> dirrunner \<times> fsys) option"
    and fcode now dr fs res
  assume IH: "\<And>fcode now dr fs res. f fcode now dr fs = Some res \<Longrightarrow>
      ready fs \<longrightarrow> keeps fs (snd (snd res)) \<and> item_in_map (snd (snd res)) (fst res)"
    and step: "(if stack_depth dr = 0 then Some (None, dr, fs)
     else
       let top = unat (stack_depth dr - 1)
       in case dir_stack dr ! top of
            None \<Rightarrow> None
          | Some current \<Rightarrow>
              (case fdirlist fcode now current (idx_stack dr ! top) fs of
                 None \<Rightarrow> None
               | Some (item, idx, current1, fs1) \<Rightarrow>
                   let dr1 = dr\<lparr>idx_stack := (idx_stack dr)[top := idx],
                                dir_stack := (dir_stack dr)[top := Some current1]\<rparr>
                   in case Option.bind item unhandle_file of
                        None \<Rightarrow>
                          (case (if top > 0 then fuloaddir current1 fs1 else Some fs1) of
                             None \<Rightarrow> None
                           | Some fs2 \<Rightarrow> f fcode now (snd (dirr_pop dr1)) fs2)
                      | Some fb \<Rightarrow>
                          (case dirr_matches dr1 fb fs1 of
                             None \<Rightarrow> None
                           | Some matches \<Rightarrow>
                               let dr2 = (case item of Some (UDir (Some h)) \<Rightarrow> dirr_push h dr1 | _ \<Rightarrow> dr1)
                               in if matches then Some (item, dr2, fs1) else f fcode now dr2 fs1))) = Some res"
  show "ready fs \<longrightarrow> keeps fs (snd (snd res)) \<and> item_in_map (snd (snd res)) (fst res)"
  proof
    assume r: "ready fs"
    have again: "keeps fs (snd (snd res)) \<and> item_in_map (snd (snd res)) (fst res)"
      if "f fcode now dr' fs2 = Some res" "keeps fs fs2" for dr' fs2
      using IH [OF that(1)] keeps_ready [OF that(2)] r that(2) keeps_trans by blast
    show "keeps fs (snd (snd res)) \<and> item_in_map (snd (snd res)) (fst res)"
    proof (cases "stack_depth dr = 0")
      case True
      then show ?thesis using step by (auto simp: keeps_refl)
    next
      case False
      define top where "top = unat (stack_depth dr - 1)"
      obtain current item idx current1 fs1 where l: "dir_stack dr ! top = Some current"
          "fdirlist fcode now current (idx_stack dr ! top) fs = Some (item, idx, current1, fs1)"
        using step False by (auto simp: Let_def top_def split: option.splits)
      note k = fdirlist_keeps [OF r l(2)]
      have k2: "keeps fs fs2" if "(if top > 0 then fuloaddir current1 fs1 else Some fs1) = Some fs2" for fs2
        using that keeps_then [OF k(1) r fuloaddir_keeps] k(1) by (auto split: if_splits)
      show ?thesis
      proof (cases "Option.bind item unhandle_file")
        case None
        then show ?thesis using step False l k2 again by (auto simp: Let_def top_def split: option.splits)
      next
        case (Some fb)
        then have "res = (item, snd res) \<and> snd (snd res) = fs1 \<or> (\<exists>dr'. f fcode now dr' fs1 = Some res)"
          using step False l by (auto simp: Let_def top_def [symmetric] split: option.splits if_splits)
        then show ?thesis using k again by (metis fst_conv)
      qed
    qed
  qed
qed

lemma dirr_free_from_keeps: "ready fs \<Longrightarrow> dirr_free_from cc hs fs = Some fs' \<Longrightarrow> keeps fs fs'"
proof (induction cc hs fs rule: dirr_free_from.induct)
  case (2 cc h hs fs)
  then obtain fs1 where f: "(case h of Some d \<Rightarrow> if cc > 0 then fuloaddir d fs else Some fs | None \<Rightarrow> Some fs) = Some fs1"
    "dirr_free_from (Suc cc) hs fs1 = Some fs'" by (auto split: Option.bind_splits)
  have k: "keeps fs fs1" using f(1) 2(2) fuloaddir_keeps keeps_refl by (auto split: option.splits if_splits)
  then show ?case using 2(1) [OF f(1)] f(2) 2(2) keeps_ready keeps_trans by blast
qed (simp add: keeps_refl)

section \<open>Sessions\<close>

text \<open>A mounted file system together with the file and directory handles that are open.\<close>

record session =
  sfs :: fsys
  fhs :: "fhandle list"
  dhs :: "dirhandle list"

inductive session_step :: "(string \<Rightarrow> u64 \<times> u64) \<Rightarrow> session \<Rightarrow> session \<Rightarrow> bool" for fcode where
  step_create: "fcreate fcode now path flgs (sfs s) = Some fs' \<Longrightarrow> session_step fcode s (s\<lparr>sfs := fs'\<rparr>)"
| step_open_file: "floadh fcode now path args (sfs s) = Some (Some h, fs') \<Longrightarrow>
    session_step fcode s (s\<lparr>sfs := fs', fhs := h # fhs s\<rparr>)"
| step_open_dir: "floadhdir fcode now path args (sfs s) = Some (Some d, fs') \<Longrightarrow>
    session_step fcode s (s\<lparr>sfs := fs', dhs := d # dhs s\<rparr>)"
| step_seek: "i < length (fhs s) \<Longrightarrow> session_step fcode s (s\<lparr>fhs := (fhs s)[i := fseeko (sfs s) off (fhs s ! i)]\<rparr>)"
| step_seek_to: "i < length (fhs s) \<Longrightarrow> session_step fcode s (s\<lparr>fhs := (fhs s)[i := fseek (sfs s) off (fhs s ! i)]\<rparr>)"
| step_write: "i < length (fhs s) \<Longrightarrow> fwrite now (fhs s ! i) n data (sfs s) = Some (k, h', fs') \<Longrightarrow>
    session_step fcode s (s\<lparr>sfs := fs', fhs := (fhs s)[i := h']\<rparr>)"
| step_read: "i < length (fhs s) \<Longrightarrow> fread now (fhs s ! i) n (sfs s) = Some (k, out, h', fs') \<Longrightarrow>
    session_step fcode s (s\<lparr>sfs := fs', fhs := (fhs s)[i := h']\<rparr>)"
| step_enter: "j < length (dhs s) \<Longrightarrow> fdiradd fcode fb (dhs s ! j) (sfs s) = Some (d', fs') \<Longrightarrow>
    session_step fcode s (s\<lparr>sfs := fs', dhs := (dhs s)[j := d']\<rparr>)"
| step_list_dir: "j < length (dhs s) \<Longrightarrow> fdirlist fcode now (dhs s ! j) idx (sfs s) = Some (item, idx', d', fs') \<Longrightarrow>
    session_step fcode s (s\<lparr>sfs := fs', fhs := item_files item @ fhs s, dhs := item_dirs item @ (dhs s)[j := d']\<rparr>)"
| step_walk: "dirr fcode now dr (sfs s) = Some (item, dr', fs') \<Longrightarrow>
    session_step fcode s (s\<lparr>sfs := fs', fhs := item_files item @ fhs s, dhs := item_dirs item @ dhs s\<rparr>)"
| step_walk_end: "dirr_free dr (sfs s) = Some fs' \<Longrightarrow> session_step fcode s (s\<lparr>sfs := fs'\<rparr>)"
| step_close_dir: "j < length (dhs s) \<Longrightarrow> fuloaddir (dhs s ! j) (sfs s) = Some fs' \<Longrightarrow>
    session_step fcode s (s\<lparr>sfs := fs', dhs := take j (dhs s) @ drop (Suc j) (dhs s)\<rparr>)"
| step_close_file: "i < length (fhs s) \<Longrightarrow>
    session_step fcode s (s\<lparr>sfs := fuloadh (fhs s ! i) (sfs s), fhs := take i (fhs s) @ drop (Suc i) (fhs s)\<rparr>)"
| step_remove: "ffremove fcode (mnt (sfs s)) path = Some r' \<Longrightarrow> session_step fcode s (s\<lparr>sfs := (sfs s)\<lparr>mnt := r'\<rparr>\<rparr>)"
| step_remove_all: "session_step fcode s (s\<lparr>sfs := (sfs s)\<lparr>mnt := ffremovel fcode (mnt (sfs s)) path\<rparr>\<rparr>)"

definition session_ok :: "session \<Rightarrow> session \<Rightarrow> bool" where
  "session_ok s0 s =
    (keeps (sfs s0) (sfs s) \<and> (\<forall>h \<in> set (fhs s). in_map (sfs s0) (fh_file h)) \<and> (\<forall>d \<in> set (dhs s). in_map (sfs s0) (dfile d)))"

lemma seek_file [simp]: "fh_file (fseeko fs off h) = fh_file h" "fh_file (fseek fs off h) = fh_file h"
  by (simp_all add: fseeko_def fseek_def Let_def)

lemma ffremovel_geometry: "geometry (ffremovel fcode r path) = geometry r"
proof -
  have "geometry (fold (ffremovelh_step lo hi) xs r) = geometry r" for lo hi xs
    by (induction xs arbitrary: r) (simp_all add: ffremovelh_step_def)
  then show ?thesis by (simp add: ffremovel_def ffremovelh_def)
qed

lemma session_ok_update:
  assumes "session_ok s0 s" and "keeps (sfs s) fs'"
    and "\<forall>h \<in> set hs. h \<in> set (fhs s) \<or> in_map fs' (fh_file h)" and "\<forall>d \<in> set ds. d \<in> set (dhs s) \<or> in_map fs' (dfile d)"
  shows "session_ok s0 (s\<lparr>sfs := fs', fhs := hs, dhs := ds\<rparr>)"
proof -
  have k: "keeps (sfs s0) fs'" using assms(1,2) keeps_trans unfolding session_ok_def by blast
  then show ?thesis using assms(1,3,4) keeps_in_map [OF k] unfolding session_ok_def by auto
qed

text \<open>The same where some components of the state do not change.\<close>

lemma session_ok_sfs: "session_ok s0 s \<Longrightarrow> keeps (sfs s) fs' \<Longrightarrow> session_ok s0 (s\<lparr>sfs := fs'\<rparr>)"
  using session_ok_update [of s0 s fs' "fhs s" "dhs s"] by simp

lemma session_ok_files:
  "session_ok s0 s \<Longrightarrow> keeps (sfs s) fs' \<Longrightarrow> \<forall>h \<in> set hs. h \<in> set (fhs s) \<or> in_map fs' (fh_file h) \<Longrightarrow>
   session_ok s0 (s\<lparr>sfs := fs', fhs := hs\<rparr>)"
  using session_ok_update [of s0 s fs' hs "dhs s"] by simp

lemma session_ok_dirs:
  "session_ok s0 s \<Longrightarrow> keeps (sfs s) fs' \<Longrightarrow> \<forall>d \<in> set ds. d \<in> set (dhs s) \<or> in_map fs' (dfile d) \<Longrightarrow>
   session_ok s0 (s\<lparr>sfs := fs', dhs := ds\<rparr>)"
  using session_ok_update [of s0 s fs' "fhs s" ds] by simp

lemma session_ok_handle:
  assumes "session_ok s0 s" and "keeps (sfs s) fs'"
  shows "i < length (fhs s) \<Longrightarrow> in_map (sfs s) (fh_file (fhs s ! i))" "i < length (fhs s) \<Longrightarrow> in_map fs' (fh_file (fhs s ! i))"
    "j < length (dhs s) \<Longrightarrow> in_map fs' (dfile (dhs s ! j))"
  using assms keeps_in_map [of "sfs s0" "sfs s"] keeps_in_map [OF assms(2)] unfolding session_ok_def by auto

lemma set_update_cases: "x \<in> set (xs[i := y]) \<Longrightarrow> x \<in> set xs \<or> x = y"
  using set_update_subset_insert [of xs i y] by auto

lemma set_removed: "x \<in> set (take i xs @ drop j xs) \<Longrightarrow> x \<in> set xs"
  by (auto dest: in_set_takeD in_set_dropD)

lemma session_step_ok:
  assumes "session_step fcode s s'" and "ready (sfs s0)" and "session_ok s0 s"
  shows "session_ok s0 s'"
proof -
  have r: "ready (sfs s)" using assms(2,3) keeps_ready unfolding session_ok_def by blast
  note same = session_ok_handle [OF assms(3) keeps_refl]
  from assms(1) show ?thesis
  proof cases
    case (step_create now path flgs fs')
    then show ?thesis using assms(3) r fcreate_safe unfolding safe_create_def by (blast intro: session_ok_sfs)
  next
    case (step_open_file now path args h fs')
    note k = floadh_keeps [OF r step_open_file(2)]
    show ?thesis unfolding step_open_file(1) using k by (intro session_ok_files assms(3)) auto
  next
    case (step_open_dir now path args d fs')
    note k = floadhdir_top_keeps [OF r step_open_dir(2)]
    show ?thesis unfolding step_open_dir(1) using k by (intro session_ok_dirs assms(3)) auto
  next
    case (step_seek i off)
    then show ?thesis using assms(3) unfolding session_ok_def by (auto dest!: set_update_cases)
  next
    case (step_seek_to i off)
    then show ?thesis using assms(3) unfolding session_ok_def by (auto dest!: set_update_cases)
  next
    case (step_write i now n data k h' fs')
    note k = fwrite_keeps [OF r same(1) [OF step_write(2)] step_write(3)]
    show ?thesis
      unfolding step_write(1) using k step_write(2) session_ok_handle(2) [OF assms(3)]
      by (intro session_ok_files assms(3)) (auto dest!: set_update_cases)
  next
    case (step_read i now n k out h' fs')
    note k = fread_keeps [OF r same(1) [OF step_read(2)] step_read(3)]
    show ?thesis
      unfolding step_read(1) using k step_read(2) session_ok_handle(2) [OF assms(3)]
      by (intro session_ok_files assms(3)) (auto dest!: set_update_cases)
  next
    case (step_enter j fb d' fs')
    then have k: "keeps (sfs s) fs' \<and> dfile d' = dfile (dhs s ! j)"
      using fdiradd_keeps [OF step_enter(3)] r by simp
    then show ?thesis
      unfolding step_enter(1) using step_enter(2) session_ok_handle(3) [OF assms(3)]
      by (intro session_ok_dirs assms(3)) (auto dest!: set_update_cases)
  next
    case (step_list_dir j now idx item idx' d' fs')
    note k = fdirlist_keeps [OF r step_list_dir(3)]
    show ?thesis
      unfolding step_list_dir(1) using k step_list_dir(2) session_ok_handle(3) [OF assms(3) k(1)]
      by (intro session_ok_update assms(3)) (auto simp: item_in_map_def dest!: set_update_cases)
  next
    case (step_walk now dr item dr' fs')
    then have k: "keeps (sfs s) fs' \<and> item_in_map fs' item"
      using dirr_keeps [OF step_walk(2)] r by simp
    then show ?thesis
      unfolding step_walk(1) by (intro session_ok_update assms(3)) (auto simp: item_in_map_def)
  next
    case (step_walk_end dr fs')
    then show ?thesis
      using session_ok_sfs [OF assms(3)] dirr_free_from_keeps [OF r] unfolding dirr_free_def by blast
  next
    case (step_close_dir j fs')
    then show ?thesis
      using session_ok_dirs [OF assms(3) fuloaddir_keeps [OF r step_close_dir(3)]] by (auto dest: set_removed)
  next
    case (step_close_file i)
    then show ?thesis
      using session_ok_files [OF assms(3) fuloadroot_keeps [OF r]] by (auto simp: fuloadh_def dest: set_removed)
  next
    case (step_remove path r')
    then have "keeps (sfs s) ((sfs s)\<lparr>mnt := r'\<rparr>)" by (intro keeps_mnt) (auto simp: ffremove_def)
    then show ?thesis unfolding step_remove(1) by (rule session_ok_sfs [OF assms(3)])
  next
    case (step_remove_all path)
    then show ?thesis using session_ok_sfs [OF assms(3) keeps_mnt [OF ffremovel_geometry]] by simp
  qed
qed

text \<open>Sessions of any length.\<close>

inductive session_run :: "(string \<Rightarrow> u64 \<times> u64) \<Rightarrow> session \<Rightarrow> session \<Rightarrow> bool" for fcode s0 where
  session_start: "session_run fcode s0 s0"
| session_next: "session_run fcode s0 s \<Longrightarrow> session_step fcode s s' \<Longrightarrow> session_run fcode s0 s'"

lemma session_run_ok:
  assumes "session_run fcode s0 s" and "ready (sfs s0)" and "session_ok s0 s0"
  shows "session_ok s0 s"
  using assms by (induction rule: session_run.induct) (auto intro: session_step_ok)

section \<open>Mounting and flushing around a session\<close>

lemma length_encode_map: "length (encode_map m) = 20 * length m"
  by (induction m) (simp_all add: encode_map_def encode_fsblock_def)

lemma length_readblocks:
  assumes "wf_env re" and "readblocks re img pos n = Some b" and "unat n < 2 ^ 62"
  shows "length b = rounded re (unat n)"
proof -
  have "RealBlock re = 512" using assms(1) by (simp add: wf_env_def)
  then show ?thesis
    using assms(2) unat_n_blocks(2) [OF assms(1,3)]
    by (auto simp: readblocks_def Let_def file_read_def split: if_splits)
qed

text \<open>The fields of a mount agree with its root, and its map has at least the bytes it says.\<close>

lemma mounted_agrees:
  assumes m: "fmount behind img = Some (Some r)" and wf: "wf_root r" and "nClusterItems r \<noteq> 0"
  shows "nLogSectors r = confLogSectors (root r)" "clusterSize r = ucast (confClusterSize (root r))"
    "unat (nClusterItems r) = unat (clusterSize r) div 20"
    "unat (clusterSize r) \<le> length (encode_map (clusterMap r) @ mapTail r)"
proof -
  let ?re = "startup (loc r) (confBlockSize (root r))"
  define X where "X = readblocks (setblocksize (confBlockSize (root r)) ((startup 0 FS_DEFAULTBLOCKSIZE)\<lparr>Partition := loc r\<rparr>))
      img (loc r + ucast (CLUSTERMAPOFFSET (confLogSectors (root r)) * confBlockSize (root r)))
      (ucast (confClusterSize (root r)))"
  have r: "nLogSectors r = confLogSectors (root r)" "clusterSize r = ucast (confClusterSize (root r))"
    "nClusterItems r = safediv (ucast (confClusterSize (root r))) (of_nat sizeof_fsblock)"
    and X: "clusterMap r = (case X of Some b \<Rightarrow> decode_map b | None \<Rightarrow> [])" "mapTail r = (case X of Some b \<Rightarrow> map_tail b | None \<Rightarrow> [])"
    using m unfolding X_def by (auto simp: fmount_def Let_def split: if_splits Option.bind_splits)
  show f: "nLogSectors r = confLogSectors (root r)" "clusterSize r = ucast (confClusterSize (root r))" by fact+
  show "unat (nClusterItems r) = unat (clusterSize r) div 20"
    unfolding r(2,3) by (simp add: safediv_def sizeof_fsblock_def unat_div_distrib)
  have c: "unat (confBlockSize (root r)) \<le> 2 ^ 32 - 1024" "0 < unat (confBlockSize (root r))"
    using wf by (simp_all add: wf_root_def)
  have env: "wf_env ?re" using wf_env_startup [OF c(1)] c(2) by simp
  have "0 < unat (nClusterItems r)" using assms(3) by (simp add: unat_gt_0)
  then have "clusterMap r \<noteq> []" using wf by (auto simp: wf_root_def)
  then obtain b where b: "X = Some b" using X(1) by (cases X) auto
  have "unat (ucast (confClusterSize (root r)) :: u64) < 2 ^ 62"
    using unsigned_less [of "confClusterSize (root r)", where 'a = nat] by simp
  then have "length b = rounded ?re (unat (clusterSize r))"
    using length_readblocks [OF env] b unfolding X_def f(2) setblocksize_startup [OF c] by blast
  moreover have "length (encode_map (clusterMap r) @ mapTail r) = length b"
    using X b by (simp add: length_encode_map decode_map_def map_tail_def sizeof_fsblock_def minus_mult_div_eq_mod [symmetric])
  ultimately show "unat (clusterSize r) \<le> length (encode_map (clusterMap r) @ mapTail r)"
    using rounded_ge [OF env] by simp
qed

lemma formatted_flush_fits:
  assumes fits: "format_fits p conf nLog" and m: "fmount behind img = Some (Some r)" and wf: "wf_root r"
    and r: "root r = format_root p conf nLog major minor" "loc r = base p" and n: "nClusterItems r \<noteq> 0"
  shows "flush_fits r"
proof -
  note a = mounted_agrees [OF m wf n] and b = block_bounds [OF fits]
  have f: "confLogSectors (root r) = nLog" "confBlockSize (root r) = conf" "signature (root r) = FRATSIG"
    by (simp_all add: r format_root_def)
  have k: "(unat nLog + 2) * unat conf \<le> (unat nLog + 2 * map_sectors p conf nLog + 4) * unat conf"
    by (intro mult_le_mono1) simp
  have "bsize (disk_env r) = bsize (startup (base p) conf)" by (simp add: disk_env_def r(2) f(2))
  then have place: "unat (base p) * 512 + (unat nLog + 2) * unat conf * bsize (disk_env r) < 2 ^ 62" and
    one: "1 \<le> bsize (disk_env r)"
    using b(4) b(5) [OF k] by auto
  have "(unat nLog + 2) * unat conf \<le> (unat nLog + 2) * unat conf * bsize (disk_env r)" using one by simp
  then have "unat (base p) + (unat nLog + 2) * unat conf < 2 ^ 62" using place by linarith
  moreover have "0 < unat (clusterSize r)" using a(3) n by (metis div_0 gr_zeroI unat_eq_zero)
  moreover have "unat (clusterSize r) = unat (confClusterSize (root r))" by (simp add: a(2))
  moreover have "unat (clusterSize r) div 20 \<le> length (clusterMap r)" using wf a(3) by (simp add: wf_root_def)
  ultimately show ?thesis
    using fits a place f unfolding flush_fits_def Let_def format_fits_def by (simp add: r(2))
qed

lemma flush_fits_map_fits: "flush_fits r \<Longrightarrow> map_fits r"
  using flush_places(4) [of r] by (simp add: map_fits_def)

lemma flush_fits_geometry:
  assumes "geometry r' = geometry r"
  shows "flush_fits r' = flush_fits r"
proof -
  note f = geometry_fields [OF assms]
  have "r'\<lparr>clusterMap := [], lastClusterAlloc := 0\<rparr> = r\<lparr>clusterMap := [], lastClusterAlloc := 0\<rparr>"
    using assms by (simp add: geometry_def)
  from arg_cong [OF this, of clusterSize] arg_cong [OF this, of mapTail]
  have "clusterSize r' = clusterSize r" "mapTail r' = mapTail r" by simp_all
  moreover have "disk_env r' = disk_env r" by (simp add: disk_env_def f)
  ultimately show ?thesis by (simp add: flush_fits_def f length_encode_map)
qed

lemma keeps_listed:
  assumes "keeps fs fs'" and "lists_partition (disk fs) pre e" and "sLBA e = loc (mnt fs)" and "unat (loc (mnt fs)) * 512 < 2 ^ 62"
  shows "lists_partition (disk fs') pre e"
proof (rule lists_partition_kept [OF assms(2)])
  show "unat (sLBA e) * 512 < 2 ^ 62" unfolding assms(3) by (rule assms(4))
qed (use assms(1,3) in \<open>simp add: keeps_def\<close>)

lemma session_keeps:
  assumes "session_run fcode s0 s" and "ready (sfs s0)" and "fhs s0 = []" and "dhs s0 = []"
  shows "keeps (sfs s0) (sfs s)"
  using session_run_ok [OF assms(1,2)] assms(3,4) by (simp add: session_ok_def keeps_refl)

lemma session_remounts:
  assumes run: "session_run fcode s0 s" and start: "fhs s0 = []" "dhs s0 = []"
    and fits: "wf_root (mnt (sfs s0))" "flush_fits (mnt (sfs s0))"
    and table: "lists_partition (disk (sfs s0)) pre e" and e: "sLBA e = loc (mnt (sfs s0))" "eLBA e \<noteq> 0"
    and room: "clears_name behind"
  shows "\<exists>r'. fmount behind (disk (fuloadroot (sfs s))) = Some (Some r') \<and> root r' = root (mnt (sfs s0))
    \<and> loc r' = loc (mnt (sfs s0)) \<and> nClusterItems r' = nClusterItems (mnt (sfs s0))
    \<and> (\<forall>i < unat (nClusterItems r'). clusterMap r' ! i = clusterMap (mnt (sfs s)) ! i)"
proof -
  have "ready (sfs s0)" using fits flush_fits_map_fits by (simp add: ready_def)
  then have k: "keeps (sfs s0) (sfs s)" using session_keeps [OF run] start by blast
  then have g: "geometry (mnt (sfs s)) = geometry (mnt (sfs s0))" by (simp add: keeps_def)
  note f = geometry_fields [OF g]
  have "unat (loc (mnt (sfs s0))) * 512 < 2 ^ 62" using flush_fitsD(7) [OF fits(2)] by linarith
  then have "lists_partition (disk (sfs s)) pre e" using keeps_listed [OF k table e(1)] by simp
  moreover have "flush_fits (mnt (sfs s))" using fits(2) flush_fits_geometry [OF g] by simp
  ultimately show ?thesis using flush_then_mount [of "sfs s" pre e behind] e f room by metis
qed

text \<open>A session on the small empty disk: a file is created and opened.\<close>

definition empty_session :: session where
  "empty_session = \<lparr>sfs = empty_fs, fhs = [], dhs = []\<rparr>"

lemma empty_session_fields [simp]: "sfs empty_session = empty_fs" "fhs empty_session = []" "dhs empty_session = []"
  by (simp_all add: empty_session_def)

lemma empty_session_opens:
  "\<exists>s. session_run (\<lambda>p. (7, 9)) empty_session s \<and> fhs s = [\<lparr>fh_file = 0, progress = 512\<rparr>]
     \<and> clusterMap (mnt (sfs s)) ! 0 = new_entry ''b'' 7 9 (clusterMap empty_root ! 0)"
proof -
  let ?code = "\<lambda>p :: string. (7 :: u64, 9 :: u64)"
  let ?r2 = "map_update 0 (new_entry ''b'' 7 9) empty_root"
  note m = new_file_map(4-9) [OF wf_empty_root empty_start(1,2), of "''b''"]
  have "length ''boot'' < 36" "NUL \<notin> set ''boot''" "512 \<le> blksz empty_fs" "?code ''boot'' = (7, ucast (9 :: u48))"
    by (simp_all add: NUL_def empty_fields)
  then obtain blk where c: "fcreate ?code (0, 0) ''boot'' ''b'' empty_fs
      = Some (write_data_block 0 blk (empty_fs\<lparr>mnt := ?r2\<rparr>))"
    using fcreate_top [where fcode = ?code and path = "''boot''" and fs = empty_fs and lo = 7 and hi = 9
        and now = "(0, 0)" and flgs = "''b''"] wf_empty_root empty_start by (metis empty_fields(2))
  define fs1 where "fs1 = write_data_block 0 blk (empty_fs\<lparr>mnt := ?r2\<rparr>)"
  have f1: "mnt fs1 = ?r2" by (simp add: fs1_def)
  have "ffind ?code ?r2 ''boot'' = Some 0" using single_block_found [OF m(6,4,5), of ?code "''boot''"] by simp
  then have o: "floadh ?code (0, 0) ''boot'' ''f'' fs1 = Some (Some \<lparr>fh_file = 0, progress = 512\<rparr>, fs1)"
    using f1 m(3) by (simp add: floadh_def ) (simp add: empty_root_def)
  have "session_run ?code empty_session (empty_session\<lparr>sfs := fs1\<rparr>)"
  proof (rule session_next [OF session_start])
    show "session_step ?code empty_session (empty_session\<lparr>sfs := fs1\<rparr>)"
      using c by (intro step_create) (simp add: fs1_def)
  qed
  then have "session_run ?code empty_session (empty_session\<lparr>sfs := fs1, fhs := [\<lparr>fh_file = 0, progress = 512\<rparr>]\<rparr>)"
    using step_open_file [of ?code "(0, 0)" "''boot''" "''f''" "empty_session\<lparr>sfs := fs1\<rparr>"] o session_next by fastforce
  moreover have "clusterMap (mnt fs1) ! 0 = new_entry ''b'' 7 9 (clusterMap empty_root ! 0)"
    unfolding f1 m(1) by (simp add: empty_root_def)
  ultimately show ?thesis by (intro exI conjI) auto
qed

section \<open>From formatting to mounting again\<close>

lemma formatted_session:
  assumes named: "names_partition img name e" and fits: "format_fits (to_part e) conf nLog"
    and one: "20 \<le> map_sectors (to_part e) conf nLog" and room: "clears_name behind"
  shows "\<exists>img' r. formatpart img name conf nLog major minor = Some img' \<and> fmount behind img' = Some (Some r)
    \<and> wf_root r \<and> flush_fits r \<and> loc r = sLBA e \<and> (\<exists>pre. lists_partition img' pre e) \<and> unat (sLBA e) * 512 < 2 ^ 62
    \<and> (\<forall>off n c. off + n \<le> unat (sLBA e) * 512 \<longrightarrow> file_read img off n = Some c \<longrightarrow> file_read img' off n = Some c)"
proof -
  obtain img' r where m: "formatpart img name conf nLog major minor = Some img'" "fmount behind img' = Some (Some r)"
    "root r = format_root (to_part e) conf nLog major minor" "loc r = sLBA e" "wf_root r"
    "unat (nClusterItems r) = map_sectors (to_part e) conf nLog div 20"
    and k: "\<And>off n c. off + n \<le> unat (sLBA e) * 512 \<Longrightarrow> file_read img off n = Some c \<Longrightarrow> file_read img' off n = Some c"
    using formatted_mounts [OF named fits room, of major minor] by metis
  have "0 < unat (nClusterItems r)" using one unfolding m(6) by (simp add: div_greater_zero_iff)
  then have "nClusterItems r \<noteq> 0" by auto
  then have f: "flush_fits r" using formatted_flush_fits [OF fits m(2,5,3)] m(4) by (simp add: to_part_def)
  then have z: "unat (sLBA e) * 512 < 2 ^ 62" using flush_fitsD(7) [OF f] m(4) by simp
  obtain pre where "lists_partition img pre e" using named by (auto simp: names_partition_def)
  from lists_partition_kept [OF this z k] show ?thesis using m(1,2,4,5) f z k by metis
qed

lemma format_fits_end: "format_fits (to_part e) conf nLog \<Longrightarrow> eLBA e \<noteq> 0"
  by (cases "unat nLog") (auto simp: format_fits_def to_part_def)

section \<open>Properties\<close>

text \<open>C5: whatever a session does after a mount (creating, opening, seeking, reading, writing, entering,
  listing, walking, closing and removing in any order, on any of the handles it holds), the mount
  stays well formed with the same root, place and size of the map, every handle points into the
  map, and no byte of the image before the partition changes.\<close>

theorem session_invariant:
  assumes "session_run fcode s0 s" and "fhs s0 = []" and "dhs s0 = []"
    and "wf_root (mnt (sfs s0))" and "flush_fits (mnt (sfs s0))"
  shows "wf_root (mnt (sfs s)) \<and> root (mnt (sfs s)) = root (mnt (sfs s0)) \<and> loc (mnt (sfs s)) = loc (mnt (sfs s0))
    \<and> nClusterItems (mnt (sfs s)) = nClusterItems (mnt (sfs s0))
    \<and> length (clusterMap (mnt (sfs s))) = length (clusterMap (mnt (sfs s0)))
    \<and> (\<forall>h \<in> set (fhs s). fh_file h < unat (nClusterItems (mnt (sfs s))))
    \<and> (\<forall>d \<in> set (dhs s). dfile d < unat (nClusterItems (mnt (sfs s))))
    \<and> (\<forall>off n c. off + n \<le> unat (loc (mnt (sfs s0))) * 512 \<longrightarrow>
         file_read (disk (sfs s0)) off n = Some c \<longrightarrow> file_read (disk (sfs s)) off n = Some c)"
proof -
  have r: "ready (sfs s0)" using assms(4,5) flush_fits_map_fits by (simp add: ready_def)
  have ok: "session_ok s0 s"
    using session_run_ok [OF assms(1) r] assms(2,3) by (simp add: session_ok_def keeps_refl)
  then have "geometry (mnt (sfs s)) = geometry (mnt (sfs s0))" by (simp add: session_ok_def keeps_def)
  note f = geometry_fields [OF this] geometry_well_formed(1) [OF this]
  show ?thesis using ok assms(4) unfolding f session_ok_def keeps_def in_map_def by blast
qed

theorem session_invariant_witness:
  "\<exists>s :: session. fhs s = [\<lparr>fh_file = 0, progress = 512\<rparr>] \<and> wf_root (mnt (sfs s)) \<and> loc (mnt (sfs s)) = 3
     \<and> take 1536 (disk (sfs s)) = demo_disk"
proof -
  obtain s where s: "session_run (\<lambda>p. (7, 9)) empty_session s" "fhs s = [\<lparr>fh_file = 0, progress = 512\<rparr>]"
    using empty_session_opens by blast
  have "length demo_disk = 1536" by (simp add: demo_disk_def demo_header_def demo_table_def str_bytes_def)
  then have "file_read demo_disk 0 1536 = Some demo_disk" by (simp add: file_read_def)
  moreover have "wf_root (mnt (sfs s))" "loc (mnt (sfs s)) = 3"
    "file_read demo_disk 0 1536 = Some demo_disk \<Longrightarrow> file_read (disk (sfs s)) 0 1536 = Some demo_disk"
    using session_invariant [OF s(1)] wf_empty_root empty_fits by (simp_all add: empty_fields)
  ultimately have "take 1536 (disk (sfs s)) = demo_disk" by (simp add: file_read_def split: if_splits)
  with s(2) \<open>wf_root (mnt (sfs s))\<close> \<open>loc (mnt (sfs s)) = 3\<close> show ?thesis by blast
qed

text \<open>C8: a session can be put away and taken up again: flushing after any session and mounting the disk
  anew gives the same root at the same place, and a cluster map equal entry by entry to the one the
  session ended with.  The mount the session starts from is well formed with its log, map and root where a
  format puts them; its partition is listed in the partition table, which lies below the partition, and the
  entries before it lie below it too and hold no file system.  The search of the table clears 35 bytes
  behind an array on the stack, so the frame is taken to hold nothing live there.\<close>

theorem session_then_remount:
  assumes "session_run fcode s0 s" and "fhs s0 = []" and "dhs s0 = []"
    and "wf_root (mnt (sfs s0))" and "flush_fits (mnt (sfs s0))"
    and "lists_partition (disk (sfs s0)) pre e" and "sLBA e = loc (mnt (sfs s0))" and "eLBA e \<noteq> 0"
    and "clears_name behind"
  shows "\<exists>r'. fmount behind (disk (fuloadroot (sfs s))) = Some (Some r') \<and> root r' = root (mnt (sfs s0))
    \<and> loc r' = loc (mnt (sfs s0)) \<and> nClusterItems r' = nClusterItems (mnt (sfs s0))
    \<and> (\<forall>i < unat (nClusterItems r'). clusterMap r' ! i = clusterMap (mnt (sfs s)) ! i)"
  by (rule session_remounts [OF assms])

theorem session_then_remount_witness:
  "\<exists>(s :: session) r'. fhs s = [\<lparr>fh_file = 0, progress = 512\<rparr>] \<and> fmount 35 (disk (fuloadroot (sfs s))) = Some (Some r')
     \<and> loc r' = 3 \<and> clusterMap r' ! 0 = new_entry ''b'' 7 9 (clusterMap empty_root ! 0)"
proof -
  obtain s where s: "session_run (\<lambda>p. (7, 9)) empty_session s" "fhs s = [\<lparr>fh_file = 0, progress = 512\<rparr>]"
    "clusterMap (mnt (sfs s)) ! 0 = new_entry ''b'' 7 9 (clusterMap empty_root ! 0)"
    using empty_session_opens by blast
  obtain pre where "lists_partition demo_disk pre demo_entry"
    using demo_named by (auto simp: names_partition_def)
  then obtain r' where r': "fmount 35 (disk (fuloadroot (sfs s))) = Some (Some r')" "loc r' = 3" "nClusterItems r' = 3"
    "\<forall>i < unat (nClusterItems r'). clusterMap r' ! i = clusterMap (mnt (sfs s)) ! i"
    using session_then_remount [OF s(1), of pre demo_entry 35] wf_empty_root empty_fits demo_entry_LBA
    by (auto simp: empty_fields clears_name_def GPTeNAMESIZE_def)
  have "clusterMap r' ! 0 = new_entry ''b'' 7 9 (clusterMap empty_root ! 0)" using r'(3,4) s(3) by simp
  with s(2) r'(1,2) show ?thesis by blast
qed

end
