(* ===== verification/Boot_Lzw.thy ===== *)
theory Boot_Lzw
  imports Frat_Mount
begin

text \<open>
  The decoder of the compressed raster of the GIF reader (\<^verbatim>\<open>drivers/gif/gif.c\<close>), and the
  dictionary decoder it implements.  An array element of the C stack that has not been written is
  \<open>None\<close>, and so is every result that needs one of them or that leaves an array.
\<close>

section \<open>The raster decoder\<close>

definition gif_table_size :: nat where "gif_table_size = 4096"
definition gif_stack_size :: nat where "gif_stack_size = 4097"

record lzw =
  codeSize :: u32
  maxCode :: u32
  availableCode :: u32
  oldCode :: u32
  firstChar :: u32
  bitPos :: u32
  lprefix :: "nat \<Rightarrow> u16 option"
  lsuffix :: "nat \<Rightarrow> u8 option"

definition clearCode :: "u8 \<Rightarrow> u32" where
  "clearCode initCodeSize = push_bit (unat initCodeSize) 1"

definition eoiCode :: "u8 \<Rightarrow> u32" where
  "eoiCode initCodeSize = clearCode initCodeSize + 1"

definition lzw_reset :: "u8 \<Rightarrow> lzw \<Rightarrow> lzw" where
  "lzw_reset initCodeSize st =
    (let cs = ucast initCodeSize + 1
     in st\<lparr>codeSize := cs, maxCode := push_bit (unat cs) 1, availableCode := eoiCode initCodeSize + 1, oldCode := 0xFFFF\<rparr>)"

text \<open>A code size above 12 makes the initialisation run out of the tables.\<close>

definition lzw_start :: "u8 \<Rightarrow> lzw option" where
  "lzw_start initCodeSize =
    (if 12 < unat initCodeSize then None
     else
       let n = unat (clearCode initCodeSize); cs = ucast initCodeSize + 1
       in Some \<lparr>codeSize = cs, maxCode = push_bit (unat cs) 1, availableCode = eoiCode initCodeSize + 1,
            oldCode = 0xFFFF, firstChar = 0, bitPos = 0,
            lprefix = (\<lambda>i. if i < n then Some 0 else None),
            lsuffix = (\<lambda>i. if i < n then Some (of_nat i) else None)\<rparr>)"

text \<open>
  Following the chain of prefixes pushes one byte for each step; \<open>space\<close> is what is left of the stack,
  which is written from its bottom: the head of the list is its top.
\<close>

fun chain :: "lzw \<Rightarrow> u32 \<Rightarrow> nat \<Rightarrow> u32 \<Rightarrow> bytes \<Rightarrow> (u32 \<times> bytes \<times> nat) option" where
  "chain st clear 0 code stk = (if clear \<le> code \<and> code < 4096 then None else Some (code, stk, 0))"
| "chain st clear (Suc space) code stk =
    (if clear \<le> code \<and> code < 4096
     then (case lsuffix st (unat code) of
             None \<Rightarrow> None
           | Some s \<Rightarrow>
               (case lprefix st (unat code) of
                  None \<Rightarrow> None
                | Some p \<Rightarrow> chain st clear space (ucast p) (s # stk)))
     else Some (code, stk, Suc space))"

definition add_code :: "lzw \<Rightarrow> lzw" where
  "add_code st =
    (if availableCode st < 4096 \<and> oldCode st \<noteq> 0xFFFF
     then let k = unat (availableCode st);
              st1 = st\<lparr>lprefix := (lprefix st)(k := Some (ucast (oldCode st))),
                       lsuffix := (lsuffix st)(k := Some (ucast (firstChar st))),
                       availableCode := availableCode st + 1\<rparr>
          in if availableCode st1 \<ge> maxCode st1 \<and> codeSize st1 < 12
             then st1\<lparr>codeSize := codeSize st1 + 1, maxCode := push_bit (unat (codeSize st1 + 1)) 1\<rparr>
             else st1
     else st)"

text \<open>One code that is neither the clear code nor the end code: the bytes it stands for, top of the stack first.\<close>

definition lzw_code :: "u8 \<Rightarrow> lzw \<Rightarrow> u32 \<Rightarrow> (bytes \<times> lzw) option" where
  "lzw_code initCodeSize st inCode =
    (let (stk0, space0, code0) =
           (if inCode \<ge> availableCode st then ([ucast (firstChar st)], gif_stack_size - 1, oldCode st)
            else ([], gif_stack_size, inCode))
     in case chain st (clearCode initCodeSize) space0 code0 stk0 of
          None \<Rightarrow> None
        | Some (code, stk, space) \<Rightarrow>
            if code < 4096
            then (case lsuffix st (unat code) of
                    None \<Rightarrow> None
                  | Some f \<Rightarrow>
                      if space = 0 then None
                      else Some (f # stk, (add_code (st\<lparr>firstChar := ucast f\<rparr>))\<lparr>oldCode := inCode\<rparr>))
            else Some (stk, (add_code st)\<lparr>oldCode := inCode\<rparr>))"

definition read_code :: "bytes \<Rightarrow> lzw \<Rightarrow> u32" where
  "read_code stream st =
    (let codeBits = rd_u32 stream (unat (bitPos st div 8))
     in drop_bit (unat (bitPos st mod 8)) codeBits AND (push_bit (unat (codeSize st)) 1 - 1))"

partial_function (option) lzw_loop :: "u8 \<Rightarrow> nat \<Rightarrow> bytes \<Rightarrow> lzw \<Rightarrow> bytes \<Rightarrow> bytes option" where
  "lzw_loop initCodeSize totalPixels stream st out =
    (if length out < totalPixels
     then
       if bitPos st div 8 + 3 \<ge> of_nat (length stream) then Some out
       else
         let code = read_code stream st; st1 = st\<lparr>bitPos := bitPos st + codeSize st\<rparr>
         in if code = clearCode initCodeSize
            then lzw_loop initCodeSize totalPixels stream (lzw_reset initCodeSize st1) out
            else if code = eoiCode initCodeSize then Some out
            else (case lzw_code initCodeSize st1 code of
                    None \<Rightarrow> None
                  | Some (stk, st2) \<Rightarrow>
                      lzw_loop initCodeSize totalPixels stream st2 (out @ take (totalPixels - length out) stk))
     else Some out)"

text \<open>The index buffer is zeroed.\<close>

definition lzw_indices :: "u8 \<Rightarrow> nat \<Rightarrow> bytes \<Rightarrow> bytes option" where
  "lzw_indices initCodeSize totalPixels stream = do {
     st \<leftarrow> lzw_start initCodeSize;
     out \<leftarrow> lzw_loop initCodeSize totalPixels stream st [];
     Some (out @ replicate (totalPixels - length out) 0)
   }"

section \<open>The dictionary decoder\<close>

text \<open>
  The decoder of the format: a dictionary of strings (those of the codes above the end code, in the
  order in which they were added), the code before, the position in the stream and the width of a
  code.  The raster is one little-endian number, whose bits from the position on are the code.  A
  raster is accepted when it describes every pixel or ends with the end code; one that breaks off,
  or that holds a code of no entry, is not.
\<close>

record dict_state =
  entries :: "bytes list"
  dold :: "nat option"
  dpos :: nat
  dwidth :: nat

definition dict_string :: "nat \<Rightarrow> bytes list \<Rightarrow> nat \<Rightarrow> bytes option" where
  "dict_string clear D c =
    (if c < clear then Some [of_nat c]
     else if clear + 2 \<le> c \<and> c < clear + 2 + length D then Some (D ! (c - clear - 2))
     else None)"

definition dict_code :: "nat \<Rightarrow> bytes list \<Rightarrow> nat option \<Rightarrow> nat \<Rightarrow> (bytes \<times> bytes list) option" where
  "dict_code clear D old c =
    (case old of
       None \<Rightarrow> map_option (\<lambda>s. (s, D)) (dict_string clear D c)
     | Some c0 \<Rightarrow> do {
         so \<leftarrow> dict_string clear D c0;
         s \<leftarrow> (if c = clear + 2 + length D then Some (so @ [hd so]) else dict_string clear D c);
         Some (s, if clear + 2 + length D < gif_table_size then D @ [so @ [hd s]] else D)
       })"

definition code_at :: "bytes \<Rightarrow> nat \<Rightarrow> nat \<Rightarrow> nat" where
  "code_at stream pos width = le_nat stream div 2 ^ pos mod 2 ^ width"

function dict_loop :: "nat \<Rightarrow> nat \<Rightarrow> bytes \<Rightarrow> dict_state \<Rightarrow> bytes \<Rightarrow> bytes option" where
  "dict_loop k npix stream ds out =
    (if npix \<le> length out then Some out
     else if dwidth ds = 0 \<or> 8 * length stream < dpos ds + dwidth ds then None
     else
       let c = code_at stream (dpos ds) (dwidth ds); pos = dpos ds + dwidth ds
       in if c = 2 ^ k then dict_loop k npix stream \<lparr>entries = [], dold = None, dpos = pos, dwidth = k + 1\<rparr> out
          else if c = 2 ^ k + 1 then Some out
          else (case dict_code (2 ^ k) (entries ds) (dold ds) c of
                  None \<Rightarrow> None
                | Some (s, D) \<Rightarrow>
                    let w = (if length D \<noteq> length (entries ds) \<and> 2 ^ dwidth ds \<le> 2 ^ k + 2 + length D \<and> dwidth ds < 12
                             then dwidth ds + 1 else dwidth ds)
                    in dict_loop k npix stream \<lparr>entries = D, dold = Some c, dpos = pos, dwidth = w\<rparr>
                         (out @ take (npix - length out) s)))"
  by auto
termination
  by (relation "measure (\<lambda>(k, npix, stream, ds, out). 8 * length stream - dpos ds)") auto

declare dict_loop.simps [simp del]

definition dict_indices :: "nat \<Rightarrow> nat \<Rightarrow> bytes \<Rightarrow> bytes option" where
  "dict_indices k npix stream = dict_loop k npix stream \<lparr>entries = [], dold = None, dpos = 0, dwidth = k + 1\<rparr> []"

lemma dict_loop_prefix:
  "dict_loop k npix stream ds out = Some r \<Longrightarrow> length out \<le> npix \<Longrightarrow>
     take (length out) r = out \<and> length out \<le> length r \<and> length r \<le> npix"
proof (induction k npix stream ds out rule: dict_loop.induct)
  case (1 k npix stream ds out)
  show ?case
  proof (cases "npix \<le> length out \<or> dwidth ds = 0 \<or> 8 * length stream < dpos ds + dwidth ds")
    case True
    then show ?thesis using 1(3,4) by (auto simp: dict_loop.simps [of k npix stream ds out] split: if_splits)
  next
    case False
    define c where "c = code_at stream (dpos ds) (dwidth ds)"
    have go: "\<not> npix \<le> length out" "\<not> (dwidth ds = 0 \<or> 8 * length stream < dpos ds + dwidth ds)" using False by auto
    note dl = 1(3) [unfolded dict_loop.simps [of k npix stream ds out] Let_def, folded c_def]
    consider "c = 2 ^ k" | "c = 2 ^ k + 1" | "c \<noteq> 2 ^ k" "c \<noteq> 2 ^ k + 1" by blast
    then show ?thesis
    proof cases
      case 1
      then show ?thesis using "1.IH"(1) [OF go c_def refl 1] dl go "1.prems"(2) by simp
    next
      case 2
      then show ?thesis using dl go by simp
    next
      case 3
      then obtain s D where dc: "dict_code (2 ^ k) (entries ds) (dold ds) c = Some (s, D)"
        using dl go by (auto split: option.splits)
      note IH = "1.IH"(2) [OF go c_def refl 3 dc refl refl]
      obtain T where T: "T = take (npix - length out) s" by blast
      have t: "take (length (out @ T)) r = out @ T" "length (out @ T) \<le> length r" "length r \<le> npix"
        using dl go 3 dc IH by (auto simp: T)
      have "take (length out) r = take (length out) (take (length (out @ T)) r)" by simp
      also have "\<dots> = out" by (simp only: t(1)) simp
      finally show ?thesis using t(2,3) by simp
    qed
  qed
qed

section \<open>The bits of a raster\<close>

lemma le_nat_join: "le_nat (xs @ ys) = le_nat xs + 256 ^ length xs * le_nat ys"
  by (induction xs) (simp_all add: algebra_simps)

lemma code_at_append:
  assumes "pos + w \<le> 8 * length xs \<or> le_nat ys = 0"
  shows "code_at (xs @ ys) pos w = code_at xs pos w"
proof (cases "le_nat ys = 0")
  case False
  then obtain d where d: "8 * length xs = pos + w + d" using assms le_Suc_ex by auto
  have "(256 :: nat) ^ length xs = 2 ^ (8 * length xs)" by (simp add: power_mult)
  also have "\<dots> = 2 ^ pos * (2 ^ w * 2 ^ d)" by (simp only: d power_add mult.assoc)
  finally have "le_nat (xs @ ys) = le_nat xs + 2 ^ pos * (2 ^ w * (2 ^ d * le_nat ys))"
    by (simp only: le_nat_join mult.assoc)
  then have "le_nat (xs @ ys) div 2 ^ pos = 2 ^ w * (2 ^ d * le_nat ys) + le_nat xs div 2 ^ pos" by simp
  then show ?thesis by (simp add: code_at_def)
qed (simp add: code_at_def le_nat_join)

text \<open>The four bytes of the program hold a code of up to 25 bits.\<close>

lemma code_at_window:
  assumes "q \<le> length s" and "r + w \<le> 32"
  shows "code_at s (8 * q + r) w = le_nat (take 4 (drop q s)) div 2 ^ r mod 2 ^ w"
proof -
  let ?t = "drop q s"
  have q: "(256 :: nat) ^ q = 2 ^ (8 * q)" by (simp add: power_mult)
  have "le_nat s = le_nat (take q s) + 256 ^ q * le_nat ?t"
    using le_nat_join [of "take q s" ?t] assms(1) by simp
  moreover have "le_nat (take q s) < 256 ^ q" using le_nat_less [of "take q s"] assms(1) by simp
  ultimately have "le_nat s div 2 ^ (8 * q) = le_nat ?t" by (simp add: q)
  then have "code_at s (8 * q + r) w = code_at (take 4 ?t @ drop 4 ?t) r w"
    by (simp only: append_take_drop_id) (simp add: code_at_def power_add div_mult2_eq)
  also have "\<dots> = code_at (take 4 ?t) r w"
    using assms(2) by (intro code_at_append) (cases "4 \<le> length ?t"; simp)
  finally show ?thesis by (simp add: code_at_def)
qed

section \<open>The tables hold the dictionary\<close>

text \<open>Code \<open>c\<close> of the tables stands for the string of the dictionary.\<close>

definition tables_hold :: "nat \<Rightarrow> bytes list \<Rightarrow> lzw \<Rightarrow> bool" where
  "tables_hold clear D st =
    ((\<forall>i < clear. lsuffix st i = Some (of_nat i)) \<and>
     (\<forall>j < length D. \<exists>p s sp. lprefix st (clear + 2 + j) = Some p \<and> lsuffix st (clear + 2 + j) = Some s
        \<and> unat p < clear + 2 + j \<and> dict_string clear D (unat p) = Some sp \<and> D ! j = sp @ [s]))"

definition lzw_simulates :: "nat \<Rightarrow> dict_state \<Rightarrow> lzw \<Rightarrow> bool" where
  "lzw_simulates k ds st =
    (k < dwidth ds \<and> dwidth ds \<le> 12 \<and> 2 ^ k + 2 + length (entries ds) \<le> gif_table_size \<and>
     codeSize st = of_nat (dwidth ds) \<and> maxCode st = of_nat (2 ^ dwidth ds) \<and>
     availableCode st = of_nat (2 ^ k + 2 + length (entries ds)) \<and> bitPos st = of_nat (dpos ds) \<and>
     tables_hold (2 ^ k) (entries ds) st \<and>
     (case dold ds of
        None \<Rightarrow> oldCode st = 0xFFFF
      | Some c \<Rightarrow> c < gif_table_size \<and> oldCode st = of_nat c \<and>
          (\<exists>s. dict_string (2 ^ k) (entries ds) c = Some s \<and> firstChar st = ucast (hd s))))"

lemma dict_string_nonempty:
  assumes "tables_hold clear D st" and "dict_string clear D c = Some s"
  shows "s \<noteq> []" and "c < clear + 2 + length D"
proof -
  have "D ! (c - clear - 2) \<noteq> []" if "\<not> c < clear" "clear + 2 \<le> c" "c < clear + 2 + length D"
    using assms(1) that unfolding tables_hold_def
    by (metis (no_types, lifting) Nil_is_append_conv add_less_cancel_left diff_diff_left le_add_diff_inverse not_Cons_self2)
  then show "s \<noteq> []" using assms(2) by (auto simp: dict_string_def split: if_splits)
  show "c < clear + 2 + length D" using assms(2) by (auto simp: dict_string_def split: if_splits)
qed

lemma dict_string_length:
  "tables_hold clear D st \<Longrightarrow> dict_string clear D c = Some s \<Longrightarrow> length s \<le> Suc (c - clear)"
proof (induction c arbitrary: s rule: less_induct)
  case (less c)
  show ?case
  proof (cases "c < clear")
    case True
    then show ?thesis using less.prems by (auto simp: dict_string_def)
  next
    case False
    then have c: "clear + 2 \<le> c" "c < clear + 2 + length D" "s = D ! (c - clear - 2)"
      using less.prems(2) by (auto simp: dict_string_def split: if_splits)
    then obtain p x sp where p: "unat (p :: u16) < c" "dict_string clear D (unat p) = Some sp" "s = sp @ [x]"
      using less.prems(1) unfolding tables_hold_def
      by (metis (no_types, lifting) add_less_cancel_left diff_diff_left le_add_diff_inverse)
    have "length sp \<le> Suc (unat p - clear)" using less.IH [OF p(1) less.prems(1) p(2)] .
    then show ?thesis using p(1,3) c(1) by simp
  qed
qed

text \<open>Following the prefixes of a code of the dictionary pushes its string, except for the first byte.\<close>

lemma chain_string:
  assumes "tables_hold clear D st" and "clear + 2 + length D \<le> gif_table_size" and "0 < clear"
  shows "dict_string clear D c = Some s \<Longrightarrow> length s \<le> Suc space \<Longrightarrow>
    \<exists>c0 < clear. chain st (of_nat clear) space (of_nat c) stk = Some (of_nat c0, tl s @ stk, space - (length s - 1))
      \<and> hd s = of_nat c0"
proof (induction c arbitrary: s space stk rule: less_induct)
  case (less c)
  have cl: "clear < 2 ^ 32" using assms(2) by (simp add: gif_table_size_def)
  have c12: "c < 4096" using dict_string_nonempty(2) [OF assms(1) less.prems(1)] assms(2) by (simp add: gif_table_size_def)
  then have uc: "unat (of_nat c :: u32) = c" "unat (of_nat clear :: u32) = clear" using cl by (simp_all add: unat_of_nat)
  have lit: "((of_nat clear :: u32) \<le> of_nat c \<and> (of_nat c :: u32) < 4096) = (clear \<le> c)"
    using uc c12 by (simp add: word_le_nat_alt word_less_nat_alt)
  show ?case
  proof (cases "c < clear")
    case True
    then have "s = [of_nat c]" using less.prems by (auto simp: dict_string_def)
    then show ?thesis using True lit by (intro exI [of _ c]) (cases space; auto)
  next
    case False
    then have c: "clear + 2 \<le> c" "c < clear + 2 + length D" "s = D ! (c - clear - 2)"
      using less.prems(1) by (auto simp: dict_string_def split: if_splits)
    then obtain p x sp where p: "lprefix st c = Some p" "lsuffix st c = Some x" "unat (p :: u16) < c"
      "dict_string clear D (unat p) = Some sp" "s = sp @ [x]"
      using assms(1) unfolding tables_hold_def
      by (metis (no_types, lifting) add_less_cancel_left diff_diff_left le_add_diff_inverse)
    have ne: "sp \<noteq> []" by (rule dict_string_nonempty(1) [OF assms(1) p(4)])
    then obtain sp' where sp': "space = Suc sp'" "length sp \<le> Suc sp'"
      using less.prems(2) p(5) by (cases space) (auto simp: neq_Nil_conv)
    have up: "(of_nat (unat p) :: u32) = ucast p" by (simp add: word_unat_eq_iff unat_of_nat unsigned_ucast_eq)
    obtain c0 where "c0 < clear" "chain st (of_nat clear) sp' (ucast p) (x # stk) = Some (of_nat c0, tl sp @ x # stk, sp' - (length sp - 1))"
      "hd sp = of_nat c0"
      using less.IH [OF p(3,4) sp'(2), of "x # stk"] unfolding up by blast
    then show ?thesis using sp' lit False p uc ne by (intro exI [of _ c0]) (auto simp: neq_Nil_conv)
  qed
qed

text \<open>The code that is read.\<close>

lemma read_code_at:
  assumes "bitPos st = of_nat pos" and "pos < 2 ^ 32" and "codeSize st = of_nat w" and "w \<le> 25"
    and "pos div 8 \<le> length stream"
  shows "unat (read_code stream st) = code_at stream pos w"
proof -
  have m: "(2 :: u32) ^ w - 1 = mask w" by (simp add: mask_eq_exp_minus_1)
  have uw: "unat (of_nat w :: u32) = w" "unat (of_nat pos :: u32) = pos" using assms by (simp_all add: unat_of_nat)
  have d: "unat ((of_nat pos :: u32) div 8) = pos div 8" "unat ((of_nat pos :: u32) mod 8) = pos mod 8"
    using uw(2) by (simp_all add: unat_div unat_mod)
  have "le_nat (take 4 (drop (pos div 8) stream)) < 256 ^ length (take 4 (drop (pos div 8) stream))" by (rule le_nat_less)
  also have "\<dots> \<le> 256 ^ 4" by (rule power_increasing) simp_all
  finally have u: "unat (rd_u32 stream (pos div 8)) = le_nat (take 4 (drop (pos div 8) stream))"
    by (simp add: rd_u32_def unat_of_nat)
  have "unat (drop_bit (pos mod 8) (rd_u32 stream (pos div 8)) AND mask w)
      = unat (rd_u32 stream (pos div 8)) div 2 ^ (pos mod 8) mod 2 ^ w"
    by (simp only: take_bit_eq_mask [symmetric] unsigned_take_bit_eq unat_drop_bit_eq) (simp add: take_bit_eq_mod drop_bit_eq_div)
  moreover have "pos mod 8 + w \<le> 32" using assms(4) mod_less_divisor [of 8 pos] by simp
  moreover have "8 * (pos div 8) + pos mod 8 = pos" by simp
  ultimately show ?thesis
    using u code_at_window [OF assms(5), of "pos mod 8" w] by (simp add: read_code_def Let_def assms(1,3) uw d m)
qed

lemma code_at_less: "code_at stream pos w < 2 ^ w"
  by (simp add: code_at_def)

text \<open>Adding the entry of the code before.\<close>

lemma tables_hold_extend:
  assumes t: "tables_hold clear D st" and k: "clear + 2 + length D < gif_table_size"
    and o: "dict_string clear D c = Some so" and x: "ucast f = x"
    and st': "lprefix st' = (lprefix st)(clear + 2 + length D := Some (of_nat c))"
      "lsuffix st' = (lsuffix st)(clear + 2 + length D := Some x)"
  shows "tables_hold clear (D @ [so @ [x]]) st'"
proof -
  have c: "c < clear + 2 + length D" by (rule dict_string_nonempty(2) [OF t o])
  then have uc: "unat (of_nat c :: u16) = c" using k by (simp add: gif_table_size_def unat_of_nat)
  have keep: "dict_string clear (D @ [e]) n = Some s" if "dict_string clear D n = Some s" for n s e
    using that by (auto simp: dict_string_def nth_append split: if_splits)
  show ?thesis
    unfolding tables_hold_def
  proof (intro conjI allI impI)
    fix i assume "i < clear"
    then show "lsuffix st' i = Some (of_nat i)" using t by (simp add: st' tables_hold_def)
  next
    fix j assume j: "j < length (D @ [so @ [x]])"
    show "\<exists>p s sp. lprefix st' (clear + 2 + j) = Some p \<and> lsuffix st' (clear + 2 + j) = Some s
        \<and> unat p < clear + 2 + j \<and> dict_string clear (D @ [so @ [x]]) (unat p) = Some sp \<and> (D @ [so @ [x]]) ! j = sp @ [s]"
    proof (cases "j = length D")
      case True
      then show ?thesis using c uc keep [OF o] by (simp add: st')
    next
      case False
      then have j: "j < length D" using j by simp
      then obtain p s sp where p: "lprefix st (clear + 2 + j) = Some p" "lsuffix st (clear + 2 + j) = Some s"
        "unat p < clear + 2 + j" "dict_string clear D (unat p) = Some sp" "D ! j = sp @ [s]"
        using t unfolding tables_hold_def by blast
      show ?thesis using False j p keep [OF p(4)] by (intro exI [of _ p] exI [of _ s] exI [of _ sp]) (simp add: st' nth_append)
    qed
  qed
qed

lemma add_code_simulates:
  assumes sim: "lzw_simulates k ds st" and D: "entries ds = D" and w: "dwidth ds = w"
    and o: "dold ds = Some c" "dict_string (2 ^ k) D c = Some so" and x: "ucast (firstChar st') = x"
    and st': "st' = st\<lparr>firstChar := firstChar st'\<rparr>"
  defines "D' \<equiv> if 2 ^ k + 2 + length D < gif_table_size then D @ [so @ [x]] else D"
  defines "w' \<equiv> if length D' \<noteq> length D \<and> 2 ^ w \<le> 2 ^ k + 2 + length D' \<and> w < 12 then w + 1 else w"
  shows "k < w'" "w' \<le> 12" "2 ^ k + 2 + length D' \<le> gif_table_size" "codeSize (add_code st') = of_nat w'"
    "maxCode (add_code st') = of_nat (2 ^ w')" "availableCode (add_code st') = of_nat (2 ^ k + 2 + length D')"
    "tables_hold (2 ^ k) D' (add_code st')" "firstChar (add_code st') = firstChar st'" "bitPos (add_code st') = bitPos st'"
proof -
  have s: "k < w" "w \<le> 12" "2 ^ k + 2 + length D \<le> gif_table_size" "codeSize st = of_nat w" "maxCode st = of_nat (2 ^ w)"
    "availableCode st = of_nat (2 ^ k + 2 + length D)" "tables_hold (2 ^ k) D st" "oldCode st = of_nat c" "c < gif_table_size"
    using sim o D w by (simp_all add: lzw_simulates_def)
  let ?n = "2 ^ k + 2 + length D"
  have st'_eq: "codeSize st' = codeSize st" "maxCode st' = maxCode st" "availableCode st' = availableCode st"
    "lprefix st' = lprefix st" "lsuffix st' = lsuffix st" "oldCode st' = oldCode st"
    by (subst st', simp)+
  have small: "unat (of_nat m :: u32) = m" if "m \<le> gif_table_size" for m
    using that by (simp add: gif_table_size_def unat_of_nat)
  have n: "unat (availableCode st) = ?n" unfolding s(6) by (rule small [OF s(3)])
  have uw: "unat (codeSize st) = w" using s(2,4) by (simp add: unat_of_nat)
  have "(2 :: nat) ^ w \<le> 2 ^ 12" by (rule power_increasing [OF s(2)]) simp
  then have um: "unat (maxCode st) = 2 ^ w" unfolding s(5) by (simp add: unat_of_nat del: of_nat_power of_nat_numeral)
  have old: "oldCode st \<noteq> 0xFFFF" "(ucast (oldCode st) :: u16) = of_nat c"
    using s(8,9) by (simp_all add: gif_table_size_def word_unat_eq_iff unat_of_nat unsigned_ucast_eq take_bit_eq_mod)
  have g: "(availableCode st < 4096) = (?n < gif_table_size)" using n by (simp add: word_less_nat_alt gif_table_size_def)
  show "firstChar (add_code st') = firstChar st'" "bitPos (add_code st') = bitPos st'"
    by (simp_all add: add_code_def Let_def)
  show "k < w'" "w' \<le> 12" using s(1,2) by (auto simp: w'_def)
  show "2 ^ k + 2 + length D' \<le> gif_table_size" using s(3) by (auto simp: D'_def)
  show "tables_hold (2 ^ k) D' (add_code st')"
  proof (cases "?n < gif_table_size")
    case True
    then have "tables_hold (2 ^ k) (D @ [so @ [x]]) (add_code st')"
      by (intro tables_hold_extend [OF s(7) True o(2) x]) (simp_all add: add_code_def Let_def st'_eq g n old x)
    then show ?thesis using True by (simp add: D'_def)
  next
    case False
    then show ?thesis using s(7) by (simp add: D'_def add_code_def g st'_eq tables_hold_def)
  qed
  have un: "unat (availableCode st + 1) = ?n + 1" if "?n < gif_table_size"
    using n that by (subst unat_add_small) (simp_all add: gif_table_size_def)
  have lt: "(availableCode st + 1 \<ge> maxCode st) = (2 ^ w \<le> ?n + 1)" if "?n < gif_table_size"
    using un [OF that] um by (simp add: word_le_nat_alt)
  have lt12: "((of_nat w :: u32) < 12) = (w < 12)" using uw s(4) by (simp add: word_less_nat_alt)
  have un2: "unat ((of_nat w :: u32) + 1) = w + 1" using uw s(2,4) by (subst unat_add_small) simp_all
  have "availableCode (add_code st') = (if ?n < gif_table_size then availableCode st + 1 else availableCode st)"
    by (simp add: add_code_def Let_def g st'_eq old)
  then show "availableCode (add_code st') = of_nat (2 ^ k + 2 + length D')" by (simp add: s(6) D'_def)
  show "codeSize (add_code st') = of_nat w'"
    using lt by (auto simp: add_code_def Let_def D'_def w'_def g st'_eq old s(4) lt12)
  show "maxCode (add_code st') = of_nat (2 ^ w')"
    using s(5) lt by (auto simp: add_code_def Let_def D'_def w'_def g st'_eq old s(4) lt12 un2 push_bit_eq_mult)
qed

text \<open>What one code appends, and the dictionary after it.\<close>

lemma dict_code_some:
  assumes t: "tables_hold clear D st" and dc: "dict_code clear D old c = Some (s, D')" and c: "c < gif_table_size"
  obtains "c < clear + 2 + length D" "dict_string clear D c = Some s" "dict_string clear D' c = Some s"
    "old = None \<longrightarrow> D' = D"
  | c0 so where "c = clear + 2 + length D" "old = Some c0" "dict_string clear D c0 = Some so" "s = so @ [hd so]"
    "dict_string clear D' c = Some s"
proof (cases "c < clear + 2 + length D")
  case True
  then have s: "dict_string clear D c = Some s" and D': "D' = D \<or> (\<exists>e. D' = D @ [e])" "old = None \<longrightarrow> D' = D"
    using dc by (auto simp: dict_code_def split: option.splits if_splits bind_splits)
  have "dict_string clear D' c = Some s" using s D'(1) by (auto simp: dict_string_def nth_append split: if_splits)
  then show thesis using that(1) True s D'(2) by simp
next
  case False
  then have n: "dict_string clear D c = None" by (simp add: dict_string_def)
  then obtain c0 so where o: "old = Some c0" "dict_string clear D c0 = Some so" "c = clear + 2 + length D" "s = so @ [hd so]"
    "D' = D @ [so @ [hd s]]"
    using dc c by (auto simp: dict_code_def split: option.splits if_splits bind_splits)
  have "hd s = hd so" using dict_string_nonempty(1) [OF t o(2)] o(4) by simp
  then have "dict_string clear D' c = Some s" using o by (simp add: dict_string_def)
  then show thesis using that(2) o by simp
qed

lemma dict_code_entries:
  "dict_code clear D (Some c0) c = Some (s, D') \<Longrightarrow> dict_string clear D c0 = Some so \<Longrightarrow>
   D' = (if clear + 2 + length D < gif_table_size then D @ [so @ [hd s]] else D)"
  by (auto simp: dict_code_def split: if_splits bind_splits)

text \<open>The bytes of one code: the stack holds its string, and the first byte is remembered.\<close>

lemma lzw_code_string:
  assumes sim: "lzw_simulates k ds st" and c: "c < gif_table_size"
    and dc: "dict_code (2 ^ k) (entries ds) (dold ds) c = Some (s, D')"
  shows "lzw_code (of_nat k) st (of_nat c) = Some (s, (add_code (st\<lparr>firstChar := ucast (hd s)\<rparr>))\<lparr>oldCode := of_nat c\<rparr>)"
proof -
  let ?D = "entries ds" and ?n = "2 ^ k + 2 + length (entries ds)"
  have a: "k < dwidth ds" "dwidth ds \<le> 12" "?n \<le> gif_table_size" "tables_hold (2 ^ k) ?D st"
    "availableCode st = of_nat ?n" using sim by (simp_all add: lzw_simulates_def)
  have small: "unat (of_nat m :: u32) = m" if "m \<le> gif_table_size" for m
    using that by (simp add: gif_table_size_def unat_of_nat)
  have clear: "clearCode (of_nat k) = of_nat (2 ^ k)"
    using a(1,2) by (simp add: clearCode_def push_bit_eq_mult unat_of_nat)
  have ge: "(of_nat c \<ge> availableCode st) = (?n \<le> c)" unfolding a(5) word_le_nat_alt
    using small [of c] small [OF a(3)] c by (simp del: of_nat_add)
  have kpos: "(0 :: nat) < 2 ^ k" and kle: "(2 :: nat) ^ k \<le> gif_table_size" using a(3) by simp_all
  obtain z code0 stk0 space0 where z: "dict_string (2 ^ k) ?D code0 = Some z" "s = z @ stk0" "hd s = hd z"
    "gif_table_size \<le> space0"
    "(if of_nat c \<ge> availableCode st then ([ucast (firstChar st)], gif_stack_size - 1, oldCode st)
        else ([], gif_stack_size, of_nat c)) = (stk0, space0, of_nat code0)"
    using a(4) dc c
  proof (cases rule: dict_code_some)
    case 1
    then show ?thesis using ge by (intro that [of c s "[]" gif_stack_size]) (simp_all add: gif_stack_size_def gif_table_size_def)
  next
    case (2 c0 so)
    then have f: "firstChar st = ucast (hd so)" "oldCode st = of_nat c0" using sim by (simp_all add: lzw_simulates_def)
    have "(ucast (ucast (hd so) :: u32) :: u8) = hd so" by (simp add: ucast_up_ucast_id is_up)
    then show ?thesis using 2 f ge dict_string_nonempty(1) [OF a(4) 2(3)]
      by (intro that [of c0 so "[hd so]" "gif_stack_size - 1"]) (simp_all add: gif_stack_size_def gif_table_size_def)
  qed
  have len: "length z \<le> gif_table_size - 1" "z \<noteq> []"
    using dict_string_length [OF a(4) z(1)] dict_string_nonempty [OF a(4) z(1)] a(3) kpos by linarith+
  then have "length z \<le> Suc space0" using z(4) by simp
  from chain_string [OF a(4) a(3) kpos z(1) this, of stk0] obtain c0 where ch: "c0 < 2 ^ k"
    "chain st (of_nat (2 ^ k)) space0 (of_nat code0) stk0 = Some (of_nat c0, tl z @ stk0, space0 - (length z - 1))" "hd z = of_nat c0"
    by blast
  have left: "space0 - (length z - 1) \<noteq> 0" using len z(4) by (simp add: gif_table_size_def)
  have c0: "unat (of_nat c0 :: u32) = c0" "(of_nat c0 :: u32) < 4096"
    using ch(1) kle small [of c0] by (simp_all add: word_less_nat_alt gif_table_size_def)
  have "lsuffix st c0 = Some (hd z)" using a(4) ch(1,3) by (simp add: tables_hold_def)
  then show ?thesis using ch(2) c0 left len(2) z(2,3) unfolding lzw_code_def z(5) Let_def prod.case clear by simp
qed

lemma lzw_code_simulates:
  assumes sim: "lzw_simulates k ds st" and w: "c < 2 ^ dwidth ds"
    and dc: "dict_code (2 ^ k) (entries ds) (dold ds) c = Some (s, D')"
  defines "w' \<equiv> if length D' \<noteq> length (entries ds) \<and> 2 ^ dwidth ds \<le> 2 ^ k + 2 + length D' \<and> dwidth ds < 12
      then dwidth ds + 1 else dwidth ds"
  shows "\<exists>st'. lzw_code (of_nat k) st (of_nat c) = Some (s, st')
    \<and> lzw_simulates k \<lparr>entries = D', dold = Some c, dpos = dpos ds, dwidth = w'\<rparr> st'"
proof -
  let ?st1 = "st\<lparr>firstChar := ucast (hd s)\<rparr>"
  have a: "dwidth ds \<le> 12" "tables_hold (2 ^ k) (entries ds) st" using sim by (simp_all add: lzw_simulates_def)
  have "(2 :: nat) ^ dwidth ds \<le> 2 ^ 12" by (rule power_increasing [OF a(1)]) simp
  then have c: "c < gif_table_size" using w by (simp add: gif_table_size_def)
  have s: "dict_string (2 ^ k) D' c = Some s" "dold ds = None \<longrightarrow> D' = entries ds"
    by (rule dict_code_some [OF a(2) dc c]; simp)+
  have "lzw_simulates k \<lparr>entries = D', dold = Some c, dpos = dpos ds, dwidth = w'\<rparr> ((add_code ?st1)\<lparr>oldCode := of_nat c\<rparr>)"
  proof (cases "dold ds")
    case None
    then have D': "D' = entries ds" "w' = dwidth ds" using s(2) by (simp_all add: w'_def)
    have "oldCode st = 0xFFFF" using sim None by (simp add: lzw_simulates_def)
    then have add: "add_code ?st1 = ?st1" by (simp add: add_code_def)
    show ?thesis using sim c s(1) unfolding add D' by (simp add: lzw_simulates_def tables_hold_def)
  next
    case (Some d)
    then obtain so where so: "dict_string (2 ^ k) (entries ds) d = Some so" using sim by (auto simp: lzw_simulates_def)
    have x: "ucast (firstChar ?st1) = hd s" by (simp add: ucast_up_ucast_id is_up)
    have D': "D' = (if 2 ^ k + 2 + length (entries ds) < gif_table_size then entries ds @ [so @ [hd s]] else entries ds)"
      using dict_code_entries [OF _ so] dc Some by simp
    note add = add_code_simulates [OF sim refl refl Some so x, folded D', folded w'_def]
    show ?thesis using add sim c s(1) by (simp add: lzw_simulates_def tables_hold_def)
  qed
  then show ?thesis using lzw_code_string [OF sim c dc] by blast
qed

section \<open>The decoder returns, with what the dictionary gives\<close>

lemma lzw_reset_simulates:
  assumes "k \<le> 11" and "bitPos st = of_nat pos" and "\<forall>i < 2 ^ k. lsuffix st i = Some (of_nat i)"
  shows "lzw_simulates k \<lparr>entries = [], dold = None, dpos = pos, dwidth = k + 1\<rparr> (lzw_reset (of_nat k) st)"
proof -
  have "(2 :: nat) ^ k \<le> 2 ^ 11" by (rule power_increasing [OF assms(1)]) simp
  moreover have "(ucast (of_nat k :: u8) :: u32) = of_nat k" "unat (of_nat k :: u8) = k" "unat (of_nat k + 1 :: u32) = k + 1"
    using assms(1) by (simp_all add: word_unat_eq_iff unat_of_nat unsigned_ucast_eq take_bit_eq_mod unat_word_ariths)
  ultimately show ?thesis
    using assms by (simp add: lzw_simulates_def lzw_reset_def Let_def gif_table_size_def tables_hold_def eoiCode_def clearCode_def
        push_bit_eq_mult add.commute)
qed

lemma lzw_start_simulates:
  assumes "k \<le> 11"
  shows "\<exists>st. lzw_start (of_nat k) = Some st \<and> lzw_simulates k \<lparr>entries = [], dold = None, dpos = 0, dwidth = k + 1\<rparr> st"
proof -
  have k: "unat (of_nat k :: u8) = k" using assms by (simp add: unat_of_nat)
  have "(2 :: nat) ^ k \<le> 2 ^ 11" by (rule power_increasing [OF assms]) simp
  then have "unat (of_nat (2 ^ k) :: u32) = 2 ^ k" by (simp add: unat_of_nat del: of_nat_power)
  then have n: "unat (clearCode (of_nat k)) = 2 ^ k" using k by (simp add: clearCode_def push_bit_eq_mult)
  obtain st where st: "lzw_start (of_nat k) = Some st" "bitPos st = 0" "\<forall>i < 2 ^ k. lsuffix st i = Some (of_nat i)"
    "lzw_reset (of_nat k) st = st"
    using assms k n by (simp add: lzw_start_def lzw_reset_def Let_def)
  then show ?thesis using lzw_reset_simulates [OF assms, of st 0] by auto
qed

text \<open>
  The program reads \<open>raster @ pad\<close>: it follows the decoder of the format on \<open>raster\<close>, and with three
  bytes of padding to the end.
\<close>

lemma lzw_loop_simulates:
  "dict_loop k npix raster ds out = Some r \<Longrightarrow> lzw_simulates k ds st \<Longrightarrow> k \<le> 11 \<Longrightarrow>
   length (raster @ pad) < 2 ^ 28 \<Longrightarrow> dpos ds < 2 ^ 31 + 12 \<Longrightarrow> length out \<le> npix \<Longrightarrow>
   \<exists>m \<le> length r. lzw_loop (of_nat k) npix (raster @ pad) st out = Some (take m r) \<and> (3 \<le> length pad \<longrightarrow> m = length r)"
proof (induction k npix raster ds out arbitrary: st rule: dict_loop.induct)
  case (1 k npix raster ds out)
  let ?S = "raster @ pad"
  note IH = 1(1,2) and assms = 1(5,6)
  have s: "bitPos st = of_nat (dpos ds)" "codeSize st = of_nat (dwidth ds)" "k < dwidth ds" "dwidth ds \<le> 12"
    "\<forall>i < 2 ^ k. lsuffix st i = Some (of_nat i)"
    using 1(4) by (simp_all add: lzw_simulates_def tables_hold_def)
  have "unat (of_nat (dpos ds) :: u32) = dpos ds" using 1(7) by (simp add: unat_of_nat)
  then have d: "unat (bitPos st div 8) = dpos ds div 8" by (simp add: s(1) unat_div)
  have "(bitPos st div 8 + 3 \<ge> of_nat n) = (n \<le> dpos ds div 8 + 3)" if "n < 2 ^ 28" for n
    using that 1(7) d unfolding word_le_nat_alt by (subst unat_add_small) (simp_all add: unat_of_nat)
  then have len: "(bitPos st div 8 + 3 \<ge> of_nat (length ?S)) = (length ?S \<le> dpos ds div 8 + 3)" using 1(6) .
  note pre = dict_loop_prefix [OF 1(3,8)]
  show ?case
  proof (cases "length out < npix \<and> dpos ds div 8 + 3 < length ?S")
    case False
    have "lzw_loop (of_nat k) npix ?S st out = Some (take (length out) r)"
      using False len pre by (auto simp: lzw_loop.simps [of "of_nat k" npix ?S st out])
    moreover have "length out = length r" if "3 \<le> length pad"
    proof (cases "length out < npix")
      case True
      then have "8 * length raster \<ge> dpos ds + dwidth ds"
        using 1(3) by (auto simp: dict_loop.simps [of k npix raster ds out] split: if_splits)
      then show ?thesis using False True that s(3) by simp
    qed (use 1(3) in \<open>auto simp: dict_loop.simps [of k npix raster ds out]\<close>)
    ultimately show ?thesis using pre by (intro exI [of _ "length out"]) simp
  next
    case True
    define c where "c = code_at raster (dpos ds) (dwidth ds)"
    let ?st = "st\<lparr>bitPos := bitPos st + codeSize st\<rparr>"
    have go: "\<not> npix \<le> length out" "\<not> (dwidth ds = 0 \<or> 8 * length raster < dpos ds + dwidth ds)"
      using True 1(3) s(3) by (auto simp: dict_loop.simps [of k npix raster ds out] split: if_splits)
    have "dpos ds div 8 < 2 ^ 28" using True 1(6) by linarith
    then have pos: "dpos ds + dwidth ds < 2 ^ 31 + 12" using s(4) by simp
    have cw: "c < 2 ^ dwidth ds" unfolding c_def by (rule code_at_less)
    have "(2 :: nat) ^ dwidth ds \<le> 2 ^ 12" "(2 :: nat) ^ k \<le> 2 ^ 11"
      using s(4) 1(5) by (intro power_increasing; simp)+
    then have small: "c < 4096" "(2 :: nat) ^ k \<le> 2048" using cw by simp_all
    have "code_at ?S (dpos ds) (dwidth ds) = c" unfolding c_def using go(2) by (intro code_at_append) simp
    then have "unat (read_code ?S st) = c"
      using read_code_at [OF s(1) _ s(2), of ?S] 1(7) s(4) True by simp
    then have rc: "read_code ?S st = of_nat c" using small(1) by (simp add: word_unat_eq_iff unat_of_nat)
    have k8: "unat (of_nat k :: u8) = k" using 1(5) by (simp add: unat_of_nat)
    have clear: "clearCode (of_nat k) = of_nat (2 ^ k)" "eoiCode (of_nat k) = of_nat (2 ^ k + 1)"
      by (simp_all add: eoiCode_def clearCode_def push_bit_eq_mult k8)
    have eq: "((of_nat c :: u32) = of_nat (2 ^ k)) = (c = 2 ^ k)" "((of_nat c :: u32) = of_nat (2 ^ k + 1)) = (c = 2 ^ k + 1)"
      using small unfolding word_unat_eq_iff unat_of_nat by simp_all
    have step: "lzw_loop (of_nat k) npix ?S st out =
        (if c = 2 ^ k then lzw_loop (of_nat k) npix ?S (lzw_reset (of_nat k) ?st) out
         else if c = 2 ^ k + 1 then Some out
         else (case lzw_code (of_nat k) ?st (of_nat c) of None \<Rightarrow> None
              | Some (stk, st2) \<Rightarrow> lzw_loop (of_nat k) npix ?S st2 (out @ take (npix - length out) stk)))"
      using True len unfolding lzw_loop.simps [of "of_nat k" npix ?S st out] rc clear eq Let_def by simp
    have sim: "lzw_simulates k (ds\<lparr>dpos := dpos ds + dwidth ds\<rparr>) ?st"
      using 1(4) by (cases "dold ds") (simp_all add: lzw_simulates_def tables_hold_def)
    note dl = 1(3) [unfolded dict_loop.simps [of k npix raster ds out] Let_def, folded c_def]
    consider "c = 2 ^ k" | "c = 2 ^ k + 1" | "c \<noteq> 2 ^ k" "c \<noteq> 2 ^ k + 1" by blast
    then show ?thesis
    proof cases
      case 1
      then have "dict_loop k npix raster \<lparr>entries = [], dold = None, dpos = dpos ds + dwidth ds, dwidth = k + 1\<rparr> out = Some r"
        using dl go by simp
      moreover have "lzw_simulates k \<lparr>entries = [], dold = None, dpos = dpos ds + dwidth ds, dwidth = k + 1\<rparr> (lzw_reset (of_nat k) ?st)"
        using s by (intro lzw_reset_simulates [OF \<open>k \<le> 11\<close>]) simp_all
      ultimately show ?thesis
        using 1 IH(1) [OF go c_def refl 1] pos assms go(1) by (simp add: step)
    next
      case 2
      then have "r = out" using dl go by simp
      then show ?thesis unfolding step using 2 by (intro exI [of _ "length r"]) simp
    next
      case 3
      then obtain s D where dc: "dict_code (2 ^ k) (entries ds) (dold ds) c = Some (s, D)"
        using dl go by (auto split: option.splits)
      define w where "w = (if length D \<noteq> length (entries ds) \<and> 2 ^ dwidth ds \<le> 2 ^ k + 2 + length D \<and> dwidth ds < 12
               then dwidth ds + 1 else dwidth ds)"
      let ?ds = "\<lparr>entries = D, dold = Some c, dpos = dpos ds + dwidth ds, dwidth = w\<rparr>"
      obtain st2 where st2: "lzw_code (of_nat k) ?st (of_nat c) = Some (s, st2)" "lzw_simulates k ?ds st2"
        using lzw_code_simulates [OF sim, of c s D] dc cw by (auto simp: w_def cong: if_cong)
      have "dict_loop k npix raster ?ds (out @ take (npix - length out) s) = Some r"
        using dl go 3 dc by (simp add: w_def)
      then show ?thesis
        using IH(2) [OF go c_def refl 3 dc refl w_def, of st2] st2 pos 3 assms go(1) by (simp add: step)
    qed
  qed
qed

lemma lzw_decodes:
  assumes "k \<le> 11" and "length (raster @ pad) < 2 ^ 28" and "dict_indices k npix raster = Some idx"
  shows "\<exists>m \<le> length idx. lzw_indices (of_nat k) npix (raster @ pad) = Some (take m idx @ replicate (npix - m) 0)
    \<and> (3 \<le> length pad \<longrightarrow> m = length idx)"
proof -
  let ?ds = "\<lparr>entries = [], dold = None, dpos = 0, dwidth = k + 1\<rparr>"
  have r: "dict_loop k npix raster ?ds [] = Some idx" using assms(3) by (simp add: dict_indices_def)
  obtain st where st: "lzw_start (of_nat k) = Some st" "lzw_simulates k ?ds st"
    using lzw_start_simulates [OF assms(1)] by blast
  obtain m where m: "m \<le> length idx" "lzw_loop (of_nat k) npix (raster @ pad) st [] = Some (take m idx)"
    "3 \<le> length pad \<longrightarrow> m = length idx"
    using lzw_loop_simulates [OF r st(2) assms(1,2)] by auto
  then show ?thesis using st(1) by (intro exI [of _ m]) (simp add: lzw_indices_def min_absorb2)
qed

text \<open>
  The index buffer is as long as the frame whatever the stream holds, when the decoder returns.
\<close>

lemma lzw_loop_length:
  "lzw_loop ic npix stream st out = Some r \<Longrightarrow> length out \<le> npix \<longrightarrow> length r \<le> npix"
  by (rule lzw_loop.raw_induct [where P = "\<lambda>ic npix stream st out r. length out \<le> npix \<longrightarrow> length r \<le> npix"])
     (fastforce simp: Let_def split: if_splits option.splits)+

lemma lzw_indices_length: "lzw_indices ic npix stream = Some out \<Longrightarrow> length out = npix"
  using lzw_loop_length [where out = "[]"] by (fastforce simp: lzw_indices_def split: bind_splits)

text \<open>The loop stops before a code whose four bytes are not all inside the stream.\<close>

lemma short_raster:
  assumes "unat ic \<le> 12" and "length stream < 4"
  shows "lzw_indices ic npix stream = Some (replicate npix 0)"
proof -
  have "(of_nat (length stream) :: u32) \<le> 3" using assms(2) by (simp add: word_le_nat_alt unat_of_nat)
  then show ?thesis
    using assms(1) by (simp add: lzw_indices_def lzw_start_def Let_def lzw_loop.simps)
qed

text \<open>
  So the end of a raster that ends with its end code is lost: the format gives this raster two
  pixels of index 1, the program two pixels of index 0.
\<close>

theorem raster_end_lost:
  "dict_indices 2 2 [0x4C, 0x0A] = Some [1, 1] \<and> lzw_indices 2 2 [0x4C, 0x0A] = Some [0, 0]"
proof
  show "dict_indices 2 2 [0x4C, 0x0A] = Some [1, 1]"
    by (simp add: dict_indices_def dict_loop.simps code_at_def dict_code_def dict_string_def Let_def gif_table_size_def)
  show "lzw_indices 2 2 [0x4C, 0x0A] = Some [0, 0]"
    using short_raster [of 2 "[0x4C, 0x0A]" 2] by simp (simp add: numeral_2_eq_2)
qed

text \<open>C4: let the decoder of the GIF format, for a code size of up to 11 and with all codes inside \<open>raster\<close>, give
  the indices \<open>idx\<close>.  The loop of \<open>GetGIFFrame\<close> over \<open>raster @ pad\<close> (less than 2 ^ 28 bytes) returns, never reads
  an element of its tables it has not written, and never overflows its stack of 4097 bytes.  Its indices are
  a first part of \<open>idx\<close> and then 0 for every pixel that is left; when at least three bytes follow \<open>raster\<close>
  that first part is all of \<open>idx\<close>.  Without these three bytes the program stops before the codes that begin in
  the last three bytes, and the end of the picture may be lost.
\<close>

theorem gif_raster_decoded:
  assumes "k \<le> 11" and "length (raster @ pad) < 2 ^ 28" and "dict_indices k npix raster = Some idx"
  shows "\<exists>m \<le> length idx. lzw_indices (of_nat k) npix (raster @ pad) = Some (take m idx @ replicate (npix - m) 0)
    \<and> (3 \<le> length pad \<longrightarrow> m = length idx)"
  by (rule lzw_decodes [OF assms])

text \<open>A raster of seven pixels with a code that is used before its entry is complete, and its end code.\<close>

definition sample_raster :: bytes where
  "sample_raster = [140, 47, 5]"

lemma sample_raster_decodes: "dict_indices 2 10 sample_raster = Some [1, 1, 1, 1, 1, 1, 2]"
  by (simp add: dict_indices_def dict_loop.simps sample_raster_def code_at_def dict_code_def dict_string_def Let_def gif_table_size_def)

theorem gif_raster_decoded_witness:
  "lzw_indices 2 10 (sample_raster @ [0, 0, 0]) = Some [1, 1, 1, 1, 1, 1, 2, 0, 0, 0]"
  using gif_raster_decoded [OF _ _ sample_raster_decodes, of "[0, 0, 0]"]
  by (simp add: sample_raster_def) (simp add: numeral_3_eq_3)

text \<open>
  A raster that starts with a code of no entry makes the next literal add an entry that is its own
  prefix; its code then fills the stack without end.
\<close>

lemma chain_cycle:
  assumes "clear \<le> c" and "c < 4096" and "lsuffix st (unat c) = Some s" and "lprefix st (unat c) = Some (ucast c)"
  shows "chain st clear space c stk = None"
proof (induction space arbitrary: stk)
  case (Suc space)
  have "(ucast (ucast c :: u16) :: u32) = c"
    using assms(2) by (simp add: word_unat_eq_iff unsigned_ucast_eq take_bit_eq_mod word_less_nat_alt unat_mod)
  then show ?case using Suc assms by simp
qed (use assms in simp)

lemma chain_stop: "\<not> (clear \<le> c \<and> c < 4096) \<Longrightarrow> chain st clear space c stk = Some (c, stk, space)"
  by (cases space) auto

theorem cyclic_raster_overflows: "lzw_indices 2 10 [142, 1, 0, 0, 0, 0] = None"
  apply (simp add: lzw_indices_def lzw_start_def clearCode_def eoiCode_def Let_def)
  apply (subst lzw_loop.simps, simp add: clearCode_def eoiCode_def read_code_def rd_u32_def Let_def)
  apply (simp add: lzw_code_def add_code_def gif_stack_size_def chain_stop clearCode_def Let_def word_le_nat_alt word_less_nat_alt)
  apply (subst lzw_loop.simps, simp add: clearCode_def eoiCode_def read_code_def rd_u32_def Let_def)
  apply (simp add: lzw_code_def add_code_def gif_stack_size_def chain_stop clearCode_def Let_def word_le_nat_alt word_less_nat_alt)
  apply (subst lzw_loop.simps, simp add: clearCode_def eoiCode_def read_code_def rd_u32_def Let_def)
  apply (simp add: lzw_code_def add_code_def gif_stack_size_def chain_cycle clearCode_def Let_def word_le_nat_alt word_less_nat_alt)
  done
end
