(* ===== verification/Boot_Socket.thy ===== *)
theory Boot_Socket
  imports Frat_Dir
begin

text \<open>
  Sockets of the boot loader: \<^verbatim>\<open>drivers/socket/socket.h\<close> and the handle sockets of
  \<^verbatim>\<open>drivers/socket/sockets.c\<close>, with the reading path of the boot loader's own copy of FRAT
  (\<^verbatim>\<open>drivers/.disk/fs/frat.c\<close>) where it differs from the copy of the tool.  A socket is what the
  image decoders and the executable loader read their input through; the locale \<open>byte_socket\<close> is the
  contract they rely on, and a socket on a file in order keeps it.
\<close>

section \<open>Sockets\<close>

record socket_ret =
  errout :: u16
  nData :: u64
  sdata :: "bytes option"

definition socketreterr :: "socket_ret \<Rightarrow> u64 \<Rightarrow> bool" where
  "socketreterr ret ndata = (\<not> (errout ret = 0 \<and> sdata ret \<noteq> None \<and> nData ret = ndata))"

definition socketret_noerr_empty :: socket_ret where
  "socketret_noerr_empty = \<lparr>errout = 0, nData = 0, sdata = None\<rparr>"

definition socketret_noimpl :: socket_ret where
  "socketret_noimpl = \<lparr>errout = 2, nData = 0, sdata = None\<rparr>"

text \<open>A 16-bit field of a structure that was read.\<close>

definition rd_u16 :: "bytes \<Rightarrow> nat \<Rightarrow> u16" where
  "rd_u16 bs off = of_nat (le_nat (take 2 (drop off bs)))"

text \<open>Reading from a socket: a position and a number of bytes.\<close>

type_synonym reader = "u64 \<Rightarrow> u64 \<Rightarrow> socket_ret"

section \<open>Reading files in the boot loader\<close>

definition boot_ffindhi :: "conf_fsroot \<Rightarrow> u64 \<times> u64 \<Rightarrow> u64 \<Rightarrow> nat option" where
  "boot_ffindhi r hash i =
    List.find (\<lambda>cc. fcodelow (clusterMap r ! cc) = fst hash
        \<and> ucast (fcodehigh (clusterMap r ! cc)) = (snd hash AND FCODEHASHMASK)
        \<and> ucast (index (clusterMap r ! cc)) = i)
      [0..<unat (nClusterItems r)]"

text \<open>The loop over extensions; a null block is dereferenced in its condition.\<close>

partial_function (option) boot_ext_skip :: "conf_fsroot \<Rightarrow> u64 \<times> u64 \<Rightarrow> nat option \<Rightarrow> u64 \<Rightarrow> (nat \<times> u64) option" where
  "boot_ext_skip r hash fb i =
    (case fb of
       None \<Rightarrow> None
     | Some cc \<Rightarrow>
         if flag_check (attributes (clusterMap r ! cc)) fsextensionallocatedcluster
         then boot_ext_skip r hash (boot_ffindhi r hash i) (i + 1)
         else Some (cc, i))"

definition boot_fread1 :: "fsys \<Rightarrow> nat \<Rightarrow> u64 \<Rightarrow> (bytes option \<times> u64) option" where
  "boot_fread1 fs fb i =
    (let r = mnt fs; b = clusterMap r ! fb in
     if i \<noteq> ucast (index b) then
       (case boot_ffindhi r (code_of b) i of
          None \<Rightarrow> Some (None, i)
        | Some c \<Rightarrow> do {
            (k, i') \<leftarrow> boot_ext_skip r (code_of b) (Some c) i;
            Some (read_data_block fs k, i')
          })
     else Some (read_data_block fs fb, i))"

partial_function (option) boot_fsize_loop :: "conf_fsroot \<Rightarrow> u64 \<times> u64 \<Rightarrow> u64 \<Rightarrow> u32 \<Rightarrow> u64 option" where
  "boot_fsize_loop r hash sz cc =
    (case boot_ffindhi r hash (ucast cc) of
       None \<Rightarrow> Some sz
     | Some k \<Rightarrow>
         boot_fsize_loop r hash
           (if \<not> flag_check (attributes (clusterMap r ! k)) fsmetadatacluster
            then sz + ucast (confBlockSize (root r)) else sz)
           (cc + 1))"

text \<open>Unlike the tool, the count starts behind the metadata block.\<close>

definition boot_fsize :: "fsys \<Rightarrow> fhandle \<Rightarrow> u64 option" where
  "boot_fsize fs h = boot_fsize_loop (mnt fs) (code_of (fb_of fs (fh_file h))) 0 1"

text \<open>The firmware clock may fail; then no stamp is written.  A reading is the time and the day.\<close>

definition boot_fupdatetstamp :: "(nat \<times> nat) option \<Rightarrow> nat \<Rightarrow> bool \<Rightarrow> fsys \<Rightarrow> fsys option" where
  "boot_fupdatetstamp clock fb wt fs =
    (case clock of None \<Rightarrow> Some fs | Some now \<Rightarrow> fupdatetstamp now fb wt fs)"

function boot_fread_loop :: "nat \<Rightarrow> u64 \<Rightarrow> u64 \<Rightarrow> bytes \<Rightarrow> fsys \<Rightarrow> (bytes \<times> u64 \<times> u64) option" where
  "boot_fread_loop fb pos left out fs =
    (let blkSize = ucast (confBlockSize (root (mnt fs))) :: u64 in
     if left = 0 then Some (out, pos, left)
     else if blkSize = 0 then None
     else
       let blkIndex = safediv pos blkSize; blkOffset = pos mod blkSize;
           chunk = chunk_len blkSize pos left
       in do {
         (blk, i) \<leftarrow> boot_fread1 fs fb blkIndex;
         (case blk of
            None \<Rightarrow> Some (out, pos, left)
          | Some b \<Rightarrow>
              boot_fread_loop fb (pos + chunk) (left - chunk)
                (out @ take (unat chunk) (drop (unat blkOffset) b)) fs)
       })"
  by auto
termination
  by (relation "measure (\<lambda>(fb, pos, left, out, fs). unat left)")
     (use chunk_decreases in \<open>simp_all add: Let_def\<close>)

declare boot_fread_loop.simps [simp del]

text \<open>
  A read past the end claims to have read everything and leaves the caller's pointer null.  A buffer of
  no bytes is not allocated, so a read of no bytes leaves it null as well.
\<close>

definition boot_fread ::
  "(nat \<times> nat) option \<Rightarrow> fhandle \<Rightarrow> u64 \<Rightarrow> fsys \<Rightarrow> (u64 \<times> bytes option \<times> fhandle \<times> fsys) option" where
  "boot_fread clock h nbytes fs = do {
     sz \<leftarrow> boot_fsize fs h;
     (if (progress h - ucast (confBlockSize (root (mnt fs)))) + nbytes > sz then Some (nbytes, None, h, fs)
      else do {
        fs1 \<leftarrow> boot_fupdatetstamp clock (fh_file h) False fs;
        (if nbytes = 0 then Some (0, None, h, fs1)
         else do {
           (out, pos, left) \<leftarrow> boot_fread_loop (fh_file h) (progress h) nbytes [] fs1;
           Some (nbytes - left, Some (out @ replicate (unat nbytes - length out) 0), h\<lparr>progress := pos\<rparr>, fs1)
         })
      })
   }"

definition fhandle_sckread ::
  "(nat \<times> nat) option \<Rightarrow> unhandle \<Rightarrow> u64 \<Rightarrow> u64 \<Rightarrow> fsys \<Rightarrow> (socket_ret \<times> unhandle \<times> fsys) option" where
  "fhandle_sckread clock uh posBYTES readBYTES fs =
    (case uh of
       UDir _ \<Rightarrow> Some (socketret_noimpl, uh, fs)
     | UFile None \<Rightarrow> None
     | UFile (Some h) \<Rightarrow> do {
         (k, temp, h', fs') \<leftarrow> boot_fread clock (fseek fs posBYTES h) readBYTES fs;
         Some (\<lparr>errout = 0, nData = k, sdata = (if readBYTES \<noteq> k then None else temp)\<rparr>, UFile (Some h'), fs')
       })"

section \<open>The contract of a socket\<close>

text \<open>
  A socket that serves the bytes \<open>content\<close>: what lies inside is read, and what does not is an error,
  for positions that do not wrap; a read of no bytes is an error.
\<close>

locale byte_socket =
  fixes rd :: reader and content :: bytes
  assumes read_inside: "n \<noteq> 0 \<Longrightarrow> unat pos + unat n \<le> length content \<Longrightarrow>
      rd pos n = \<lparr>errout = 0, nData = n, sdata = Some (take (unat n) (drop (unat pos) content))\<rparr>"
    and read_outside: "length content < unat pos + unat n \<Longrightarrow> unat pos + unat n < 2 ^ 63 \<Longrightarrow> socketreterr (rd pos n) n"
    and read_nothing: "socketreterr (rd pos 0) 0"
begin

lemma read_fine: "n \<noteq> 0 \<Longrightarrow> unat pos + unat n \<le> length content \<Longrightarrow> \<not> socketreterr (rd pos n) n"
  using read_inside [of n pos] by (simp add: socketreterr_def)

lemma read_ok:
  "unat pos + unat n < 2 ^ 63 \<Longrightarrow> \<not> socketreterr (rd pos n) n \<longleftrightarrow> n \<noteq> 0 \<and> unat pos + unat n \<le> length content"
  using read_fine read_outside read_nothing by (metis not_le)

lemma read_data: "n \<noteq> 0 \<Longrightarrow> unat pos + unat n \<le> length content \<Longrightarrow> sdata (rd pos n) = Some (take (unat n) (drop (unat pos) content))"
  using read_inside by simp

lemma read_byte:
  assumes "unat pos < length content"
  shows "rd pos 1 = \<lparr>errout = 0, nData = 1, sdata = Some [content ! unat pos]\<rparr>"
proof -
  have "take 1 (drop (unat pos) content) = [content ! unat pos]"
    using assms by (metis Cons_nth_drop_Suc One_nat_def take_Suc_Cons take_0)
  then show ?thesis using read_inside [of 1 pos] assms by simp
qed

end

text \<open>A socket on a list of bytes.\<close>

definition list_reader :: "bytes \<Rightarrow> reader" where
  "list_reader content pos n =
    (if n \<noteq> 0 \<and> unat pos + unat n \<le> length content
     then \<lparr>errout = 0, nData = n, sdata = Some (take (unat n) (drop (unat pos) content))\<rparr> else \<lparr>errout = 8, nData = 0, sdata = None\<rparr>)"

lemma list_reader_socket: "byte_socket (list_reader content) content"
  by unfold_locales (simp_all add: list_reader_def socketreterr_def)

section \<open>A socket on a file in order\<close>

lemma ucast_index: "k < 2 ^ 32 \<Longrightarrow> (ucast (w :: u32) = (of_nat k :: u64)) = (w = ucast (of_nat k :: u64))"
  by (auto simp: word_unat_eq_iff unat_ucast_index unat_of_nat)

lemma ucast_fcode: "(ucast (x :: u48) = (s AND FCODEHASHMASK :: u64)) = (x = ucast s)"
  by (auto simp: FCODEHASHMASK_def bit_simps mask_16 intro!: bit_word_eqI) (auto simp: bit_eq_iff bit_simps)

lemma boot_ffindhi_eq: "k < 2 ^ 32 \<Longrightarrow> boot_ffindhi r h (of_nat k) = ffindhi r h (of_nat k)"
  by (simp add: boot_ffindhi_def ffindhi_def ucast_index ucast_fcode conj_commute conj_left_commute)

text \<open>On such a file the boot loader's copy reads the same blocks as the tool's.\<close>

lemma no_extension:
  assumes "\<not> flag_check (attributes (clusterMap r ! c)) fsextensionallocatedcluster"
  shows "boot_ext_skip r h (Some c) i = Some (c, i)" "ext_skip r h (Some c) i = Some (Some c, i)"
  using assms by (subst boot_ext_skip.simps ext_skip.simps, simp)+

lemma boot_fread1_eq:
  assumes "file_ok fs fb lo hi" and "k < nblk fs lo hi"
  shows "boot_fread1 fs fb (of_nat k) = fread1 fs fb (of_nat k)"
proof -
  have k: "k < 2 ^ 32" using assms nblk_less by (meson order.strict_trans)
  have code: "code_of (clusterMap (mnt fs) ! fb) = (lo, ucast hi)"
    using assms(1) by (intro file_ok_code [OF assms(1)]) (simp add: file_ok_def)
  obtain cc b where cc: "ffindhi (mnt fs) (lo, ucast hi) (of_nat k) = Some cc" "cc \<in> fam (mnt fs) lo hi"
    using find_block [OF assms] by blast
  then have "\<not> flag_check (attributes (clusterMap (mnt fs) ! cc)) fsextensionallocatedcluster"
    using assms(1) by (simp add: file_ok_def fb_of_def)
  then show ?thesis
    using cc(1) by (simp add: boot_fread1_def fread1_def Let_def code boot_ffindhi_eq [OF k] no_extension)
qed

lemma boot_fread_loop_eq:
  "file_ok fs fb lo hi \<Longrightarrow> unat pos + unat left \<le> nblk fs lo hi * blksz fs \<Longrightarrow>
   boot_fread_loop fb pos left out fs = fread_loop fb pos left out fs"
proof (induction fb pos left out fs rule: boot_fread_loop.induct)
  case (1 fb pos left out fs)
  let ?blk = "ucast (confBlockSize (root (mnt fs))) :: u64"
  have bz: "0 < blksz fs" by (rule blksz_pos [OF 1(2)])
  have blk: "unat ?blk = blksz fs" by (rule unat_conf)
  then have blk0: "?blk \<noteq> 0" using bz by (metis less_numeral_extra(3) unat_0)
  show ?case
  proof (cases "left = 0")
    case True
    then show ?thesis by (simp add: boot_fread_loop.simps [of fb pos] fread_loop.simps [of fb pos])
  next
    case False
    define c where "c = chunk_len ?blk pos left"
    have cb: "unat c \<le> unat left" using chunk_len_bounds [OF False blk0, of pos] by (simp add: c_def)
    have lt: "unat pos div blksz fs < nblk fs lo hi"
      using 1(3) False bz by (metis add_gr_0 div_less_iff_less_mult le_less_trans less_add_same_cancel1 linorder_not_le
          order_less_le_trans unat_gt_0 word_neq_0_conv)
    have ix: "pos div ?blk = of_nat (unat pos div blksz fs)" by (rule block_index [OF refl])
    have eq: "boot_fread1 fs fb (pos div ?blk) = fread1 fs fb (pos div ?blk)"
      unfolding ix by (rule boot_fread1_eq [OF 1(2) lt])
    have big: "nblk fs lo hi * blksz fs < 2 ^ 64" by (rule nblk_blksz_less [OF 1(2)])
    have "unat (pos + c) + unat (left - c) \<le> nblk fs lo hi * blksz fs"
      using 1(3) cb big by (subst unat_add_small unat_sub_small; simp)+
    then have IH: "boot_fread_loop fb (pos + c) (left - c) (out @ take (unat c) (drop (unat (pos mod ?blk)) b)) fs
        = fread_loop fb (pos + c) (left - c) (out @ take (unat c) (drop (unat (pos mod ?blk)) b)) fs"
      if "fread1 fs fb (pos div ?blk) = Some (Some b, i)" for b i
      using that 1(1) [OF refl False blk0 refl refl refl] 1(2) blk0 eq by (simp add: safediv_def c_def)
    show ?thesis
      unfolding boot_fread_loop.simps [of fb pos] fread_loop.simps [of fb pos] Let_def
      using False blk0 eq IH by (auto simp: safediv_def c_def [symmetric] split: option.split Option.bind_splits)
  qed
qed

lemma boot_fsize_loop_eq:
  assumes "file_ok fs fb lo hi" and "1 \<le> k" and "k \<le> nblk fs lo hi"
  shows "boot_fsize_loop (mnt fs) (lo, ucast hi) sz (of_nat k) = fsize_loop (mnt fs) (lo, ucast hi) sz (of_nat k)"
  using assms(2,3)
proof (induction "nblk fs lo hi - k" arbitrary: k sz)
  case 0
  then have k: "k = nblk fs lo hi" "k < 2 ^ 32" using nblk_less [OF assms(1)] by simp_all
  then have "(ucast (of_nat k :: u32) :: u64) = of_nat k" by (simp add: word_unat_eq_iff unat_of_nat)
  moreover have "ffindhi (mnt fs) (lo, ucast hi) (of_nat k) = None"
    using ffindhi_contiguous [of "mnt fs" lo hi k] assms(1) k by (simp add: file_ok_def nblk_def)
  ultimately show ?case
    using k(2) by (subst boot_fsize_loop.simps, subst fsize_loop.simps) (simp add: boot_ffindhi_eq)
next
  case (Suc n)
  have k: "k < 2 ^ 32" "k < nblk fs lo hi" using nblk_less [OF assms(1)] Suc(2,4) by simp_all
  then have uk: "(ucast (of_nat k :: u32) :: u64) = of_nat k" by (simp add: word_unat_eq_iff unat_of_nat)
  have "boot_fsize_loop (mnt fs) (lo, ucast hi) s (of_nat k + 1) = fsize_loop (mnt fs) (lo, ucast hi) s (of_nat k + 1)" for s
    using Suc(1) [of "Suc k" s] Suc(2) k(2) by (simp add: add.commute)
  then show ?case
    using k(1) by (subst boot_fsize_loop.simps, subst fsize_loop.simps) (simp add: uk boot_ffindhi_eq split: option.split)
qed

lemma boot_fsize_ok:
  assumes "file_ok fs (fh_file h) lo hi"
  shows "boot_fsize fs h = Some (of_nat ((nblk fs lo hi - 1) * blksz fs))"
proof -
  have "fh_file h \<in> fam (mnt fs) lo hi" using assms by (simp add: file_ok_def)
  moreover have "1 \<le> nblk fs lo hi" using nblk_pos [OF assms] by simp
  ultimately show ?thesis
    using boot_fsize_loop_eq [OF assms, of 1 0] fsize_loop_ok [OF assms, of 1 0]
    by (simp add: boot_fsize_def fb_of_def file_ok_code [OF assms])
qed

text \<open>The bytes of a file, without its metadata block.\<close>

definition file_byte :: "fsys \<Rightarrow> u64 \<Rightarrow> u48 \<Rightarrow> nat \<Rightarrow> u8" where
  "file_byte fs lo hi q =
    (case Option.bind (ffindhi (mnt fs) (lo, ucast hi) (of_nat (q div blksz fs))) (read_data_block fs) of
       Some b \<Rightarrow> b ! (q mod blksz fs) | None \<Rightarrow> 0)"

definition file_bytes :: "fsys \<Rightarrow> u64 \<Rightarrow> u48 \<Rightarrow> bytes" where
  "file_bytes fs lo hi = map (file_byte fs lo hi) [blksz fs..<nblk fs lo hi * blksz fs]"

lemma file_byte_is:
  assumes "file_ok fs fb lo hi" and "q < nblk fs lo hi * blksz fs"
  shows "byte_is fs lo hi q (file_byte fs lo hi q)"
proof -
  have bz: "0 < blksz fs" by (rule blksz_pos [OF assms(1)])
  have "q div blksz fs < nblk fs lo hi" using assms(2) bz by (simp add: div_less_iff_less_mult)
  from find_block [OF assms(1) this] obtain cc b where cc: "ffindhi (mnt fs) (lo, ucast hi) (of_nat (q div blksz fs)) = Some cc"
    "cc \<in> fam (mnt fs) lo hi" "unat (index (fb_of fs cc)) = q div blksz fs" "data_is fs cc b" by blast
  obtain c where c: "read_data_block fs cc = Some c" "take (blksz fs) c = b"
    using cc(4) by (auto simp: data_is_def blksz_def split: option.splits)
  have bi: "block_is fs lo hi (q div blksz fs) b" using cc by (auto simp: block_is_def)
  have "b ! (q mod blksz fs) = file_byte fs lo hi q" using cc(1) c bz by (auto simp: file_byte_def)
  then show ?thesis using bi block_is_length [OF assms(1) bi] by (auto simp: byte_is_def)
qed

lemma length_file_bytes: "length (file_bytes fs lo hi) = (nblk fs lo hi - 1) * blksz fs"
  by (simp add: file_bytes_def diff_mult_distrib)

lemma file_bytes_slice:
  assumes ok: "file_ok fs fb lo hi" and "blksz fs \<le> p" and "p + length d \<le> nblk fs lo hi * blksz fs"
    and d: "\<And>i. i < length d \<Longrightarrow> byte_is fs lo hi (p + i) (d ! i)"
  shows "take (length d) (drop (p - blksz fs) (file_bytes fs lo hi)) = d"
proof (rule nth_equalityI)
  show "length (take (length d) (drop (p - blksz fs) (file_bytes fs lo hi))) = length d"
    using assms(2,3) by (simp add: file_bytes_def)
  fix i assume "i < length (take (length d) (drop (p - blksz fs) (file_bytes fs lo hi)))"
  then have i: "i < length d" by simp
  have "p - blksz fs + i < nblk fs lo hi * blksz fs - blksz fs" using i assms(2,3) by simp
  then have "file_bytes fs lo hi ! (p - blksz fs + i) = file_byte fs lo hi (p + i)"
    using assms(2) by (simp add: file_bytes_def)
  moreover have "file_byte fs lo hi (p + i) = d ! i"
    using byte_is_unique [OF ok file_byte_is [OF ok] d [OF i]] i assms(3) by simp
  ultimately show "take (length d) (drop (p - blksz fs) (file_bytes fs lo hi)) ! i = d ! i" using i assms(2,3) by (simp add: file_bytes_def)
qed

lemma boot_updatetstamp_ok:
  assumes "file_ok fs fb lo hi"
  obtains fs' where "boot_fupdatetstamp clock fb wt fs = Some fs'" "file_ok fs' fb lo hi" "mnt fs' = mnt fs"
    "file_bytes fs' lo hi = file_bytes fs lo hi"
proof -
  have "\<exists>fs'. boot_fupdatetstamp clock fb wt fs = Some fs' \<and> file_ok fs' fb lo hi \<and> mnt fs' = mnt fs
    \<and> (\<forall>q v. blksz fs \<le> q \<longrightarrow> byte_is fs lo hi q v \<longrightarrow> byte_is fs' lo hi q v)"
    using fupdatetstamp_ok [OF assms] assms by (cases clock) (simp_all add: boot_fupdatetstamp_def)
  then obtain fs' where f: "boot_fupdatetstamp clock fb wt fs = Some fs'" "file_ok fs' fb lo hi" "mnt fs' = mnt fs"
    "\<And>q v. blksz fs \<le> q \<Longrightarrow> byte_is fs lo hi q v \<Longrightarrow> byte_is fs' lo hi q v" by blast
  have same: "blksz fs' = blksz fs" "nblk fs' lo hi = nblk fs lo hi" using f(3) by (simp_all add: blksz_def nblk_def)
  have "file_byte fs' lo hi q = file_byte fs lo hi q" if "q \<in> set [blksz fs..<nblk fs lo hi * blksz fs]" for q
    using that same byte_is_unique [OF f(2) file_byte_is [OF f(2)] f(4) [OF _ file_byte_is [OF assms]]] by simp
  then have "file_bytes fs' lo hi = file_bytes fs lo hi" unfolding file_bytes_def same by (rule map_cong [OF refl])
  with f that show thesis by blast
qed

lemma seek_progress:
  assumes "unat pos + blksz fs < 2 ^ 64"
  shows "unat (progress (fseek fs pos h)) = blksz fs + unat pos"
proof -
  let ?m = "ucast (confBlockSize (root (mnt fs))) :: u64"
  have m: "unat ?m = blksz fs" by (rule unat_conf)
  have "unat (- 1 - ?m) = 2 ^ 64 - 1 - blksz fs"
    using assms by (subst unat_sub_small) (simp_all add: blksz_def unsigned_minus_1_eq_mask mask_eq_exp_minus_1)
  then have "\<not> pos > - 1 - ?m" using assms by (simp add: word_less_nat_alt)
  then show ?thesis using assms m by (simp add: fseek_def Let_def unat_add_small)
qed

text \<open>What the socket of a file in order returns.\<close>

lemma sckread_inside:
  assumes ok: "file_ok fs (fh_file h) lo hi" and n0: "n \<noteq> 0" and "unat pos + unat n \<le> length (file_bytes fs lo hi)"
  shows "\<exists>h' fs'. fhandle_sckread clock (UFile (Some h)) pos n fs
      = Some (\<lparr>errout = 0, nData = n, sdata = Some (take (unat n) (drop (unat pos) (file_bytes fs lo hi)))\<rparr>, UFile (Some h'), fs')
    \<and> fh_file h' = fh_file h \<and> file_ok fs' (fh_file h) lo hi \<and> file_bytes fs' lo hi = file_bytes fs lo hi"
proof -
  let ?h = "fseek fs pos h" and ?m = "ucast (confBlockSize (root (mnt fs))) :: u64" and ?N = "nblk fs lo hi * blksz fs"
  have N: "?N < 2 ^ 64" by (rule nblk_blksz_less [OF ok])
  have bN: "blksz fs \<le> ?N" using nblk_pos [OF ok] by simp
  have len: "unat pos + unat n \<le> ?N - blksz fs" using assms(3) by (simp add: file_bytes_def)
  then have p: "unat (progress ?h) = blksz fs + unat pos" using N bN by (intro seek_progress) linarith
  have fh: "fh_file ?h = fh_file h" by (simp add: fseek_def Let_def)
  have "unat (progress ?h - ?m) = unat pos" using p by (subst unat_sub_small) (simp_all add: blksz_def)
  then have "unat (progress ?h - ?m + n) = unat pos + unat n" using len N by (subst unat_add_small) simp_all
  moreover have "unat (of_nat ((nblk fs lo hi - 1) * blksz fs) :: u64) = ?N - blksz fs"
    using N by (simp only: unat_of_nat) (simp add: diff_mult_distrib)
  ultimately have guard: "\<not> progress ?h - ?m + n > of_nat ((nblk fs lo hi - 1) * blksz fs)"
    using len unfolding word_less_nat_alt by simp
  obtain fs1 where s: "boot_fupdatetstamp clock (fh_file h) False fs = Some fs1" "file_ok fs1 (fh_file h) lo hi"
    "mnt fs1 = mnt fs" "file_bytes fs1 lo hi = file_bytes fs lo hi" by (rule boot_updatetstamp_ok [OF ok])
  have same: "blksz fs1 = blksz fs" "nblk fs1 lo hi = nblk fs lo hi" using s(3) by (simp_all add: blksz_def nblk_def)
  have r: "unat (progress ?h) + unat n \<le> nblk fs1 lo hi * blksz fs1"
    unfolding same p using len bN by linarith
  obtain d where d: "fread_loop (fh_file h) (progress ?h) n [] fs1 = Some (d, progress ?h + n, 0)"
    "length d = unat n" "\<And>i. i < unat n \<Longrightarrow> byte_is fs1 lo hi (unat (progress ?h) + i) (d ! i)"
    using fread_loop_ok [OF s(2) _ r, of "[]"] p same by auto
  have "take (length d) (drop (unat (progress ?h) - blksz fs1) (file_bytes fs1 lo hi)) = d"
    using r d p same by (intro file_bytes_slice [OF s(2)]) simp_all
  then have "take (unat n) (drop (unat pos) (file_bytes fs lo hi)) = d" using d(2) p same s(4) by simp
  then have "fhandle_sckread clock (UFile (Some h)) pos n fs
      = Some (\<lparr>errout = 0, nData = n, sdata = Some (take (unat n) (drop (unat pos) (file_bytes fs lo hi)))\<rparr>,
          UFile (Some (?h\<lparr>progress := progress ?h + n\<rparr>)), fs1)"
    using boot_fsize_ok [of fs ?h lo hi] ok guard s(1) d(1,2) boot_fread_loop_eq [OF s(2) r]
    n0 by (simp add: fhandle_sckread_def boot_fread_def fh)
  then show ?thesis using s fh by auto
qed

lemma sckread_outside:
  assumes ok: "file_ok fs (fh_file h) lo hi" and "length (file_bytes fs lo hi) < unat pos + unat n"
    and "unat pos + unat n < 2 ^ 63"
  shows "\<exists>h'. fhandle_sckread clock (UFile (Some h)) pos n fs = Some (\<lparr>errout = 0, nData = n, sdata = None\<rparr>, UFile (Some h'), fs)"
proof -
  let ?h = "fseek fs pos h" and ?m = "ucast (confBlockSize (root (mnt fs))) :: u64" and ?N = "nblk fs lo hi * blksz fs"
  have N: "?N < 2 ^ 64" by (rule nblk_blksz_less [OF ok])
  have "blksz fs < 2 ^ 32" unfolding blksz_def
    using unsigned_less [of "confBlockSize (root (mnt fs))", where 'a = nat] by simp
  then have p: "unat (progress ?h) = blksz fs + unat pos" using assms(3) by (intro seek_progress) simp
  have fh: "fh_file ?h = fh_file h" by (simp add: fseek_def Let_def)
  have "unat (progress ?h - ?m) = unat pos" using p by (subst unat_sub_small) (simp_all add: blksz_def)
  then have "unat (progress ?h - ?m + n) = unat pos + unat n" using assms(3) by (subst unat_add_small) simp_all
  moreover have "unat (of_nat ((nblk fs lo hi - 1) * blksz fs) :: u64) = ?N - blksz fs"
    using N by (simp only: unat_of_nat) (simp add: diff_mult_distrib)
  ultimately have "progress ?h - ?m + n > of_nat ((nblk fs lo hi - 1) * blksz fs)"
    using assms(2) unfolding word_less_nat_alt by (simp add: file_bytes_def)
  then show ?thesis
    using boot_fsize_ok [of fs ?h lo hi] ok by (simp add: fhandle_sckread_def boot_fread_def fh)
qed

lemma sckread_nothing:
  assumes ok: "file_ok fs (fh_file h) lo hi"
  shows "\<exists>h' fs'. fhandle_sckread clock (UFile (Some h)) pos 0 fs = Some (\<lparr>errout = 0, nData = 0, sdata = None\<rparr>, UFile (Some h'), fs')"
proof -
  have fh: "fh_file (fseek fs pos h) = fh_file h" by (simp add: fseek_def Let_def)
  obtain fs1 where "boot_fupdatetstamp clock (fh_file h) False fs = Some fs1" by (rule boot_updatetstamp_ok [OF ok])
  then show ?thesis
    using boot_fsize_ok [of fs "fseek fs pos h" lo hi] ok by (simp add: fhandle_sckread_def boot_fread_def fh)
qed

text \<open>So a file in order gives a socket that keeps the contract, whatever the clock says.\<close>

locale boot_file =
  fixes fs :: fsys and h :: fhandle and lo :: u64 and hi :: u48 and clock :: "(nat \<times> nat) option"
  assumes in_order: "file_ok fs (fh_file h) lo hi"

definition sck_reader :: "fsys \<Rightarrow> fhandle \<Rightarrow> (nat \<times> nat) option \<Rightarrow> reader" where
  "sck_reader fs h clock pos n = fst (the (fhandle_sckread clock (UFile (Some h)) pos n fs))"

sublocale boot_file \<subseteq> byte_socket "sck_reader fs h clock" "file_bytes fs lo hi"
proof
  fix pos n :: u64
  show "sck_reader fs h clock pos n
      = \<lparr>errout = 0, nData = n, sdata = Some (take (unat n) (drop (unat pos) (file_bytes fs lo hi)))\<rparr>"
    if "n \<noteq> 0" "unat pos + unat n \<le> length (file_bytes fs lo hi)"
    using sckread_inside [OF in_order that, of clock] by (auto simp: sck_reader_def)
  show "socketreterr (sck_reader fs h clock pos n) n"
    if "length (file_bytes fs lo hi) < unat pos + unat n" "unat pos + unat n < 2 ^ 63"
    using sckread_outside [OF in_order that, of clock] by (auto simp: sck_reader_def socketreterr_def)
  show "socketreterr (sck_reader fs h clock pos 0) 0"
    using sckread_nothing [OF in_order, of clock pos] by (auto simp: sck_reader_def socketreterr_def)
qed

context boot_file
begin

lemma served: "byte_socket (sck_reader fs h clock) (file_bytes fs lo hi)"
  by unfold_locales

end

interpretation boot_metadata: boot_file boot_fs "\<lparr>fh_file = 0, progress = 4\<rparr>" 7 9 None
  by unfold_locales (simp add: boot_file_ok)

lemma sck_reader_socket: "file_ok fs (fh_file h) lo hi \<Longrightarrow> byte_socket (sck_reader fs h clock) (file_bytes fs lo hi)"
  by (rule boot_file.served [OF boot_file.intro])

end
