(* ===== verification/Boot_Gif.thy ===== *)
theory Boot_Gif
  imports Boot_Lzw Boot_Socket
begin

text \<open>
  The GIF reader of the boot screen (\<^verbatim>\<open>drivers/gif/gif.c\<close>, \<^verbatim>\<open>gif.h\<close>): the parser of the block
  structure over a socket, the frame buffers, the blit to the screen, the canvas of \<open>GifShow\<close> and the
  release of an image.  A read of memory that is not there gives \<open>None\<close>.
\<close>

section \<open>The structures\<close>

datatype pixel_format =
  PixelRedGreenBlueReserved8BitPerColor | PixelBlueGreenRedReserved8BitPerColor | PixelBitMask | PixelBltOnly

definition GlobalColorMapLength :: "u8 \<Rightarrow> u32" where
  "GlobalColorMapLength N = push_bit (unat N + 1) 1"

definition gifExtensionBlockMagic :: u8 where "gifExtensionBlockMagic = 0x21"
definition gifLocalImageDescriptorMagic :: u8 where "gifLocalImageDescriptorMagic = 0x2C"
definition LocalDescriptorExtension :: u8 where "LocalDescriptorExtension = 0xF9"

record gif_lsd =
  ScreenWidth :: u16
  ScreenHeight :: u16
  lsdBits :: u8
  GlobalColorMapEnable :: bool
  BackgroundColor :: u8

record gif_ld =
  HorizontalPosition :: u16
  VerticalPosition :: u16
  ImageWidth :: u16
  ImageHeight :: u16
  ldBits :: u8
  Sorted :: bool
  InterlacedImage :: bool
  LocalColorMapExists :: bool

definition decode_lsd :: "bytes \<Rightarrow> gif_lsd" where
  "decode_lsd b = \<lparr>ScreenWidth = rd_u16 b 0, ScreenHeight = rd_u16 b 2, lsdBits = b ! 4 AND 7,
     GlobalColorMapEnable = bit (b ! 4) 7, BackgroundColor = b ! 5\<rparr>"

definition decode_ld :: "bytes \<Rightarrow> gif_ld" where
  "decode_ld b = \<lparr>HorizontalPosition = rd_u16 b 1, VerticalPosition = rd_u16 b 3, ImageWidth = rd_u16 b 5,
     ImageHeight = rd_u16 b 7, ldBits = b ! 9 AND 7, Sorted = bit (b ! 9) 5, InterlacedImage = bit (b ! 9) 6,
     LocalColorMapExists = bit (b ! 9) 7\<rparr>"

text \<open>
  A frame holds the pointers the parser stored; the graphic control block is one of the extension
  blocks, so it is an index of that array.  The two dimensions are \<open>None\<close> while they are not written.
\<close>

record gif_frame =
  fld :: gif_ld
  flcmLength :: u32
  flcm :: "bytes option"
  frdb :: "bytes option"
  fgce :: "nat option"
  ffb :: "u32 list option"
  fdims :: "(u32 \<times> u32) option"

record gif_desc =
  hdr :: bytes
  lsd :: "gif_lsd option"
  gcmLength :: u32
  gcm :: "bytes option"
  ext :: "bytes list"
  frames :: "gif_frame list"

section \<open>The pixels of a frame\<close>

text \<open>
  The sub-blocks of the raster are put together; the loop reads the length of a block before it
  checks the room that is left.
\<close>

function sub_blocks :: "nat \<Rightarrow> bytes \<Rightarrow> bytes \<Rightarrow> bytes option" where
  "sub_blocks maxLzwBytes [] acc = None"
| "sub_blocks maxLzwBytes (blockSize # rest) acc =
    (if blockSize = 0 \<or> length acc \<ge> maxLzwBytes then Some acc
     else
       let n = min (unat blockSize) (maxLzwBytes - length acc)
       in if length rest < n then None else sub_blocks maxLzwBytes (drop n rest) (acc @ take n rest))"
  by pat_completeness auto
termination by (relation "measure (\<lambda>(mx, bs, acc). length bs)") auto

text \<open>\<open>Data\<close> begins at byte 3 of an extension block, the transparent colour three bytes behind it.\<close>

definition gif_transparent :: "gif_desc \<Rightarrow> gif_frame \<Rightarrow> u8 option option" where
  "gif_transparent desc frame =
    (case fgce frame of
       None \<Rightarrow> Some None
     | Some g \<Rightarrow>
         let b = ext desc ! g
         in if length b \<le> 3 then None
            else if bit (b ! 3) 0 then (if length b \<le> 6 then None else Some (Some (b ! 6))) else Some None)"

definition gif_colour :: "pixel_format \<Rightarrow> u8 \<Rightarrow> u8 \<Rightarrow> u8 \<Rightarrow> u32" where
  "gif_colour PixelFormat r g b =
    (if PixelFormat = PixelRedGreenBlueReserved8BitPerColor
     then 0xFF000000 OR push_bit 16 (ucast b) OR push_bit 8 (ucast g) OR ucast r
     else 0xFF000000 OR push_bit 16 (ucast r) OR push_bit 8 (ucast g) OR ucast b)"

definition gif_pixel :: "pixel_format \<Rightarrow> u8 option \<Rightarrow> bytes option \<Rightarrow> u8 \<Rightarrow> u32 option" where
  "gif_pixel PixelFormat transparentIdx palette idx =
    (if transparentIdx = Some idx then Some 0
     else (case palette of
             None \<Rightarrow> Some 0
           | Some p \<Rightarrow>
               if length p < 3 * unat idx + 3 then None
               else Some (gif_colour PixelFormat (p ! (3 * unat idx)) (p ! (3 * unat idx + 1)) (p ! (3 * unat idx + 2)))))"

definition gif_palette :: "gif_desc \<Rightarrow> gif_frame \<Rightarrow> bytes option" where
  "gif_palette desc frame = (if LocalColorMapExists (fld frame) \<and> flcm frame \<noteq> None then flcm frame else gcm desc)"

text \<open>The dimensions that are written through the pointers, and the frame buffer.\<close>

definition GetGIFFrame ::
  "gif_desc \<Rightarrow> nat \<Rightarrow> pixel_format \<Rightarrow> ((u32 \<times> u32) option \<times> u32 list option) option" where
  "GetGIFFrame desc FrameIndex PixelFormat =
    (if frames desc = [] \<or> FrameIndex \<ge> length (frames desc) then Some (None, None)
     else
       let frame = frames desc ! FrameIndex
       in case frdb frame of
            None \<Rightarrow> Some (None, None)
          | Some rdb \<Rightarrow>
              let width = ucast (ImageWidth (fld frame)) :: u32; height = ucast (ImageHeight (fld frame)) :: u32
              in if width = 0 \<or> height = 0 then Some (Some (width, height), None)
                 else if rdb = [] then None
                 else
                   let totalPixels = width * height in do {
                     lzwStream \<leftarrow> sub_blocks (unat (totalPixels * 2)) (tl rdb) [];
                     indices \<leftarrow> lzw_indices (hd rdb) (unat totalPixels) lzwStream;
                     transparentIdx \<leftarrow> gif_transparent desc frame;
                     frameBuffer \<leftarrow> those (map (gif_pixel PixelFormat transparentIdx (gif_palette desc frame)) indices);
                     Some (Some (width, height), Some frameBuffer)
                   })"

section \<open>The parser\<close>

text \<open>A read through the socket that is not an error.\<close>

definition gif_read :: "reader \<Rightarrow> u64 \<Rightarrow> u64 \<Rightarrow> bytes option" where
  "gif_read rd offset n = (let rt = rd offset n in if socketreterr rt n then None else sdata rt)"

text \<open>
  The walk over sub-blocks: the position behind them and the size that was counted, which leaves the
  byte of length 0 out.
\<close>

partial_function (option) skip_blocks :: "reader \<Rightarrow> u64 \<Rightarrow> u64 \<Rightarrow> (u64 \<times> u64) option" where
  "skip_blocks rd offset totalSize =
    (case gif_read rd offset 1 of
       None \<Rightarrow> Some (offset, totalSize)
     | Some d \<Rightarrow>
         if hd d = 0 then Some (offset + 1, totalSize)
         else skip_blocks rd (offset + 1 + ucast (hd d)) (totalSize + 1 + ucast (hd d)))"

text \<open>An extension block: the position behind it, the image and the active control block; \<open>Inr\<close> ends the loop.\<close>

definition gif_extension ::
  "reader \<Rightarrow> u64 \<Rightarrow> gif_desc \<Rightarrow> nat option \<Rightarrow> ((u64 \<times> gif_desc \<times> nat option) + gif_desc) option" where
  "gif_extension rd offset out activeGCE =
    (case gif_read rd offset 3 of
       None \<Rightarrow> Some (Inr out)
     | Some hdrBlock \<Rightarrow>
         let totalExtSize = 3 + ucast (hdrBlock ! 2) in do {
           (offset1, totalExtSize1) \<leftarrow> skip_blocks rd (offset + 3 + ucast (hdrBlock ! 2)) totalExtSize;
           (case gif_read rd (offset1 - totalExtSize1) totalExtSize1 of
              None \<Rightarrow> Some (Inl (offset1, out, activeGCE))
            | Some extBlock \<Rightarrow>
                Some (Inl (offset1, out\<lparr>ext := ext out @ [extBlock]\<rparr>,
                  if extBlock ! 1 = LocalDescriptorExtension then Some (length (ext out)) else activeGCE)))
         })"

text \<open>Storing a frame and decoding it.\<close>

definition gif_store ::
  "gif_desc \<Rightarrow> pixel_format \<Rightarrow> gif_ld \<Rightarrow> u32 \<Rightarrow> bytes option \<Rightarrow> bytes option \<Rightarrow> nat option \<Rightarrow> gif_desc option" where
  "gif_store out PixelFormat ld lcmLength lmap rdb activeGCE =
    (let frame = \<lparr>fld = ld, flcmLength = lcmLength, flcm = lmap, frdb = rdb, fgce = activeGCE, ffb = None,
           fdims = (if frames out = [] then Some (0, 0) else None)\<rparr>;
         out1 = out\<lparr>frames := frames out @ [frame]\<rparr>
     in do {
       (dims, fb) \<leftarrow> GetGIFFrame out1 (length (frames out)) PixelFormat;
       Some (out\<lparr>frames := frames out @ [frame\<lparr>ffb := fb, fdims := (if dims = None then fdims frame else dims)\<rparr>]\<rparr>)
     })"

definition gif_image ::
  "reader \<Rightarrow> u64 \<Rightarrow> gif_desc \<Rightarrow> nat option \<Rightarrow> pixel_format \<Rightarrow> ((u64 \<times> gif_desc) + gif_desc) option" where
  "gif_image rd offset out activeGCE PixelFormat =
    (case gif_read rd offset 10 of
       None \<Rightarrow> Some (Inr out)
     | Some d \<Rightarrow>
         let ld = decode_ld d; offset1 = offset + 10;
             lcmLength = (if LocalColorMapExists ld then GlobalColorMapLength (ldBits ld) else 0);
             lcmSize = 3 * ucast lcmLength;
             lmap = (if LocalColorMapExists ld then gif_read rd offset1 lcmSize else None)
         in if LocalColorMapExists ld \<and> lmap = None then Some (Inr out)
            else
              let rdbStartOffset = (if LocalColorMapExists ld then offset1 + lcmSize else offset1) in do {
                (offset2, counted) \<leftarrow> skip_blocks rd (rdbStartOffset + 1) 0;
                let rdb = gif_read rd rdbStartOffset (offset2 - rdbStartOffset) in do {
                  out1 \<leftarrow> gif_store out PixelFormat ld lcmLength lmap rdb activeGCE;
                  Some (Inl (offset2, out1))
                }
              })"

partial_function (option) gif_stream ::
  "reader \<Rightarrow> pixel_format \<Rightarrow> u64 \<Rightarrow> gif_desc \<Rightarrow> nat option \<Rightarrow> gif_desc option" where
  "gif_stream rd PixelFormat offset out activeGCE =
    (case gif_read rd offset 1 of
       None \<Rightarrow> Some out
     | Some s \<Rightarrow>
         if hd s = gifExtensionBlockMagic then
           do {
             r \<leftarrow> gif_extension rd offset out activeGCE;
             (case r of
                Inr out1 \<Rightarrow> Some out1
              | Inl (offset1, out1, activeGCE1) \<Rightarrow> gif_stream rd PixelFormat offset1 out1 activeGCE1)
           }
         else if hd s = gifLocalImageDescriptorMagic then
           do {
             r \<leftarrow> gif_image rd offset out activeGCE PixelFormat;
             (case r of
                Inr out1 \<Rightarrow> Some out1
              | Inl (offset1, out1) \<Rightarrow> gif_stream rd PixelFormat offset1 out1 None)
           }
         else Some out)"

text \<open>The result is \<open>Some None\<close> for the null pointer.\<close>

definition OpenGIF :: "reader \<Rightarrow> pixel_format \<Rightarrow> gif_desc option option" where
  "OpenGIF rd PixelFormat =
    (case gif_read rd 0 6 of
       None \<Rightarrow> Some None
     | Some h \<Rightarrow>
         if \<not> (h ! 0 = 0x47 \<and> h ! 1 = 0x49 \<and> h ! 2 = 0x46) then Some None
         else
           let out = \<lparr>hdr = h, lsd = None, gcmLength = 0, gcm = None, ext = [], frames = []\<rparr>
           in case gif_read rd 6 7 of
                None \<Rightarrow> Some (Some out)
              | Some l \<Rightarrow>
                  let ld = decode_lsd l; out1 = out\<lparr>lsd := Some ld\<rparr>
                  in if GlobalColorMapEnable ld then
                       let gcmCount = GlobalColorMapLength (lsdBits ld); gcmSize = 3 * ucast gcmCount
                       in case gif_read rd 13 gcmSize of
                            None \<Rightarrow> Some (Some out1)
                          | Some g \<Rightarrow>
                              map_option Some (gif_stream rd PixelFormat (13 + gcmSize) (out1\<lparr>gcmLength := gcmCount, gcm := Some g\<rparr>) None)
                     else map_option Some (gif_stream rd PixelFormat 13 out1 None))"

section \<open>Well-formed files\<close>

definition enc_blocks :: "bytes list \<Rightarrow> bytes" where
  "enc_blocks bs = concat (map (\<lambda>b. of_nat (length b) # b) bs) @ [0]"

definition good_blocks :: "bytes list \<Rightarrow> bool" where
  "good_blocks bs = list_all (\<lambda>b. 0 < length b \<and> length b < 256) bs"

text \<open>
  An item of the stream: an extension (function code, data, sub-blocks), or an image (descriptor,
  colour map, code size, raster blocks).
\<close>

datatype gif_item = Extension u8 bytes "bytes list" | Image bytes bytes u8 "bytes list"

fun enc_item :: "gif_item \<Rightarrow> bytes" where
  "enc_item (Extension f d bs) = 0x21 # f # of_nat (length d) # d @ enc_blocks bs"
| "enc_item (Image d m c bs) = d @ m @ c # enc_blocks bs"

definition map_size :: "bool \<Rightarrow> u8 \<Rightarrow> nat" where
  "map_size e b = (if e then 3 * 2 ^ (unat (b AND 7) + 1) else 0)"

fun good_item :: "gif_item \<Rightarrow> bool" where
  "good_item (Extension f d bs) = (length d < 256 \<and> good_blocks bs)"
| "good_item (Image d m c bs) = (length d = 10 \<and> d ! 0 = 0x2C \<and> length m = map_size (bit (d ! 9) 7) (d ! 9) \<and> good_blocks bs)"

text \<open>What the parser makes of the items, without positions.\<close>

fun gif_items :: "pixel_format \<Rightarrow> gif_item list \<Rightarrow> gif_desc \<Rightarrow> nat option \<Rightarrow> gif_desc option" where
  "gif_items fmt [] out act = Some out"
| "gif_items fmt (Extension f d bs # r) out act =
    gif_items fmt r (out\<lparr>ext := ext out @ [tl (enc_item (Extension f d bs))]\<rparr>)
      (if length d = 0xF9 then Some (length (ext out)) else act)"
| "gif_items fmt (Image d m c bs # r) out act =
    (let ld = decode_ld d; e = LocalColorMapExists ld in do {
       out1 \<leftarrow> gif_store out fmt ld (if e then GlobalColorMapLength (ldBits ld) else 0) (if e then Some m else None)
                (Some (c # enc_blocks bs)) act;
       gif_items fmt r out1 None
     })"

definition enc_gif :: "bytes \<Rightarrow> bytes \<Rightarrow> bytes \<Rightarrow> gif_item list \<Rightarrow> bytes" where
  "enc_gif v l g items = [0x47, 0x49, 0x46] @ v @ l @ g @ concat (map enc_item items) @ [0x3B]"

definition good_gif :: "bytes \<Rightarrow> bytes \<Rightarrow> bytes \<Rightarrow> gif_item list \<Rightarrow> bool" where
  "good_gif v l g items = (length v = 3 \<and> length l = 7 \<and> length g = map_size (bit (l ! 4) 7) (l ! 4) \<and> list_all good_item items)"

definition gif_parsed :: "pixel_format \<Rightarrow> bytes \<Rightarrow> bytes \<Rightarrow> bytes \<Rightarrow> gif_item list \<Rightarrow> gif_desc option" where
  "gif_parsed fmt v l g items =
    (let ld = decode_lsd l; e = GlobalColorMapEnable ld
     in gif_items fmt items \<lparr>hdr = [0x47, 0x49, 0x46] @ v, lsd = Some ld,
          gcmLength = (if e then GlobalColorMapLength (lsdBits ld) else 0), gcm = (if e then Some g else None),
          ext = [], frames = []\<rparr> None)"

lemma sub_blocks_enc:
  "good_blocks bs \<Longrightarrow> length acc \<le> n \<Longrightarrow> sub_blocks n (enc_blocks bs) acc = Some (take n (acc @ concat bs))"
proof (induction bs arbitrary: acc)
  case Nil
  then show ?case by (simp add: enc_blocks_def)
next
  case (Cons b bs)
  have b: "0 < length b" "length b < 256" "good_blocks bs" using Cons.prems(1) by (simp_all add: good_blocks_def)
  then have u: "unat (of_nat (length b) :: u8) = length b" by (simp add: unat_of_nat)
  then have z: "(of_nat (length b) :: u8) \<noteq> 0" using b(1) by (metis less_numeral_extra(3) unat_0)
  have e: "enc_blocks (b # bs) = of_nat (length b) # b @ enc_blocks bs" by (simp add: enc_blocks_def)
  have ne: "enc_blocks bs \<noteq> []" by (simp add: enc_blocks_def)
  show ?case
  proof (cases "length b \<le> n - length acc")
    case True
    then show ?thesis using Cons.IH [OF b(3), of "acc @ b"] Cons.prems(2) u z b(1) by (cases "length acc = n") (simp_all add: e Let_def min_def)
  next
    case False
    then obtain x r where x: "drop (n - length acc) (b @ enc_blocks bs) = x # r" using ne by (cases "drop (n - length acc) (b @ enc_blocks bs)") auto
    have "length (acc @ take (n - length acc) b) = n" using False Cons.prems(2) by simp
    then show ?thesis using False Cons.prems(2) u z x by (auto simp: e Let_def min_def)
  qed
qed

lemma map_size_pos: "0 < map_size True b"
  by (simp add: map_size_def)

lemma map_length: "3 * ucast (GlobalColorMapLength (b AND 7)) = (of_nat (map_size True b) :: u64)"
proof -
  have "unat (b AND 7) \<le> 7"
    using word_and_le1 [of b 7] by (simp add: word_le_nat_alt)
  then have "(2 :: nat) ^ (unat (b AND 7) + 1) \<le> 2 ^ 8" by (intro power_increasing) simp_all
  moreover have "GlobalColorMapLength (b AND 7) = of_nat (2 ^ (unat (b AND 7) + 1))"
    by (simp add: GlobalColorMapLength_def push_bit_eq_mult)
  ultimately have "unat (GlobalColorMapLength (b AND 7)) = 2 ^ (unat (b AND 7) + 1)"
    by (simp add: unat_of_nat del: of_nat_power of_nat_mult power_Suc)
  then have "(ucast (GlobalColorMapLength (b AND 7)) :: u64) = of_nat (2 ^ (unat (b AND 7) + 1))"
    by (metis of_nat_unat)
  then show ?thesis by (simp add: map_size_def)
qed

context byte_socket
begin

lemma gif_read_here:
  assumes "drop p content = xs @ post" and "p + length xs \<le> length content" and "length content < 2 ^ 63" and "xs \<noteq> []"
  shows "gif_read rd (of_nat p) (of_nat (length xs)) = Some xs"
proof -
  have "unat (of_nat p :: u64) = p" "unat (of_nat (length xs) :: u64) = length xs" using assms(2,3) by (simp_all add: unat_of_nat)
  moreover from this have "(of_nat (length xs) :: u64) \<noteq> 0" using assms(4) by (metis length_0_conv unat_0)
  ultimately show ?thesis
    using read_fine [of "of_nat (length xs)" "of_nat p"] read_data [of "of_nat (length xs)" "of_nat p"] assms(1,2,4)
    by (simp add: gif_read_def)
qed

lemma gif_read_byte: "drop p content = x # post \<Longrightarrow> length content < 2 ^ 63 \<Longrightarrow> gif_read rd (of_nat p) 1 = Some [x]"
  using gif_read_here [of p "[x]" post] by (cases "p < length content") auto

lemma skip_blocks_enc:
  "good_blocks bs \<Longrightarrow> drop p content = enc_blocks bs @ post \<Longrightarrow> length content < 2 ^ 63 \<Longrightarrow>
   skip_blocks rd (of_nat p) s = Some (of_nat (p + length (enc_blocks bs)), s + of_nat (length (enc_blocks bs) - 1))"
proof (induction bs arbitrary: p s)
  case Nil
  then show ?case using gif_read_byte [of p 0 post]
    by (subst skip_blocks.simps) (simp add: enc_blocks_def algebra_simps)
next
  case (Cons b bs)
  have b: "0 < length b" "length b < 256" "good_blocks bs" using Cons.prems(1) by (simp_all add: good_blocks_def)
  then have u: "unat (of_nat (length b) :: u8) = length b" by (simp add: unat_of_nat)
  then have z: "(of_nat (length b) :: u8) \<noteq> 0" using b(1) by (metis less_numeral_extra(3) unat_0)
  have uc: "(ucast (of_nat (length b) :: u8) :: u64) = of_nat (length b)" using u by (simp add: word_unat_eq_iff unat_of_nat unsigned_ucast_eq take_bit_eq_mod)
  have e: "enc_blocks (b # bs) = of_nat (length b) # b @ enc_blocks bs" "enc_blocks bs \<noteq> []" by (simp_all add: enc_blocks_def)
  have "drop (Suc (length b) + p) content = drop (Suc (length b)) (drop p content)" by (simp add: add.commute)
  also have "\<dots> = enc_blocks bs @ post" using Cons.prems(2) e by simp
  finally have d: "drop (Suc (length b) + p) content = enc_blocks bs @ post" .
  have "skip_blocks rd (of_nat p) s = skip_blocks rd (of_nat (Suc (length b) + p)) (s + 1 + of_nat (length b))"
    using gif_read_byte [of p "of_nat (length b)"] Cons.prems(2,3) e z uc
    by (subst skip_blocks.simps) (simp add: algebra_simps)
  then show ?case using Cons.IH [OF b(3) d Cons.prems(3)] e by (simp add: algebra_simps of_nat_diff Suc_le_eq)
qed

lemma gif_extension_enc:
  assumes "drop p content = enc_item (Extension f d bs) @ post" and "good_item (Extension f d bs)" and len: "length content < 2 ^ 63"
  shows "gif_extension rd (of_nat p) out act = Some (Inl (of_nat (p + length (enc_item (Extension f d bs))),
     out\<lparr>ext := ext out @ [tl (enc_item (Extension f d bs))]\<rparr>, if length d = 0xF9 then Some (length (ext out)) else act))"
proof -
  let ?e = "enc_item (Extension f d bs)"
  have d: "length d < 256" "good_blocks bs" using assms(2) by simp_all
  then have u: "unat (of_nat (length d) :: u8) = length d" by (simp add: unat_of_nat)
  then have uc: "(ucast (of_nat (length d) :: u8) :: u64) = of_nat (length d)"
    using d(1) by (simp add: word_unat_eq_iff unat_of_nat unsigned_ucast_eq take_bit_eq_mod)
  have f9: "((of_nat (length d) :: u8) = 0xF9) = (length d = 0xF9)" using u by (simp add: word_unat_eq_iff)
  have "length (drop p content) = length ?e + length post" using assms(1) by simp
  then have p: "p + length ?e \<le> length content" "enc_blocks bs \<noteq> []" by (simp_all add: enc_blocks_def)
  have h: "gif_read rd (of_nat p) 3 = Some [0x21, f, of_nat (length d)]"
    using gif_read_here [of p "[0x21, f, of_nat (length d)]" "d @ enc_blocks bs @ post"] assms(1) p len by simp
  have "drop (p + 3 + length d) content = drop (3 + length d) (drop p content)" by (simp add: ac_simps)
  also have "\<dots> = enc_blocks bs @ post" using assms(1) by (simp add: numeral_3_eq_3)
  finally have s: "skip_blocks rd (of_nat (p + 3 + length d)) (3 + of_nat (length d))
      = Some (of_nat (p + 3 + length d + length (enc_blocks bs)), 3 + of_nat (length d) + of_nat (length (enc_blocks bs) - 1))"
    by (rule skip_blocks_enc [OF d(2) _ len])
  have le: "length ?e = 3 + length d + length (enc_blocks bs)" by simp
  have "drop (p + 1) content = tl ?e @ post" using assms(1) by (metis append_Cons drop_drop drop_Suc drop0 enc_item.simps(1) list.sel(3) plus_1_eq_Suc add.commute)
  then have r: "gif_read rd (of_nat (p + 1)) (of_nat (length (tl ?e))) = Some (tl ?e)"
    using p(1) by (intro gif_read_here [OF _ _ len]) simp_all
  have "(of_nat (p + 3 + length d + length (enc_blocks bs)) :: u64) - (3 + of_nat (length d) + of_nat (length (enc_blocks bs) - 1)) = of_nat (p + 1)"
    "(3 + of_nat (length d) + of_nat (length (enc_blocks bs) - 1) :: u64) = of_nat (length (tl ?e))"
    using p(2) by (simp_all add: of_nat_diff Suc_le_eq algebra_simps)
  then show ?thesis
    using h s r uc f9 le by (simp add: gif_extension_def LocalDescriptorExtension_def Let_def algebra_simps)
qed

lemma gif_image_enc:
  assumes "drop p content = enc_item (Image d m c bs) @ post" and "good_item (Image d m c bs)" and len: "length content < 2 ^ 63"
  shows "gif_image rd (of_nat p) out act fmt =
    (let ld = decode_ld d; e = LocalColorMapExists ld in
     map_option (\<lambda>out1. Inl (of_nat (p + length (enc_item (Image d m c bs))), out1))
       (gif_store out fmt ld (if e then GlobalColorMapLength (ldBits ld) else 0) (if e then Some m else None)
         (Some (c # enc_blocks bs)) act))"
proof -
  let ?e = "enc_item (Image d m c bs)" and ?l = "LocalColorMapExists (decode_ld d)"
  have g: "length d = 10" "d ! 0 = 0x2C" "length m = map_size ?l (d ! 9)" "good_blocks bs"
    using assms(2) by (simp_all add: decode_ld_def)
  have "length (drop p content) = length ?e + length post" using assms(1) by simp
  then have p: "p + length ?e \<le> length content" by (simp add: enc_blocks_def)
  have "d \<noteq> []" using g(1) by auto
  then have h: "gif_read rd (of_nat p) 10 = Some d"
    using gif_read_here [of p d "m @ c # enc_blocks bs @ post"] assms(1) p len g(1) by simp
  have "drop (p + 10) content = drop 10 (drop p content)" by (simp add: add.commute)
  also have "\<dots> = m @ c # enc_blocks bs @ post" using assms(1) g(1) by simp
  finally have m: "drop (p + 10) content = m @ c # enc_blocks bs @ post" .
  then have lm: "gif_read rd (of_nat (p + 10)) (of_nat (length m)) = Some m" if "?l"
    using p g(1,3) map_size_pos [of "d ! 9"] that by (intro gif_read_here [OF _ _ len]) auto
  have size: "(if ?l then 3 * ucast (GlobalColorMapLength (ldBits (decode_ld d))) else 0 :: u64) = of_nat (length m)"
    using g(3) map_length [of "d ! 9"] by (simp add: decode_ld_def map_size_def)
  let ?q = "p + 10 + length m"
  have "drop ?q content = drop (length m) (drop (p + 10) content)" by (simp add: ac_simps)
  then have q: "drop ?q content = (c # enc_blocks bs) @ post" using m by simp
  moreover have "drop (?q + 1) content = tl (drop ?q content)" by (metis add.commute drop_Suc plus_1_eq_Suc tl_drop)
  ultimately have s: "skip_blocks rd (of_nat (?q + 1)) 0 = Some (of_nat (?q + 1 + length (enc_blocks bs)), 0 + of_nat (length (enc_blocks bs) - 1))"
    by (intro skip_blocks_enc [OF g(4) _ len]) simp
  have r: "gif_read rd (of_nat ?q) (of_nat (length (c # enc_blocks bs))) = Some (c # enc_blocks bs)"
    using p g(1) q by (intro gif_read_here [OF _ _ len]) simp_all
  let ?o = "of_nat p + 10 + of_nat (length m) :: u64"
  have q_off: "of_nat ?q = ?o" "p + length ?e = ?q + 1 + length (enc_blocks bs)" using g(1) by simp_all
  have r: "gif_read rd ?o (of_nat (p + length ?e) - ?o) = Some (c # enc_blocks bs)"
    using r unfolding q_off by (simp add: algebra_simps)
  have s: "skip_blocks rd (?o + 1) 0 = Some (of_nat (p + length ?e), of_nat (length (enc_blocks bs) - 1))"
    using s unfolding q_off(2) by (simp add: algebra_simps)
  have lm: "?l \<Longrightarrow> gif_read rd (of_nat p + 10) (of_nat (length m)) = Some m" using lm by simp
  show ?thesis
  proof (cases ?l)
    case True
    then have "3 * ucast (GlobalColorMapLength (ldBits (decode_ld d))) = (of_nat (length m) :: u64)" using size by simp
    then show ?thesis
      unfolding gif_image_def h option.case Let_def map_conv_bind_option comp_def using True s r lm by (simp del: of_nat_add)
  next
    case False
    then have "length m = 0" using g(3) by (simp add: map_size_def)
    then show ?thesis
      unfolding gif_image_def h option.case Let_def map_conv_bind_option comp_def using False s r by (simp del: of_nat_add)
  qed
qed

lemma gif_stream_enc:
  "drop p content = concat (map enc_item items) @ 0x3B # post \<Longrightarrow> list_all good_item items \<Longrightarrow> length content < 2 ^ 63 \<Longrightarrow>
   gif_stream rd fmt (of_nat p) out act = gif_items fmt items out act"
proof (induction items arbitrary: p out act)
  case Nil
  then show ?case using gif_read_byte [of p "0x3B" post]
    by (subst gif_stream.simps) (simp add: gifExtensionBlockMagic_def gifLocalImageDescriptorMagic_def)
next
  case (Cons it items)
  let ?rest = "concat (map enc_item items) @ 0x3B # post"
  have d: "drop p content = enc_item it @ ?rest" and g: "good_item it" "list_all good_item items" using Cons.prems by simp_all
  have "drop (p + length (enc_item it)) content = drop (length (enc_item it)) (drop p content)" by (simp add: add.commute)
  then have IH: "gif_stream rd fmt (of_nat (p + length (enc_item it))) o' a = gif_items fmt items o' a" for o' a
    using Cons.IH [OF _ g(2) Cons.prems(3), of "p + length (enc_item it)"] d by simp
  show ?case
  proof (cases it)
    case (Extension f dd bs)
    then have "gif_read rd (of_nat p) 1 = Some [0x21]" using gif_read_byte [OF _ Cons.prems(3)] d by simp
    then show ?thesis
      using gif_extension_enc [of p f dd bs ?rest out act] d g(1) Cons.prems(3) IH unfolding Extension
      by (subst gif_stream.simps) (simp add: gifExtensionBlockMagic_def del: enc_item.simps of_nat_add)
  next
    case (Image dd m c bs)
    then obtain r where "dd = 0x2C # r" using g(1) by (cases dd) auto
    then have "gif_read rd (of_nat p) 1 = Some [0x2C]" using gif_read_byte [OF _ Cons.prems(3)] d Image by simp
    then show ?thesis
      using gif_image_enc [of p dd m c bs ?rest out act] d g(1) Cons.prems(3) IH unfolding Image
      by (subst gif_stream.simps)
         (simp add: gifExtensionBlockMagic_def gifLocalImageDescriptorMagic_def Let_def map_conv_bind_option comp_def
            del: enc_item.simps of_nat_add)
  qed
qed

lemma OpenGIF_enc:
  assumes "content = enc_gif v l g items @ post" and "good_gif v l g items" and len: "length content < 2 ^ 63"
  shows "OpenGIF rd fmt = map_option Some (gif_parsed fmt v l g items)"
proof -
  let ?e = "GlobalColorMapEnable (decode_lsd l)" and ?rest = "concat (map enc_item items) @ 0x3B # post"
  have k: "length v = 3" "length l = 7" "length g = map_size ?e (l ! 4)" "list_all good_item items"
    using assms(2) by (simp_all add: good_gif_def decode_lsd_def)
  have c: "content = ([0x47, 0x49, 0x46] @ v) @ l @ g @ ?rest" using assms(1) by (simp add: enc_gif_def)
  have h: "gif_read rd 0 6 = Some ([0x47, 0x49, 0x46] @ v)"
    using gif_read_here [of 0 "[0x47, 0x49, 0x46] @ v"] c len k(1) by simp
  have "l \<noteq> []" using k(2) by auto
  then have l: "gif_read rd 6 7 = Some l" using gif_read_here [of 6 l "g @ ?rest"] c len k(1,2) by simp
  have m: "gif_read rd 13 (of_nat (length g)) = Some g" if ?e
    using gif_read_here [of 13 g ?rest] c len k(1-3) that map_size_pos [of "l ! 4"] by fastforce
  have st: "gif_stream rd fmt (of_nat (13 + length g)) o' a = gif_items fmt items o' a" for o' a
  proof (intro gif_stream_enc [OF _ k(4) len])
    have "drop (13 + length g) content = drop (length g) (drop 13 content)" by (simp add: add.commute)
    then show "drop (13 + length g) content = ?rest" using c k(1,2) by simp
  qed
  show ?thesis
  proof (cases ?e)
    case True
    then have "3 * ucast (GlobalColorMapLength (lsdBits (decode_lsd l))) = (of_nat (length g) :: u64)"
      using k(3) map_length [of "l ! 4"] by (simp add: decode_lsd_def)
    then show ?thesis using True st h l m by (simp add: OpenGIF_def gif_parsed_def Let_def)
  next
    case False
    then have "length g = 0" using k(3) by (simp add: map_size_def)
    then show ?thesis using False st h l by (simp add: OpenGIF_def gif_parsed_def Let_def)
  qed
qed

end

section \<open>What a frame shows\<close>

text \<open>
  The colour of an index of a palette, as the four bytes it has in memory: red, green, blue or blue, green, red by the
  format of the screen, and an opaque fourth byte.
\<close>

definition palette_colour :: "pixel_format \<Rightarrow> bytes \<Rightarrow> u8 \<Rightarrow> u32" where
  "palette_colour fmt p i =
    (let r = p ! (3 * unat i); g = p ! (3 * unat i + 1); b = p ! (3 * unat i + 2)
     in of_nat (le_nat (if fmt = PixelRedGreenBlueReserved8BitPerColor then [r, g, b, 0xFF] else [b, g, r, 0xFF])))"

lemma or_bytes:
  fixes a b c :: u8
  shows "(0xFF000000 OR push_bit 16 (ucast c) OR push_bit 8 (ucast b) OR ucast a :: u32) = of_nat (le_nat [a, b, c, 0xFF])"
proof -
  let ?x = "ucast a :: u32" and ?y = "push_bit 8 (ucast b :: u32)" and ?z = "push_bit 16 (ucast c :: u32)"
  have "?y OR ?x = ?y + ?x"
    by (rule disjunctive_add [symmetric]) (auto simp: bit_simps dest: bit_imp_le_length)
  moreover have "?z OR (?y OR ?x) = ?z + (?y OR ?x)"
    by (rule disjunctive_add [symmetric]) (auto simp: bit_simps dest: bit_imp_le_length)
  moreover have "push_bit 24 0xFF OR (?z OR (?y OR ?x)) = push_bit 24 0xFF + (?z OR (?y OR ?x))"
    by (rule disjunctive_add [symmetric]) (auto simp: bit_simps simp del: push_bit_numeral dest: bit_imp_le_length)
  ultimately have "0xFF000000 OR (?z OR (?y OR ?x)) = 0xFF000000 + (?z + (?y + ?x))" by simp
  also have "\<dots> = ?x + 256 * (ucast b + 256 * (ucast c + 256 * 0xFF))"
    by (simp add: push_bit_eq_mult distrib_left)
  also have "\<dots> = of_nat (le_nat [a, b, c, 0xFF])" by simp
  finally show ?thesis by (simp only: or.assoc)
qed

lemma gif_colour_palette:
  "gif_colour fmt (p ! (3 * unat i)) (p ! (3 * unat i + 1)) (p ! (3 * unat i + 2)) = palette_colour fmt p i"
  unfolding gif_colour_def palette_colour_def Let_def or_bytes by simp

definition in_palette :: "bytes \<Rightarrow> bytes \<Rightarrow> bool" where
  "in_palette p idx = list_all (\<lambda>i. 3 * unat i + 3 \<le> length p) idx"

text \<open>
  The blocks hold a raster that gives an index to every pixel of the frame and is not longer than the
  buffer of the program, two bytes for each pixel; and whether its last three bytes are not needed.
\<close>

definition raster_of :: "gif_ld \<Rightarrow> u8 \<Rightarrow> bytes list \<Rightarrow> bytes option" where
  "raster_of ld c bs =
    (let n = unat (ImageWidth ld) * unat (ImageHeight ld)
     in if 0 < n \<and> n < 2 ^ 27 \<and> unat c \<le> 11 \<and> good_blocks bs \<and> length (concat bs) \<le> 2 * n
        then (case dict_indices (unat c) n (concat bs) of
                None \<Rightarrow> None
              | Some idx \<Rightarrow> if length idx = n then Some idx else None)
        else None)"

definition spare_bytes :: "gif_ld \<Rightarrow> u8 \<Rightarrow> bytes list \<Rightarrow> bool" where
  "spare_bytes ld c bs =
    (let n = unat (ImageWidth ld) * unat (ImageHeight ld); raster = concat bs
     in 3 \<le> length raster \<and>
        dict_indices (unat c) n (take (length raster - 3) raster) = dict_indices (unat c) n raster)"

text \<open>The first \<open>m\<close> indices, and 0 for the rest.\<close>

definition decoded_part :: "nat \<Rightarrow> bytes \<Rightarrow> bytes" where
  "decoded_part m idx = take m idx @ replicate (length idx - m) 0"

lemma decoded_part_all [simp]: "decoded_part (length idx) idx = idx"
  by (simp add: decoded_part_def)

lemma raster_decoded:
  assumes "raster_of ld c bs = Some idx"
  shows "\<exists>m \<le> length idx. lzw_indices c (length idx) (concat bs) = Some (decoded_part m idx)
    \<and> (spare_bytes ld c bs \<longrightarrow> m = length idx)"
proof -
  let ?n = "unat (ImageWidth ld) * unat (ImageHeight ld)" and ?r = "concat bs"
  have n: "?n < 2 ^ 27" "unat c \<le> 11" "length ?r \<le> 2 * ?n"
    "dict_indices (unat c) ?n ?r = Some idx" "length idx = ?n"
    using assms by (auto simp: raster_of_def Let_def split: if_splits option.splits)
  show ?thesis
  proof (cases "spare_bytes ld c bs")
    case True
    then have s: "3 \<le> length (drop (length ?r - 3) ?r)"
      "dict_indices (unat c) ?n (take (length ?r - 3) ?r) = Some idx"
      using n(4) by (simp_all add: spare_bytes_def Let_def)
    then have "lzw_indices c ?n ?r = Some idx"
      using lzw_decodes [OF n(2) _ s(2), of "drop (length ?r - 3) ?r"] s(1) n(1,3,5) by (auto simp: min_absorb2)
    then show ?thesis using decoded_part_all [of idx] unfolding n(5) by (intro exI [of _ ?n]) simp
  next
    case False
    then show ?thesis
      using lzw_decodes [OF n(2) _ n(4), of "[]"] n(1,3,5) by (auto simp: decoded_part_def)
  qed
qed

lemma those_map: "list_all (\<lambda>x. f x = Some (g x)) xs \<Longrightarrow> those (map f xs) = Some (map g xs)"
  by (induction xs) auto

lemma decoded_in_palette:
  assumes "in_palette p idx" and "idx \<noteq> []"
  shows "in_palette p (decoded_part m idx)"
proof -
  have "3 \<le> length p" using assms by (cases idx) (auto simp: in_palette_def)
  then show ?thesis
    using assms(1) by (auto simp: in_palette_def decoded_part_def list_all_iff dest: in_set_takeD)
qed

lemma frame_pixels:
  assumes "i < length (frames desc)" and fr: "frames desc ! i = frame" and "frdb frame = Some (c # enc_blocks bs)"
    and r: "raster_of (fld frame) c bs = Some idx" and "fgce frame = None"
    and "gif_palette desc frame = Some p" and "in_palette p idx"
  shows "\<exists>m \<le> length idx. GetGIFFrame desc i fmt
    = Some (Some (ucast (ImageWidth (fld frame)), ucast (ImageHeight (fld frame))),
        Some (map (palette_colour fmt p) (decoded_part m idx)))
    \<and> (spare_bytes (fld frame) c bs \<longrightarrow> m = length idx)"
proof -
  let ?w = "ImageWidth (fld frame)" and ?h = "ImageHeight (fld frame)" and ?n = "unat (ImageWidth (fld frame)) * unat (ImageHeight (fld frame))"
  have n: "0 < ?n" "?n < 2 ^ 27" "good_blocks bs" "length (concat bs) \<le> 2 * ?n" "length idx = ?n"
    using r by (auto simp: raster_of_def Let_def split: if_splits option.splits)
  have u: "unat (ucast ?w :: u32) = unat ?w" "unat (ucast ?h :: u32) = unat ?h"
    using unsigned_less [of ?w, where 'a = nat] unsigned_less [of ?h, where 'a = nat]
    by (simp_all add: unsigned_ucast_eq take_bit_eq_mod)
  have t: "unat ((ucast ?w :: u32) * ucast ?h) = ?n" using n(2) u by (subst unat_mult_small) simp_all
  then have t2: "unat ((ucast ?w :: u32) * ucast ?h * 2) = 2 * ?n"
    using n(2) unat_mult_small [of "(ucast ?w :: u32) * ucast ?h" 2] by (simp add: mult.commute)
  have nz: "(ucast ?w :: u32) \<noteq> 0" "(ucast ?h :: u32) \<noteq> 0" using n(1) u by (metis less_numeral_extra(3) mult_zero_left mult_zero_right unat_0)+
  have sb: "sub_blocks (2 * ?n) (enc_blocks bs) [] = Some (concat bs)" using sub_blocks_enc [OF n(3), of "[]" "2 * ?n"] n(4) by simp
  obtain m where m: "m \<le> length idx" "lzw_indices c ?n (concat bs) = Some (decoded_part m idx)"
    "spare_bytes (fld frame) c bs \<longrightarrow> m = length idx"
    using raster_decoded [OF r] n(5) by auto
  have "in_palette p (decoded_part m idx)" using assms(7) n(1,5) by (intro decoded_in_palette) auto
  then have "those (map (gif_pixel fmt None (Some p)) (decoded_part m idx)) = Some (map (palette_colour fmt p) (decoded_part m idx))"
    by (intro those_map) (auto simp: in_palette_def list_all_iff gif_pixel_def gif_colour_palette [symmetric])
  then show ?thesis
    using assms(1,3,5,6) fr nz t t2 sb m by (intro exI [of _ m]) (auto simp: GetGIFFrame_def Let_def gif_transparent_def)
qed

text \<open>An image that stands alone in its file.\<close>

lemma single_image:
  assumes "good_gif v l g [Image d m c bs]" and "raster_of (decode_ld d) c bs = Some idx"
    and p: "p = (if bit (d ! 9) 7 then m else g)" and "bit (d ! 9) 7 \<or> bit (l ! 4) 7" and "in_palette p idx"
  shows "\<exists>desc frame k. gif_parsed fmt v l g [Image d m c bs] = Some desc \<and> frames desc = [frame]
    \<and> fld frame = decode_ld d \<and> ffb frame = Some (map (palette_colour fmt p) (decoded_part k idx))
    \<and> k \<le> length idx \<and> (spare_bytes (decode_ld d) c bs \<longrightarrow> k = length idx)
    \<and> fdims frame = Some (ucast (ImageWidth (decode_ld d)), ucast (ImageHeight (decode_ld d)))"
proof -
  let ?ld = "decode_ld d" and ?e = "bit (d ! 9) 7" and ?G = "bit (l ! 4) 7"
  have e: "LocalColorMapExists ?ld = ?e" "GlobalColorMapEnable (decode_lsd l) = ?G" by (simp_all add: decode_ld_def decode_lsd_def)
  define frame where "frame = \<lparr>fld = ?ld, flcmLength = (if ?e then GlobalColorMapLength (ldBits ?ld) else 0),
      flcm = (if ?e then Some m else None), frdb = Some (c # enc_blocks bs), fgce = None, ffb = None, fdims = Some (0, 0)\<rparr>"
  define out where "out = \<lparr>hdr = [0x47, 0x49, 0x46] @ v, lsd = Some (decode_lsd l),
          gcmLength = (if ?G then GlobalColorMapLength (lsdBits (decode_lsd l)) else 0), gcm = (if ?G then Some g else None),
          ext = [], frames = [frame]\<rparr>"
  have f: "0 < length (frames out)" "frames out ! 0 = frame" "frdb frame = Some (c # enc_blocks bs)" "fld frame = ?ld"
    "fgce frame = None" "gif_palette out frame = Some p"
    using p assms(4) e by (auto simp: out_def frame_def gif_palette_def)
  obtain k where k: "GetGIFFrame out 0 fmt
    = Some (Some (ucast (ImageWidth ?ld), ucast (ImageHeight ?ld)), Some (map (palette_colour fmt p) (decoded_part k idx)))"
    "k \<le> length idx" "spare_bytes ?ld c bs \<longrightarrow> k = length idx"
    using frame_pixels [of 0 out frame c bs idx p fmt] f assms(2,5) by auto
  have "gif_parsed fmt v l g [Image d m c bs] =
      Some (out\<lparr>frames := [frame\<lparr>ffb := Some (map (palette_colour fmt p) (decoded_part k idx)),
        fdims := Some (ucast (ImageWidth ?ld), ucast (ImageHeight ?ld))\<rparr>]\<rparr>)"
    using k(1) by (simp add: gif_parsed_def Let_def gif_store_def e out_def frame_def)
  then show ?thesis using k(2,3) by (intro exI conjI) (assumption | simp add: out_def frame_def)+
qed

section \<open>Extensions\<close>

text \<open>
  The stored block begins one byte late, so what is read as its function code is the length of its
  data: a graphic control block of the format, whose data has 4 bytes, never becomes active.
\<close>

definition no_long_extension :: "gif_item list \<Rightarrow> bool" where
  "no_long_extension items = list_all (\<lambda>it. case it of Extension f d bs \<Rightarrow> length d \<noteq> 249 | _ \<Rightarrow> True) items"

lemma gif_store_gce:
  "gif_store out fmt ld n m r act = Some out' \<Longrightarrow> \<forall>f \<in> set (frames out). fgce f = None \<Longrightarrow> act = None \<Longrightarrow>
   \<forall>f \<in> set (frames out'). fgce f = None"
  by (auto simp: gif_store_def Let_def split: bind_splits)

lemma items_no_gce:
  "gif_items fmt items out act = Some out' \<Longrightarrow> no_long_extension items \<Longrightarrow> act = None \<Longrightarrow>
   \<forall>f \<in> set (frames out). fgce f = None \<Longrightarrow> \<forall>f \<in> set (frames out'). fgce f = None"
proof (induction fmt items out act rule: gif_items.induct)
  case (3 fmt d m c bs r out act)
  from 3(2) obtain out1 where o: "gif_store out fmt (decode_ld d) (if LocalColorMapExists (decode_ld d) then GlobalColorMapLength (ldBits (decode_ld d)) else 0)
      (if LocalColorMapExists (decode_ld d) then Some m else None) (Some (c # enc_blocks bs)) act = Some out1"
    "gif_items fmt r out1 None = Some out'"
    by (auto simp: Let_def split: bind_splits)
  show ?case
    using 3(1) [OF refl refl o(1) o(2)] 3(3) gif_store_gce [OF o(1) 3(5,4)] by (simp add: no_long_extension_def)
qed (auto simp: no_long_extension_def)

section \<open>The screen\<close>

text \<open>The frame buffer by the byte offset of a pixel.\<close>

type_synonym screen = "u64 \<Rightarrow> u32"

definition pixel_offset :: "u32 \<Rightarrow> u32 \<Rightarrow> u32 \<Rightarrow> u64" where
  "pixel_offset PixelsPerScanLine x y = ucast (4 * PixelsPerScanLine * y) + ucast (4 * x)"

definition PlotPixel_32bpp :: "screen \<Rightarrow> u32 \<Rightarrow> u32 \<Rightarrow> u32 \<Rightarrow> u8 \<Rightarrow> u8 \<Rightarrow> u8 \<Rightarrow> u8 \<Rightarrow> screen" where
  "PlotPixel_32bpp fb PixelsPerScanLine x y a r g b =
    fb(pixel_offset PixelsPerScanLine x y :=
      push_bit 24 (ucast a) + push_bit 16 (ucast r) + push_bit 8 (ucast g) + ucast b)"

fun PlotPixels_32bpp :: "screen \<Rightarrow> u32 \<Rightarrow> u32 \<Rightarrow> u32 \<Rightarrow> u32 list \<Rightarrow> screen" where
  "PlotPixels_32bpp fb PixelsPerScanLine x y [] = fb"
| "PlotPixels_32bpp fb PixelsPerScanLine x y (p # ps) =
    PlotPixels_32bpp (PlotPixel_32bpp fb PixelsPerScanLine x y (ucast (drop_bit 24 p)) (ucast (drop_bit 16 p)) (ucast (drop_bit 8 p)) (ucast p))
      PixelsPerScanLine (x + 1) y ps"

text \<open>The rows are drawn from \<open>y\<close> on; \<open>n\<close> of them are left.\<close>

fun BltFrame_rows :: "u32 list \<Rightarrow> u32 \<Rightarrow> u32 \<Rightarrow> u32 \<Rightarrow> u32 \<Rightarrow> u32 \<Rightarrow> nat \<Rightarrow> screen \<Rightarrow> screen option" where
  "BltFrame_rows Frame FrameWidth DestX DestY DestWidth y 0 fb = Some fb"
| "BltFrame_rows Frame FrameWidth DestX DestY DestWidth y (Suc n) fb =
    (let start = unat (y * FrameWidth); len = unat (c_min FrameWidth DestWidth)
     in if length Frame < start + len then None
        else BltFrame_rows Frame FrameWidth DestX DestY DestWidth (y + 1) n
               (PlotPixels_32bpp fb DestWidth DestX (DestY + y) (take len (drop start Frame))))"

definition BltFrame :: "u32 list \<Rightarrow> u32 \<Rightarrow> u32 \<Rightarrow> u32 \<Rightarrow> u32 \<Rightarrow> u32 \<Rightarrow> screen \<Rightarrow> screen option" where
  "BltFrame Frame FrameWidth FrameHeight DestX DestY DestWidth fb =
    BltFrame_rows Frame FrameWidth DestX DestY DestWidth 0 (unat FrameHeight) fb"

lemma plot_whole_pixel:
  "PlotPixel_32bpp fb P x y (ucast (drop_bit 24 p)) (ucast (drop_bit 16 p)) (ucast (drop_bit 8 p)) (ucast (p :: u32))
     = fb(pixel_offset P x y := p)"
proof -
  have byte: "(ucast (ucast x :: u8) :: u32) = of_nat (unat x mod 256)" for x :: u32
    by (simp add: word_unat_eq_iff unsigned_ucast_eq take_bit_eq_mod unat_of_nat unat_mod)
  have p32: "unat p < 2 ^ 32" using unsigned_less [of p, where 'a = nat] by simp
  have N: "n mod 256 + 256 * (n div 256 mod 256) + 65536 * (n div 65536 mod 256) + 16777216 * (n div 16777216 mod 256) = n"
    if "n < 2 ^ 32" for n :: nat
  proof -
    have "n div 16777216 mod 256 = n div 16777216" "n div 256 div 256 = n div 65536" "n div 65536 div 256 = n div 16777216"
      using that by (simp_all add: div_mult2_eq [symmetric])
    then show ?thesis
      using div_mult_mod_eq [of n 256] div_mult_mod_eq [of "n div 256" 256] div_mult_mod_eq [of "n div 65536" 256] by linarith
  qed
  have "(of_nat (unat p mod 256) :: u32) + 256 * of_nat (unat p div 256 mod 256) + 65536 * of_nat (unat p div 65536 mod 256)
      + 16777216 * of_nat (unat p div 16777216 mod 256) = of_nat (unat p)"
    by (subst N [OF p32, symmetric]) (simp only: of_nat_add of_nat_mult of_nat_numeral)
  moreover have divs: "unat (p div 256) = unat p div 256" "unat (p div 65536) = unat p div 65536"
    "unat (p div 16777216) = unat p div 16777216" by (simp_all add: unat_div)
  ultimately have "push_bit 24 (ucast (ucast (drop_bit 24 p) :: u8)) + push_bit 16 (ucast (ucast (drop_bit 16 p) :: u8))
      + push_bit 8 (ucast (ucast (drop_bit 8 p) :: u8)) + ucast (ucast p :: u8) = p"
    by (simp add: byte push_bit_eq_mult drop_bit_eq_div divs algebra_simps)
  then show ?thesis by (simp add: PlotPixel_32bpp_def)
qed

text \<open>The pixels of a row, and then the rows: the offsets of different pixels differ while the buffer is below 4 GiB.\<close>

definition pixel_at :: "nat \<Rightarrow> nat \<Rightarrow> nat \<Rightarrow> u64" where
  "pixel_at P x y = of_nat (4 * (P * y + x))"

lemma pixel_offset_at:
  assumes "x < P" and "4 * (P * (y + 1)) < 2 ^ 32"
  shows "pixel_offset (of_nat P) (of_nat x) (of_nat y) = pixel_at P x y"
proof -
  have "4 * P * y < 2 ^ 32" "4 * x < 2 ^ 32" using assms by (simp_all add: algebra_simps)
  then have "(ucast (of_nat (4 * P * y) :: u32) :: u64) = of_nat (4 * P * y)" "(ucast (of_nat (4 * x) :: u32) :: u64) = of_nat (4 * x)"
    by (simp_all add: word_unat_eq_iff unat_of_nat unsigned_ucast_eq take_bit_eq_mod del: of_nat_mult)
  then show ?thesis by (simp add: pixel_offset_def pixel_at_def algebra_simps)
qed

lemma row_major:
  fixes c :: nat
  assumes "a < c" and "a' < c" and "b * c + a = b' * c + a'"
  shows "a = a'" and "b = b'"
proof -
  have "(b * c + a) mod c = (b' * c + a') mod c" "(b * c + a) div c = (b' * c + a') div c" using assms(3) by simp_all
  then show "a = a'" "b = b'" using assms(1,2) by simp_all
qed

lemma pixel_at_inject:
  assumes "x < P" "x' < P" "4 * (P * (y + 1)) < 2 ^ 32" "4 * (P * (y' + 1)) < 2 ^ 32"
  shows "pixel_at P x y = pixel_at P x' y' \<longleftrightarrow> x = x' \<and> y = y'"
proof
  assume e: "pixel_at P x y = pixel_at P x' y'"
  have "4 * (P * y + x) < 2 ^ 64" "4 * (P * y' + x') < 2 ^ 64" using assms by (simp_all add: algebra_simps)
  then have "4 * (P * y + x) = 4 * (P * y' + x')" using e unat_offset_inject unfolding pixel_at_def by blast
  then have "y * P + x = y' * P + x'" by (simp add: mult.commute)
  then show "x = x' \<and> y = y'" using row_major [OF assms(1,2)] by blast
qed simp

lemma plot_row:
  "x + length ps \<le> P \<Longrightarrow> 4 * (P * (y + 1)) < 2 ^ 32 \<Longrightarrow>
   (\<forall>i < length ps. PlotPixels_32bpp fb (of_nat P) (of_nat x) (of_nat y) ps (pixel_at P (x + i) y) = ps ! i) \<and>
   (\<forall>a. (\<forall>i < length ps. a \<noteq> pixel_at P (x + i) y) \<longrightarrow> PlotPixels_32bpp fb (of_nat P) (of_nat x) (of_nat y) ps a = fb a)"
proof (induction ps arbitrary: x fb)
  case (Cons p ps)
  define fb' where "fb' = fb(pixel_at P x y := p)"
  define out where "out = PlotPixels_32bpp fb' (of_nat P) (of_nat (x + 1)) (of_nat y) ps"
  have "pixel_offset (of_nat P) (of_nat x) (of_nat y) = pixel_at P x y" using Cons.prems by (intro pixel_offset_at) simp_all
  then have e: "PlotPixels_32bpp fb (of_nat P) (of_nat x) (of_nat y) (p # ps) = out"
    by (simp add: plot_whole_pixel add.commute out_def fb'_def)
  have IH: "\<forall>i < length ps. out (pixel_at P (x + 1 + i) y) = ps ! i"
    "\<forall>a. (\<forall>i < length ps. a \<noteq> pixel_at P (x + 1 + i) y) \<longrightarrow> out a = fb' a"
    using Cons.IH [of "x + 1" fb'] Cons.prems unfolding out_def by simp_all
  have other: "pixel_at P x y \<noteq> pixel_at P (x + 1 + i) y" if "i < length ps" for i
    using that Cons.prems by (subst pixel_at_inject) simp_all
  show ?case
  proof (intro conjI allI impI)
    fix i assume i: "i < length (p # ps)"
    show "PlotPixels_32bpp fb (of_nat P) (of_nat x) (of_nat y) (p # ps) (pixel_at P (x + i) y) = (p # ps) ! i"
    proof (cases i)
      case 0
      then show ?thesis using IH(2) other unfolding e by (simp add: fb'_def)
    next
      case (Suc j)
      then show ?thesis using IH(1) i unfolding e by simp
    qed
  next
    fix a assume a: "\<forall>i < length (p # ps). a \<noteq> pixel_at P (x + i) y"
    then have "a \<noteq> pixel_at P x y" "\<forall>i < length ps. a \<noteq> pixel_at P (x + 1 + i) y" by force+
    then show "PlotPixels_32bpp fb (of_nat P) (of_nat x) (of_nat y) (p # ps) a = fb a"
      using IH(2) unfolding e by (simp add: fb'_def)
  qed
qed simp

lemma blt_rows:
  assumes "dx + min fw P \<le> P" and "4 * (P * (dy + y + n)) < 2 ^ 32" and "fw < 2 ^ 32" and "(y + n) * fw < 2 ^ 32" and "length Frame = fh * fw"
    and "y + n \<le> fh"
  shows "\<exists>fb'. BltFrame_rows Frame (of_nat fw) (of_nat dx) (of_nat dy) (of_nat P) (of_nat y) n fb = Some fb' \<and>
     (\<forall>i < min fw P. \<forall>j < n. fb' (pixel_at P (dx + i) (dy + y + j)) = Frame ! ((y + j) * fw + i)) \<and>
     (\<forall>a. (\<forall>i < min fw P. \<forall>j < n. a \<noteq> pixel_at P (dx + i) (dy + y + j)) \<longrightarrow> fb' a = fb a)"
  using assms
proof (induction n arbitrary: y fb)
  case (Suc n)
  let ?m = "min fw P"
  define row where "row = take ?m (drop (y * fw) Frame)"
  define fb1 where "fb1 = PlotPixels_32bpp fb (of_nat P) (of_nat dx) (of_nat (dy + y)) row"
  have P: "P < 2 ^ 32" using Suc.prems(2) by (cases "dy + y + Suc n") auto
  have "(y + 1) * fw \<le> fh * fw" using Suc.prems(6) by (intro mult_le_mono1) linarith
  then have fits: "y * fw + fw \<le> length Frame" using Suc.prems(5) by simp
  then have row: "length row = ?m" "\<And>i. i < ?m \<Longrightarrow> row ! i = Frame ! (y * fw + i)" by (simp_all add: row_def)
  have yfw: "y * fw < 2 ^ 32" using Suc.prems(4) by (simp add: algebra_simps)
  have u: "unat (of_nat y * of_nat fw :: u32) = y * fw"
    using yfw by (simp add: unat_of_nat flip: of_nat_mult)
  have um: "unat (c_min (of_nat fw :: u32) (of_nat P)) = ?m"
    using P Suc.prems(3) by (simp add: c_min_def word_less_nat_alt unat_of_nat)
  have step: "BltFrame_rows Frame (of_nat fw) (of_nat dx) (of_nat dy) (of_nat P) (of_nat y) (Suc n) fb
      = BltFrame_rows Frame (of_nat fw) (of_nat dx) (of_nat dy) (of_nat P) (of_nat (y + 1)) n fb1"
    using fits by (simp add: Let_def u um row_def fb1_def add.commute min_def)
  have b: "4 * (P * (dy + y + 1)) < 2 ^ 32" using Suc.prems(2) by (simp add: algebra_simps)
  have bj: "4 * (P * (dy + y + j + 1)) < 2 ^ 32" if "j < Suc n" for j
  proof -
    have "P * (dy + y + j + 1) \<le> P * (dy + y + Suc n)" using that by (intro mult_le_mono2) simp
    then show ?thesis using Suc.prems(2) by linarith
  qed
  have r: "\<forall>i < ?m. fb1 (pixel_at P (dx + i) (dy + y)) = row ! i"
    "\<forall>a. (\<forall>i < ?m. a \<noteq> pixel_at P (dx + i) (dy + y)) \<longrightarrow> fb1 a = fb a"
    using plot_row [of dx row P "dy + y" fb] Suc.prems(1) b row(1) unfolding fb1_def by simp_all
  obtain fb' where f: "BltFrame_rows Frame (of_nat fw) (of_nat dx) (of_nat dy) (of_nat P) (of_nat (y + 1)) n fb1 = Some fb'"
    "\<forall>i < ?m. \<forall>j < n. fb' (pixel_at P (dx + i) (dy + (y + 1) + j)) = Frame ! ((y + 1 + j) * fw + i)"
    "\<forall>a. (\<forall>i < ?m. \<forall>j < n. a \<noteq> pixel_at P (dx + i) (dy + (y + 1) + j)) \<longrightarrow> fb' a = fb1 a"
    using Suc.IH [of "y + 1" fb1] Suc.prems by (auto simp: ac_simps)
  have other: "pixel_at P (dx + i) (dy + y) \<noteq> pixel_at P (dx + i') (dy + (y + 1) + j)" if "i < ?m" "i' < ?m" "j < n" for i i' j
    using that Suc.prems(1) b bj [of "j + 1"] by (subst pixel_at_inject) (simp_all add: ac_simps min_def split: if_splits)
  have "fb' (pixel_at P (dx + i) (dy + y + j)) = Frame ! ((y + j) * fw + i)" if "i < ?m" "j < Suc n" for i j
  proof (cases j)
    case 0
    then show ?thesis using f(3) other r(1) row(2) that(1) by simp
  next
    case (Suc k)
    then show ?thesis using f(2) that by simp
  qed
  moreover have "fb' a = fb a" if a: "\<forall>i < ?m. \<forall>j < Suc n. a \<noteq> pixel_at P (dx + i) (dy + y + j)" for a
  proof -
    have "a \<noteq> pixel_at P (dx + i) (dy + y)" "j < n \<Longrightarrow> a \<noteq> pixel_at P (dx + i) (dy + (y + 1) + j)" if "i < ?m" for i j
      using a [rule_format, OF that, of 0] a [rule_format, OF that, of "Suc j"] by simp_all
    then show ?thesis using f(3) r(2) by simp
  qed
  ultimately show ?case unfolding step using f(1) by blast
qed simp

section \<open>The canvas\<close>

text \<open>
  One turn of the loop of \<open>GifShow\<close>.  The two double loops visit the pixels of the frame row by row and
  skip those that are outside the canvas; \<open>val\<close> is the pixel to store, if any.
\<close>

definition canvas_put :: "u32 \<Rightarrow> u32 \<Rightarrow> u32 \<Rightarrow> u32 \<Rightarrow> (nat \<times> nat \<Rightarrow> u32 option) \<Rightarrow> nat \<times> nat \<Rightarrow> u32 list \<Rightarrow> u32 list" where
  "canvas_put canvasWidth canvasHeight fX fY val xy canvas =
    (let targetX = fX + of_nat (fst xy); targetY = fY + of_nat (snd xy)
     in if targetY \<ge> canvasHeight \<or> targetX \<ge> canvasWidth then canvas
        else (case val xy of None \<Rightarrow> canvas | Some v \<Rightarrow> canvas[unat (targetY * canvasWidth + targetX) := v]))"

definition frame_pixels_of :: "nat \<Rightarrow> nat \<Rightarrow> (nat \<times> nat) list" where
  "frame_pixels_of fW fH = concat (map (\<lambda>y. map (\<lambda>x. (x, y)) [0..<fW]) [0..<fH])"

definition composite_pixels :: "u32 \<Rightarrow> u32 \<Rightarrow> u32 \<Rightarrow> u32 \<Rightarrow> u32 \<Rightarrow> u32 \<Rightarrow> u32 list \<Rightarrow> u32 list \<Rightarrow> u32 list" where
  "composite_pixels canvasWidth canvasHeight fX fY fW fH framePixels =
    fold (canvas_put canvasWidth canvasHeight fX fY
        (\<lambda>(x, y). let srcPixel = framePixels ! (y * unat fW + x) in if srcPixel AND 0xFF000000 \<noteq> 0 then Some srcPixel else None))
      (frame_pixels_of (unat fW) (unat fH))"

text \<open>Every pixel over the canvas has to be inside the frame buffer and the canvas.\<close>

definition composite_inside :: "u32 \<Rightarrow> u32 \<Rightarrow> u32 \<Rightarrow> u32 \<Rightarrow> u32 \<Rightarrow> u32 \<Rightarrow> nat \<Rightarrow> nat \<Rightarrow> bool" where
  "composite_inside canvasWidth canvasHeight fX fY fW fH nFrame nCanvas =
    list_all (\<lambda>(x, y).
        let targetX = fX + of_nat x; targetY = fY + of_nat y
        in targetY \<ge> canvasHeight \<or> targetX \<ge> canvasWidth
          \<or> y * unat fW + x < nFrame \<and> unat (targetY * canvasWidth + targetX) < nCanvas)
      (frame_pixels_of (unat fW) (unat fH))"

definition composite :: "u32 \<Rightarrow> u32 \<Rightarrow> u32 \<Rightarrow> u32 \<Rightarrow> u32 \<Rightarrow> u32 \<Rightarrow> u32 list \<Rightarrow> u32 list \<Rightarrow> u32 list option" where
  "composite canvasWidth canvasHeight fX fY fW fH framePixels canvas =
    (if composite_inside canvasWidth canvasHeight fX fY fW fH (length framePixels) (length canvas)
     then Some (composite_pixels canvasWidth canvasHeight fX fY fW fH framePixels canvas) else None)"

definition restore_background :: "u32 \<Rightarrow> u32 \<Rightarrow> u32 \<Rightarrow> u32 \<Rightarrow> u32 \<Rightarrow> u32 \<Rightarrow> u32 list \<Rightarrow> u32 list" where
  "restore_background canvasWidth canvasHeight fX fY fW fH =
    fold (canvas_put canvasWidth canvasHeight fX fY (\<lambda>_. Some 0)) (frame_pixels_of (unat fW) (unat fH))"

definition gif_disposal :: "gif_desc \<Rightarrow> gif_frame \<Rightarrow> u8 option" where
  "gif_disposal desc frame =
    (case fgce frame of
       None \<Rightarrow> Some 0
     | Some g \<Rightarrow> let b = ext desc ! g in if length b \<le> 3 then None else Some (drop_bit 2 (b ! 3) AND 7))"

text \<open>\<open>Some None\<close> when the loop is left.\<close>

definition GifShow_turn ::
  "gif_desc \<Rightarrow> u32 \<Rightarrow> u32 \<Rightarrow> u32 \<Rightarrow> u64 \<Rightarrow> u32 list \<Rightarrow> screen \<Rightarrow> (u32 list \<times> screen) option option" where
  "GifShow_turn desc canvasWidth canvasHeight PixelsPerScanLine FC canvas fb =
    (let frameIdx = unat FC mod length (frames desc); frame = frames desc ! frameIdx;
         canvas0 = (if frameIdx = 0 then replicate (unat (canvasWidth * canvasHeight)) 0 else canvas)
     in case (ffb frame, fdims frame) of
          (Some framePixels, Some (fW, fH)) \<Rightarrow>
            let fX = ucast (HorizontalPosition (fld frame)); fY = ucast (VerticalPosition (fld frame))
            in do {
              disposal \<leftarrow> gif_disposal desc frame;
              canvas1 \<leftarrow> composite canvasWidth canvasHeight fX fY fW fH framePixels canvas0;
              fb1 \<leftarrow> BltFrame canvas1 canvasWidth canvasHeight 0 0 PixelsPerScanLine fb;
              Some (Some (if disposal = 2 then restore_background canvasWidth canvasHeight fX fY fW fH canvas1 else canvas1, fb1))
            }
        | _ \<Rightarrow> Some None)"

section \<open>Releasing an image\<close>

text \<open>The allocations of an image, and those that are passed to \<open>__free\<close>, in order.\<close>

datatype gif_alloc = AHdr | ALsd | AGcm | AExt nat | AExtArray | ALd nat | ALcm nat | ARdb nat | AFb nat | AFrames | ADesc

definition free_frame :: "nat \<Rightarrow> gif_frame \<Rightarrow> gif_alloc list" where
  "free_frame i frame =
    ALd i # (if flcm frame \<noteq> None then [ALcm i] else []) @ (if frdb frame \<noteq> None then [ARdb i] else [])
      @ (case fgce frame of None \<Rightarrow> [] | Some g \<Rightarrow> [AExt g]) @ (if ffb frame \<noteq> None then [AFb i] else [])"

text \<open>The last two belong to the first frame.\<close>

definition CloseGIF :: "gif_desc \<Rightarrow> gif_alloc list" where
  "CloseGIF gif =
    AHdr # (if lsd gif \<noteq> None then [ALsd] else []) @ (if gcm gif \<noteq> None then [AGcm] else [])
      @ (if ext gif \<noteq> [] then map AExt (rev [0..<length (ext gif)]) @ [AExtArray] else [])
      @ (if frames gif \<noteq> [] then concat (map (\<lambda>i. free_frame i (frames gif ! i)) (rev [0..<length (frames gif)])) @ [AFrames] else [])
      @ (if frames gif \<noteq> [] \<and> flcm (frames gif ! 0) \<noteq> None then [ALcm 0] else [])
      @ (if frames gif \<noteq> [] \<and> frdb (frames gif ! 0) \<noteq> None then [ARdb 0] else []) @ [ADesc]"

text \<open>An image that could be decoded is freed twice.\<close>

theorem CloseGIF_frees_twice:
  assumes "frames gif \<noteq> []" and "frdb (frames gif ! 0) \<noteq> None"
  shows "\<not> distinct (CloseGIF gif)"
proof -
  have "ARdb 0 \<in> set (concat (map (\<lambda>i. free_frame i (frames gif ! i)) (rev [0..<length (frames gif)])))"
    using assms by (auto simp: free_frame_def intro!: bexI [of _ 0])
  then show ?thesis using assms by (auto simp: CloseGIF_def)
qed

section \<open>Properties\<close>

text \<open>The pixels of the canvas after drawing: the frame where it is opaque, the canvas before elsewhere.\<close>

lemma put_fold:
  fixes put :: "'a \<Rightarrow> u32 list \<Rightarrow> u32 list"
  assumes put: "\<And>k c. put k c = (case v k of None \<Rightarrow> c | Some w \<Rightarrow> c[ix k := w])"
  shows "distinct ks \<Longrightarrow> inj_on ix {k \<in> set ks. v k \<noteq> None} \<Longrightarrow> i < length c \<Longrightarrow>
    length (fold put ks c) = length c \<and>
    fold put ks c ! i = (case List.find (\<lambda>k. v k \<noteq> None \<and> ix k = i) ks of Some k \<Rightarrow> the (v k) | None \<Rightarrow> c ! i)"
proof (induction ks arbitrary: c)
  case (Cons k ks)
  have inj: "inj_on ix {k \<in> set ks. v k \<noteq> None}" by (rule inj_on_subset [OF Cons.prems(2)]) auto
  have none: "List.find (\<lambda>l. v l \<noteq> None \<and> ix l = i) ks = None" if "v k \<noteq> None" "ix k = i"
    using that Cons.prems(1,2) by (auto simp: find_None_iff inj_on_def)
  show ?case
    using Cons.IH [OF _ inj, of "put k c"] Cons.prems none by (auto simp: put nth_list_update split: option.split)
qed simp

lemma set_frame_pixels: "set (frame_pixels_of w h) = {0..<w} \<times> {0..<h}"
  by (auto simp: frame_pixels_of_def)

lemma distinct_frame_pixels: "distinct (frame_pixels_of w h)"
proof (induction h)
  case (Suc h)
  have "frame_pixels_of w (Suc h) = frame_pixels_of w h @ map (\<lambda>x. (x, h)) [0..<w]" by (simp add: frame_pixels_of_def)
  moreover have "distinct (map (\<lambda>x. (x, h)) [0..<w])" by (simp add: distinct_map inj_on_def)
  ultimately show ?case using Suc by (auto simp: set_frame_pixels)
qed (simp add: frame_pixels_of_def)

lemma find_unique:
  assumes "k \<in> set ks" and "P k" and "\<And>l. l \<in> set ks \<Longrightarrow> P l \<Longrightarrow> l = k"
  shows "List.find P ks = Some k"
  using assms by (metis find_Some_iff find_None_iff not_Some_eq nth_mem)

lemma canvas_index:
  fixes cw ch tx ty :: u32
  assumes "unat cw * unat ch < 2 ^ 32" and "unat tx < unat cw" and "unat ty < unat ch"
  shows "unat (ty * cw + tx) = unat ty * unat cw + unat tx" and "unat ty * unat cw + unat tx < unat cw * unat ch"
proof -
  have "unat ty * unat cw + unat cw \<le> unat ch * unat cw" using assms(3) by (metis Suc_leI add.commute mult_Suc mult_le_mono1)
  then show l: "unat ty * unat cw + unat tx < unat cw * unat ch" using assms(2) by (simp add: mult.commute)
  show "unat (ty * cw + tx) = unat ty * unat cw + unat tx" using l assms(1) by (subst unat_add_small unat_mult_small; simp)+
qed

lemma canvas_fold:
  assumes cw: "unat cw * unat ch < 2 ^ 32" and X: "X < unat cw" "Y < unat ch" and canvas: "length canvas = unat cw * unat ch"
    and f: "unat fX + fW < 2 ^ 32" "unat fY + fH < 2 ^ 32"
  shows "fold (canvas_put cw ch fX fY val) (frame_pixels_of fW fH) canvas ! (Y * unat cw + X)
     = (if unat fX \<le> X \<and> X < unat fX + fW \<and> unat fY \<le> Y \<and> Y < unat fY + fH \<and> val (X - unat fX, Y - unat fY) \<noteq> None
        then the (val (X - unat fX, Y - unat fY)) else canvas ! (Y * unat cw + X))"
    "length (fold (canvas_put cw ch fX fY val) (frame_pixels_of fW fH) canvas) = length canvas"
proof -
  let ?ks = "frame_pixels_of fW fH" and ?j = "Y * unat cw + X"
  define tx ty where "tx k = fX + of_nat (fst k)" and "ty k = fY + of_nat (snd k)" for k :: "nat \<times> nat"
  define v ix where "v k = (if ty k \<ge> ch \<or> tx k \<ge> cw then None else val k)" and "ix k = unat (ty k * cw + tx k)" for k
  have put: "canvas_put cw ch fX fY val k c = (case v k of None \<Rightarrow> c | Some w \<Rightarrow> c[ix k := w])" for k c
    by (cases "val k") (simp_all add: canvas_put_def v_def ix_def tx_def ty_def Let_def)
  have t: "unat (tx k) = unat fX + fst k" "unat (ty k) = unat fY + snd k" if "k \<in> set ?ks" for k
    using that f unfolding tx_def ty_def set_frame_pixels by (auto simp: unat_add_small unat_of_nat)
  have ix: "ix k = unat (ty k) * unat cw + unat (tx k)" "unat (tx k) < unat cw" "unat (ty k) < unat ch" "val k \<noteq> None" if "v k \<noteq> None" for k
  proof -
    show b: "unat (tx k) < unat cw" "unat (ty k) < unat ch" "val k \<noteq> None"
      using that by (auto simp: v_def word_le_nat_alt split: if_splits)
    show "ix k = unat (ty k) * unat cw + unat (tx k)" unfolding ix_def by (rule canvas_index(1) [OF cw b(1,2)])
  qed
  have coord: "tx k = tx l \<and> ty k = ty l" if "ix k = ix l" "v k \<noteq> None" "v l \<noteq> None" for k l
  proof -
    have "unat (ty k) * unat cw + unat (tx k) = unat (ty l) * unat cw + unat (tx l)"
      using that(1) unfolding ix(1) [OF that(2)] ix(1) [OF that(3)] .
    from row_major [OF ix(2) [OF that(2)] ix(2) [OF that(3)] this] show ?thesis by (simp add: word_unat_eq_iff)
  qed
  have inj: "inj_on ix {k \<in> set ?ks. v k \<noteq> None}"
  proof (rule inj_onI)
    fix k l assume k: "k \<in> {k \<in> set ?ks. v k \<noteq> None}" and l: "l \<in> {k \<in> set ?ks. v k \<noteq> None}" and "ix k = ix l"
    then have "tx k = tx l \<and> ty k = ty l" by (intro coord) simp_all
    then have "unat (tx k) = unat (tx l)" "unat (ty k) = unat (ty l)" by simp_all
    then show "k = l" using t [of k] t [of l] k l by (simp add: prod_eq_iff)
  qed
  have "Y * unat cw + unat cw \<le> unat ch * unat cw" using X(2) by (metis Suc_leI add.commute mult_Suc mult_le_mono1)
  then have j: "?j < length canvas" using X(1) canvas by (simp add: mult.commute)
  note fold = put_fold [of "canvas_put cw ch fX fY val" ix v, OF put distinct_frame_pixels inj j]
  then show "length (fold (canvas_put cw ch fX fY val) ?ks canvas) = length canvas" by blast
  let ?in = "unat fX \<le> X \<and> X < unat fX + fW \<and> unat fY \<le> Y \<and> Y < unat fY + fH \<and> val (X - unat fX, Y - unat fY) \<noteq> None"
  have at: "k = (X - unat fX, Y - unat fY) \<and> ?in" if "k \<in> set ?ks" "v k \<noteq> None" "ix k = ?j" for k
  proof -
    have "unat (ty k) * unat cw + unat (tx k) = ?j" using that(3) unfolding ix(1) [OF that(2)] .
    from row_major [OF ix(2) [OF that(2)] X(1) this] have "unat (tx k) = X" "unat (ty k) = Y" .
    then have "X = unat fX + fst k" "Y = unat fY + snd k" using t [OF that(1)] by simp_all
    then show ?thesis using that(1) ix(4) [OF that(2)] by (auto simp: set_frame_pixels)
  qed
  show "fold (canvas_put cw ch fX fY val) ?ks canvas ! ?j
     = (if ?in then the (val (X - unat fX, Y - unat fY)) else canvas ! ?j)"
  proof (cases ?in)
    case True
    let ?k = "(X - unat fX, Y - unat fY)"
    have k: "?k \<in> set ?ks" using True by (auto simp: set_frame_pixels)
    then have "unat (tx ?k) = X" "unat (ty ?k) = Y" using t [OF k] True by simp_all
    then have vk: "v ?k = val ?k" "v ?k \<noteq> None" using X True by (auto simp: v_def word_le_nat_alt)
    have "ix ?k = ?j" using ix(1) [OF vk(2)] \<open>unat (tx ?k) = X\<close> \<open>unat (ty ?k) = Y\<close> by simp
    then have "List.find (\<lambda>k. v k \<noteq> None \<and> ix k = ?j) ?ks = Some ?k"
      using at vk(2) by (intro find_unique [OF k]) blast+
    then show ?thesis using fold True vk(1) by simp
  next
    case False
    then have "List.find (\<lambda>k. v k \<noteq> None \<and> ix k = ?j) ?ks = None" unfolding find_None_iff using at by blast
    then show ?thesis using fold False by (simp only: option.case if_False)
  qed
qed

lemma if_some: "(if a \<and> (if b then Some p else None) \<noteq> None then the (if b then Some p else None) else c) = (if a \<and> b then p else c)"
  by simp

lemma composite_pixel:
  assumes "unat cw * unat ch < 2 ^ 32" and "X < unat cw" and "Y < unat ch" and "length canvas = unat cw * unat ch"
    and "unat fX + unat fW < 2 ^ 32" and "unat fY + unat fH < 2 ^ 32"
  shows "composite_pixels cw ch fX fY fW fH px canvas ! (Y * unat cw + X)
     = (let p = px ! ((Y - unat fY) * unat fW + (X - unat fX)) in
        if unat fX \<le> X \<and> X < unat fX + unat fW \<and> unat fY \<le> Y \<and> Y < unat fY + unat fH \<and> p AND 0xFF000000 \<noteq> 0
        then p else canvas ! (Y * unat cw + X))"
    and "length (composite_pixels cw ch fX fY fW fH px canvas) = length canvas"
  unfolding composite_pixels_def canvas_fold [OF assms] Let_def prod.case by (simp_all only: conj_assoc [symmetric] if_some)

lemma composite_inside_frame:
  assumes "unat cw * unat ch < 2 ^ 32" and "length canvas = unat cw * unat ch" and "unat fW * unat fH \<le> length px"
  shows "composite cw ch fX fY fW fH px canvas = Some (composite_pixels cw ch fX fY fW fH px canvas)"
proof -
  have "y * unat fW + x < length px" if "x < unat fW" "y < unat fH" for x y
  proof -
    have "y * unat fW + unat fW \<le> unat fH * unat fW" using that(2) by (metis Suc_leI add.commute mult_Suc mult_le_mono1)
    then show ?thesis using that(1) assms(3) by (simp add: mult.commute)
  qed
  moreover have "unat (ty * cw + tx) < length canvas" if "\<not> cw \<le> tx" "\<not> ch \<le> ty" for tx ty
    using canvas_index [OF assms(1), of tx ty] that assms(2) by (simp add: word_le_nat_alt)
  ultimately show ?thesis
    by (auto simp: composite_def composite_inside_def list_all_iff set_frame_pixels Let_def)
qed

text \<open>What a pixel of the canvas is after one turn.\<close>

definition shown_pixel :: "gif_frame \<Rightarrow> nat \<Rightarrow> nat \<Rightarrow> u32 \<Rightarrow> u32" where
  "shown_pixel frame X Y old =
    (case (ffb frame, fdims frame) of
       (Some px, Some (fW, fH)) \<Rightarrow>
         let x0 = unat (HorizontalPosition (fld frame)); y0 = unat (VerticalPosition (fld frame));
             p = px ! ((Y - y0) * unat fW + (X - x0))
         in if x0 \<le> X \<and> X < x0 + unat fW \<and> y0 \<le> Y \<and> Y < y0 + unat fH \<and> p AND 0xFF000000 \<noteq> 0 then p else old
     | _ \<Rightarrow> old)"

text \<open>C20: one turn of \<open>GifShow\<close> puts on the screen, at every pixel of the canvas, the pixel of the frame where the
  frame lies over it and is opaque, and what the canvas held before elsewhere (nothing, when the animation
  starts over).  The frame has no control block (as every frame the parser makes of a file of the format)
  and a frame buffer of its size, and the canvas is not wider than a line of the screen.
\<close>

theorem GifShow_turn_shows:
  assumes "frame = frames desc ! (unat FC mod length (frames desc))" and "ffb frame = Some px" and "fdims frame = Some (fW, fH)"
    and "fgce frame = None" and "unat fW < 2 ^ 16" and "unat fH < 2 ^ 16" and "length canvas = unat cw * unat ch"
    and "unat cw \<le> unat pps" and "4 * (unat pps * unat ch) < 2 ^ 32" and "X < unat cw" and "Y < unat ch"
    and px: "length px = unat fW * unat fH"
  shows "\<exists>canvas' fb'. GifShow_turn desc cw ch pps FC canvas fb = Some (Some (canvas', fb'))
    \<and> canvas' ! (Y * unat cw + X) = shown_pixel frame X Y (if unat FC mod length (frames desc) = 0 then 0 else canvas ! (Y * unat cw + X))
    \<and> fb' (pixel_at (unat pps) X Y) = canvas' ! (Y * unat cw + X)"
proof -
  let ?i = "unat FC mod length (frames desc)" and ?x = "ucast (HorizontalPosition (fld frame)) :: u32"
    and ?y = "ucast (VerticalPosition (fld frame)) :: u32"
  define c0 where "c0 = (if ?i = 0 then replicate (unat (cw * ch)) 0 else canvas)"
  define c1 where "c1 = composite_pixels cw ch ?x ?y fW fH px c0"
  have "unat cw * unat ch \<le> unat pps * unat ch" using assms(8) by (rule mult_le_mono1)
  then have small: "unat cw * unat ch < 2 ^ 32" using assms(9) by linarith
  then have "unat (cw * ch) = unat cw * unat ch" by (simp add: unat_mult_small)
  then have c0: "length c0 = unat cw * unat ch" using assms(7) by (simp add: c0_def)
  have "Y * unat cw + X < unat cw * unat ch" using canvas_index(2) [of cw ch "of_nat X" "of_nat Y"] small assms(10,11)
      unsigned_less [of cw, where 'a = nat] unsigned_less [of ch, where 'a = nat] by (simp add: unat_of_nat)
  then have old: "c0 ! (Y * unat cw + X) = (if ?i = 0 then 0 else canvas ! (Y * unat cw + X))"
    using \<open>unat (cw * ch) = unat cw * unat ch\<close> by (simp add: c0_def)
  have u: "unat ?x = unat (HorizontalPosition (fld frame))" "unat ?y = unat (VerticalPosition (fld frame))"
    using unsigned_less [of "HorizontalPosition (fld frame)", where 'a = nat] unsigned_less [of "VerticalPosition (fld frame)", where 'a = nat]
    by (simp_all add: unsigned_ucast_eq take_bit_eq_mod)
  have xy: "unat ?x + unat fW < 2 ^ 32" "unat ?y + unat fH < 2 ^ 32"
    using unsigned_less [of "HorizontalPosition (fld frame)", where 'a = nat] unsigned_less [of "VerticalPosition (fld frame)", where 'a = nat]
      assms(5,6) unfolding u by simp_all
  have in_frame: "composite cw ch ?x ?y fW fH px c0 = Some c1"
    using composite_inside_frame [OF small c0] px by (simp add: c1_def)
  note comp = composite_pixel [OF small assms(10,11) c0 xy, of px, folded c1_def]
  have len: "length c1 = unat ch * unat cw" using comp(2) c0 by (simp add: mult.commute)
  obtain fb' where fb: "BltFrame c1 cw ch 0 0 pps fb = Some fb'"
    "\<forall>i < min (unat cw) (unat pps). \<forall>j < unat ch. fb' (pixel_at (unat pps) i j) = c1 ! (j * unat cw + i)"
    using blt_rows [of 0 "unat cw" "unat pps" 0 0 "unat ch" c1 "unat ch" fb] small assms(9) len
      unsigned_less [of cw, where 'a = nat] by (auto simp: BltFrame_def mult.commute)
  have "GifShow_turn desc cw ch pps FC canvas fb = Some (Some (c1, fb'))"
    using assms(2-4) fb(1) in_frame by (simp add: assms(1) [symmetric] GifShow_turn_def Let_def gif_disposal_def c0_def [symmetric])
  moreover have "c1 ! (Y * unat cw + X) = shown_pixel frame X Y (if ?i = 0 then 0 else canvas ! (Y * unat cw + X))"
    using comp(1) assms(2,3) unfolding u old by (simp add: shown_pixel_def Let_def)
  moreover have "fb' (pixel_at (unat pps) X Y) = c1 ! (Y * unat cw + X)" using fb(2) assms(8,10,11) by simp
  ultimately show ?thesis by blast
qed

definition one_pixel_gif :: "u32 \<Rightarrow> gif_desc" where
  "one_pixel_gif px =
    \<lparr>hdr = [], lsd = None, gcmLength = 0, gcm = None, ext = [],
     frames = [\<lparr>fld = \<lparr>HorizontalPosition = 0, VerticalPosition = 0, ImageWidth = 1, ImageHeight = 1, ldBits = 0, Sorted = False,
         InterlacedImage = False, LocalColorMapExists = False\<rparr>, flcmLength = 0, flcm = None, frdb = None, fgce = None,
       ffb = Some [px], fdims = Some (1, 1)\<rparr>]\<rparr>"

theorem GifShow_turn_shows_witness:
  "\<exists>canvas' fb'. GifShow_turn (one_pixel_gif 0xFF102030) 1 1 1 0 [5] (\<lambda>_. 0) = Some (Some (canvas', fb')) \<and> fb' (pixel_at 1 0 0) = 0xFF102030"
  using GifShow_turn_shows [of "frames (one_pixel_gif 0xFF102030) ! 0" "one_pixel_gif 0xFF102030" 0 "[0xFF102030]" 1 1 "[5]" 1 1 1 0 0 "\<lambda>_. 0"]
  by (auto simp: one_pixel_gif_def shown_pixel_def)

text \<open>No frame of a file has a transparent colour or a disposal, unless an extension has 249 bytes of data.\<close>

theorem control_blocks_never_bound:
  assumes "gif_parsed fmt v l g items = Some desc" and "no_long_extension items"
  shows "\<forall>f \<in> set (frames desc). fgce f = None"
  using items_no_gce [OF assms(1) [unfolded gif_parsed_def Let_def] assms(2) refl] by simp

section \<open>An image in a file of the file system\<close>

lemma file_bytes_less:
  assumes "file_ok fs fb lo hi"
  shows "length (file_bytes fs lo hi) < 2 ^ 63"
proof -
  have w: "wf_root (mnt fs)" using assms by (simp add: file_ok_def)
  have "nblk fs lo hi * blksz fs \<le> unat (nClusterItems (mnt fs)) * bsize (disk_env (mnt fs))"
    using wf_env_startup [of "confBlockSize (root (mnt fs))" "loc (mnt fs)"] w card_fam_le
    by (intro mult_le_mono) (simp_all add: nblk_def blksz_def disk_env_def wf_root_def)
  moreover have "unat (nClusterItems (mnt fs)) * bsize (disk_env (mnt fs)) < 2 ^ 63" using w by (simp add: wf_root_def)
  ultimately show ?thesis unfolding length_file_bytes diff_mult_distrib by linarith
qed

text \<open>What was written behind the metadata block is what the socket serves first.\<close>

lemma written_bytes:
  assumes "file_ok fs (fh_file h) lo hi" and "\<not> flag_check (attributes (fb_of fs (fh_file h))) fsreadonly"
    and "length data = unat n" and "n \<noteq> 0" and "write_fits fs h lo hi (unat n)" and "unat (progress h) = blksz fs"
  obtains fs' post where "fwrite now h n data fs = Some (n, h\<lparr>progress := progress h + n\<rparr>, fs')"
    "file_ok fs' (fh_file h) lo hi" "file_bytes fs' lo hi = data @ post"
proof -
  obtain fs' where w: "fwrite now h n data fs = Some (n, h\<lparr>progress := progress h + n\<rparr>, fs')"
    "file_ok fs' (fh_file h) lo hi" "root (mnt fs') = root (mnt fs)"
    "unat (progress h) + unat n \<le> nblk fs' lo hi * blksz fs"
    "\<And>i. i < unat n \<Longrightarrow> byte_is fs' lo hi (unat (progress h) + i) (data ! i)"
    using fwrite_ok [OF assms(1-5), of now] by blast
  have bs: "blksz fs' = blksz fs" using w(3) by (simp add: blksz_def)
  have "take (length data) (drop (blksz fs - blksz fs') (file_bytes fs' lo hi)) = data"
    using w(4,5) assms(3,6) by (intro file_bytes_slice [OF w(2)]) (simp_all add: bs)
  then have "file_bytes fs' lo hi = data @ drop (length data) (file_bytes fs' lo hi)" by (metis append_take_drop_id bs diff_self_eq_0 drop0)
  with w(1,2) that show thesis by blast
qed

lemma gif_of_file:
  assumes "file_ok fs (fh_file h) lo hi" and "file_bytes fs lo hi = enc_gif v l g items @ post" and "good_gif v l g items"
  shows "OpenGIF (sck_reader fs h clock) fmt = map_option Some (gif_parsed fmt v l g items)"
  by (rule byte_socket.OpenGIF_enc [OF sck_reader_socket [OF assms(1)] assms(2,3) file_bytes_less [OF assms(1)]])

text \<open>A file system with blocks of 64 bytes, and a picture of two by two pixels for a file of it.\<close>

definition gif_fs :: fsys where
  "gif_fs = \<lparr>mnt = boot_root\<lparr>root := (root boot_root)\<lparr>confBlockSize := 64\<rparr>\<rparr>, disk = replicate 461312 0\<rparr>"

definition demo_screen :: bytes where "demo_screen = [2, 0, 2, 0, 0x80, 0, 0]"
definition demo_colours :: bytes where "demo_colours = [0, 0, 0, 0x12, 0x34, 0x56]"
definition demo_descriptor :: bytes where "demo_descriptor = [0x2C, 0, 0, 0, 0, 2, 0, 2, 0, 0]"
definition demo_raster :: bytes where "demo_raster = [12, 18, 5]"
definition demo_blocks :: "bytes list" where "demo_blocks = [demo_raster, [0, 0, 0]]"

definition demo_gif :: bytes where
  "demo_gif = enc_gif [0x38, 0x39, 0x61] demo_screen demo_colours [Image demo_descriptor [] 2 demo_blocks]"

lemma demo_good: "good_gif [0x38, 0x39, 0x61] demo_screen demo_colours [Image demo_descriptor [] 2 demo_blocks]"
  by (simp add: good_gif_def demo_screen_def demo_colours_def demo_descriptor_def demo_blocks_def demo_raster_def map_size_def good_blocks_def)

lemma demo_raster_of:
  "raster_of (decode_ld demo_descriptor) 2 demo_blocks = Some [1, 0, 1, 1]"
  "spare_bytes (decode_ld demo_descriptor) 2 demo_blocks"
proof -
  have d: "dict_indices 2 4 [12, 18, 5, 0, 0, 0] = Some [1, 0, 1, 1]" "dict_indices 2 4 [12, 18, 5] = Some [1, 0, 1, 1]"
    by (simp_all add: dict_indices_def dict_loop.simps code_at_def dict_code_def dict_string_def Let_def gif_table_size_def)
  have n: "ImageWidth (decode_ld demo_descriptor) = 2" "ImageHeight (decode_ld demo_descriptor) = 2"
    by (simp_all add: decode_ld_def demo_descriptor_def rd_u16_def)
  have c: "concat demo_blocks = [12, 18, 5, 0, 0, 0]" "good_blocks demo_blocks"
    by (simp_all add: demo_blocks_def demo_raster_def good_blocks_def)
  show "raster_of (decode_ld demo_descriptor) 2 demo_blocks = Some [1, 0, 1, 1]"
    using d(1) by (simp add: raster_of_def n c Let_def)
  show "spare_bytes (decode_ld demo_descriptor) 2 demo_blocks"
    using d by (simp add: spare_bytes_def n c Let_def)
qed

lemma gif_fs_env: "disk_env (mnt gif_fs) = \<lparr>Partition = 2, CalcBlock = 1, ConfBlock = 64, RealBlock = 512\<rparr>"
  by (simp add: gif_fs_def disk_env_def boot_root_def startup_def DefaultRawDiskSize_def)

lemma gif_fs_root: "wf_root (mnt gif_fs)" "blksz gif_fs = 64" "clusterMap (mnt gif_fs) = clusterMap boot_root"
  "nClusterItems (mnt gif_fs) = nClusterItems boot_root" "disk gif_fs = replicate 461312 0" "fam (mnt gif_fs) 7 9 = {0}"
  "lastClusterAlloc (mnt gif_fs) = 0"
proof -
  show "wf_root (mnt gif_fs)"
    unfolding wf_root_def boff_def bsize_def gif_fs_env
    by (simp add: gif_fs_def boot_root_def DATAFIRST_def DATAFIRSTOFFSET_def CLUSTERMAPOFFSET_def LOGBLOCKOFFSET_def FRATROOTOFFSET_def)
  show "blksz gif_fs = 64" "clusterMap (mnt gif_fs) = clusterMap boot_root" "nClusterItems (mnt gif_fs) = nClusterItems boot_root"
    "disk gif_fs = replicate 461312 0" "lastClusterAlloc (mnt gif_fs) = 0"
    by (simp_all add: gif_fs_def boot_fs_def blksz_def boot_root_def)
  then show "fam (mnt gif_fs) 7 9 = {0}" using boot_fam by (simp add: fam_def)
qed

lemma gif_fs_data: "data_is gif_fs 0 (replicate 64 0)"
proof -
  have ok: "block_ok (disk_env (mnt gif_fs)) (getloc (mnt gif_fs) 0)"
    using getloc_block_ok [OF gif_fs_root(1), of 0] gif_fs_root(4) boot_items(1) by simp
  have g: "getloc (mnt gif_fs) 0 = 898"
    by (simp add: getloc_def safediv_def sizeof_fsblock_def gif_fs_def boot_root_def DATAFIRST_def DATAFIRSTOFFSET_def
        CLUSTERMAPOFFSET_def LOGBLOCKOFFSET_def FRATROOTOFFSET_def)
  have "boff (disk_env (mnt gif_fs)) (getloc (mnt gif_fs) 0) = 459776" "bsize (disk_env (mnt gif_fs)) = 512"
    by (simp_all add: boff_def bsize_def gif_fs_env g)
  then have "read_data_block gif_fs 0 = Some (replicate 512 0)"
    unfolding read_data_block_def block_ok_unfold(1) [OF ok] by (simp add: file_read_def gif_fs_root(5))
  then show ?thesis using gif_fs_root(2) by (simp add: data_is_def blksz_def)
qed

lemma gif_fs_ok: "file_ok gif_fs 0 7 9" "nblk gif_fs 7 9 = 1" "room (mnt gif_fs) = 2"
  "\<not> flag_check (attributes (fb_of gif_fs 0)) fsreadonly"
proof -
  have fb: "fb_of gif_fs 0 = clusterMap boot_root ! 0" by (simp add: fb_of_def gif_fs_root(3))
  have "contiguous (mnt gif_fs) 7 9"
    using gif_fs_root(3,6) by (simp add: contiguous_def bij_betw_def boot_root_def)
  then show "file_ok gif_fs 0 7 9"
    using gif_fs_root(1) gif_fs_data unfolding file_ok_def gif_fs_root(6)
    by (auto simp: fb) (simp_all add: boot_root_def fsattr_defs flag_defs)
  show "nblk gif_fs 7 9 = 1" by (simp add: nblk_def gif_fs_root(6))
  show "room (mnt gif_fs) = 2"
    using boot_room by (simp add: room_def gif_fs_root(3,4,7)) (simp add: boot_root_def)
  show "\<not> flag_check (attributes (fb_of gif_fs 0)) fsreadonly"
    by (simp add: fb) (simp add: boot_root_def fsattr_defs flag_defs)
qed

text \<open>C3: from a file to the screen.  A GIF file with one image and no extension is written by the tool into a
  file that is not read-only, from the position behind the metadata block on; the boot loader opens it
  through a socket on that file.  The image has a palette, its own or the global one, with all its indices,
  and the decoder of the format gives an index to each of its pixels; its raster is not longer than two
  bytes for each pixel, the buffer of the program, and its code size at most 11.  Then the boot loader finds one frame
  of the size of the image, and its frame buffer holds the colour of the palette for the index of each of
  the first \<open>k\<close> pixels, and the colour of index 0 for the others.  All pixels are there (\<open>k\<close> is their number)
  when the format does not need the last three bytes of the raster, which the program does not decode.
  The pixels are counted in the order of the raster: the program does not look at the interlace flag.
\<close>

theorem gif_written_then_shown:
  assumes "file_ok fs (fh_file h) lo hi" and "\<not> flag_check (attributes (fb_of fs (fh_file h))) fsreadonly"
    and "enc_gif v l g [Image d m c bs] = data" and "length data = unat n" and "n \<noteq> 0"
    and "write_fits fs h lo hi (unat n)" and "unat (progress h) = blksz fs"
    and "good_gif v l g [Image d m c bs]" and "raster_of (decode_ld d) c bs = Some idx"
    and "p = (if bit (d ! 9) 7 then m else g)" and "bit (d ! 9) 7 \<or> bit (l ! 4) 7" and "in_palette p idx"
  shows "\<exists>fs' h' desc frame k. fwrite now h n data fs = Some (n, h', fs')
    \<and> OpenGIF (sck_reader fs' h' clock) fmt = Some (Some desc) \<and> frames desc = [frame]
    \<and> ffb frame = Some (map (palette_colour fmt p) (take k idx @ replicate (length idx - k) 0))
    \<and> k \<le> length idx \<and> (spare_bytes (decode_ld d) c bs \<longrightarrow> k = length idx)
    \<and> fdims frame = Some (ucast (ImageWidth (decode_ld d)), ucast (ImageHeight (decode_ld d)))"
proof -
  let ?h = "h\<lparr>progress := progress h + n\<rparr>"
  obtain fs' post where w: "fwrite now h n data fs = Some (n, ?h, fs')" "file_ok fs' (fh_file h) lo hi"
    "file_bytes fs' lo hi = data @ post"
    using written_bytes [OF assms(1,2,4-7), of now] by blast
  have "OpenGIF (sck_reader fs' ?h clock) fmt = map_option Some (gif_parsed fmt v l g [Image d m c bs])"
    using w(2,3) assms(3) by (intro gif_of_file [OF _ _ assms(8), of _ _ lo hi post]) simp_all
  then show ?thesis using w(1) single_image [OF assms(8-12), of fmt] unfolding decoded_part_def by auto
qed

theorem gif_written_then_shown_witness:
  "\<exists>fs' h' desc frame. fwrite (0, 0) \<lparr>fh_file = 0, progress = 64\<rparr> 40 demo_gif gif_fs = Some (40, h', fs')
    \<and> OpenGIF (sck_reader fs' h' None) PixelBlueGreenRedReserved8BitPerColor = Some (Some desc) \<and> frames desc = [frame]
    \<and> ffb frame = Some [0xFF123456, 0xFF000000, 0xFF123456, 0xFF123456] \<and> fdims frame = Some (2, 2)"
proof -
  let ?h = "\<lparr>fh_file = 0, progress = 64\<rparr> :: fhandle" and ?fmt = PixelBlueGreenRedReserved8BitPerColor
  have len: "length demo_gif = 40"
    by (simp add: demo_gif_def enc_gif_def demo_screen_def demo_colours_def demo_descriptor_def demo_blocks_def demo_raster_def enc_blocks_def)
  have bits: "\<not> bit (demo_descriptor ! 9) 7" "bit (demo_screen ! 4) 7" by (simp_all add: demo_descriptor_def demo_screen_def)
  have px: "map (palette_colour ?fmt demo_colours) [1, 0, 1, 1] = [0xFF123456, 0xFF000000, 0xFF123456, 0xFF123456]"
    by (simp add: palette_colour_def demo_colours_def)
  have dims: "ImageWidth (decode_ld demo_descriptor) = 2" "ImageHeight (decode_ld demo_descriptor) = 2"
    by (simp_all add: decode_ld_def demo_descriptor_def rd_u16_def)
  have "write_fits gif_fs ?h 7 9 (unat (40 :: u64))" by (simp add: write_fits_def gif_fs_root(2) gif_fs_ok)
  moreover have "in_palette demo_colours [1, 0, 1, 1]" by (simp add: in_palette_def demo_colours_def)
  ultimately show ?thesis
    using gif_written_then_shown [of gif_fs ?h 7 9 "[0x38, 0x39, 0x61]" demo_screen demo_colours demo_descriptor "[]" 2 demo_blocks
        demo_gif 40 "[1, 0, 1, 1]" demo_colours "(0, 0)" None ?fmt]
      gif_fs_ok gif_fs_root(2) len bits demo_good demo_raster_of px dims by (simp add: demo_gif_def)
qed

end
