(* ===== verification/Boot_Bmp.thy ===== *)
theory Boot_Bmp
  imports Boot_Gif
begin

text \<open>
  The bitmap reader of the boot screen (\<^verbatim>\<open>drivers/bmp/bmp.c\<close>, \<^verbatim>\<open>bmp.h\<close>): reading the headers through a
  socket and turning the rows of the file into 32-bit pixels.  A read or a write outside a buffer gives
  \<open>None\<close>.
\<close>

section \<open>The headers\<close>

definition sizeof_BMPHeader :: nat where "sizeof_BMPHeader = 14"

text \<open>The end points take 32 bytes in the structure, where the file format has 36.\<close>

definition sizeof_BITMAPV5HEADER :: nat where "sizeof_BITMAPV5HEADER = 40 + 16 + 4 + 32 + 12 + 4 + 12"

definition BITMAPCOREHEADER :: u32 where "BITMAPCOREHEADER = 0x0C"
definition BITMAPINFOHEADER :: u32 where "BITMAPINFOHEADER = 0x28"
definition BITMAPV4HEADER :: u32 where "BITMAPV4HEADER = 0x6C"
definition BITMAPV5HEADER :: u32 where "BITMAPV5HEADER = 0x7C"

record bmp =
  bmpType :: u32
  bmpCore :: bytes
  ImageData :: "bytes option"
  Pixels :: "u32 list option"
  bmpWidth :: u32
  bmpHeight :: u32
  PixelSize :: u32

text \<open>The dimensions and the bytes of a pixel, by the type of the header.\<close>

definition bytes_of_bits :: "u16 \<Rightarrow> u32" where
  "bytes_of_bits b = (ucast b + 7) div 8"

definition bmp_dims :: "u32 \<Rightarrow> bytes \<Rightarrow> u32 \<times> u32 \<times> u32" where
  "bmp_dims ty core =
    (if ty = BITMAPCOREHEADER then (ucast (rd_u16 core 4), ucast (rd_u16 core 6), bytes_of_bits (rd_u16 core 10))
     else if ty = BITMAPINFOHEADER \<or> ty = BITMAPV4HEADER \<or> ty = BITMAPV5HEADER
          then (rd_u32 core 4, rd_u32 core 8, bytes_of_bits (rd_u16 core 14))
     else (0, 0, 0))"

section \<open>The pixels\<close>

definition abs_height :: "u32 \<Rightarrow> u32" where
  "abs_height h = (if sint h < 0 then - h else h)"

definition row_stride :: "u32 \<Rightarrow> u32 \<Rightarrow> u32" where
  "row_stride width bpp = (width * bpp + 3) AND NOT 3"

definition byte_at :: "bytes \<Rightarrow> nat \<Rightarrow> u8 option" where
  "byte_at bs i = (if i < length bs then Some (bs ! i) else None)"

text \<open>Red, green, blue and alpha of pixel \<open>x\<close> of the row that starts at byte \<open>srcRow\<close>.\<close>

definition bmp_channels :: "bytes \<Rightarrow> nat \<Rightarrow> u32 \<Rightarrow> u32 \<Rightarrow> (u8 \<times> u8 \<times> u8 \<times> u8) option" where
  "bmp_channels srcBytes srcRow bpp x =
    (if bpp = 3 then do {
       b \<leftarrow> byte_at srcBytes (srcRow + unat (x * 3)); g \<leftarrow> byte_at srcBytes (srcRow + unat (x * 3 + 1));
       r \<leftarrow> byte_at srcBytes (srcRow + unat (x * 3 + 2)); Some (r, g, b, 0xFF) }
     else if bpp = 4 then do {
       b \<leftarrow> byte_at srcBytes (srcRow + unat (x * 4)); g \<leftarrow> byte_at srcBytes (srcRow + unat (x * 4 + 1));
       r \<leftarrow> byte_at srcBytes (srcRow + unat (x * 4 + 2)); a \<leftarrow> byte_at srcBytes (srcRow + unat (x * 4 + 3)); Some (r, g, b, a) }
     else if bpp = 1 then do { g \<leftarrow> byte_at srcBytes (srcRow + unat x); Some (g, g, g, 0xFF) }
     else Some (0, 0, 0, 0xFF))"

definition bmp_colour :: "pixel_format \<Rightarrow> u8 \<times> u8 \<times> u8 \<times> u8 \<Rightarrow> u32" where
  "bmp_colour PixelFormat rgba =
    (case rgba of (r, g, b, a) \<Rightarrow>
       if PixelFormat = PixelRedGreenBlueReserved8BitPerColor
       then push_bit 24 (ucast a) OR push_bit 16 (ucast b) OR push_bit 8 (ucast g) OR ucast r
       else push_bit 24 (ucast a) OR push_bit 16 (ucast r) OR push_bit 8 (ucast g) OR ucast b)"

text \<open>The two loops, over the pixels that are left.\<close>

fun format_pixels ::
  "pixel_format \<Rightarrow> bytes \<Rightarrow> u32 \<Rightarrow> u32 \<Rightarrow> bool \<Rightarrow> u32 \<Rightarrow> (nat \<times> nat) list \<Rightarrow> u32 list \<Rightarrow> u32 list option" where
  "format_pixels fmt srcBytes width bpp bottomUp absHeight [] dst = Some dst"
| "format_pixels fmt srcBytes width bpp bottomUp absHeight ((x, y) # k) dst =
    (let srcY = (if bottomUp then absHeight - 1 - of_nat y else of_nat y);
         srcRow = unat (srcY * row_stride width bpp); i = unat (of_nat y * width :: u32) + x
     in do {
       rgba \<leftarrow> bmp_channels srcBytes srcRow bpp (of_nat x);
       (if i < length dst then format_pixels fmt srcBytes width bpp bottomUp absHeight k (dst[i := bmp_colour fmt rgba]) else None)
     })"

definition FormatBMPImageData :: "bmp \<Rightarrow> pixel_format \<Rightarrow> bmp option" where
  "FormatBMPImageData b PixelFormat =
    (case ImageData b of
       None \<Rightarrow> Some b
     | Some srcBytes \<Rightarrow>
         if bmpWidth b = 0 \<or> bmpHeight b = 0 then Some b
         else
           let absHeight = abs_height (bmpHeight b); width = bmpWidth b in
           if width * absHeight = 0 then Some b
           else do {
             dst \<leftarrow> format_pixels PixelFormat srcBytes width (PixelSize b) (sint (bmpHeight b) > 0) absHeight
                (frame_pixels_of (unat width) (unat absHeight)) (replicate (unat (width * absHeight)) 0);
             Some (b\<lparr>Pixels := Some dst, PixelSize := 4, bmpHeight := absHeight\<rparr>)
           })"

text \<open>\<open>Some None\<close> is the null pointer.  The copy of the header reads as many bytes as its type says.\<close>

definition OpenBMP :: "reader \<Rightarrow> pixel_format \<Rightarrow> bmp option option" where
  "OpenBMP rd PixelFormat =
    (let n = of_nat (sizeof_BMPHeader + sizeof_BITMAPV5HEADER); rt = rd 0 n
     in if socketreterr rt n then Some None
        else
          let d = the (sdata rt); core = drop sizeof_BMPHeader d; ty = rd_u32 core 0
          in if d ! 0 = 0x42 \<and> d ! 1 = 0x4D then
               (if unat ty > length core then None
                else
                  let (width, height, size) = bmp_dims ty (take (unat ty) core);
                      totalBytes = row_stride width size * abs_height height;
                      rt2 = rd (ucast (rd_u32 d 10)) (ucast totalBytes)
                  in map_option Some
                       (FormatBMPImageData \<lparr>bmpType = ty, bmpCore = take (unat ty) core, ImageData = sdata rt2, Pixels = None,
                          bmpWidth = width, bmpHeight = height, PixelSize = size\<rparr> PixelFormat))
             else Some None)"

section \<open>What the rows give\<close>

text \<open>The channels of the pixel whose bytes begin at \<open>q\<close>.\<close>

definition channels_at :: "bytes \<Rightarrow> u32 \<Rightarrow> nat \<Rightarrow> u8 \<times> u8 \<times> u8 \<times> u8" where
  "channels_at bs bpp q =
    (if bpp = 3 then (bs ! (q + 2), bs ! (q + 1), bs ! q, 0xFF)
     else if bpp = 4 then (bs ! (q + 2), bs ! (q + 1), bs ! q, bs ! (q + 3))
     else (bs ! q, bs ! q, bs ! q, 0xFF))"

definition stride_of :: "nat \<Rightarrow> nat \<Rightarrow> nat" where
  "stride_of w n = (w * n + 3) div 4 * 4"

lemma unat_and_not_3: "unat (a AND NOT 3 :: u32) = unat a div 4 * 4"
proof -
  have "a AND NOT (mask 2) = push_bit 2 (drop_bit 2 a)" by (rule bit_word_eqI) (auto simp: bit_simps not_less le_iff_add)
  moreover have "(mask 2 :: u32) = 3" by (simp add: mask_eq_exp_minus_1)
  moreover have "unat a div 4 * 4 < 2 ^ 32"
    using div_times_less_eq_dividend [of "unat a" 4] unsigned_less [of a, where 'a = nat] by (rule_tac le_less_trans) simp_all
  ultimately show ?thesis
    by (simp add: push_bit_eq_mult drop_bit_eq_div unat_word_ariths unat_div)
qed

lemma row_stride_unat:
  assumes "unat w * unat n + 3 < 2 ^ 32"
  shows "unat (row_stride w n) = stride_of (unat w) (unat n)"
proof -
  have "unat (w * n + 3) = unat w * unat n + 3" using assms by (simp add: unat_add_small unat_mult_small)
  then show ?thesis unfolding row_stride_def stride_of_def unat_and_not_3 by simp
qed

lemma channels_in:
  assumes "n = 1 \<or> n = 3 \<or> n = 4" and "x * unat n + unat n < 2 ^ 32" and "srcRow + x * unat n + unat n \<le> length bs"
  shows "bmp_channels bs srcRow n (of_nat x) = Some (channels_at bs n (srcRow + x * unat n))"
proof -
  have u: "unat (of_nat m :: u32) = m" if "m < 2 ^ 32" for m using that by (simp add: unat_of_nat)
  have un: "unat (1 :: u32) = 1" "unat (3 :: u32) = 3" "unat (4 :: u32) = 4" by simp_all
  have m: "unat (of_nat x * of_nat a + of_nat k :: u32) = x * a + k" if "x * a + k < 2 ^ 32" for a k
    using u [OF that] by simp
  from assms(1) show ?thesis
  proof (elim disjE)
    assume n: "n = 1"
    then show ?thesis using assms(2,3) u [of x] by (simp add: bmp_channels_def channels_at_def byte_at_def un)
  next
    assume n: "n = 3"
    have "x * 3 + 3 < 2 ^ 32" "srcRow + x * 3 + 3 \<le> length bs" using assms(2,3) unfolding n un by simp_all
    then show ?thesis using m [of 3 0] m [of 3 1] m [of 3 2] unfolding n un
      by (simp add: bmp_channels_def channels_at_def byte_at_def add.assoc)
  next
    assume n: "n = 4"
    have "x * 4 + 4 < 2 ^ 32" "srcRow + x * 4 + 4 \<le> length bs" using assms(2,3) unfolding n un by simp_all
    then show ?thesis using m [of 4 0] m [of 4 1] m [of 4 2] m [of 4 3] unfolding n un
      by (simp add: bmp_channels_def channels_at_def byte_at_def add.assoc)
  qed
qed

lemma format_pixels_fold:
  assumes "\<And>x y. (x, y) \<in> set ks \<Longrightarrow>
      bmp_channels bs (unat ((if bu then ah - 1 - of_nat y else of_nat y) * row_stride w n)) n (of_nat x) = Some (ch (x, y))"
    and "\<And>x y. (x, y) \<in> set ks \<Longrightarrow> unat (of_nat y * w :: u32) + x = ix (x, y) \<and> ix (x, y) < length dst"
  shows "format_pixels fmt bs w n bu ah ks dst = Some (fold (\<lambda>k d. d[ix k := bmp_colour fmt (ch k)]) ks dst)"
  using assms
proof (induction ks arbitrary: dst)
  case (Cons k ks)
  obtain x y where k: "k = (x, y)" by (cases k)
  have "unat (of_nat y * w :: u32) + x = ix k" "ix k < length dst" using Cons.prems(2) [of x y] k by simp_all
  then show ?case
    using Cons.prems Cons.IH [of "dst[ix k := bmp_colour fmt (ch k)]"] unfolding k by (simp add: Let_def)
qed simp

text \<open>The position of the bytes of pixel \<open>(x, y)\<close> in the rows of the file.\<close>

definition pixel_source :: "bool \<Rightarrow> nat \<Rightarrow> nat \<Rightarrow> nat \<Rightarrow> nat \<Rightarrow> nat \<Rightarrow> nat" where
  "pixel_source bottomUp w h n x y = (if bottomUp then h - 1 - y else y) * stride_of w n + x * n"

lemma formatted_pixels:
  assumes n: "n = 1 \<or> n = 3 \<or> n = 4" and w: "0 < unat w" and h: "0 < unat ah" and d: "ImageData b = Some bs"
    and len: "stride_of (unat w) (unat n) * unat ah \<le> length bs" "stride_of (unat w) (unat n) * unat ah < 2 ^ 32"
    and wn: "unat w * unat n + 3 < 2 ^ 32" and wh: "unat w * unat ah < 2 ^ 32"
    and b: "bmpWidth b = w" "abs_height (bmpHeight b) = ah" "PixelSize b = n" "bu = (sint (bmpHeight b) > 0)"
  shows "\<exists>px. FormatBMPImageData b fmt = Some (b\<lparr>Pixels := Some px, PixelSize := 4, bmpHeight := ah\<rparr>) \<and> length px = unat w * unat ah
    \<and> (\<forall>x < unat w. \<forall>y < unat ah. px ! (y * unat w + x)
          = bmp_colour fmt (channels_at bs n (pixel_source bu (unat w) (unat ah) (unat n) x y)))"
proof -
  let ?W = "unat w" and ?H = "unat ah" and ?N = "unat n" and ?S = "stride_of (unat w) (unat n)"
  let ?ks = "frame_pixels_of ?W ?H"
  define ch ix where "ch k = channels_at bs n (pixel_source bu ?W ?H ?N (fst k) (snd k))" and "ix k = snd k * ?W + fst k" for k :: "nat \<times> nat"
  have S: "unat (row_stride w n) = ?S" by (rule row_stride_unat [OF wn])
  have wS: "?W * ?N \<le> ?S" by (simp add: stride_of_def)
  have uw: "unat (of_nat m :: u32) = m" if "m \<le> ?H" for m
    using that unsigned_less [of ah, where 'a = nat] by (simp add: unat_of_nat)
  have row: "unat ((if bu then ah - 1 - of_nat y else of_nat y) * row_stride w n) = (if bu then ?H - 1 - y else y) * ?S"
    "(if bu then ?H - 1 - y else y) * ?S + ?S \<le> ?S * ?H" if "y < ?H" for y
  proof -
    have v: "unat (if bu then ah - 1 - of_nat y else of_nat y) = (if bu then ?H - 1 - y else y)"
      using that h uw [of y] by (simp add: unat_sub_small)
    have "(if bu then ?H - 1 - y else y) + 1 \<le> ?H" using that by auto
    then have "((if bu then ?H - 1 - y else y) + 1) * ?S \<le> ?H * ?S" by (rule mult_le_mono1)
    then show r: "(if bu then ?H - 1 - y else y) * ?S + ?S \<le> ?S * ?H" by (simp add: algebra_simps)
    have "(if bu then ?H - 1 - y else y) * ?S < 2 ^ 32" using r len(2) by linarith
    then have "unat (if bu then ah - 1 - of_nat y else of_nat y) * unat (row_stride w n) < 2 ^ LENGTH(32)" unfolding v S by simp
    from unat_mult_small [OF this] show "unat ((if bu then ah - 1 - of_nat y else of_nat y) * row_stride w n) = (if bu then ?H - 1 - y else y) * ?S"
      unfolding v S .
  qed
  have "bmp_channels bs (unat ((if bu then ah - 1 - of_nat y else of_nat y) * row_stride w n)) n (of_nat x) = Some (ch (x, y))"
    "unat (of_nat y * w :: u32) + x = ix (x, y) \<and> ix (x, y) < length (replicate (unat (w * ah)) (0 :: u32))"
    if "(x, y) \<in> set ?ks" for x y
  proof -
    have xy: "x < ?W" "y < ?H" using that by (simp_all add: set_frame_pixels)
    have "(x + 1) * ?N \<le> ?W * ?N" using xy(1) by (intro mult_le_mono1) simp
    then have x: "x * ?N + ?N \<le> ?W * ?N" by simp
    show "bmp_channels bs (unat ((if bu then ah - 1 - of_nat y else of_nat y) * row_stride w n)) n (of_nat x) = Some (ch (x, y))"
      unfolding row(1) [OF xy(2)] ch_def fst_conv snd_conv pixel_source_def
      using x wS wn row(2) [OF xy(2)] len(1) by (intro channels_in [OF n]) linarith+
    have "(y + 1) * ?W \<le> ?H * ?W" using xy(2) by (intro mult_le_mono1) simp
    then have "y * ?W + x < ?W * ?H" using xy(1) by (simp add: mult.commute)
    moreover from this have "unat (of_nat y * w :: u32) = y * ?W" using wh xy(2) uw [of y] by (subst unat_mult_small) simp_all
    ultimately show "unat (of_nat y * w :: u32) + x = ix (x, y) \<and> ix (x, y) < length (replicate (unat (w * ah)) (0 :: u32))"
      using wh by (simp add: ix_def unat_mult_small)
  qed
  note chan = this(1) and idx = this(2)
  define put where "put k d = d[ix k := bmp_colour fmt (ch k)]" for k and d :: "u32 list"
  define px where "px = fold put ?ks (replicate (unat (w * ah)) 0)"
  have uwh: "unat (w * ah) = ?W * ?H" using wh by (simp add: unat_mult_small)
  have "0 < ?W * ?H" using w h by simp
  then have "w * ah \<noteq> 0" using uwh by (metis less_irrefl unat_0)
  moreover have "w \<noteq> 0" "bmpHeight b \<noteq> 0" using w h b(2) by (auto simp: abs_height_def)
  moreover have "format_pixels fmt bs w n bu ah ?ks (replicate (unat (w * ah)) 0) = Some px"
    using format_pixels_fold [where fmt = fmt, OF chan idx] by (simp add: px_def put_def [abs_def])
  ultimately have F: "FormatBMPImageData b fmt = Some (b\<lparr>Pixels := Some px, PixelSize := 4, bmpHeight := ah\<rparr>)"
    using d b by (simp add: FormatBMPImageData_def Let_def)
  have inj: "inj_on ix {k \<in> set ?ks. Some (bmp_colour fmt (ch k)) \<noteq> None}"
  proof (rule inj_onI)
    fix k l assume k: "k \<in> {k \<in> set ?ks. Some (bmp_colour fmt (ch k)) \<noteq> None}"
      and l: "l \<in> {k \<in> set ?ks. Some (bmp_colour fmt (ch k)) \<noteq> None}" and e: "ix k = ix l"
    have "fst k < ?W" "fst l < ?W" using k l by (auto simp: set_frame_pixels)
    from row_major [OF this e [unfolded ix_def]] show "k = l" by (simp add: prod_eq_iff)
  qed
  have "length px = ?W * ?H \<and> px ! (y * ?W + x) = bmp_colour fmt (ch (x, y))" if "x < ?W" "y < ?H" for x y
  proof -
    have k: "(x, y) \<in> set ?ks" using that by (simp add: set_frame_pixels)
    then have i: "y * ?W + x < length (replicate (unat (w * ah)) (0 :: u32))" using idx [OF k] by (simp add: ix_def)
    have "l = (x, y)" if "l \<in> set ?ks" "ix l = y * ?W + x" for l
      using row_major [of "fst l" ?W x "snd l" y] that \<open>x < ?W\<close> by (auto simp: ix_def set_frame_pixels prod_eq_iff)
    then have f: "List.find (\<lambda>l. Some (bmp_colour fmt (ch l)) \<noteq> None \<and> ix l = y * ?W + x) ?ks = Some (x, y)"
      by (intro find_unique [OF k]) (simp_all add: ix_def)
    have "put k c = (case Some (bmp_colour fmt (ch k)) of None \<Rightarrow> c | Some v \<Rightarrow> c[ix k := v])" for k c by (simp add: put_def)
    from put_fold [of put ix "\<lambda>k. Some (bmp_colour fmt (ch k))", OF this distinct_frame_pixels inj i]
    show ?thesis unfolding px_def f using uwh by simp
  qed
  note px = this
  have "length px = ?W * ?H" using px [OF w h] by blast
  then show ?thesis using F px by (auto simp: ch_def)
qed

lemma channels_slice:
  assumes "n = 1 \<or> n = 3 \<or> n = 4" and "q + unat n \<le> t" and "p + t \<le> length bs"
  shows "channels_at (take t (drop p bs)) n q = channels_at bs n (p + q)"
proof -
  have "(take t (drop p bs)) ! (q + i) = bs ! (p + q + i)" if "i < unat n" for i
    using that assms(2,3) by (simp add: ac_simps)
  note nth = this
  from assms(1) show ?thesis
  proof (elim disjE)
    assume "n = 1"
    then show ?thesis using nth [of 0] by (simp add: channels_at_def)
  next
    assume n: "n = 3"
    then have "unat n = 3" by simp
    then show ?thesis using nth [of 0] nth [of 1] nth [of 2] by (simp add: n channels_at_def)
  next
    assume n: "n = 4"
    then have "unat n = 4" by simp
    then show ?thesis using nth [of 0] nth [of 1] nth [of 2] nth [of 3] by (simp add: n channels_at_def)
  qed
qed

lemma pixel_source_in:
  assumes "x < w" and "y < h"
  shows "pixel_source bu w h n x y + n \<le> stride_of w n * h"
proof -
  have "(if bu then h - 1 - y else y) + 1 \<le> h" using assms(2) by auto
  then have "((if bu then h - 1 - y else y) + 1) * stride_of w n \<le> h * stride_of w n" by (rule mult_le_mono1)
  moreover have "(x + 1) * n \<le> w * n" using assms(1) by (intro mult_le_mono1) simp
  moreover have "w * n \<le> stride_of w n" by (simp add: stride_of_def)
  ultimately show ?thesis unfolding pixel_source_def by (simp add: algebra_simps)
qed

text \<open>The header of a file as the program reads it, and the row data behind it.\<close>

definition bmp_readable :: "bytes \<Rightarrow> u32 \<Rightarrow> u32 \<Rightarrow> u32 \<Rightarrow> bool" where
  "bmp_readable content w h n =
    (sizeof_BMPHeader + sizeof_BITMAPV5HEADER \<le> length content \<and> content ! 0 = 0x42 \<and> content ! 1 = 0x4D
     \<and> unat (rd_u32 content 14) \<le> sizeof_BITMAPV5HEADER
     \<and> bmp_dims (rd_u32 content 14) (take (unat (rd_u32 content 14)) (drop 14 content)) = (w, h, n)
     \<and> (n = 1 \<or> n = 3 \<or> n = 4) \<and> 0 < unat w \<and> 0 < unat (abs_height h) \<and> unat w * unat n + 3 < 2 ^ 32
     \<and> stride_of (unat w) (unat n) * unat (abs_height h) < 2 ^ 32 \<and> unat w * unat (abs_height h) < 2 ^ 32
     \<and> unat (rd_u32 content 10) + stride_of (unat w) (unat n) * unat (abs_height h) \<le> length content)"

lemma readable_pixels:
  assumes sck: "byte_socket rd content" and good: "bmp_readable content w h n"
  shows "\<exists>b px. OpenBMP rd fmt = Some (Some b) \<and> bmpWidth b = w \<and> bmpHeight b = abs_height h \<and> PixelSize b = 4
    \<and> Pixels b = Some px \<and> length px = unat w * unat (abs_height h)
    \<and> (\<forall>x < unat w. \<forall>y < unat (abs_height h). px ! (y * unat w + x) =
         bmp_colour fmt (channels_at content n (unat (rd_u32 content 10)
           + pixel_source (sint h > 0) (unat w) (unat (abs_height h)) (unat n) x y)))"
proof -
  let ?ty = "rd_u32 content 14" and ?o = "rd_u32 content 10" and ?ah = "abs_height h"
  let ?t = "stride_of (unat w) (unat n) * unat ?ah"
  have f: "134 \<le> length content" "content ! 0 = 0x42" "content ! 1 = 0x4D" "unat ?ty \<le> 120"
    "bmp_dims ?ty (take (unat ?ty) (drop 14 content)) = (w, h, n)" "n = 1 \<or> n = 3 \<or> n = 4" "0 < unat w" "0 < unat ?ah"
    "unat w * unat n + 3 < 2 ^ 32" "?t < 2 ^ 32" "unat w * unat ?ah < 2 ^ 32" "unat ?o + ?t \<le> length content"
    using good by (simp_all add: bmp_readable_def sizeof_BMPHeader_def sizeof_BITMAPV5HEADER_def)
  have n134: "(of_nat (sizeof_BMPHeader + sizeof_BITMAPV5HEADER) :: u64) = 134"
    by (simp add: sizeof_BMPHeader_def sizeof_BITMAPV5HEADER_def)
  have r1: "\<not> socketreterr (rd 0 134) 134" "sdata (rd 0 134) = Some (take 134 content)"
    using byte_socket.read_fine [OF sck, of 134 0] byte_socket.read_data [OF sck, of 134 0] f(1) by simp_all
  have hdr: "take 134 content ! 0 = 0x42" "take 134 content ! 1 = 0x4D" "rd_u32 (take 134 content) 10 = ?o"
    "drop 14 (take 134 content) = take 120 (drop 14 content)" "rd_u32 (take 120 (drop 14 content)) 0 = ?ty"
    using f(2,3) by (simp_all add: rd_u32_def drop_take min_def)
  have core: "length (take 120 (drop 14 content)) = 120" using f(1) by simp
  have take_ty: "take (unat ?ty) (take 120 (drop 14 content)) = take (unat ?ty) (drop 14 content)" using f(4) by (simp add: min_def)
  have total: "unat (ucast (row_stride w n * ?ah) :: u64) = ?t"
  proof -
    have "unat (row_stride w n * ?ah) = ?t" using f(10) row_stride_unat [OF f(9)] by (simp add: unat_mult_small)
    then show ?thesis using f(10) by (simp add: unsigned_ucast_eq take_bit_eq_mod)
  qed
  have off: "unat (ucast ?o :: u64) = unat ?o"
    using unsigned_less [of ?o, where 'a = nat] by (simp add: unsigned_ucast_eq take_bit_eq_mod)
  have "0 < unat w * unat n" using f(6,7) by auto
  then have "?t \<noteq> 0" using f(8) by (simp add: stride_of_def div_eq_0_iff)
  then have t0: "(ucast (row_stride w n * ?ah) :: u64) \<noteq> 0" using total by (metis unat_0)
  let ?bs = "take ?t (drop (unat ?o) content)"
  have r2: "sdata (rd (ucast ?o) (ucast (row_stride w n * ?ah))) = Some ?bs"
    using byte_socket.read_data [OF sck, of "ucast (row_stride w n * ?ah)" "ucast ?o"] f(12) t0 unfolding total off by simp
  define b where "b = \<lparr>bmpType = ?ty, bmpCore = take (unat ?ty) (drop 14 content), ImageData = Some ?bs, Pixels = None,
                          bmpWidth = w, bmpHeight = h, PixelSize = n\<rparr>"
  have "OpenBMP rd fmt = map_option Some (FormatBMPImageData b fmt)"
    unfolding OpenBMP_def n134 Let_def using r1 hdr core take_ty f(4,5) r2 by (simp add: sizeof_BMPHeader_def b_def)
  moreover have "length ?bs = ?t" using f(12) by simp
  then obtain px where px: "FormatBMPImageData b fmt = Some (b\<lparr>Pixels := Some px, PixelSize := 4, bmpHeight := ?ah\<rparr>)"
    "length px = unat w * unat ?ah"
    "\<And>x y. x < unat w \<Longrightarrow> y < unat ?ah \<Longrightarrow> px ! (y * unat w + x)
        = bmp_colour fmt (channels_at ?bs n (pixel_source (sint h > 0) (unat w) (unat ?ah) (unat n) x y))"
    using formatted_pixels [OF f(6-8), where b = b and bs = ?bs and fmt = fmt and bu = "sint h > 0"] f(9-11) by (auto simp: b_def)
  moreover have "channels_at ?bs n (pixel_source (sint h > 0) (unat w) (unat ?ah) (unat n) x y)
      = channels_at content n (unat ?o + pixel_source (sint h > 0) (unat w) (unat ?ah) (unat n) x y)"
    if "x < unat w" "y < unat ?ah" for x y
    by (rule channels_slice [OF f(6) pixel_source_in [OF that] f(12)])
  ultimately show ?thesis by (auto simp: b_def)
qed

section \<open>The file format\<close>

text \<open>
  The layout of the format: little-endian fields; the width, the signed height and the bits of a pixel
  of a bitmap that is not compressed, with a header of 12, 40 or 108 bytes; and the length of a row, which
  is padded to four bytes.
\<close>

definition field :: "bytes \<Rightarrow> nat \<Rightarrow> nat \<Rightarrow> nat" where
  "field content off k = le_nat (take k (drop off content))"

definition signed_field :: "bytes \<Rightarrow> nat \<Rightarrow> int" where
  "signed_field content off =
    (let v = field content off 4 in if v < 2 ^ 31 then int v else int v - 2 ^ 32)"

definition bmp_layout :: "bytes \<Rightarrow> (nat \<times> int \<times> nat) option" where
  "bmp_layout content =
    (let hsize = field content 14 4 in
     if hsize = 12 then Some (field content 18 2, int (field content 20 2), field content 24 2)
     else if (hsize = 40 \<or> hsize = 108) \<and> field content 30 4 = 0
          then Some (field content 18 4, signed_field content 22, field content 28 2)
     else None)"

definition row_bytes :: "nat \<Rightarrow> nat \<Rightarrow> nat" where
  "row_bytes w bits = (w * bits + 31) div 32 * 4"

text \<open>A file of 24 or 32 bits for each pixel that holds all of its rows, whose numbers fit into 32 bits.\<close>

definition bmp_file :: "bytes \<Rightarrow> nat \<Rightarrow> int \<Rightarrow> nat \<Rightarrow> bool" where
  "bmp_file content w h bits =
    (134 \<le> length content \<and> take 2 content = [0x42, 0x4D] \<and> bmp_layout content = Some (w, h, bits)
     \<and> (bits = 24 \<or> bits = 32) \<and> 0 < w \<and> h \<noteq> 0 \<and> row_bytes w bits * nat \<bar>h\<bar> < 2 ^ 32
     \<and> field content 10 4 + row_bytes w bits * nat \<bar>h\<bar> \<le> length content)"

definition bmp_pixel :: "bytes \<Rightarrow> nat \<Rightarrow> int \<Rightarrow> nat \<Rightarrow> nat \<Rightarrow> nat \<Rightarrow> u8 \<times> u8 \<times> u8 \<times> u8" where
  "bmp_pixel content w h bits x y =
    (let row = (if h > 0 then nat h - 1 - y else y);
         q = field content 10 4 + row * row_bytes w bits + x * (bits div 8)
     in (content ! (q + 2), content ! (q + 1), content ! q, if bits = 32 then content ! (q + 3) else 0xFF))"

lemma field_less: "field content off k < 256 ^ k"
proof -
  have "le_nat (take k (drop off content)) < 256 ^ length (take k (drop off content))" by (rule le_nat_less)
  also have "\<dots> \<le> 256 ^ k" by (rule power_increasing) simp_all
  finally show ?thesis by (simp add: field_def)
qed

lemma rd_field:
  "rd_u32 content off = of_nat (field content off 4)" "unat (rd_u32 content off) = field content off 4"
  "rd_u16 content off = of_nat (field content off 2)" "unat (rd_u16 content off) = field content off 2"
proof -
  have "field content off 4 < 2 ^ 32" "field content off 2 < 2 ^ 16"
    using field_less [of content off 4] field_less [of content off 2] by simp_all
  then show "unat (rd_u32 content off) = field content off 4" "unat (rd_u16 content off) = field content off 2"
    by (simp_all add: rd_u32_def rd_u16_def field_def unat_of_nat)
qed (simp_all add: rd_u32_def rd_u16_def field_def)

lemma core_field: "off + k \<le> n \<Longrightarrow> field (take n (drop p content)) off k = field content (p + off) k"
  by (simp add: field_def drop_take min_def add.commute)

lemma wide_u16: "(ucast (x :: u16) :: u32) = of_nat (unat x)"
  by (simp add: word_unat_eq_iff unsigned_ucast_eq unat_of_nat)

lemma height_word:
  assumes "- (2 ^ 31) \<le> h" and "h < 2 ^ 31" and "h \<noteq> 0"
  shows "sint (word_of_int h :: u32) = h" and "unat (abs_height (word_of_int h)) = nat \<bar>h\<bar>"
proof -
  show s: "sint (word_of_int h :: u32) = h"
    using assms by (simp add: signed_of_int signed_take_bit_int_eq_self)
  have u: "unat (word_of_int k :: u32) = nat k" if "0 \<le> k" "k < 2 ^ 32" for k :: int
    using that by (simp add: unsigned_of_int take_bit_int_eq_self)
  show "unat (abs_height (word_of_int h)) = nat \<bar>h\<bar>"
    using assms u [of h] u [of "- h"] unfolding abs_height_def s by (cases "h < 0") simp_all
qed

lemma bits_24_32: "bytes_of_bits (of_nat bits) = of_nat (bits div 8)" if "bits = 24 \<or> bits = 32"
  using that by (auto simp: bytes_of_bits_def)

text \<open>What the program reads of the headers is their layout.\<close>

lemma layout_dims:
  assumes "bmp_layout content = Some (w, h, bits)" and "bits = 24 \<or> bits = 32" and "h \<noteq> 0"
  shows "bmp_dims (rd_u32 content 14) (take (unat (rd_u32 content 14)) (drop 14 content))
      = (of_nat w, word_of_int h, of_nat (bits div 8))"
    and "w < 2 ^ 32" and "- (2 ^ 31) \<le> h" and "h < 2 ^ 31" and "unat (rd_u32 content 14) \<le> 120"
proof -
  let ?s = "field content 14 4"
  note ty = rd_field(1,2) [of content 14]
  have less: "field content off 4 < 2 ^ 32" "field content off 2 < 2 ^ 16" for off
    using field_less [of content off 4] field_less [of content off 2] by simp_all
  consider "?s = 12" "w = field content 18 2" "h = int (field content 20 2)" "bits = field content 24 2"
    | "?s = 40 \<or> ?s = 108" "w = field content 18 4" "h = signed_field content 22" "bits = field content 28 2"
    using assms(1) by (auto simp: bmp_layout_def Let_def split: if_splits)
  then have "bmp_dims (rd_u32 content 14) (take (unat (rd_u32 content 14)) (drop 14 content))
      = (of_nat w, word_of_int h, of_nat (bits div 8)) \<and> w < 2 ^ 32 \<and> - (2 ^ 31) \<le> h \<and> h < 2 ^ 31
        \<and> unat (rd_u32 content 14) \<le> 120"
  proof cases
    case 1
    have "bytes_of_bits (rd_u16 (take 12 (drop 14 content)) 10) = of_nat (bits div 8)"
      using bits_24_32 [OF assms(2)] 1(4) by (simp add: rd_field(3) core_field)
    moreover have "bmp_dims 12 c = (ucast (rd_u16 c 4), ucast (rd_u16 c 6), bytes_of_bits (rd_u16 c 10))" for c
      by (simp add: bmp_dims_def BITMAPCOREHEADER_def)
    ultimately show "bmp_dims (rd_u32 content 14) (take (unat (rd_u32 content 14)) (drop 14 content))
      = (of_nat w, word_of_int h, of_nat (bits div 8)) \<and> w < 2 ^ 32 \<and> - (2 ^ 31) \<le> h \<and> h < 2 ^ 31
        \<and> unat (rd_u32 content 14) \<le> 120"
      using 1 less(2) [of 18] less(2) [of 20] ty by (simp add: wide_u16 rd_field(4) core_field)
  next
    case 2
    let ?n = "unat (rd_u32 content 14)" and ?v = "field content 22 4"
    have n: "14 + 2 \<le> ?n" "?n \<le> 120" using 2(1) ty(2) by auto
    have T: "rd_u32 content 14 = BITMAPINFOHEADER \<or> rd_u32 content 14 = BITMAPV4HEADER"
      "rd_u32 content 14 \<noteq> BITMAPCOREHEADER"
      using 2(1) ty(1) by (auto simp: BITMAPINFOHEADER_def BITMAPV4HEADER_def BITMAPCOREHEADER_def)
    have h: "(of_nat ?v :: u32) = word_of_int h"
    proof -
      have "word_of_int (int ?v - 2 ^ 32) = (word_of_int (int ?v) :: u32)" by (simp add: wi_hom_syms)
      then show ?thesis using 2(3) by (simp add: signed_field_def Let_def)
    qed
    have "bytes_of_bits (rd_u16 (take ?n (drop 14 content)) 14) = of_nat (bits div 8)"
      using bits_24_32 [OF assms(2)] 2(4) n by (simp add: rd_field(3) core_field)
    moreover have "rd_u32 (take ?n (drop 14 content)) 4 = of_nat w" "rd_u32 (take ?n (drop 14 content)) 8 = word_of_int h"
      using 2(2) n h by (simp_all add: rd_field(1) core_field)
    ultimately have "bmp_dims (rd_u32 content 14) (take ?n (drop 14 content)) = (of_nat w, word_of_int h, of_nat (bits div 8))"
      using T by (auto simp: bmp_dims_def)
    moreover have "- (2 ^ 31) \<le> h" "h < 2 ^ 31"
      using 2(3) less(1) [of 22] by (auto simp: signed_field_def Let_def)
    ultimately show "bmp_dims (rd_u32 content 14) (take (unat (rd_u32 content 14)) (drop 14 content))
      = (of_nat w, word_of_int h, of_nat (bits div 8)) \<and> w < 2 ^ 32 \<and> - (2 ^ 31) \<le> h \<and> h < 2 ^ 31
        \<and> unat (rd_u32 content 14) \<le> 120"
      using 2(2) less(1) [of 18] n(2) by blast
  qed
  then show "bmp_dims (rd_u32 content 14) (take (unat (rd_u32 content 14)) (drop 14 content))
      = (of_nat w, word_of_int h, of_nat (bits div 8))" "w < 2 ^ 32" "- (2 ^ 31) \<le> h" "h < 2 ^ 31"
    "unat (rd_u32 content 14) \<le> 120" by blast+
qed

lemma row_bytes_stride: "row_bytes w (8 * n) = stride_of w n"
proof -
  have "w * (8 * n) + 31 = 8 * (w * n + 3) + 7" by simp
  then have "(w * (8 * n) + 31) div 32 = (w * n + 3) div 4" by linarith
  then show ?thesis by (simp add: row_bytes_def stride_of_def)
qed

text \<open>C19: a bitmap file that is not compressed, of 24 or 32 bits for each pixel, with a header of 12, 40 or 108
  bytes (not the one of version 5), of at least 134 bytes and with all its rows, is opened with its width
  and height, and every pixel of the result is made of the bytes that the format gives to its row and
  column: the rows are padded to four bytes and stored from the bottom up when the height is positive,
  from the top down when it is negative; a pixel has blue, green and red, and the fourth byte of a pixel of
  32 bits, which the format does not use, becomes the alpha channel (255 for 24 bits).\<close>

theorem bmp_pixels:
  assumes sck: "byte_socket rd content" and good: "bmp_file content w h bits"
  shows "\<exists>b px. OpenBMP rd fmt = Some (Some b) \<and> unat (bmpWidth b) = w \<and> unat (bmpHeight b) = nat \<bar>h\<bar> \<and> PixelSize b = 4
    \<and> Pixels b = Some px \<and> length px = w * nat \<bar>h\<bar>
    \<and> (\<forall>x < w. \<forall>y < nat \<bar>h\<bar>. px ! (y * w + x) = bmp_colour fmt (bmp_pixel content w h bits x y))"
proof -
  have f: "134 \<le> length content" "take 2 content = [0x42, 0x4D]" "bmp_layout content = Some (w, h, bits)"
    "bits = 24 \<or> bits = 32" "0 < w" "h \<noteq> 0" "row_bytes w bits * nat \<bar>h\<bar> < 2 ^ 32"
    "field content 10 4 + row_bytes w bits * nat \<bar>h\<bar> \<le> length content"
    using good by (simp_all add: bmp_file_def)
  obtain n where n: "bits = 8 * n" "n = 3 \<or> n = 4" using f(4) by (metis mult_numeral_left_semiring_numeral num_double numeral_times_numeral)
  note d = layout_dims [OF f(3,4,6)]
  note h = height_word [OF d(3,4) f(6)]
  let ?W = "of_nat w :: u32" and ?H = "word_of_int h :: u32" and ?N = "of_nat n :: u32"
  have u: "unat ?W = w" "unat ?N = n" using d(2) n(2) by (auto simp: unat_of_nat)
  have magic: "content ! 0 = 0x42" "content ! 1 = 0x4D" using f(1,2) by (cases content; cases "tl content"; auto)+
  have "0 < nat \<bar>h\<bar>" using f(6) by simp
  have S: "w * n + 3 < stride_of w n + 4" "w \<le> stride_of w n" "w * n \<le> stride_of w n"
    using n(2) by (auto simp: stride_of_def)
  have b1: "stride_of w n * nat \<bar>h\<bar> < 2 ^ 32" using f(7) by (simp add: n(1) row_bytes_stride)
  have "w * nat \<bar>h\<bar> \<le> stride_of w n * nat \<bar>h\<bar>" using S(2) by (rule mult_le_mono1)
  then have b2: "w * nat \<bar>h\<bar> < 2 ^ 32" using b1 by linarith
  have "stride_of w n * 1 \<le> stride_of w n * nat \<bar>h\<bar>" using \<open>0 < nat \<bar>h\<bar>\<close> by (intro mult_le_mono2) linarith
  then have "stride_of w n < 2 ^ 32" using b1 by linarith
  moreover obtain q where q: "stride_of w n = 4 * q" by (metis stride_of_def mult.commute)
  ultimately have "q < 1073741824" by simp
  then have b3: "stride_of w n \<le> 2 ^ 32 - 4" using q by simp
  note b = b1 b2 b3
  have "w * n + 3 < 2 ^ 32" using S(1) b3 by simp
  then have "bmp_readable content ?W ?H ?N"
    unfolding bmp_readable_def u h(2) rd_field(2) [of content 10]
    using f(1,5,8) n d(1,5) magic b \<open>0 < nat \<bar>h\<bar>\<close>
    by (auto simp: sizeof_BMPHeader_def sizeof_BITMAPV5HEADER_def row_bytes_stride)
  from readable_pixels [OF sck this, of fmt] obtain p px where p: "OpenBMP rd fmt = Some (Some p)" "bmpWidth p = ?W"
    "bmpHeight p = abs_height ?H" "PixelSize p = 4" "Pixels p = Some px" "length px = w * nat \<bar>h\<bar>"
    "\<And>x y. x < w \<Longrightarrow> y < nat \<bar>h\<bar> \<Longrightarrow> px ! (y * w + x) = bmp_colour fmt (channels_at content ?N
        (field content 10 4 + pixel_source (h > 0) w (nat \<bar>h\<bar>) n x y))"
    unfolding u h rd_field(2) [of content 10] by blast
  have "channels_at content ?N (field content 10 4 + pixel_source (h > 0) w (nat \<bar>h\<bar>) n x y) = bmp_pixel content w h bits x y" for x y
    using n(2) by (auto simp: n(1) channels_at_def bmp_pixel_def pixel_source_def Let_def row_bytes_stride add.assoc)
  then show ?thesis using p u(1) h(2) by auto
qed

text \<open>A header of version 5 has 124 bytes; the copy of it reads past the 120 bytes that were read.\<close>

theorem version_5_overread:
  assumes sck: "byte_socket rd content" and "134 \<le> length content" and "content ! 0 = 0x42" and "content ! 1 = 0x4D"
    and "rd_u32 content 14 = BITMAPV5HEADER"
  shows "OpenBMP rd fmt = None"
proof -
  have n134: "(of_nat (sizeof_BMPHeader + sizeof_BITMAPV5HEADER) :: u64) = 134"
    by (simp add: sizeof_BMPHeader_def sizeof_BITMAPV5HEADER_def)
  have "\<not> socketreterr (rd 0 134) 134" "sdata (rd 0 134) = Some (take 134 content)"
    using byte_socket.read_fine [OF sck, of 134 0] byte_socket.read_data [OF sck, of 134 0] assms(2) by simp_all
  moreover have "rd_u32 (take 120 (drop 14 content)) 0 = 0x7C" using assms(5) by (simp add: rd_u32_def min_def BITMAPV5HEADER_def)
  ultimately show ?thesis
    unfolding OpenBMP_def n134 Let_def using assms(2-4) by (simp add: sizeof_BMPHeader_def drop_take)
qed

text \<open>A bitmap of two rows of two pixels.\<close>

definition demo_bmp :: bytes where
  "demo_bmp = [0x42, 0x4D] @ replicate 8 0 @ [54, 0, 0, 0] @ [40, 0, 0, 0, 2, 0, 0, 0, 2, 0, 0, 0, 1, 0, 24, 0] @ replicate 24 0
     @ [1, 2, 3, 4, 5, 6, 0, 0, 7, 8, 9, 10, 11, 12, 0, 0] @ replicate 64 0"

theorem bmp_pixels_witness:
  "\<exists>b px. OpenBMP (list_reader demo_bmp) PixelBlueGreenRedReserved8BitPerColor = Some (Some b) \<and> unat (bmpHeight b) = 2
     \<and> Pixels b = Some px \<and> px ! 0 = 0xFF090807 \<and> px ! 3 = 0xFF060504"
proof -
  have h: "field demo_bmp 14 4 = 40" "field demo_bmp 10 4 = 54" "field demo_bmp 18 4 = 2" "field demo_bmp 22 4 = 2"
    "field demo_bmp 28 2 = 24" "field demo_bmp 30 4 = 0" "take 2 demo_bmp = [0x42, 0x4D]" "length demo_bmp = 134"
    by (simp_all add: demo_bmp_def field_def)
  have "bmp_file demo_bmp 2 2 24"
    by (simp add: bmp_file_def bmp_layout_def signed_field_def row_bytes_def h Let_def)
  from bmp_pixels [OF list_reader_socket this, of PixelBlueGreenRedReserved8BitPerColor] obtain b px where
    b: "OpenBMP (list_reader demo_bmp) PixelBlueGreenRedReserved8BitPerColor = Some (Some b)" "unat (bmpHeight b) = 2" "Pixels b = Some px"
    and px: "\<And>x y. x < 2 \<Longrightarrow> y < 2 \<Longrightarrow> px ! (y * 2 + x) = bmp_colour PixelBlueGreenRedReserved8BitPerColor (bmp_pixel demo_bmp 2 2 24 x y)"
    by auto
  have "demo_bmp ! 62 = 7" "demo_bmp ! 63 = 8" "demo_bmp ! 64 = 9" "demo_bmp ! 57 = 4" "demo_bmp ! 58 = 5" "demo_bmp ! 59 = 6"
    by (simp_all add: demo_bmp_def nth_append)
  then show ?thesis using b px [of 0 0] px [of 1 1]
    by (intro exI [of _ b] exI [of _ px]) (simp add: bmp_pixel_def row_bytes_def h(2) bmp_colour_def Let_def)
qed

end
