(* ===== verification/Boot_Pe.thy ===== *)
theory Boot_Pe
  imports Boot_Socket Frat_Mount
begin

text \<open>
  The reader of portable executables of the boot loader (\<^verbatim>\<open>drivers/executable/pe.c\<close>, \<^verbatim>\<open>pe.h\<close>,
  \<^verbatim>\<open>struct.h\<close>): the headers, the search for a section, the translation of virtual addresses, the
  reading and loading of sections, and the tables of exports, imports and relocations an executable is
  expanded to.  In results of the form \<open>'a option option\<close> the outer \<open>None\<close> is behaviour that C does not
  define (a read or a write outside a buffer, a null pointer followed) or a loop without end, and
  \<open>Some None\<close> the null pointer.  The comparison \<open>strncmpa\<close> of the firmware library is a parameter.
\<close>

section \<open>Fields of a buffer\<close>

definition rd16 :: "bytes \<Rightarrow> nat \<Rightarrow> u16 option" where
  "rd16 bs off = (if off + 2 \<le> length bs then Some (rd_u16 bs off) else None)"

definition rd32 :: "bytes \<Rightarrow> nat \<Rightarrow> u32 option" where
  "rd32 bs off = (if off + 4 \<le> length bs then Some (rd_u32 bs off) else None)"

definition slice :: "nat \<Rightarrow> nat \<Rightarrow> bytes \<Rightarrow> bytes" where
  "slice off n bs = take n (drop off bs)"

definition rdn :: "bytes \<Rightarrow> nat \<Rightarrow> nat \<Rightarrow> bytes option" where
  "rdn bs off n = (if off + n \<le> length bs then Some (slice off n bs) else None)"

section \<open>The structures of the file format\<close>

definition sizeof_PeHeader :: nat where "sizeof_PeHeader = 24"
definition sizeof_PeImageSectionHeader :: nat where "sizeof_PeImageSectionHeader = 40"
definition sizeof_Pe32OptionalHeader :: nat where "sizeof_Pe32OptionalHeader = 96"
definition sizeof_Pe32PlusOptionalHeader :: nat where "sizeof_Pe32PlusOptionalHeader = 112"
definition sizeof_PeImportDirectoryEntry :: nat where "sizeof_PeImportDirectoryEntry = 20"

definition Pe32 :: u16 where "Pe32 = 0x10b"
definition Pe32Plus :: u16 where "Pe32Plus = 0x20b"

definition PeHeaderOffsetAddress :: u64 where "PeHeaderOffsetAddress = 0x3C"

text \<open>A section name: eight bytes, padded with zeros.\<close>

definition char8 :: "string \<Rightarrow> bytes" where
  "char8 s = take 8 (map of_char s @ replicate 8 0)"

definition PeCodeSection :: bytes where "PeCodeSection = char8 ''.text''"
definition PeDefDataSection :: bytes where "PeDefDataSection = char8 ''.data''"
definition PeUDefDataSection :: bytes where "PeUDefDataSection = char8 ''.bss''"
definition PeExportSection :: bytes where "PeExportSection = char8 ''.edata''"
definition PeImportSection :: bytes where "PeImportSection = char8 ''.idata''"
definition PeExceptionInfoSection :: bytes where "PeExceptionInfoSection = char8 ''.pdata''"
definition PeRDefDataSection :: bytes where "PeRDefDataSection = char8 ''.rdata''"
definition PeRelocDataSection :: bytes where "PeRelocDataSection = char8 ''.reloc''"
definition PeResourceSection :: bytes where "PeResourceSection = char8 ''.rsrc''"

record pe_header =
  peMagic :: u32
  mMachine :: u16
  mNumberOfSections :: u16
  mTimeDateStamp :: u32
  mPointerToSymbolTable :: u32
  mNumberOfSymbols :: u32
  mSizeOfOptionalHeader :: u16
  peCharacteristics :: u16

definition decode_PeHeader :: "bytes \<Rightarrow> pe_header" where
  "decode_PeHeader b = \<lparr>peMagic = rd_u32 b 0, mMachine = rd_u16 b 4, mNumberOfSections = rd_u16 b 6,
     mTimeDateStamp = rd_u32 b 8, mPointerToSymbolTable = rd_u32 b 12, mNumberOfSymbols = rd_u32 b 16,
     mSizeOfOptionalHeader = rd_u16 b 20, peCharacteristics = rd_u16 b 22\<rparr>"

text \<open>The fields of the optional header that the loader uses lie at the same offsets in both forms.\<close>

record pe_optional =
  mMagic :: u16
  mAddressOfEntryPoint :: u32
  mSizeOfImage :: u32

definition decode_optional :: "bytes \<Rightarrow> pe_optional" where
  "decode_optional b = \<lparr>mMagic = rd_u16 b 0, mAddressOfEntryPoint = rd_u32 b 16, mSizeOfImage = rd_u32 b 56\<rparr>"

record pe_section =
  mName :: bytes
  mVirtualSize :: u32
  mVirtualAddress :: u32
  mSizeOfRawData :: u32
  mPointerToRawData :: u32
  mPointerToRelocations :: u32
  mPointerToLinenumbers :: u32
  mNumberOfRelocations :: u16
  mNumberOfLinenumbers :: u16
  mCharacteristics :: u32

definition decode_section :: "bytes \<Rightarrow> pe_section" where
  "decode_section b = \<lparr>mName = take 8 b, mVirtualSize = rd_u32 b 8, mVirtualAddress = rd_u32 b 12,
     mSizeOfRawData = rd_u32 b 16, mPointerToRawData = rd_u32 b 20, mPointerToRelocations = rd_u32 b 24,
     mPointerToLinenumbers = rd_u32 b 28, mNumberOfRelocations = rd_u16 b 32, mNumberOfLinenumbers = rd_u16 b 34,
     mCharacteristics = rd_u32 b 36\<rparr>"

text \<open>The pointers of \<open>DecodePeExecutableHeader\<close>, as positions in the header that was read.\<close>

definition PH :: "bytes \<Rightarrow> pe_header option" where
  "PH header = map_option decode_PeHeader (rdn header 0 sizeof_PeHeader)"

definition POH_magic :: "bytes \<Rightarrow> u16 option" where
  "POH_magic header = rd16 header sizeof_PeHeader"

definition RVAs :: "bytes \<Rightarrow> nat option" where
  "RVAs header = map_option (\<lambda>m. sizeof_PeHeader + (if m = Pe32 then sizeof_Pe32OptionalHeader else sizeof_Pe32PlusOptionalHeader))
     (POH_magic header)"

definition PISHs :: "bytes \<Rightarrow> nat \<Rightarrow> pe_section option" where
  "PISHs header cc = do {
     h \<leftarrow> PH header;
     b \<leftarrow> rdn header (sizeof_PeHeader + unat (mSizeOfOptionalHeader h) + cc * sizeof_PeImageSectionHeader) sizeof_PeImageSectionHeader;
     Some (decode_section b)
   }"

section \<open>Reading the headers\<close>

text \<open>A header with another magic leaves the function without a value.\<close>

definition ReadPeExecutableHeader :: "reader \<Rightarrow> bytes option option" where
  "ReadPeExecutableHeader rd =
    (let rt = rd PeHeaderOffsetAddress 4 in
     if socketreterr rt 4 then Some None
     else do {
       Offset \<leftarrow> rd32 (the (sdata rt)) 0;
       let rt = rd (ucast Offset) (of_nat sizeof_PeHeader);
       (if socketreterr rt (of_nat sizeof_PeHeader) then Some None
        else do {
          peHeader \<leftarrow> PH (the (sdata rt));
          let rt = rd (ucast Offset + of_nat sizeof_PeHeader) 2;
          (if socketreterr rt 2 then Some None
           else do {
             magic \<leftarrow> rd16 (the (sdata rt)) 0;
             (if magic = Pe32 \<or> magic = Pe32Plus then
                let Bytes = (of_nat sizeof_PeHeader + ucast (mSizeOfOptionalHeader peHeader)
                             + ucast (mNumberOfSections peHeader) * of_nat sizeof_PeImageSectionHeader) :: u32
                in Some (sdata (rd (ucast Offset) (ucast Bytes)))
              else None)
           })
        })
     })"

section \<open>Sections\<close>

definition RvaToFileOffsetPe :: "u32 \<Rightarrow> pe_section \<Rightarrow> u32" where
  "RvaToFileOffsetPe rva s =
    (let startRVA = mVirtualAddress s; endRVA = startRVA + mVirtualSize s
     in if rva \<ge> startRVA \<and> rva < endRVA
        then (if mPointerToRawData s = 0 then 0 else (rva - startRVA) + mPointerToRawData s)
        else 0)"

type_synonym strncmp = "bytes \<Rightarrow> bytes \<Rightarrow> nat \<Rightarrow> int"

fun find_section :: "strncmp \<Rightarrow> bytes \<Rightarrow> bytes \<Rightarrow> nat list \<Rightarrow> pe_section option option" where
  "find_section strncmpa header nm [] = Some None"
| "find_section strncmpa header nm (cc # k) = do {
     s \<leftarrow> PISHs header cc;
     (if strncmpa (mName s) nm 8 = 0 then Some (Some s) else find_section strncmpa header nm k)
   }"

definition FindSectionPe :: "strncmp \<Rightarrow> bytes \<Rightarrow> bytes \<Rightarrow> pe_section option option" where
  "FindSectionPe strncmpa header nm = do {
     h \<leftarrow> PH header;
     find_section strncmpa header nm [0..<unat (mNumberOfSections h)]
   }"

text \<open>The pointer into the data of a section, as an offset.\<close>

definition GetAtRVAFromSectionDataPe :: "strncmp \<Rightarrow> u32 \<Rightarrow> bytes \<Rightarrow> bytes \<Rightarrow> nat option option" where
  "GetAtRVAFromSectionDataPe strncmpa RVA nm header = do {
     s \<leftarrow> FindSectionPe strncmpa header nm;
     Some (case s of
       None \<Rightarrow> None
     | Some s \<Rightarrow> if RVA < mVirtualAddress s then None
                 else if RVA - mVirtualAddress s \<ge> mSizeOfRawData s then None
                 else Some (unat (RVA - mVirtualAddress s)))
   }"

definition ReadAtRVAFromSectionPe :: "strncmp \<Rightarrow> reader \<Rightarrow> u32 \<Rightarrow> u32 \<Rightarrow> bytes \<Rightarrow> bytes \<Rightarrow> bytes option option" where
  "ReadAtRVAFromSectionPe strncmpa rd RVA Size nm header = do {
     s \<leftarrow> FindSectionPe strncmpa header nm;
     Some (case s of
       None \<Rightarrow> None
     | Some s \<Rightarrow>
         let Address = RvaToFileOffsetPe RVA s in
         if Address = 0 then None
         else let rt = rd (ucast Address) (ucast Size) in if socketreterr rt (ucast Size) then None else sdata rt)
   }"

definition ReadSectionPe :: "strncmp \<Rightarrow> reader \<Rightarrow> bytes \<Rightarrow> bytes \<Rightarrow> bytes option option" where
  "ReadSectionPe strncmpa rd header nm = do {
     s \<leftarrow> FindSectionPe strncmpa header nm;
     Some (case s of
       None \<Rightarrow> None
     | Some s \<Rightarrow>
         if mSizeOfRawData s = 0 then None
         else let n = ucast (mSizeOfRawData s); rt = rd (ucast (mPointerToRawData s)) n in if socketreterr rt n then None else sdata rt)
   }"

text \<open>Rounding up to whole pages, in 32 bits.\<close>

definition EFI_PAGE_SIZE :: nat where "EFI_PAGE_SIZE = 4096"

definition page_round :: "u32 \<Rightarrow> u32" where
  "page_round a = (a + (of_nat EFI_PAGE_SIZE - 1)) div of_nat EFI_PAGE_SIZE * of_nat EFI_PAGE_SIZE"

text \<open>Writing a block of bytes into a buffer.\<close>

definition put_bytes :: "nat \<Rightarrow> bytes \<Rightarrow> bytes \<Rightarrow> bytes option" where
  "put_bytes off bs buf = (if off + length bs \<le> length buf then Some (take off buf @ bs @ drop (off + length bs) buf) else None)"

text \<open>The pages of a section: cleared, then filled with its raw data.\<close>

definition LoadSectionPe :: "strncmp \<Rightarrow> reader \<Rightarrow> bytes \<Rightarrow> bytes \<Rightarrow> bytes option option" where
  "LoadSectionPe strncmpa rd header nm = do {
     s \<leftarrow> FindSectionPe strncmpa header nm;
     (case s of
        None \<Rightarrow> Some None
      | Some s \<Rightarrow>
          if mVirtualSize s = 0 then Some None
          else
            let n = ucast (mSizeOfRawData s); rt = rd (ucast (mPointerToRawData s)) n in
            if socketreterr rt n then Some None
            else do {
              raw \<leftarrow> rdn (the (sdata rt)) 0 (unat (mSizeOfRawData s));
              map_option Some (put_bytes 0 raw (replicate (unat (page_round (mVirtualSize s))) 0))
            })
   }"

section \<open>The expanded executable\<close>

text \<open>The number of import entries before the one that is all zero.\<close>

function count_imports :: "bytes \<Rightarrow> nat \<Rightarrow> nat option" where
  "count_imports imports n =
    (if n * sizeof_PeImportDirectoryEntry + sizeof_PeImportDirectoryEntry \<le> length imports
     then if slice (n * sizeof_PeImportDirectoryEntry) sizeof_PeImportDirectoryEntry imports = replicate sizeof_PeImportDirectoryEntry 0
          then Some n
          else count_imports imports (n + 1)
     else None)"
  by pat_completeness auto
termination
  by (relation "measure (\<lambda>(imports, n). length imports - n)") (auto simp: sizeof_PeImportDirectoryEntry_def)

declare count_imports.simps [simp del]

text \<open>The number of lookup entries of \<open>w\<close> bytes before the one that is zero.\<close>

function count_entries :: "nat \<Rightarrow> bytes \<Rightarrow> nat \<Rightarrow> nat \<Rightarrow> nat option" where
  "count_entries w tbl off n =
    (if w = 0 \<or> length tbl < off + n * w + w then None
     else if slice (off + n * w) w tbl = replicate w 0 then Some n
     else count_entries w tbl off (n + 1))"
  by pat_completeness auto
termination
proof (relation "measure (\<lambda>(w, tbl, off, n). length tbl - off - n)", simp)
  fix w :: nat and tbl :: bytes and off n :: nat
  assume c: "\<not> (w = 0 \<or> length tbl < off + n * w + w)"
  then have "n * 1 \<le> n * w" by (intro mult_le_mono) simp_all
  with c have "off + n < length tbl" by linarith
  then show "((w, tbl, off, n + 1), w, tbl, off, n) \<in> measure (\<lambda>(w, tbl, off, n). length tbl - off - n)" by simp
qed

declare count_entries.simps [simp del]

text \<open>The fields of the import entry \<open>cc\<close>.\<close>

definition import_LookupRVA :: "bytes \<Rightarrow> nat \<Rightarrow> u32" where
  "import_LookupRVA imports cc = rd_u32 imports (cc * sizeof_PeImportDirectoryEntry)"

definition import_NameRVA :: "bytes \<Rightarrow> nat \<Rightarrow> u32" where
  "import_NameRVA imports cc = rd_u32 imports (cc * sizeof_PeImportDirectoryEntry + 12)"

definition import_AddressRVA :: "bytes \<Rightarrow> nat \<Rightarrow> u32" where
  "import_AddressRVA imports cc = rd_u32 imports (cc * sizeof_PeImportDirectoryEntry + 16)"

definition lookup_size :: "u16 \<Rightarrow> nat" where
  "lookup_size magic = (if magic = Pe32 then 4 else 8)"

text \<open>The lookup table of every import, with its number of entries; an import without one keeps the number zero.\<close>

fun import_lookups :: "strncmp \<Rightarrow> bytes \<Rightarrow> bytes \<Rightarrow> u16 \<Rightarrow> nat list \<Rightarrow> (nat option \<times> nat) list option" where
  "import_lookups strncmpa header imports magic [] = Some []"
| "import_lookups strncmpa header imports magic (cc # k) =
    (let lookupRVA = (if import_LookupRVA imports cc \<noteq> 0 then import_LookupRVA imports cc else import_AddressRVA imports cc) in do {
       p \<leftarrow> GetAtRVAFromSectionDataPe strncmpa lookupRVA PeImportSection header;
       n \<leftarrow> (case p of None \<Rightarrow> Some 0 | Some off \<Rightarrow> count_entries (lookup_size magic) imports off 0);
       r \<leftarrow> import_lookups strncmpa header imports magic k;
       Some ((p, n) # r)
     })"

text \<open>The blocks of the relocation section: the entries of each.  The offset is a 32-bit sum.\<close>

definition sizeof_PeBaseRelocationBlock :: nat where "sizeof_PeBaseRelocationBlock = 8"
definition sizeof_PeRelocationEntry :: nat where "sizeof_PeRelocationEntry = 2"

partial_function (option) reloc_blocks :: "bytes \<Rightarrow> u32 \<Rightarrow> u32 list \<Rightarrow> u32 list option" where
  "reloc_blocks relocblock byteOffset nPerBlock =
    (case rd32 relocblock (unat byteOffset + 4) of
       None \<Rightarrow> None
     | Some BlockSize \<Rightarrow>
         if BlockSize \<noteq> 0 \<and> rd_u32 relocblock (unat byteOffset) \<noteq> 0
         then reloc_blocks relocblock (byteOffset + BlockSize)
                (nPerBlock @ [ucast ((ucast BlockSize - of_nat sizeof_PeBaseRelocationBlock :: u64) div of_nat sizeof_PeRelocationEntry)])
         else Some nPerBlock)"

record pe_executable =
  exRaw :: bytes
  exMagic :: u16
  exExport :: "bytes option"
  exNamePointerRVAs :: "nat option"
  exOrdinals :: "nat option"
  exRawExportAddresses :: "nat option"
  exImport :: "bytes option"
  exImports :: "(nat option \<times> nat) list"
  exRelocData :: "bytes option"
  nRelocationBlocks :: nat
  nRelocationEntriesPerBlock :: "u32 list"
  exResource :: "bytes option"
  exException :: "bytes option"

text \<open>The fields of the export directory.\<close>

definition mOrdinalBase :: "bytes \<Rightarrow> u32 option" where "mOrdinalBase e = rd32 e 16"
definition mNTableEntries :: "bytes \<Rightarrow> u32 option" where "mNTableEntries e = rd32 e 20"
definition mNNamePointers :: "bytes \<Rightarrow> u32 option" where "mNNamePointers e = rd32 e 24"
definition mExportTableRVA :: "bytes \<Rightarrow> u32 option" where "mExportTableRVA e = rd32 e 28"
definition mNamePointerRVA :: "bytes \<Rightarrow> u32 option" where "mNamePointerRVA e = rd32 e 32"
definition OrdinalPointerRVA :: "bytes \<Rightarrow> u32 option" where "OrdinalPointerRVA e = rd32 e 36"

definition export_table :: "strncmp \<Rightarrow> bytes \<Rightarrow> bytes option \<Rightarrow> (bytes \<Rightarrow> u32 option) \<Rightarrow> nat option option" where
  "export_table strncmpa header exports field =
    (case exports of
       None \<Rightarrow> Some None
     | Some e \<Rightarrow> do { rva \<leftarrow> field e; GetAtRVAFromSectionDataPe strncmpa rva PeExportSection header })"

text \<open>A null header is followed; the number of relocation blocks counts the one that ends the list.\<close>

definition ExpandPeExecutableFormat :: "strncmp \<Rightarrow> reader \<Rightarrow> pe_executable option" where
  "ExpandPeExecutableFormat strncmpa rd = do {
     hdr \<leftarrow> ReadPeExecutableHeader rd;
     header \<leftarrow> hdr;
     magic \<leftarrow> POH_magic header;
     exports \<leftarrow> ReadSectionPe strncmpa rd header PeExportSection;
     names \<leftarrow> export_table strncmpa header exports mNamePointerRVA;
     ordinals \<leftarrow> export_table strncmpa header exports OrdinalPointerRVA;
     addresses \<leftarrow> export_table strncmpa header exports mExportTableRVA;
     imports \<leftarrow> ReadSectionPe strncmpa rd header PeImportSection;
     lookups \<leftarrow> (case imports of
        None \<Rightarrow> Some []
      | Some i \<Rightarrow> do { nImports \<leftarrow> count_imports i 0; import_lookups strncmpa header i magic [0..<nImports] });
     pdata \<leftarrow> ReadSectionPe strncmpa rd header PeExceptionInfoSection;
     rsrc \<leftarrow> ReadSectionPe strncmpa rd header PeResourceSection;
     reloc \<leftarrow> ReadSectionPe strncmpa rd header PeRelocDataSection;
     blocks \<leftarrow> (case reloc of None \<Rightarrow> Some (0, []) | Some r \<Rightarrow> map_option (\<lambda>n. (length n + 1, n)) (reloc_blocks r 0 []));
     Some \<lparr>exRaw = header, exMagic = magic, exExport = exports, exNamePointerRVAs = names, exOrdinals = ordinals,
       exRawExportAddresses = addresses, exImport = imports, exImports = lookups, exRelocData = reloc,
       nRelocationBlocks = fst blocks, nRelocationEntriesPerBlock = snd blocks, exResource = rsrc, exException = pdata\<rparr>
   }"

section \<open>Executables in order\<close>

text \<open>What the firmware library documents of its comparison: two names of eight bytes are equal when they
  agree up to their ends.\<close>

definition name8 :: "bytes \<Rightarrow> bytes" where
  "name8 a = takeWhile (\<lambda>c. c \<noteq> 0) (take 8 a)"

definition compares_names :: "strncmp \<Rightarrow> bool" where
  "compares_names strncmpa = (\<forall>a b. length a = 8 \<longrightarrow> length b = 8 \<longrightarrow> (strncmpa a b 8 = 0 \<longleftrightarrow> name8 a = name8 b))"

definition named :: "bytes \<Rightarrow> pe_section \<Rightarrow> bool" where
  "named nm s = (name8 (mName s) = name8 nm)"

text \<open>A file that holds an executable, its header and its sections.\<close>

definition pe_at :: "bytes \<Rightarrow> nat" where
  "pe_at content = unat (rd_u32 content 0x3C)"

definition pe_head :: "bytes \<Rightarrow> pe_header" where
  "pe_head content = decode_PeHeader (slice (pe_at content) sizeof_PeHeader content)"

definition table_at :: "bytes \<Rightarrow> nat" where
  "table_at content = pe_at content + sizeof_PeHeader + unat (mSizeOfOptionalHeader (pe_head content))"

definition pe_magic :: "bytes \<Rightarrow> u16" where
  "pe_magic content = rd_u16 content (pe_at content + sizeof_PeHeader)"

definition pe_file :: "bytes \<Rightarrow> bool" where
  "pe_file content =
    (0x40 \<le> length content \<and> length content < 2 ^ 63
     \<and> table_at content + unat (mNumberOfSections (pe_head content)) * sizeof_PeImageSectionHeader \<le> length content
     \<and> 2 \<le> unat (mSizeOfOptionalHeader (pe_head content)) \<and> (pe_magic content = Pe32 \<or> pe_magic content = Pe32Plus))"

definition pe_bytes :: "bytes \<Rightarrow> bytes" where
  "pe_bytes content = slice (pe_at content)
     (sizeof_PeHeader + unat (mSizeOfOptionalHeader (pe_head content))
       + unat (mNumberOfSections (pe_head content)) * sizeof_PeImageSectionHeader) content"

definition pe_sections :: "bytes \<Rightarrow> pe_section list" where
  "pe_sections content =
    map (\<lambda>i. decode_section (slice (table_at content + i * sizeof_PeImageSectionHeader) sizeof_PeImageSectionHeader content))
      [0..<unat (mNumberOfSections (pe_head content))]"

named_theorems pe_sizes
declare sizeof_PeHeader_def [pe_sizes] sizeof_PeImageSectionHeader_def [pe_sizes]

lemma length_slice: "off + n \<le> length bs \<Longrightarrow> length (slice off n bs) = n"
  by (simp add: slice_def)

lemma slice_slice: "a + b \<le> n \<Longrightarrow> slice a b (slice p n bs) = slice (p + a) b bs"
  by (simp add: slice_def drop_take add.commute min_def)

lemma rd_u16_slice: "rd_u16 (slice p n bs) off = rd_u16 bs (p + off)" if "off + 2 \<le> n"
  using that by (simp add: rd_u16_def slice_def drop_take add.commute min_def)

lemma rd_u32_slice: "rd_u32 (slice p n bs) off = rd_u32 bs (p + off)" if "off + 4 \<le> n"
  using that by (simp add: rd_u32_def slice_def drop_take add.commute min_def)

lemma length_pe_bytes:
  "pe_file content \<Longrightarrow> length (pe_bytes content)
     = sizeof_PeHeader + unat (mSizeOfOptionalHeader (pe_head content))
       + unat (mNumberOfSections (pe_head content)) * sizeof_PeImageSectionHeader"
  unfolding pe_bytes_def by (rule length_slice) (simp add: pe_file_def table_at_def)

lemma PH_pe_bytes: "pe_file content \<Longrightarrow> PH (pe_bytes content) = Some (pe_head content)"
  using length_pe_bytes [of content]
  by (simp add: PH_def rdn_def pe_head_def) (simp add: pe_bytes_def slice_slice pe_head_def)

lemma PISHs_pe_bytes:
  assumes "pe_file content" and "i < length (pe_sections content)"
  shows "PISHs (pe_bytes content) i = Some (pe_sections content ! i)"
proof -
  let ?h = "sizeof_PeHeader + unat (mSizeOfOptionalHeader (pe_head content))" and ?s = sizeof_PeImageSectionHeader
  have i: "i < unat (mNumberOfSections (pe_head content))" using assms(2) by (simp add: pe_sections_def)
  then have "(i + 1) * ?s \<le> unat (mNumberOfSections (pe_head content)) * ?s" by (intro mult_le_mono1) simp
  then have le: "?h + i * ?s + ?s \<le> ?h + unat (mNumberOfSections (pe_head content)) * ?s" by simp
  then have "rdn (pe_bytes content) (?h + i * ?s) ?s = Some (slice (?h + i * ?s) ?s (pe_bytes content))"
    using length_pe_bytes [OF assms(1)] by (simp add: rdn_def)
  also have "slice (?h + i * ?s) ?s (pe_bytes content) = slice (table_at content + i * ?s) ?s content"
    unfolding pe_bytes_def using le by (subst slice_slice) (simp_all add: table_at_def ac_simps)
  finally show ?thesis using i PH_pe_bytes [OF assms(1)] by (simp add: PISHs_def pe_sections_def)
qed

lemma POH_magic_pe_bytes: "pe_file content \<Longrightarrow> POH_magic (pe_bytes content) = Some (pe_magic content)"
  using length_pe_bytes [of content]
  by (simp add: POH_magic_def rd16_def pe_file_def) (simp add: pe_bytes_def rd_u16_slice pe_magic_def)

lemma find_section_eq:
  "\<forall>cc \<in> set k. PISHs header cc = Some (g cc) \<Longrightarrow>
   find_section strncmpa header nm k = Some (List.find (\<lambda>s. strncmpa (mName s) nm 8 = 0) (map g k))"
  by (induction k) simp_all

lemma length_names: "s \<in> set (pe_sections content) \<Longrightarrow> pe_file content \<Longrightarrow> length (mName s) = 8"
proof -
  assume s: "s \<in> set (pe_sections content)" and f: "pe_file content"
  let ?s = sizeof_PeImageSectionHeader
  obtain i where i: "i < unat (mNumberOfSections (pe_head content))" "s = decode_section (slice (table_at content + i * ?s) ?s content)"
    using s by (auto simp: pe_sections_def)
  then have "(i + 1) * ?s \<le> unat (mNumberOfSections (pe_head content)) * ?s" by (intro mult_le_mono1) simp
  then have "table_at content + i * ?s + ?s \<le> length content" using f by (simp add: pe_file_def)
  from length_slice [OF this] show ?thesis unfolding i(2) by (simp add: decode_section_def pe_sizes)
qed

text \<open>The search gives the first section of the name.\<close>

lemma FindSectionPe_first:
  assumes "pe_file content" and "compares_names strncmpa" and "length nm = 8"
  shows "FindSectionPe strncmpa (pe_bytes content) nm = Some (List.find (named nm) (pe_sections content))"
proof -
  let ?n = "unat (mNumberOfSections (pe_head content))" and ?g = "\<lambda>i. pe_sections content ! i"
  have len: "length (pe_sections content) = ?n" by (simp add: pe_sections_def)
  have "\<forall>cc \<in> set [0..<?n]. PISHs (pe_bytes content) cc = Some (?g cc)" using PISHs_pe_bytes [OF assms(1)] len by simp
  from find_section_eq [OF this, of strncmpa nm]
  have "FindSectionPe strncmpa (pe_bytes content) nm = Some (List.find (\<lambda>s. strncmpa (mName s) nm 8 = 0) (pe_sections content))"
    using len by (simp add: FindSectionPe_def PH_pe_bytes [OF assms(1)]) (metis map_nth)
  also have "List.find (\<lambda>s. strncmpa (mName s) nm 8 = 0) (pe_sections content) = List.find (named nm) (pe_sections content)"
    using length_names assms unfolding compares_names_def named_def by (intro find_cong) simp_all
  finally show ?thesis .
qed

definition pages_of :: "nat \<Rightarrow> nat" where
  "pages_of n = (n + (EFI_PAGE_SIZE - 1)) div EFI_PAGE_SIZE * EFI_PAGE_SIZE"

lemma page_round_unat:
  assumes "unat a + 4095 < 2 ^ 32"
  shows "unat (page_round a) = pages_of (unat a)"
proof -
  have "unat (a + 4095) = unat a + 4095" using assms by (simp add: unat_add_small)
  then have q: "unat ((a + 4095) div 4096) = (unat a + 4095) div 4096" by (simp add: unat_div_distrib)
  moreover have "(unat a + 4095) div 4096 * 4096 < 2 ^ LENGTH(32)" using assms by simp
  ultimately show ?thesis by (simp add: page_round_def pages_of_def EFI_PAGE_SIZE_def unat_mult_small)
qed

lemma pages_of_bounds: "n \<le> pages_of n" "pages_of n < n + EFI_PAGE_SIZE" "pages_of n mod EFI_PAGE_SIZE = 0"
  by (simp_all add: pages_of_def EFI_PAGE_SIZE_def)

lemma wide_nonzero: "(x :: u32) \<noteq> 0 \<Longrightarrow> (ucast x :: u64) \<noteq> 0"
  by (metis unat_0 unat_ucast_u32 unsigned_eq_0_iff)

lemma PH_slice: "p + sizeof_PeHeader \<le> length content \<Longrightarrow> PH (slice p sizeof_PeHeader content) = Some (decode_PeHeader (slice p sizeof_PeHeader content))"
  by (simp add: PH_def rdn_def slice_def)

text \<open>The size of the headers in 32 bits.\<close>

lemma header_size:
  "unat (of_nat sizeof_PeHeader + ucast (o1 :: u16) + ucast (n :: u16) * of_nat sizeof_PeImageSectionHeader :: u32)
     = sizeof_PeHeader + unat o1 + unat n * sizeof_PeImageSectionHeader"
proof -
  have "unat o1 < 2 ^ 16" "unat n < 2 ^ 16" using unsigned_less [of o1, where 'a = nat] unsigned_less [of n, where 'a = nat] by simp_all
  then have "24 + unat o1 + unat n * 40 < 2 ^ LENGTH(32)" by simp
  moreover have e: "(of_nat 24 + ucast o1 + ucast n * of_nat 40 :: u32) = of_nat (24 + unat o1 + unat n * 40)" by simp
  ultimately show ?thesis unfolding pe_sizes e by (simp add: unat_of_nat del: of_nat_add of_nat_mult)
qed

context byte_socket
begin

lemma read_slice:
  assumes "n \<noteq> 0" and "unat pos + unat n \<le> length content"
  shows "\<not> socketreterr (rd pos n) n" "sdata (rd pos n) = Some (slice (unat pos) (unat n) content)"
  using read_fine [OF assms] read_data [OF assms] by (simp_all add: slice_def)

lemma ReadPeExecutableHeader_reads:
  assumes "pe_file content"
  shows "ReadPeExecutableHeader rd = Some (Some (pe_bytes content))"
proof -
  let ?off = "rd_u32 content 0x3C" and ?h = "pe_head content"
  note f = assms [unfolded pe_file_def table_at_def pe_at_def, folded pe_at_def]
  have off: "unat (ucast ?off :: u64) = pe_at content" by (simp add: unat_ucast_u32 pe_at_def)
  have "\<not> socketreterr (rd PeHeaderOffsetAddress 4) 4" and r1: "sdata (rd PeHeaderOffsetAddress 4) = Some (slice 0x3C 4 content)"
    using read_slice [of 4 PeHeaderOffsetAddress] f by (simp_all add: PeHeaderOffsetAddress_def)
  moreover have "rd32 (slice 0x3C 4 content) 0 = Some ?off" using f by (simp add: rd32_def rd_u32_slice length_slice)
  moreover have "\<not> socketreterr (rd (ucast ?off) 24) 24" "sdata (rd (ucast ?off) 24) = Some (slice (pe_at content) 24 content)"
    using read_slice [of 24 "ucast ?off"] f unfolding off by (simp_all add: pe_sizes)
  moreover have "PH (slice (pe_at content) 24 content) = Some ?h"
    using PH_slice [of "pe_at content" content] f by (simp add: pe_sizes pe_head_def)
  moreover have m: "unat (ucast ?off + 24 :: u64) = pe_at content + 24"
    unfolding off [symmetric] using f off by (subst unat_add_small) (simp_all add: pe_sizes)
  moreover have "\<not> socketreterr (rd (ucast ?off + 24) 2) 2" "sdata (rd (ucast ?off + 24) 2) = Some (slice (pe_at content + 24) 2 content)"
    using read_slice [of 2 "ucast ?off + 24"] f unfolding m by (simp_all add: pe_sizes)
  moreover have "rd16 (slice (pe_at content + 24) 2 content) 0 = Some (pe_magic content)"
    using f by (simp add: rd16_def rd_u16_slice length_slice pe_magic_def pe_sizes)
  ultimately have "ReadPeExecutableHeader rd = Some (sdata (rd (ucast ?off)
      (ucast (of_nat sizeof_PeHeader + ucast (mSizeOfOptionalHeader ?h) + ucast (mNumberOfSections ?h) * of_nat sizeof_PeImageSectionHeader :: u32))))"
    using f by (simp add: ReadPeExecutableHeader_def Let_def pe_sizes)
  moreover have "sdata (rd (ucast ?off) (ucast (of_nat sizeof_PeHeader + ucast (mSizeOfOptionalHeader ?h)
      + ucast (mNumberOfSections ?h) * of_nat sizeof_PeImageSectionHeader :: u32))) = Some (pe_bytes content)"
  proof -
    let ?n = "of_nat sizeof_PeHeader + ucast (mSizeOfOptionalHeader ?h) + ucast (mNumberOfSections ?h) * of_nat sizeof_PeImageSectionHeader :: u32"
    have n: "unat (ucast ?n :: u64) = sizeof_PeHeader + unat (mSizeOfOptionalHeader ?h) + unat (mNumberOfSections ?h) * sizeof_PeImageSectionHeader"
      by (simp only: unat_ucast_u32 header_size)
    then have "unat (ucast ?n :: u64) \<noteq> 0" by (simp add: pe_sizes)
    then have "(ucast ?n :: u64) \<noteq> 0" by (metis unat_0)
    moreover have "unat (ucast ?off :: u64) + unat (ucast ?n :: u64) \<le> length content" unfolding n off using f by simp
    ultimately have "sdata (rd (ucast ?off) (ucast ?n)) = Some (slice (unat (ucast ?off :: u64)) (unat (ucast ?n :: u64)) content)"
      by (rule read_slice)
    then show ?thesis unfolding n off by (simp add: pe_bytes_def)
  qed
  ultimately show ?thesis by simp
qed

lemma ReadSectionPe_reads:
  assumes "pe_file content" and "compares_names strncmpa" and "length nm = 8"
    and "List.find (named nm) (pe_sections content) = Some s" and "mSizeOfRawData s \<noteq> 0"
    and "unat (mPointerToRawData s) + unat (mSizeOfRawData s) \<le> length content"
  shows "ReadSectionPe strncmpa rd (pe_bytes content) nm
    = Some (Some (slice (unat (mPointerToRawData s)) (unat (mSizeOfRawData s)) content))"
proof -
  have "(ucast (mSizeOfRawData s) :: u64) \<noteq> 0" by (rule wide_nonzero [OF assms(5)])
  then show ?thesis
    using read_slice [of "ucast (mSizeOfRawData s)" "ucast (mPointerToRawData s)"] assms
    by (simp add: ReadSectionPe_def FindSectionPe_first Let_def)
qed

lemma ReadSectionPe_absent:
  assumes "pe_file content" and "compares_names strncmpa" and "length nm = 8"
    and "\<forall>s. List.find (named nm) (pe_sections content) = Some s \<longrightarrow> mSizeOfRawData s = 0"
  shows "ReadSectionPe strncmpa rd (pe_bytes content) nm = Some None"
  using assms by (simp add: ReadSectionPe_def FindSectionPe_first split: option.split)

lemma LoadSectionPe_loads:
  assumes "pe_file content" and "compares_names strncmpa" and "length nm = 8"
    and "List.find (named nm) (pe_sections content) = Some s" and "mVirtualSize s \<noteq> 0" and "mSizeOfRawData s \<noteq> 0"
    and "unat (mPointerToRawData s) + unat (mSizeOfRawData s) \<le> length content"
    and "unat (mVirtualSize s) + 4095 < 2 ^ 32" and "unat (mSizeOfRawData s) \<le> pages_of (unat (mVirtualSize s))"
  shows "LoadSectionPe strncmpa rd (pe_bytes content) nm
    = Some (Some (slice (unat (mPointerToRawData s)) (unat (mSizeOfRawData s)) content
        @ replicate (pages_of (unat (mVirtualSize s)) - unat (mSizeOfRawData s)) 0))"
proof -
  let ?n = "ucast (mSizeOfRawData s) :: u64" and ?raw = "slice (unat (mPointerToRawData s)) (unat (mSizeOfRawData s)) content"
  have n: "?n \<noteq> 0" by (rule wide_nonzero [OF assms(6)])
  have len: "length ?raw = unat (mSizeOfRawData s)" by (rule length_slice [OF assms(7)])
  then have "rdn ?raw 0 (unat (mSizeOfRawData s)) = Some ?raw" by (simp add: rdn_def slice_def)
  moreover have "put_bytes 0 ?raw (replicate (unat (page_round (mVirtualSize s))) 0)
      = Some (?raw @ replicate (pages_of (unat (mVirtualSize s)) - unat (mSizeOfRawData s)) 0)"
    using assms(9) len by (simp add: put_bytes_def page_round_unat [OF assms(8)])
  ultimately show ?thesis
    using read_slice [of ?n "ucast (mPointerToRawData s)"] assms(1-7) n by (simp add: LoadSectionPe_def FindSectionPe_first Let_def)
qed

text \<open>A section with no raw data is not loaded: a read of no bytes is an error.\<close>

lemma LoadSectionPe_no_data:
  assumes "pe_file content" and "compares_names strncmpa" and "length nm = 8"
    and "List.find (named nm) (pe_sections content) = Some s" and "mSizeOfRawData s = 0"
  shows "LoadSectionPe strncmpa rd (pe_bytes content) nm = Some None"
  using assms read_nothing by (simp add: LoadSectionPe_def FindSectionPe_first Let_def)

end

section \<open>Relocation blocks\<close>

text \<open>The size of a block may lead back to the block before, for the offset is a 32-bit sum: the loop over the
  blocks of such a section never ends.\<close>

definition cyclic_relocations :: bytes where
  "cyclic_relocations = le_bytes 4 0x1000 @ le_bytes 4 8 @ le_bytes 4 0x1000 @ le_bytes 4 0xFFFFFFF8"

lemma cyclic_blocks:
  "rd32 cyclic_relocations 4 = Some 8" "rd_u32 cyclic_relocations 0 = 0x1000"
  "rd32 cyclic_relocations 12 = Some 0xFFFFFFF8" "rd_u32 cyclic_relocations 8 = 0x1000"
  by (simp_all add: cyclic_relocations_def rd32_def rd_u32_def le_nat_le_bytes)

theorem cyclic_relocations_never_end: "reloc_blocks cyclic_relocations 0 ns = None"
proof -
  have wrap: "(4294967296 :: u32) = 0" by simp
  have "\<not> (relocs = cyclic_relocations \<and> (off = 0 \<or> off = 8))" if "reloc_blocks relocs off ns = Some r" for relocs off ns r
    by (rule reloc_blocks.raw_induct [where P = "\<lambda>relocs off ns r. \<not> (relocs = cyclic_relocations \<and> (off = 0 \<or> off = 8))", OF _ that])
      (fastforce simp: cyclic_blocks wrap split: option.splits if_splits)
  then show ?thesis by (metis not_None_eq)
qed

end
