(* ===== verification/Boot_Exec.thy ===== *)
theory Boot_Exec
  imports Boot_Pe
begin

text \<open>
  The executable loader of the boot loader (\<^verbatim>\<open>drivers/executable/eload.c\<close>): the tree of loaded
  executables and the search in it, the resolution of exports, and the loading of an executable with the
  libraries it imports.  The comparisons of the firmware library and the drive (the opening of a file) are
  the parameters of \<open>firmware\<close>; the page allocator hands out the addresses of a list.  Results are those of
  \<open>Boot_Pe\<close>; reading the name of an executable that has none is a null access, \<open>None\<close>.
\<close>

section \<open>The firmware\<close>

record firmware =
  strncmpa :: strncmp
  strcmpa :: "bytes \<Rightarrow> bytes \<Rightarrow> int"
  drive :: "bytes \<Rightarrow> reader option"

section \<open>Loaded executables\<close>

type_synonym loaded_section = "bytes \<times> u64 \<times> u64"

datatype loaded =
  Loaded (ldBase: u64) (EntryPoint: u64) (ldName: "bytes option") (This: "pe_executable option")
    (Sections: "loaded_section list") (Dependencies: "loaded list") (ldImage: bytes)

definition Stub :: loaded where
  "Stub = Loaded 0 0 None None [] [] []"

fun loaded_size :: "loaded \<Rightarrow> nat" where
  "loaded_size (Loaded _ _ _ _ _ deps _) = 2 + (\<Sum>d \<leftarrow> deps. loaded_size d)"

text \<open>The bytes that a comparison reads for a name; \<open>None\<close> is the null pointer.\<close>

definition name_of :: "loaded \<Rightarrow> bytes option" where
  "name_of n = map_option (\<lambda>s. s @ [0]) (ldName n)"

text \<open>
  The search: the used slots of the array \<open>Binaries\<close> with their counters, the deepest first.  The array
  has 32 slots, and a dependency below the last of them is written behind it.
\<close>

definition stack_weight :: "(loaded \<times> nat) list \<Rightarrow> nat" where
  "stack_weight st = (\<Sum>(n, c) \<leftarrow> st. 1 + (\<Sum>d \<leftarrow> drop c (Dependencies n). loaded_size d))"

lemma sum_list_drop: "c < length xs \<Longrightarrow> (\<Sum>d \<leftarrow> drop c xs. f d) = f (xs ! c) + (\<Sum>d \<leftarrow> drop (Suc c) xs. f d)"
  by (simp add: Cons_nth_drop_Suc [symmetric])

function search_loop :: "firmware \<Rightarrow> bytes \<Rightarrow> (loaded \<times> nat) list \<Rightarrow> loaded option option" where
  "search_loop fw Binary [] = Some None"
| "search_loop fw Binary ((n, Counter) # st) =
    (case name_of n of
       None \<Rightarrow> None
     | Some nm \<Rightarrow>
         if strcmpa fw nm Binary \<noteq> 0 then
           (if Counter < length (Dependencies n)
            then (if length ((n, Counter) # st) = 32 then None
                  else search_loop fw Binary ((Dependencies n ! Counter, 0) # (n, Counter + 1) # st))
            else search_loop fw Binary st)
         else Some (Some n))"
  by pat_completeness auto
termination
proof (relation "measure (\<lambda>(fw, Binary, st). stack_weight st)", simp_all add: stack_weight_def)
  fix n :: loaded and c assume "c < length (Dependencies n)"
  moreover have "loaded_size (Dependencies n ! c) = 2 + (\<Sum>e \<leftarrow> Dependencies (Dependencies n ! c). loaded_size e)"
    by (cases "Dependencies n ! c") simp
  ultimately show "Suc ((\<Sum>d \<leftarrow> Dependencies (Dependencies n ! c). loaded_size d) + (\<Sum>d \<leftarrow> drop (Suc c) (Dependencies n). loaded_size d))
      < (\<Sum>d \<leftarrow> drop c (Dependencies n). loaded_size d)"
    by (simp add: sum_list_drop)
qed

declare search_loop.simps(2) [simp del]

definition SearchBinary :: "firmware \<Rightarrow> loaded \<Rightarrow> bytes \<Rightarrow> loaded option option" where
  "SearchBinary fw Root Binary = search_loop fw Binary [(Root, 0)]"

section \<open>Exports\<close>

definition UINT32_MAX :: u32 where "UINT32_MAX = 0xFFFFFFFF"

text \<open>The loop over the exported names; \<open>UINT32_MAX\<close> stands for no index.\<close>

fun export_index :: "firmware \<Rightarrow> pe_executable \<Rightarrow> bytes \<Rightarrow> bytes \<Rightarrow> u32 \<Rightarrow> nat list \<Rightarrow> u32 option" where
  "export_index fw ex exports Name nTable [] = Some UINT32_MAX"
| "export_index fw ex exports Name nTable (i # k) = do {
     ords \<leftarrow> exOrdinals ex;
     idx \<leftarrow> rd16 exports (ords + 2 * i);
     (if ucast idx \<ge> nTable then export_index fw ex exports Name nTable k
      else do {
        names \<leftarrow> exNamePointerRVAs ex;
        rva \<leftarrow> rd32 exports (names + 4 * i);
        exportName \<leftarrow> GetAtRVAFromSectionDataPe (strncmpa fw) rva PeExportSection (exRaw ex);
        (case exportName of
           None \<Rightarrow> export_index fw ex exports Name nTable k
         | Some p \<Rightarrow> if strcmpa fw (drop p exports) Name = 0 then Some (ucast idx)
                     else export_index fw ex exports Name nTable k)
      })
   }"

text \<open>\<open>Some None\<close> is the result false.\<close>

definition ResolveExport :: "firmware \<Rightarrow> loaded \<Rightarrow> bool \<Rightarrow> u64 \<Rightarrow> bytes \<Rightarrow> u64 option option" where
  "ResolveExport fw Import OrdinalImport Ordinal Name =
    (case This Import of
       None \<Rightarrow> None
     | Some ex \<Rightarrow>
         (case (exExport ex, exRawExportAddresses ex) of
            (Some exports, Some addresses) \<Rightarrow> do {
              nTable \<leftarrow> mNTableEntries exports;
              exportIndex \<leftarrow>
                (if OrdinalImport
                 then do {
                   ordBase \<leftarrow> mOrdinalBase exports;
                   Some (if Ordinal < ucast ordBase then None
                         else let e = ucast (Ordinal - ucast ordBase) in if e \<ge> nTable then None else Some e)
                 }
                 else do {
                   nNames \<leftarrow> mNNamePointers exports;
                   e \<leftarrow> export_index fw ex exports Name nTable [0..<unat nNames];
                   Some (if e = UINT32_MAX then None else Some e)
                 });
              (case exportIndex of
                 None \<Rightarrow> Some None
               | Some exportIndex \<Rightarrow> do {
                 exportRVA \<leftarrow> rd32 exports (addresses + 4 * unat exportIndex);
                 dir \<leftarrow> RVAs (exRaw ex);
                 dirRVA \<leftarrow> rd32 (exRaw ex) dir;
                 dirSize \<leftarrow> rd32 (exRaw ex) (dir + 4);
                 Some (if exportRVA = 0 \<or> (exportRVA \<ge> dirRVA \<and> exportRVA - dirRVA < dirSize) then None
                       else Some (ldBase Import + ucast exportRVA))
               })
            }
          | _ \<Rightarrow> Some None))"

section \<open>Paths\<close>

definition is_separator :: "u8 \<Rightarrow> bool" where
  "is_separator c = (c = 0x5C \<or> c = 0x2F)"

text \<open>The position behind the last separator, the character at the start left out.\<close>

fun name_start :: "bytes \<Rightarrow> nat \<Rightarrow> nat" where
  "name_start f 0 = 0"
| "name_start f (Suc cc) = (if Suc cc < length f \<and> is_separator (f ! Suc cc) then Suc cc + 1 else name_start f cc)"

definition file_name :: "bytes \<Rightarrow> bytes" where
  "file_name f = drop (name_start f (length f)) f"

fun directory_length :: "bytes \<Rightarrow> nat \<Rightarrow> nat" where
  "directory_length f 0 = 0"
| "directory_length f (Suc n) = (if is_separator (f ! n) then Suc n else directory_length f n)"

definition library_path :: "bytes \<Rightarrow> bytes \<Rightarrow> bytes" where
  "library_path f lib = take (directory_length f (length f)) f @ lib"

text \<open>A string up to its end; none when it runs out of its buffer.\<close>

definition c_string :: "bytes \<Rightarrow> bytes option" where
  "c_string bs = (if 0 \<in> set bs then Some (takeWhile (\<lambda>c. c \<noteq> 0) bs) else None)"

section \<open>Binding imports\<close>

text \<open>A lookup entry: whether it names an ordinal, and the ordinal or the address of the name.\<close>

definition lookup_entry :: "u16 \<Rightarrow> bytes \<Rightarrow> nat \<Rightarrow> (bool \<times> u64) option" where
  "lookup_entry magic tbl off =
    (if magic = Pe32 then map_option (\<lambda>e. (bit e 31, ucast (e AND mask 31))) (rd32 tbl off)
     else if off + 8 \<le> length tbl then Some (bit (rd_u64 tbl off) 63, rd_u64 tbl off AND mask 63)
     else None)"

text \<open>The name of an import; an address outside the section leaves a wild pointer.\<close>

definition import_symbol :: "firmware \<Rightarrow> pe_executable \<Rightarrow> bytes \<Rightarrow> bool \<Rightarrow> u64 \<Rightarrow> bytes option" where
  "import_symbol fw ex imports OrdinalImport ImportSym =
    (if OrdinalImport then Some []
     else do {
       NameEntry \<leftarrow> GetAtRVAFromSectionDataPe (strncmpa fw) (ucast ImportSym) PeImportSection (exRaw ex);
       p \<leftarrow> NameEntry;
       Some (drop (p + 2) imports)
     })"

definition iat_bytes :: "u16 \<Rightarrow> u64 \<Rightarrow> bytes" where
  "iat_bytes magic Address = (if magic = Pe32 then le_bytes 4 (unat (ucast Address :: u32)) else le_bytes 8 (unat Address))"

fun bind_imports :: "firmware \<Rightarrow> pe_executable \<Rightarrow> bytes \<Rightarrow> nat \<Rightarrow> nat \<Rightarrow> loaded \<Rightarrow> nat list \<Rightarrow> bytes \<Rightarrow> bytes option option" where
  "bind_imports fw ex imports tbl iat Import [] mem = Some (Some mem)"
| "bind_imports fw ex imports tbl iat Import (ImportCounter # k) mem =
    (let w = lookup_size (exMagic ex) in do {
       (OrdinalImport, ImportSym) \<leftarrow> lookup_entry (exMagic ex) imports (tbl + w * ImportCounter);
       Name \<leftarrow> import_symbol fw ex imports OrdinalImport ImportSym;
       Address \<leftarrow> ResolveExport fw Import OrdinalImport ImportSym Name;
       (case Address of
          None \<Rightarrow> Some None
        | Some a \<Rightarrow> do {
            mem' \<leftarrow> put_bytes (iat + w * ImportCounter) (iat_bytes (exMagic ex) a) mem;
            bind_imports fw ex imports tbl iat Import k mem'
          })
     })"

section \<open>Loading\<close>

fun add_dependency :: "loaded \<Rightarrow> loaded \<Rightarrow> loaded" where
  "add_dependency (Loaded b e nm ex ss deps img) n = Loaded b e nm ex ss (deps @ [n]) img"

fun add_section :: "loaded \<Rightarrow> loaded_section \<Rightarrow> loaded" where
  "add_section (Loaded b e nm ex ss deps img) s = Loaded b e nm ex (ss @ [s]) deps img"

fun set_image :: "loaded \<Rightarrow> bytes \<Rightarrow> loaded" where
  "set_image (Loaded b e nm ex ss deps _) img = Loaded b e nm ex ss deps img"

type_synonym load_result = "(loaded \<times> u64 list) option option"

text \<open>The loop over the imported libraries.  \<open>Root\<close> is the executable above, whose last dependency is the
  executable \<open>self\<close> that is being loaded; a library that is not found below it is loaded below \<open>self\<close>.\<close>

fun load_imports ::
  "(bytes \<Rightarrow> loaded \<Rightarrow> u64 list \<Rightarrow> load_result) \<Rightarrow> firmware \<Rightarrow> bytes \<Rightarrow> pe_executable \<Rightarrow> bytes \<Rightarrow> loaded \<Rightarrow>
    nat list \<Rightarrow> loaded \<Rightarrow> u64 list \<Rightarrow> load_result" where
  "load_imports load fw f ex imports Root [] self al = Some (Some (self, al))"
| "load_imports load fw f ex imports Root (ImportEntry # k) self al = do {
     LibName \<leftarrow> GetAtRVAFromSectionDataPe (strncmpa fw) (import_NameRVA imports ImportEntry) PeImportSection (exRaw ex);
     (case LibName of
        None \<Rightarrow> Some None
      | Some p \<Rightarrow> do {
          found \<leftarrow> SearchBinary fw (add_dependency Root self) (drop p imports);
          r \<leftarrow> (case found of
             Some n \<Rightarrow> Some (Some (n, self, al))
           | None \<Rightarrow> do {
               lib \<leftarrow> c_string (drop p imports);
               res \<leftarrow> load (library_path f lib) self al;
               Some (map_option (\<lambda>(n, al'). (n, add_dependency self n, al')) res)
             });
          (case r of
             None \<Rightarrow> Some None
           | Some (Import, self', al') \<Rightarrow>
               (case exImports ex ! ImportEntry of
                  (None, _) \<Rightarrow> Some None
                | (Some tbl, nEntries) \<Rightarrow> do {
                    mem \<leftarrow> bind_imports fw ex imports tbl (unat (import_AddressRVA imports ImportEntry)) Import [0..<nEntries] (ldImage self');
                    (case mem of
                       None \<Rightarrow> Some None
                     | Some img \<Rightarrow> load_imports load fw f ex imports Root k (set_image self' img) al')
                  }))
        })
   }"

definition is_loaded_name :: "firmware \<Rightarrow> bytes \<Rightarrow> bool" where
  "is_loaded_name fw nm = (strncmpa fw nm PeCodeSection 8 = 0 \<or> strncmpa fw nm PeDefDataSection 8 = 0
     \<or> strncmpa fw nm PeUDefDataSection 8 = 0 \<or> strncmpa fw nm PeRDefDataSection 8 = 0)"

definition section_record :: "u64 \<Rightarrow> pe_section \<Rightarrow> loaded_section" where
  "section_record ImageBase s = (mName s, ImageBase + ucast (mVirtualAddress s), ucast (max (mSizeOfRawData s) (mVirtualSize s)))"

fun load_sections ::
  "(bytes \<Rightarrow> loaded \<Rightarrow> u64 list \<Rightarrow> load_result) \<Rightarrow> firmware \<Rightarrow> reader \<Rightarrow> bytes \<Rightarrow> pe_executable \<Rightarrow> loaded \<Rightarrow>
    nat list \<Rightarrow> loaded \<Rightarrow> u64 list \<Rightarrow> load_result" where
  "load_sections load fw rd f ex Root [] self al = Some (Some (self, al))"
| "load_sections load fw rd f ex Root (cc # k) self al = do {
     s \<leftarrow> PISHs (exRaw ex) cc;
     (if is_loaded_name fw (mName s) then do {
        Temp \<leftarrow> LoadSectionPe (strncmpa fw) rd (exRaw ex) (mName s);
        (case Temp of
           None \<Rightarrow> load_sections load fw rd f ex Root k self al
         | Some tmp \<Rightarrow> do {
             pages \<leftarrow> rdn tmp 0 (unat (page_round (mVirtualSize s)));
             mem \<leftarrow> put_bytes (unat (page_round (mVirtualAddress s))) pages (ldImage self);
             load_sections load fw rd f ex Root k (add_section (set_image self mem) (section_record (ldBase self) s)) al
           })
      }
      else if strncmpa fw (mName s) PeImportSection 8 = 0 then do {
        imports \<leftarrow> (case exImport ex of None \<Rightarrow> Some [] | Some i \<Rightarrow> Some i);
        r \<leftarrow> load_imports load fw f ex imports Root [0..<length (exImports ex)] self al;
        (case r of
           None \<Rightarrow> Some None
         | Some (self', al') \<Rightarrow>
             load_sections load fw rd f ex Root k
               (if exImports ex = [] then self' else add_section self' (section_record (ldBase self') s)) al')
      }
      else load_sections load fw rd f ex Root k self al)
   }"

definition POH :: "bytes \<Rightarrow> pe_optional option" where
  "POH header = map_option decode_optional (rdn header sizeof_PeHeader 60)"

text \<open>The first argument bounds the nesting of libraries; a deeper one gives \<open>None\<close>.\<close>

primrec LoadBinary :: "nat \<Rightarrow> firmware \<Rightarrow> bytes \<Rightarrow> loaded \<Rightarrow> u64 list \<Rightarrow> load_result" where
  "LoadBinary 0 = (\<lambda>fw f Root al. None)"
| "LoadBinary (Suc depth) = (\<lambda>fw f Root al.
     (case drive fw f of
        None \<Rightarrow> Some None
      | Some rd \<Rightarrow> do {
          ex \<leftarrow> ExpandPeExecutableFormat (strncmpa fw) rd;
          opt \<leftarrow> POH (exRaw ex);
          h \<leftarrow> PH (exRaw ex);
          (case al of
             [] \<Rightarrow> None
           | b # al' \<Rightarrow>
               load_sections (LoadBinary depth fw) fw rd f ex Root [0..<unat (mNumberOfSections h)]
                 (Loaded b (b + ucast (mAddressOfEntryPoint opt)) (Some (file_name f)) (Some ex) [] []
                    (replicate (unat (page_round (mSizeOfImage opt))) 0)) al')
        }))"

definition LoadExecutable :: "nat \<Rightarrow> firmware \<Rightarrow> bytes \<Rightarrow> u64 list \<Rightarrow> loaded option option" where
  "LoadExecutable depth fw f al = map_option (map_option fst) (LoadBinary depth fw f Stub al)"

text \<open>The permissions that are asked for the pages of the sections.\<close>

datatype memory_attribute = EFI_MEMORY_RO | EFI_MEMORY_XP

fun section_attributes :: "firmware \<Rightarrow> bytes \<Rightarrow> u64 \<Rightarrow> nat list \<Rightarrow> (u64 \<times> u32 \<times> memory_attribute list) list option" where
  "section_attributes fw header b [] = Some []"
| "section_attributes fw header b (cc # k) = do {
     s \<leftarrow> PISHs header cc;
     r \<leftarrow> section_attributes fw header b k;
     Some (let attrs = (if strncmpa fw (mName s) PeCodeSection 8 = 0 then [EFI_MEMORY_RO]
                        else if strncmpa fw (mName s) PeRDefDataSection 8 = 0 then [EFI_MEMORY_RO, EFI_MEMORY_XP] else [])
           in if attrs = [] then r
              else (b + ucast (page_round (mVirtualAddress s)), page_round (mVirtualSize s), attrs) # r)
   }"

section \<open>The search in the tree\<close>

fun preorder :: "loaded \<Rightarrow> loaded list" where
  "preorder (Loaded b e nm ex ss deps img) = Loaded b e nm ex ss deps img # concat (map preorder deps)"

fun height :: "loaded \<Rightarrow> nat" where
  "height (Loaded b e nm ex ss deps img) = 1 + fold max (map height deps) 0"

lemma fold_max_le: "fold max xs a \<le> m \<longleftrightarrow> (\<forall>x \<in> set xs. x \<le> m) \<and> a \<le> (m :: nat)"
  by (induction xs arbitrary: a) auto

lemma height_deps: "height n \<le> Suc m \<longleftrightarrow> (\<forall>d \<in> set (Dependencies n). height d \<le> m)"
  by (cases n) (simp add: fold_max_le)

lemma height_pos: "0 < height n"
  by (cases n) simp

lemma find_append: "List.find P (xs @ ys) = (case List.find P xs of None \<Rightarrow> List.find P ys | Some x \<Rightarrow> Some x)"
  by (induction xs) simp_all

text \<open>Where the search ends: at an executable of the wanted name, or at one without a name, whose name it
  cannot read.\<close>

definition stops :: "firmware \<Rightarrow> bytes \<Rightarrow> loaded \<Rightarrow> bool" where
  "stops fw Binary n = (case ldName n of None \<Rightarrow> True | Some s \<Rightarrow> strcmpa fw (s @ [0]) Binary = 0)"

definition outcome :: "loaded \<Rightarrow> loaded option option" where
  "outcome n = (if ldName n = None then None else Some (Some n))"

lemma search_stops: "stops fw Binary n \<Longrightarrow> search_loop fw Binary ((n, c) # st) = outcome n"
  by (subst search_loop.simps) (auto simp: stops_def outcome_def name_of_def split: option.splits)

lemma search_goes_on:
  "\<not> stops fw Binary n \<Longrightarrow> search_loop fw Binary ((n, c) # st) =
     (if c < length (Dependencies n)
      then (if length ((n, c) # st) = 32 then None else search_loop fw Binary ((Dependencies n ! c, 0) # (n, c + 1) # st))
      else search_loop fw Binary st)"
  by (subst search_loop.simps) (auto simp: stops_def name_of_def split: option.splits)

lemma search_from:
  "height n + length st \<le> 32 \<Longrightarrow> c = 0 \<or> \<not> stops fw Binary n \<Longrightarrow>
   search_loop fw Binary ((n, c) # st)
     = (case List.find (stops fw Binary) ((if c = 0 then [n] else []) @ concat (map preorder (drop c (Dependencies n)))) of
          Some m \<Rightarrow> outcome m | None \<Rightarrow> search_loop fw Binary st)"
proof (induction "stack_weight [(n, c)]" arbitrary: n c st rule: less_induct)
  case less
  show ?case
  proof (cases "stops fw Binary n")
    case True
    then show ?thesis using less(3) by (simp add: search_stops)
  next
    case False
    show ?thesis
    proof (cases "c < length (Dependencies n)")
      case True
      let ?d = "Dependencies n ! c"
      have size: "loaded_size ?d = 2 + (\<Sum>e \<leftarrow> Dependencies ?d. loaded_size e)" by (cases ?d) simp
      have n: "height n \<le> Suc (31 - length st)" "length st < 32" using less(2) height_pos [of n] by linarith+
      have h: "height ?d \<le> 31 - length st" using n(1) True unfolding height_deps by simp
      then have len: "length ((n, c) # st) \<noteq> 32" using height_pos [of ?d] by simp
      have d: "search_loop fw Binary ((?d, 0) # (n, c + 1) # st)
          = (case List.find (stops fw Binary) (preorder ?d) of Some m \<Rightarrow> outcome m | None \<Rightarrow> search_loop fw Binary ((n, c + 1) # st))"
        using less(1) [of ?d 0 "(n, c + 1) # st"] h n(2) True size by (cases ?d) (simp add: stack_weight_def sum_list_drop)
      have r: "search_loop fw Binary ((n, c + 1) # st)
          = (case List.find (stops fw Binary) (concat (map preorder (drop (c + 1) (Dependencies n)))) of
               Some m \<Rightarrow> outcome m | None \<Rightarrow> search_loop fw Binary st)"
        using less(1) [of n "c + 1" st] less(2) True False by (simp add: stack_weight_def sum_list_drop size)
      have "concat (map preorder (drop c (Dependencies n))) = preorder ?d @ concat (map preorder (drop (c + 1) (Dependencies n)))"
        using True by (simp add: Cons_nth_drop_Suc [symmetric])
      then have l: "List.find (stops fw Binary) ((if c = 0 then [n] else []) @ concat (map preorder (drop c (Dependencies n))))
          = List.find (stops fw Binary) (preorder ?d @ concat (map preorder (drop (c + 1) (Dependencies n))))"
        using False by simp
      have s: "search_loop fw Binary ((n, c) # st) = search_loop fw Binary ((?d, 0) # (n, c + 1) # st)"
        using len True False by (simp add: search_goes_on)
      show ?thesis unfolding s d r l by (simp add: find_append split: option.split)
    next
      case False
      then show ?thesis using \<open>\<not> stops fw Binary n\<close> by (simp add: search_goes_on)
    qed
  qed
qed

text \<open>C18: in a tree of at most 32 levels the search returns the first executable of the wanted name in
  preorder, and the null pointer when there is none; when it comes to an executable without a name
  before that, it reads through the null pointer.\<close>

theorem SearchBinary_preorder:
  assumes "height Root \<le> 32"
  shows "SearchBinary fw Root Binary =
    (case List.find (\<lambda>n. case ldName n of None \<Rightarrow> True | Some s \<Rightarrow> strcmpa fw (s @ [0]) Binary = 0) (preorder Root) of
       None \<Rightarrow> Some None
     | Some n \<Rightarrow> if ldName n = None then None else Some (Some n))"
proof -
  have "preorder Root = [Root] @ concat (map preorder (Dependencies Root))" by (cases Root) simp
  then show ?thesis
    using search_from [of Root "[]" 0 fw Binary] assms
    by (simp add: SearchBinary_def stops_def [abs_def] outcome_def split: option.split)
qed

text \<open>A chain of executables, each the only dependency of the one before.  From 33 of them on the search
  for a name that is not there writes behind its array.\<close>

primrec chain_of :: "nat \<Rightarrow> loaded" where
  "chain_of 0 = Loaded 0 0 (Some []) None [] [] []"
| "chain_of (Suc k) = Loaded 0 0 (Some []) None [] [chain_of k] []"

lemma chain_search: "strcmpa fw [0] Binary \<noteq> 0 \<Longrightarrow> length st \<le> 31 \<Longrightarrow> 31 - length st < k \<Longrightarrow>
   search_loop fw Binary ((chain_of k, 0) # st) = None"
proof (induction k arbitrary: st)
  case (Suc k)
  have go: "\<not> stops fw Binary (chain_of (Suc k))" using Suc(2) by (simp add: stops_def)
  show ?case
  proof (cases "length st = 31")
    case False
    then have "search_loop fw Binary ((chain_of k, 0) # (chain_of (Suc k), 1) # st) = None" using Suc by (intro Suc(1)) simp_all
    then show ?thesis using False search_goes_on [OF go, of 0 st] by simp
  qed (use search_goes_on [OF go, of 0 st] in simp)
qed simp

theorem deep_search_overflows:
  assumes "strcmpa fw [0] Binary \<noteq> 0"
  shows "SearchBinary fw (chain_of 32) Binary = None" "height (chain_of 32) = 33"
proof -
  show "SearchBinary fw (chain_of 32) Binary = None" using chain_search [of fw Binary "[]" 32] assms by (simp add: SearchBinary_def)
  have "height (chain_of k) = k + 1" for k by (induction k) simp_all
  then show "height (chain_of 32) = 33" by simp
qed

section \<open>The image of an executable\<close>

text \<open>The sections whose data is loaded, where the data lies in the image, and the byte it gives there.\<close>

definition filled :: "pe_section \<Rightarrow> bool" where
  "filled s = ((named PeCodeSection s \<or> named PeDefDataSection s \<or> named PeUDefDataSection s \<or> named PeRDefDataSection s)
     \<and> mVirtualSize s \<noteq> 0 \<and> mSizeOfRawData s \<noteq> 0)"

definition covers :: "nat \<Rightarrow> pe_section \<Rightarrow> bool" where
  "covers j s = (unat (mVirtualAddress s) \<le> j \<and> j < unat (mVirtualAddress s) + unat (mSizeOfRawData s))"

definition image_over :: "(nat \<Rightarrow> u8) \<Rightarrow> bytes \<Rightarrow> pe_section list \<Rightarrow> nat \<Rightarrow> u8" where
  "image_over z content ss j =
    (case List.find (covers j) ss of
       None \<Rightarrow> z j
     | Some s \<Rightarrow> content ! (unat (mPointerToRawData s) + (j - unat (mVirtualAddress s))))"

definition image_byte :: "bytes \<Rightarrow> pe_section list \<Rightarrow> nat \<Rightarrow> u8" where
  "image_byte = image_over (\<lambda>_. 0)"

text \<open>A section that fits: its data lies in the file and inside its own pages, and the pages in the image.\<close>

definition fits :: "bytes \<Rightarrow> nat \<Rightarrow> pe_section \<Rightarrow> bool" where
  "fits content N s = (unat (mPointerToRawData s) + unat (mSizeOfRawData s) \<le> length content
     \<and> unat (mVirtualSize s) + 4095 < 2 ^ 32 \<and> unat (mSizeOfRawData s) \<le> pages_of (unat (mVirtualSize s))
     \<and> unat (mVirtualAddress s) mod EFI_PAGE_SIZE = 0 \<and> unat (mVirtualAddress s) + pages_of (unat (mVirtualSize s)) \<le> N)"

definition apart :: "pe_section \<Rightarrow> pe_section \<Rightarrow> bool" where
  "apart s t = (unat (mVirtualAddress s) + pages_of (unat (mVirtualSize s)) \<le> unat (mVirtualAddress t)
     \<or> unat (mVirtualAddress t) + pages_of (unat (mVirtualSize t)) \<le> unat (mVirtualAddress s))"

definition in_pages :: "nat \<Rightarrow> pe_section \<Rightarrow> bool" where
  "in_pages j s = (unat (mVirtualAddress s) \<le> j \<and> j < unat (mVirtualAddress s) + pages_of (unat (mVirtualSize s)))"

lemma page_round_aligned:
  assumes m: "unat a mod EFI_PAGE_SIZE = 0"
  shows "unat (page_round a) = unat a"
proof -
  obtain k where k: "unat a = 4096 * k" using m by (auto simp: EFI_PAGE_SIZE_def)
  have "unat a < 2 ^ 32" using unsigned_less [of a, where 'a = nat] by simp
  then have "unat a + 4095 < 2 ^ 32" using k by simp
  from page_round_unat [OF this] show ?thesis using k by (simp add: pages_of_def EFI_PAGE_SIZE_def)
qed

lemma put_bytes_nth:
  assumes "put_bytes off bs buf = Some buf'"
  shows "length buf' = length buf"
    "j < length buf \<Longrightarrow> buf' ! j = (if off \<le> j \<and> j < off + length bs then bs ! (j - off) else buf ! j)"
proof -
  have b: "off + length bs \<le> length buf" "buf' = take off buf @ bs @ drop (off + length bs) buf"
    using assms by (simp_all add: put_bytes_def split: if_splits)
  then show "length buf' = length buf" by simp
  show "buf' ! j = (if off \<le> j \<and> j < off + length bs then bs ! (j - off) else buf ! j)" if "j < length buf"
    using b that by (auto simp: nth_append min_def)
qed

lemma put_bytes_fits: "off + length bs \<le> length buf \<Longrightarrow> \<exists>buf'. put_bytes off bs buf = Some buf'"
  by (simp add: put_bytes_def)

lemma rdn_all: "length bs = n \<Longrightarrow> rdn bs 0 n = Some bs"
  by (simp add: rdn_def slice_def)

text \<open>Adding a section to those that are in place.\<close>

lemma image_over_add:
  assumes old: "\<And>j. j < length img \<Longrightarrow> img ! j = image_over z content ss j"
    and s: "fits content (length img) s" and apart: "\<forall>t \<in> set ss. fits content (length img) t \<and> apart s t"
    and raw: "raw = slice (unat (mPointerToRawData s)) (unat (mSizeOfRawData s)) content
      @ replicate (pages_of (unat (mVirtualSize s)) - unat (mSizeOfRawData s)) 0"
    and put: "put_bytes (unat (mVirtualAddress s)) raw img = Some img'" and z: "\<And>j. in_pages j s \<Longrightarrow> z j = 0"
  shows "j < length img \<Longrightarrow> img' ! j = image_over z content (ss @ [s]) j"
proof -
  assume j: "j < length img"
  let ?va = "unat (mVirtualAddress s)" and ?n = "pages_of (unat (mVirtualSize s))" and ?r = "unat (mSizeOfRawData s)"
  have f: "unat (mPointerToRawData s) + ?r \<le> length content" "?r \<le> ?n" using s by (simp_all add: fits_def)
  then have len: "length raw = ?n" unfolding raw by (simp add: length_slice)
  show ?thesis
  proof (cases "?va \<le> j \<and> j < ?va + ?n")
    case True
    have "\<not> covers j t" if "t \<in> set ss" for t
      using that apart True by (auto simp: covers_def apart_def fits_def)
    then have none: "List.find (covers j) ss = None" by (simp add: find_None_iff)
    have "raw ! (j - ?va) = (if covers j s then content ! (unat (mPointerToRawData s) + (j - ?va)) else 0)"
      using True f unfolding raw by (auto simp: covers_def nth_append length_slice slice_def)
    then show ?thesis using put_bytes_nth(2) [OF put j] True len none z [of j] by (simp add: image_over_def find_append in_pages_def)
  next
    case False
    then have "\<not> covers j s" using f by (auto simp: covers_def)
    then show ?thesis
      using put_bytes_nth(2) [OF put j] False len old [OF j] by (auto simp: image_over_def find_append split: option.split)
  qed
qed

definition loads :: "pe_section \<Rightarrow> bool" where
  "loads s = (named PeCodeSection s \<or> named PeDefDataSection s \<or> named PeUDefDataSection s \<or> named PeRDefDataSection s)"

lemma length_section_names:
  "length PeCodeSection = 8" "length PeDefDataSection = 8" "length PeUDefDataSection = 8" "length PeRDefDataSection = 8"
  "length PeImportSection = 8" "length PeExportSection = 8" "length PeRelocDataSection = 8" "length PeResourceSection = 8"
  "length PeExceptionInfoSection = 8"
  by (simp_all add: PeCodeSection_def PeDefDataSection_def PeUDefDataSection_def PeRDefDataSection_def PeImportSection_def
      PeExportSection_def PeRelocDataSection_def PeResourceSection_def PeExceptionInfoSection_def char8_def)

lemma is_loaded_name_iff:
  "compares_names (strncmpa fw) \<Longrightarrow> length (mName s) = 8 \<Longrightarrow> is_loaded_name fw (mName s) = loads s"
  by (simp add: is_loaded_name_def loads_def compares_names_def named_def length_section_names)

lemma find_own_name:
  assumes "distinct (map (\<lambda>s. name8 (mName s)) ss)" and "s \<in> set ss"
  shows "List.find (named (mName s)) ss = Some s"
  using assms by (induction ss) (auto simp: named_def image_iff)

lemma LoadSectionPe_own:
  assumes sck: "byte_socket rd content" and f: "pe_file content" and cmp: "compares_names strncmp"
    and dist: "distinct (map (\<lambda>s. name8 (mName s)) (pe_sections content))"
    and s: "s \<in> set (pe_sections content)" "loads s" "filled s \<Longrightarrow> fits content N s"
  shows "LoadSectionPe strncmp rd (pe_bytes content) (mName s)
    = Some (if filled s then Some (slice (unat (mPointerToRawData s)) (unat (mSizeOfRawData s)) content
        @ replicate (pages_of (unat (mVirtualSize s)) - unat (mSizeOfRawData s)) 0) else None)"
proof -
  have len: "length (mName s) = 8" by (rule length_names [OF s(1) f])
  note own = find_own_name [OF dist s(1)]
  show ?thesis
  proof (cases "filled s")
    case True
    then show ?thesis
      using byte_socket.LoadSectionPe_loads [OF sck f cmp len own] s(3) by (simp add: filled_def fits_def)
  next
    case False
    then consider "mVirtualSize s = 0" | "mSizeOfRawData s = 0" using s(2) by (auto simp: filled_def loads_def)
    then show ?thesis
    proof cases
      case 1
      then show ?thesis using False own by (simp add: LoadSectionPe_def FindSectionPe_first [OF f cmp len])
    next
      case 2
      then show ?thesis using False byte_socket.LoadSectionPe_no_data [OF sck f cmp len own] by simp
    qed
  qed
qed

lemma load_sections_fills:
  assumes sck: "byte_socket rd content" and f: "pe_file content" and cmp: "compares_names (strncmpa fw)"
    and ex: "exRaw ex = pe_bytes content"
    and dist: "distinct (map (\<lambda>s. name8 (mName s)) (pe_sections content))"
    and fit: "\<forall>s \<in> set (pe_sections content). filled s \<longrightarrow> fits content N s"
    and ap: "\<forall>s \<in> set (pe_sections content). \<forall>t \<in> set (pe_sections content). filled s \<longrightarrow> filled t \<longrightarrow> s \<noteq> t \<longrightarrow> apart s t"
    and z: "\<And>s j. s \<in> set (pe_sections content) \<Longrightarrow> filled s \<Longrightarrow> in_pages j s \<Longrightarrow> z j = 0"
  shows "\<forall>cc \<in> set ks. cc < length (pe_sections content)
      \<and> (exImports ex = [] \<or> \<not> named PeImportSection (pe_sections content ! cc)) \<Longrightarrow> set ss \<subseteq> {s \<in> set (pe_sections content). filled s} \<Longrightarrow>
    distinct (ss @ map ((!) (pe_sections content)) ks) \<Longrightarrow> length img = N \<Longrightarrow>
    (\<And>j. j < N \<Longrightarrow> img ! j = image_over z content ss j) \<Longrightarrow>
    \<exists>img'. load_sections load fw rd path ex Root (ks @ rest) (Loaded b e nm exo secs deps img) al
        = load_sections load fw rd path ex Root rest
            (Loaded b e nm exo (secs @ map (section_record b) (filter filled (map ((!) (pe_sections content)) ks))) deps img') al
      \<and> length img' = N \<and> (\<forall>j < N. img' ! j = image_over z content (ss @ filter filled (map ((!) (pe_sections content)) ks)) j)"
proof (induction ks arbitrary: ss secs img)
  case Nil
  then show ?case by (intro exI [of _ img]) simp
next
  case (Cons cc k)
  let ?s = "pe_sections content ! cc"
  have cc: "cc < length (pe_sections content)" and s: "?s \<in> set (pe_sections content)" using Cons.prems(1) by simp_all
  have P: "PISHs (exRaw ex) cc = Some ?s" using PISHs_pe_bytes [OF f cc] ex by simp
  have len: "length (mName ?s) = 8" by (rule length_names [OF s f])
  note name = is_loaded_name_iff [OF cmp len]
  show ?case
  proof (cases "loads ?s \<and> filled ?s")
    case True
    let ?raw = "slice (unat (mPointerToRawData ?s)) (unat (mSizeOfRawData ?s)) content
        @ replicate (pages_of (unat (mVirtualSize ?s)) - unat (mSizeOfRawData ?s)) 0"
    have ft: "fits content N ?s" using fit s True by simp
    then have F: "unat (mPointerToRawData ?s) + unat (mSizeOfRawData ?s) \<le> length content" "unat (mVirtualSize ?s) + 4095 < 2 ^ 32"
      "unat (mSizeOfRawData ?s) \<le> pages_of (unat (mVirtualSize ?s))" "unat (mVirtualAddress ?s) mod EFI_PAGE_SIZE = 0"
      "unat (mVirtualAddress ?s) + pages_of (unat (mVirtualSize ?s)) \<le> N"
      by (simp_all add: fits_def)
    have rl: "length ?raw = pages_of (unat (mVirtualSize ?s))" using F(1,3) by (simp add: length_slice)
    have L: "LoadSectionPe (strncmpa fw) rd (exRaw ex) (mName ?s) = Some (Some ?raw)"
      using LoadSectionPe_own [OF sck f cmp dist s] ft True ex by simp
    have pg: "rdn ?raw 0 (unat (page_round (mVirtualSize ?s))) = Some ?raw"
      unfolding page_round_unat [OF F(2)] by (rule rdn_all [OF rl])
    obtain img1 where put: "put_bytes (unat (mVirtualAddress ?s)) ?raw img = Some img1"
      using put_bytes_fits [of "unat (mVirtualAddress ?s)" ?raw img] F(5) Cons.prems(4) unfolding rl by blast
    have l1: "length img1 = N" using put_bytes_nth(1) [OF put] Cons.prems(4) by simp
    have "\<forall>t \<in> set ss. fits content (length img) t \<and> apart ?s t"
    proof
      fix t assume t: "t \<in> set ss"
      then have "t \<in> set (pe_sections content)" "filled t" "t \<noteq> ?s" using Cons.prems(2,3) by auto
      then show "fits content (length img) t \<and> apart ?s t" using fit ap s True Cons.prems(4) by simp
    qed
    then have "j < N \<Longrightarrow> img1 ! j = image_over z content (ss @ [?s]) j" for j
      using image_over_add [OF _ _ _ refl put, of z] Cons.prems(4,5) ft z [OF s] True by simp
    then obtain img' where I: "load_sections load fw rd path ex Root (k @ rest) (Loaded b e nm exo (secs @ [section_record b ?s]) deps img1) al
        = load_sections load fw rd path ex Root rest
            (Loaded b e nm exo ((secs @ [section_record b ?s]) @ map (section_record b) (filter filled (map ((!) (pe_sections content)) k))) deps img') al"
      "length img' = N" "\<forall>j < N. img' ! j = image_over z content ((ss @ [?s]) @ filter filled (map ((!) (pe_sections content)) k)) j"
      using Cons.IH [of "ss @ [?s]" img1 "secs @ [section_record b ?s]"] Cons.prems(1-3) l1 s True by auto
    show ?thesis
      using I True P name L pg put page_round_aligned [OF F(4)] by (intro exI [of _ img']) simp
  next
    case False
    then have nf: "\<not> filled ?s" by (auto simp: filled_def loads_def)
    have "load_sections load fw rd path ex Root ((cc # k) @ rest) (Loaded b e nm exo secs deps img) al
        = load_sections load fw rd path ex Root (k @ rest) (Loaded b e nm exo secs deps img) al"
    proof (cases "loads ?s")
      case True
      then show ?thesis using LoadSectionPe_own [OF sck f cmp dist s True] nf P name ex by simp
    next
      case False
      moreover have "strncmpa fw (mName ?s) PeImportSection 8 = 0 \<longleftrightarrow> named PeImportSection ?s"
        using cmp len by (simp add: compares_names_def named_def length_section_names)
      ultimately show ?thesis using P name ex Cons.prems(1) by (auto split: option.split)
    qed
    then show ?thesis using Cons.IH [of ss img secs] Cons.prems nf by simp
  qed
qed

definition pe_opt :: "bytes \<Rightarrow> pe_optional" where
  "pe_opt content = decode_optional (slice (pe_at content + sizeof_PeHeader) 60 content)"

definition image_size :: "bytes \<Rightarrow> nat" where
  "image_size content = pages_of (unat (mSizeOfImage (pe_opt content)))"

text \<open>An executable in order: the names of its sections are distinct, and the sections that are loaded
  fit and lie apart.\<close>

definition exe_file :: "bytes \<Rightarrow> bool" where
  "exe_file content =
    (pe_file content \<and> 60 \<le> unat (mSizeOfOptionalHeader (pe_head content)) \<and> unat (mSizeOfImage (pe_opt content)) + 4095 < 2 ^ 32
     \<and> distinct (map (\<lambda>s. name8 (mName s)) (pe_sections content))
     \<and> (\<forall>s \<in> set (pe_sections content). filled s \<longrightarrow> fits content (image_size content) s)
     \<and> (\<forall>s \<in> set (pe_sections content). \<forall>t \<in> set (pe_sections content). filled s \<longrightarrow> filled t \<longrightarrow> s \<noteq> t \<longrightarrow> apart s t))"

lemma POH_pe_bytes:
  assumes "pe_file content" and "60 \<le> unat (mSizeOfOptionalHeader (pe_head content))"
  shows "POH (pe_bytes content) = Some (pe_opt content)"
proof -
  have le: "sizeof_PeHeader + 60 \<le> length (pe_bytes content)" using length_pe_bytes [OF assms(1)] assms(2) by simp
  then have "slice sizeof_PeHeader 60 (pe_bytes content) = slice (pe_at content + sizeof_PeHeader) 60 content"
    unfolding pe_bytes_def using assms(2) by (subst slice_slice) simp_all
  then show ?thesis using le by (simp add: POH_def rdn_def pe_opt_def)
qed

lemma ExpandPe_raw:
  assumes "byte_socket rd content" and "pe_file content" and "ExpandPeExecutableFormat strncmp rd = Some ex"
  shows "exRaw ex = pe_bytes content" "exMagic ex = pe_magic content"
  using assms(3) POH_magic_pe_bytes [OF assms(2)] byte_socket.ReadPeExecutableHeader_reads [OF assms(1,2)]
  by (auto simp: ExpandPeExecutableFormat_def split: Option.bind_splits)

text \<open>An executable that imports nothing.\<close>

lemma load_plain:
  assumes drive: "drive fw path = Some rd" and sck: "byte_socket rd content" and cmp: "compares_names (strncmpa fw)"
    and ok: "exe_file content" and ex: "ExpandPeExecutableFormat (strncmpa fw) rd = Some ex" "exImports ex = []"
  shows "\<exists>img. LoadBinary (Suc depth) fw path Root (b # al) = Some (Some
      (Loaded b (b + ucast (mAddressOfEntryPoint (pe_opt content))) (Some (file_name path)) (Some ex)
        (map (section_record b) (filter filled (pe_sections content))) [] img, al))
    \<and> length img = image_size content
    \<and> (\<forall>j < image_size content. img ! j = image_byte content (filter filled (pe_sections content)) j)"
proof -
  let ?ss = "pe_sections content" and ?n = "unat (mNumberOfSections (pe_head content))"
  have f: "pe_file content" "60 \<le> unat (mSizeOfOptionalHeader (pe_head content))" "unat (mSizeOfImage (pe_opt content)) + 4095 < 2 ^ 32"
    and dist: "distinct (map (\<lambda>s. name8 (mName s)) ?ss)"
    and fit: "\<forall>s \<in> set ?ss. filled s \<longrightarrow> fits content (image_size content) s"
    and ap: "\<forall>s \<in> set ?ss. \<forall>t \<in> set ?ss. filled s \<longrightarrow> filled t \<longrightarrow> s \<noteq> t \<longrightarrow> apart s t"
    using ok by (simp_all add: exe_file_def)
  have len: "length ?ss = ?n" by (simp add: pe_sections_def)
  then have all: "map ((!) ?ss) [0..<?n] = ?ss" by (metis map_nth)
  have N: "unat (page_round (mSizeOfImage (pe_opt content))) = image_size content"
    using page_round_unat [OF f(3)] by (simp add: image_size_def)
  have "distinct ?ss" using dist by (simp add: distinct_map)
  then show ?thesis
    using load_sections_fills [OF sck f(1) cmp ExpandPe_raw(1) [OF sck f(1) ex(1)] dist fit ap, of "\<lambda>_. 0" "[0..<?n]" "[]"
        "replicate (image_size content) 0" "LoadBinary depth fw" path Root "[]" b "b + ucast (mAddressOfEntryPoint (pe_opt content))"
        "Some (file_name path)" "Some ex" "[]" "[]" al] len
    by (simp add: drive ex(1) ExpandPe_raw(1) [OF sck f(1) ex(1)] POH_pe_bytes [OF f(1,2)] PH_pe_bytes [OF f(1)] N all image_byte_def image_over_def ex(2))
qed

text \<open>C17: an executable that imports nothing is loaded at the address the firmware gives.  The loader copies
  the sections \<open>.text\<close>, \<open>.data\<close>, \<open>.bss\<close> and \<open>.rdata\<close> that have data: each byte of the image is the byte of that one of
  them whose data lies there, and zero everywhere else, in the place of a section of another name
  (\<open>.edata\<close>, \<open>.reloc\<close>, \<open>.rsrc\<close>, \<open>.pdata\<close>) too, whose data is not copied.  The entry point is relative to the address, and
  the record of the sections lists those that were copied.  The names of the sections are distinct,
  and each section copied starts on a page, has its data in the file and within its own pages, lies
  inside the image and apart from the others.\<close>

theorem LoadBinary_image:
  assumes drive: "drive fw path = Some rd" and sck: "byte_socket rd content" and cmp: "compares_names (strncmpa fw)"
    and ok: "exe_file content" and ex: "ExpandPeExecutableFormat (strncmpa fw) rd = Some ex" "exImports ex = []"
  shows "\<exists>img. LoadBinary (Suc depth) fw path Root (b # al) = Some (Some
      (Loaded b (b + ucast (mAddressOfEntryPoint (pe_opt content))) (Some (file_name path)) (Some ex)
        (map (section_record b) (filter filled (pe_sections content))) [] img, al))
    \<and> length img = image_size content
    \<and> (\<forall>j < image_size content. img ! j = image_byte content (filter filled (pe_sections content)) j)"
  by (rule load_plain [OF assms])

text \<open>An executable without tables expands to its headers.\<close>

lemma ExpandPe_plain:
  assumes "byte_socket rd content" and "pe_file content" and "compares_names strncmp"
    and "\<forall>s \<in> set (pe_sections content). \<forall>nm \<in> {PeExportSection, PeImportSection, PeRelocDataSection, PeResourceSection, PeExceptionInfoSection}.
      \<not> named nm s"
  shows "ExpandPeExecutableFormat strncmp rd = Some \<lparr>exRaw = pe_bytes content, exMagic = pe_magic content, exExport = None,
     exNamePointerRVAs = None, exOrdinals = None, exRawExportAddresses = None, exImport = None, exImports = [], exRelocData = None,
     nRelocationBlocks = 0, nRelocationEntriesPerBlock = [], exResource = None, exException = None\<rparr>"
proof -
  have "ReadSectionPe strncmp rd (pe_bytes content) nm = Some None"
    if "nm \<in> {PeExportSection, PeImportSection, PeRelocDataSection, PeResourceSection, PeExceptionInfoSection}" for nm
  proof -
    have "List.find (named nm) (pe_sections content) = None" using that assms(4) by (auto simp: find_None_iff)
    then show ?thesis
      using that by (intro byte_socket.ReadSectionPe_absent [OF assms(1-3)]) (auto simp: length_section_names)
  qed
  then show ?thesis
    using byte_socket.ReadPeExecutableHeader_reads [OF assms(1,2)] POH_magic_pe_bytes [OF assms(2)]
    by (simp add: ExpandPeExecutableFormat_def export_table_def)
qed

text \<open>An executable of two sections: four bytes of code and two of data.\<close>

definition section_entry :: "bytes \<Rightarrow> nat \<Rightarrow> nat \<Rightarrow> nat \<Rightarrow> nat \<Rightarrow> bytes" where
  "section_entry nm virt va raw ptr = nm @ le_bytes 4 virt @ le_bytes 4 va @ le_bytes 4 raw @ le_bytes 4 ptr @ replicate 16 0"

definition exe_bytes :: "nat \<Rightarrow> nat \<Rightarrow> bytes list \<Rightarrow> bytes \<Rightarrow> bytes" where
  "exe_bytes image_pages entry_rva sections body =
    replicate 60 0 @ [0x40, 0, 0, 0]
    @ [0x50, 0x45, 0, 0, 0x64, 0x86] @ le_bytes 2 (length sections) @ replicate 12 0 @ [60, 0, 2, 0]
    @ [0x0B, 0x02] @ replicate 14 0 @ le_bytes 4 entry_rva @ replicate 36 0 @ le_bytes 4 (image_pages * 4096)
    @ concat sections @ body"

lemma slice_mid: "length pre = p \<Longrightarrow> length mid = n \<Longrightarrow> slice p n (pre @ mid @ post) = mid"
  by (simp add: slice_def)

definition ascii_strncmp :: strncmp where
  "ascii_strncmp a b n = (if takeWhile (\<lambda>c. c \<noteq> 0) (take n a) = takeWhile (\<lambda>c. c \<noteq> 0) (take n b) then 0 else 1)"

definition ascii_strcmp :: "bytes \<Rightarrow> bytes \<Rightarrow> int" where
  "ascii_strcmp a b = (if takeWhile (\<lambda>c. c \<noteq> 0) a = takeWhile (\<lambda>c. c \<noteq> 0) b then 0 else 1)"

lemma ascii_compares: "compares_names ascii_strncmp"
  by (simp add: compares_names_def ascii_strncmp_def name8_def)

lemma slice_concat:
  "\<forall>s \<in> set ss. length s = n \<Longrightarrow> i < length ss \<Longrightarrow> slice (i * n) n (concat ss @ r) = ss ! i"
proof (induction ss arbitrary: i)
  case (Cons s ss)
  then show ?case by (cases i) (simp_all add: slice_def)
qed simp

lemma exe_bytes_layout:
  assumes "\<forall>s \<in> set ss. length s = 40" and "length ss < 2 ^ 16" and "rva < 2 ^ 32" and "n * 4096 < 2 ^ 32"
  shows "pe_at (exe_bytes n rva ss body) = 64" "pe_magic (exe_bytes n rva ss body) = Pe32Plus"
    "unat (mNumberOfSections (pe_head (exe_bytes n rva ss body))) = length ss"
    "unat (mSizeOfOptionalHeader (pe_head (exe_bytes n rva ss body))) = 60"
    "length (exe_bytes n rva ss body) = 148 + length ss * 40 + length body"
    "mAddressOfEntryPoint (pe_opt (exe_bytes n rva ss body)) = of_nat rva"
    "mSizeOfImage (pe_opt (exe_bytes n rva ss body)) = of_nat (n * 4096)"
    "pe_sections (exe_bytes n rva ss body) = map decode_section ss"
    "table_at (exe_bytes n rva ss body) = 148"
    "slice (148 + length ss * 40) k (exe_bytes n rva ss body) = take k body"
    "slice (148 + length ss * 40 + q) k (exe_bytes n rva ss body) = take k (drop q body)"
proof -
  let ?c = "exe_bytes n rva ss body"
  let ?hd = "[0x50, 0x45, 0, 0, 0x64, 0x86] @ le_bytes 2 (length ss) @ replicate 12 0 @ [60, 0, 2, 0]"
  let ?op = "[0x0B, 0x02] @ replicate 14 0 @ le_bytes 4 rva @ replicate 36 0 @ le_bytes 4 (n * 4096)"
  have "slice 60 4 ?c = [0x40, 0, 0, 0]"
    unfolding exe_bytes_def by (rule slice_mid) simp_all
  then show pe_at: "pe_at ?c = 64" by (simp add: pe_at_def rd_u32_def slice_def)
  have h: "slice 64 24 ?c = ?hd"
    using slice_mid [of "replicate 60 0 @ [0x40, 0, 0, 0]" 64 ?hd 24 "?op @ concat ss @ body"] by (simp add: exe_bytes_def)
  have o: "slice 88 60 ?c = ?op"
    using slice_mid [of "replicate 60 0 @ [0x40, 0, 0, 0] @ ?hd" 88 ?op 60 "concat ss @ body"] by (simp add: exe_bytes_def)
  have "rd_u16 ?c 88 = rd_u16 (slice 88 60 ?c) 0" by (simp add: rd_u16_slice)
  then show "pe_magic ?c = Pe32Plus" unfolding o by (simp add: pe_magic_def pe_at pe_sizes Pe32Plus_def rd_u16_def)
  show num: "unat (mNumberOfSections (pe_head ?c)) = length ss"
    using assms(2) by (simp add: pe_head_def pe_at pe_sizes h decode_PeHeader_def rd_u16_def le_nat_le_bytes unat_of_nat)
  show opt: "unat (mSizeOfOptionalHeader (pe_head ?c)) = 60"
    by (simp add: pe_head_def pe_at pe_sizes h decode_PeHeader_def rd_u16_def)
  have "length (concat ss) = length ss * 40" using assms(1) by (induction ss) simp_all
  note cs = this
  show "length ?c = 148 + length ss * 40 + length body" by (simp add: exe_bytes_def cs)
  show "mAddressOfEntryPoint (pe_opt ?c) = of_nat rva" "mSizeOfImage (pe_opt ?c) = of_nat (n * 4096)"
    using assms(3,4) by (simp_all add: pe_opt_def pe_at pe_sizes o decode_optional_def rd_u32_def le_nat_le_bytes)
  show tbl: "table_at ?c = 148" by (simp add: table_at_def pe_at pe_sizes opt)
  have "?c = (replicate 60 0 @ [0x40, 0, 0, 0] @ ?hd @ ?op) @ concat ss @ body" by (simp add: exe_bytes_def)
  moreover have "length (replicate 60 0 @ [0x40, 0, 0, 0] @ ?hd @ ?op) = 148" by simp
  ultimately have t: "drop 148 ?c = concat ss @ body" by (metis append_eq_conv_conj)
  have "slice (148 + i * 40) 40 ?c = ss ! i" if "i < length ss" for i
  proof -
    have "slice (148 + i * 40) 40 ?c = slice (i * 40) 40 (drop 148 ?c)" by (simp add: slice_def add.commute)
    then show ?thesis using slice_concat [OF assms(1) that, of body] by (simp add: t)
  qed
  then show "pe_sections ?c = map decode_section ss"
    unfolding pe_sections_def num tbl pe_sizes by (intro nth_equalityI) simp_all
  have "drop (148 + length ss * 40) ?c = drop (length ss * 40) (drop 148 ?c)" by (simp add: add.commute)
  also have "\<dots> = body" unfolding t by (simp add: cs [symmetric])
  finally have d: "drop (148 + length ss * 40) ?c = body" .
  then show "slice (148 + length ss * 40) k ?c = take k body" by (simp add: slice_def)
  have "drop (148 + length ss * 40 + q) ?c = drop q (drop (148 + length ss * 40) ?c)" by (simp add: ac_simps)
  then show "slice (148 + length ss * 40 + q) k ?c = take k (drop q body)" unfolding d by (simp add: slice_def)
qed

lemma decode_section_entry:
  assumes "length nm = 8" and "virt < 2 ^ 32" "va < 2 ^ 32" "raw < 2 ^ 32" "ptr < 2 ^ 32"
  shows "decode_section (section_entry nm virt va raw ptr) = \<lparr>mName = nm, mVirtualSize = of_nat virt, mVirtualAddress = of_nat va,
     mSizeOfRawData = of_nat raw, mPointerToRawData = of_nat ptr, mPointerToRelocations = 0, mPointerToLinenumbers = 0,
     mNumberOfRelocations = 0, mNumberOfLinenumbers = 0, mCharacteristics = 0\<rparr>"
  using assms by (simp add: section_entry_def decode_section_def rd_u32_def rd_u16_def le_nat_le_bytes)

lemma length_section_entry: "length nm = 8 \<Longrightarrow> length (section_entry nm virt va raw ptr) = 40"
  by (simp add: section_entry_def)

text \<open>An executable of two sections: four bytes of code and two of data.\<close>

definition demo_sections :: "bytes list" where
  "demo_sections = [section_entry PeCodeSection 16 0x1000 4 228, section_entry PeDefDataSection 8 0x2000 2 232]"

definition demo_exe :: bytes where
  "demo_exe = exe_bytes 3 0x1000 demo_sections [0xB8, 1, 2, 3, 7, 9]"

definition demo_firmware :: firmware where
  "demo_firmware = \<lparr>strncmpa = ascii_strncmp, strcmpa = ascii_strcmp,
     drive = (\<lambda>path. if path = [0x61] then Some (list_reader demo_exe) else None)\<rparr>"

lemma demo_layout:
  "\<forall>s \<in> set demo_sections. length s = 40" "length demo_sections = 2"
  by (simp_all add: demo_sections_def length_section_entry length_section_names)

lemmas demo_exe_layout = exe_bytes_layout [where rva = "0x1000" and n = "3" and body = "[0xB8, 1, 2, 3, 7, 9]" and ss = demo_sections,
  folded demo_exe_def, unfolded demo_layout(2), OF demo_layout(1), simplified]

lemma name8_constants:
  "name8 PeCodeSection = map of_char ''.text''" "name8 PeDefDataSection = map of_char ''.data''"
  "name8 PeUDefDataSection = map of_char ''.bss''" "name8 PeRDefDataSection = map of_char ''.rdata''"
  "name8 PeExportSection = map of_char ''.edata''" "name8 PeImportSection = map of_char ''.idata''"
  "name8 PeRelocDataSection = map of_char ''.reloc''" "name8 PeResourceSection = map of_char ''.rsrc''"
  "name8 PeExceptionInfoSection = map of_char ''.pdata''"
  by (simp_all add: name8_def PeCodeSection_def PeDefDataSection_def PeUDefDataSection_def PeRDefDataSection_def PeImportSection_def
      PeExportSection_def PeRelocDataSection_def PeResourceSection_def PeExceptionInfoSection_def char8_def)

lemma demo_section_list:
  "pe_sections demo_exe = [decode_section (section_entry PeCodeSection 16 0x1000 4 228), decode_section (section_entry PeDefDataSection 8 0x2000 2 232)]"
  using demo_exe_layout(8) by (simp add: demo_sections_def)

lemma demo_filled: "filter filled (pe_sections demo_exe) = pe_sections demo_exe"
  by (simp add: demo_section_list decode_section_entry length_section_names filled_def named_def)

lemma demo_exe_file: "exe_file demo_exe"
proof -
  have f: "pe_file demo_exe" using demo_exe_layout(1-5,9) by (simp add: pe_file_def pe_sizes)
  have "image_size demo_exe = 0x3000" using demo_exe_layout(7) by (simp add: image_size_def pages_of_def EFI_PAGE_SIZE_def)
  then show ?thesis
    using f demo_exe_layout(1-7)
    by (simp add: exe_file_def demo_section_list decode_section_entry length_section_names name8_constants fits_def apart_def pages_of_def EFI_PAGE_SIZE_def)
qed

lemma demo_exe_bytes: "demo_exe ! 228 = 0xB8" "demo_exe ! 233 = 9"
proof -
  have "slice 228 6 demo_exe = [0xB8, 1, 2, 3, 7, 9]" using demo_exe_layout(10) [of 6] by simp
  then have "slice 228 6 demo_exe ! 0 = 0xB8" "slice 228 6 demo_exe ! 5 = 9" by simp_all
  then show "demo_exe ! 228 = 0xB8" "demo_exe ! 233 = 9" using demo_exe_layout(5) by (simp_all add: slice_def)
qed

theorem LoadBinary_image_witness:
  "\<exists>img ex. LoadBinary 1 demo_firmware [0x61] Stub [0x100000] = Some (Some
     (Loaded 0x100000 0x101000 (Some [0x61]) (Some ex)
       [(PeCodeSection, 0x101000, 16), (PeDefDataSection, 0x102000, 8)] [] img, []))
   \<and> img ! 0x1000 = 0xB8 \<and> img ! 0x2001 = 9 \<and> img ! 0x1004 = 0"
proof -
  have f: "pe_file demo_exe" using demo_exe_file by (simp add: exe_file_def)
  obtain ex where ex: "ExpandPeExecutableFormat (strncmpa demo_firmware) (list_reader demo_exe) = Some ex" "exImports ex = []"
    using ExpandPe_plain [OF list_reader_socket f ascii_compares]
    by (simp add: demo_firmware_def demo_section_list decode_section_entry length_section_names named_def name8_constants)
  have d: "drive demo_firmware [0x61] = Some (list_reader demo_exe)" "compares_names (strncmpa demo_firmware)"
    by (simp_all add: demo_firmware_def ascii_compares)
  obtain img where i: "LoadBinary (Suc 0) demo_firmware [0x61] Stub [0x100000] = Some (Some
      (Loaded 0x100000 (0x100000 + ucast (mAddressOfEntryPoint (pe_opt demo_exe))) (Some (file_name [0x61])) (Some ex)
        (map (section_record 0x100000) (filter filled (pe_sections demo_exe))) [] img, []))"
    "\<forall>j < image_size demo_exe. img ! j = image_byte demo_exe (filter filled (pe_sections demo_exe)) j"
    using LoadBinary_image [OF d(1) list_reader_socket d(2) demo_exe_file ex, of 0 Stub "0x100000" "[]"] by blast
  have "image_size demo_exe = 0x3000" using demo_exe_layout(7) by (simp add: image_size_def pages_of_def EFI_PAGE_SIZE_def)
  then have "img ! 0x1000 = 0xB8 \<and> img ! 0x2001 = 9 \<and> img ! 0x1004 = 0"
    using i(2) demo_exe_bytes unfolding demo_filled
    by (simp add: image_byte_def image_over_def demo_section_list decode_section_entry length_section_names covers_def)
  then show ?thesis
    using i(1) demo_exe_layout(6) unfolding demo_filled
    by (simp add: demo_section_list decode_section_entry length_section_names section_record_def file_name_def)
qed

text \<open>A tree of three executables, and the search for the last of them.\<close>

definition demo_leaf :: "u8 \<Rightarrow> loaded" where
  "demo_leaf c = Loaded (ucast c) 0 (Some [c]) None [] [] []"

theorem SearchBinary_preorder_witness:
  "SearchBinary demo_firmware (Loaded 0 0 (Some [0x72]) None [] [demo_leaf 0x61, demo_leaf 0x62] []) [0x62, 0] = Some (Some (demo_leaf 0x62))"
  by (subst SearchBinary_preorder) (simp_all add: demo_leaf_def demo_firmware_def ascii_strcmp_def)

end
