(* ===== verification/Boot_Link.thy ===== *)
theory Boot_Link
  imports Boot_Exec
begin

text \<open>
  What the executable loader promises of imports and exports: an export is found by its name or its
  ordinal, the import table of an executable holds the addresses of what it imports, and an executable
  is loaded together with the library it needs.
\<close>

section \<open>Exports of a library\<close>

text \<open>What the firmware library documents of the comparison of strings.\<close>

definition compares_strings :: "(bytes \<Rightarrow> bytes \<Rightarrow> int) \<Rightarrow> bool" where
  "compares_strings cmp = (\<forall>a b. 0 \<in> set a \<longrightarrow> 0 \<in> set b \<longrightarrow>
     (cmp a b = 0 \<longleftrightarrow> takeWhile (\<lambda>c. c \<noteq> 0) a = takeWhile (\<lambda>c. c \<noteq> 0) b))"

definition at_section :: "pe_section \<Rightarrow> u32 \<Rightarrow> nat option" where
  "at_section s rva =
    (if mVirtualAddress s \<le> rva \<and> rva - mVirtualAddress s < mSizeOfRawData s then Some (unat (rva - mVirtualAddress s)) else None)"

lemma GetAtRVA_section:
  assumes "pe_file content" and "compares_names strncmp" and "length nm = 8" and "List.find (named nm) (pe_sections content) = Some s"
  shows "GetAtRVAFromSectionDataPe strncmp rva nm (pe_bytes content) = Some (at_section s rva)"
  by (auto simp: GetAtRVAFromSectionDataPe_def FindSectionPe_first [OF assms(1-3)] assms(4) at_section_def)

text \<open>The bytes of a section in the file.\<close>

definition raw_data :: "bytes \<Rightarrow> pe_section \<Rightarrow> bytes" where
  "raw_data content s = slice (unat (mPointerToRawData s)) (unat (mSizeOfRawData s)) content"

text \<open>A library: its export section \<open>s\<close>, and where in the data of the section the tables of names, ordinals
  and addresses lie.  Every name that lies in the section ends there.\<close>

record export_view =
  evNames :: nat
  evOrdinals :: nat
  evAddresses :: nat

definition directory_at :: "bytes \<Rightarrow> nat" where
  "directory_at content = pe_at content + sizeof_PeHeader
     + (if pe_magic content = Pe32 then sizeof_Pe32OptionalHeader else sizeof_Pe32PlusOptionalHeader)"

definition ordinal_of :: "bytes \<Rightarrow> export_view \<Rightarrow> nat \<Rightarrow> u32" where
  "ordinal_of e v i = ucast (rd_u16 e (evOrdinals v + 2 * i))"

definition exported_name :: "bytes \<Rightarrow> pe_section \<Rightarrow> export_view \<Rightarrow> nat \<Rightarrow> bytes option" where
  "exported_name e s v i =
    (if rd_u32 e 20 \<le> ordinal_of e v i then None
     else Option.bind (at_section s (rd_u32 e (evNames v + 4 * i))) (\<lambda>p. c_string (drop p e)))"

definition library_file :: "bytes \<Rightarrow> pe_section \<Rightarrow> export_view \<Rightarrow> bool" where
  "library_file content s v =
    (let e = raw_data content s; n = unat (rd_u32 e 24) in
     pe_file content \<and> List.find (named PeExportSection) (pe_sections content) = Some s
     \<and> unat (mPointerToRawData s) + unat (mSizeOfRawData s) \<le> length content \<and> 40 \<le> unat (mSizeOfRawData s)
     \<and> at_section s (rd_u32 e 28) = Some (evAddresses v) \<and> at_section s (rd_u32 e 32) = Some (evNames v)
     \<and> at_section s (rd_u32 e 36) = Some (evOrdinals v)
     \<and> evNames v + 4 * n \<le> length e \<and> evOrdinals v + 2 * n \<le> length e \<and> evAddresses v + 4 * unat (rd_u32 e 20) \<le> length e
     \<and> (\<forall>i < n. \<forall>p. at_section s (rd_u32 e (evNames v + 4 * i)) = Some p \<longrightarrow> 0 \<in> set (drop p e))
     \<and> directory_at content + 8 \<le> pe_at content + length (pe_bytes content))"

text \<open>The address of entry \<open>idx\<close> of the address table; none for an empty entry and for a forwarder, whose
  address lies in the export directory itself.\<close>

definition export_target :: "bytes \<Rightarrow> bytes \<Rightarrow> export_view \<Rightarrow> u64 \<Rightarrow> u32 \<Rightarrow> u64 option" where
  "export_target content e v ImageBase idx =
    (let rva = rd_u32 e (evAddresses v + 4 * unat idx); dirRVA = rd_u32 content (directory_at content);
         dirSize = rd_u32 content (directory_at content + 4)
     in if rva = 0 \<or> (dirRVA \<le> rva \<and> rva - dirRVA < dirSize) then None else Some (ImageBase + ucast rva))"

lemma length_raw_data: "unat (mPointerToRawData s) + unat (mSizeOfRawData s) \<le> length content \<Longrightarrow> length (raw_data content s) = unat (mSizeOfRawData s)"
  by (simp add: raw_data_def length_slice)

lemma library_fields:
  assumes "library_file content s v"
  defines "e \<equiv> raw_data content s"
  shows "mOrdinalBase e = Some (rd_u32 e 16)" "mNTableEntries e = Some (rd_u32 e 20)" "mNNamePointers e = Some (rd_u32 e 24)"
    "mExportTableRVA e = Some (rd_u32 e 28)" "mNamePointerRVA e = Some (rd_u32 e 32)" "OrdinalPointerRVA e = Some (rd_u32 e 36)"
  using assms length_raw_data [of s content]
  by (simp_all add: library_file_def Let_def mOrdinalBase_def mNTableEntries_def mNNamePointers_def mExportTableRVA_def
      mNamePointerRVA_def OrdinalPointerRVA_def rd32_def)

text \<open>What the expansion of a library finds.\<close>

lemma ExpandPe_exports:
  assumes sck: "byte_socket rd content" and cmp: "compares_names strncmp" and lib: "library_file content s v"
    and ex: "ExpandPeExecutableFormat strncmp rd = Some ex"
  shows "exRaw ex = pe_bytes content" "exExport ex = Some (raw_data content s)" "exNamePointerRVAs ex = Some (evNames v)"
    "exOrdinals ex = Some (evOrdinals v)" "exRawExportAddresses ex = Some (evAddresses v)"
proof -
  have f: "pe_file content" and s: "List.find (named PeExportSection) (pe_sections content) = Some s"
    and r: "mSizeOfRawData s \<noteq> 0" "unat (mPointerToRawData s) + unat (mSizeOfRawData s) \<le> length content"
    and v: "at_section s (rd_u32 (raw_data content s) 28) = Some (evAddresses v)" "at_section s (rd_u32 (raw_data content s) 32) = Some (evNames v)"
      "at_section s (rd_u32 (raw_data content s) 36) = Some (evOrdinals v)"
    using lib by (auto simp: library_file_def Let_def)
  have "ReadSectionPe strncmp rd (pe_bytes content) PeExportSection = Some (Some (raw_data content s))"
    using byte_socket.ReadSectionPe_reads [OF sck f cmp length_section_names(6) s r] by (simp add: raw_data_def)
  then show "exRaw ex = pe_bytes content" "exExport ex = Some (raw_data content s)" "exNamePointerRVAs ex = Some (evNames v)"
    "exOrdinals ex = Some (evOrdinals v)" "exRawExportAddresses ex = Some (evAddresses v)"
    using ex v byte_socket.ReadPeExecutableHeader_reads [OF sck f] POH_magic_pe_bytes [OF f] library_fields [OF lib]
      GetAtRVA_section [OF f cmp length_section_names(6) s]
    by (auto simp: ExpandPeExecutableFormat_def export_table_def split: Option.bind_splits)
qed

lemma export_index_eq:
  assumes f: "pe_file content" and cmp: "compares_names (strncmpa fw)" "compares_strings (strcmpa fw)" and nm: "0 \<in> set Name"
    and s: "List.find (named PeExportSection) (pe_sections content) = Some s"
    and ex: "exRaw ex = pe_bytes content" "exNamePointerRVAs ex = Some (evNames v)" "exOrdinals ex = Some (evOrdinals v)"
    and tbl: "evNames v + 4 * n \<le> length e" "evOrdinals v + 2 * n \<le> length e"
    and ends: "\<forall>i < n. \<forall>p. at_section s (rd_u32 e (evNames v + 4 * i)) = Some p \<longrightarrow> 0 \<in> set (drop p e)"
  shows "\<forall>i \<in> set k. i < n \<Longrightarrow> export_index fw ex e Name (rd_u32 e 20) k =
    Some (case List.find (\<lambda>i. exported_name e s v i = c_string Name) k of None \<Rightarrow> UINT32_MAX | Some i \<Rightarrow> ordinal_of e v i)"
proof (induction k)
  case (Cons i k)
  have i: "i < n" using Cons.prems by simp
  have r: "rd16 e (evOrdinals v + 2 * i) = Some (rd_u16 e (evOrdinals v + 2 * i))" "rd32 e (evNames v + 4 * i) = Some (rd_u32 e (evNames v + 4 * i))"
    using tbl i by (simp_all add: rd16_def rd32_def)
  have IH: "export_index fw ex e Name (rd_u32 e 20) k =
    Some (case List.find (\<lambda>i. exported_name e s v i = c_string Name) k of None \<Rightarrow> UINT32_MAX | Some i \<Rightarrow> ordinal_of e v i)"
    using Cons by simp
  show ?case
  proof (cases "rd_u32 e 20 \<le> ordinal_of e v i")
    case True
    then have "exported_name e s v i \<noteq> c_string Name" using nm by (simp add: exported_name_def c_string_def)
    then show ?thesis using True IH r ex by (simp add: ordinal_of_def)
  next
    case False
    note G = GetAtRVA_section [OF f cmp(1) length_section_names(6) s, of "rd_u32 e (evNames v + 4 * i)"]
    show ?thesis
    proof (cases "at_section s (rd_u32 e (evNames v + 4 * i))")
      case None
      then have "exported_name e s v i \<noteq> c_string Name" using nm by (simp add: exported_name_def c_string_def)
      then show ?thesis using False None IH r ex G by (simp add: ordinal_of_def)
    next
      case (Some p)
      have "0 \<in> set (drop p e)" using ends i Some by simp
      then have "strcmpa fw (drop p e) Name = 0 \<longleftrightarrow> exported_name e s v i = c_string Name"
        using cmp(2) nm False Some by (simp add: compares_strings_def exported_name_def c_string_def)
      then show ?thesis using False Some IH r ex G by (simp add: ordinal_of_def)
    qed
  qed
qed simp

text \<open>The data directory of the export section, in the headers that were read.\<close>

lemma directory_fields:
  assumes "pe_file content" and "directory_at content + 8 \<le> pe_at content + length (pe_bytes content)"
  obtains dir where "RVAs (pe_bytes content) = Some dir" "rd32 (pe_bytes content) dir = Some (rd_u32 content (directory_at content))"
    "rd32 (pe_bytes content) (dir + 4) = Some (rd_u32 content (directory_at content + 4))"
proof -
  define dir where "dir = directory_at content - pe_at content"
  have d: "pe_at content + dir = directory_at content" by (simp add: dir_def directory_at_def)
  then have le: "dir + 8 \<le> length (pe_bytes content)" using assms(2) by simp
  have r: "rd32 (pe_bytes content) off = Some (rd_u32 content (pe_at content + off))" if "off + 4 \<le> length (pe_bytes content)" for off
    using that length_pe_bytes [OF assms(1)] by (simp add: rd32_def) (simp add: pe_bytes_def rd_u32_slice)
  have "RVAs (pe_bytes content) = Some dir"
    using POH_magic_pe_bytes [OF assms(1)] by (simp add: RVAs_def dir_def directory_at_def)
  moreover have "rd32 (pe_bytes content) dir = Some (rd_u32 content (directory_at content))" using r [of dir] le d by simp
  moreover have "rd32 (pe_bytes content) (dir + 4) = Some (rd_u32 content (directory_at content + 4))"
    using r [of "dir + 4"] le by (simp add: d [symmetric] add.assoc)
  ultimately show thesis by (rule that)
qed

lemma resolve_named:
  assumes lib: "library_file content s v" and sck: "byte_socket rd content"
    and cmp: "compares_names (strncmpa fw)" "compares_strings (strcmpa fw)"
    and ex: "This Import = Some ex" "ExpandPeExecutableFormat (strncmpa fw) rd = Some ex" and nm: "0 \<in> set Name"
  defines "e \<equiv> raw_data content s"
  shows "ResolveExport fw Import False ImportSym Name =
    Some (case List.find (\<lambda>i. exported_name e s v i = c_string Name) [0..<unat (rd_u32 e 24)] of
            None \<Rightarrow> None
          | Some i \<Rightarrow> export_target content e v (ldBase Import) (ordinal_of e v i))"
proof -
  note x = ExpandPe_exports [OF sck cmp(1) lib ex(2), folded e_def] and l = library_fields [OF lib, folded e_def]
  have f: "pe_file content" "List.find (named PeExportSection) (pe_sections content) = Some s"
    and tbl: "evNames v + 4 * unat (rd_u32 e 24) \<le> length e" "evOrdinals v + 2 * unat (rd_u32 e 24) \<le> length e"
    and addr: "evAddresses v + 4 * unat (rd_u32 e 20) \<le> length e"
    and ends: "\<forall>i < unat (rd_u32 e 24). \<forall>p. at_section s (rd_u32 e (evNames v + 4 * i)) = Some p \<longrightarrow> 0 \<in> set (drop p e)"
    and dir: "directory_at content + 8 \<le> pe_at content + length (pe_bytes content)"
    using lib by (simp_all add: library_file_def Let_def e_def)
  let ?i = "List.find (\<lambda>i. exported_name e s v i = c_string Name) [0..<unat (rd_u32 e 24)]"
  have I: "export_index fw ex e Name (rd_u32 e 20) [0..<unat (rd_u32 e 24)]
      = Some (case ?i of None \<Rightarrow> UINT32_MAX | Some i \<Rightarrow> ordinal_of e v i)"
    by (rule export_index_eq [OF f(1) cmp nm f(2) x(1,3,4) tbl ends]) simp
  show ?thesis
  proof (cases ?i)
    case None
    then show ?thesis using I x l ex(1) by (simp add: ResolveExport_def)
  next
    case (Some i)
    have "exported_name e s v i = c_string Name" using Some by (auto simp: find_Some_iff)
    then have o: "ordinal_of e v i < rd_u32 e 20" using nm by (auto simp: exported_name_def c_string_def split: if_splits)
    have "unat (ordinal_of e v i) < 2 ^ 16"
      using unsigned_less [of "rd_u16 e (evOrdinals v + 2 * i)", where 'a = nat] by (simp add: ordinal_of_def unsigned_ucast_eq take_bit_eq_mod)
    then have m: "ordinal_of e v i \<noteq> UINT32_MAX" by (auto simp: UINT32_MAX_def)
    have "unat (ordinal_of e v i) < unat (rd_u32 e 20)" using o by (simp add: word_less_nat_alt)
    then have "rd32 e (evAddresses v + 4 * unat (ordinal_of e v i)) = Some (rd_u32 e (evAddresses v + 4 * unat (ordinal_of e v i)))"
      using addr by (simp add: rd32_def)
    moreover obtain dir where "RVAs (pe_bytes content) = Some dir" "rd32 (pe_bytes content) dir = Some (rd_u32 content (directory_at content))"
      "rd32 (pe_bytes content) (dir + 4) = Some (rd_u32 content (directory_at content + 4))"
      by (rule directory_fields [OF f(1) dir])
    ultimately show ?thesis using I Some m x l ex(1) by (simp add: ResolveExport_def export_target_def Let_def)
  qed
qed

text \<open>C16: an import by name is resolved to the entry of the first exported name that is equal to it, as an
  address in the image of the library; a name that is not exported, an empty entry and a forwarder are
  refused.\<close>

theorem ResolveExport_by_name:
  assumes lib: "library_file content s v" and sck: "byte_socket rd content"
    and cmp: "compares_names (strncmpa fw)" "compares_strings (strcmpa fw)"
    and ex: "This Import = Some ex" "ExpandPeExecutableFormat (strncmpa fw) rd = Some ex" and nm: "0 \<in> set Name"
  defines "e \<equiv> raw_data content s"
  shows "ResolveExport fw Import False ImportSym Name =
    Some (case List.find (\<lambda>i. exported_name e s v i = c_string Name) [0..<unat (rd_u32 e 24)] of
            None \<Rightarrow> None
          | Some i \<Rightarrow> export_target content e v (ldBase Import) (ordinal_of e v i))"
  unfolding e_def by (rule resolve_named [OF assms(1-7)])

text \<open>An import by ordinal counts from the base of the ordinals.\<close>

theorem ResolveExport_by_ordinal:
  assumes lib: "library_file content s v" and sck: "byte_socket rd content" and cmp: "compares_names (strncmpa fw)"
    and ex: "This Import = Some ex" "ExpandPeExecutableFormat (strncmpa fw) rd = Some ex"
  defines "e \<equiv> raw_data content s"
  shows "ResolveExport fw Import True n Name =
    Some (if n < ucast (rd_u32 e 16) \<or> rd_u32 e 20 \<le> ucast (n - ucast (rd_u32 e 16)) then None
          else export_target content e v (ldBase Import) (ucast (n - ucast (rd_u32 e 16))))"
proof -
  note x = ExpandPe_exports [OF sck cmp(1) lib ex(2), folded e_def] and l = library_fields [OF lib, folded e_def]
  have f: "pe_file content" and addr: "evAddresses v + 4 * unat (rd_u32 e 20) \<le> length e"
    and dir: "directory_at content + 8 \<le> pe_at content + length (pe_bytes content)"
    using lib by (simp_all add: library_file_def Let_def e_def)
  show ?thesis
  proof (cases "n < ucast (rd_u32 e 16) \<or> rd_u32 e 20 \<le> ucast (n - ucast (rd_u32 e 16))")
    case True
    then show ?thesis using x l ex(1) by (auto simp: ResolveExport_def Let_def)
  next
    case False
    let ?i = "ucast (n - ucast (rd_u32 e 16)) :: u32"
    have "unat ?i < unat (rd_u32 e 20)" using False by (simp add: word_less_nat_alt not_le)
    then have "rd32 e (evAddresses v + 4 * unat ?i) = Some (rd_u32 e (evAddresses v + 4 * unat ?i))" using addr by (simp add: rd32_def)
    moreover obtain dir where "RVAs (pe_bytes content) = Some dir" "rd32 (pe_bytes content) dir = Some (rd_u32 content (directory_at content))"
      "rd32 (pe_bytes content) (dir + 4) = Some (rd_u32 content (directory_at content + 4))"
      by (rule directory_fields [OF f dir])
    ultimately show ?thesis using False x l ex(1) by (simp add: ResolveExport_def export_target_def Let_def)
  qed
qed

section \<open>The import table\<close>

text \<open>The address that import \<open>i\<close> of a library is resolved to.\<close>

definition import_address :: "firmware \<Rightarrow> pe_executable \<Rightarrow> bytes \<Rightarrow> nat \<Rightarrow> loaded \<Rightarrow> nat \<Rightarrow> u64 option option" where
  "import_address fw ex imports tbl Import i = do {
     (OrdinalImport, ImportSym) \<leftarrow> lookup_entry (exMagic ex) imports (tbl + lookup_size (exMagic ex) * i);
     Name \<leftarrow> import_symbol fw ex imports OrdinalImport ImportSym;
     ResolveExport fw Import OrdinalImport ImportSym Name
   }"

lemma bind_imports_step:
  "import_address fw ex imports tbl Import i = Some (Some a) \<Longrightarrow>
   bind_imports fw ex imports tbl iat Import (i # k) mem =
     do { mem' \<leftarrow> put_bytes (iat + lookup_size (exMagic ex) * i) (iat_bytes (exMagic ex) a) mem;
          bind_imports fw ex imports tbl iat Import k mem' }"
  by (auto simp: import_address_def Let_def split: Option.bind_splits)

text \<open>The first import that is not resolved ends the loading.\<close>

lemma bind_imports_unresolved:
  "import_address fw ex imports tbl Import i = Some None \<Longrightarrow> bind_imports fw ex imports tbl iat Import (i # k) mem = Some None"
  by (auto simp: import_address_def Let_def split: Option.bind_splits)

lemma length_iat_bytes: "length (iat_bytes magic a) = lookup_size magic"
  by (simp add: iat_bytes_def lookup_size_def)

lemma slice_nth: "off + n \<le> length bs \<Longrightarrow> i < n \<Longrightarrow> slice off n bs ! i = bs ! (off + i)"
  by (simp add: slice_def)

lemma slice_cong: "off + n \<le> length bs \<Longrightarrow> length cs = length bs \<Longrightarrow> (\<And>j. off \<le> j \<Longrightarrow> j < off + n \<Longrightarrow> cs ! j = bs ! j) \<Longrightarrow>
    slice off n cs = slice off n bs"
  by (rule nth_equalityI) (simp_all add: length_slice slice_nth)

lemma put_bytes_slice: "put_bytes off xs buf = Some buf' \<Longrightarrow> slice off (length xs) buf' = xs"
  by (auto simp: put_bytes_def slice_def split: if_splits)

lemma bind_imports_from:
  assumes "\<And>i. i < n \<Longrightarrow> import_address fw ex imports tbl Import i = Some (Some (a i))"
  defines "w \<equiv> lookup_size (exMagic ex)"
  shows "m \<le> n \<Longrightarrow> iat + w * n \<le> length mem \<Longrightarrow>
    \<exists>mem'. bind_imports fw ex imports tbl iat Import [m..<n] mem = Some (Some mem') \<and> length mem' = length mem
      \<and> (\<forall>i. m \<le> i \<longrightarrow> i < n \<longrightarrow> slice (iat + w * i) w mem' = iat_bytes (exMagic ex) (a i))
      \<and> (\<forall>j < length mem. j < iat + w * m \<or> iat + w * n \<le> j \<longrightarrow> mem' ! j = mem ! j)"
proof (induction "n - m" arbitrary: m mem)
  case 0
  then show ?case by simp
next
  case (Suc d)
  then have m: "m < n" by simp
  have d: "d = n - Suc m" using Suc(2) by simp
  have "(m + 1) * w \<le> n * w" using m by (intro mult_le_mono1) simp
  then have le: "iat + w * m + w \<le> length mem" using Suc.prems(2) by (simp add: algebra_simps)
  then obtain mem1 where put: "put_bytes (iat + w * m) (iat_bytes (exMagic ex) (a m)) mem = Some mem1"
    using put_bytes_fits [of "iat + w * m" "iat_bytes (exMagic ex) (a m)" mem] by (auto simp: length_iat_bytes w_def)
  note P = put_bytes_nth [OF put]
  obtain mem' where I: "bind_imports fw ex imports tbl iat Import [Suc m..<n] mem1 = Some (Some mem')" "length mem' = length mem1"
    "\<forall>i. Suc m \<le> i \<longrightarrow> i < n \<longrightarrow> slice (iat + w * i) w mem' = iat_bytes (exMagic ex) (a i)"
    "\<forall>j < length mem1. j < iat + w * Suc m \<or> iat + w * n \<le> j \<longrightarrow> mem' ! j = mem1 ! j"
    using Suc(1) [OF d, of mem1] m Suc.prems(2) P(1) by auto
  have "bind_imports fw ex imports tbl iat Import [m..<n] mem = Some (Some mem')"
    using bind_imports_step [OF assms(1) [OF m], of iat "[Suc m..<n]" mem] put I(1) m by (simp add: upt_conv_Cons w_def)
  moreover have "slice (iat + w * i) w mem' = iat_bytes (exMagic ex) (a i)" if i: "m \<le> i" "i < n" for i
  proof (cases "i = m")
    case True
    have "slice (iat + w * m) w mem' = slice (iat + w * m) w mem1"
      using I(2,4) le P(1) by (intro slice_cong) simp_all
    then show ?thesis using put_bytes_slice [OF put] True by (simp add: length_iat_bytes w_def)
  qed (use I(3) i in simp)
  moreover have "mem' ! j = mem ! j" if j: "j < length mem" "j < iat + w * m \<or> iat + w * n \<le> j" for j
  proof -
    have "iat + w * Suc m \<le> iat + w * n" using m by (intro add_left_mono mult_le_mono2) simp
    then have o: "j < iat + w * m \<or> iat + w * m + w \<le> j" using j(2) by auto
    then have "mem' ! j = mem1 ! j" using I(4) j P(1) by auto
    then show ?thesis using P(2) [OF j(1)] o by (auto simp: length_iat_bytes w_def)
  qed
  ultimately show ?case using I(2) P(1) by (intro exI [of _ mem']) simp
qed

text \<open>When every import of a library is resolved, its import table holds the addresses in order, each in
  four or eight bytes, and the rest of the image is as it was.\<close>

theorem bind_imports_slots:
  assumes "\<And>i. i < n \<Longrightarrow> import_address fw ex imports tbl Import i = Some (Some (a i))"
    and "iat + lookup_size (exMagic ex) * n \<le> length mem"
  shows "\<exists>mem'. bind_imports fw ex imports tbl iat Import [0..<n] mem = Some (Some mem') \<and> length mem' = length mem
      \<and> (\<forall>i < n. slice (iat + lookup_size (exMagic ex) * i) (lookup_size (exMagic ex)) mem' = iat_bytes (exMagic ex) (a i))
      \<and> (\<forall>j < length mem. j < iat \<or> iat + lookup_size (exMagic ex) * n \<le> j \<longrightarrow> mem' ! j = mem ! j)"
  using bind_imports_from [where a = a and m = 0, OF assms(1) _ assms(2)] by simp

section \<open>An executable and its library\<close>

text \<open>What the import table needs to know of a library: its address and its expansion.\<close>

definition library_node :: "u64 \<Rightarrow> pe_executable \<Rightarrow> loaded" where
  "library_node ImageBase ex = Loaded ImageBase 0 None (Some ex) [] [] []"

lemma import_address_node:
  assumes "This n = Some exL" and "ldBase n = bL"
  shows "import_address fw ex imports tbl n i = import_address fw ex imports tbl (library_node bL exL) i"
  unfolding import_address_def ResolveExport_def library_node_def assms loaded.sel ..

text \<open>An executable \<open>path\<close> whose import section names one library: the name lies at \<open>p\<close>, the lookup table at
  \<open>tbl\<close> with \<open>n\<close> entries, and the import table at \<open>iat\<close> of the image, apart from the loaded sections.\<close>

definition one_import :: "bytes \<Rightarrow> pe_executable \<Rightarrow> pe_section \<Rightarrow> bytes \<Rightarrow> nat \<Rightarrow> bytes \<Rightarrow> nat \<Rightarrow> nat \<Rightarrow> bool" where
  "one_import content ex s imports p lib tbl n =
    (List.find (named PeImportSection) (pe_sections content) = Some s \<and> exImport ex = Some imports \<and> exImports ex = [(Some tbl, n)]
     \<and> at_section s (import_NameRVA imports 0) = Some p \<and> c_string (drop p imports) = Some lib
     \<and> unat (import_AddressRVA imports 0) + lookup_size (exMagic ex) * n \<le> image_size content
     \<and> (\<forall>t \<in> set (pe_sections content). filled t \<longrightarrow>
          unat (import_AddressRVA imports 0) + lookup_size (exMagic ex) * n \<le> unat (mVirtualAddress t)
          \<or> unat (mVirtualAddress t) + pages_of (unat (mVirtualSize t)) \<le> unat (import_AddressRVA imports 0)))"

text \<open>The step for the import section.\<close>

lemma import_step:
  assumes f: "pe_file content" and cmp: "compares_names (strncmpa fw)" and ex: "exRaw ex = pe_bytes content"
    and one: "one_import content ex s imports p lib tbl n"
    and search: "SearchBinary fw (add_dependency Root self) (drop p imports) = Some None"
    and load: "load (library_path path lib) self al = Some (Some (node, al'))"
    and bind: "bind_imports fw ex imports tbl (unat (import_AddressRVA imports 0)) node [0..<n] (ldImage (add_dependency self node)) = Some (Some img)"
  shows "load_imports load fw path ex imports Root [0..<length (exImports ex)] self al
    = Some (Some (set_image (add_dependency self node) img, al'))"
proof -
  have s: "List.find (named PeImportSection) (pe_sections content) = Some s" "exImports ex = [(Some tbl, n)]"
    "at_section s (import_NameRVA imports 0) = Some p" "c_string (drop p imports) = Some lib"
    using one by (simp_all add: one_import_def)
  then have "GetAtRVAFromSectionDataPe (strncmpa fw) (import_NameRVA imports 0) PeImportSection (exRaw ex) = Some (Some p)"
    unfolding ex GetAtRVA_section [OF f cmp length_section_names(5) s(1)] by simp
  then show ?thesis using s search load bind by simp
qed

lemma not_covered:
  assumes "fits content N s" and "x + n \<le> unat (mVirtualAddress s) \<or> unat (mVirtualAddress s) + pages_of (unat (mVirtualSize s)) \<le> x"
    and "x \<le> j" "j < x + n"
  shows "\<not> covers j s" "\<not> in_pages j s"
  using assms by (auto simp: covers_def in_pages_def fits_def)

text \<open>The search below an executable whose tree holds only names, none of them the wanted one.\<close>

definition unnamed_by :: "firmware \<Rightarrow> bytes \<Rightarrow> loaded \<Rightarrow> bool" where
  "unnamed_by fw Binary n = (\<exists>s. ldName n = Some s \<and> strcmpa fw (s @ [0]) Binary \<noteq> 0)"

lemma preorder_add: "preorder (add_dependency Root (Loaded b e nm ex ss [] img)) = add_dependency Root (Loaded b e nm ex ss [] img)
    # tl (preorder Root) @ [Loaded b e nm ex ss [] img]"
  by (cases Root) simp

lemma height_add: "height (add_dependency Root (Loaded b e nm ex ss [] img)) \<le> 32 \<longleftrightarrow> height Root \<le> 32"
proof -
  have "Dependencies (add_dependency Root (Loaded b e nm ex ss [] img)) = Dependencies Root @ [Loaded b e nm ex ss [] img]"
    by (cases Root) simp
  then show ?thesis
    using height_deps [of "add_dependency Root (Loaded b e nm ex ss [] img)" 31] height_deps [of Root 31] by simp
qed

lemma search_absent:
  assumes "height Root \<le> 32" and "\<forall>x \<in> set (preorder Root). unnamed_by fw Binary x" and "strcmpa fw (f @ [0]) Binary \<noteq> 0"
  shows "SearchBinary fw (add_dependency Root (Loaded b e (Some f) ex ss [] img)) Binary = Some None"
proof -
  let ?R = "add_dependency Root (Loaded b e (Some f) ex ss [] img)"
  have r: "preorder Root = Root # concat (map preorder (Dependencies Root))" by (cases Root) simp
  have u: "\<not> stops fw Binary x" if "unnamed_by fw Binary x" for x using that by (auto simp: stops_def unnamed_by_def)
  have "ldName ?R = ldName Root" by (cases Root) simp
  then have "\<not> stops fw Binary ?R" using u [of Root] assms(2) r by (simp add: stops_def)
  moreover have "\<not> stops fw Binary x" if "x \<in> set (tl (preorder Root))" for x using that u assms(2) r by auto
  moreover have "\<not> stops fw Binary (Loaded b e (Some f) ex ss [] img)" using assms(3) by (simp add: stops_def)
  ultimately have none: "List.find (stops fw Binary) (preorder ?R) = None" unfolding preorder_add by (auto simp: find_None_iff)
  have R: "preorder ?R = [?R] @ concat (map preorder (Dependencies ?R))" by (cases ?R) simp
  show ?thesis
    using search_from [of ?R "[]" 0 fw Binary] height_add [of Root] assms(1) none unfolding R by (simp add: SearchBinary_def)
qed

text \<open>\<open>LoadExecutable\<close> starts from a root without a name: the first library that an executable imports is
  searched there, and the name is read through the null pointer.\<close>

lemma imports_of_an_executable_null:
  assumes f: "pe_file content" and cmp: "compares_names (strncmpa fw)" and ex: "exRaw ex = pe_bytes content"
    and s: "List.find (named PeImportSection) (pe_sections content) = Some s" and "exImports ex \<noteq> []"
    and "at_section s (import_NameRVA imports 0) = Some p"
  shows "load_imports load fw path ex imports Stub [0..<length (exImports ex)] self al = None"
proof -
  obtain n where n: "length (exImports ex) = Suc n" using assms(5) by (cases "exImports ex") auto
  have "GetAtRVAFromSectionDataPe (strncmpa fw) (import_NameRVA imports 0) PeImportSection (exRaw ex) = Some (Some p)"
    using assms(6) unfolding ex GetAtRVA_section [OF f cmp length_section_names(5) s] by simp
  moreover have "SearchBinary fw (add_dependency Stub self) (drop p imports) = None"
    by (subst SearchBinary_def, subst search_loop.simps) (simp add: Stub_def name_of_def)
  ultimately show ?thesis unfolding n by (simp add: upt_conv_Cons del: upt_Suc)
qed

text \<open>The import step between the sections before it and those behind it: the image is that of the sections,
  with the import table on top.\<close>

lemma load_linked:
  assumes sck: "byte_socket rd content" and cmp: "compares_names (strncmpa fw)" and ok: "exe_file content"
    and ex: "ExpandPeExecutableFormat (strncmpa fw) rd = Some ex" and one: "one_import content ex s imports p lib tbl n"
    and search: "\<And>secs img. SearchBinary fw (add_dependency Root (Loaded b e nm (Some ex) secs [] img)) (drop p imports) = Some None"
    and load: "\<And>secs img. load (library_path path lib) (Loaded b e nm (Some ex) secs [] img) al = Some (Some (node, al'))"
    and imp: "\<And>i. i < n \<Longrightarrow> import_address fw ex imports tbl node i = Some (Some (a i))"
  defines "iat \<equiv> unat (import_AddressRVA imports 0)" and "w \<equiv> lookup_size (exMagic ex)"
  shows "\<exists>img. load_sections load fw rd path ex Root [0..<length (pe_sections content)]
        (Loaded b e nm (Some ex) [] [] (replicate (image_size content) 0)) al
      = Some (Some (Loaded b e nm (Some ex) (map (section_record b) (filter (\<lambda>t. filled t \<or> t = s) (pe_sections content))) [node] img, al'))
    \<and> length img = image_size content
    \<and> (\<forall>i < n. slice (iat + w * i) w img = iat_bytes (exMagic ex) (a i))
    \<and> (\<forall>j < image_size content. j < iat \<or> iat + w * n \<le> j \<longrightarrow> img ! j = image_byte content (filter filled (pe_sections content)) j)"
proof -
  let ?N = "image_size content" and ?ss = "pe_sections content"
  have f: "pe_file content" and dist: "distinct (map (\<lambda>s. name8 (mName s)) (pe_sections content))"
    and fit: "\<forall>s \<in> set (pe_sections content). filled s \<longrightarrow> fits content ?N s"
    and ap: "\<forall>s \<in> set (pe_sections content). \<forall>t \<in> set (pe_sections content). filled s \<longrightarrow> filled t \<longrightarrow> s \<noteq> t \<longrightarrow> apart s t"
    using ok by (simp_all add: exe_file_def)
  have raw: "exRaw ex = pe_bytes content" by (rule ExpandPe_raw(1) [OF sck f ex])
  have o: "List.find (named PeImportSection) ?ss = Some s" "exImport ex = Some imports" "exImports ex = [(Some tbl, n)]" "iat + w * n \<le> ?N"
    and off: "\<forall>t \<in> set ?ss. filled t \<longrightarrow> iat + w * n \<le> unat (mVirtualAddress t) \<or> unat (mVirtualAddress t) + pages_of (unat (mVirtualSize t)) \<le> iat"
    using one by (simp_all add: one_import_def iat_def w_def)
  obtain m where m: "m < length ?ss" "s = ?ss ! m" "named PeImportSection s" using o(1) by (auto simp: find_Some_iff)
  have nfs: "\<not> filled s" "\<not> loads s" using m(3) by (auto simp: filled_def loads_def named_def name8_constants)
  have dss: "distinct ?ss" using dist by (simp add: distinct_map)
  have only: "\<not> named PeImportSection t" if "t \<in> set ?ss" "t \<noteq> s" for t
  proof
    assume "named PeImportSection t"
    then have "name8 (mName t) = name8 (mName s)" using m(3) by (simp add: named_def)
    then show False using that dist m by (auto simp: distinct_map inj_on_def)
  qed
  define pre post where "pre = [0..<m]" and "post = [Suc m..<length ?ss]"
  have split: "[0..<length ?ss] = pre @ m # post"
    using m(1) upt_add_eq_append [of 0 m "length ?ss - m"] by (simp add: pre_def post_def upt_conv_Cons)
  have all: "map ((!) ?ss) [0..<length ?ss] = ?ss" by (rule map_nth)
  let ?fp = "filter filled (map ((!) ?ss) pre)" and ?fq = "filter filled (map ((!) ?ss) post)"
  have parts: "map ((!) ?ss) pre @ s # map ((!) ?ss) post = ?ss" using all split m(2) by simp
  have fss: "filter filled ?ss = ?fp @ ?fq" by (subst parts [symmetric]) (use nfs in simp)
  have gss: "filter (\<lambda>t. filled t \<or> t = s) ?ss = ?fp @ s # ?fq"
  proof -
    have "s \<notin> set (map ((!) ?ss) pre)" "s \<notin> set (map ((!) ?ss) post)" using dss by (subst (asm) parts [symmetric], simp)+
    then have "filter (\<lambda>t. filled t \<or> t = s) (map ((!) ?ss) k) = filter filled (map ((!) ?ss) k)" if "k \<in> {pre, post}" for k
      using that by (intro filter_cong) auto
    then show ?thesis by (subst parts [symmetric]) simp
  qed
  have pp: "\<forall>cc \<in> set k. cc < length ?ss \<and> \<not> named PeImportSection (?ss ! cc)" if "k \<in> {pre, post}" for k
  proof
    fix cc assume "cc \<in> set k"
    then have "cc < length ?ss" "cc \<noteq> m" using that m(1) by (auto simp: pre_def post_def)
    then show "cc < length ?ss \<and> \<not> named PeImportSection (?ss ! cc)" using only dss m by (auto simp: nth_eq_iff_index_eq)
  qed
  have "\<exists>img1. load_sections load fw rd path ex Root (pre @ m # post) (Loaded b e nm (Some ex) [] [] (replicate ?N 0)) al
      = load_sections load fw rd path ex Root (m # post) (Loaded b e nm (Some ex) ([] @ map (section_record b) ?fp) [] img1) al
      \<and> length img1 = ?N \<and> (\<forall>j < ?N. img1 ! j = image_over (\<lambda>_. 0) content ([] @ ?fp) j)"
  proof (rule load_sections_fills [OF sck f cmp raw dist fit ap])
    show "distinct ([] @ map ((!) ?ss) pre)" using dss by (subst (asm) parts [symmetric]) simp
  qed (use pp [of pre] in \<open>auto simp: image_over_def\<close>)
  then obtain img1 where L1: "load_sections load fw rd path ex Root (pre @ m # post) (Loaded b e nm (Some ex) [] [] (replicate ?N 0)) al
      = load_sections load fw rd path ex Root (m # post) (Loaded b e nm (Some ex) (map (section_record b) ?fp) [] img1) al"
    "length img1 = ?N" "\<forall>j < ?N. img1 ! j = image_over (\<lambda>_. 0) content ?fp j"
    by auto
  let ?self = "Loaded b e nm (Some ex) (map (section_record b) ?fp) [] img1"
  obtain img2 where B: "bind_imports fw ex imports tbl iat node [0..<n] img1 = Some (Some img2)" "length img2 = ?N"
    "\<forall>i < n. slice (iat + w * i) w img2 = iat_bytes (exMagic ex) (a i)"
    "\<forall>j < ?N. j < iat \<or> iat + w * n \<le> j \<longrightarrow> img2 ! j = img1 ! j"
    using bind_imports_from [where a = a and m = 0, OF imp _ o(4) [folded L1(2), unfolded w_def]] L1(2) by (auto simp: w_def)
  have "load_imports load fw path ex imports Root [0..<length (exImports ex)] ?self al = Some (Some (set_image (add_dependency ?self node) img2, al'))"
    by (rule import_step [OF f cmp raw one]) (rule search, rule load, use B(1) in \<open>simp add: iat_def\<close>)
  then have S: "load_imports load fw path ex imports Root [0..<length (exImports ex)] ?self al
      = Some (Some (Loaded b e nm (Some ex) (map (section_record b) ?fp) [node] img2, al'))" by simp
  have P: "PISHs (exRaw ex) m = Some s" using PISHs_pe_bytes [OF f] m by (simp add: raw)
  have len: "length (mName s) = 8" using length_names [OF _ f] m by simp
  have "strncmpa fw (mName s) PeImportSection 8 = 0"
    using cmp len m(3) by (simp add: compares_names_def named_def length_section_names)
  then have L2: "load_sections load fw rd path ex Root (m # post) ?self al
      = load_sections load fw rd path ex Root post (Loaded b e nm (Some ex) (map (section_record b) ?fp @ [section_record b s]) [node] img2) al'"
    using P S nfs(2) is_loaded_name_iff [OF cmp len] o(2,3) by (simp del: load_imports.simps)
  define z where "z j = (if iat \<le> j \<and> j < iat + w * n then img2 ! j else 0)" for j
  have nc: "\<not> covers j t" "\<not> in_pages j t" if "t \<in> set ?ss" "filled t" "iat \<le> j" "j < iat + w * n" for t j
    using not_covered [of content ?N t iat "w * n" j] that fit off by (auto simp:)
  have z0: "z j = 0" if "t \<in> set (pe_sections content)" "filled t" "in_pages j t" for t j
    using nc(2) [of t j] that by (auto simp: z_def)
  have over: "image_over z content q j = (if iat \<le> j \<and> j < iat + w * n then img2 ! j else image_over (\<lambda>_. 0) content q j)"
    if "set q \<subseteq> set ?ss" "\<forall>t \<in> set q. filled t" for q j
  proof (cases "iat \<le> j \<and> j < iat + w * n")
    case True
    then have "List.find (covers j) q = None" using nc(1) that by (auto simp: find_None_iff)
    then show ?thesis using True by (simp add: image_over_def z_def)
  qed (auto simp: image_over_def z_def split: option.split)
  have sub: "set ?fp \<subseteq> set ?ss" "set (?fp @ ?fq) \<subseteq> set ?ss" using parts by (metis fss filter_is_subset set_append Un_subset_iff, metis fss filter_is_subset)
  have "img2 ! j = image_over z content ?fp j" if "j < ?N" for j
    using over [OF sub(1)] B(4) L1(3) that by auto
  note i2 = this
  have "\<exists>img3. load_sections load fw rd path ex Root (post @ [])
        (Loaded b e nm (Some ex) (map (section_record b) ?fp @ [section_record b s]) [node] img2) al'
      = load_sections load fw rd path ex Root []
        (Loaded b e nm (Some ex) ((map (section_record b) ?fp @ [section_record b s]) @ map (section_record b) ?fq) [node] img3) al'
      \<and> length img3 = ?N \<and> (\<forall>j < ?N. img3 ! j = image_over z content (?fp @ ?fq) j)"
  proof (rule load_sections_fills [OF sck f cmp raw dist fit ap z0])
    show "distinct (?fp @ map ((!) ?ss) post)" using dss by (subst (asm) parts [symmetric]) auto
    show "set ?fp \<subseteq> {s \<in> set ?ss. filled s}" using sub(1) by auto
  qed (use pp [of post] B(2) i2 in auto)
  then obtain img3 where L3: "load_sections load fw rd path ex Root (post @ [])
        (Loaded b e nm (Some ex) (map (section_record b) ?fp @ [section_record b s]) [node] img2) al'
      = load_sections load fw rd path ex Root []
        (Loaded b e nm (Some ex) ((map (section_record b) ?fp @ [section_record b s]) @ map (section_record b) ?fq) [node] img3) al'"
    "length img3 = ?N" "\<forall>j < ?N. img3 ! j = image_over z content (?fp @ ?fq) j"
    by blast
  have img3: "img3 ! j = (if iat \<le> j \<and> j < iat + w * n then img2 ! j else image_byte content (filter filled ?ss) j)" if "j < ?N" for j
  proof -
    have "\<forall>t \<in> set (?fp @ ?fq). filled t" by auto
    from over [OF sub(2) this, of j] show ?thesis unfolding fss image_byte_def using L3(3) that by simp
  qed
  have "slice (iat + w * i) w img3 = iat_bytes (exMagic ex) (a i)" if i: "i < n" for i
  proof -
    have "w * (i + 1) \<le> w * n" using i by (intro mult_le_mono2) simp
    then have "iat + w * i + w \<le> iat + w * n" by simp
    then have "slice (iat + w * i) w img3 = slice (iat + w * i) w img2"
      using img3 o(4) L3(2) B(2) by (intro slice_cong) auto
    then show ?thesis using B(3) i by simp
  qed
  then show ?thesis
    using L1(1) L2 L3(1,2) img3 gss by (intro exI [of _ img3]) (simp add: split)
qed

text \<open>The image of an executable without imports, and the executable as it is loaded at an address.\<close>

definition loaded_image :: "bytes \<Rightarrow> bytes" where
  "loaded_image content = map (image_byte content (filter filled (pe_sections content))) [0..<image_size content]"

definition loaded_library :: "bytes \<Rightarrow> bytes \<Rightarrow> pe_executable \<Rightarrow> u64 \<Rightarrow> loaded" where
  "loaded_library path content ex b =
    Loaded b (b + ucast (mAddressOfEntryPoint (pe_opt content))) (Some (file_name path)) (Some ex)
      (map (section_record b) (filter filled (pe_sections content))) [] (loaded_image content)"

lemma load_library:
  assumes "drive fw path = Some rd" and "byte_socket rd content" and "compares_names (strncmpa fw)"
    and "exe_file content" and "ExpandPeExecutableFormat (strncmpa fw) rd = Some ex" and "exImports ex = []"
  shows "LoadBinary (Suc depth) fw path Root (b # al) = Some (Some (loaded_library path content ex b, al))"
proof -
  obtain img where L: "LoadBinary (Suc depth) fw path Root (b # al) = Some (Some
      (Loaded b (b + ucast (mAddressOfEntryPoint (pe_opt content))) (Some (file_name path)) (Some ex)
        (map (section_record b) (filter filled (pe_sections content))) [] img, al))"
    "length img = image_size content" "\<forall>j < image_size content. img ! j = image_byte content (filter filled (pe_sections content)) j"
    using load_plain [OF assms, of depth Root b al] by blast
  have "img = loaded_image content" using L(2,3) by (intro nth_equalityI) (simp_all add: loaded_image_def)
  then show ?thesis unfolding L(1) loaded_library_def by simp
qed

text \<open>C2: an executable that imports from one library is loaded with it, below an executable that is loaded
  already: the library is loaded below it at the next address of the firmware, and the import table
  holds the addresses its imports are resolved to in the library.  Outside of the import table the image
  holds the data of the sections \<open>.text\<close>, \<open>.data\<close>, \<open>.bss\<close> and \<open>.rdata\<close> and zeros; the import section itself is not
  copied.  No executable of the tree above has the name of the library, all of them have names (below
  the nameless root of \<open>LoadExecutable\<close> the search reads through a null pointer) and the tree has at most 32
  levels; the library imports nothing itself, both files are in order (distinct names of sections, the
  copied sections on pages of their own inside the image), and the import table lies apart from the
  copied sections.\<close>

theorem LoadBinary_linked:
  assumes exe: "drive fw path = Some rd" "byte_socket rd content" "exe_file content"
      "ExpandPeExecutableFormat (strncmpa fw) rd = Some ex" "one_import content ex s imports p lib tbl n"
    and lib: "drive fw (library_path path lib) = Some rdL" "byte_socket rdL contentL" "exe_file contentL"
      "ExpandPeExecutableFormat (strncmpa fw) rdL = Some exL" "exImports exL = []"
    and cmp: "compares_names (strncmpa fw)"
    and new: "height Root \<le> 32" "\<forall>x \<in> set (preorder Root). unnamed_by fw (drop p imports) x"
      "strcmpa fw (file_name path @ [0]) (drop p imports) \<noteq> 0"
    and imp: "\<And>i. i < n \<Longrightarrow> import_address fw ex imports tbl (library_node bL exL) i = Some (Some (a i))"
  defines "iat \<equiv> unat (import_AddressRVA imports 0)" and "w \<equiv> lookup_size (exMagic ex)"
  shows "\<exists>img. LoadBinary (Suc (Suc depth)) fw path Root (b # bL # al) = Some (Some
      (Loaded b (b + ucast (mAddressOfEntryPoint (pe_opt content))) (Some (file_name path)) (Some ex)
        (map (section_record b) (filter (\<lambda>t. filled t \<or> t = s) (pe_sections content)))
        [loaded_library (library_path path lib) contentL exL bL] img, al))
    \<and> length img = image_size content
    \<and> (\<forall>i < n. slice (iat + w * i) w img = iat_bytes (exMagic ex) (a i))
    \<and> (\<forall>j < image_size content. j < iat \<or> iat + w * n \<le> j \<longrightarrow>
         img ! j = image_byte content (filter filled (pe_sections content)) j)"
proof -
  have f: "pe_file content" "60 \<le> unat (mSizeOfOptionalHeader (pe_head content))" "unat (mSizeOfImage (pe_opt content)) + 4095 < 2 ^ 32"
    using exe(3) by (simp_all add: exe_file_def)
  have N: "unat (page_round (mSizeOfImage (pe_opt content))) = image_size content"
    using page_round_unat [OF f(3)] by (simp add: image_size_def)
  let ?node = "loaded_library (library_path path lib) contentL exL bL" and ?e = "b + ucast (mAddressOfEntryPoint (pe_opt content))"
  have imp': "import_address fw ex imports tbl ?node i = Some (Some (a i))" if "i < n" for i
    using imp [OF that] import_address_node [of ?node exL bL fw ex "imports" tbl i] by (simp add: loaded_library_def)
  have "\<exists>img. load_sections (LoadBinary (Suc depth) fw) fw rd path ex Root [0..<length (pe_sections content)]
        (Loaded b ?e (Some (file_name path)) (Some ex) [] [] (replicate (image_size content) 0)) (bL # al)
      = Some (Some (Loaded b ?e (Some (file_name path)) (Some ex) (map (section_record b) (filter (\<lambda>t. filled t \<or> t = s) (pe_sections content)))
          [?node] img, al))
    \<and> length img = image_size content \<and> (\<forall>i < n. slice (iat + w * i) w img = iat_bytes (exMagic ex) (a i))
    \<and> (\<forall>j < image_size content. j < iat \<or> iat + w * n \<le> j \<longrightarrow> img ! j = image_byte content (filter filled (pe_sections content)) j)"
    unfolding iat_def w_def
  proof (rule load_linked [OF exe(2) cmp exe(3-5)])
    show "SearchBinary fw (add_dependency Root (Loaded b ?e (Some (file_name path)) (Some ex) secs [] img)) (drop p imports) = Some None" for secs img
      by (rule search_absent [OF new])
    show "LoadBinary (Suc depth) fw (library_path path lib) (Loaded b ?e (Some (file_name path)) (Some ex) secs [] img) (bL # al)
        = Some (Some (?node, al))" for secs img
      by (rule load_library [OF lib(1,2) cmp lib(3-5)])
  qed (rule imp')
  then obtain img where L: "load_sections (LoadBinary (Suc depth) fw) fw rd path ex Root [0..<length (pe_sections content)]
        (Loaded b ?e (Some (file_name path)) (Some ex) [] [] (replicate (image_size content) 0)) (bL # al)
      = Some (Some (Loaded b ?e (Some (file_name path)) (Some ex) (map (section_record b) (filter (\<lambda>t. filled t \<or> t = s) (pe_sections content)))
          [?node] img, al))"
    "length img = image_size content" "\<forall>i < n. slice (iat + w * i) w img = iat_bytes (exMagic ex) (a i)"
    "\<forall>j < image_size content. j < iat \<or> iat + w * n \<le> j \<longrightarrow> img ! j = image_byte content (filter filled (pe_sections content)) j"
    by blast
  have "LoadBinary (Suc (Suc depth)) fw path Root (b # bL # al)
      = load_sections (LoadBinary (Suc depth) fw) fw rd path ex Root [0..<length (pe_sections content)]
        (Loaded b ?e (Some (file_name path)) (Some ex) [] [] (replicate (image_size content) 0)) (bL # al)"
    by (simp add: exe(1,4) ExpandPe_raw(1) [OF exe(2) f(1) exe(4)] POH_pe_bytes [OF f(1,2)] PH_pe_bytes [OF f(1)] N pe_sections_def
        del: load_sections.simps LoadBinary.simps(1)) (simp only: LoadBinary.simps)?
  then show ?thesis using L by (simp del: LoadBinary.simps)
qed

section \<open>A program and a library\<close>

text \<open>A library that exports one function under the name \<open>f\<close>, and a program that imports it.\<close>

definition lib_exports :: bytes where
  "lib_exports = replicate 16 0 @ le_bytes 4 1 @ le_bytes 4 1 @ le_bytes 4 1 @ le_bytes 4 0x2028 @ le_bytes 4 0x202C @ le_bytes 4 0x2030
     @ le_bytes 4 0x1002 @ le_bytes 4 0x2032 @ [0, 0] @ [0x66, 0]"

definition lib_sections :: "bytes list" where
  "lib_sections = [section_entry PeCodeSection 16 0x1000 4 228, section_entry PeExportSection 52 0x2000 52 232]"

definition lib_exe :: bytes where
  "lib_exe = exe_bytes 3 0x1000 lib_sections ([0xC3, 0xC3, 0xC3, 0xC3] @ lib_exports)"

definition prog_imports :: bytes where
  "prog_imports = le_bytes 4 0x2028 @ replicate 8 0 @ le_bytes 4 0x203C @ le_bytes 4 0x2100 @ replicate 20 0
     @ le_bytes 8 0x2038 @ replicate 8 0 @ [0, 0] @ [0x66, 0] @ [0x6C, 0]"

definition prog_sections :: "bytes list" where
  "prog_sections = [section_entry PeCodeSection 16 0x1000 4 228, section_entry PeImportSection 62 0x2000 62 232]"

definition prog_exe :: bytes where
  "prog_exe = exe_bytes 3 0x1000 prog_sections ([0xFF, 0x15, 0, 0x11] @ prog_imports)"

definition link_firmware :: firmware where
  "link_firmware = \<lparr>strncmpa = ascii_strncmp, strcmpa = ascii_strcmp,
     drive = (\<lambda>path. if path = [0x61] then Some (list_reader prog_exe) else if path = [0x6C] then Some (list_reader lib_exe) else None)\<rparr>"

lemma link_firmware_laws:
  "compares_names (strncmpa link_firmware)" "compares_strings (strcmpa link_firmware)"
  "drive link_firmware [0x61] = Some (list_reader prog_exe)" "drive link_firmware [0x6C] = Some (list_reader lib_exe)"
  by (simp_all add: link_firmware_def ascii_compares compares_strings_def ascii_strcmp_def)

lemma link_layout:
  "\<forall>s \<in> set lib_sections. length s = 40" "length lib_sections = 2" "\<forall>s \<in> set prog_sections. length s = 40" "length prog_sections = 2"
  by (simp_all add: lib_sections_def prog_sections_def length_section_entry length_section_names)

lemma length_tables: "length lib_exports = 52" "length prog_imports = 62"
  by (simp_all add: lib_exports_def prog_imports_def)

lemmas lib_layout = exe_bytes_layout [where rva = "0x1000" and n = "3" and body = "[0xC3, 0xC3, 0xC3, 0xC3] @ lib_exports" and ss = lib_sections,
  folded lib_exe_def, unfolded link_layout(2), OF link_layout(1), simplified, unfolded length_tables, simplified]

lemmas prog_layout = exe_bytes_layout [where rva = "0x1000" and n = "3" and body = "[0xFF, 0x15, 0, 0x11] @ prog_imports" and ss = prog_sections,
  folded prog_exe_def, unfolded link_layout(4), OF link_layout(3), simplified, unfolded length_tables, simplified]

lemma lib_section_list:
  "pe_sections lib_exe = [decode_section (section_entry PeCodeSection 16 0x1000 4 228), decode_section (section_entry PeExportSection 52 0x2000 52 232)]"
  using lib_layout(8) by (simp add: lib_sections_def)

lemma prog_section_list:
  "pe_sections prog_exe = [decode_section (section_entry PeCodeSection 16 0x1000 4 228), decode_section (section_entry PeImportSection 62 0x2000 62 232)]"
  using prog_layout(8) by (simp add: prog_sections_def)

lemma link_sizes: "image_size lib_exe = 0x3000" "image_size prog_exe = 0x3000"
  using lib_layout(7) prog_layout(7) by (simp_all add: image_size_def pages_of_def EFI_PAGE_SIZE_def)

lemmas section_facts = decode_section_entry length_section_names name8_constants

lemma link_files: "pe_file lib_exe" "pe_file prog_exe" "exe_file lib_exe" "exe_file prog_exe"
proof -
  show f: "pe_file lib_exe" "pe_file prog_exe"
    using lib_layout(1-5,9) prog_layout(1-5,9) by (simp_all add: pe_file_def pe_sizes)
  show "exe_file lib_exe"
    using f lib_layout(1-7) link_sizes
    by (simp add: exe_file_def lib_section_list section_facts fits_def apart_def pages_of_def EFI_PAGE_SIZE_def filled_def named_def)
  show "exe_file prog_exe"
    using f prog_layout(1-7) link_sizes
    by (simp add: exe_file_def prog_section_list section_facts fits_def apart_def pages_of_def EFI_PAGE_SIZE_def filled_def named_def)
qed

definition export_section :: pe_section where "export_section = decode_section (section_entry PeExportSection 52 0x2000 52 232)"
definition import_section :: pe_section where "import_section = decode_section (section_entry PeImportSection 62 0x2000 62 232)"

lemma link_data: "raw_data lib_exe export_section = lib_exports" "raw_data prog_exe import_section = prog_imports"
  using lib_layout(11) [of 4 52] prog_layout(11) [of 4 62] length_tables
  by (simp_all add: raw_data_def export_section_def import_section_def section_facts)

lemma lib_fields:
  "rd_u32 lib_exports 16 = 1" "rd_u32 lib_exports 20 = 1" "rd_u32 lib_exports 24 = 1" "rd_u32 lib_exports 28 = 0x2028"
  "rd_u32 lib_exports 32 = 0x202C" "rd_u32 lib_exports 36 = 0x2030" "rd_u32 lib_exports 40 = 0x1002" "rd_u32 lib_exports 44 = 0x2032"
  "rd_u16 lib_exports 48 = 0" "drop 50 lib_exports = [0x66, 0]"
  by (simp_all add: lib_exports_def rd_u32_def rd_u16_def le_nat_le_bytes)

lemma prog_fields:
  "import_LookupRVA prog_imports 0 = 0x2028" "import_NameRVA prog_imports 0 = 0x203C" "import_AddressRVA prog_imports 0 = 0x2100"
  "rd_u64 prog_imports 40 = 0x2038" "drop 58 prog_imports = [0x66, 0, 0x6C, 0]" "drop 60 prog_imports = [0x6C, 0]"
  by (simp_all add: prog_imports_def import_LookupRVA_def import_NameRVA_def import_AddressRVA_def sizeof_PeImportDirectoryEntry_def
      rd_u32_def rd_u64_def le_nat_le_bytes)

definition lib_view :: export_view where
  "lib_view = \<lparr>evNames = 44, evOrdinals = 48, evAddresses = 40\<rparr>"

lemma at_export: "at_section export_section rva = (if 0x2000 \<le> rva \<and> rva - 0x2000 < 52 then Some (unat (rva - 0x2000)) else None)"
  by (simp add: at_section_def export_section_def section_facts)

lemma at_import: "at_section import_section rva = (if 0x2000 \<le> rva \<and> rva - 0x2000 < 62 then Some (unat (rva - 0x2000)) else None)"
  by (simp add: at_section_def import_section_def section_facts)

lemma link_find:
  "List.find (named PeExportSection) (pe_sections lib_exe) = Some export_section"
  "List.find (named PeImportSection) (pe_sections prog_exe) = Some import_section"
  by (simp_all add: lib_section_list prog_section_list section_facts named_def export_section_def import_section_def)

lemma lib_is_library: "library_file lib_exe export_section lib_view"
proof -
  have "length (pe_bytes lib_exe) = 164" using length_pe_bytes [OF link_files(1)] lib_layout(3,4) by (simp add: pe_sizes)
  moreover have "directory_at lib_exe = 200" using lib_layout(1,2) by (simp add: directory_at_def pe_sizes Pe32_def Pe32Plus_def sizeof_Pe32PlusOptionalHeader_def)
  moreover have "unat (mPointerToRawData export_section) = 232" "unat (mSizeOfRawData export_section) = 52"
    by (simp_all add: export_section_def section_facts)
  ultimately show ?thesis
    unfolding library_file_def link_data Let_def
    using link_files(1) link_find(1) lib_layout(1,5) lib_fields
    by (simp add: at_export lib_view_def length_tables)
qed

lemma read_tables:
  "nm \<in> {PeImportSection, PeRelocDataSection, PeResourceSection, PeExceptionInfoSection} \<Longrightarrow>
     ReadSectionPe ascii_strncmp (list_reader lib_exe) (pe_bytes lib_exe) nm = Some None"
  "nm \<in> {PeExportSection, PeRelocDataSection, PeResourceSection, PeExceptionInfoSection} \<Longrightarrow>
     ReadSectionPe ascii_strncmp (list_reader prog_exe) (pe_bytes prog_exe) nm = Some None"
  "ReadSectionPe ascii_strncmp (list_reader lib_exe) (pe_bytes lib_exe) PeExportSection = Some (Some lib_exports)"
  "ReadSectionPe ascii_strncmp (list_reader prog_exe) (pe_bytes prog_exe) PeImportSection = Some (Some prog_imports)"
proof -
  note A = byte_socket.ReadSectionPe_absent [OF list_reader_socket _ ascii_compares]
    and R = byte_socket.ReadSectionPe_reads [OF list_reader_socket _ ascii_compares]
  show "ReadSectionPe ascii_strncmp (list_reader lib_exe) (pe_bytes lib_exe) nm = Some None"
    if "nm \<in> {PeImportSection, PeRelocDataSection, PeResourceSection, PeExceptionInfoSection}"
    using that by (intro A link_files) (auto simp: lib_section_list section_facts named_def)
  show "ReadSectionPe ascii_strncmp (list_reader prog_exe) (pe_bytes prog_exe) nm = Some None"
    if "nm \<in> {PeExportSection, PeRelocDataSection, PeResourceSection, PeExceptionInfoSection}"
    using that by (intro A link_files) (auto simp: prog_section_list section_facts named_def)
  have "mSizeOfRawData export_section \<noteq> 0" "unat (mPointerToRawData export_section) + unat (mSizeOfRawData export_section) \<le> length lib_exe"
    using lib_layout(5) by (simp_all add: export_section_def section_facts)
  from R [OF link_files(1) length_section_names(6) link_find(1) this]
  show "ReadSectionPe ascii_strncmp (list_reader lib_exe) (pe_bytes lib_exe) PeExportSection = Some (Some lib_exports)"
    using link_data(1) by (simp add: raw_data_def)
  have "mSizeOfRawData import_section \<noteq> 0" "unat (mPointerToRawData import_section) + unat (mSizeOfRawData import_section) \<le> length prog_exe"
    using prog_layout(5) by (simp_all add: import_section_def section_facts)
  from R [OF link_files(2) length_section_names(5) link_find(2) this]
  show "ReadSectionPe ascii_strncmp (list_reader prog_exe) (pe_bytes prog_exe) PeImportSection = Some (Some prog_imports)"
    using link_data(2) by (simp add: raw_data_def)
qed

lemma lib_expands:
  obtains exL where "ExpandPeExecutableFormat (strncmpa link_firmware) (list_reader lib_exe) = Some exL" "exImports exL = []"
proof -
  have "GetAtRVAFromSectionDataPe ascii_strncmp rva PeExportSection (pe_bytes lib_exe) = Some (at_section export_section rva)" for rva
    by (rule GetAtRVA_section [OF link_files(1) ascii_compares length_section_names(6) link_find(1)])
  moreover have "mNamePointerRVA lib_exports = Some (rd_u32 lib_exports 32)" "OrdinalPointerRVA lib_exports = Some (rd_u32 lib_exports 36)"
    "mExportTableRVA lib_exports = Some (rd_u32 lib_exports 28)"
    using library_fields [OF lib_is_library] unfolding link_data by simp_all
  ultimately have "\<exists>exL. ExpandPeExecutableFormat (strncmpa link_firmware) (list_reader lib_exe) = Some exL \<and> exImports exL = []"
    using byte_socket.ReadPeExecutableHeader_reads [OF list_reader_socket link_files(1)] POH_magic_pe_bytes [OF link_files(1)] read_tables
    by (simp add: ExpandPeExecutableFormat_def export_table_def link_firmware_def)
  then show thesis using that by blast
qed

lemma prog_lookups:
  "count_imports prog_imports 0 = Some 1" "count_entries 8 prog_imports 40 0 = Some 1"
proof -
  have "rd_u32 (slice 0 20 prog_imports) 0 = 0x2028" "rd_u32 (replicate 20 0) 0 = 0"
    using prog_fields(1) by (simp_all add: rd_u32_slice import_LookupRVA_def) (simp add: rd_u32_def)
  then have "slice 0 20 prog_imports \<noteq> replicate 20 0" by auto
  moreover have "slice 40 8 prog_imports = le_bytes 8 0x2038" by (simp add: prog_imports_def slice_def)
  then have "le_nat (slice 40 8 prog_imports) = 0x2038" by (simp add: le_nat_le_bytes)
  then have "slice 40 8 prog_imports \<noteq> replicate 8 0" by (metis le_nat_zeros zero_neq_numeral)
  moreover have "slice 20 20 prog_imports = replicate 20 0" "slice 48 8 prog_imports = replicate 8 0"
    by (simp_all add: prog_imports_def slice_def)
  ultimately show "count_imports prog_imports 0 = Some 1" "count_entries 8 prog_imports 40 0 = Some 1"
    using length_tables(2)
    by (subst count_imports.simps count_entries.simps, simp add: sizeof_PeImportDirectoryEntry_def,
        subst count_imports.simps count_entries.simps, simp add: sizeof_PeImportDirectoryEntry_def)+
qed

lemma prog_expands:
  obtains ex where "ExpandPeExecutableFormat (strncmpa link_firmware) (list_reader prog_exe) = Some ex" "exRaw ex = pe_bytes prog_exe"
    "exMagic ex = Pe32Plus" "exImport ex = Some prog_imports" "exImports ex = [(Some 40, 1)]"
proof -
  have "GetAtRVAFromSectionDataPe ascii_strncmp rva PeImportSection (pe_bytes prog_exe) = Some (at_section import_section rva)" for rva
    by (rule GetAtRVA_section [OF link_files(2) ascii_compares length_section_names(5) link_find(2)])
  then have "import_lookups ascii_strncmp (pe_bytes prog_exe) prog_imports Pe32Plus [0] = Some [(Some 40, 1)]"
    using prog_lookups(2) by (simp add: prog_fields at_import lookup_size_def Pe32_def Pe32Plus_def)
  then have "\<exists>ex. ExpandPeExecutableFormat (strncmpa link_firmware) (list_reader prog_exe) = Some ex \<and> exRaw ex = pe_bytes prog_exe
      \<and> exMagic ex = Pe32Plus \<and> exImport ex = Some prog_imports \<and> exImports ex = [(Some 40, 1)]"
    using byte_socket.ReadPeExecutableHeader_reads [OF list_reader_socket link_files(2)] POH_magic_pe_bytes [OF link_files(2)]
      prog_layout(2) prog_lookups(1) read_tables
    by (simp add: ExpandPeExecutableFormat_def export_table_def link_firmware_def del: import_lookups.simps)
  then show thesis using that by blast
qed

lemma lib_directory: "rd_u32 lib_exe (directory_at lib_exe) = 0x2000" "rd_u32 lib_exe (directory_at lib_exe + 4) = 52"
proof -
  have d: "directory_at lib_exe = 200" using lib_layout(1,2) by (simp add: directory_at_def pe_sizes Pe32_def Pe32Plus_def sizeof_Pe32PlusOptionalHeader_def)
  have n: "unat (mNumberOfSections (pe_head lib_exe)) = 2" using lib_layout(3) by simp
  have "pe_sections lib_exe ! 1 = export_section" by (simp add: lib_section_list export_section_def)
  moreover have "pe_sections lib_exe ! 1 = decode_section (slice 188 40 lib_exe)"
    unfolding pe_sections_def n using lib_layout(9) by (simp add: pe_sizes)
  ultimately have "decode_section (slice 188 40 lib_exe) = export_section" by simp
  then have "mVirtualAddress (decode_section (slice 188 40 lib_exe)) = 0x2000" "mSizeOfRawData (decode_section (slice 188 40 lib_exe)) = 52"
    by (simp_all add: export_section_def section_facts)
  then show "rd_u32 lib_exe (directory_at lib_exe) = 0x2000" "rd_u32 lib_exe (directory_at lib_exe + 4) = 52"
    unfolding d by (simp_all add: decode_section_def rd_u32_slice)
qed

lemma lib_name: "exported_name lib_exports export_section lib_view 0 = Some [0x66]"
  using lib_fields(9) by (simp add: exported_name_def ordinal_of_def lib_view_def lib_fields at_export c_string_def)

lemma lib_target: "export_target lib_exe lib_exports lib_view b (ordinal_of lib_exports lib_view 0) = Some (b + 0x1002)"
  using lib_fields(9) by (simp add: export_target_def ordinal_of_def lib_view_def lib_fields lib_directory Let_def)

theorem ResolveExport_by_name_witness:
  "\<exists>ex. ResolveExport link_firmware (library_node 0x200000 ex) False 0 [0x66, 0] = Some (Some 0x201002)"
proof -
  obtain exL where L: "ExpandPeExecutableFormat (strncmpa link_firmware) (list_reader lib_exe) = Some exL" by (rule lib_expands)
  have "This (library_node 0x200000 exL) = Some exL" "ldBase (library_node 0x200000 exL) = 0x200000" by (simp_all add: library_node_def)
  then have "ResolveExport link_firmware (library_node 0x200000 exL) False 0 [0x66, 0] = Some (Some 0x201002)"
    using ResolveExport_by_name [OF lib_is_library list_reader_socket link_firmware_laws(1,2) _ L, of "library_node 0x200000 exL" "[0x66, 0]" 0]
    by (simp add: link_data lib_fields lib_name lib_target c_string_def)
  then show ?thesis ..
qed

lemma prog_import_address:
  assumes "ExpandPeExecutableFormat (strncmpa link_firmware) (list_reader lib_exe) = Some exL"
    and ex: "exRaw ex = pe_bytes prog_exe" "exMagic ex = Pe32Plus"
  shows "import_address link_firmware ex prog_imports 40 (library_node b exL) 0 = Some (Some (b + 0x1002))"
proof -
  have "lookup_entry Pe32Plus prog_imports 40 = Some (False, 0x2038)"
    using length_tables(2) prog_fields(4) by (simp add: lookup_entry_def Pe32_def Pe32Plus_def mask_eq_decr_exp)
  moreover have "import_symbol link_firmware ex prog_imports False 0x2038 = Some [0x66, 0, 0x6C, 0]"
    using GetAtRVA_section [OF link_files(2) ascii_compares length_section_names(5) link_find(2), of "0x2038"] prog_fields(5)
    by (simp add: import_symbol_def link_firmware_def ex at_import)
  moreover have "This (library_node b exL) = Some exL" "ldBase (library_node b exL) = b" by (simp_all add: library_node_def)
  then have "ResolveExport link_firmware (library_node b exL) False 0x2038 [0x66, 0, 0x6C, 0] = Some (Some (b + 0x1002))"
    using resolve_named [OF lib_is_library list_reader_socket link_firmware_laws(1,2) _ assms(1), of "library_node b exL" "[0x66, 0, 0x6C, 0]" "0x2038"]
    by (simp add: link_data lib_fields lib_name lib_target c_string_def)
  ultimately show ?thesis by (simp add: import_address_def ex)
qed

lemma prog_one_import:
  assumes "exMagic ex = Pe32Plus" and "exImport ex = Some prog_imports" and "exImports ex = [(Some 40, 1)]"
  shows "one_import prog_exe ex import_section prog_imports 60 [0x6C] 40 1"
proof -
  have "\<forall>t \<in> set (pe_sections prog_exe). filled t \<longrightarrow> unat (mVirtualAddress t) + pages_of (unat (mVirtualSize t)) \<le> 0x2100"
    by (simp add: prog_section_list section_facts filled_def named_def pages_of_def EFI_PAGE_SIZE_def)
  then show ?thesis
    using assms link_find(2)
    by (simp add: one_import_def at_import prog_fields c_string_def link_sizes lookup_size_def Pe32_def Pe32Plus_def)
qed

theorem bind_imports_slots_witness:
  "\<exists>ex node mem'. bind_imports link_firmware ex prog_imports 40 16 node [0..<1] (replicate 32 0xAA) = Some (Some mem')
     \<and> slice 16 8 mem' = le_bytes 8 0x201002 \<and> mem' ! 24 = 0xAA"
proof -
  obtain exL where L: "ExpandPeExecutableFormat (strncmpa link_firmware) (list_reader lib_exe) = Some exL" by (rule lib_expands)
  obtain ex where "ExpandPeExecutableFormat (strncmpa link_firmware) (list_reader prog_exe) = Some ex"
    and ex: "exRaw ex = pe_bytes prog_exe" "exMagic ex = Pe32Plus" and "exImport ex = Some prog_imports" "exImports ex = [(Some 40, 1)]"
    by (rule prog_expands)
  have "import_address link_firmware ex prog_imports 40 (library_node 0x200000 exL) i = Some (Some 0x201002)" if "i < 1" for i
    using that prog_import_address [OF L ex, of "0x200000"] by simp
  from bind_imports_slots [where a = "\<lambda>_. 0x201002" and n = 1 and iat = 16 and mem = "replicate 32 0xAA", OF this]
  obtain mem' where "bind_imports link_firmware ex prog_imports 40 16 (library_node 0x200000 exL) [0..<1] (replicate 32 0xAA) = Some (Some mem')"
    "slice 16 8 mem' = iat_bytes Pe32Plus 0x201002" "\<forall>j < 32. j < 16 \<or> 24 \<le> j \<longrightarrow> mem' ! j = replicate 32 0xAA ! j"
    by (auto simp: ex(2) lookup_size_def Pe32_def Pe32Plus_def)
  moreover from this(3) have "mem' ! 24 = 0xAA" by simp
  moreover have "iat_bytes Pe32Plus 0x201002 = le_bytes 8 0x201002" by (simp add: iat_bytes_def Pe32_def Pe32Plus_def)
  ultimately show ?thesis by metis
qed

theorem LoadBinary_linked_witness:
  "\<exists>ex exL img. LoadBinary 2 link_firmware [0x61] (demo_leaf 0x72) [0x100000, 0x200000] = Some (Some
      (Loaded 0x100000 0x101000 (Some [0x61]) (Some ex) [(PeCodeSection, 0x101000, 16), (PeImportSection, 0x102000, 62)]
        [loaded_library [0x6C] lib_exe exL 0x200000] img, []))
    \<and> slice 0x2100 8 img = le_bytes 8 0x201002 \<and> img ! 0x1000 = 0xFF \<and> img ! 0x2000 = 0"
proof -
  obtain exL where L: "ExpandPeExecutableFormat (strncmpa link_firmware) (list_reader lib_exe) = Some exL" "exImports exL = []"
    by (rule lib_expands)
  obtain ex where E: "ExpandPeExecutableFormat (strncmpa link_firmware) (list_reader prog_exe) = Some ex" "exRaw ex = pe_bytes prog_exe"
    "exMagic ex = Pe32Plus" "exImport ex = Some prog_imports" "exImports ex = [(Some 40, 1)]"
    by (rule prog_expands)
  have path: "library_path [0x61] [0x6C] = [0x6C]" "file_name [0x61] = [0x61]" by (simp_all add: library_path_def is_separator_def file_name_def)
  have new: "height (demo_leaf 0x72) \<le> 32" "\<forall>x \<in> set (preorder (demo_leaf 0x72)). unnamed_by link_firmware (drop 60 prog_imports) x"
    "strcmpa link_firmware (file_name [0x61] @ [0]) (drop 60 prog_imports) \<noteq> 0"
    by (simp_all add: prog_fields(6) path link_firmware_def ascii_strcmp_def demo_leaf_def unnamed_by_def)
  have lib: "drive link_firmware (library_path [0x61] [0x6C]) = Some (list_reader lib_exe)" unfolding path by (rule link_firmware_laws(4))
  have imp: "import_address link_firmware ex prog_imports 40 (library_node 0x200000 exL) i = Some (Some 0x201002)" if "i < 1" for i
    using that prog_import_address [OF L(1) E(2,3), of "0x200000"] by simp
  from LoadBinary_linked [OF link_firmware_laws(3) list_reader_socket link_files(4) E(1) prog_one_import [OF E(3-5)] lib list_reader_socket
      link_files(3) L link_firmware_laws(1) new imp, of 0 "0x100000" "[]"]
  obtain img where I: "LoadBinary (Suc (Suc 0)) link_firmware [0x61] (demo_leaf 0x72) [0x100000, 0x200000] = Some (Some
      (Loaded 0x100000 (0x100000 + ucast (mAddressOfEntryPoint (pe_opt prog_exe))) (Some (file_name [0x61])) (Some ex)
        (map (section_record 0x100000) (filter (\<lambda>t. filled t \<or> t = import_section) (pe_sections prog_exe)))
        [loaded_library (library_path [0x61] [0x6C]) lib_exe exL 0x200000] img, []))"
    "\<forall>i < 1. slice (0x2100 + 8 * i) 8 img = iat_bytes Pe32Plus 0x201002"
    "\<forall>j < 0x3000. j < 0x2100 \<or> 0x2108 \<le> j \<longrightarrow> img ! j = image_byte prog_exe (filter filled (pe_sections prog_exe)) j"
    by (auto simp: E(3) lookup_size_def Pe32_def Pe32Plus_def prog_fields link_sizes)
  have secs: "filter filled (pe_sections prog_exe) = [decode_section (section_entry PeCodeSection 16 0x1000 4 228)]"
    by (simp add: prog_section_list section_facts filled_def named_def)
  have "slice 228 4 prog_exe = [0xFF, 0x15, 0, 0x11]" using prog_layout(10) [of 4] by simp
  then have "slice 228 4 prog_exe ! 0 = 0xFF" by simp
  then have "prog_exe ! 228 = 0xFF" using prog_layout(5) by (simp add: slice_def)
  then have "img ! 0x1000 = 0xFF" "img ! 0x2000 = 0"
    using I(3) unfolding secs by (simp_all add: image_byte_def image_over_def section_facts covers_def)
  moreover have "iat_bytes Pe32Plus 0x201002 = le_bytes 8 0x201002" by (simp add: iat_bytes_def Pe32_def Pe32Plus_def)
  moreover have m: "map (section_record 0x100000) (filter (\<lambda>t. filled t \<or> t = import_section) (pe_sections prog_exe))
      = [(PeCodeSection, 0x101000, 16), (PeImportSection, 0x102000, 62)]"
    by (simp add: prog_section_list import_section_def section_facts filled_def named_def section_record_def)
  have e: "0x100000 + ucast (mAddressOfEntryPoint (pe_opt prog_exe)) = (0x101000 :: u64)" using prog_layout(6) by simp
  have "LoadBinary 2 link_firmware [0x61] (demo_leaf 0x72) [0x100000, 0x200000] = Some (Some
      (Loaded 0x100000 0x101000 (Some [0x61]) (Some ex) [(PeCodeSection, 0x101000, 16), (PeImportSection, 0x102000, 62)]
        [loaded_library [0x6C] lib_exe exL 0x200000] img, []))"
    using I(1) unfolding m e path numeral_2_eq_2 .
  moreover have "slice 0x2100 8 img = iat_bytes Pe32Plus 0x201002" using spec [OF I(2), of 0] by simp
  ultimately show ?thesis by metis
qed

end
