(* ===== verification/Kernel_Timer.thy ===== *)
theory Kernel_Timer
  imports Kernel_Acpi
begin

text \<open>
  The events of the local APIC timer (\<^verbatim>\<open>hardware/IDT/APIC/LocalAPICTimer.c\<close>): the linked list of events,
  its extension, the interrupt handler that chooses and runs one, and the calibration of the counter.  The
  events live in a store from addresses to structures; \<open>None\<close> is an access outside of it.  The addresses
  that \<open>mcalloc\<close> hands out are those of a list, and the null pointer when the list is used up.
\<close>

section \<open>Events\<close>

record timer_event =
  Tick :: u16
  ErasureCountdown :: u16
  StartupCooldown :: u16
  Callback :: u64
  persistent :: u64
  called :: u64
  signal :: u64
  Next :: u64

definition zero_event :: timer_event where
  "zero_event = \<lparr>Tick = 0, ErasureCountdown = 0, StartupCooldown = 0, Callback = 0, persistent = 0, called = 0, signal = 0, Next = 0\<rparr>"

record timer_sys =
  events :: "u64 \<Rightarrow> timer_event option"
  lapic :: memory
  mutexes :: "u64 \<Rightarrow> u8"
  unused :: "u64 list"

definition LAR_LVTTimer :: u64 where "LAR_LVTTimer = 0x320"
definition LAR_TimerInitialCount :: u64 where "LAR_TimerInitialCount = 0x380"
definition LAR_TimerCurrentCount :: u64 where "LAR_TimerCurrentCount = 0x390"

definition calloc_event :: "timer_sys \<Rightarrow> u64 \<times> timer_sys" where
  "calloc_event st =
    (case unused st of
       [] \<Rightarrow> (0, st)
     | a # r \<Rightarrow> (a, st\<lparr>events := (events st)(a \<mapsto> zero_event), unused := r\<rparr>))"

section \<open>Adding an event\<close>



section \<open>The handler\<close>

partial_function (option) select_event ::
  "(u64 \<Rightarrow> timer_event option) \<Rightarrow> u32 \<Rightarrow> u64 \<Rightarrow> u64 \<Rightarrow> (u64 \<times> (u64 \<Rightarrow> timer_event option)) option" where
  "select_event h Current ETable Selected =
    (if ETable = 0 then Some (Selected, h)
     else case h ETable of
       None \<Rightarrow> None
     | Some t \<Rightarrow>
         if Next t = 0 then Some (Selected, h)
         else if Selected = 0 then select_event h Current (Next t) ETable
         else (case h Selected of
            None \<Rightarrow> None
          | Some s \<Rightarrow>
              if Tick s = 0 \<or> Tick t = 0 then select_event h Current (Next t) Selected
              else if Current mod ucast (Tick s) = 0 then Some (Selected, h)
              else if Current mod ucast (Tick s) > Current mod ucast (Tick t) then select_event h Current (Next t) ETable
              else if Current mod ucast (Tick s) = Current mod ucast (Tick t)
                   then select_event (h(Selected \<mapsto> s\<lparr>Tick := Tick t + 16\<rparr>)) Current (Next t) Selected
              else select_event h Current (Next t) Selected))"

text \<open>A callback gets a cleared event to fill in, the counter, its data and its last result.\<close>

type_synonym callback = "u64 \<Rightarrow> timer_event \<Rightarrow> u32 \<Rightarrow> u64 \<Rightarrow> u64 \<Rightarrow> timer_event \<times> u64"

definition MutexDisableFlag :: u8 where "MutexDisableFlag = 1"
definition MutexEnableFlag :: u8 where "MutexEnableFlag = 0"

definition LockMutex :: "u64 \<Rightarrow> (u64 \<Rightarrow> u8) \<Rightarrow> u64 \<Rightarrow> u8" where
  "LockMutex cm m = (if cm \<noteq> 0 then m(cm := MutexDisableFlag) else m)"

definition UnlockMutex :: "u64 \<Rightarrow> (u64 \<Rightarrow> u8) \<Rightarrow> u64 \<Rightarrow> u8" where
  "UnlockMutex cm m = (if cm \<noteq> 0 then m(cm := MutexEnableFlag) else m)"

text \<open>The event that the callback fills in is never freed; \<open>None\<close> stands for a callback that gets the null
  pointer, for want of memory.\<close>

definition run_event :: "callback \<Rightarrow> u32 \<Rightarrow> u64 \<Rightarrow> timer_event \<Rightarrow> timer_sys \<Rightarrow> timer_sys option" where
  "run_event cb Current Selected s st =
    (let (Temp, st) = calloc_event st in
     if Temp = 0 then None
     else
       let (filled_in, result) = cb (Callback s) zero_event Current (persistent s) (called s)
       in Some (st\<lparr>events := (events st)(Temp \<mapsto> filled_in, Selected \<mapsto> filled_in\<lparr>called := result\<rparr>),
                  mutexes := LockMutex (signal filled_in) (UnlockMutex (signal s) (mutexes st))\<rparr>))"

definition APICTimerEventHandler :: "callback \<Rightarrow> u64 \<Rightarrow> u64 \<Rightarrow> timer_sys \<Rightarrow> timer_sys option" where
  "APICTimerEventHandler cb Header LAPIC st =
    (if Header = 0 then Some st
     else do {
       t \<leftarrow> events st Header;
       let Current = ReadAPICRegister LAPIC LAR_TimerCurrentCount (lapic st);
       (Selected, h) \<leftarrow> select_event (events st) Current Header (Next t);
       let st = st\<lparr>events := h\<rparr>;
       (if Selected = 0 then Some st
        else do {
          s \<leftarrow> h Selected;
          (if Callback s = 0 then Some st else run_event cb Current Selected s st)
        })
     })"

text \<open>The calibration sets the registers of the timer; \<open>counted\<close> is what the counter holds after ten
  milliseconds.  A register is written only when its access mode allows it.\<close>

definition LARAT_ReadOnly :: u8 where "LARAT_ReadOnly = 0"
definition LARAT_ReadWrite :: u8 where "LARAT_ReadWrite = 1"
definition LARAT_WriteOnly :: u8 where "LARAT_WriteOnly = 2"
definition LAR_TimerDivideConfiguration :: u64 where "LAR_TimerDivideConfiguration = 0x3E0"
definition LARAM_LAR_TimerDivideConfiguration :: u8 where "LARAM_LAR_TimerDivideConfiguration = LARAT_ReadOnly"

definition WriteDivider :: "u64 \<Rightarrow> u32 \<Rightarrow> memory \<Rightarrow> memory" where
  "WriteDivider bs v m =
    (if LARAM_LAR_TimerDivideConfiguration = LARAT_ReadWrite \<or> LARAM_LAR_TimerDivideConfiguration = LARAT_WriteOnly
     then WriteAPICRegister bs LAR_TimerDivideConfiguration v m else m)"

definition CalibrateAPICTimer :: "u64 \<Rightarrow> u8 \<Rightarrow> u32 \<Rightarrow> u8 \<Rightarrow> memory \<Rightarrow> memory option" where
  "CalibrateAPICTimer bs InterruptVector counted Frequency m =
    (let m = WriteAPICRegister bs LAR_TimerInitialCount 0 m;
         m = WriteDivider bs 3 m;
         m = WriteAPICRegister bs LAR_LVTTimer (ucast InterruptVector OR push_bit 17 1 OR push_bit 16 1) m;
         m = WriteAPICRegister bs LAR_TimerInitialCount 0xFFFFFFFF m;
         ticks_in_10ms = - 1 - counted;
         m = WriteAPICRegister bs LAR_TimerInitialCount 0 m;
         m = WriteDivider bs 3 m;
         m = WriteAPICRegister bs LAR_LVTTimer (ucast InterruptVector OR push_bit 17 1) m
     in if Frequency = 0 then None
        else Some (WriteAPICRegister bs LAR_TimerInitialCount ((ticks_in_10ms * 100) div ucast Frequency) m))"

section \<open>The list of events\<close>

text \<open>A list of live events that ends in a cleared one.\<close>

primrec queue :: "(u64 \<Rightarrow> timer_event option) \<Rightarrow> u64 \<Rightarrow> timer_event list \<Rightarrow> bool" where
  "queue h p [] \<longleftrightarrow> p \<noteq> 0 \<and> h p = Some zero_event"
| "queue h p (e # es) \<longleftrightarrow> p \<noteq> 0 \<and> h p = Some e \<and> Callback e \<noteq> 0 \<and> Next e \<noteq> 0 \<and> queue h (Next e) es"

lemma zero_event_simps [simp]: "Callback zero_event = 0" "Next zero_event = 0" "Tick zero_event = 0"
  by (simp_all add: zero_event_def)



definition new_event :: "u16 \<Rightarrow> u16 \<Rightarrow> u16 \<Rightarrow> u64 \<Rightarrow> u64 \<Rightarrow> u64 \<Rightarrow> u64 \<Rightarrow> timer_event" where
  "new_event tick Countdown Startup cb data sig ptr =
    \<lparr>Tick = tick, ErasureCountdown = Countdown, StartupCooldown = Startup, Callback = cb,
     persistent = data, called = 0, signal = sig, Next = ptr\<rparr>"

lemma new_event_simps [simp]: "Callback (new_event t c s cb d sg a) = cb" "Next (new_event t c s cb d sg a) = a"
  "Tick (new_event t c s cb d sg a) = t"
  by (simp_all add: new_event_def)






text \<open>The pointer that is read is the stack header that \<open>ISRSetCallback\<close> was given.\<close>

lemma fill_stack_pointer:
  assumes "e_mcalloc env DefaultStackSize m = (stack, m1)"
    and "disjoint_regions (stack + DefaultStackSize - 32) 32 slot 8"
  shows "read_u64 (fill_stack env slot IST hdr seg m) (read_u64 (fill_stack env slot IST hdr seg m) slot + 32 - 32) = hdr"
proof -
  let ?b = "stack + DefaultStackSize - 32"
  note sub = sub_word_disjoint [OF assms(2)]
  have own: "disjoint_regions (?b + 8) 8 ?b 8" "disjoint_regions (?b + 16) 8 ?b 8" "disjoint_regions (?b + 24) 8 ?b 8"
    using disjoint_offsets [of 8 8 0 8 ?b] disjoint_offsets [of 16 8 0 8 ?b] disjoint_offsets [of 24 8 0 8 ?b] by simp_all
  show ?thesis
    unfolding fill_stack_def assms(1) Let_def prod.case
    by (simp only: sub own read_write_u64 frame_u64_u64 add_diff_cancel_right')
qed

section \<open>Firing\<close>

text \<open>The handler starts with the event after the first one; a list of a single event therefore selects its
  end, and the event never runs.\<close>

lemma single_event_never_runs:
  assumes "queue (events st) T [e]"
  shows "APICTimerEventHandler cb T LAPIC st = Some st"
proof -
  have e: "T \<noteq> 0" "events st T = Some e" "Next e \<noteq> 0" "events st (Next e) = Some zero_event" using assms by auto
  have "select_event (events st) cur T (Next e) = Some (Next e, events st)" for cur
    using e by (subst select_event.simps, simp, subst select_event.simps, simp)
  then show ?thesis using e by (simp add: APICTimerEventHandler_def Let_def)
qed

text \<open>An event that is still selected when the walk comes to it is compared with itself: its period grows by
  sixteen, at every interrupt.\<close>

lemma selected_event_slows:
  assumes "queue h T [e1, e2]" "Tick e1 \<noteq> 0" "Tick e2 \<noteq> 0" "cur mod ucast (Tick e2) \<noteq> (0 :: u32)"
    and "cur mod ucast (Tick e2) < cur mod (ucast (Tick e1) :: u32)"
  shows "select_event h cur T (Next e1) = Some (Next e1, h(Next e1 \<mapsto> e2\<lparr>Tick := Tick e2 + 16\<rparr>))"
proof -
  have e: "T \<noteq> 0" "h T = Some e1" "Next e1 \<noteq> 0" "h (Next e1) = Some e2" "Next e2 \<noteq> 0" "h (Next e2) = Some zero_event"
    "Callback e2 \<noteq> 0" using assms(1) by auto
  then have ne: "Next e2 \<noteq> Next e1" by auto
  have lt: "\<not> cur mod ucast (Tick e1) < cur mod (ucast (Tick e2) :: u32)"
    "cur mod ucast (Tick e2) \<noteq> cur mod (ucast (Tick e1) :: u32)" using assms(5) by auto
  let ?h = "h(Next e1 \<mapsto> e2\<lparr>Tick := Tick e2 + 16\<rparr>)"
  have "select_event h cur T (Next e1) = select_event h cur (Next e1) (Next e1)"
    by (subst select_event.simps) (simp add: e assms lt)
  also have "\<dots> = select_event ?h cur (Next e2) (Next e1)"
    by (subst select_event.simps) (simp add: e assms)
  also have "\<dots> = Some (Next e1, ?h)"
    by (subst select_event.simps) (simp add: e ne)
  finally show ?thesis .
qed

lemma queue_no_self_loop: "queue h p es \<Longrightarrow> h p = Some e \<Longrightarrow> Next e \<noteq> p"
  by (induction es) auto

text \<open>What the callback fills in replaces the event with its link: a callback that leaves its event cleared
  cuts off the events behind it.\<close>

lemma cleared_event_cuts_list:
  assumes qu: "queue (events st) T (e1 # e2 # es)" and un: "unused st = a # r" "events st a = None" "a \<noteq> 0"
    and cb: "cb (Callback e2) zero_event cur (persistent e2) (called e2) = (zero_event, 0)"
  obtains st' where "run_event cb cur (Next e1) e2 st = Some st'" "queue (events st') T [e1]"
proof -
  have e: "T \<noteq> 0" "events st T = Some e1" "Next e1 \<noteq> 0" "Callback e1 \<noteq> 0" using qu by auto
  have ne: "T \<noteq> Next e1" "T \<noteq> a" using queue_no_self_loop [OF qu e(2)] e un(2) by auto
  have "\<exists>st'. run_event cb cur (Next e1) e2 st = Some st' \<and> queue (events st') T [e1]"
    using e ne un cb by (simp add: run_event_def calloc_event_def) (simp add: zero_event_def)
  then show thesis using that by blast
qed

text \<open>The divider of the timer keeps the value it had: its register counts as read-only.\<close>

lemma divider_never_written: "WriteDivider b v m = m"
  by (simp add: WriteDivider_def LARAM_LAR_TimerDivideConfiguration_def LARAT_ReadOnly_def LARAT_ReadWrite_def LARAT_WriteOnly_def)

lemma calibrated_count:
  assumes "Frequency \<noteq> 0"
  obtains m' where "CalibrateAPICTimer b vec counted Frequency m = Some m'"
    "read_u32 m' (b + LAR_TimerInitialCount) = ((- 1 - counted) * 100) div ucast Frequency"
  using assms by (simp add: CalibrateAPICTimer_def Let_def WriteAPICRegister_def)

end
