(* ===== verification/Kernel_Pcie.thy ===== *)
theory Kernel_Pcie
  imports Kernel_Acpi
begin

text \<open>
  The configuration space of PCI express (\<^verbatim>\<open>hardware/PCIe/PCIe.c\<close>): the base address that the firmware
  tables give, the reading and writing of registers, the base address registers, the search for a
  device and for a capability, and the pending bits of message interrupts.  The configuration space
  and the buffers lie in one byte memory, the firmware tables in another; the answers of the page
  tables and of the page allocator are arguments, as is what a base address register keeps of a value
  written to it.  \<open>None\<close> is an access through the null pointer, a missing return value, or a loop without end.
\<close>

section \<open>The configuration space\<close>

record pcie_env =
  q_map_virtual :: "u64 \<Rightarrow> u64"
  q_alloc :: "u64 \<Rightarrow> u64 \<Rightarrow> u64"
  q_tables :: memory
  q_acpibase :: u64
  q_keeps :: "u64 \<Rightarrow> u32 \<Rightarrow> u32"

definition nMB :: "u64 \<Rightarrow> u64" where "nMB n = n * 1024 * 1024"

definition mcfg_base :: "pcie_env \<Rightarrow> u64 \<Rightarrow> u64 \<Rightarrow> u64" where
  "mcfg_base env physical buses =
    (if q_map_virtual env physical = 0 then q_alloc env physical (nMB buses) else q_map_virtual env physical)"

text \<open>The revision is compared in 32 bits: with the checksum and the identifier behind it.  The entries
  have 16 bytes in the 64-bit form of the table and 12 bytes in the other.\<close>

definition GetPCIeConfigurationBase :: "pcie_env \<Rightarrow> u32 \<Rightarrow> u64 option" where
  "GetPCIeConfigurationBase env n =
    (if q_acpibase env = 0 then None
     else do {
       t \<leftarrow> SearchACPITable (q_map_virtual env) (q_tables env) ''MCFG'' (q_acpibase env);
       let m = q_tables env;
       let room_for = (ucast (h_Length m t) :: u64) - 36;
       (if t = 0 then None
        else if read_u32 m (t + 8) \<ge> 2 then
          let e = t + 44 + ucast n * 16 in
          Some (if ucast n \<ge> room_for div 16 then 0
                else mcfg_base env (read_u64 m e) (ucast (m (e + 11)) - ucast (m (e + 10)) + 1))
        else
          let e = t + 44 + ucast n * 12 in
          Some (if ucast n \<ge> room_for div 12 then 0
                else mcfg_base env (ucast (read_u32 m e)) (ucast (m (e + 7)) - ucast (m (e + 6)) + 1)))
     })"

definition PCIeMakeAddress :: "u64 \<Rightarrow> u32 \<Rightarrow> u32 \<Rightarrow> u32 \<Rightarrow> u32 \<Rightarrow> u64" where
  "PCIeMakeAddress bs bus slot func offset =
    bs + ucast (push_bit 20 bus OR push_bit 15 slot OR push_bit 12 func) + ucast offset"

definition ReadPCIeU32 :: "pcie_env \<Rightarrow> u32 \<Rightarrow> u16 \<Rightarrow> u16 \<Rightarrow> u16 \<Rightarrow> u16 \<Rightarrow> memory \<Rightarrow> (bool \<times> u32) option" where
  "ReadPCIeU32 env n bus slot func offset m = do {
     Temp \<leftarrow> GetPCIeConfigurationBase env n;
     Some (if Temp = 0 then (False, 0)
           else (True, read_u32 m (PCIeMakeAddress Temp (ucast bus) (ucast slot) (ucast func) (ucast offset))))
   }"

definition WritePCIeU32 :: "pcie_env \<Rightarrow> u32 \<Rightarrow> u32 \<Rightarrow> u16 \<Rightarrow> u16 \<Rightarrow> u16 \<Rightarrow> u16 \<Rightarrow> memory \<Rightarrow> (bool \<times> memory) option" where
  "WritePCIeU32 env datain n bus slot func offset m = do {
     Temp \<leftarrow> GetPCIeConfigurationBase env n;
     Some (if Temp = 0 then (False, m)
           else (True, write_u32 (PCIeMakeAddress Temp (ucast bus) (ucast slot) (ucast func) (ucast offset)) datain m))
   }"

text \<open>The place in the buffer: the difference becomes unsigned before it is divided.\<close>

definition word_at :: "u64 \<Rightarrow> u16 \<Rightarrow> u16 \<Rightarrow> u64" where
  "word_at buf offset first = buf + 4 * (word_of_int (uint offset - uint first) div 4)"

partial_function (option) ReadPCIe_loop ::
  "pcie_env \<Rightarrow> u64 \<Rightarrow> u32 \<Rightarrow> u32 \<Rightarrow> u16 \<Rightarrow> u16 \<Rightarrow> u16 \<Rightarrow> u16 \<Rightarrow> u16 \<Rightarrow> memory \<Rightarrow> (bool \<times> memory) option" where
  "ReadPCIe_loop env dataout datasize n bus slot func first offset m = do {
     (ok, temp) \<leftarrow> ReadPCIeU32 env n bus slot func offset m;
     (if \<not> ok then Some (False, m)
      else
        let m1 = write_u32 (word_at dataout offset first) temp m in
        if datasize - 4 = 0 then Some (True, m1)
        else ReadPCIe_loop env dataout (datasize - 4) n bus slot func first (offset + 4) m1)
   }"

definition ReadPCIeVOIDPTR ::
  "pcie_env \<Rightarrow> u64 \<Rightarrow> u32 \<Rightarrow> u32 \<Rightarrow> u16 \<Rightarrow> u16 \<Rightarrow> u16 \<Rightarrow> u16 \<Rightarrow> memory \<Rightarrow> (bool \<times> memory) option" where
  "ReadPCIeVOIDPTR env dataout datasize n bus slot func offset m =
    (if datasize mod 4 \<noteq> 0 then Some (False, m)
     else ReadPCIe_loop env dataout datasize n bus slot func offset offset m)"

partial_function (option) WritePCIe_loop ::
  "pcie_env \<Rightarrow> u64 \<Rightarrow> u32 \<Rightarrow> u32 \<Rightarrow> u16 \<Rightarrow> u16 \<Rightarrow> u16 \<Rightarrow> u16 \<Rightarrow> u16 \<Rightarrow> memory \<Rightarrow> (bool \<times> memory) option" where
  "WritePCIe_loop env datain datasize n bus slot func first offset m = do {
     (ok, m1) \<leftarrow> WritePCIeU32 env (read_u32 m (word_at datain offset first)) n bus slot func offset m;
     (if \<not> ok then Some (False, m1)
      else if datasize - 4 = 0 then Some (True, m1)
      else WritePCIe_loop env datain (datasize - 4) n bus slot func first (offset + 4) m1)
   }"

definition WritePCIeVOIDPTR ::
  "pcie_env \<Rightarrow> u64 \<Rightarrow> u32 \<Rightarrow> u32 \<Rightarrow> u16 \<Rightarrow> u16 \<Rightarrow> u16 \<Rightarrow> u16 \<Rightarrow> memory \<Rightarrow> (bool \<times> memory) option" where
  "WritePCIeVOIDPTR env datain datasize n bus slot func offset m =
    (if datasize mod 4 \<noteq> 0 then Some (False, m)
     else WritePCIe_loop env datain datasize n bus slot func offset offset m)"

section \<open>Base address registers\<close>

text \<open>The bit-fields of a base address register as the structures lay them out.\<close>

definition IsIOSpace :: "u32 \<Rightarrow> bool" where "IsIOSpace r = bit r 0"
definition bar_Type :: "u32 \<Rightarrow> 3 word" where "bar_Type r = ucast (drop_bit 1 r)"
definition ms_address :: "u32 \<Rightarrow> u64" where "ms_address r = ucast (ucast (drop_bit 5 r) :: 24 word)"
definition io_address :: "u32 \<Rightarrow> u64" where "io_address r = ucast (drop_bit 2 r)"

definition bar_at :: "u64 \<Rightarrow> u8 \<Rightarrow> u64" where "bar_at dev BAR = dev + 16 + 4 * ucast BAR"
definition header_Type :: "memory \<Rightarrow> u64 \<Rightarrow> 7 word" where "header_Type m dev = ucast (m (dev + 14))"

definition PCIGetBar :: "memory \<Rightarrow> u64 \<Rightarrow> u8 \<Rightarrow> u64" where
  "PCIGetBar m dev N =
    (let r = read_u32 m (bar_at dev N) in
     if IsIOSpace r then 0
     else if bar_Type r = 2 then
       push_bit 32 (ms_address (read_u32 m (bar_at dev (if N \<ge> 5 then N - 1 else N + 1)))) + ms_address r
     else ms_address r)"

text \<open>The bits of the command register: bit 0 for ports, bit 1 for memory.\<close>

definition set_command :: "u64 \<Rightarrow> nat \<Rightarrow> bool \<Rightarrow> memory \<Rightarrow> memory" where
  "set_command dev k b m = m(dev + 4 := (if b then m (dev + 4) OR push_bit k 1 else m (dev + 4) AND NOT (push_bit k 1)))"

definition write_bar :: "pcie_env \<Rightarrow> u64 \<Rightarrow> u32 \<Rightarrow> memory \<Rightarrow> memory" where
  "write_bar env a v m = write_u32 a (q_keeps env a v) m"

definition PCIeBARSize :: "pcie_env \<Rightarrow> u64 \<Rightarrow> u8 \<Rightarrow> memory \<Rightarrow> u32 \<times> memory" where
  "PCIeBARSize env dev BAR m =
    (let bar_ptr = bar_at dev BAR;
         orig_bar = read_u32 m bar_ptr;
         IOEnable = bit (m (dev + 4)) 0;
         MSEnable = bit (m (dev + 4)) 1;
         m = set_command dev 0 False (set_command dev 1 False m);
         m = write_bar env bar_ptr 0xFFFFFFFF m;
         probed = read_u32 m bar_ptr;
         m = write_bar env bar_ptr orig_bar m;
         m = (if IOEnable then set_command dev 0 True m else m);
         m = (if MSEnable then set_command dev 1 True m else m);
         probed = (if orig_bar AND 1 \<noteq> 0 then probed AND NOT 3 else probed AND NOT 0xF)
     in (NOT probed + 1, m))"

definition PCIGeneralDevice :: "7 word" where "PCIGeneralDevice = 0"
definition PCItoPCIBridge :: "7 word" where "PCItoPCIBridge = 1"
definition PCItoCardBusBridge :: "7 word" where "PCItoCardBusBridge = 2"

definition PCIeResolveBar :: "pcie_env \<Rightarrow> u64 \<Rightarrow> u8 \<Rightarrow> memory \<Rightarrow> u64 \<times> memory" where
  "PCIeResolveBar env Device BAR m =
    (let r = read_u32 m (bar_at Device BAR);
         Physical = PCIGetBar m Device BAR;
         (out, m) =
           (if header_Type m Device = PCIGeneralDevice \<and> Physical \<noteq> 0 then
              (if q_map_virtual env Physical \<noteq> 0 then (q_map_virtual env Physical, m)
               else let (size, m1) = PCIeBARSize env Device BAR m
                    in (q_alloc env (if IsIOSpace r then 0 else ms_address r) (ucast size), m1))
            else (0, m));
         r = read_u32 m (bar_at Device BAR)
     in (if IsIOSpace r then io_address r else out, m))"

section \<open>Searching a device\<close>

definition PCIMaxBuses :: nat where "PCIMaxBuses = 256"
definition PCIMaxDevices :: nat where "PCIMaxDevices = 32"
definition PCIMaxPhysicalFunctions :: nat where "PCIMaxPhysicalFunctions = 8"

text \<open>The loop over the slots of a bus: the device found and its slot, or the slot reached and the
  number of devices still to skip.\<close>

function search_slots :: "memory \<Rightarrow> u64 \<Rightarrow> bytes \<Rightarrow> nat \<Rightarrow> nat \<Rightarrow> u32 \<Rightarrow> (u64 \<times> nat) + (nat \<times> u32)" where
  "search_slots m bs Code bus slot N =
    (if slot < PCIMaxDevices then
       if N \<noteq> 0 then search_slots m bs Code bus (slot + 1) (N - 1)
       else
         let dev = PCIeMakeAddress bs (of_nat bus) (of_nat slot) 0 0 in
         if read_bytes m (dev + 9) 3 = Code then Inl (dev, slot) else search_slots m bs Code bus (slot + 1) N
     else Inr (slot, N))"
  by auto
termination by (relation "measure (\<lambda>(m, bs, Code, bus, slot, N). PCIMaxDevices - slot)") auto

function search_buses ::
  "memory \<Rightarrow> u64 \<Rightarrow> bytes \<Rightarrow> nat \<Rightarrow> nat \<Rightarrow> u32 \<Rightarrow> (u64 \<times> nat \<times> nat) + (nat \<times> nat \<times> u32)" where
  "search_buses m bs Code bus slot N =
    (if bus < PCIMaxBuses then
       case search_slots m bs Code bus slot N of
         Inl (dev, s) \<Rightarrow> Inl (dev, bus, s)
       | Inr (s, N') \<Rightarrow> search_buses m bs Code (bus + 1) s N'
     else Inr (bus, slot, N))"
  by auto
termination by (relation "measure (\<lambda>(m, bs, Code, bus, slot, N). PCIMaxBuses - bus)") auto

partial_function (option) search_segments ::
  "pcie_env \<Rightarrow> memory \<Rightarrow> bytes \<Rightarrow> u32 \<Rightarrow> nat \<Rightarrow> nat \<Rightarrow> u32 \<Rightarrow> (u64 \<times> nat \<times> nat) option" where
  "search_segments env m Code devicen bus slot N = do {
     bs \<leftarrow> GetPCIeConfigurationBase env devicen;
     (case search_buses m bs Code bus slot N of
        Inl found \<Rightarrow> Some found
      | Inr (bus', slot', N') \<Rightarrow>
          if bs = 0 then Some (0, bus', slot') else search_segments env m Code (devicen + 1) bus' slot' N')
   }"

text \<open>The device, or the null pointer, with the bus and the slot stored for the caller.\<close>

definition PCIeSearchDevice :: "pcie_env \<Rightarrow> memory \<Rightarrow> bytes \<Rightarrow> u32 \<Rightarrow> (u64 \<times> nat \<times> nat) option" where
  "PCIeSearchDevice env m Code N = search_segments env m Code 0 0 0 N"

section \<open>Capabilities\<close>

definition PCIeMSIxCapability :: u8 where "PCIeMSIxCapability = 0x11"
definition PCIeGenericCapabilites :: u8 where "PCIeGenericCapabilites = 0x10"
definition PCIeSecondaryExtendedCapabilities :: u8 where "PCIeSecondaryExtendedCapabilities = 0x19"
definition PCIeAdvancedErrorReporting :: u8 where "PCIeAdvancedErrorReporting = 0x01"

definition sizeof_MSIx :: nat where "sizeof_MSIx = 14"
definition sizeof_SRIOV :: nat where "sizeof_SRIOV = 60"
definition sizeof_Version1 :: nat where "sizeof_Version1 = 38"
definition sizeof_Version2 :: nat where "sizeof_Version2 = 78"
definition sizeof_Secondary :: nat where "sizeof_Secondary = 76"
definition sizeof_AER :: nat where "sizeof_AER = 44"

definition cap_Version :: "u32 \<Rightarrow> 4 word" where "cap_Version h = ucast (drop_bit 8 h)"
definition cap_Next :: "u32 \<Rightarrow> 20 word" where "cap_Next h = ucast (drop_bit 12 h)"

definition capability_size :: "u32 \<Rightarrow> nat" where
  "capability_size h =
    (let i = ucast h in
     if i = PCIeMSIxCapability then sizeof_MSIx
     else if i = PCIeGenericCapabilites then
       (if cap_Next h \<ge> 0x100 then sizeof_SRIOV
        else if cap_Version h \<ge> 2 then sizeof_Version2 else sizeof_Version1)
     else if i = PCIeSecondaryExtendedCapabilities then sizeof_Secondary
     else if i = PCIeAdvancedErrorReporting then sizeof_AER
     else 0)"

definition capability_offset :: "memory \<Rightarrow> u64 \<Rightarrow> u8 option" where
  "capability_offset m dev =
    (if header_Type m dev = PCIGeneralDevice then Some (m (dev + 52))
     else if header_Type m dev = PCItoPCIBridge then Some (m (dev + 52))
     else if header_Type m dev = PCItoCardBusBridge then Some (m (dev + 20))
     else None)"

text \<open>The copy of the first capability, \<open>None\<close> inside for the null pointer.\<close>

definition ReadPCIeCapabilities :: "pcie_env \<Rightarrow> u32 \<Rightarrow> u16 \<Rightarrow> u16 \<Rightarrow> u16 \<Rightarrow> memory \<Rightarrow> bytes option option" where
  "ReadPCIeCapabilities env n bus slot func m = do {
     Adr \<leftarrow> GetPCIeConfigurationBase env n;
     let dev = PCIeMakeAddress Adr (ucast bus) (ucast slot) (ucast func) 0;
     Some (if Adr = 0 \<or> dev = 0 then None
           else case capability_offset m dev of
             None \<Rightarrow> None
           | Some off \<Rightarrow>
               let Hdr = PCIeMakeAddress Adr (ucast bus) (ucast slot) (ucast func) (ucast off);
                   k = capability_size (read_u32 m Hdr)
               in if Hdr = 0 \<or> k = 0 then None else Some (read_bytes m Hdr k))
   }"

primrec search_functions ::
  "pcie_env \<Rightarrow> u32 \<Rightarrow> u16 \<Rightarrow> u16 \<Rightarrow> memory \<Rightarrow> u16 \<Rightarrow> nat list \<Rightarrow> u32 \<Rightarrow> (bytes \<times> u32) option option" where
  "search_functions env n bus slot m tp [] encounter = Some None"
| "search_functions env n bus slot m tp (cc # ccs) encounter = do {
     out \<leftarrow> ReadPCIeCapabilities env n bus slot (of_nat cc) m;
     (case out of
        None \<Rightarrow> search_functions env n bus slot m tp ccs encounter
      | Some cap \<Rightarrow>
          if ucast (hd cap) = tp \<and> encounter = 0 then Some (Some (cap, of_nat cc))
          else search_functions env n bus slot m tp ccs (if encounter \<noteq> 0 then encounter - 1 else encounter))
   }"

definition SearchPCIeCapabilitiesN ::
  "pcie_env \<Rightarrow> u32 \<Rightarrow> u16 \<Rightarrow> u16 \<Rightarrow> u16 \<Rightarrow> u32 \<Rightarrow> memory \<Rightarrow> (bytes \<times> u32) option option" where
  "SearchPCIeCapabilitiesN env n bus slot tp encounter m =
    search_functions env n bus slot m tp [0..<PCIMaxPhysicalFunctions] encounter"

text \<open>The register of the pending bits: three bits for the base address register, the others for the
  offset.\<close>

definition PBA_register :: "bytes \<Rightarrow> u32" where "PBA_register cap = of_nat (le_nat (take 4 (drop 10 cap)))"
definition PBABARIndex :: "bytes \<Rightarrow> u8" where "PBABARIndex cap = ucast (ucast (PBA_register cap) :: 3 word)"
definition PBAByteOffset :: "bytes \<Rightarrow> u64" where "PBAByteOffset cap = ucast (drop_bit 3 (PBA_register cap))"

definition pending_bits :: "pcie_env \<Rightarrow> u32 \<Rightarrow> u16 \<Rightarrow> u16 \<Rightarrow> u32 \<Rightarrow> memory \<Rightarrow> ((u64 \<times> memory) option) option" where
  "pending_bits env n bus slot inst m = do {
     r \<leftarrow> SearchPCIeCapabilitiesN env n bus slot (ucast PCIeMSIxCapability) inst m;
     (case r of
        None \<Rightarrow> Some None
      | Some (cap, func) \<Rightarrow> do {
          Adr \<leftarrow> GetPCIeConfigurationBase env n;
          let dev = PCIeMakeAddress Adr (ucast bus) (ucast slot) func 0;
          Some (if header_Type m dev = PCIGeneralDevice
                then let (a, m1) = PCIeResolveBar env dev (PBABARIndex cap) m in Some (a + PBAByteOffset cap, m1)
                else None)
        })
   }"

definition PCIeDisableMsiX :: "pcie_env \<Rightarrow> u32 \<Rightarrow> u16 \<Rightarrow> u16 \<Rightarrow> u32 \<Rightarrow> u32 \<Rightarrow> memory \<Rightarrow> (bool \<times> memory) option" where
  "PCIeDisableMsiX env n bus slot inst ent m = do {
     r \<leftarrow> pending_bits env n bus slot inst m;
     Some (case r of
             None \<Rightarrow> (False, m)
           | Some (bitmap, m1) \<Rightarrow>
               let a = bitmap + ucast (ent div 8)
               in (True, m1(a := m1 a AND NOT (push_bit (unat (ent mod 8)) 1))))
   }"

definition PCIeEnableMsiX :: "pcie_env \<Rightarrow> u32 \<Rightarrow> u16 \<Rightarrow> u16 \<Rightarrow> u32 \<Rightarrow> u32 \<Rightarrow> memory \<Rightarrow> (bool \<times> memory) option" where
  "PCIeEnableMsiX env n bus slot inst ent m = do {
     r \<leftarrow> pending_bits env n bus slot inst m;
     Some (case r of
             None \<Rightarrow> (False, m)
           | Some (bitmap, m1) \<Rightarrow>
               let a = bitmap + ucast (ent div 8)
               in (True, m1(a := m1 a OR push_bit (unat (ent mod 8)) 1)))
   }"

definition sizeof_MSIxTableEntry :: u64 where "sizeof_MSIxTableEntry = 20"

definition PCIeGetMSIxEntry :: "pcie_env \<Rightarrow> u32 \<Rightarrow> u16 \<Rightarrow> u16 \<Rightarrow> u32 \<Rightarrow> u32 \<Rightarrow> memory \<Rightarrow> (u64 \<times> memory) option" where
  "PCIeGetMSIxEntry env n bus slot inst ent m = do {
     r \<leftarrow> pending_bits env n bus slot inst m;
     Some (case r of None \<Rightarrow> (0, m) | Some (a, m1) \<Rightarrow> (a + sizeof_MSIxTableEntry * ucast ent, m1))
   }"

section \<open>Reading and writing a range\<close>

lemma move_u32: "write_u32 d (read_u32 m s) m' = write_bytes m' d (read_bytes m s 4)"
proof -
  have "le_nat (read_bytes m s 4) < 2 ^ 32" using le_nat_less [of "read_bytes m s 4"] by simp
  then have "le_bytes 4 (unat (read_u32 m s)) = read_bytes m s 4"
    using le_bytes_le_nat [of "read_bytes m s 4"] by (simp add: read_u32_def unat_of_nat)
  then show ?thesis by (simp add: write_u32_def)
qed

lemma unat_widened:
  "unat (ucast (w :: u16) :: u32) = unat w" "unat (ucast (v :: u32) :: u64) = unat v"
  "unat (of_nat (unat w) :: u64) = unat w"
  using unsigned_less [of w, where 'a = nat] unsigned_less [of v, where 'a = nat]
  by (simp_all add: unsigned_ucast_eq unat_of_nat take_bit_nat_eq_self)

lemma offset_unat:
  fixes first :: u16
  assumes "unat first + x < 2 ^ 16"
  shows "unat (first + of_nat x) = unat first + x"
proof -
  have "unat (of_nat x :: u16) = x" using assms by (simp add: unat_of_nat)
  then show ?thesis using assms by (simp add: unat_word_ariths)
qed

lemma config_address:
  assumes "unat first + x < 2 ^ 16"
  shows "PCIeMakeAddress bs b sl f (ucast (first + of_nat x :: u16)) = PCIeMakeAddress bs b sl f (ucast first) + of_nat x"
proof -
  have u: "(ucast (ucast w :: u32) :: u64) = of_nat (unat w)" for w :: u16
    by (simp add: word_eq_iff_unsigned [where 'a = nat] unat_widened del: of_nat_unat)
  have "(ucast (ucast (first + of_nat x) :: u32) :: u64) = of_nat (unat (first + of_nat x))" by (rule u)
  also have "\<dots> = ucast (ucast first :: u32) + of_nat x" using offset_unat [OF assms] u [of first] by simp
  finally show ?thesis by (simp add: PCIeMakeAddress_def)
qed

lemma buffer_address:
  assumes "unat first + 4 * j < 2 ^ 16"
  shows "word_at buf (first + of_nat (4 * j)) first = buf + of_nat (4 * j)"
proof -
  have "uint (first + of_nat (4 * j)) - uint first = int (4 * j)"
    using offset_unat [OF assms] by (simp only: uint_nat)
  moreover have "(word_of_int (int (4 * j)) :: u64) div 4 = of_nat j"
  proof -
    have "unat (of_nat (4 * j) :: u64) = 4 * j" "unat (of_nat j :: u64) = j"
      using assms by (simp_all only: unat_of_nat) (simp_all add: take_bit_nat_eq_self)
    then have "unat ((of_nat (4 * j) :: u64) div 4) = unat (of_nat j :: u64)" by (simp only: unat_div_distrib) simp
    then have "(of_nat (4 * j) :: u64) div 4 = of_nat j" by (rule unsigned_word_eqI)
    then show ?thesis by simp
  qed
  ultimately show ?thesis by (simp add: word_at_def)
qed

lemma size_left:
  assumes "4 * r < 2 ^ 32"
  shows "(of_nat (4 * Suc r) :: u32) - 4 = of_nat (4 * r)" "(of_nat (4 * r) :: u32) = 0 \<longleftrightarrow> r = 0"
proof -
  show "(of_nat (4 * Suc r) :: u32) - 4 = of_nat (4 * r)" by simp
  have "unat (of_nat (4 * r) :: u32) = 4 * r" using assms by (simp only: unat_of_nat) simp
  then show "(of_nat (4 * r) :: u32) = 0 \<longleftrightarrow> r = 0" by (metis mult_eq_0_iff unsigned_0 of_nat_0 zero_neq_numeral)
qed

text \<open>After \<open>j\<close> of \<open>k\<close> words the memory holds the first \<open>4 j\<close> bytes of the source at the destination.\<close>

lemma copied_word:
  assumes "disjoint_regions d (4 * k) s (4 * k)" "j < k" "4 * k \<le> 2 ^ 16"
  shows "write_u32 (d + of_nat (4 * j)) (read_u32 (write_bytes m d (read_bytes m s (4 * j))) (s + of_nat (4 * j)))
      (write_bytes m d (read_bytes m s (4 * j))) = write_bytes m d (read_bytes m s (4 * Suc j))"
  using copy_step [OF assms(1), of "4 * j" 4 m] assms(2,3) by (simp add: move_u32 add.commute)

lemma WritePCIe_loop_copies:
  assumes bs: "GetPCIeConfigurationBase env n = Some bs" "bs \<noteq> 0"
    and d: "d = PCIeMakeAddress bs (ucast bus) (ucast slot) (ucast func) (ucast first)"
    and apart: "disjoint_regions d (4 * k) din (4 * k)" and fits: "unat first + 4 * k \<le> 2 ^ 16"
    and jr: "j + Suc r = k"
  shows "WritePCIe_loop env din (of_nat (4 * Suc r)) n bus slot func first (first + of_nat (4 * j))
      (write_bytes m d (read_bytes m din (4 * j))) = Some (True, write_bytes m d (read_bytes m din (4 * k)))"
  using jr
proof (induction r arbitrary: j)
  case (Suc r)
  have j: "unat first + 4 * j < 2 ^ 16" "j < k" "4 * k \<le> 2 ^ 16" "4 * Suc r < 2 ^ 32" using Suc.prems fits by simp_all
  note IH = Suc.IH [of "Suc j"]
  have nxt: "first + of_nat (4 * j) + 4 = first + of_nat (4 * Suc j)" by simp
  have "WritePCIe_loop env din (of_nat (4 * Suc r)) n bus slot func first (first + of_nat (4 * Suc j))
      (write_bytes m d (read_bytes m din (4 * Suc j))) = Some (True, write_bytes m d (read_bytes m din (4 * k)))"
    by (rule IH) (use Suc.prems in simp)
  then show ?case
    by (subst WritePCIe_loop.simps)
      (simp only: WritePCIeU32_def bs buffer_address [OF j(1)] config_address [OF j(1)] d [symmetric]
        copied_word [OF apart j(2,3)] size_left [OF j(4)] nxt Let_def prod.case bind.bind_lunit if_False if_True HOL.simp_thms
        nat.distinct)
next
  case 0
  have j: "unat first + 4 * j < 2 ^ 16" "j < k" "4 * k \<le> 2 ^ 16" "4 * 0 < (2::nat) ^ 32" "Suc j = k" using 0 fits by simp_all
  show ?case
    by (subst WritePCIe_loop.simps)
      (simp only: WritePCIeU32_def bs buffer_address [OF j(1)] config_address [OF j(1)] d [symmetric]
        copied_word [OF apart j(2,3)] size_left [OF j(4)] j(5) Let_def prod.case bind.bind_lunit if_False if_True HOL.simp_thms)
qed

lemma ReadPCIe_loop_copies:
  assumes bs: "GetPCIeConfigurationBase env n = Some bs" "bs \<noteq> 0"
    and d: "d = PCIeMakeAddress bs (ucast bus) (ucast slot) (ucast func) (ucast first)"
    and apart: "disjoint_regions dout (4 * k) d (4 * k)" and fits: "unat first + 4 * k \<le> 2 ^ 16"
    and jr: "j + Suc r = k"
  shows "ReadPCIe_loop env dout (of_nat (4 * Suc r)) n bus slot func first (first + of_nat (4 * j))
      (write_bytes m dout (read_bytes m d (4 * j))) = Some (True, write_bytes m dout (read_bytes m d (4 * k)))"
  using jr
proof (induction r arbitrary: j)
  case (Suc r)
  have j: "unat first + 4 * j < 2 ^ 16" "j < k" "4 * k \<le> 2 ^ 16" "4 * Suc r < 2 ^ 32" using Suc.prems fits by simp_all
  have nxt: "first + of_nat (4 * j) + 4 = first + of_nat (4 * Suc j)" by simp
  have "ReadPCIe_loop env dout (of_nat (4 * Suc r)) n bus slot func first (first + of_nat (4 * Suc j))
      (write_bytes m dout (read_bytes m d (4 * Suc j))) = Some (True, write_bytes m dout (read_bytes m d (4 * k)))"
    by (rule Suc.IH) (use Suc.prems in simp)
  then show ?case
    by (subst ReadPCIe_loop.simps)
      (simp only: ReadPCIeU32_def bs buffer_address [OF j(1)] config_address [OF j(1)] d [symmetric]
        copied_word [OF apart j(2,3)] size_left [OF j(4)] nxt Let_def prod.case bind.bind_lunit if_False if_True HOL.simp_thms
        nat.distinct)
next
  case 0
  have j: "unat first + 4 * j < 2 ^ 16" "j < k" "4 * k \<le> 2 ^ 16" "4 * 0 < (2::nat) ^ 32" "Suc j = k" using 0 fits by simp_all
  show ?case
    by (subst ReadPCIe_loop.simps)
      (simp only: ReadPCIeU32_def bs buffer_address [OF j(1)] config_address [OF j(1)] d [symmetric]
        copied_word [OF apart j(2,3)] size_left [OF j(4)] j(5) Let_def prod.case bind.bind_lunit if_False if_True HOL.simp_thms)
qed

lemma size_words: "unat (first :: u16) + unat (sz :: u32) \<le> 2 ^ 16 \<Longrightarrow> sz mod 4 = 0 \<Longrightarrow> sz \<noteq> 0 \<Longrightarrow>
    \<exists>r. unat sz = 4 * Suc r \<and> sz = of_nat (4 * Suc r)"
proof -
  assume "sz mod 4 = 0" "sz \<noteq> 0"
  then have "unat sz mod 4 = 0" "unat sz \<noteq> 0" using unat_mod_distrib [of sz 4] by (simp_all add: unat_eq_0)
  then obtain q where "unat sz = 4 * q" "q \<noteq> 0" by auto
  then obtain r where r: "unat sz = 4 * Suc r" by (cases q) auto
  have "sz = of_nat (unat sz)" by simp
  then have "sz = of_nat (4 * Suc r)" by (simp only: r)
  with r show ?thesis by blast
qed

text \<open>C37: What \<open>WritePCIeVOIDPTR\<close> writes to a range of registers is what \<open>ReadPCIeVOIDPTR\<close> reads from it: a
  buffer of a whole number of words, written to a device and read back to another buffer, arrives there
  unchanged, and both calls succeed.  The registers keep what is written, the range ends inside the
  offsets of sixteen bits, and the buffers lie apart from it.\<close>

theorem PCIe_write_read:
  assumes "GetPCIeConfigurationBase env n = Some bs" "bs \<noteq> 0" and "sz mod 4 = 0" "sz \<noteq> 0"
    and "unat offset + unat sz \<le> 2 ^ 16"
    and "d = PCIeMakeAddress bs (ucast bus) (ucast slot) (ucast func) (ucast offset)"
    and "disjoint_regions d (unat sz) din (unat sz)" "disjoint_regions dout (unat sz) d (unat sz)"
  shows "\<exists>m1 m2. WritePCIeVOIDPTR env din sz n bus slot func offset m = Some (True, m1)
      \<and> ReadPCIeVOIDPTR env dout sz n bus slot func offset m1 = Some (True, m2)
      \<and> read_bytes m1 d (unat sz) = read_bytes m din (unat sz)
      \<and> read_bytes m2 dout (unat sz) = read_bytes m din (unat sz)"
proof -
  obtain r where r: "unat sz = 4 * Suc r" "sz = of_nat (4 * Suc r)" using size_words [OF assms(5,3,4)] by blast
  let ?k = "Suc r" and ?m1 = "write_bytes m d (read_bytes m din (unat sz))"
  have w: "WritePCIeVOIDPTR env din sz n bus slot func offset m = Some (True, ?m1)"
    using WritePCIe_loop_copies [OF assms(1,2,6), of ?k din 0 r m] assms r
    by (simp add: WritePCIeVOIDPTR_def read_bytes_def)
  have rd: "ReadPCIeVOIDPTR env dout sz n bus slot func offset m'
      = Some (True, write_bytes m' dout (read_bytes m' d (unat sz)))" for m'
    using ReadPCIe_loop_copies [OF assms(1,2,6), of dout ?k 0 r m'] assms r
    by (simp add: ReadPCIeVOIDPTR_def read_bytes_def)
  have len: "unat sz \<le> 2 ^ 64" using assms(5) by simp
  have kept: "read_bytes (write_bytes m' a bs') a (unat sz) = bs'" if "length bs' = unat sz" for m' a bs'
    using read_write_bytes [of bs' m' a] that len by simp
  have k1: "read_bytes ?m1 d (unat sz) = read_bytes m din (unat sz)" by (rule kept) simp
  have k2: "read_bytes (write_bytes ?m1 dout (read_bytes ?m1 d (unat sz))) dout (unat sz) = read_bytes m din (unat sz)"
    unfolding k1 by (rule kept) simp
  show ?thesis using w rd [of ?m1] k1 k2 by blast
qed

text \<open>A table with one entry for the base 0xE0000000.  Its revision is 1, and yet it is read in the 64-bit
  form, as its checksum is part of the comparison.\<close>

definition sample_mcfg :: bytes where
  "sample_mcfg = [0x4D, 0x43, 0x46, 0x47, 60, 0, 0, 0, 1, 0xC7] @ replicate 34 0
     @ [0, 0, 0, 0xE0, 0, 0, 0, 0] @ [0, 0, 0, 0xFF, 0, 0, 0, 0]"

definition pci_demo :: pcie_env where
  "pci_demo = \<lparr>q_map_virtual = id, q_alloc = (\<lambda>p k. p), q_tables = tables_with sample_mcfg, q_acpibase = 0x1000,
     q_keeps = (\<lambda>a v. v)\<rparr>"

lemma sample_mcfg_fields:
  "ValidateHeader (tables_with sample_mcfg) 0x3000" "h_Signature (tables_with sample_mcfg) 0x3000 = ''MCFG''"
  "h_Length (tables_with sample_mcfg) 0x3000 = 60" "read_u32 (tables_with sample_mcfg) 0x3008 = 0xC701"
  "read_u64 (tables_with sample_mcfg) 0x302C = 0xE0000000"
proof -
  note bytes = table_bytes(3) [of _ _ sample_mcfg]
  have zeros: "le_nat (replicate j 0) = 0" for j by (induction j) simp_all
  show len: "h_Length (tables_with sample_mcfg) 0x3000 = 60"
    using bytes [of 4 4] by (simp add: h_Length_def read_u32_def sample_mcfg_def)
  show "ValidateHeader (tables_with sample_mcfg) 0x3000"
    using bytes [of 0 60] len by (simp add: ValidateHeader_def sizeof_SDTHeader_def sample_mcfg_def sum_list_replicate)
  show "h_Signature (tables_with sample_mcfg) 0x3000 = ''MCFG''"
    using bytes [of 0 4] by (simp add: h_Signature_def sample_mcfg_def char_of_def bit_0)
  show "read_u32 (tables_with sample_mcfg) 0x3008 = 0xC701"
    using bytes [of 8 4] zeros by (simp add: read_u32_def sample_mcfg_def)
  show "read_u64 (tables_with sample_mcfg) 0x302C = 0xE0000000"
    using bytes [of 44 8] by (simp add: read_u64_def sample_mcfg_def)
qed

lemma pci_demo_base: "GetPCIeConfigurationBase pci_demo 0 = Some 0xE0000000"
proof -
  have "SearchACPITable id (tables_with sample_mcfg) ''MCFG'' 0x1000 = Some 0x3000"
    by (rule table_search) (use sample_mcfg_fields in \<open>simp_all add: RSDT_SupportedTables_def\<close>)
  then show ?thesis
    using sample_mcfg_fields by (simp add: GetPCIeConfigurationBase_def pci_demo_def mcfg_base_def Let_def)
qed

theorem PCIe_write_read_witness:
  "\<exists>m1 m2. WritePCIeVOIDPTR pci_demo 0x5000 8 0 0 3 0 0x10 ramp = Some (True, m1)
      \<and> ReadPCIeVOIDPTR pci_demo 0x6000 8 0 0 3 0 0x10 m1 = Some (True, m2)
      \<and> read_bytes m1 0xE0018010 8 = read_bytes ramp 0x5000 8 \<and> read_bytes m2 0x6000 8 = read_bytes ramp 0x5000 8"
proof -
  have d: "PCIeMakeAddress 0xE0000000 (ucast (0 :: u16)) (ucast (3 :: u16)) (ucast (0 :: u16)) (ucast (0x10 :: u16)) = 0xE0018010"
    by (simp add: PCIeMakeAddress_def)
  have apart: "disjoint_regions 0xE0018010 8 0x5000 8" "disjoint_regions 0x6000 8 0xE0018010 8"
    using disjoint_far [of "0x5000" 8 "0xE0018010" 8] disjoint_far [of "0x6000" 8 "0xE0018010" 8]
    by (simp_all add: disjoint_regions_sym [of "0xE0018010"])
  show ?thesis
    using PCIe_write_read [OF pci_demo_base, of 8 "0x10" "0xE0018010" 0 3 0 "0x5000" "0x6000" ramp] d apart by simp
qed

section \<open>The search for a device\<close>

definition slot_matches :: "memory \<Rightarrow> u64 \<Rightarrow> bytes \<Rightarrow> nat \<Rightarrow> nat \<Rightarrow> bool" where
  "slot_matches m bs Code bus s \<longleftrightarrow> read_bytes m (PCIeMakeAddress bs (of_nat bus) (of_nat s) 0 0 + 9) 3 = Code"

declare search_slots.simps [simp del] search_buses.simps [simp del]

lemma search_slots_find:
  "slot \<le> 32 \<Longrightarrow> \<exists>N'. search_slots m bs Code bus slot N =
    (case find (slot_matches m bs Code bus) [slot + unat N..<32] of
       Some s \<Rightarrow> Inl (PCIeMakeAddress bs (of_nat bus) (of_nat s) 0 0, s)
     | None \<Rightarrow> Inr (32, N'))"
proof (induction "32 - slot" arbitrary: slot N)
  case 0
  then show ?case by (subst search_slots.simps) (simp add: PCIMaxDevices_def)
next
  case (Suc k)
  then have less: "slot < 32" and k: "k = 32 - Suc slot" by simp_all
  note IH = Suc.hyps(1) [of "Suc slot", OF k]
  show ?case
  proof (cases "N = 0")
    case True
    have "[slot..<32] = slot # [Suc slot..<32]" using less by (simp add: upt_conv_Cons)
    then show ?thesis using IH [of 0] True less
      by (subst search_slots.simps) (simp add: PCIMaxDevices_def Let_def slot_matches_def)
  next
    case False
    then have "unat N = Suc (unat (N - 1))" by (simp add: unat_pred)
    then show ?thesis using IH [of "N - 1"] False less by (subst search_slots.simps) (simp add: PCIMaxDevices_def)
  qed
qed

lemma other_buses: "bus \<le> 256 \<Longrightarrow> search_buses m bs Code bus 32 N = Inr (256, 32, N)"
proof (induction "256 - bus" arbitrary: bus)
  case 0
  then show ?case by (subst search_buses.simps) (simp add: PCIMaxBuses_def)
next
  case (Suc k)
  then show ?case by (subst search_buses.simps) (simp add: PCIMaxBuses_def PCIMaxDevices_def search_slots.simps)
qed

lemma search_buses_find:
  "\<exists>N'. search_buses m bs Code 0 0 N =
    (case find (slot_matches m bs Code 0) [unat N..<32] of
       Some s \<Rightarrow> Inl (PCIeMakeAddress bs 0 (of_nat s) 0 0, 0, s)
     | None \<Rightarrow> Inr (256, 32, N'))"
  using search_slots_find [of 0 m bs Code 0 N]
  by (subst search_buses.simps) (auto simp: PCIMaxBuses_def other_buses split: option.splits)

lemma other_segments:
  assumes "GetPCIeConfigurationBase env (of_nat L) = Some 0"
    and "\<And>j. j < L \<Longrightarrow> \<exists>b. b \<noteq> 0 \<and> GetPCIeConfigurationBase env (of_nat j) = Some b"
  shows "k \<le> L \<Longrightarrow> search_segments env m Code (of_nat k) 256 32 N = Some (0, 256, 32)"
proof (induction "L - k" arbitrary: k)
  case 0
  then show ?case using assms(1) by (subst search_segments.simps) (simp add: other_buses)
next
  case (Suc d)
  then have "k < L" by simp
  then obtain b where "b \<noteq> 0" "GetPCIeConfigurationBase env (of_nat k) = Some b" using assms(2) by blast
  moreover have "search_segments env m Code (of_nat (Suc k)) 256 32 N = Some (0, 256, 32)"
    by (rule Suc.hyps(1)) (use Suc in simp_all)
  ultimately show ?case by (subst search_segments.simps) (simp add: other_buses add.commute)
qed

text \<open>C38: \<open>PCIeSearchDevice\<close> finds the first device of the class asked for among the slots of bus 0 from
  slot \<open>N\<close> on, and nothing else: neither the slot nor the bus is set back, so that the slots of the other
  buses, and the other segments, are never looked at, and \<open>N\<close> counts slots instead of devices of the class.
  The search ends when the tables have no further segment.\<close>

theorem PCIeSearchDevice_first_bus:
  assumes "GetPCIeConfigurationBase env 0 = Some bs" and "GetPCIeConfigurationBase env (of_nat L) = Some 0"
    and "\<And>j. j < L \<Longrightarrow> \<exists>b. b \<noteq> 0 \<and> GetPCIeConfigurationBase env (of_nat j) = Some b"
  shows "PCIeSearchDevice env m Code N =
    Some (case find (slot_matches m bs Code 0) [unat N..<32] of
            Some s \<Rightarrow> (PCIeMakeAddress bs 0 (of_nat s) 0 0, 0, s)
          | None \<Rightarrow> (0, 256, 32))"
proof -
  have rest: "search_segments env m Code 1 256 32 N' = Some (0, 256, 32)" if "bs \<noteq> 0" for N'
  proof (cases L)
    case 0
    then show ?thesis using assms(1,2) that by simp
  next
    case (Suc j)
    then show ?thesis using other_segments [OF assms(2,3), of 1 m Code N'] by simp
  qed
  show ?thesis
    using search_buses_find [of m bs Code N] assms(1) rest
    unfolding PCIeSearchDevice_def by (subst search_segments.simps) (auto split: option.splits)
qed

lemma pci_demo_end: "GetPCIeConfigurationBase pci_demo 1 = Some 0"
proof -
  have "SearchACPITable id (tables_with sample_mcfg) ''MCFG'' 0x1000 = Some 0x3000"
    by (rule table_search) (use sample_mcfg_fields in \<open>simp_all add: RSDT_SupportedTables_def\<close>)
  then show ?thesis
    using sample_mcfg_fields by (simp add: GetPCIeConfigurationBase_def pci_demo_def Let_def)
qed

theorem PCIeSearchDevice_first_bus_witness:
  "PCIeSearchDevice pci_demo (write_bytes (\<lambda>a. 0) 0xE0018009 [2, 6, 1]) [2, 6, 1] 0 = Some (0xE0018000, 0, 3)
    \<and> PCIeSearchDevice pci_demo (write_bytes (\<lambda>a. 0) 0xE0018009 [2, 6, 1]) [2, 6, 1] 4 = Some (0, 256, 32)"
proof -
  let ?m = "write_bytes (\<lambda>a. 0 :: u8) 0xE0018009 [2, 6, 1]"
  have m: "slot_matches ?m 0xE0000000 [2, 6, 1] 0 s \<longleftrightarrow> s = 3" if "s < 32" for s
  proof -
    have "s \<in> set [0..<32]" using that by simp
    then show ?thesis
      by (simp add: upt_rec slot_matches_def PCIeMakeAddress_def read_bytes_def) (elim disjE; simp)
  qed
  have "find (slot_matches ?m 0xE0000000 [2, 6, 1] 0) [0..<32] = Some 3"
    using m by (simp add: upt_rec)
  moreover have "find (slot_matches ?m 0xE0000000 [2, 6, 1] 0) [4..<32] = None"
    using m by (auto simp: find_None_iff)
  ultimately show ?thesis
    using PCIeSearchDevice_first_bus [OF pci_demo_base, of 1 ?m "[2, 6, 1]"] pci_demo_base pci_demo_end
    by (simp add: PCIeMakeAddress_def)
qed

section \<open>The size of a region\<close>

lemma overwrite_u32: "write_u32 a v (write_u32 a w m) = write_u32 a v m"
  by (rule ext) (simp add: write_u32_def write_bytes_nth)

lemma command_apart: "disjoint_regions (dev + 4) 1 (bar_at dev BAR) 4"
proof -
  have "unat BAR < 256" using unsigned_less [of BAR, where 'a = nat] by simp
  moreover have "bar_at dev BAR = dev + of_nat (16 + 4 * unat BAR)" by (simp add: bar_at_def)
  ultimately show ?thesis using disjoint_offsets [of 4 1 "16 + 4 * unat BAR" 4 dev] by simp
qed

lemma bar_other_byte: "read_u32 (m(dev + 4 := b)) (bar_at dev BAR) = read_u32 m (bar_at dev BAR)"
  using command_apart [of dev BAR] by (auto simp: read_u32_def disjoint_regions_def intro!: arg_cong [where f = "\<lambda>x. of_nat (le_nat x)"] read_bytes_cong)

lemma command_bits:
  fixes b :: u8 and i j :: nat
  defines "c \<equiv> (b AND NOT (push_bit j 1)) AND NOT (push_bit i 1)"
  defines "d \<equiv> (if bit b i then c OR push_bit i 1 else c)"
  assumes "i \<noteq> j"
  shows "(if bit b j then d OR push_bit j 1 else d) = b"
  unfolding c_def d_def
  by (rule bit_word_eqI) (use assms(3) in \<open>auto simp: bit_simps bit_1_iff dest: bit_imp_le_length\<close>)

lemma commands_restored:
  fixes m :: memory and dev :: u64 and i j :: nat
  defines "m' \<equiv> set_command dev i False (set_command dev j False m)"
  defines "m1 \<equiv> (if bit (m (dev + 4)) i then set_command dev i True m' else m')"
  assumes "i \<noteq> j"
  shows "(if bit (m (dev + 4)) j then set_command dev j True m1 else m1) = m"
proof (rule ext)
  fix x
  show "(if bit (m (dev + 4)) j then set_command dev j True m1 else m1) x = m x"
  proof (cases "x = dev + 4")
    case True
    then show ?thesis using command_bits [OF assms(3), of "m (dev + 4)"]
      by (simp add: m1_def m'_def set_command_def split: if_splits)
  qed (simp add: m1_def m'_def set_command_def)
qed

text \<open>A memory region of \<open>2 ^ k\<close> bytes: its register keeps the bits from \<open>k\<close> on and shows its type in the
  lowest four.\<close>

definition memory_region :: "pcie_env \<Rightarrow> u64 \<Rightarrow> nat \<Rightarrow> u32 \<Rightarrow> bool" where
  "memory_region env a k tp \<longleftrightarrow> 4 \<le> k \<and> k < 32 \<and> tp AND NOT 0xF = 0 \<and> tp AND 1 = 0
     \<and> (\<forall>v. q_keeps env a v = (v AND NOT (mask k)) OR tp)"

lemma probed_size:
  assumes "4 \<le> k" "k < 32" "tp AND NOT 0xF = 0"
  shows "NOT (((0xFFFFFFFF AND NOT (mask k)) OR tp) AND NOT 0xF) + 1 = (2 ^ k :: u32)"
proof -
  have F: "(0xF :: u32) = mask 4" "(0xFFFFFFFF :: u32) = - 1" by (simp_all add: mask_eq_exp_minus_1)
  have tp: "\<not> bit tp n" if "4 \<le> n" for n
  proof -
    have "\<not> bit (tp AND NOT 0xF) n" using assms(3) by simp
    then show ?thesis using that unfolding F by (auto simp: bit_simps dest: bit_imp_le_length)
  qed
  have "((- 1 AND NOT (mask k)) OR tp) AND NOT (mask 4) = NOT (mask k :: u32)"
    by (rule bit_word_eqI) (use assms(1) tp in \<open>auto simp: bit_simps\<close>)
  then have "NOT (((0xFFFFFFFF AND NOT (mask k)) OR tp) AND NOT 0xF) = (mask k :: u32)" unfolding F by simp
  then show ?thesis by (simp add: mask_eq_exp_minus_1)
qed

text \<open>C39: \<open>PCIeBARSize\<close> returns the size of a memory region, \<open>2 ^ k\<close> for a register that keeps the bits from \<open>k\<close>
  on, and leaves the device as it was: the register has its address again and the command register the
  bits that were set before.\<close>

theorem PCIeBARSize_region:
  assumes "memory_region env (bar_at dev BAR) k tp"
    and "read_u32 m (bar_at dev BAR) = q_keeps env (bar_at dev BAR) v"
  shows "PCIeBARSize env dev BAR m = (2 ^ k, m)"
proof -
  let ?a = "bar_at dev BAR" and ?m = "set_command dev 0 False (set_command dev 1 False m)"
  have r: "4 \<le> k" "k < 32" "tp AND NOT 0xF = 0" "tp AND 1 = 0" "\<And>v. q_keeps env ?a v = (v AND NOT (mask k)) OR tp"
    using assms(1) by (auto simp: memory_region_def)
  have orig: "read_u32 ?m ?a = read_u32 m ?a" by (simp add: set_command_def bar_other_byte)
  have keep: "q_keeps env ?a (read_u32 m ?a) = read_u32 m ?a"
    unfolding assms(2) r(5) by (rule bit_word_eqI) (auto simp: bit_simps)
  have even: "read_u32 m ?a AND 1 = 0"
  proof -
    have "\<not> bit tp 0" "0 < k" using r(1,4) by (simp_all add: and_one_eq bit_0 even_iff_mod_2_eq_zero)
    then have "\<not> bit (read_u32 m ?a) 0"
      unfolding assms(2) r(5) by (auto simp only: bit_or_iff bit_and_iff bit_not_iff bit_mask_iff)
    then show ?thesis by (simp add: and_one_eq bit_0 even_iff_mod_2_eq_zero)
  qed
  have same: "write_bar env ?a (read_u32 m ?a) (write_bar env ?a x ?m) = ?m" for x
    using write_read_u32 [of ?a ?m] unfolding write_bar_def keep overwrite_u32 orig .
  show ?thesis
    using commands_restored [of 0 1 m dev] probed_size [OF r(1-3)]
    unfolding PCIeBARSize_def Let_def same even
    by (simp add: write_bar_def r(5))
qed

definition bar_demo :: pcie_env where
  "bar_demo = pci_demo\<lparr>q_keeps := \<lambda>a v. (v AND NOT (mask 12)) OR 8\<rparr>"

theorem PCIeBARSize_region_witness:
  "PCIeBARSize bar_demo 0xE0018000 0 (write_u32 0xE0018010 0xFEB00008 ramp) = (0x1000, write_u32 0xE0018010 0xFEB00008 ramp)"
proof -
  have a: "bar_at 0xE0018000 0 = 0xE0018010" by (simp add: bar_at_def)
  have "memory_region bar_demo (bar_at 0xE0018000 0) 12 8" by (simp add: memory_region_def bar_demo_def)
  moreover have "((0xFEB00008 :: u32) AND NOT (mask 12)) OR 8 = 0xFEB00008" by (simp add: mask_eq_exp_minus_1)
  ultimately show ?thesis
    using PCIeBARSize_region [of bar_demo "0xE0018000" 0 12 8 "write_u32 0xE0018010 0xFEB00008 ramp" "0xFEB00008"] a
    by (simp add: bar_demo_def)
qed

text \<open>The address of a 32-bit memory region is taken from bit 5 on and not shifted back.\<close>

lemma PCIGetBar_shifted:
  assumes "read_u32 m (bar_at dev N) = r" "r AND 0xF = 0"
  shows "PCIGetBar m dev N = ucast (drop_bit 5 r AND mask 24)"
proof -
  have "\<not> bit r n" if "n < 4" for n
  proof -
    have "(0xF :: u32) = mask 4" by (simp add: mask_eq_exp_minus_1)
    then have "\<not> bit (r AND mask 4) n" using assms(2) by simp
    then show ?thesis using that by (auto simp: bit_simps dest: bit_imp_le_length)
  qed
  then have "\<not> IsIOSpace r" "bar_Type r = 0"
    by (auto simp: IsIOSpace_def bar_Type_def intro!: bit_word_eqI simp: bit_simps)
  moreover have "ms_address r = ucast (drop_bit 5 r AND mask 24)"
    by (rule bit_word_eqI) (auto simp: ms_address_def bit_simps)
  ultimately show ?thesis using assms(1) by (simp add: PCIGetBar_def Let_def)
qed

text \<open>Only the first capability of a function is looked at: the search never follows a link.\<close>

lemma first_capability_only:
  assumes "\<And>f. f < 8 \<Longrightarrow> \<exists>c. ReadPCIeCapabilities env n bus slot (of_nat f) m = Some c
      \<and> (\<forall>cap. c = Some cap \<longrightarrow> ucast (hd cap) \<noteq> tp)"
  shows "SearchPCIeCapabilitiesN env n bus slot tp k m = Some None"
proof -
  have "search_functions env n bus slot m tp fs k = Some None" if "set fs \<subseteq> {..<8}" for fs k
    using that
  proof (induction fs arbitrary: k)
    case (Cons f fs)
    then obtain c where "ReadPCIeCapabilities env n bus slot (of_nat f) m = Some c" "\<forall>cap. c = Some cap \<longrightarrow> ucast (hd cap) \<noteq> tp"
      using assms [of f] by auto
    then show ?case using Cons by (simp split: option.split)
  qed simp
  then show ?thesis by (simp add: SearchPCIeCapabilitiesN_def PCIMaxPhysicalFunctions_def subset_iff)
qed

end
