(* ===== verification/Kernel_PageMap.thy ===== *)
theory Kernel_PageMap
  imports Kernel_PageAlloc
begin

text \<open>
  Entering pages into the page tables and taking them out again
  (\<^verbatim>\<open>kernel/libcrt/hardware/paging/palloc.c\<close>): the update of the bookkeeping, \<open>AllocatePages\<close>,
  \<open>FreePages\<close> and \<open>RepointVirtualAddress\<close>.  The page tables lie in byte memory, the bookkeeping is the
  state of \<open>Kernel_PageAlloc\<close>.  \<open>None\<close> is a loop without end, an access outside of an array, or an
  argument list that does not fit.
\<close>

section \<open>The state\<close>

text \<open>
  The processor: five-level paging switched on and in use, the address of the top table, the switch
  \<open>EnableInputAddress\<close>, and what a lookup outside of the arrays happens to give.
\<close>

record page_cpu =
  c_la57 :: bool
  c_level5 :: bool
  c_root :: u64
  c_toggle :: bool
  c_stray :: "u64 \<Rightarrow> u64"

record page_sys =
  pg_mem :: memory
  pg_sse :: sse_state
  pg_alloc :: InternalAllocationState

definition map_virtual :: "page_cpu \<Rightarrow> page_sys \<Rightarrow> u64 \<Rightarrow> u64" where
  "map_virtual cpu st p = (case MapVirtual (pg_alloc st) p of None \<Rightarrow> c_stray cpu p | Some v \<Rightarrow> v)"

definition map_physical :: "page_cpu \<Rightarrow> page_sys \<Rightarrow> u64 \<Rightarrow> u64" where
  "map_physical cpu st v = MapPhysical (pg_mem st) (c_level5 cpu) (c_root cpu) (map_virtual cpu st) v"

definition walk :: "page_cpu \<Rightarrow> PageCoordinate \<Rightarrow> page_sys \<Rightarrow> (u64 \<times> nat) option" where
  "walk cpu PC st = WalkPageTree (pg_mem st) (c_la57 cpu) (c_level5 cpu) (c_root cpu) (map_virtual cpu st) 5 PC"

section \<open>The update of the bookkeeping\<close>

definition ATUSubDescriptorAllocationType :: u64 where "ATUSubDescriptorAllocationType = 0x01"
definition ATUSubDescriptorValid :: u64 where "ATUSubDescriptorValid = 0x02"
definition ATUSubDescriptorNoPages :: u64 where "ATUSubDescriptorNoPages = 0x04"
definition ATUSubDescriptorCoordBaseIndex :: u64 where "ATUSubDescriptorCoordBaseIndex = 0x08"
definition ATUSubDescriptor :: u64 where
  "ATUSubDescriptor = ATUSubDescriptorAllocationType OR ATUSubDescriptorValid OR ATUSubDescriptorNoPages
     OR ATUSubDescriptorCoordBaseIndex"

text \<open>The position of the entry that \<open>GetSubDescriptor\<close> finds, counted from the start of the pool.\<close>

fun sub_index :: "MemoryRangeSubDescriptor list \<Rightarrow> u64 \<Rightarrow> nat option option" where
  "sub_index [] CopyAdr = None"
| "sub_index (sd # sds) CopyAdr =
    (if \<not> EndOfList sd \<and> CopyAdr \<noteq> 0
     then map_option (map_option Suc)
            (sub_index sds (if pages_bytes (NoPages sd) > CopyAdr then CopyAdr - pages_bytes (NoPages sd) else 0))
     else Some (if CopyAdr \<noteq> 0 then None else Some 0))"

definition sub_position :: "u64 \<Rightarrow> InternalAllocationState \<Rightarrow> nat option option" where
  "sub_position Adr IState = do {
     D \<leftarrow> descriptor_of IState Adr;
     if Adr < MemoryMaxPages IState * PAGE_SIZE \<and> SubDescriptorIndex D \<noteq> InvalidSubDescriptorIndex then do {
       sds \<leftarrow> pool_from IState (SubDescriptorIndex D);
       r \<leftarrow> sub_index sds (Adr - Physical D);
       Some (map_option (\<lambda>k. unat (SubDescriptorIndex D) + k) r) }
     else None }"

text \<open>The variable arguments, at the types the callers pass.\<close>

datatype va_arg = TypeArg u8 | BoolArg bool | PagesArg u64 | CoordArg PageCoordinate

fun set_type :: "va_arg \<Rightarrow> MemoryRangeSubDescriptor list \<Rightarrow> MemoryRangeSubDescriptor list option" where
  "set_type (TypeArg t) (sd # r) = Some (sd\<lparr>AllocationType := AllocationType sd AND t\<rparr> # r)"
| "set_type _ _ = None"

fun set_valid :: "va_arg \<Rightarrow> MemoryRangeSubDescriptor list \<Rightarrow> MemoryRangeSubDescriptor list option" where
  "set_valid (BoolArg b) (sd # r) = Some (sd\<lparr>Valid := b\<rparr> # r)"
| "set_valid _ _ = None"

text \<open>The entries up to the end mark grow by the difference, in 14 bits.\<close>

fun shift_pages :: "u64 \<Rightarrow> MemoryRangeSubDescriptor list \<Rightarrow> MemoryRangeSubDescriptor list option" where
  "shift_pages Delta [] = None"
| "shift_pages Delta (sd # r) =
    (if EndOfList sd then Some (sd # r)
     else map_option ((#) (sd\<lparr>NoPages := ucast (ucast (NoPages sd) + Delta)\<rparr>)) (shift_pages Delta r))"

fun set_pages :: "va_arg \<Rightarrow> MemoryRangeSubDescriptor list \<Rightarrow> MemoryRangeSubDescriptor list option" where
  "set_pages (PagesArg n) (sd # r) =
    map_option ((#) (sd\<lparr>NoPages := ucast n\<rparr>)) (shift_pages (n - ucast (NoPages sd)) r)"
| "set_pages _ _ = None"

fun set_coord :: "va_arg \<Rightarrow> MemoryRangeSubDescriptor list \<Rightarrow> MemoryRangeSubDescriptor list option" where
  "set_coord (CoordArg c) (sd # r) = Some (sd\<lparr>CoordBaseIndex := c\<rparr> # r)"
| "set_coord _ _ = None"

definition change_from ::
  "nat \<Rightarrow> (MemoryRangeSubDescriptor list \<Rightarrow> MemoryRangeSubDescriptor list option) \<Rightarrow> InternalAllocationState \<Rightarrow> InternalAllocationState option" where
  "change_from k f IState =
    (let cur = unat (CurrentSubDescriptorPool IState) in do {
       pool \<leftarrow> at (SubDescriptors IState) cur;
       r \<leftarrow> f (drop k pool);
       Some (IState\<lparr>SubDescriptors := (SubDescriptors IState)[cur := take k pool @ r]\<rparr>) })"

definition update_step ::
  "u64 \<Rightarrow> u64 \<Rightarrow> u64 \<Rightarrow> (va_arg \<Rightarrow> MemoryRangeSubDescriptor list \<Rightarrow> MemoryRangeSubDescriptor list option)
    \<Rightarrow> bool \<times> va_arg list \<times> InternalAllocationState \<Rightarrow> (bool \<times> va_arg list \<times> InternalAllocationState) option" where
  "update_step BitMask field Phys f s =
    (case s of (out, ls, IState) \<Rightarrow>
       if out \<and> flag_check BitMask field then do {
         p \<leftarrow> sub_position Phys IState;
         (case p of
            None \<Rightarrow> Some (False, ls, IState)
          | Some k \<Rightarrow>
              (case ls of
                 [] \<Rightarrow> None
               | v # ls' \<Rightarrow> map_option (\<lambda>IState'. (True, ls', IState')) (change_from k (f v) IState)))
       }
       else Some s)"

definition UpdateAllocationTableByPhysical ::
  "u64 \<Rightarrow> u64 \<Rightarrow> va_arg list \<Rightarrow> InternalAllocationState \<Rightarrow> (bool \<times> InternalAllocationState) option" where
  "UpdateAllocationTableByPhysical BitMask Phys ls IState =
    (if \<not> QueryPhysicalAddress Phys IState then Some (False, IState)
     else do {
       D \<leftarrow> GetDescriptor Phys IState;
       (if D = None then Some (False, IState)
        else do {
          s \<leftarrow> update_step BitMask ATUSubDescriptorAllocationType Phys set_type (True, ls, IState);
          s \<leftarrow> update_step BitMask ATUSubDescriptorValid Phys set_valid s;
          s \<leftarrow> update_step BitMask ATUSubDescriptorNoPages Phys set_pages s;
          (out, ls', IState') \<leftarrow> update_step BitMask ATUSubDescriptorCoordBaseIndex Phys set_coord s;
          Some (out, IState')
        })
     })"

definition update_table :: "u64 \<Rightarrow> u64 \<Rightarrow> va_arg list \<Rightarrow> page_sys \<Rightarrow> page_sys option" where
  "update_table BitMask Phys ls st =
    map_option (\<lambda>(out, IState). st\<lparr>pg_alloc := IState\<rparr>) (UpdateAllocationTableByPhysical BitMask Phys ls (pg_alloc st))"

section \<open>Table entries\<close>

definition ReadWritable :: u32 where "ReadWritable = 0x1"
definition SupervisorMode :: u32 where "SupervisorMode = 0x4"
definition PageLevelWriteThroughEnable :: u32 where "PageLevelWriteThroughEnable = 0x8"
definition PageLevelCacheEnable :: u32 where "PageLevelCacheEnable = 0x10"
definition ExecuteEnable :: u32 where "ExecuteEnable = 0x80"
definition PagingTableLength :: nat where "PagingTableLength = 512"

text \<open>The physical address goes into the field of the frame number as it is.\<close>

definition table_entry_for :: "u32 \<Rightarrow> u64 \<Rightarrow> u64" where
  "table_entry_for Flags phys = encode_entry
     \<lparr>Present = True, ReadWrite = flag_check Flags ReadWritable, UserSupervisor = flag_check Flags SupervisorMode,
      PageLevelWriteThrough = flag_check Flags PageLevelWriteThroughEnable,
      PageLevelCacheDisable = (\<not> flag_check Flags PageLevelCacheEnable), Accessed = False, PageInMemory = True,
      PageSize = False, Available2 = 0, PhysicalAddress = ucast phys, Available3 = 0,
      ExecuteDisable = (\<not> flag_check Flags ExecuteEnable)\<rparr>"

definition entry_1GB_for :: "u32 \<Rightarrow> u8 \<Rightarrow> u64 \<Rightarrow> u64" where
  "entry_1GB_for Flags PKey phys = encode_1GB
     \<lparr>G_Present = True, G_ReadWrite = flag_check Flags ReadWritable, G_UserSupervisor = flag_check Flags SupervisorMode,
      G_PageLevelWriteThrough = flag_check Flags PageLevelWriteThroughEnable,
      G_PageLevelCacheDisable = (\<not> flag_check Flags PageLevelCacheEnable), G_Accessed = False, G_Dirty = False,
      G_PageSize = False, G_Global = False, G_PageInMemory = True, G_Available1 = 0, G_PageAttributeTable = False,
      G_PhysicalAddress = ucast phys, G_Available2 = 0, G_ProtectionKey = ucast PKey,
      G_ExecuteDisable = (\<not> flag_check Flags ExecuteEnable)\<rparr>"

definition entry_2MB_for :: "u32 \<Rightarrow> u8 \<Rightarrow> u64 \<Rightarrow> u64" where
  "entry_2MB_for Flags PKey phys = encode_2MB
     \<lparr>M_Present = True, M_ReadWrite = flag_check Flags ReadWritable, M_UserSupervisor = flag_check Flags SupervisorMode,
      M_PageLevelWriteThrough = flag_check Flags PageLevelWriteThroughEnable,
      M_PageLevelCacheDisable = (\<not> flag_check Flags PageLevelCacheEnable), M_Accessed = False, M_Dirty = False,
      M_PageSize = False, M_Global = False, M_PageInMemory = True, M_Available1 = 0, M_PageAttributeTable = False,
      M_PhysicalAddress = ucast phys, M_Available2 = 0, M_ProtectionKey = ucast PKey,
      M_ExecuteDisable = (\<not> flag_check Flags ExecuteEnable)\<rparr>"

definition entry_4KB_for :: "u32 \<Rightarrow> u8 \<Rightarrow> u64 \<Rightarrow> u64" where
  "entry_4KB_for Flags PKey phys = encode_4KB
     \<lparr>K_Present = True, K_ReadWrite = flag_check Flags ReadWritable, K_UserSupervisor = flag_check Flags SupervisorMode,
      K_PageLevelWriteThrough = flag_check Flags PageLevelWriteThroughEnable,
      K_PageLevelCacheDisable = (\<not> flag_check Flags PageLevelCacheEnable), K_Accessed = False, K_Dirty = False,
      K_PageAttributeTable = False, K_Global = False, K_PageInMemory = True, K_Available1 = 0,
      K_PhysicalAddress = ucast phys, K_Available2 = 0, K_ProtectionKey = ucast PKey,
      K_ExecuteDisable = (\<not> flag_check Flags ExecuteEnable)\<rparr>"

text \<open>The loops over the rest of a table look at its entries from the first one on, and write from
  the index on; the offset of a page is a 32-bit product.\<close>

definition untouched :: "(u64 \<Rightarrow> bool) \<Rightarrow> memory \<Rightarrow> u64 \<Rightarrow> 9 word \<Rightarrow> bool" where
  "untouched used m PT i = list_all (\<lambda>cc. \<not> used (read_u64 m (PT + 8 * of_nat cc))) [0..<PagingTableLength - unat i]"

definition used_directory :: "u64 \<Rightarrow> bool" where
  "used_directory w = (Present (decode_entry64 w) \<or> PageInMemory (decode_entry64 w))"

definition used_4KB :: "u64 \<Rightarrow> bool" where
  "used_4KB w = (K_Present (decode_4KB w) \<or> K_PageInMemory (decode_4KB w))"

definition fill_table :: "(u64 \<Rightarrow> u64) \<Rightarrow> u64 \<Rightarrow> u64 \<Rightarrow> 9 word \<Rightarrow> u32 \<Rightarrow> memory \<Rightarrow> memory" where
  "fill_table enc PT BASE i step m =
    fold (\<lambda>cc m. write_u64 (PT + 8 * (ucast i + of_nat cc)) (enc (BASE + ucast (of_nat cc * step))) m)
      [0..<PagingTableLength - unat i] m"

section \<open>Allocating pages\<close>

definition first_coordinate :: "bool \<Rightarrow> u64 \<Rightarrow> PageCoordinate" where
  "first_coordinate L5 NBytes =
    \<lparr>PC_L1 = 0, EnableL1 = (NBytes < PAGE_SIZE3), PC_L2 = 0, EnableL2 = (NBytes < PAGE_SIZE2), PC_L3 = 0, EnableL3 = True,
     PC_L4 = 0, EnableL4 = True, PC_L5 = 0, EnableL5 = L5\<rparr>"

definition next_coordinate :: "bool \<Rightarrow> u64 \<Rightarrow> PageCoordinate \<Rightarrow> PageCoordinate" where
  "next_coordinate L5 NBytes PC =
    (let PC = (if NBytes \<ge> PAGE_SIZE3 then PC\<lparr>PC_L3 := PC_L3 PC + 1\<rparr>
               else if NBytes \<ge> PAGE_SIZE2 then PC\<lparr>PC_L2 := PC_L2 PC + 1\<rparr>
               else PC\<lparr>PC_L1 := PC_L1 PC + 1\<rparr>);
         PC = (if PC_L1 PC = 0 then PC\<lparr>PC_L2 := PC_L2 PC + 1\<rparr> else PC);
         PC = (if PC_L2 PC = 0 \<and> PC_L1 PC = 0 then PC\<lparr>PC_L3 := PC_L3 PC + 1\<rparr> else PC);
         PC = (if PC_L3 PC = 0 \<and> PC_L2 PC = 0 \<and> PC_L1 PC = 0 then PC\<lparr>PC_L4 := PC_L4 PC + 1\<rparr> else PC)
     in if L5 \<and> PC_L4 PC = 0 \<and> PC_L3 PC = 0 \<and> PC_L2 PC = 0 \<and> PC_L1 PC = 0 then PC\<lparr>PC_L5 := PC_L5 PC + 1\<rparr> else PC)"

text \<open>The arguments of an allocation.\<close>

record request =
  rq_Base :: u64
  rq_NBytes :: u64
  rq_Flags :: u32
  rq_Key :: u8

definition entry_update :: "PageCoordinate \<Rightarrow> u64 \<Rightarrow> u64 \<Rightarrow> page_sys \<Rightarrow> page_sys option" where
  "entry_update PC phys n st =
    update_table ATUSubDescriptor phys [TypeArg PATUsedRegion, BoolArg True, PagesArg n, CoordArg PC] st"

text \<open>A missing table of the two upper levels is created.\<close>

definition new_table :: "page_cpu \<Rightarrow> request \<Rightarrow> u64 \<Rightarrow> PageCoordinate \<Rightarrow> page_sys \<Rightarrow> page_sys option" where
  "new_table cpu rq PT PC st = do {
     phys \<leftarrow> QueryFreeMemory (c_toggle cpu) (pg_alloc st) 0 1;
     let w = table_entry_for (rq_Flags rq) phys;
     entry_update PC (ucast (PhysicalAddress (decode_entry64 w))) 4096 (st\<lparr>pg_mem := write_u64 PT w (pg_mem st)\<rparr>)
   }"

definition pages_base :: "page_cpu \<Rightarrow> request \<Rightarrow> u32 \<Rightarrow> page_sys \<Rightarrow> u64 option" where
  "pages_base cpu rq NPages st =
    (if c_toggle cpu then QueryFreeMemory True (pg_alloc st) 0 NPages else Some (rq_Base rq))"

definition hand_out :: "request \<Rightarrow> u64 \<Rightarrow> PageCoordinate \<Rightarrow> page_sys \<Rightarrow> u64 \<times> page_sys" where
  "hand_out rq align PC st =
    (let Addr = VirtualAddressAToU64 (InitVirtualAddress PC);
         (s, m) = memset (pg_sse st) (pg_mem st) Addr 0 (c_roundup (rq_NBytes rq) align)
     in (Addr, st\<lparr>pg_sse := s, pg_mem := m\<rparr>))"

text \<open>One round of the loop: a result, or the coordinate and the state to go on with.\<close>

type_synonym round_result = "(u64 \<times> page_sys) + (PageCoordinate \<times> page_sys)"

definition upper_round :: "page_cpu \<Rightarrow> request \<Rightarrow> nat \<Rightarrow> u64 \<Rightarrow> PageCoordinate \<Rightarrow> page_sys \<Rightarrow> round_result option" where
  "upper_round cpu rq PL PT PC st =
    (if PL = 5 \<and> \<not> c_la57 cpu \<or> used_directory (read_u64 (pg_mem st) PT) then Some (Inr (PC, st))
     else map_option (\<lambda>st. Inr (if PL = 5 then PC\<lparr>PC_L5 := PC_L5 PC - 1\<rparr> else PC\<lparr>PC_L4 := PC_L4 PC - 1\<rparr>, st))
            (new_table cpu rq PT PC st))"

definition huge_round :: "page_cpu \<Rightarrow> request \<Rightarrow> u64 \<Rightarrow> PageCoordinate \<Rightarrow> page_sys \<Rightarrow> round_result option" where
  "huge_round cpu rq PT PC st =
    (if \<not> untouched used_directory (pg_mem st) PT (PC_L3 PC) then Some (Inr (PC, st))
     else
       let huge = (rq_NBytes rq \<ge> PAGE_SIZE3); NPages = (if huge then ucast (rq_NBytes rq div PAGE_SIZE) else 1) in do {
         BASE \<leftarrow> pages_base cpu rq NPages st;
         st \<leftarrow> entry_update PC BASE (ucast NPages) st;
         let m = (if huge then fill_table (entry_1GB_for (rq_Flags rq) (rq_Key rq)) PT BASE (PC_L3 PC) (ucast PAGE_SIZE3) (pg_mem st)
                  else write_u64 PT (table_entry_for (rq_Flags rq) BASE) (pg_mem st));
         let st = st\<lparr>pg_mem := m\<rparr>;
         Some (if rq_NBytes rq < PAGE_SIZE2 then Inr (PC\<lparr>PC_L3 := PC_L3 PC - 1\<rparr>, st)
               else Inl (hand_out rq PAGE_SIZE3 PC st))
       })"

definition medium_round :: "page_cpu \<Rightarrow> request \<Rightarrow> u64 \<Rightarrow> PageCoordinate \<Rightarrow> page_sys \<Rightarrow> round_result option" where
  "medium_round cpu rq PT PC st =
    (if \<not> untouched used_directory (pg_mem st) PT (PC_L2 PC) then Some (Inr (PC, st))
     else
       let medium = (rq_NBytes rq \<ge> PAGE_SIZE2); NPages = (if medium then ucast (rq_NBytes rq div PAGE_SIZE) else 1) in do {
         BASE \<leftarrow> pages_base cpu rq NPages st;
         st \<leftarrow> entry_update PC BASE (ucast NPages) st;
         let m = (if medium then fill_table (entry_2MB_for (rq_Flags rq) (rq_Key rq)) PT BASE (PC_L2 PC) (ucast PAGE_SIZE2) (pg_mem st)
                  else write_u64 PT (table_entry_for (rq_Flags rq) BASE) (pg_mem st));
         let st = st\<lparr>pg_mem := m\<rparr>;
         Some (if rq_NBytes rq < PAGE_SIZE2 then Inr (PC\<lparr>PC_L2 := PC_L2 PC - 1\<rparr>, st)
               else Inl (hand_out rq PAGE_SIZE2 PC st))
       })"

definition small_round :: "page_cpu \<Rightarrow> request \<Rightarrow> u64 \<Rightarrow> PageCoordinate \<Rightarrow> page_sys \<Rightarrow> round_result option" where
  "small_round cpu rq PT PC st =
    (if rq_NBytes rq < PAGE_SIZE \<or> \<not> untouched used_4KB (pg_mem st) PT (PC_L1 PC) then Some (Inr (PC, st))
     else
       let NPages = ucast (rq_NBytes rq div PAGE_SIZE) in do {
         BASE \<leftarrow> pages_base cpu rq NPages st;
         st \<leftarrow> entry_update PC BASE (ucast NPages) st;
         let st = st\<lparr>pg_mem := fill_table (entry_4KB_for (rq_Flags rq) (rq_Key rq)) PT BASE (PC_L1 PC) (ucast PAGE_SIZE) (pg_mem st)\<rparr>;
         Some (Inl (hand_out rq PAGE_SIZE PC st))
       })"

definition alloc_round :: "page_cpu \<Rightarrow> request \<Rightarrow> PageCoordinate \<Rightarrow> page_sys \<Rightarrow> round_result option" where
  "alloc_round cpu rq PC st =
    (let PC = next_coordinate (c_la57 cpu) (rq_NBytes rq) PC in do {
       (PT, PL) \<leftarrow> walk cpu PC st;
       (if PL \<ge> 4 then upper_round cpu rq PL PT PC st
        else if PL = 3 then huge_round cpu rq PT PC st
        else if PL = 2 then medium_round cpu rq PT PC st
        else small_round cpu rq PT PC st)
     })"

partial_function (option) alloc_loop :: "page_cpu \<Rightarrow> request \<Rightarrow> PageCoordinate \<Rightarrow> page_sys \<Rightarrow> (u64 \<times> page_sys) option" where
  "alloc_loop cpu rq PC st = do {
     r \<leftarrow> alloc_round cpu rq PC st;
     (case r of Inl res \<Rightarrow> Some res | Inr (PC', st') \<Rightarrow> alloc_loop cpu rq PC' st')
   }"

text \<open>With the switch on, pages that the bookkeeping lists as mapped at the base are handed out again.\<close>

definition mapped_before :: "page_cpu \<Rightarrow> request \<Rightarrow> page_sys \<Rightarrow> MemoryRangeSubDescriptor option option" where
  "mapped_before cpu rq st =
    (if c_toggle cpu \<and> QueryPhysicalAddress (rq_Base rq) (pg_alloc st) then do {
       D \<leftarrow> GetDescriptor (rq_Base rq) (pg_alloc st);
       (if D = None then Some None
        else do {
          sd \<leftarrow> GetSubDescriptor (rq_Base rq) (pg_alloc st);
          Some (case sd of
                  None \<Rightarrow> None
                | Some sd \<Rightarrow> if Valid sd \<and> ucast (NoPages sd) \<ge> rq_NBytes rq div PAGE_SIZE then Some sd else None)
        })
     } else Some None)"

definition AllocatePages :: "page_cpu \<Rightarrow> request \<Rightarrow> page_sys \<Rightarrow> (u64 \<times> page_sys) option" where
  "AllocatePages cpu rq st = do {
     before \<leftarrow> mapped_before cpu rq st;
     (case before of
        Some sd \<Rightarrow> map_option (\<lambda>(p, Level). (p, st)) (walk cpu (CoordBaseIndex sd) st)
      | None \<Rightarrow> alloc_loop cpu rq (first_coordinate (c_la57 cpu) (rq_NBytes rq)) st)
   }"

section \<open>Releasing pages\<close>

text \<open>Clearing the two marks of an entry: bits 0 and 9 of an entry for pages.\<close>

definition drop_entry :: "u64 \<Rightarrow> memory \<Rightarrow> memory" where
  "drop_entry PT m = write_u64 PT (read_u64 m PT AND NOT (push_bit 0 1) AND NOT (push_bit 9 1)) m"

partial_function (option) free_loop :: "page_cpu \<Rightarrow> u64 \<Rightarrow> u64 \<Rightarrow> page_sys \<Rightarrow> page_sys option" where
  "free_loop cpu Virtual left st =
    (if left = 0 then Some st
     else do {
       (PT, Level) \<leftarrow> WalkPageTreeByVirtual (pg_mem st) (c_la57 cpu) (c_level5 cpu) (c_root cpu) (map_virtual cpu st) Virtual;
       let st' = st\<lparr>pg_mem := drop_entry PT (pg_mem st)\<rparr>;
       let size = (if Level = 3 then PAGE_SIZE3 else if Level = 2 then PAGE_SIZE2 else PAGE_SIZE);
       (if Level = 3 \<or> Level = 2 \<or> Level = 1
        then free_loop cpu (Virtual + size) (if left > size then left - size else 0) st'
        else free_loop cpu Virtual left st)
     })"

definition FreePages :: "page_cpu \<Rightarrow> u64 \<Rightarrow> page_sys \<Rightarrow> page_sys option" where
  "FreePages cpu Virtual st =
    (if Virtual = 0 then Some st
     else
       let Phys = map_physical cpu st (c_rounddown Virtual PAGE_SIZE) in
       if \<not> QueryPhysicalAddress Phys (pg_alloc st) then Some st
       else do {
         st \<leftarrow> update_table ATUSubDescriptorAllocationType Phys [TypeArg (NOT PATUsedRegion)] st;
         n \<leftarrow> TotalMappedMemory (map_physical cpu st) (pg_alloc st) Virtual;
         free_loop cpu Virtual n st
       })"

text \<open>The coordinate with all fields zero.\<close>

definition no_coordinate :: PageCoordinate where
  "no_coordinate = \<lparr>PC_L1 = 0, EnableL1 = False, PC_L2 = 0, EnableL2 = False, PC_L3 = 0, EnableL3 = False,
     PC_L4 = 0, EnableL4 = False, PC_L5 = 0, EnableL5 = False\<rparr>"

definition RepointVirtualAddress :: "page_cpu \<Rightarrow> u64 \<Rightarrow> u64 \<Rightarrow> page_sys \<Rightarrow> (bool \<times> page_sys) option" where
  "RepointVirtualAddress cpu Virtual NewPhysical st =
    (let Phys = map_physical cpu st Virtual; fields = ATUSubDescriptorAllocationType OR ATUSubDescriptorCoordBaseIndex in
     if \<not> QueryPhysicalAddress Phys (pg_alloc st) then Some (False, st)
     else do {
       D \<leftarrow> GetDescriptor NewPhysical (pg_alloc st);
       (if D = None then Some (False, st)
        else do {
          (out, I1) \<leftarrow> UpdateAllocationTableByPhysical fields Phys
                         [TypeArg (NOT PATUsedRegion), CoordArg no_coordinate] (pg_alloc st);
          (if \<not> out then Some (False, st\<lparr>pg_alloc := I1\<rparr>)
           else do {
             (out, I2) \<leftarrow> UpdateAllocationTableByPhysical fields NewPhysical
                            [TypeArg PATUsedRegion, CoordArg (InitPageCoordinate (c_la57 cpu) (virtual_address Virtual))] I1;
             Some (out, st\<lparr>pg_alloc := I2\<rparr>)
           })
        })
     })"

section \<open>The position of an entry\<close>

lemma sub_index_walk:
  "sub_walk sds a = map_option (map_option (\<lambda>k. sds ! k)) (sub_index sds a)"
  by (induction sds a rule: sub_index.induct) (auto simp: option.map_comp comp_def)

text \<open>The entry found by \<open>GetSubDescriptor\<close> is the one at \<open>sub_position\<close>.\<close>

lemma sub_index_less: "sub_index sds a = Some (Some k) \<Longrightarrow> k < length sds"
  by (induction sds a arbitrary: k rule: sub_index.induct) (auto split: if_splits)

lemma GetSubDescriptor_position:
  assumes "sub_position Phys IState = Some (Some k)"
  obtains pool where "at (SubDescriptors IState) (unat (CurrentSubDescriptorPool IState)) = Some pool"
    "k < length pool" "GetSubDescriptor Phys IState = Some (Some (pool ! k))"
proof -
  obtain D sds j where D: "descriptor_of IState Phys = Some D" "Phys < MemoryMaxPages IState * PAGE_SIZE"
      "SubDescriptorIndex D \<noteq> InvalidSubDescriptorIndex" "pool_from IState (SubDescriptorIndex D) = Some sds"
      "sub_index sds (Phys - Physical D) = Some (Some j)" "k = unat (SubDescriptorIndex D) + j"
    using assms by (auto simp: sub_position_def split: bind_splits if_splits)
  then obtain pool where pool: "at (SubDescriptors IState) (unat (CurrentSubDescriptorPool IState)) = Some pool"
      "sds = drop (unat (SubDescriptorIndex D)) pool" by (auto simp: pool_from_def)
  have "j < length sds" by (rule sub_index_less [OF D(5)])
  then show thesis
    using that [OF pool(1)] D pool by (simp add: GetSubDescriptor_def sub_index_walk)
qed

text \<open>An update of the type of an entry keeps those of its bits that are given, and changes nothing else.  No
  update can therefore mark an entry as used.\<close>

lemma update_type_only:
  assumes "QueryPhysicalAddress Phys IState" "GetDescriptor Phys IState = Some (Some D)"
    and k: "sub_position Phys IState = Some (Some k)"
    and pool: "at (SubDescriptors IState) (unat (CurrentSubDescriptorPool IState)) = Some pool"
  shows "UpdateAllocationTableByPhysical ATUSubDescriptorAllocationType Phys [TypeArg t] IState =
    Some (True, IState\<lparr>SubDescriptors := (SubDescriptors IState)[unat (CurrentSubDescriptorPool IState) :=
      pool[k := (pool ! k)\<lparr>AllocationType := AllocationType (pool ! k) AND t\<rparr>]]\<rparr>)"
proof -
  have less: "k < length pool" using GetSubDescriptor_position [OF k] pool by auto
  then have "drop k pool = pool ! k # drop (Suc k) pool" by (simp add: Cons_nth_drop_Suc)
  moreover have "take k pool @ x # drop (Suc k) pool = pool[k := x]" for x using less by (simp add: upd_conv_take_nth_drop)
  moreover have "flag_check ATUSubDescriptorAllocationType ATUSubDescriptorAllocationType"
    "\<not> flag_check ATUSubDescriptorAllocationType ATUSubDescriptorValid"
    "\<not> flag_check ATUSubDescriptorAllocationType ATUSubDescriptorNoPages"
    "\<not> flag_check ATUSubDescriptorAllocationType ATUSubDescriptorCoordBaseIndex"
    by (simp_all add: flag_check_def ATUSubDescriptorAllocationType_def ATUSubDescriptorValid_def
        ATUSubDescriptorNoPages_def ATUSubDescriptorCoordBaseIndex_def)
  ultimately show ?thesis
    using assms by (simp add: UpdateAllocationTableByPhysical_def update_step_def change_from_def Let_def)
qed

section \<open>Allocation\<close>

lemma small_request_goes_on:
  assumes "rq_NBytes rq < PAGE_SIZE" "alloc_round cpu rq PC st = Some (Inl r)"
  shows False
proof -
  have "rq_NBytes rq < PAGE_SIZE2"
    using assms(1) by (simp add: PAGE_SIZE_def PAGE_SIZE2_def word_less_nat_alt)
  then show False
    using assms by (auto simp: alloc_round_def upper_round_def huge_round_def medium_round_def small_round_def
        Let_def split: bind_splits if_splits)
qed

text \<open>C33: \<open>AllocatePages\<close> never returns from a request for less than a page: no round of its loop hands out
  anything, whatever the page tables hold, and the only way around the loop is closed as long as the
  switch for input addresses is off, as it is at the start.\<close>

theorem AllocatePages_below_page:
  assumes "\<not> c_toggle cpu" and "rq_NBytes rq < PAGE_SIZE"
  shows "AllocatePages cpu rq st = None"
proof -
  have "alloc_loop cpu rq PC s = None" for PC s
  proof (rule ccontr)
    assume "alloc_loop cpu rq PC s \<noteq> None"
    then obtain r where "alloc_loop cpu rq PC s = Some r" by blast
    then have "\<not> rq_NBytes rq < PAGE_SIZE"
      by (rule alloc_loop.raw_induct [where P = "\<lambda>cpu rq PC st r. \<not> rq_NBytes rq < PAGE_SIZE", rotated])
        (auto split: bind_splits sum.splits dest: small_request_goes_on)
    then show False using assms(2) by blast
  qed
  then show ?thesis using assms(1) by (simp add: AllocatePages_def mapped_before_def)
qed

theorem AllocatePages_below_page_witness:
  "AllocatePages \<lparr>c_la57 = False, c_level5 = False, c_root = 0x1000, c_toggle = False, c_stray = id\<rparr>
     \<lparr>rq_Base = 0, rq_NBytes = 64, rq_Flags = 5, rq_Key = 0\<rparr>
     \<lparr>pg_mem = (\<lambda>a. 0), pg_sse = sse_boot, pg_alloc = two_blocks\<rparr> = None"
  by (rule AllocatePages_below_page) (simp_all add: PAGE_SIZE_def)

text \<open>A request for one page or more, below two megabytes, is served from the table that the first
  coordinate leads to, when the rest of that table is untouched: every entry from the first index on is
  filled, and the second page of the address space is handed out.\<close>

lemma AllocatePages_first_page:
  assumes "\<not> c_toggle cpu" "PAGE_SIZE \<le> rq_NBytes rq" "rq_NBytes rq < PAGE_SIZE2"
    and "walk cpu PC st = Some (PT, 1)" "PC = (first_coordinate (c_la57 cpu) (rq_NBytes rq))\<lparr>PC_L1 := 1\<rparr>"
    and "untouched used_4KB (pg_mem st) PT 1"
    and "entry_update PC (rq_Base rq) (ucast (ucast (rq_NBytes rq div PAGE_SIZE) :: u32)) st = Some st1"
  shows "AllocatePages cpu rq st = Some (hand_out rq PAGE_SIZE PC
      (st1\<lparr>pg_mem := fill_table (entry_4KB_for (rq_Flags rq) (rq_Key rq)) PT (rq_Base rq) 1 (ucast PAGE_SIZE) (pg_mem st1)\<rparr>))"
proof -
  have small: "\<not> PAGE_SIZE3 \<le> rq_NBytes rq" "\<not> PAGE_SIZE2 \<le> rq_NBytes rq" "\<not> rq_NBytes rq < PAGE_SIZE"
    using assms(2,3) by (auto simp: PAGE_SIZE2_def PAGE_SIZE3_def word_le_nat_alt word_less_nat_alt)
  have "next_coordinate (c_la57 cpu) (rq_NBytes rq) (first_coordinate (c_la57 cpu) (rq_NBytes rq)) = PC"
    using small assms(5) by (simp add: next_coordinate_def first_coordinate_def Let_def)
  then show ?thesis
    using assms small
    by (subst AllocatePages_def, subst alloc_loop.simps)
      (simp add: mapped_before_def alloc_round_def small_round_def pages_base_def Let_def)
qed

text \<open>The entry holds the address where the frame number belongs: it translates to 4096 times the address.\<close>

lemma entry_not_shifted:
  "shl_field (K_PhysicalAddress (decode_4KB (entry_4KB_for Flags PKey phys))) 12 = ucast (push_bit 12 (ucast phys :: 40 word))"
proof -
  have "K_PhysicalAddress (decode_4KB (encode_4KB e)) = K_PhysicalAddress e" for e by (simp add: entry_4KB_round_trip)
  then show ?thesis by (simp add: entry_4KB_for_def shl_field_def)
qed

section \<open>The sizes of the tables at the start\<close>

text \<open>A range of the firmware's memory map, and the types of ranges with their numbers there.\<close>

record memory_range =
  d_Type :: u32
  d_PhysicalStart :: u64
  d_NumberOfPages :: u64

definition TypeMask0 :: "u32 list" where "TypeMask0 = [5, 6, 9, 10]"
definition TypeMask1 :: "u32 list" where "TypeMask1 = [7, 3, 4, 1]"
definition TypeMask2 :: "u32 list" where "TypeMask2 = [2]"
definition TypeMask3 :: "u32 list" where "TypeMask3 = [0, 12, 11]"

text \<open>\<open>memcheckl\<close> on an array, as \<open>Kernel_Memory\<close> has it in memory: the length given is a number of entries,
  and is divided by four.\<close>

definition memcheck_types :: "u32 list \<Rightarrow> u32 \<Rightarrow> u64 \<Rightarrow> bool option" where
  "memcheck_types arr l n =
    (let n = n div 4 in
     if n = 0 then Some False
     else case at arr (unat n) of None \<Rightarrow> None | Some x \<Rightarrow> if x = l then Some True else None)"

lemma memcheck_types_memory:
  assumes "unat (n div 4) < length arr" and "read_bytes m (p + (n div 4) * 4) 4 = le_bytes 4 (unat (arr ! unat (n div 4)))"
  shows "memcheckl m p l n = memcheck_types arr l n"
proof -
  have "le_nat (read_bytes m (p + (n div 4) * 4) 4) = unat (arr ! unat (n div 4))"
    using assms(2) unsigned_less [of "arr ! unat (n div 4)", where 'a = nat] by (simp add: le_nat_le_bytes)
  then show ?thesis
    using assms(1) by (simp add: memcheckl_def memcheck_types_def memcheck_loop_value at_def Let_def word_eq_iff_unsigned [where 'a = nat])
qed

record sizing =
  TypeContiguous0 :: u64
  TypeContiguous1 :: u64
  TypeContiguous2 :: u64
  TypeContiguous3 :: u64
  SubDescriptorAllocation :: u64
  DescriptorAllocation :: u64

definition sizeof_MemoryRangeDescriptor :: u64 where "sizeof_MemoryRangeDescriptor = 24"

definition range_end :: "memory_range \<Rightarrow> u64" where
  "range_end D = d_PhysicalStart D + d_NumberOfPages D * PAGE_SIZE"

definition count_range :: "memory_range \<Rightarrow> sizing \<Rightarrow> sizing" where
  "count_range D s =
    s\<lparr>TypeContiguous0 := range_end D,
      SubDescriptorAllocation := SubDescriptorAllocation s
        + (if d_NumberOfPages D > PAGE_SIZE2 div PAGE_SIZE then (d_NumberOfPages D * PAGE_SIZE) div PAGE_SIZE2 else d_NumberOfPages D),
      DescriptorAllocation := DescriptorAllocation s + sizeof_MemoryRangeDescriptor\<rparr>"

text \<open>The end of a range is stored for the first class in each of the four branches.\<close>

definition size_step :: "memory_range \<Rightarrow> sizing \<Rightarrow> sizing option" where
  "size_step D s = do {
     b0 \<leftarrow> memcheck_types TypeMask0 (d_Type D) 4;
     (if b0 then
        Some (if TypeContiguous0 s = - 1 then s\<lparr>TypeContiguous0 := range_end D\<rparr>
              else if TypeContiguous0 s \<noteq> d_PhysicalStart D then count_range D s else s)
      else do {
        b1 \<leftarrow> memcheck_types TypeMask1 (d_Type D) 4;
        (if b1 then
           Some (if TypeContiguous1 s = - 1 then s\<lparr>TypeContiguous1 := range_end D\<rparr>
                 else if TypeContiguous1 s \<noteq> d_PhysicalStart D then count_range D s else s)
         else do {
           b2 \<leftarrow> memcheck_types TypeMask2 (d_Type D) 1;
           (if b2 then
              Some (if TypeContiguous2 s = - 1 then s\<lparr>TypeContiguous2 := range_end D\<rparr>
                    else if TypeContiguous2 s \<noteq> d_PhysicalStart D then count_range D s else s)
            else do {
              b3 \<leftarrow> memcheck_types TypeMask3 (d_Type D) 3;
              Some (if b3 then
                      (if TypeContiguous3 s = - 1 then s\<lparr>TypeContiguous3 := range_end D\<rparr>
                       else if TypeContiguous3 s \<noteq> d_PhysicalStart D then count_range D s else s)
                    else s)
            })
         })
      })
   }"

primrec size_ranges :: "memory_range list \<Rightarrow> sizing \<Rightarrow> sizing option" where
  "size_ranges [] s = Some s"
| "size_ranges (D # Ds) s = do { s' \<leftarrow> size_step D s; size_ranges Ds s' }"

definition sizing_start :: sizing where
  "sizing_start = \<lparr>TypeContiguous0 = - 1, TypeContiguous1 = - 1, TypeContiguous2 = - 1, TypeContiguous3 = - 1,
     SubDescriptorAllocation = 0, DescriptorAllocation = 0\<rparr>"

text \<open>The sizes, and the number of pages the tables take.\<close>

definition table_sizes :: "memory_range list \<Rightarrow> u64 \<Rightarrow> (sizing \<times> u64) option" where
  "table_sizes Ds TotalMemory = do {
     s \<leftarrow> size_ranges Ds sizing_start;
     let PhysToIndexAllocation = (TotalMemory div PAGE_SIZE) * 2;
     let Total = SubDescriptorAllocation s + PhysToIndexAllocation + DescriptorAllocation s + 8;
     Some (s, c_roundup Total PAGE_SIZE div PAGE_SIZE)
   }"

lemma type_checks:
  "memcheck_types TypeMask0 l 4 = (if l = 6 then Some True else None)"
  by (simp add: memcheck_types_def TypeMask0_def at_def)

text \<open>The set-up of the page bookkeeping gets past the sizes of its tables only when every range of the
  memory map has the type of runtime data (6).  The search for the type of a range tests one entry of
  the list of types over and over, so that any other range, as every machine has them, keeps it from
  ending; the start of the kernel calls it before anything else is allocated.\<close>

theorem table_sizes_end:
  "(\<exists>r. table_sizes Ds TotalMemory = Some r) \<longleftrightarrow> (\<forall>D \<in> set Ds. d_Type D = 6)"
proof -
  have step: "(\<exists>s'. size_step D s = Some s') \<longleftrightarrow> d_Type D = 6" for D s
    by (simp add: size_step_def type_checks)
  have "(\<exists>r. size_ranges Ds s = Some r) \<longleftrightarrow> (\<forall>D \<in> set Ds. d_Type D = 6)" for s
  proof (induction Ds arbitrary: s)
    case (Cons D Ds)
    then show ?case using step [of D s] by (cases "size_step D s") auto
  qed simp
  from this [of sizing_start] show ?thesis
    by (cases "size_ranges Ds sizing_start") (auto simp: table_sizes_def Let_def)
qed

theorem table_sizes_end_witness:
  "table_sizes [\<lparr>d_Type = 7, d_PhysicalStart = 0, d_NumberOfPages = 160\<rparr>] 0x100000 = None
    \<and> (\<exists>r. table_sizes [\<lparr>d_Type = 6, d_PhysicalStart = 0, d_NumberOfPages = 160\<rparr>] 0x100000 = Some r)"
  using table_sizes_end [of "[\<lparr>d_Type = 7, d_PhysicalStart = 0, d_NumberOfPages = 160\<rparr>]" "0x100000"]
    table_sizes_end [of "[\<lparr>d_Type = 6, d_PhysicalStart = 0, d_NumberOfPages = 160\<rparr>]" "0x100000"]
  by (cases "table_sizes [\<lparr>d_Type = 7, d_PhysicalStart = 0, d_NumberOfPages = 160\<rparr>] 0x100000") auto

end
