(* ===== verification/Kernel_Atapi.thy ===== *)
theory Kernel_Atapi
  imports Kernel_Pcie
begin

text \<open>
  The ATAPI driver (\<^verbatim>\<open>services/IO/controllers/ATAPI.h\<close>, \<^verbatim>\<open>_ATAPI.h\<close>): the ports of a controller, the
  queues of its two channels, the packets sent to a drive, the descriptor tables of its bus master and the
  transfer of sectors.  The drive is reached through the port instructions only; they are an argument of the
  definitions, functions on the state of the drive.  A loop on the status of a drive may run for ever, so it
  returns an option; a division by zero is \<open>None\<close> too.
\<close>

section \<open>Ports and queues\<close>

definition ATAPIPrimaryCommandPort :: u32 where "ATAPIPrimaryCommandPort = 0x1F0"
definition ATAPISecondaryCommandPort :: u32 where "ATAPISecondaryCommandPort = 0x170"
definition ATAPI_CONTROL :: u32 where "ATAPI_CONTROL = 0x206"
definition ATAPIPrimaryControlPort :: u32 where "ATAPIPrimaryControlPort = ATAPIPrimaryCommandPort + ATAPI_CONTROL"
definition ATAPISecondaryControlPort :: u32 where "ATAPISecondaryControlPort = ATAPISecondaryCommandPort + ATAPI_CONTROL"

record ata_ports =
  nativemode :: u32
  pcommand :: u32
  pcontrol :: u32
  scommand :: u32
  scontrol :: u32
  bmba :: u32

definition PrimaryChannelMode :: "memory \<Rightarrow> u64 \<Rightarrow> bool" where
  "PrimaryChannelMode m device = bit (m (device + 9)) 0"

text \<open>\<open>ATAPIPort\<close> passes pointers to six variables and no pointer for the vectors.\<close>

definition ATAPIGetPorts :: "memory \<Rightarrow> u64 \<Rightarrow> ata_ports \<Rightarrow> ata_ports" where
  "ATAPIGetPorts m device p =
    (if device \<noteq> 0 \<and> header_Type m device \<noteq> PCIGeneralDevice then p
     else
       let p = (if device \<noteq> 0 \<and> PrimaryChannelMode m device
                then p\<lparr>pcommand := read_u32 m (bar_at device 0), pcontrol := read_u32 m (bar_at device 1),
                       scommand := read_u32 m (bar_at device 2), scontrol := read_u32 m (bar_at device 3),
                       bmba := read_u32 m (bar_at device 4), nativemode := 1\<rparr>
                else p)
       in p\<lparr>pcommand := ATAPIPrimaryCommandPort, pcontrol := ATAPIPrimaryControlPort,
            scommand := ATAPISecondaryCommandPort, scontrol := ATAPISecondaryControlPort,
            nativemode := 0, bmba := 0\<rparr>)"

record ATAPIQueue =
  Secondary :: bool
  Primary :: bool
  Slave :: bool

definition ATAPIGetQueue :: "bool \<Rightarrow> u32 \<Rightarrow> ATAPIQueue" where
  "ATAPIGetQueue slave Channel =
    \<lparr>Secondary = (Channel = 1 \<or> Channel = 3), Primary = (Channel = 0 \<or> Channel = 3), Slave = slave\<rparr>"

text \<open>The queue that \<open>GetMassStorageQueue\<close> takes after the one a handle holds.\<close>

definition next_channel :: "ATAPIQueue \<Rightarrow> u8" where
  "next_channel q =
    (let ch = of_bool (Primary q) + of_bool (Secondary q) + of_bool (Primary q \<and> Secondary q) + 1
     in if ch > 3 then 0 else ch)"

definition next_queue :: "ATAPIQueue \<Rightarrow> ATAPIQueue" where
  "next_queue q = ATAPIGetQueue (\<not> Slave q) (ucast (next_channel q))"

text \<open>The channel that \<open>GetMassStorageData\<close> and \<open>StoreMassStorageData\<close> select for a queue.\<close>

definition queue_select :: "ATAPIQueue \<Rightarrow> u8" where
  "queue_select q = of_bool (Primary q) + of_bool (Secondary q)"

section \<open>The port instructions\<close>

record 'd port_io =
  inb :: "u16 \<Rightarrow> 'd \<Rightarrow> u8 \<times> 'd"
  outb :: "u16 \<Rightarrow> u8 \<Rightarrow> 'd \<Rightarrow> 'd"
  inw :: "u16 \<Rightarrow> 'd \<Rightarrow> u16 \<times> 'd"
  outw :: "u16 \<Rightarrow> u16 \<Rightarrow> 'd \<Rightarrow> 'd"
  outl :: "u16 \<Rightarrow> u32 \<Rightarrow> 'd \<Rightarrow> 'd"

fun words_of :: "bytes \<Rightarrow> u16 list" where
  "words_of (a # b # bs) = (ucast a OR push_bit 8 (ucast b)) # words_of bs"
| "words_of bs = []"

definition outsw :: "'d port_io \<Rightarrow> u16 \<Rightarrow> u16 list \<Rightarrow> 'd \<Rightarrow> 'd" where
  "outsw io p ws d = fold (outw io p) ws d"

fun insw :: "'d port_io \<Rightarrow> u16 \<Rightarrow> u64 \<Rightarrow> nat \<Rightarrow> memory \<times> 'd \<Rightarrow> memory \<times> 'd" where
  "insw io p a 0 (m, d) = (m, d)"
| "insw io p a (Suc n) (m, d) =
    (let (w, d) = inw io p d in insw io p (a + 2) n (write_bytes m a (le_bytes 2 (unat w)), d))"

definition ATAPI_DATA :: u32 where "ATAPI_DATA = 0"
definition ATAPI_ERROR_R :: u32 where "ATAPI_ERROR_R = 1"
definition ATAPI_LBA_MID :: u32 where "ATAPI_LBA_MID = 4"
definition ATAPI_LBA_HIGH :: u32 where "ATAPI_LBA_HIGH = 5"
definition ATAPI_DRIVE_SELECT :: u32 where "ATAPI_DRIVE_SELECT = 6"
definition ATAPI_COMMAND_REGISTER :: u32 where "ATAPI_COMMAND_REGISTER = 7"
definition ATAPI_READ_CAPACITY :: u8 where "ATAPI_READ_CAPACITY = 0x25"
definition ATAPI_REPORT_LUNS :: u8 where "ATAPI_REPORT_LUNS = 0xA0"
definition ATAPI_READ12 :: u8 where "ATAPI_READ12 = 0xA8"
definition ATAPI_WRITE12 :: u8 where "ATAPI_WRITE12 = 0xAA"

text \<open>Waiting for the drive: \<open>False\<close> when it reports an error, \<open>True\<close> when it is ready for data.\<close>

partial_function (option) wait_ready :: "'d port_io \<Rightarrow> u16 \<Rightarrow> 'd \<Rightarrow> (bool \<times> 'd) option" where
  "wait_ready io p d =
    (case inb io p d of (status, d') \<Rightarrow>
       if status AND 1 = 1 then Some (False, d')
       else if status AND 0x80 = 0 \<and> status AND 8 \<noteq> 0 then Some (True, d')
       else wait_ready io p d')"

section \<open>The size of a sector\<close>

text \<open>The command is an array of twelve bytes, of which \<open>__outsw\<close> is told to send twelve words: \<open>after\<close>
  are the twelve bytes that follow it in memory.\<close>

definition sizeof_ATAPICommand :: nat where "sizeof_ATAPICommand = 12"

definition drive_select :: "bool \<Rightarrow> u8" where
  "drive_select slave = ATAPI_REPORT_LUNS OR push_bit 4 (of_bool slave)"

definition sector_size_of :: "u16 \<Rightarrow> u16 \<Rightarrow> u32" where
  "sector_size_of w2 w3 =
    (let raw = le_bytes 2 (unat w2) @ le_bytes 2 (unat w3)
     in push_bit 24 (ucast (raw ! 0)) OR push_bit 16 (ucast (raw ! 1)) OR push_bit 8 (ucast (raw ! 2)) OR ucast (raw ! 3))"

definition SectorSize_of_drive :: "'d port_io \<Rightarrow> bool \<Rightarrow> u32 \<Rightarrow> u32 \<Rightarrow> bytes \<Rightarrow> 'd \<Rightarrow> (u32 \<times> 'd) option" where
  "SectorSize_of_drive io slave cmd ctrl after d = do {
     (ready, d) \<leftarrow> wait_ready io (ucast cmd) d;
     (if \<not> ready then Some (0, d)
      else do {
        let d = outb io (ucast (cmd + ATAPI_DRIVE_SELECT)) (drive_select slave) d;
        let rcmd = ATAPI_READ_CAPACITY # replicate 11 0;
        let d = outsw io (ucast (cmd + ATAPI_DATA)) (take sizeof_ATAPICommand (words_of (rcmd @ after))) d;
        (ready, d) \<leftarrow> wait_ready io (ucast ctrl) d;
        (if \<not> ready then Some (0, d)
         else
           let (w0, d) = inw io (ucast (cmd + ATAPI_DATA)) d;
               (w1, d) = inw io (ucast (cmd + ATAPI_DATA)) d;
               (w2, d) = inw io (ucast (cmd + ATAPI_DATA)) d;
               (w3, d) = inw io (ucast (cmd + ATAPI_DATA)) d
           in Some (sector_size_of w2 w3, d))
      })
   }"

section \<open>Descriptor tables of the bus master\<close>

record PRDTEntry =
  PhysicalAddress :: u32
  Bytes :: u16
  EndOfTable :: bool

definition prd_bytes :: "PRDTEntry \<Rightarrow> bytes" where
  "prd_bytes e = le_bytes 4 (unat (PhysicalAddress e)) @ le_bytes 2 (unat (Bytes e)) @
     [0, push_bit 7 (of_bool (EndOfTable e))]"

text \<open>The loops of the two transfers over the buffer, for reading and for writing.\<close>

function read_prd :: "u32 \<Rightarrow> u64 \<Rightarrow> PRDTEntry list" where
  "read_prd n tempbf =
    (if n = 0 then []
     else \<lparr>PhysicalAddress = ucast tempbf, Bytes = (if n \<ge> 65536 then 0 else ucast n), EndOfTable = (n \<noteq> 0)\<rparr>
          # read_prd (if n < 65536 then 0 else n - 65536) (tempbf + (if n < 65536 then 0 else ucast (n - 65536))))"
  by pat_completeness auto
termination
  by (relation "measure (unat \<circ> fst)")
     (auto simp: unat_gt_0 unat_sub_small word_le_nat_alt word_less_nat_alt split: if_splits)

declare read_prd.simps [simp del]

function write_prd :: "u32 \<Rightarrow> u64 \<Rightarrow> PRDTEntry list" where
  "write_prd n tempbf =
    (if n = 0 then []
     else let chunk = (if n \<ge> 65536 then 0 else n);
              step = (if n \<ge> 65536 then 65536 else n)
          in \<lparr>PhysicalAddress = ucast tempbf, Bytes = ucast chunk, EndOfTable = (n \<le> 65536)\<rparr>
             # write_prd (n - step) (tempbf + ucast step))"
  by pat_completeness auto
termination
  by (relation "measure (unat \<circ> fst)")
     (auto simp: unat_gt_0 unat_sub_small word_le_nat_alt word_less_nat_alt split: if_splits)

declare write_prd.simps [simp del]

text \<open>What the bus master transfers with a table: entry after entry until the last one, the byte count 0
  standing for 65536 bytes.\<close>

fun prd_transfer :: "PRDTEntry list \<Rightarrow> (nat \<times> nat) list" where
  "prd_transfer [] = []"
| "prd_transfer (e # es) =
    (unat (PhysicalAddress e), if Bytes e = 0 then 65536 else unat (Bytes e))
    # (if EndOfTable e then [] else prd_transfer es)"

definition addresses :: "(nat \<times> nat) list \<Rightarrow> nat list" where
  "addresses rs = concat (map (\<lambda>(a, n). [a..<a + n]) rs)"

section \<open>Transfers\<close>

definition ata_packet :: "u8 \<Rightarrow> u32 \<Rightarrow> u32 \<Rightarrow> bytes" where
  "ata_packet command lba sectors =
    [command, 0, ucast (drop_bit 24 lba), ucast (drop_bit 16 lba), ucast (drop_bit 8 lba), ucast lba,
     ucast (drop_bit 24 sectors), ucast (drop_bit 16 sectors), ucast (drop_bit 8 sectors), ucast sectors, 0, 0]"

definition start_packet :: "'d port_io \<Rightarrow> bool \<Rightarrow> u32 \<Rightarrow> 'd \<Rightarrow> 'd" where
  "start_packet io slave cmd d =
    (let d = outb io (ucast (cmd + ATAPI_DRIVE_SELECT)) (drive_select slave) d;
         d = outb io (ucast (cmd + ATAPI_ERROR_R)) 0 d;
         d = outb io (ucast (cmd + ATAPI_LBA_MID)) (ucast (2048 AND 0xFF :: u32)) d;
         d = outb io (ucast (cmd + ATAPI_LBA_HIGH)) (ucast (drop_bit 8 2048 :: u32)) d
     in outb io (ucast (cmd + ATAPI_COMMAND_REGISTER)) ATAPI_REPORT_LUNS d)"

text \<open>The words to move for a sector, from the count that the drive gives in two registers: \<open>/\<close> binds
  tighter than \<open>|\<close> in the expression of the read.\<close>

definition read_words :: "u8 \<Rightarrow> u8 \<Rightarrow> u32" where
  "read_words high mid = push_bit 8 (ucast high) OR (ucast mid div 2)"

definition write_words :: "u8 \<Rightarrow> u8 \<Rightarrow> u32" where
  "write_words high mid = (push_bit 8 (ucast high) OR ucast mid) div 2"

text \<open>The sectors \<open>i\<close> to \<open>sectors - 1\<close> by programmed transfers; \<open>base\<close> is \<open>MapPhysical(buffer)\<close>.\<close>

fun pio_read :: "'d port_io \<Rightarrow> u32 \<Rightarrow> u32 \<Rightarrow> u64 \<Rightarrow> nat list \<Rightarrow> memory \<times> 'd \<Rightarrow> (bool \<times> memory \<times> 'd) option" where
  "pio_read io cmd ctrl base [] (m, d) = Some (True, m, d)"
| "pio_read io cmd ctrl base (i # is) (m, d) = do {
     (ready, d) \<leftarrow> wait_ready io (ucast ctrl) d;
     (if \<not> ready then Some (False, m, d)
      else
        let (high, d) = inb io (ucast (cmd + ATAPI_LBA_HIGH)) d;
            (mid, d) = inb io (ucast (cmd + ATAPI_LBA_MID)) d
        in pio_read io cmd ctrl base is
             (insw io (ucast (cmd + ATAPI_DATA)) (base + ucast (of_nat i * 0x800 :: u32)) (unat (read_words high mid)) (m, d)))
   }"

fun pio_write :: "'d port_io \<Rightarrow> u32 \<Rightarrow> u32 \<Rightarrow> u64 \<Rightarrow> memory \<Rightarrow> nat list \<Rightarrow> 'd \<Rightarrow> (bool \<times> 'd) option" where
  "pio_write io cmd ctrl base m [] d = Some (True, d)"
| "pio_write io cmd ctrl base m (i # is) d = do {
     (ready, d) \<leftarrow> wait_ready io (ucast ctrl) d;
     (if \<not> ready then Some (False, d)
      else
        let (high, d) = inb io (ucast (cmd + ATAPI_LBA_HIGH)) d;
            (mid, d) = inb io (ucast (cmd + ATAPI_LBA_MID)) d
        in pio_write io cmd ctrl base m is
             (outsw io (ucast (cmd + ATAPI_DATA))
                (words_of (read_bytes m (base + ucast (of_nat i * 0x800 :: u32)) (2 * unat (write_words high mid)))) d))
   }"

text \<open>\<open>desc\<close> is what \<open>descinfo\<close> says of the buffer (is the descriptor free, how many bytes has the block),
  \<open>mode\<close> and \<open>bm\<close> are the variables of \<open>ATAPIPort\<close>, \<open>bf\<close> the pages allocated for the table and \<open>phys\<close> the
  function \<open>MapPhysical\<close>.\<close>

record atapi_env =
  desc :: "bool \<times> u64"
  mode :: u32
  bm :: u32
  bf :: u64
  phys :: "u64 \<Rightarrow> u64"
  after :: bytes

definition ReadRaw_drive ::
  "'d port_io \<Rightarrow> atapi_env \<Rightarrow> bool \<Rightarrow> u32 \<Rightarrow> u32 \<Rightarrow> u32 \<Rightarrow> u32 \<Rightarrow> u64 \<Rightarrow> memory \<times> 'd \<Rightarrow> (u32 \<times> memory \<times> 'd) option" where
  "ReadRaw_drive io env slave cmd ctrl start nbytes buffer md =
    (case md of (m, d) \<Rightarrow>
     if fst (desc env) \<and> snd (desc env) < ucast nbytes then Some (nbytes, m, d)
     else do {
       (SectorSize, d) \<leftarrow> SectorSize_of_drive io slave cmd ctrl (after env) d;
       (if SectorSize = 0 then None
        else do {
          let lba = start div SectorSize;
          let sectors = nbytes div SectorSize + of_bool (nbytes mod SectorSize \<noteq> 0);
          let d = start_packet io slave cmd d;
          (ready, d) \<leftarrow> wait_ready io (ucast cmd) d;
          (if \<not> ready then Some (1, m, d)
           else do {
             let (m, d) =
               (if mode env \<noteq> 0
                then let d = outl io (ucast (bm env + 4)) (ucast (phys env (bf env))) d;
                         m = write_bytes m (bf env) (concat (map prd_bytes (read_prd nbytes (phys env buffer))))
                     in (m, outb io (ucast (bm env)) 9 d)
                else (m, d));
             let d = outsw io (ucast (cmd + ATAPI_DATA))
                       (take sizeof_ATAPICommand (words_of (ata_packet ATAPI_READ12 lba sectors @ after env))) d;
             (if mode env \<noteq> 0 then Some (0, m, d)
              else do {
                (moved, m, d) \<leftarrow> pio_read io cmd ctrl (phys env buffer) [0..<unat sectors] (m, d);
                Some (if moved then 0 else 1, m, d)
              })
           })
        })
     })"

definition WriteRaw_drive ::
  "'d port_io \<Rightarrow> atapi_env \<Rightarrow> bool \<Rightarrow> u32 \<Rightarrow> u32 \<Rightarrow> u32 \<Rightarrow> u32 \<Rightarrow> u64 \<Rightarrow> memory \<times> 'd \<Rightarrow> (u32 \<times> memory \<times> 'd) option" where
  "WriteRaw_drive io env slave cmd ctrl start nbytes buffer md =
    (case md of (m, d) \<Rightarrow>
     if fst (desc env) \<and> snd (desc env) < ucast nbytes then Some (nbytes, m, d)
     else do {
       (SectorSize, d) \<leftarrow> SectorSize_of_drive io slave cmd ctrl (after env) d;
       (if SectorSize = 0 then None
        else do {
          let lba = start div SectorSize;
          let sectors = nbytes div SectorSize;
          let d = start_packet io slave cmd d;
          (ready, d) \<leftarrow> wait_ready io (ucast cmd) d;
          (if \<not> ready then Some (1, m, d)
           else do {
             let (m, d) =
               (if mode env \<noteq> 0
                then let d = outl io (ucast (bm env + 4)) (ucast (phys env (bf env))) d;
                         m = write_bytes m (bf env) (concat (map prd_bytes (write_prd nbytes (phys env buffer))))
                     in (m, outb io (ucast (bm env)) 1 d)
                else (m, d));
             let d = outsw io (ucast (cmd + ATAPI_DATA))
                       (take sizeof_ATAPICommand (words_of (ata_packet ATAPI_WRITE12 lba sectors @ after env))) d;
             (if mode env \<noteq> 0 then Some (0, m, d)
              else do {
                (moved, d) \<leftarrow> pio_write io cmd ctrl (phys env buffer) m [0..<unat sectors] d;
                Some (if moved then 0 else 1, m, d)
              })
           })
        })
     })"

text \<open>The transfers on a queue: \<open>select\<close> is the channel; the bytes not moved are returned when the queue is
  not the one of that channel.  The mutex that \<open>UpdateATAPIInterruptStackHeader\<close> hands to the interrupt is left out.\<close>

definition ATAPIReadRaw ::
  "'d port_io \<Rightarrow> atapi_env \<Rightarrow> ata_ports \<Rightarrow> ATAPIQueue \<Rightarrow> u8 \<Rightarrow> u32 \<Rightarrow> u32 \<Rightarrow> u64 \<Rightarrow> memory \<times> 'd \<Rightarrow> (u32 \<times> memory \<times> 'd) option" where
  "ATAPIReadRaw io env p q select start nbytes buffer md =
    (if select = 0 \<and> Primary q then ReadRaw_drive io env (Slave q) (pcommand p) (pcontrol p) start nbytes buffer md
     else if select = 1 \<and> Secondary q then ReadRaw_drive io env (Slave q) (scommand p) (scontrol p) start nbytes buffer md
     else Some (nbytes, md))"

definition ATAPIWriteRaw ::
  "'d port_io \<Rightarrow> atapi_env \<Rightarrow> ata_ports \<Rightarrow> ATAPIQueue \<Rightarrow> u8 \<Rightarrow> u32 \<Rightarrow> u32 \<Rightarrow> u64 \<Rightarrow> memory \<times> 'd \<Rightarrow> (u32 \<times> memory \<times> 'd) option" where
  "ATAPIWriteRaw io env p q select start nbytes buffer md =
    (if select = 0 \<and> Primary q then WriteRaw_drive io env (Slave q) (pcommand p) (pcontrol p) start nbytes buffer md
     else if select = 1 \<and> Secondary q then WriteRaw_drive io env (Slave q) (scommand p) (scontrol p) start nbytes buffer md
     else Some (nbytes, md))"

text \<open>The state of a transfer, asked of the bus master and the drive: 0 when it is over, 1 while it lasts, 2
  after an error.\<close>

definition ATATPITransferOngoing :: "'d port_io \<Rightarrow> u16 \<Rightarrow> u16 \<Rightarrow> 'd \<Rightarrow> u8 \<times> 'd" where
  "ATATPITransferOngoing io port pcmd d =
    (let (bm_status, d) = inb io (port + 2) d in
     if bm_status AND 2 \<noteq> 0 then (2, outb io port 0 (outb io (port + 2) (bm_status OR 2) d))
     else if bm_status AND 4 \<noteq> 0 then
       let d = outb io port 0 (outb io (port + 2) (bm_status OR 4) d);
           (status, d) = inb io pcmd d
       in (if status AND 0x80 = 0 \<and> status AND 8 = 0 then 0 else 1, d)
     else (1, d))"

section \<open>What the driver guarantees\<close>

text \<open>Native mode is never seen: whatever the controller says, the ports are those of compatibility mode,
  so a transfer never takes the branch of the bus master.\<close>

lemma ATAPIGetPorts_legacy:
  "device = 0 \<or> header_Type m device = PCIGeneralDevice \<Longrightarrow>
     ATAPIGetPorts m device p =
       \<lparr>nativemode = 0, pcommand = 0x1F0, pcontrol = 0x3F6, scommand = 0x170, scontrol = 0x376, bmba = 0\<rparr>"
  by (auto simp: ATAPIGetPorts_def Let_def ATAPIPrimaryCommandPort_def ATAPISecondaryCommandPort_def
      ATAPIPrimaryControlPort_def ATAPISecondaryControlPort_def ATAPI_CONTROL_def)

text \<open>After a queue of one channel comes the queue of none, on which every transfer moves nothing.\<close>

lemma next_queue_of_one_channel:
  "Primary q \<noteq> Secondary q \<Longrightarrow> next_queue q = \<lparr>Secondary = False, Primary = False, Slave = \<not> Slave q\<rparr>"
  by (auto simp: next_queue_def next_channel_def ATAPIGetQueue_def Let_def)

lemma ATAPIReadRaw_no_channel:
  "\<not> Primary q \<Longrightarrow> \<not> Secondary q \<Longrightarrow> ATAPIReadRaw io env p q select start nbytes buffer md = Some (nbytes, md)"
  by (simp add: ATAPIReadRaw_def)

text \<open>The size of a sector is read as the four bytes of the answer, most significant first.\<close>

lemma sector_size_big_endian:
  "sector_size_of (ucast a OR push_bit 8 (ucast b)) (ucast c OR push_bit 8 (ucast d)) =
     push_bit 24 (ucast (a :: u8)) OR push_bit 16 (ucast (b :: u8)) OR push_bit 8 (ucast (c :: u8)) OR ucast (d :: u8)"
proof -
  have "le_bytes 2 (unat (ucast x OR push_bit 8 (ucast y) :: u16)) = [x, y]" for x y :: u8
    by (subst le_bytes_word)
       (auto simp: upt_rec bit_eq_iff bit_simps dest: bit_imp_le_length)
  then show ?thesis by (simp add: sector_size_of_def)
qed


text \<open>A queue of the primary channel is never served: the channel selected for it is 1 or 2.\<close>

lemma primary_channel_unreachable:
  "Primary q \<Longrightarrow> ATAPIReadRaw io env p q (queue_select q) start nbytes buffer md = Some (nbytes, md)"
  "Primary q \<Longrightarrow> ATAPIWriteRaw io env p q (queue_select q) start nbytes buffer md = Some (nbytes, md)"
  by (simp_all add: ATAPIReadRaw_def ATAPIWriteRaw_def queue_select_def)

text \<open>A drive that reports an error when it is asked for the size of a sector: the size is 0, and the
  transfer divides by it.\<close>

lemma SectorSize_of_drive_error:
  "inb io (ucast cmd) d = (s, d') \<Longrightarrow> s AND 1 = 1 \<Longrightarrow> SectorSize_of_drive io slave cmd ctrl aft d = Some (0, d')"
  by (simp add: SectorSize_of_drive_def wait_ready.simps)

lemma ReadRaw_drive_error:
  assumes "inb io (ucast cmd) d = (s, d')" "s AND 1 = 1" "\<not> (fst (desc env) \<and> snd (desc env) < ucast nbytes)"
  shows "ReadRaw_drive io env slave cmd ctrl start nbytes buffer (m, d) = None"
  using assms(3) by (simp add: ReadRaw_drive_def SectorSize_of_drive_error [OF assms(1,2)])

text \<open>The address of a transfer is in the bytes 2 to 5 of the packet and its length in the bytes 6 to 9, both
  with the most significant byte first.\<close>

lemma rev_le_bytes_4:
  "rev (le_bytes 4 (unat (v :: u32))) = [ucast (drop_bit 24 v), ucast (drop_bit 16 v), ucast (drop_bit 8 v), ucast v]"
  by (subst le_bytes_word) (simp add: upt_rec)

lemma ata_packet_fields:
  "take 4 (drop 2 (ata_packet c lba sectors)) = rev (le_bytes 4 (unat lba))"
  "take 4 (drop 6 (ata_packet c lba sectors)) = rev (le_bytes 4 (unat sectors))"
  by (simp_all add: ata_packet_def rev_le_bytes_4)

text \<open>For a sector of 2048 bytes the read moves 2048 words, twice what the drive offers, and the write 1024.\<close>

lemma words_of_a_sector: "read_words 8 0 = 2048" "write_words 8 0 = 1024"
  by (simp_all add: read_words_def write_words_def)

text \<open>The table of a read ends with its first entry: at most 65536 bytes are transferred.\<close>

lemma unat_ucast_small:
  "unat (x :: 'a::len word) < 2 ^ LENGTH('b) \<Longrightarrow> unat (ucast x :: 'b::len word) = unat x"
  by (simp add: unsigned_ucast_eq take_bit_nat_eq_self)

lemma ucast_u16:
  assumes "unat (n :: u32) < 65536" "n \<noteq> 0"
  shows "unat (ucast n :: u16) = unat n" "(ucast n :: u16) \<noteq> 0"
proof -
  show u: "unat (ucast n :: u16) = unat n" using assms(1) by (simp add: unat_ucast_small)
  from assms(2) have "unat n \<noteq> 0" by (simp add: unat_eq_zero)
  with u show "(ucast n :: u16) \<noteq> 0" by (metis unat_0)
qed

lemma read_prd_one_entry:
  assumes "n \<noteq> 0"
  shows "prd_transfer (read_prd n a) = [(unat (ucast a :: u32), min (unat n) 65536)]"
proof (cases "n \<ge> 65536")
  case True
  with assms show ?thesis by (subst read_prd.simps) (simp add: word_le_nat_alt)
next
  case False
  then have n: "unat n < 65536" by (simp add: word_le_nat_alt)
  with False assms show ?thesis by (subst read_prd.simps) (simp add: ucast_u16)
qed

lemma write_prd_step:
  assumes "n > 65536"
  shows "write_prd n a = \<lparr>PhysicalAddress = ucast a, Bytes = 0, EndOfTable = False\<rparr> # write_prd (n - 65536) (a + 65536)"
  using assms by (subst write_prd.simps) (auto simp: Let_def)

lemma write_prd_last:
  assumes "n \<noteq> 0" "n \<le> 65536"
  shows "prd_transfer (write_prd n a) = [(unat (ucast a :: u32), unat n)]"
proof (cases "n = 65536")
  case True
  then show ?thesis by (subst write_prd.simps) simp
next
  case False
  with assms(2) have "n < 65536" by simp
  then have n: "unat n < 65536" "\<not> n \<ge> 65536" by (simp_all add: word_less_nat_alt not_le)
  with assms show ?thesis by (subst write_prd.simps) (simp add: Let_def ucast_u16)
qed

text \<open>C34: the table that a write gives to the bus master covers the buffer: for a buffer below 4 GB the entries
  up to the one marked as the last stand for its addresses, each once and in their order, however long it
  is.\<close>

theorem write_prd_covers:
  assumes "n \<noteq> 0" and "unat a + unat n \<le> 2 ^ 32"
  shows "addresses (prd_transfer (write_prd n a)) = [unat a..<unat a + unat n]"
  using assms
proof (induction n a rule: write_prd.induct)
  case (1 n a)
  then have "0 < unat n" by (simp add: unat_gt_0)
  with "1.prems" have "unat a < 2 ^ 32" by linarith
  then have a: "unat (ucast a :: u32) = unat a" by (simp add: unat_ucast_small)
  show ?case
  proof (cases "n \<le> 65536")
    case True
    with 1 a show ?thesis by (simp add: write_prd_last addresses_def)
  next
    case False
    then have n: "unat n > 65536" "n > 65536" by (simp_all add: word_less_nat_alt not_le)
    then have d: "unat (n - 65536) = unat n - 65536" by (simp add: unat_sub_small)
    have s: "unat (a + 65536) = unat a + 65536" using "1.prems"(2) n(1) by (subst unat_add_small) simp_all
    have nz: "n - 65536 \<noteq> 0" and ge: "65536 \<le> n" using n(2) by auto
    have "addresses (prd_transfer (write_prd (n - 65536) (a + 65536))) = [unat a + 65536..<unat a + unat n]"
      using "1.IH" [OF "1.prems"(1) refl refl] nz "1.prems"(2) n by (simp add: d s ge)
    with n a show ?thesis
      by (simp add: write_prd_step addresses_def upt_split [of "unat a" "unat a + 65536" "unat a + unat n"])
  qed
qed

theorem write_prd_covers_witness:
  "addresses (prd_transfer (write_prd 150000 65536)) = [65536..<215536]"
  using write_prd_covers [of 150000 65536] by (simp del: upt_rec_numeral)

end
