(* ===== verification/Kernel_Storage.thy ===== *)
theory Kernel_Storage
  imports Kernel_Atapi Kernel_Timer
begin

text \<open>
  The storage service (\<^verbatim>\<open>services/IO/IO.c\<close>) and the command tables of the AHCI driver
  (\<^verbatim>\<open>services/IO/controllers/AHCI.h\<close>): the choice of the driver for a device, reading and writing through a
  temporary block, and the handles that read and write whole blocks of a partition.  What a driver moves
  between its device and the temporary block is an argument, as is the effect of the interrupts while the
  code waits for a mutex (\<open>None\<close> when the wait never ends).  The addresses of allocated blocks are arguments.
\<close>

section \<open>Drivers\<close>

datatype driver = AHCI | NVMe | ATAPI

definition MassStorage_SATA_AHCI :: bytes where "MassStorage_SATA_AHCI = [0x01, 0x06, 0x01]"
definition MassStorage_NVMe_NVMHCI :: bytes where "MassStorage_NVMe_NVMHCI = [0x01, 0x08, 0x01]"
definition MassStorage_NVMe_Express :: bytes where "MassStorage_NVMe_Express = [0x02, 0x08, 0x01]"
definition MassStorage_NVMe_Other :: bytes where "MassStorage_NVMe_Other = [0x80, 0x08, 0x01]"
definition MassStorage_IDE_NativeBusMaster :: bytes where "MassStorage_IDE_NativeBusMaster = [0x85, 0x01, 0x01]"
definition MassStorage_IDE_BothNativeBusMaster :: bytes where "MassStorage_IDE_BothNativeBusMaster = [0x8A, 0x01, 0x01]"

definition driver_of :: "bytes \<Rightarrow> driver option" where
  "driver_of Device =
    (if Device = MassStorage_SATA_AHCI then Some AHCI
     else if Device = MassStorage_NVMe_NVMHCI \<or> Device = MassStorage_NVMe_Express \<or> Device = MassStorage_NVMe_Other then Some NVMe
     else if Device = MassStorage_IDE_NativeBusMaster \<or> Device = MassStorage_IDE_BothNativeBusMaster then Some ATAPI
     else None)"

text \<open>\<open>fetch\<close> gives the bytes that a driver puts into the block it is handed, for a queue, a position and a
  number of bytes; \<open>deliver\<close> takes the bytes it finds there.\<close>

record 'd drivers =
  fetch :: "driver \<Rightarrow> u64 \<Rightarrow> u64 \<Rightarrow> u64 \<Rightarrow> 'd \<Rightarrow> bytes \<times> 'd"
  deliver :: "driver \<Rightarrow> u64 \<Rightarrow> u64 \<Rightarrow> bytes \<Rightarrow> 'd \<Rightarrow> 'd"
  waiting :: "memory \<Rightarrow> memory option"

record 'd storage =
  smem :: memory
  ssse :: sse_state
  sdev :: 'd

definition MutexPoll :: "(memory \<Rightarrow> memory option) \<Rightarrow> u64 \<Rightarrow> memory \<Rightarrow> memory option" where
  "MutexPoll wait Mtx m =
    (if Mtx \<noteq> 0 \<and> flag_check (m Mtx) MutexDisableFlag then map_option (LockMutex Mtx) (wait m)
     else Some (LockMutex Mtx m))"

text \<open>The size of a block: what the device says of itself is in \<open>ata_identity\<close>.  The handle of an ATAPI
  device is compared with two values that no handle has; the function then ends without a value.\<close>

record ata_identity =
  field_validity :: u16
  multi_sector_setting :: u16
  LBADataSize :: u8
  atapi_sizes :: "u64 option"

definition ahci_sector_size :: "ata_identity \<Rightarrow> u32" where
  "ahci_sector_size ID = (if flag_check (field_validity ID) (push_bit 12 1) then ucast (multi_sector_setting ID) * 2 else 512)"

definition GetMassStorageLogicalBlockSize ::
  "'d drivers \<Rightarrow> ata_identity \<Rightarrow> u64 \<Rightarrow> bytes \<Rightarrow> u64 \<Rightarrow> memory \<Rightarrow> (u64 \<times> memory) option" where
  "GetMassStorageLogicalBlockSize ops ID Handle Device Mtx m =
    (if driver_of Device = Some AHCI then Some (ucast (ahci_sector_size ID), m)
     else if driver_of Device = Some NVMe then do {
       m \<leftarrow> MutexPoll (waiting ops) Mtx m;
       (if LBADataSize ID < 32 then Some (ucast (push_bit (unat (LBADataSize ID)) 1 :: u32), m) else None)
     }
     else if Handle = - 1 \<or> Handle = 1 then map_option (\<lambda>n. (n, m)) (atapi_sizes ID)
     else None)"

definition GetMassStorageData :: "'d drivers \<Rightarrow> bytes \<Rightarrow> u64 \<Rightarrow> u64 \<Rightarrow> u64 \<Rightarrow> u64 \<Rightarrow> 'd storage \<Rightarrow> 'd storage" where
  "GetMassStorageData ops Device Queue Position nbytes Data st =
    (case driver_of Device of
       None \<Rightarrow> st
     | Some dr \<Rightarrow> let (bs, dev) = fetch ops dr Queue Position nbytes (sdev st)
                 in st\<lparr>smem := write_bytes (smem st) Data bs, sdev := dev\<rparr>)"

definition StoreMassStorageData :: "'d drivers \<Rightarrow> bytes \<Rightarrow> u64 \<Rightarrow> u64 \<Rightarrow> u64 \<Rightarrow> u64 \<Rightarrow> 'd storage \<Rightarrow> 'd storage" where
  "StoreMassStorageData ops Device Queue Position nbytes Data st =
    (case driver_of Device of
       None \<Rightarrow> st
     | Some dr \<Rightarrow> st\<lparr>sdev := deliver ops dr Queue Position (read_bytes (smem st) Data (unat nbytes)) (sdev st)\<rparr>)"

section \<open>Reading and writing\<close>

definition zero_block :: "u64 \<Rightarrow> u64 \<Rightarrow> memory \<Rightarrow> memory" where
  "zero_block a n m = write_bytes m a (replicate (unat n) 0)"

text \<open>Both go through the temporary block \<open>Temp\<close> of whole logical blocks, and end by copying it to the
  caller's buffer.\<close>

definition via_block ::
  "('d storage \<Rightarrow> 'd storage) \<Rightarrow> 'd drivers \<Rightarrow> ata_identity \<Rightarrow> u64 \<Rightarrow> bytes \<Rightarrow> u64 \<Rightarrow> u64 \<Rightarrow> u64 \<Rightarrow> u64 \<Rightarrow> 'd storage \<Rightarrow> 'd storage option" where
  "via_block move ops ID Handle Device Mtx nbytes Data Temp st = do {
     (size, m) \<leftarrow> GetMassStorageLogicalBlockSize ops ID Handle Device Mtx (smem st);
     let LBS = (ucast size :: u32);
     m \<leftarrow> MutexPoll (waiting ops) Mtx m;
     (if LBS = 0 then None
      else do {
        let st = move (st\<lparr>smem := zero_block Temp (c_roundup nbytes (ucast LBS)) m\<rparr>);
        m \<leftarrow> MutexPoll (waiting ops) Mtx (smem st);
        let (s, m) = memcpy (ssse st) m Data Temp nbytes;
        Some (st\<lparr>smem := m, ssse := s\<rparr>)
      })
   }"

definition MassStorageRead ::
  "'d drivers \<Rightarrow> ata_identity \<Rightarrow> u64 \<Rightarrow> bytes \<Rightarrow> u64 \<Rightarrow> u64 \<Rightarrow> u64 \<Rightarrow> u64 \<Rightarrow> u64 \<Rightarrow> u64 \<Rightarrow> 'd storage \<Rightarrow> 'd storage option" where
  "MassStorageRead ops ID Handle Device Mtx Queue Offset nbytes Data Temp =
    via_block (GetMassStorageData ops Device Queue Offset nbytes Temp) ops ID Handle Device Mtx nbytes Data Temp"

definition MassStorageWrite ::
  "'d drivers \<Rightarrow> ata_identity \<Rightarrow> u64 \<Rightarrow> bytes \<Rightarrow> u64 \<Rightarrow> u64 \<Rightarrow> u64 \<Rightarrow> u64 \<Rightarrow> u64 \<Rightarrow> u64 \<Rightarrow> 'd storage \<Rightarrow> 'd storage option" where
  "MassStorageWrite ops ID Handle Device Mtx Queue Offset nbytes Data Temp =
    via_block (StoreMassStorageData ops Device Queue Offset nbytes Temp) ops ID Handle Device Mtx nbytes Data Temp"

section \<open>Raw handles\<close>

record rawenv =
  rDevice :: bytes
  rMutex :: u64
  rQueue :: u64
  rHandle :: u64
  RealBlockSize :: u32
  CalcBlocks :: u32
  PartitionBase :: u64

text \<open>The structure that \<open>OpenRawHandle\<close> fills in, with the handle and the queue that the driver gives; the
  pointer to it is not returned.  The mutex of the structure is the handle, in a chained assignment.\<close>

definition OpenRawHandle ::
  "'d drivers \<Rightarrow> ata_identity \<Rightarrow> u64 \<Rightarrow> u64 \<Rightarrow> bytes \<Rightarrow> u32 \<Rightarrow> u64 \<Rightarrow> u64 \<Rightarrow> memory \<Rightarrow> (rawenv \<times> memory) option" where
  "OpenRawHandle ops ID handle q device BlockSize Partition Mtx m = do {
     (LBS, m) \<leftarrow> GetMassStorageLogicalBlockSize ops ID handle device Mtx m;
     (if LBS = 0 then None
      else Some (\<lparr>rDevice = device, rMutex = handle, rQueue = q, rHandle = handle, RealBlockSize = ucast LBS,
                  CalcBlocks = ucast ((ucast BlockSize :: u64) div LBS + of_bool ((ucast BlockSize :: u64) mod LBS \<noteq> 0)),
                  PartitionBase = Partition\<rparr>, m))
   }"

definition block_bytes :: "rawenv \<Rightarrow> u32" where "block_bytes re = RealBlockSize re * CalcBlocks re"

definition block_start :: "rawenv \<Rightarrow> u64 \<Rightarrow> u64" where
  "block_start re P = (P - ucast (block_bytes re + 1)) div ucast (block_bytes re) * ucast (block_bytes re)"

definition block_offset :: "rawenv \<Rightarrow> u64 \<Rightarrow> u64" where
  "block_offset re P =
    PartitionBase re * ucast (RealBlockSize re) +
    (P - PartitionBase re) * ucast (RealBlockSize re) * ucast (CalcBlocks re)"

definition buffer_size :: "rawenv \<Rightarrow> u64 \<Rightarrow> u64" where
  "buffer_size re BLOCKS = ucast (CalcBlocks re) * c_roundup (ucast (RealBlockSize re) * BLOCKS) (ucast (RealBlockSize re))"

definition transfer_size :: "rawenv \<Rightarrow> u64 \<Rightarrow> u64" where
  "transfer_size re BLOCKS = c_roundup (ucast (block_bytes re) * BLOCKS) (ucast (RealBlockSize re))"

definition ReadRawHandleBlocks ::
  "'d drivers \<Rightarrow> ata_identity \<Rightarrow> rawenv \<Rightarrow> u64 \<Rightarrow> u64 \<Rightarrow> u64 \<Rightarrow> u64 \<Rightarrow> 'd storage \<Rightarrow> (u64 \<times> 'd storage) option" where
  "ReadRawHandleBlocks ops ID re P BLOCKS Out Temp st =
    (if block_bytes re = 0 then None
     else
       let P = block_start re P in
       if P < PartitionBase re then Some (0, st)
       else do {
         st \<leftarrow> MassStorageRead ops ID (rHandle re) (rDevice re) (rMutex re) (rQueue re) (block_offset re P)
                (transfer_size re BLOCKS) Out Temp (st\<lparr>smem := zero_block Out (buffer_size re BLOCKS) (smem st)\<rparr>);
         m \<leftarrow> MutexPoll (waiting ops) (rMutex re) (smem st);
         Some (Out, st\<lparr>smem := m\<rparr>)
       })"

definition WriteRawHandleBlocks ::
  "'d drivers \<Rightarrow> ata_identity \<Rightarrow> rawenv \<Rightarrow> u64 \<Rightarrow> u64 \<Rightarrow> u64 \<Rightarrow> u64 \<Rightarrow> u64 \<Rightarrow> 'd storage \<Rightarrow> (bool \<times> 'd storage) option" where
  "WriteRawHandleBlocks ops ID re P BLOCKS DATA In Temp st =
    (if RealBlockSize re = 0 then None
     else if P mod ucast (RealBlockSize re) \<noteq> 0 then Some (False, st)
     else
       let m = zero_block In (buffer_size re BLOCKS) (smem st);
           (s, m) = memcpy (ssse st) m DATA In (BLOCKS * ucast (RealBlockSize re) * ucast (CalcBlocks re))
       in do {
         st \<leftarrow> MassStorageWrite ops ID (rHandle re) (rDevice re) (rMutex re) (rQueue re) (block_offset re P)
                (transfer_size re BLOCKS) In Temp (st\<lparr>smem := m, ssse := s\<rparr>);
         m \<leftarrow> MutexPoll (waiting ops) (rMutex re) (smem st);
         Some (True, st\<lparr>smem := m\<rparr>)
       })"

definition WriteRawHandleBytes ::
  "'d drivers \<Rightarrow> ata_identity \<Rightarrow> rawenv \<Rightarrow> u64 \<Rightarrow> u64 \<Rightarrow> u64 \<Rightarrow> u64 \<Rightarrow> u64 \<Rightarrow> u64 \<Rightarrow> 'd storage \<Rightarrow> (bool \<times> 'd storage) option" where
  "WriteRawHandleBytes ops ID re P BYTES DATA Out In Temp st = do {
     (temp, st) \<leftarrow> ReadRawHandleBlocks ops ID re P BYTES Out Temp st;
     let (s, m) = memcpy (ssse st) (smem st) (temp + P mod ucast (RealBlockSize re)) DATA BYTES;
     WriteRawHandleBlocks ops ID re P BYTES temp In Temp (st\<lparr>smem := m, ssse := s\<rparr>)
   }"

section \<open>AHCI command tables\<close>

definition AHCI_TRANSFERBLOCKSIZE :: u64 where "AHCI_TRANSFERBLOCKSIZE = 8 * 1024"
definition READ_DMA_EXT :: u8 where "READ_DMA_EXT = 0x25"
definition AHCIFISHostToDeviceRegister :: u8 where "AHCIFISHostToDeviceRegister = 0x27"

text \<open>A free slot: \<open>p\<close> is the address of the variable that counts the slots, which the loop compares with
  their number, and the test inside holds of every slot.  \<open>None\<close> is the end of the function without a value.\<close>

definition sizeof_HBACommandHeader :: u64 where "sizeof_HBACommandHeader = 32"

definition AHCISearchOpenCommandSlot :: "u64 \<Rightarrow> 6 word \<Rightarrow> u32 \<Rightarrow> u32 \<Rightarrow> u32 \<Rightarrow> u64 option" where
  "AHCISearchOpenCommandSlot p NumberOfCommandSlots High Low slot =
    (if p < ucast NumberOfCommandSlots
     then Some (push_bit 32 (ucast High) + ucast Low * sizeof_HBACommandHeader + ucast slot * sizeof_HBACommandHeader)
     else None)"

definition PRDTableLength :: "u64 \<Rightarrow> u16" where
  "PRDTableLength nbytes = ucast (drop_bit 4 (nbytes - 1)) + 1"

text \<open>The entries, an address and a byte count each, and the bytes left over.\<close>

fun ahci_table :: "(u64 \<Rightarrow> u64) \<Rightarrow> u64 \<Rightarrow> nat list \<Rightarrow> u64 \<Rightarrow> (u64 \<times> 22 word) list \<times> u64" where
  "ahci_table mp buffer [] nbytes = ([], nbytes)"
| "ahci_table mp buffer (cc # ccs) nbytes =
    (let e = (mp (buffer + of_nat cc * AHCI_TRANSFERBLOCKSIZE), ucast (c_min (AHCI_TRANSFERBLOCKSIZE - 1) nbytes));
         (es, left) = ahci_table mp buffer ccs
                        (if nbytes > AHCI_TRANSFERBLOCKSIZE then nbytes - AHCI_TRANSFERBLOCKSIZE else 0)
     in (e # es, left))"

definition ahci_command_table :: "(u64 \<Rightarrow> u64) \<Rightarrow> u64 \<Rightarrow> u64 \<Rightarrow> (u64 \<times> 22 word) list \<times> u64" where
  "ahci_command_table mp buffer nbytes = ahci_table mp buffer [0..<unat (PRDTableLength nbytes)] nbytes"

text \<open>The command sent for a read, and for a write as well.\<close>

definition ahci_fis :: "u64 \<Rightarrow> u64 \<Rightarrow> bytes" where
  "ahci_fis LBA Count =
    [AHCIFISHostToDeviceRegister, push_bit 7 1, READ_DMA_EXT, 0,
     ucast LBA, ucast (drop_bit 8 LBA), ucast (drop_bit 16 LBA), push_bit 6 1,
     ucast (drop_bit 24 LBA), ucast (drop_bit 32 LBA), ucast (drop_bit 40 LBA), 0] @
    le_bytes 2 (unat (ucast Count :: u16)) @ [0, 0] @ [0, 0, 0, 0]"

text \<open>The queue of an AHCI device: the counter of the handle is advanced while no implemented port is left at
  or above it.  A shift by 32 or more is undefined.\<close>

function ahci_queue :: "u32 \<Rightarrow> nat \<Rightarrow> nat option" where
  "ahci_queue implemented flags =
    (if flags \<ge> 32 then None
     else if drop_bit flags implemented = 0 then ahci_queue implemented (flags + 1)
     else Some flags)"
  by pat_completeness auto
termination
  by (relation "measure (\<lambda>(_, flags). 32 - flags)") auto

declare ahci_queue.simps [simp del]

section \<open>Transfers through the temporary block\<close>

text \<open>Without a mutex there is no waiting.\<close>

lemma MutexPoll_none [simp]: "MutexPoll wait 0 m = Some m"
  by (simp add: MutexPoll_def LockMutex_def)

text \<open>A poll leaves its mutex locked.\<close>

lemma MutexPoll_locks: "MutexPoll wait Mtx m = Some m' \<Longrightarrow> Mtx \<noteq> 0 \<Longrightarrow> m' Mtx = MutexDisableFlag"
  by (auto simp: MutexPoll_def LockMutex_def split: if_splits)

lemma MutexPoll_locked: "m Mtx = MutexDisableFlag \<Longrightarrow> Mtx \<noteq> 0 \<Longrightarrow> wait m = None \<Longrightarrow> MutexPoll wait Mtx m = None"
  by (simp add: MutexPoll_def flag_defs)

lemma via_block_copies:
  assumes size: "driver_of Device = Some AHCI" "ahci_sector_size ID \<noteq> 0" and wf: "wf_sse (ssse (st :: 'd storage))"
    and d: "disjoint_regions Data (unat n) Temp (unat n)"
    and st': "st' = move (st\<lparr>smem := zero_block Temp (c_roundup n (ucast (ahci_sector_size ID))) (smem st)\<rparr>)"
    and keeps: "ssse st' = ssse st"
  shows "\<exists>s. via_block move ops ID Handle Device 0 n Data Temp st =
    Some (st'\<lparr>smem := write_bytes (smem st') Data (read_bytes (smem st') Temp (unat n)), ssse := s\<rparr>)"
proof -
  have "(ucast (ucast (ahci_sector_size ID) :: u64) :: u32) = ahci_sector_size ID" by simp
  then show ?thesis
    using size memcpy_memory [OF wf d, of "smem st'"] keeps
    by (auto simp: via_block_def GetMassStorageLogicalBlockSize_def st' Let_def case_prod_unfold)
qed

lemma unat_wider:
  "LENGTH('a) \<le> LENGTH('b) \<Longrightarrow> unat (ucast (x :: 'a::len word) :: 'b::len word) = unat x"
  using unsigned_less [of x, where 'a = nat] power_increasing [of "LENGTH('a)" "LENGTH('b)" "2 :: nat"]
  by (intro unat_ucast_small) linarith

lemma zero_block_reads:
  assumes "0 < unat i" "unat n + unat i \<le> 2 ^ 64"
  shows "read_bytes (zero_block a (c_roundup n i) m) a (unat n) = replicate (unat n) 0"
proof -
  define k where "k = unat (c_roundup n i)"
  have "unat n \<le> (unat n + unat i - 1) div unat i * unat i"
    using assms(1) div_mult_mod_eq [of "unat n + unat i - 1" "unat i"] mod_less_divisor [OF assms(1), of "unat n + unat i - 1"]
    by linarith
  then have k: "unat n \<le> k" using assms by (simp add: k_def c_roundup_unat)
  have "k < 2 ^ 64" by (simp add: k_def unat_u64_less [simplified])
  then have "read_bytes (write_bytes m a (replicate k 0)) a k = replicate k 0"
    using read_write_bytes [of "replicate k 0" m a] by simp
  then have "take (unat n) (read_bytes (write_bytes m a (replicate k 0)) a k) = take (unat n) (replicate k 0)" by simp
  with k show ?thesis by (simp add: zero_block_def k_def read_bytes_def take_map min_def)
qed

text \<open>A read from an AHCI device puts into the buffer what the driver fetched.\<close>

theorem MassStorageRead_delivers:
  assumes "driver_of Device = Some AHCI" "ahci_sector_size ID \<noteq> 0" "wf_sse (ssse st)"
    and "disjoint_regions Data (unat n) Temp (unat n)"
    and "fetch ops AHCI Queue Offset n (sdev st) = (bs, dev)" "length bs = unat n"
  shows "\<exists>st'. MassStorageRead ops ID Handle Device 0 Queue Offset n Data Temp st = Some st' \<and>
    read_bytes (smem st') Data (unat n) = bs \<and> sdev st' = dev"
proof -
  define st1 where "st1 = GetMassStorageData ops Device Queue Offset n Temp
    (st\<lparr>smem := zero_block Temp (c_roundup n (ucast (ahci_sector_size ID))) (smem st)\<rparr>)"
  have l: "length bs \<le> 2 ^ 64" using assms(6) unat_u64_less [of n] by simp
  have st1: "ssse st1 = ssse st" "sdev st1 = dev" "read_bytes (smem st1) Temp (unat n) = bs"
    using assms(1,5) read_write_bytes [OF l] by (simp_all add: st1_def GetMassStorageData_def flip: assms(6))
  from via_block_copies [where move = "GetMassStorageData ops Device Queue Offset n Temp", OF assms(1-4) st1_def st1(1)] st1(2,3) read_write_bytes [OF l] assms(6)
  show ?thesis by (fastforce simp: MassStorageRead_def)
qed

text \<open>A write to an AHCI device hands zeros to the driver, whatever the buffer holds, and fills the buffer
  with zeros.\<close>

theorem MassStorageWrite_loses_data:
  assumes "driver_of Device = Some AHCI" "ahci_sector_size ID \<noteq> 0" "wf_sse (ssse st)"
    and "disjoint_regions Data (unat n) Temp (unat n)" and "unat n + 2 ^ 32 \<le> 2 ^ 64"
  shows "\<exists>st'. MassStorageWrite ops ID Handle Device 0 Queue Offset n Data Temp st = Some st' \<and>
    sdev st' = deliver ops AHCI Queue Offset (replicate (unat n) 0) (sdev st) \<and>
    read_bytes (smem st') Data (unat n) = replicate (unat n) 0"
proof -
  define st1 where "st1 = StoreMassStorageData ops Device Queue Offset n Temp
    (st\<lparr>smem := zero_block Temp (c_roundup n (ucast (ahci_sector_size ID))) (smem st)\<rparr>)"
  have "unat (ucast (ahci_sector_size ID) :: u64) = unat (ahci_sector_size ID)" by (simp add: unat_wider)
  moreover have "unat (ahci_sector_size ID) < 2 ^ 32" "0 < unat (ahci_sector_size ID)"
    using assms(2) unsigned_less [of "ahci_sector_size ID", where 'a = nat] by (simp_all add: unat_gt_0)
  ultimately have z: "read_bytes (zero_block Temp (c_roundup n (ucast (ahci_sector_size ID))) (smem st)) Temp (unat n) = replicate (unat n) 0"
    using assms(5) by (intro zero_block_reads) simp_all
  have st1: "ssse st1 = ssse st" "sdev st1 = deliver ops AHCI Queue Offset (replicate (unat n) 0) (sdev st)"
    "read_bytes (smem st1) Temp (unat n) = replicate (unat n) 0"
    using assms(1) z by (simp_all add: st1_def StoreMassStorageData_def)
  have l: "length (replicate (unat n) (0 :: u8)) \<le> 2 ^ 64" using unat_u64_less [of n] by simp
  from via_block_copies [where move = "StoreMassStorageData ops Device Queue Offset n Temp", OF assms(1-4) st1_def st1(1)] st1(2,3) read_write_bytes [OF l, of "smem st1" Data]
  show ?thesis by (fastforce simp: MassStorageWrite_def)
qed

text \<open>With a mutex neither returns on an AHCI device: the first poll locks the mutex, the handler of the AHCI
  interrupt opens none, and the second poll waits for it.\<close>

lemma ahci_waits_for_ever:
  assumes "driver_of Device = Some AHCI" "Mtx \<noteq> 0" "\<And>m. waiting ops m = None"
    and "\<And>st. smem (move st) Mtx = smem st Mtx" and "\<And>n m. zero_block Temp n m Mtx = m Mtx"
  shows "via_block move ops ID Handle Device Mtx n Data Temp st = None"
proof (cases "MutexPoll (waiting ops) Mtx (smem st)")
  case None
  with assms(1) show ?thesis by (simp add: via_block_def GetMassStorageLogicalBlockSize_def Let_def)
next
  case (Some m)
  then have "m Mtx = MutexDisableFlag" using assms(2) by (rule MutexPoll_locks)
  then have "MutexPoll (waiting ops) Mtx (smem (move (st\<lparr>smem := zero_block Temp k m\<rparr>))) = None" for k
    using assms by (intro MutexPoll_locked) simp_all
  with Some assms(1) show ?thesis by (simp add: via_block_def GetMassStorageLogicalBlockSize_def Let_def)
qed

section \<open>Positions of raw handles\<close>

text \<open>The block that a position is rounded down to is not the one it lies in: it is one block below, and two
  blocks below for a position at the start of a block.\<close>

lemma div_below:
  assumes "r < x" "2 \<le> k" "2 \<le> (x :: nat)"
  shows "(k * x + r - (x + 1)) div x = (if r = 0 then k - 2 else k - 1)"
proof -
  obtain j where k: "k = j + 2" using assms(2) by (metis add.commute le_Suc_ex)
  show ?thesis
  proof (cases "r = 0")
    case True
    then have "k * x + r - (x + 1) = j * x + (x - 1)" using assms by (simp add: k algebra_simps)
    then show ?thesis using True assms k by (simp only: div_mult_self3) simp
  next
    case False
    then have "k * x + r - (x + 1) = (j + 1) * x + (r - 1)" using assms by (simp add: k algebra_simps)
    then show ?thesis using False assms k by (simp only: div_mult_self3) simp
  qed
qed

lemma block_start_below:
  assumes "unat (block_bytes re) = x" "2 \<le> x" "x + 1 < 2 ^ 32"
    and "unat P = k * x + r" "r < x" "2 \<le> k"
  shows "unat (block_start re P) = (if r = 0 then k - 2 else k - 1) * x"
proof -
  have u: "unat (ucast (block_bytes re) :: u64) = x" using assms(1) by (simp add: unat_wider)
  have "unat (block_bytes re + 1) = x + 1" using assms by (subst unat_add_small) simp_all
  then have s: "unat (ucast (block_bytes re + 1) :: u64) = x + 1" by (simp add: unat_wider)
  have "x + 1 \<le> 2 * x" using assms(2) by simp
  also have "\<dots> \<le> k * x" using assms(6) by (rule mult_le_mono1)
  finally have "x + 1 \<le> unat P" using assms(4) by simp
  then have "unat (P - ucast (block_bytes re + 1)) = k * x + r - (x + 1)" using s assms(4) by (simp add: unat_sub_small)
  then have d: "unat ((P - ucast (block_bytes re + 1)) div ucast (block_bytes re)) = (if r = 0 then k - 2 else k - 1)"
    using div_below [OF assms(5,6,2)] by (simp add: unat_div_distrib u)
  have "(if r = 0 then k - 2 else k - 1) * x \<le> k * x" by (intro mult_le_mono1) simp
  also have "\<dots> \<le> unat P" using assms(4) by simp
  also have "\<dots> < 2 ^ 64" by (rule unat_u64_less)
  finally show ?thesis unfolding block_start_def by (subst unat_mult_small) (simp_all only: d u, simp)
qed

section \<open>The tables and queues of AHCI\<close>

lemma unat_left:
  "unat (if n > AHCI_TRANSFERBLOCKSIZE then n - AHCI_TRANSFERBLOCKSIZE else 0) = unat n - 8192"
  by (simp add: AHCI_TRANSFERBLOCKSIZE_def word_less_nat_alt unat_sub_small)

lemma ahci_table_left: "unat (snd (ahci_table mp buffer ccs n)) = unat n - 8192 * length ccs"
proof (induction ccs arbitrary: n)
  case (Cons cc ccs)
  then show ?case using unat_left [of n] by (simp add: Let_def case_prod_unfold)
qed simp

text \<open>The table of a transfer of at most half a megabyte takes all of it; beyond, the number of entries, which is
  taken for blocks of 16 bytes, wraps round.\<close>

lemma ahci_command_table_complete:
  assumes "n \<noteq> 0" "unat n \<le> 2 ^ 19"
  shows "snd (ahci_command_table mp buffer n) = 0"
proof -
  have half: "u < 8192 * (u div 16 + 1)" for u :: nat
    using dividend_less_times_div [of 16 u] by simp
  have p: "unat (n - 1) = unat n - 1" using unat_pred [OF assms(1)] by simp
  have "unat (drop_bit 4 (n - 1)) = (unat n - 1) div 16" by (simp add: drop_bit_eq_div unat_div_distrib p)
  moreover have q: "(unat n - 1) div 16 < 2 ^ 15" using assms(2) by (simp add: less_mult_imp_div_less)
  ultimately have "unat (ucast (drop_bit 4 (n - 1)) :: u16) = (unat n - 1) div 16" by (simp add: unat_ucast_small)
  then have "unat (PRDTableLength n) = (unat n - 1) div 16 + 1"
    using q unfolding PRDTableLength_def by (subst unat_add_small) simp_all
  moreover have "unat n \<le> 8192 * ((unat n - 1) div 16 + 1)"
    using half [of "unat n - 1"] by linarith
  ultimately have "unat (snd (ahci_command_table mp buffer n)) = 0"
    by (simp add: ahci_command_table_def ahci_table_left)
  then show ?thesis by (simp add: unat_eq_zero)
qed

text \<open>The slot search never finds one: a variable does not live in the first 64 bytes.\<close>

lemma AHCISearchOpenCommandSlot_none: "64 \<le> p \<Longrightarrow> AHCISearchOpenCommandSlot p N High Low slot = None"
proof -
  assume "64 \<le> p"
  moreover have "unat (ucast N :: u64) < 64"
    using unsigned_less [of N, where 'a = nat] by (simp add: unat_wider)
  ultimately show ?thesis by (auto simp: AHCISearchOpenCommandSlot_def word_less_nat_alt word_le_nat_alt)
qed

text \<open>The address in the command is the sector number, least significant bytes first.\<close>

lemma ahci_fis_lba:
  "le_nat (take 3 (drop 4 (ahci_fis LBA c)) @ take 3 (drop 8 (ahci_fis LBA c))) = unat LBA mod 2 ^ 48"
proof -
  have "le_bytes 6 (unat LBA) = map (\<lambda>i. ucast (drop_bit (8 * i) LBA)) [0..<6]" by (rule le_bytes_word)
  then have "take 3 (drop 4 (ahci_fis LBA c)) @ take 3 (drop 8 (ahci_fis LBA c)) = le_bytes 6 (unat LBA)"
    by (simp add: ahci_fis_def upt_rec)
  then show ?thesis by (simp add: le_nat_le_bytes)
qed

text \<open>The queue chosen is the first one at which an implemented port is left, itself implemented or not.\<close>

lemma ahci_queue_here: "flags < 32 \<Longrightarrow> drop_bit flags implemented \<noteq> 0 \<Longrightarrow> ahci_queue implemented flags = Some flags"
  by (subst ahci_queue.simps) simp

lemma ahci_queue_unimplemented: "ahci_queue 2 0 = Some 0 \<and> \<not> bit (2 :: u32) 0"
  by (simp add: ahci_queue_here)

end
