(* ===== verification/Spec2Isabelle.thy ===== *)
theory Spec2Isabelle
  imports Kernel_Memory Kernel_String Kernel_Format Kernel_Math Kernel_Acpi Kernel_Clock Frat_Session Boot_Bmp Boot_Link Kernel_Timer Kernel_Pcie Kernel_PageMap Kernel_Storage
begin

text \<open>
  BlockyOS: the kernel runtime library, the FRAT file system, and the readers of the boot loader.

  \<^bold>\<open>The program.\<close>  BlockyOS is an operating system for 64-bit PCs.  Its kernel library
  (\<^verbatim>\<open>src/src/kernel/libcrt\<close>) has the memory and string routines, formatted output, integer
  mathematics, the page tables and page bookkeeping, the heap, the segment and interrupt descriptors,
  the firmware tables and interrupt controllers, and the clock.  The host tool for disk images
  (\<^verbatim>\<open>src/tools/filesystem\<close>) has the FRAT file system: a raw block layer over an image file, a cluster
  map, files, directories, formatting and mounting.  The boot loader (\<^verbatim>\<open>src/src/Boot/UEFI/drivers\<close>) reads
  files of that file system through sockets: images for the boot screen, and executables that it loads
  with the libraries they import.  The development models these three parts.

  \<^bold>\<open>Kernel theories.\<close>
  \<^item> \<^verbatim>\<open>Prelude\<close>: machine integers, the macros of \<^verbatim>\<open>math.h\<close> and \<^verbatim>\<open>tools.h\<close>, byte memory (a byte for
    every 64-bit address), little-endian values, regions and their disjointness.
  \<^item> \<^verbatim>\<open>SSE_Registers\<close> (\<^verbatim>\<open>hardware/SSE\<close>): the pool of vector registers that \<open>memset\<close> and \<open>memcpy\<close> draw
    from.  Its invariant, and what allocation, saving and restoring really do.
  \<^item> \<^verbatim>\<open>Kernel_Memory\<close> (\<^verbatim>\<open>memory/memory.c\<close>): \<open>memset\<close>, \<open>memcpy\<close>, \<open>memmove_s\<close>, \<open>memcmp\<close>, the checksum and the
    scans.  Each is shown equal to its specification on bytes for every length, whether or not a
    register can be had; what is said of \<open>memmove_s\<close> is only for a page allocator that returns.
  \<^item> \<^verbatim>\<open>Kernel_String\<close> (\<^verbatim>\<open>memory/string.c\<close>), \<^verbatim>\<open>Kernel_Format\<close> (\<^verbatim>\<open>SimpleOutput\<close>), \<^verbatim>\<open>Kernel_Math\<close> (\<^verbatim>\<open>math/math.c\<close>):
    comparison, number parsing, the wildcard matcher against a declarative matching relation;
    printing, its bound and its round trip with parsing; powers, roots and the random generators.  The
    counters of the formatted copy have the 32 bits of the source.
  \<^item> \<^verbatim>\<open>Kernel_PageTables\<close> (\<^verbatim>\<open>hardware/paging/paging.c\<close>, \<^verbatim>\<open>paging.h\<close>): the table entries and addresses as
    records with their 64-bit images, \<open>MapPhysical\<close> refined against the processor's page walk, the
    walks of the page tree.
  \<^item> \<^verbatim>\<open>Kernel_PageAlloc\<close> (\<^verbatim>\<open>hardware/paging/palloc.c\<close>): descriptors of physical ranges, best-fit search,
    lookup by address, aligned allocation.
  \<^item> \<^verbatim>\<open>Kernel_PageMap\<close> (\<^verbatim>\<open>hardware/paging/palloc.c\<close>): the loop of \<open>AllocatePages\<close> over page tables in byte memory,
    \<open>FreePages\<close>, \<open>RepointVirtualAddress\<close>, the update of the bookkeeping, and the sizes of its tables.  It composes
    the walk of \<open>Kernel_PageTables\<close> with the lookups of \<open>Kernel_PageAlloc\<close> and \<open>memset\<close>; which requests and memory
    maps it cannot end on is shown.
  \<^item> \<^verbatim>\<open>Kernel_Malloc\<close> (\<^verbatim>\<open>memory/allocator/mmalloc.c\<close>): pools and descriptor tables in byte memory,
    allocation, reallocation, release; the table as a list of descriptors and what a push does to it.
  \<^item> \<^verbatim>\<open>Kernel_Interrupts\<close> (\<^verbatim>\<open>hardware/GDT\<close>, \<^verbatim>\<open>hardware/IDT\<close>): descriptor images, descriptor allocation, the
    callback table, installing and removing callbacks.
  \<^item> \<^verbatim>\<open>Kernel_Acpi\<close> (\<^verbatim>\<open>hardware/ACPI\<close>, \<^verbatim>\<open>hardware/IDT/APIC\<close>): validation of and search for firmware tables,
    the local APIC, the I/O APIC.  The locale \<open>register_window\<close> is what the I/O APIC code relies on; it is
    interpreted for the documented chip over a set of tables in memory.  Its lemmas hold for a translation
    of addresses that is a function, which the kernel's own is not.
  \<^item> \<^verbatim>\<open>Kernel_Timer\<close> (\<^verbatim>\<open>hardware/IDT/APIC/LocalAPICTimer.c\<close>): the linked list of timer events in a store,
    extended by \<open>AddTimerEvent\<close>, the choice and the run of an event by the interrupt handler, the
    registers set by the calibration.  The list and the pointer to the local APIC are found behind the stack of
    an interrupt vector.  Adding an event appends it to the list.
  \<^item> \<^verbatim>\<open>Kernel_Pcie\<close> (\<^verbatim>\<open>hardware/PCIe\<close>): the configuration space found through the firmware tables, reading
    and writing of ranges and their round trip, base address registers and the size of a region, the
    search for a device and for a capability, message interrupts.
  \<^item> \<^verbatim>\<open>Kernel_Atapi\<close> (\<^verbatim>\<open>services/IO/controllers/ATAPI.h\<close>): ports, queues, packets, the descriptor tables of the
    bus master and the transfers of the ATAPI driver, over port instructions that are an argument.  The
    table of a write covers its buffer; the table of a read ends with its first entry.
  \<^item> \<^verbatim>\<open>Kernel_Storage\<close> (\<^verbatim>\<open>services/IO/IO.c\<close>, \<^verbatim>\<open>controllers/AHCI.h\<close>): the storage service over its drivers.  A read
    delivers what the driver fetched; a write is shown to hand zeros to the device.  Raw handles and the
    command tables of AHCI.
  \<^item> \<^verbatim>\<open>Kernel_Clock\<close> (\<^verbatim>\<open>hardware/hardware.c\<close>, \<^verbatim>\<open>hardware/RNG\<close>): calendar, clock registers, ranged random numbers.

  \<^bold>\<open>File system theories.\<close>
  \<^item> \<^verbatim>\<open>Frat_Raw\<close> (\<^verbatim>\<open>raw.c\<close>): blocks of an image file.  The locale \<open>block_store\<close> is its contract with the
    layers above (what a read returns after a write, and what a write leaves alone); the raw layer
    interprets it.
  \<^item> \<^verbatim>\<open>Frat_Map\<close> (\<^verbatim>\<open>frat.c\<close>, \<^verbatim>\<open>frat.h\<close>): the mounted file system as a record of its root and cluster map,
    the family of clusters of a file, allocation, search, extension and removal.  The well-formedness
    of a mount is \<open>wf_root\<close>.
  \<^item> \<^verbatim>\<open>Frat_File\<close>: blocks of files, sizes, seeking, and the byte streams \<open>_fread\<close> and \<open>_fwrite\<close>.  A file
    in order (\<open>file_ok\<close>) is abstracted to the bytes it holds; writing then reading gives the data back
    and leaves every other byte.
  \<^item> \<^verbatim>\<open>Frat_Tools\<close> (\<^verbatim>\<open>tools.c\<close>): path hashing, line input, the tokenizer, string replacement.
  \<^item> \<^verbatim>\<open>Frat_Mount\<close>: partition tables, \<open>formatpart\<close>, \<open>fmount\<close>.  Formatting then mounting gives an empty,
    well-formed file system.  The search of the partition table clears 72 bytes of an array of 37
    (\<open>clears_name\<close>): the mount takes how many bytes behind the array hold nothing live, and is \<open>None\<close> below 35.
  \<^item> \<^verbatim>\<open>Frat_Dir\<close>: creating files and directories, directory blocks, flushing, listing and the walk.
    A file just created is in order, is found under its path and holds its name; flushing then
    mounting gives the same cluster map.
  \<^item> \<^verbatim>\<open>Frat_Session\<close>: all operations of the tool on one mount as a step relation over the file system and
    the handles that are open.  Every step keeps the geometry of the mount, keeps handles inside the
    map and leaves the image before the partition alone, so every reachable state does.  This theory
    closes with the properties of sessions; the life of a file system from formatting over any
    session to mounting again is at the end of this file.

  \<^bold>\<open>Boot theories.\<close>
  \<^item> \<^verbatim>\<open>Boot_Socket\<close> (\<^verbatim>\<open>socket/sockets.c\<close>, the reading path of \<^verbatim>\<open>.disk/fs/frat.c\<close>): sockets on files.  The
    locale \<open>byte_socket\<close> is what the readers below rely on; \<open>boot_file\<close>, a handle on a file in order, is
    shown to be one, and is interpreted on a file of a mounted disk.
  \<^item> \<^verbatim>\<open>Boot_Lzw\<close>, \<^verbatim>\<open>Boot_Gif\<close> (\<^verbatim>\<open>gif/gif.c\<close>, \<^verbatim>\<open>gif.h\<close>): the decoder of a raster against the decoder of the
    format, a dictionary of strings that reads every code inside the raster; the program stops before the
    codes of the last three bytes, and what it has by then is a first part of the picture.  The block structure
    of a GIF file, its frames, and a turn of the animation.  A GIF file written to the file system and opened
    through a socket shows these pixels.
  \<^item> \<^verbatim>\<open>Boot_Bmp\<close> (\<^verbatim>\<open>bmp/bmp.c\<close>): headers and rows of a bitmap against the layout of the file format
    (\<open>bmp_layout\<close>, \<open>bmp_pixel\<close>), for uncompressed files of 24 and 32 bits.  The bytes of a pixel that the
    program computes for fewer bits are modelled, and are not what the format has.
  \<^item> \<^verbatim>\<open>Boot_Pe\<close>, \<^verbatim>\<open>Boot_Exec\<close> (\<^verbatim>\<open>executable/pe.c\<close>, \<^verbatim>\<open>eload.c\<close>): headers, sections and tables of an executable,
    the tree of loaded executables and its search, the resolution of exports, the binding of imports
    and the loading of a file with its libraries.  A loaded image holds the sections \<open>.text\<close>, \<open>.data\<close>, \<open>.bss\<close> and
    \<open>.rdata\<close> at their addresses and zeros elsewhere; the search visits the tree in preorder and is \<open>None\<close> at an
    executable without a name, which the root of the source (\<open>Stub\<close>) is.
  \<^item> \<^verbatim>\<open>Boot_Link\<close>: exports are found by name and by ordinal, the import table holds the addresses of the
    imports, and a program is loaded below a named executable together with the library it needs, bound to
    its exports.

  \<^bold>\<open>How code is rendered.\<close>  Machine integers keep their width and wrap.  Structures are records,
  bit-field structures additionally have their images, and structures that live in memory are read and
  written byte by byte.  Null pointers are 0 or \<open>None\<close>.  State is passed explicitly.  Behaviour that C
  leaves undefined (a missing \<open>return\<close>, a division by zero, a null access, an access out of an array)
  is \<open>None\<close> or a value of its own, never a convenient result.  Where \<open>None\<close> stands for a loop that does not
  end (the formatted copy), faults are values of a type of their own (\<open>copy_fault\<close>).

  \<^bold>\<open>Loops.\<close>  Loops that always end are recursive functions with a measure.  Loops that may run forever
  (lists in memory, table searches, retries) are partial functions into \<open>option\<close>, and the theorems
  that speak of their result prove that they return.  Fuel occurs in \<open>find_slot\<close> and \<open>ist_loop\<close>: one more
  than the number of table entries, which is enough because every step advances by at least one entry.
  The first argument of \<open>LoadBinary\<close> bounds the nesting of libraries, which the source leaves unbounded;
  the theorems hold for every bound that reaches the depth of the libraries they speak of.

  \<^bold>\<open>Parameters.\<close>  Code outside the source tree is an argument of the definitions that use it: the BLAKE2
  digest of a path, control registers and table registers, the load instructions, processor
  identification, the firmware memory map, device registers and random words, the string comparisons
  of the firmware library, and the number of bytes behind a stack array that hold nothing live, which is the
  compiler's choice.  In the kernel theories
  the page allocator and the translation of physical addresses are arguments of the components that
  call them, with what those components rely on as hypotheses.

  \<^bold>\<open>Not modelled.\<close>  The rest of the boot loader and the kernel's own file service (calls of firmware
  services and of block devices around further copies of FRAT), the printing of executables and the
  command-line shell of the tool (output only), floating-point mathematics (its claims are numerical
  accuracy), the vendored BLAKE2 and debugger, the set-up of storage controllers and the NVMe and USB
  drivers (they fill in the structures of controllers whose behaviour the sources do not give), assembly,
  and the superseded 32-bit code.
\<close>

section \<open>The life of a file system\<close>

text \<open>C1: the whole life of a file system: formatting a partition succeeds and the disk mounts; after any
  session on that mount (any sequence of the operations of the tool) every byte of the disk before the
  partition, the partition tables included, is still the one of the original image, and flushing and
  mounting once more gives the same root with the cluster map the session ended with.  The partition is
  the first of its name in the partition table; the entries before it lie below it and hold no file
  system (the mount takes the first one that does), the table lies below the partition, and the partition
  is large enough for the log and for a map of at least 20 sectors, so that the mounted map has an entry.
  Each mount clears 35 bytes behind an array on the stack, so the frame is taken to hold nothing live
  there.\<close>

theorem file_system_life_cycle:
  assumes "names_partition img name e" and "format_fits (to_part e) conf nLog"
    and "20 \<le> map_sectors (to_part e) conf nLog" and "clears_name behind"
  shows "\<exists>img' r. formatpart img name conf nLog major minor = Some img' \<and> fmount behind img' = Some (Some r)
    \<and> (\<forall>fcode s. session_run fcode \<lparr>sfs = \<lparr>mnt = r, disk = img'\<rparr>, fhs = [], dhs = []\<rparr> s \<longrightarrow>
        (\<forall>off n c. off + n \<le> unat (sLBA e) * 512 \<longrightarrow> file_read img off n = Some c \<longrightarrow>
           file_read (disk (sfs s)) off n = Some c)
        \<and> (\<exists>r'. fmount behind (disk (fuloadroot (sfs s))) = Some (Some r') \<and> root r' = root r \<and> loc r' = sLBA e
           \<and> nClusterItems r' = nClusterItems r
           \<and> (\<forall>i < unat (nClusterItems r'). clusterMap r' ! i = clusterMap (mnt (sfs s)) ! i)))"
proof -
  obtain img' r pre where m: "formatpart img name conf nLog major minor = Some img'" "fmount behind img' = Some (Some r)"
    "wf_root r" "flush_fits r" "loc r = sLBA e" "lists_partition img' pre e"
    and k: "\<And>off n c. off + n \<le> unat (sLBA e) * 512 \<Longrightarrow> file_read img off n = Some c \<Longrightarrow> file_read img' off n = Some c"
    using formatted_session [OF assms, of major minor] by metis
  let ?s0 = "\<lparr>sfs = \<lparr>mnt = r, disk = img'\<rparr>, fhs = [], dhs = []\<rparr>"
  have start: "fhs ?s0 = []" "dhs ?s0 = []" "wf_root (mnt (sfs ?s0))" "flush_fits (mnt (sfs ?s0))"
    "lists_partition (disk (sfs ?s0)) pre e" "sLBA e = loc (mnt (sfs ?s0))" "ready (sfs ?s0)"
    using m flush_fits_map_fits by (simp_all add: ready_def)
  have "file_read (disk (sfs s)) off n = Some c"
    if "session_run fcode ?s0 s" "off + n \<le> unat (sLBA e) * 512" "file_read img off n = Some c" for fcode s off n c
    using session_keeps [OF that(1) start(7,1,2)] k [OF that(2,3)] that(2) m(5) by (simp add: keeps_def)
  moreover have "\<exists>r'. fmount behind (disk (fuloadroot (sfs s))) = Some (Some r') \<and> root r' = root r \<and> loc r' = sLBA e
      \<and> nClusterItems r' = nClusterItems r
      \<and> (\<forall>i < unat (nClusterItems r'). clusterMap r' ! i = clusterMap (mnt (sfs s)) ! i)"
    if "session_run fcode ?s0 s" for fcode s
    using session_remounts [OF that start(1-6) format_fits_end [OF assms(2)] assms(4)] m(5) by simp
  ultimately show ?thesis using m(1,2) by blast
qed

theorem file_system_life_cycle_witness:
  "\<exists>img' r r'. formatpart demo_disk (replicate 36 0) 64 1 1 0 = Some img' \<and> fmount 35 img' = Some (Some r)
     \<and> fmount 35 (disk (fuloadroot \<lparr>mnt = ffremovel (\<lambda>p. (7, 9)) r ''boot'', disk = img'\<rparr>)) = Some (Some r')
     \<and> root r' = root r \<and> loc r' = 3"
proof -
  have fits: "format_fits (to_part demo_entry) 64 1" "20 \<le> map_sectors (to_part demo_entry) 64 1"
    by (simp_all add: format_fits_def map_sectors_def to_part_def demo_entry_LBA)
  have room: "clears_name 35" by (simp add: clears_name_def GPTeNAMESIZE_def)
  obtain img' r where m: "formatpart demo_disk (replicate 36 0) 64 1 1 0 = Some img'" "fmount 35 img' = Some (Some r)"
    and all: "\<And>s. session_run (\<lambda>p. (7, 9)) \<lparr>sfs = \<lparr>mnt = r, disk = img'\<rparr>, fhs = [], dhs = []\<rparr> s \<Longrightarrow>
      \<exists>r'. fmount 35 (disk (fuloadroot (sfs s))) = Some (Some r') \<and> root r' = root r \<and> loc r' = sLBA demo_entry"
    using file_system_life_cycle [OF demo_named fits room, of 1 0] by blast
  let ?s0 = "\<lparr>sfs = \<lparr>mnt = r, disk = img'\<rparr>, fhs = [], dhs = []\<rparr>"
  have "session_run (\<lambda>p. (7, 9)) ?s0 (?s0\<lparr>sfs := (sfs ?s0)\<lparr>mnt := ffremovel (\<lambda>p. (7, 9)) (mnt (sfs ?s0)) ''boot''\<rparr>\<rparr>)"
    by (rule session_next [OF session_start step_remove_all])
  from all [OF this] m show ?thesis by (auto simp: demo_entry_LBA)
qed

end
